(* ===== verification/Prelude.thy ===== *)
theory Prelude
  imports Main "HOL-Library.Word" "HOL-Library.List_Lexorder" "HOL-Library.Char_ord"
    "HOL-Library.Code_Target_Nat" "HOL-Library.Multiset"
begin

text \<open>
  Shared vocabulary of the development: the widths of Rust's integers, a \<open>result\<close> type for
  \<open>Result<T, E>\<close> and for panics, the 256-bit arithmetic of the amounts and targets, decimal and
  hexadecimal text, and the list and option lemmas the components share.
  Strings are byte strings (\<^typ>\<open>string\<close>); only ASCII text occurs in the program's keys,
  hashes and addresses, so \<open>to_lowercase\<close> maps the ASCII letters only.
\<close>

unbundle bit_operations_syntax

named_theorems res_simps \<open>inversion rules for results\<close>
named_theorems u256_simps \<open>reading 256-bit arithmetic as natural numbers\<close>

type_synonym u8 = "8 word"
type_synonym u32 = "32 word"
type_synonym u64 = "64 word"
type_synonym u256 = "256 word"
type_synonym bytes = "u8 list"

section \<open>Results\<close>

datatype ('e, 'a) result = Ok 'a | Err 'e

primrec bind_res :: "('e, 'a) result \<Rightarrow> ('a \<Rightarrow> ('e, 'b) result) \<Rightarrow> ('e, 'b) result" where
  "bind_res (Ok x) f = f x"
| "bind_res (Err e) f = Err e"

definition ok_or :: "'e \<Rightarrow> 'a option \<Rightarrow> ('e, 'a) result" where
  "ok_or e x = (case x of None \<Rightarrow> Err e | Some y \<Rightarrow> Ok y)"

definition ensure :: "'e \<Rightarrow> bool \<Rightarrow> ('e, unit) result" where
  "ensure e b = (if b then Ok () else Err e)"

fun is_ok :: "('e, 'a) result \<Rightarrow> bool" where
  "is_ok (Ok _) = True"
| "is_ok (Err _) = False"

text \<open>A \<open>for\<close> loop over a list whose body threads a state and may return early with an error.\<close>

fun fold_res :: "('a \<Rightarrow> 's \<Rightarrow> ('e, 's) result) \<Rightarrow> 'a list \<Rightarrow> 's \<Rightarrow> ('e, 's) result" where
  "fold_res f [] s = Ok s"
| "fold_res f (x # xs) s = bind_res (f x s) (fold_res f xs)"

text \<open>A loop whose body contributes a list, or ends the function with an error.\<close>

fun concat_res :: "('a \<Rightarrow> ('e, 'b list) result) \<Rightarrow> 'a list \<Rightarrow> ('e, 'b list) result" where
  "concat_res f [] = Ok []"
| "concat_res f (x # xs) = bind_res (f x) (\<lambda>ys. bind_res (concat_res f xs) (\<lambda>zs. Ok (ys @ zs)))"

lemma bind_res_Ok_iff [res_simps]:
  "bind_res m f = Ok y \<longleftrightarrow> (\<exists>x. m = Ok x \<and> f x = Ok y)"
  by (cases m) auto

lemma bind_res_Err_iff:
  "bind_res m f = Err e \<longleftrightarrow> m = Err e \<or> (\<exists>x. m = Ok x \<and> f x = Err e)"
  by (cases m) auto

lemma ok_or_Ok_iff [res_simps]: "ok_or e x = Ok y \<longleftrightarrow> x = Some y"
  by (cases x) (auto simp: ok_or_def)

lemma ok_or_simps [simp]: "ok_or e (Some y) = Ok y" "ok_or e None = Err e"
  by (simp_all add: ok_or_def)

lemma ensure_Ok_iff [res_simps]: "ensure e b = Ok u \<longleftrightarrow> b"
  by (simp add: ensure_def)

lemma ensure_simps [simp]: "ensure e True = Ok ()" "ensure e False = Err e"
  by (simp_all add: ensure_def)

lemma bind_res_assoc: "bind_res (bind_res m f) g = bind_res m (\<lambda>x. bind_res (f x) g)"
  by (cases m) auto

lemma concat_res_Ok:
  "(\<And>x. x \<in> set xs \<Longrightarrow> f x = Ok (g x)) \<Longrightarrow> concat_res f xs = Ok (concat (map g xs))"
  by (induction xs) auto

lemma fold_res_append:
  "fold_res f (xs @ ys) s = bind_res (fold_res f xs s) (fold_res f ys)"
proof (induction xs arbitrary: s)
  case (Cons x xs)
  then have "fold_res f (xs @ ys) = (\<lambda>s. bind_res (fold_res f xs s) (fold_res f ys))" by (intro ext)
  then show ?case by (simp add: bind_res_assoc)
qed simp

lemma fold_res_cong_set:
  "(\<And>x s. x \<in> set xs \<Longrightarrow> f x s = g x s) \<Longrightarrow> fold_res f xs s = fold_res g xs s"
proof (induction xs arbitrary: s)
  case (Cons x xs)
  then have "fold_res f xs = fold_res g xs" by (intro ext) simp
  then show ?case using Cons.prems by simp
qed simp

lemma fold_res_inv:
  assumes "fold_res f xs s = Ok t" and "I s"
    and "\<And>x s s'. x \<in> set xs \<Longrightarrow> I s \<Longrightarrow> f x s = Ok s' \<Longrightarrow> I s'"
  shows "I t"
  using assms
proof (induction xs arbitrary: s)
  case (Cons x xs)
  then obtain s' where s': "f x s = Ok s'" "fold_res f xs s' = Ok t"
    by (auto simp: res_simps)
  then have "I s'" using Cons.prems by auto
  then show ?case using Cons.IH[OF s'(2)] Cons.prems(3) by auto
qed auto

section \<open>Words and natural numbers\<close>

lemma unat_of_nat_eq: "n < 2 ^ LENGTH('a::len) \<Longrightarrow> unat (of_nat n :: 'a word) = n"
  by (simp add: unsigned_of_nat take_bit_nat_eq_self)

lemma unat_word_lt: "unat (w :: 'a::len word) < 2 ^ LENGTH('a)"
  by (rule unsigned_less)

lemma unat_u8_lt: "unat (b :: u8) < 256"
  using unat_word_lt[of b] by simp

lemma unat_u32_lt: "unat (w :: u32) < 2 ^ 32"
  using unat_word_lt[of w] by simp

lemma unat_u64_lt: "unat (w :: u64) < 2 ^ 64"
  using unat_word_lt[of w] by simp

section \<open>Unsigned 256-bit arithmetic\<close>

text \<open>
  The operators of \<open>U256\<close>: \<open>+\<close>, \<open>-\<close> and \<open>*\<close> panic on overflow (\<^const>\<open>None\<close>), the
  \<open>saturating\<close> ones clamp, and \<open>/\<close> panics on a zero divisor.
\<close>

definition u256_max :: u256 where
  "u256_max = - 1"

definition u256_add :: "u256 \<Rightarrow> u256 \<Rightarrow> u256 option" where
  "u256_add a b = (if unat a + unat b < 2 ^ 256 then Some (a + b) else None)"

definition u256_sub :: "u256 \<Rightarrow> u256 \<Rightarrow> u256 option" where
  "u256_sub a b = (if b \<le> a then Some (a - b) else None)"

definition u256_mul :: "u256 \<Rightarrow> u256 \<Rightarrow> u256 option" where
  "u256_mul a b = (if unat a * unat b < 2 ^ 256 then Some (a * b) else None)"

definition u256_div :: "u256 \<Rightarrow> u256 \<Rightarrow> u256 option" where
  "u256_div a b = (if b = 0 then None else Some (a div b))"

definition sat_add :: "u256 \<Rightarrow> u256 \<Rightarrow> u256" where
  "sat_add a b = (if unat a + unat b < 2 ^ 256 then a + b else u256_max)"

definition sat_sub :: "'a::len word \<Rightarrow> 'a word \<Rightarrow> 'a word" where
  "sat_sub a b = (if b \<le> a then a - b else 0)"

definition sat_mul :: "u256 \<Rightarrow> u256 \<Rightarrow> u256" where
  "sat_mul a b = (if unat a * unat b < 2 ^ 256 then a * b else u256_max)"

lemma unat_u256_lt: "unat (a :: u256) < 2 ^ 256"
  using unsigned_less[of a] by simp

lemma unat_u256_le: "unat (a :: u256) \<le> 2 ^ 256 - 1"
  using unat_u256_lt[of a] by linarith

lemmas unat_u256_bound [simp] = unat_u256_lt [simplified] unat_u256_le [simplified]

lemma u256_add_Some [u256_simps]:
  "u256_add a b = Some c \<longleftrightarrow> unat a + unat b = unat c"
proof
  assume "u256_add a b = Some c"
  then show "unat a + unat b = unat c"
    by (auto simp: u256_add_def unat_word_ariths split: if_splits)
next
  assume h: "unat a + unat b = unat c"
  then have "unat a + unat b < 2 ^ 256" using unat_u256_lt[of c] by simp
  moreover from this have "unat (a + b) = unat c"
    using h by (simp add: unat_word_ariths)
  then have "a + b = c" by (simp add: word_unat_eq_iff)
  ultimately show "u256_add a b = Some c" by (simp add: u256_add_def)
qed

lemma u256_sub_Some [u256_simps]:
  "u256_sub a b = Some c \<longleftrightarrow> unat a = unat b + unat c"
proof
  assume "u256_sub a b = Some c"
  then have "b \<le> a" "c = a - b" by (auto simp: u256_sub_def split: if_splits)
  then show "unat a = unat b + unat c"
    by (simp add: unat_sub_if_size word_le_nat_alt)
next
  assume h: "unat a = unat b + unat c"
  then have le: "b \<le> a" by (simp add: word_le_nat_alt)
  then have "unat (a - b) = unat c" using h by (simp add: unat_sub)
  then have "a - b = c" by (simp add: word_unat_eq_iff)
  with le show "u256_sub a b = Some c" by (simp add: u256_sub_def)
qed

lemma unat_u256_max: "unat u256_max = 2 ^ 256 - 1"
  by (simp add: u256_max_def unsigned_minus_1_eq_mask mask_eq_exp_minus_1)

lemma unat_sat_mul [u256_simps]: "unat (sat_mul a b) = min (unat a * unat b) (2 ^ 256 - 1)"
  by (auto simp: sat_mul_def unat_u256_max unat_word_ariths min_def)

lemma unat_sat_add [u256_simps]: "unat (sat_add a b) = min (unat a + unat b) (2 ^ 256 - 1)"
  by (auto simp: sat_add_def unat_u256_max unat_word_ariths min_def)

lemma unat_sat_sub [u256_simps]: "unat (sat_sub a b) = unat a - unat b"
  by (auto simp: sat_sub_def unat_sub word_le_nat_alt)

text \<open>\<open>iter().fold(U256::zero(), |a, b| a + b)\<close>.\<close>

definition u256_sum :: "u256 list \<Rightarrow> u256 option" where
  "u256_sum xs = fold (\<lambda>x acc. Option.bind acc (\<lambda>a. u256_add a x)) xs (Some 0)"

lemma fold_u256_None: "fold (\<lambda>x acc. Option.bind acc (\<lambda>a. u256_add a x)) xs None = None"
  by (induction xs) auto

lemma fold_u256_add:
  "fold (\<lambda>x acc. Option.bind acc (\<lambda>a. u256_add a x)) xs (Some a) = Some s \<longleftrightarrow>
   unat a + sum_list (map unat xs) = unat s"
proof (induction xs arbitrary: a)
  case Nil
  then show ?case by (auto simp: word_unat_eq_iff)
next
  case (Cons x xs)
  show ?case
  proof (cases "u256_add a x")
    case None
    then have "\<not> unat a + unat x < 2 ^ 256" by (auto simp: u256_add_def split: if_splits)
    then have "unat a + sum_list (map unat (x # xs)) \<noteq> unat s"
      using unat_u256_lt[of s] by (simp del: unat_u256_bound)
    then show ?thesis using None by (simp add: fold_u256_None)
  next
    case (Some c)
    then have "unat c = unat a + unat x" by (simp add: u256_add_Some)
    then show ?thesis using Some Cons.IH[of c] by (simp add: add.assoc)
  qed
qed

lemma u256_sum_Some [u256_simps]:
  "u256_sum xs = Some s \<longleftrightarrow> sum_list (map unat xs) = unat s"
  by (simp add: u256_sum_def fold_u256_add)

section \<open>Signed 64-bit arithmetic\<close>

text \<open>An \<open>i64\<close> is an \<^typ>\<open>int\<close>; arithmetic wraps as in a release build, division truncates.\<close>

definition i64 :: "int \<Rightarrow> int" where
  "i64 x = (x + 2 ^ 63) mod 2 ^ 64 - 2 ^ 63"

definition i64_div :: "int \<Rightarrow> int \<Rightarrow> int" where
  "i64_div a b = sgn a * sgn b * (\<bar>a\<bar> div \<bar>b\<bar>)"

definition is_i64 :: "int \<Rightarrow> bool" where
  "is_i64 x \<longleftrightarrow> - (2 ^ 63) \<le> x \<and> x < 2 ^ 63"

lemma i64_id: "is_i64 x \<Longrightarrow> i64 x = x"
  by (simp add: is_i64_def i64_def)

lemma is_i64_i64 [simp]: "is_i64 (i64 x)"
  by (simp add: is_i64_def i64_def)

end
