(* ===== verification/Text_Bytes.thy ===== *)
theory Text_Bytes
  imports Prelude
begin

text \<open>
  Text and byte-string helpers of the standard library that the program uses: decimal printing
  (\<open>format!("{}", n)\<close>) and parsing, \<open>to_lowercase\<close>, \<open>strip_prefix\<close>, \<open>trim\<close>, \<open>split\<close>, big-endian
  byte arrays, and the reference meaning of lower-case hexadecimal text.
\<close>

section \<open>Decimal text\<close>

definition digit :: "nat \<Rightarrow> char" where
  "digit n = ''0123456789'' ! n"

fun show_nat :: "nat \<Rightarrow> string" where
  "show_nat n = (if n < 10 then [digit n] else show_nat (n div 10) @ [digit (n mod 10)])"

declare show_nat.simps [simp del]

definition digit_val :: "char \<Rightarrow> nat option" where
  "digit_val c = (if CHR ''0'' \<le> c \<and> c \<le> CHR ''9'' then Some (of_char c - 48) else None)"

fun read_digits :: "nat \<Rightarrow> string \<Rightarrow> nat option" where
  "read_digits acc [] = Some acc"
| "read_digits acc (c # cs) =
     (case digit_val c of None \<Rightarrow> None | Some d \<Rightarrow> read_digits (10 * acc + d) cs)"

definition read_nat :: "string \<Rightarrow> nat option" where
  "read_nat s = read_digits 0 s"

lemma less_10_cases: "n < 10 \<Longrightarrow>
    n = 0 \<or> n = 1 \<or> n = 2 \<or> n = 3 \<or> n = 4 \<or> n = 5 \<or> n = 6 \<or> n = 7 \<or> n = 8 \<or> n = (9::nat)"
  by arith

lemma digit_val_digit: "n < 10 \<Longrightarrow> digit_val (digit n) = Some n"
  by (drule less_10_cases) (auto simp: digit_val_def digit_def less_eq_char_def)

lemma read_digits_append:
  "read_digits a (xs @ ys) = Option.bind (read_digits a xs) (\<lambda>b. read_digits b ys)"
  by (induction a xs rule: read_digits.induct) (auto split: option.splits)

lemma read_show_nat [simp]: "read_nat (show_nat n) = Some n"
proof (induction n rule: show_nat.induct)
  case (1 n)
  then show ?case
    by (cases "n < 10")
      (simp_all add: read_nat_def show_nat.simps[of n] read_digits_append digit_val_digit)
qed

lemma show_nat_inj [simp]: "show_nat m = show_nat n \<longleftrightarrow> m = n"
  by (metis option.inject read_show_nat)

lemma show_nat_digits: "c \<in> set (show_nat n) \<Longrightarrow> \<exists>d<10. c = digit d"
proof (induction n rule: show_nat.induct)
  case (1 n)
  then show ?case
    by (cases "n < 10") (auto simp: show_nat.simps[of n] intro: exI[of _ n] exI[of _ "n mod 10"])
qed

lemma digit_no_colon: "n < 10 \<Longrightarrow> digit n \<noteq> CHR '':''"
  by (drule less_10_cases) (auto simp: digit_def)

lemma show_nat_no_colon: "CHR '':'' \<notin> set (show_nat n)"
  using show_nat_digits digit_no_colon by metis

text \<open>A separator that does not occur in the tails makes concatenation injective.\<close>

lemma append_sep_inj:
  assumes "c \<notin> set ys" "c \<notin> set ys'"
  shows "xs @ c # ys = xs' @ c # ys' \<longleftrightarrow> xs = xs' \<and> ys = ys'"
proof
  assume h: "xs @ c # ys = xs' @ c # ys'"
  then have "rev ys @ c # rev xs = rev ys' @ c # rev xs'"
    by (metis append_Cons append_assoc append_Nil rev.simps(2) rev_append)
  moreover have "takeWhile (\<lambda>x. x \<noteq> c) (rev ys @ c # rev xs) = rev ys"
    using assms(1) by (subst takeWhile_append2) auto
  moreover have "takeWhile (\<lambda>x. x \<noteq> c) (rev ys' @ c # rev xs') = rev ys'"
    using assms(2) by (subst takeWhile_append2) auto
  ultimately have "rev ys = rev ys'" by simp
  then show "xs = xs' \<and> ys = ys'" using h by simp
qed simp

section \<open>Case and prefixes\<close>

definition lower_char :: "char \<Rightarrow> char" where
  "lower_char c = (if CHR ''A'' \<le> c \<and> c \<le> CHR ''Z'' then char_of (of_char c + (32 :: nat)) else c)"

definition to_lowercase :: "string \<Rightarrow> string" where
  "to_lowercase s = map lower_char s"

lemma lower_char_idem [simp]: "lower_char (lower_char c) = lower_char c"
proof (cases "CHR ''A'' \<le> c \<and> c \<le> CHR ''Z''")
  case True
  then have b: "65 \<le> (of_char c :: nat)" "(of_char c :: nat) \<le> 90"
    by (auto simp: less_eq_char_def)
  then have "of_char (char_of (of_char c + 32 :: nat) :: char) = (of_char c + 32 :: nat)"
    by simp
  with b show ?thesis by (simp add: lower_char_def less_eq_char_def)
next
  case False
  then have "lower_char c = c" by (auto simp: lower_char_def)
  then show ?thesis by simp
qed

lemma to_lowercase_idem [simp]: "to_lowercase (to_lowercase s) = to_lowercase s"
  by (simp add: to_lowercase_def)

definition starts_with :: "string \<Rightarrow> string \<Rightarrow> bool" where
  "starts_with p s \<longleftrightarrow> take (length p) s = p"

definition strip_prefix :: "string \<Rightarrow> string \<Rightarrow> string option" where
  "strip_prefix p s = (if starts_with p s then Some (drop (length p) s) else None)"

lemma starts_with_append [simp]: "starts_with p (p @ s)"
  by (simp add: starts_with_def)

lemma starts_with_Cons: "starts_with (x # xs) (y # ys) \<longleftrightarrow> x = y \<and> starts_with xs ys"
  by (auto simp: starts_with_def)

lemma starts_with_Nil [simp]: "starts_with [] s" "\<not> starts_with (c # p) []"
  by (simp_all add: starts_with_def)

lemma strip_prefix_append [simp]: "strip_prefix p (p @ s) = Some s"
  by (simp add: strip_prefix_def)

section \<open>Big-endian byte arrays\<close>

text \<open>\<open>U256::to_big_endian\<close> into \<open>[u8; 32]\<close> and \<open>U256::from_big_endian\<close> on 32 bytes.\<close>

definition to_big_endian :: "u256 \<Rightarrow> bytes" where
  "to_big_endian x = map (\<lambda>i. of_nat (unat x div 256 ^ (31 - i))) [0..<32]"

definition be_value :: "bytes \<Rightarrow> nat" where
  "be_value bs = foldl (\<lambda>a b. 256 * a + unat b) 0 bs"

definition from_big_endian :: "bytes \<Rightarrow> u256" where
  "from_big_endian bs = of_nat (be_value bs)"

definition to_le_bytes :: "nat \<Rightarrow> nat \<Rightarrow> bytes" where
  "to_le_bytes n x = map (\<lambda>i. of_nat (x div 256 ^ i)) [0..<n]"

lemma length_to_big_endian [simp]: "length (to_big_endian x) = 32"
  by (simp add: to_big_endian_def)

lemma length_to_le_bytes [simp]: "length (to_le_bytes n x) = n"
  by (simp add: to_le_bytes_def)

lemma unat_to_big_endian_nth:
  "i < 32 \<Longrightarrow> unat (to_big_endian x ! i) = unat x div 256 ^ (31 - i) mod 256"
  by (simp add: to_big_endian_def unsigned_of_nat take_bit_eq_mod)

lemma foldl_be: "foldl (\<lambda>a b. 256 * a + unat (b::u8)) a bs = a * 256 ^ length bs + be_value bs"
proof (induction bs rule: rev_induct)
  case Nil
  then show ?case by (simp add: be_value_def)
next
  case (snoc b bs)
  then show ?case by (simp add: be_value_def algebra_simps)
qed

lemma be_value_Nil [simp]: "be_value [] = 0"
  by (simp add: be_value_def)

lemma be_value_Cons: "be_value (b # bs) = unat b * 256 ^ length bs + be_value bs"
  using foldl_be[of "unat b" bs] by (simp add: be_value_def)

lemma be_value_append: "be_value (xs @ ys) = be_value xs * 256 ^ length ys + be_value ys"
  using foldl_be[of "be_value xs" ys] by (simp add: be_value_def)

lemma be_value_lt: "be_value bs < 256 ^ length bs"
proof (induction bs)
  case (Cons b bs)
  have "Suc (unat b) \<le> 256" using unat_u8_lt[of b] by simp
  then have "Suc (unat b) * 256 ^ length bs \<le> 256 * 256 ^ length bs"
    by (rule mult_le_mono1)
  then have "unat b * 256 ^ length bs + 256 ^ length bs \<le> 256 ^ length (b # bs)" by simp
  moreover have "be_value (b # bs) < unat b * 256 ^ length bs + 256 ^ length bs"
    using Cons by (simp add: be_value_Cons)
  ultimately show ?case by (rule less_le_trans[rotated])
qed simp

lemma unat_from_big_endian:
  "length bs = 32 \<Longrightarrow> unat (from_big_endian bs) = be_value bs"
  using be_value_lt[of bs]
  by (simp add: from_big_endian_def unsigned_of_nat take_bit_eq_mod)

section \<open>Hexadecimal text\<close>

text \<open>
  The documented meaning of the \<open>hex\<close> crate: \<open>encode\<close> writes two lower-case digits per byte,
  \<open>decode\<close> refuses an odd length and a character that is not a hexadecimal digit, and reads
  either case.
\<close>

definition hex_digit :: "nat \<Rightarrow> char" where
  "hex_digit n = ''0123456789abcdef'' ! n"

definition hex_val :: "char \<Rightarrow> nat option" where
  "hex_val c =
     (if CHR ''0'' \<le> c \<and> c \<le> CHR ''9'' then Some (of_char c - 48)
      else if CHR ''a'' \<le> c \<and> c \<le> CHR ''f'' then Some (of_char c - 87)
      else if CHR ''A'' \<le> c \<and> c \<le> CHR ''F'' then Some (of_char c - 55)
      else None)"

definition hex_of :: "bytes \<Rightarrow> string" where
  "hex_of bs = concat (map (\<lambda>b. [hex_digit (unat b div 16), hex_digit (unat b mod 16)]) bs)"

fun unhex :: "string \<Rightarrow> bytes option" where
  "unhex [] = Some []"
| "unhex [c] = None"
| "unhex (c # d # cs) =
     (case (hex_val c, hex_val d, unhex cs) of
        (Some h, Some l, Some bs) \<Rightarrow> Some (of_nat (16 * h + l) # bs)
      | _ \<Rightarrow> None)"

lemma less_16_cases: "n < 16 \<Longrightarrow> n < 10 \<or> n = 10 \<or> n = 11 \<or> n = 12 \<or> n = 13 \<or> n = 14 \<or> n = (15::nat)"
  by arith

lemma hex_val_digit: "n < 16 \<Longrightarrow> hex_val (hex_digit n) = Some n"
  by (drule less_16_cases, elim disjE, drule less_10_cases)
    (auto simp: hex_val_def hex_digit_def less_eq_char_def)

lemma byte_nibbles: "unat (b::u8) div 16 < 16"
  using unat_u8_lt[of b] by simp

lemma hex_of_Nil [simp]: "hex_of [] = []"
  by (simp add: hex_of_def)

lemma hex_of_Cons [simp]:
  "hex_of (b # bs) = hex_digit (unat b div 16) # hex_digit (unat b mod 16) # hex_of bs"
  by (simp add: hex_of_def)

lemma length_hex_of [simp]: "length (hex_of bs) = 2 * length bs"
  by (induction bs) auto

lemma unhex_hex_of [simp]: "unhex (hex_of bs) = Some bs"
  by (induction bs) (simp_all add: hex_val_digit byte_nibbles)

lemma hex_of_inj [simp]: "hex_of xs = hex_of ys \<longleftrightarrow> xs = ys"
  by (metis option.inject unhex_hex_of)

lemma length_unhex: "unhex s = Some bs \<Longrightarrow> length s = 2 * length bs"
  by (induction s arbitrary: bs rule: unhex.induct) (auto split: option.splits)

section \<open>Trimming, splitting and parsing\<close>

text \<open>\<open>str::trim\<close> on ASCII text, and the integer parsers, which accept a leading plus sign.\<close>

definition is_space :: "char \<Rightarrow> bool" where
  "is_space c \<longleftrightarrow> of_char c \<in> {9::nat, 10, 11, 12, 13, 32}"

definition trim :: "string \<Rightarrow> string" where
  "trim s = rev (dropWhile is_space (rev (dropWhile is_space s)))"

fun read_radix :: "nat \<Rightarrow> nat \<Rightarrow> string \<Rightarrow> nat option" where
  "read_radix r acc [] = Some acc"
| "read_radix r acc (c # cs) =
     (case hex_val c of
        None \<Rightarrow> None
      | Some d \<Rightarrow> if d < r then read_radix r (acc * r + d) cs else None)"

definition from_str_radix :: "nat \<Rightarrow> nat \<Rightarrow> string \<Rightarrow> nat option" where
  "from_str_radix bits r s =
     (let t = (case s of c # cs \<Rightarrow> if c = CHR ''+'' then cs else s | [] \<Rightarrow> [])
      in if t = [] then None
         else Option.bind (read_radix r 0 t) (\<lambda>n. if n < 2 ^ bits then Some n else None))"

text \<open>\<open>str::split\<close> on a character.\<close>

fun split_on :: "char \<Rightarrow> string \<Rightarrow> string list" where
  "split_on c [] = [[]]"
| "split_on c (x # xs) =
     (if x = c then [] # split_on c xs
      else (case split_on c xs of p # ps \<Rightarrow> (x # p) # ps | [] \<Rightarrow> [[x]]))"

text \<open>Printed numbers are read back; their digits.\<close>

lemma read_radix_append: "read_radix r a (xs @ ys) = Option.bind (read_radix r a xs) (\<lambda>b. read_radix r b ys)"
  by (induction r a xs rule: read_radix.induct) (auto split: option.splits)

lemma hex_val_dec_digit: "n < 10 \<Longrightarrow> hex_val (digit n) = Some n"
  by (drule less_10_cases) (auto simp: hex_val_def digit_def less_eq_char_def)

lemma read_radix_show_nat: "read_radix 10 0 (show_nat n) = Some n"
proof (induction n rule: show_nat.induct)
  case (1 n)
  then show ?case
    by (cases "n < 10") (simp_all add: show_nat.simps[of n] read_radix_append hex_val_dec_digit)
qed

lemma show_nat_not_Nil [simp]: "show_nat n \<noteq> []"
  by (simp add: show_nat.simps[of n])

lemma digit_not_plus: "n < 10 \<Longrightarrow> digit n \<noteq> CHR ''+''"
  by (drule less_10_cases) (auto simp: digit_def)

lemma show_nat_hd: "show_nat n = c # cs \<Longrightarrow> c \<noteq> CHR ''+''"
  using show_nat_digits[of c n] digit_not_plus by auto

lemma parse_show_nat: "n < 2 ^ bits \<Longrightarrow> from_str_radix bits 10 (show_nat n) = Some n"
proof -
  assume n: "n < 2 ^ bits"
  obtain c cs where s: "show_nat n = c # cs" by (cases "show_nat n") auto
  then have "c \<noteq> CHR ''+''" by (rule show_nat_hd)
  then show ?thesis using n read_radix_show_nat[of n] by (simp add: from_str_radix_def s)
qed

lemma show_nat_bound: "n < 10 ^ length (show_nat n)"
proof (induction n rule: show_nat.induct)
  case (1 n)
  show ?case
  proof (cases "n < 10")
    case False
    then have "n div 10 < 10 ^ length (show_nat (n div 10))" using 1 by simp
    then have "n < 10 * 10 ^ length (show_nat (n div 10))" by simp
    then show ?thesis using False by (simp add: show_nat.simps[of n])
  qed (simp add: show_nat.simps[of n])
qed

lemma show_nat_length: "n < 10 ^ k \<Longrightarrow> 0 < k \<Longrightarrow> length (show_nat n) \<le> k"
proof (induction n arbitrary: k rule: show_nat.induct)
  case (1 n)
  show ?case
  proof (cases "n < 10")
    case False
    then have "k \<noteq> 1" using "1.prems" by auto
    then obtain k' where k: "k = Suc k'" "0 < k'" using "1.prems" by (metis One_nat_def Suc_pred' gr0I)
    then have "n div 10 < 10 ^ k'" using "1.prems" by (simp add: less_mult_imp_div_less mult.commute)
    then show ?thesis using False k "1.IH"[of k'] by (simp add: show_nat.simps[of n])
  qed (use "1.prems" in \<open>simp add: show_nat.simps[of n]\<close>)
qed

lemma show_nat_hd_zero: "0 < n \<Longrightarrow> hd (show_nat n) \<noteq> CHR ''0''"
proof (induction n rule: show_nat.induct)
  case (1 n)
  show ?case
  proof (cases "n < 10")
    case True
    then show ?thesis using less_10_cases[OF True] "1.prems" by (auto simp: show_nat.simps[of n] digit_def)
  next
    case False
    then show ?thesis using 1 by (simp add: show_nat.simps[of n])
  qed
qed

end
