(* ===== verification/Kv_Store.thy ===== *)
theory Kv_Store
  imports Text_Bytes
begin

text \<open>
  The database (\<open>core/src/db/mod.rs\<close>): the contents of a RocksDB handle are the key/value pairs in
  ascending byte order of the keys, which is the order its iterator visits them. A \<open>WriteBatch\<close> is
  the list of its puts and deletes, applied in order and atomically by \<open>put_batch\<close>. The values
  \<open>'v\<close> are the byte vectors the encoder produces. The interface the rest of the program relies on
  is the locale \<open>kv_store\<close>. Last come the key formats of the comment in that file and of
  \<open>blockchain/mod.rs\<close>, and the proof that two different records never share a key.
\<close>

section \<open>Contents, batches and iteration\<close>

type_synonym 'v db = "(string \<times> 'v) list"

datatype 'v write_op = Put string 'v | Delete string

definition db_get :: "'v db \<Rightarrow> string \<Rightarrow> 'v option" where
  "db_get d k = map_of d k"

fun db_put :: "string \<Rightarrow> 'v \<Rightarrow> 'v db \<Rightarrow> 'v db" where
  "db_put k v [] = [(k, v)]"
| "db_put k v ((k', v') # d) =
     (if k < k' then (k, v) # (k', v') # d
      else if k = k' then (k, v) # d
      else (k', v') # db_put k v d)"

definition db_delete :: "string \<Rightarrow> 'v db \<Rightarrow> 'v db" where
  "db_delete k d = filter (\<lambda>p. fst p \<noteq> k) d"

fun apply_op :: "'v write_op \<Rightarrow> 'v db \<Rightarrow> 'v db" where
  "apply_op (Put k v) d = db_put k v d"
| "apply_op (Delete k) d = db_delete k d"

definition put_batch :: "'v db \<Rightarrow> 'v write_op list \<Rightarrow> 'v db" where
  "put_batch d batch = fold apply_op batch d"

definition db_iterator :: "'v db \<Rightarrow> (string \<times> 'v) list" where
  "db_iterator d = d"

definition db_wf :: "'v db \<Rightarrow> bool" where
  "db_wf d \<longleftrightarrow> sorted_wrt (<) (map fst d)"

section \<open>The interface\<close>

text \<open>What a batch does to the contents read as a finite map.\<close>

fun op_view :: "'v write_op \<Rightarrow> (string \<rightharpoonup> 'v) \<Rightarrow> (string \<rightharpoonup> 'v)" where
  "op_view (Put k v) m = m(k \<mapsto> v)"
| "op_view (Delete k) m = m(k := None)"

definition batch_view :: "'v write_op list \<Rightarrow> (string \<rightharpoonup> 'v) \<Rightarrow> (string \<rightharpoonup> 'v)" where
  "batch_view ops m = fold op_view ops m"

fun op_key :: "'v write_op \<Rightarrow> string" where
  "op_key (Put k v) = k"
| "op_key (Delete k) = k"

definition entry_sum :: "(string \<Rightarrow> 'v \<Rightarrow> nat) \<Rightarrow> (string \<times> 'v) list \<Rightarrow> nat" where
  "entry_sum f es = sum_list (map (\<lambda>(k, v). f k v) es)"

locale kv_store =
  fixes get :: "'d \<Rightarrow> string \<Rightarrow> 'v option"
    and put :: "string \<Rightarrow> 'v \<Rightarrow> 'd \<Rightarrow> 'd"
    and delete :: "string \<Rightarrow> 'd \<Rightarrow> 'd"
    and iter :: "'d \<Rightarrow> (string \<times> 'v) list"
    and wf :: "'d \<Rightarrow> bool"
  assumes get_put: "wf d \<Longrightarrow> get (put k v d) = (get d)(k \<mapsto> v)"
    and get_delete: "wf d \<Longrightarrow> get (delete k d) = (get d)(k := None)"
    and wf_put: "wf d \<Longrightarrow> wf (put k v d)"
    and wf_delete: "wf d \<Longrightarrow> wf (delete k d)"
    and iter_get: "wf d \<Longrightarrow> map_of (iter d) = get d"
    and iter_distinct: "wf d \<Longrightarrow> distinct (map fst (iter d))"
begin

lemma iter_iff: "wf d \<Longrightarrow> (k, v) \<in> set (iter d) \<longleftrightarrow> get d k = Some v"
  using iter_get[of d] iter_distinct[of d] by (metis map_of_eq_Some_iff)

lemma finite_dom: "wf d \<Longrightarrow> finite (dom (get d))"
  by (metis iter_get finite_dom_map_of)

lemma run_batch:
  assumes "wf d"
  shows "wf (fold (case_write_op put delete) ops d) \<and>
    get (fold (case_write_op put delete) ops d) = batch_view ops (get d)"
  using assms
proof (induction ops arbitrary: d)
  case Nil
  then show ?case by (simp add: batch_view_def)
next
  case (Cons x xs)
  then show ?case
    by (cases x) (auto simp: batch_view_def get_put get_delete wf_put wf_delete)
qed

lemma entry_sum_dom:
  assumes "wf d"
  shows "entry_sum f (iter d) = (\<Sum>k\<in>dom (get d). f k (the (get d k)))"
proof -
  have d: "distinct (map fst (iter d))" using assms by (rule iter_distinct)
  then have "distinct (iter d)" by (simp add: distinct_map)
  then have "entry_sum f (iter d) = (\<Sum>p\<in>set (iter d). case p of (k, v) \<Rightarrow> f k v)"
    by (simp add: entry_sum_def sum_list_distinct_conv_sum_set)
  also have "\<dots> = (\<Sum>k\<in>fst ` set (iter d). f k (the (get d k)))"
    using d assms by (subst sum.reindex) (auto simp: distinct_map iter_iff intro!: sum.cong)
  also have "fst ` set (iter d) = dom (get d)"
    using iter_get[OF assms] by (metis dom_map_of_conv_image_fst)
  finally show ?thesis .
qed

lemma entry_sum_delete:
  assumes "wf d"
  shows "entry_sum f (iter d) =
    entry_sum f (iter (delete k d)) + (case get d k of None \<Rightarrow> 0 | Some v \<Rightarrow> f k v)"
proof (cases "get d k")
  case None
  then have "get (delete k d) = get d" using assms by (auto simp: get_delete)
  then show ?thesis using None assms by (simp add: entry_sum_dom wf_delete)
next
  case (Some v)
  have "(\<Sum>x\<in>dom (get d) - {k}. f x (the (get d x))) =
      (\<Sum>x\<in>dom (get (delete k d)). f x (the (get (delete k d) x)))"
    using assms by (intro sum.cong) (auto simp: get_delete split: if_splits)
  moreover have "k \<in> dom (get d)" using Some by auto
  ultimately show ?thesis using Some assms
    by (simp add: entry_sum_dom wf_delete finite_dom sum.remove[where x = k])
qed

lemma entry_sum_put:
  assumes "wf d"
  shows "entry_sum f (iter (put k v d)) + (case get d k of None \<Rightarrow> 0 | Some v \<Rightarrow> f k v) =
    entry_sum f (iter d) + f k v"
proof -
  have w: "wf (put k v d)" using assms by (rule wf_put)
  have "get (delete k (put k v d)) = get (delete k d)"
    using assms w by (auto simp: get_delete get_put)
  then have "entry_sum f (iter (delete k (put k v d))) = entry_sum f (iter (delete k d))"
    using assms w by (simp add: entry_sum_dom wf_delete)
  then show ?thesis
    using entry_sum_delete[OF w, of f k] entry_sum_delete[OF assms, of f k] assms
    by (simp add: get_put)
qed

end

section \<open>The contents implement the interface\<close>

lemma set_db_put: "set (map fst (db_put k v d)) = insert k (set (map fst d))"
  by (induction k v d rule: db_put.induct) auto

lemma map_of_db_put: "map_of (db_put k v d) = (map_of d)(k \<mapsto> v)"
  by (induction k v d rule: db_put.induct) (auto simp: fun_eq_iff)

lemma map_of_db_delete: "map_of (db_delete k d) = (map_of d)(k := None)"
  by (induction d) (auto simp: db_delete_def fun_eq_iff)

lemma db_wf_put: "db_wf d \<Longrightarrow> db_wf (db_put k v d)"
proof (induction k v d rule: db_put.induct)
  case (2 k v k' v' d)
  have "\<forall>x\<in>set (map fst (db_put k v d)). k' < x" if "k' < k" "db_wf ((k', v') # d)"
    using that set_db_put[of k v d] by (auto simp: db_wf_def)
  with 2 show ?case by (auto simp: db_wf_def)
qed (simp add: db_wf_def)

lemma db_wf_delete: "db_wf d \<Longrightarrow> db_wf (db_delete k d)"
  by (simp add: db_wf_def db_delete_def filter_map [symmetric] sorted_wrt_filter
      filter_map[of "\<lambda>x. x \<noteq> k" fst, unfolded o_def, symmetric])

lemma db_wf_distinct: "db_wf d \<Longrightarrow> distinct (map fst d)"
  by (simp add: db_wf_def strict_sorted_iff)

interpretation kv: kv_store db_get db_put db_delete db_iterator db_wf
  by unfold_locales
    (auto simp: db_get_def map_of_db_put map_of_db_delete db_wf_put db_wf_delete db_iterator_def
      db_wf_distinct fun_eq_iff)

lemma db_wf_Nil [simp]: "db_wf []"
  by (simp add: db_wf_def)

lemma db_get_put [simp]: "db_get (db_put k v d) = (db_get d)(k \<mapsto> v)"
  by (simp add: db_get_def map_of_db_put fun_eq_iff)

lemma db_get_delete [simp]: "db_get (db_delete k d) = (db_get d)(k := None)"
  by (simp add: db_get_def map_of_db_delete fun_eq_iff)

lemma apply_op_case: "apply_op = case_write_op db_put db_delete"
  by (auto simp: fun_eq_iff split: write_op.splits)

lemma db_get_put_batch [simp]: "db_get (put_batch d ops) = batch_view ops (db_get d)"
  unfolding put_batch_def batch_view_def
proof (induction ops arbitrary: d)
  case (Cons x xs)
  then show ?case by (cases x) (simp_all add: fun_upd_def)
qed simp

lemma db_wf_put_batch [simp]: "db_wf d \<Longrightarrow> db_wf (put_batch d ops)"
  using kv.run_batch[of d ops] by (simp add: put_batch_def apply_op_case)

lemma put_batch_append: "put_batch d (xs @ ys) = put_batch (put_batch d xs) ys"
  by (simp add: put_batch_def)

lemma batch_view_Nil [simp]: "batch_view [] m = m"
  by (simp add: batch_view_def)

lemma batch_view_Cons [simp]: "batch_view (x # xs) m = batch_view xs (op_view x m)"
  by (simp add: batch_view_def)

lemma batch_view_append [simp]: "batch_view (xs @ ys) m = batch_view ys (batch_view xs m)"
  by (simp add: batch_view_def)

lemma batch_view_untouched: "k \<notin> op_key ` set ops \<Longrightarrow> batch_view ops m k = m k"
proof (induction ops arbitrary: m)
  case (Cons x xs)
  then show ?case by (cases x) auto
qed simp

lemma db_iterator_iff: "db_wf d \<Longrightarrow> (k, v) \<in> set (db_iterator d) \<longleftrightarrow> db_get d k = Some v"
  by (rule kv.iter_iff)

section \<open>Key formats\<close>

definition block_key :: "string \<Rightarrow> string" where
  "block_key h = ''b:'' @ h"

definition tx_key :: "string \<Rightarrow> string" where
  "tx_key txid = ''t:'' @ txid"

definition utxo_key :: "string \<Rightarrow> nat \<Rightarrow> string" where
  "utxo_key txid vout = ''u:'' @ txid @ '':'' @ show_nat vout"

definition index_key :: "nat \<Rightarrow> string" where
  "index_key n = ''i:'' @ show_nat n"

definition tip_key :: string where
  "tip_key = ''tip''"

lemma key_inj [simp]:
  "block_key a = block_key b \<longleftrightarrow> a = b"
  "tx_key a = tx_key b \<longleftrightarrow> a = b"
  "index_key m = index_key n \<longleftrightarrow> m = n"
  by (simp_all add: block_key_def tx_key_def index_key_def)

lemma utxo_key_inj [simp]: "utxo_key a m = utxo_key b n \<longleftrightarrow> a = b \<and> m = n"
  using append_sep_inj[OF show_nat_no_colon[of m] show_nat_no_colon[of n], of a b]
  by (auto simp: utxo_key_def)

lemma key_kinds [simp]:
  "block_key a \<noteq> tx_key b" "tx_key b \<noteq> block_key a"
  "block_key a \<noteq> utxo_key b n" "utxo_key b n \<noteq> block_key a"
  "block_key a \<noteq> index_key m" "index_key m \<noteq> block_key a"
  "block_key a \<noteq> tip_key" "tip_key \<noteq> block_key a"
  "tx_key a \<noteq> utxo_key b n" "utxo_key b n \<noteq> tx_key a"
  "tx_key a \<noteq> index_key m" "index_key m \<noteq> tx_key a"
  "tx_key a \<noteq> tip_key" "tip_key \<noteq> tx_key a"
  "utxo_key a n \<noteq> index_key m" "index_key m \<noteq> utxo_key a n"
  "utxo_key a n \<noteq> tip_key" "tip_key \<noteq> utxo_key a n"
  "index_key m \<noteq> tip_key" "tip_key \<noteq> index_key m"
  by (auto simp: block_key_def tx_key_def utxo_key_def index_key_def tip_key_def)

lemma key_prefix [simp]:
  "starts_with ''u:'' (utxo_key a n)" "\<not> starts_with ''u:'' (block_key a)"
  "\<not> starts_with ''u:'' (tx_key a)" "\<not> starts_with ''u:'' (index_key m)"
  "\<not> starts_with ''u:'' tip_key"
  "starts_with ''b:'' (block_key a)" "\<not> starts_with ''b:'' (utxo_key a n)"
  "\<not> starts_with ''b:'' (tx_key a)" "\<not> starts_with ''b:'' (index_key m)"
  "\<not> starts_with ''b:'' tip_key"
  "starts_with ''t:'' (tx_key a)" "\<not> starts_with ''t:'' (utxo_key a n)"
  "\<not> starts_with ''t:'' (block_key a)" "\<not> starts_with ''t:'' (index_key m)"
  "\<not> starts_with ''t:'' tip_key"
  by (auto simp: starts_with_def block_key_def tx_key_def utxo_key_def index_key_def tip_key_def)

end
