(* ===== verification/Ledger_Types.thy ===== *)
theory Ledger_Types
  imports Kv_Store
begin

text \<open>
  The data of the ledger (\<open>core/src/utxo.rs\<close>, the structs of \<open>transaction/mod.rs\<close> and
  \<open>block/mod.rs\<close>) and the third-party primitives the program calls, collected in the record
  \<open>prims\<close>, an argument of every definition that uses one of them: SHA-256, BLAKE3, Ed25519, the
  \<open>hex\<close> crate and the \<open>bincode\<close> encoder. An amount is stored as the four limbs of its \<open>U256\<close>
  (\<open>amount_raw\<close>), which is the 256-bit word itself. The encoder into a byte vector has no failing
  case for these types, so it is total; the decoder may refuse its input. What the program relies
  on is stated as the predicates at the end.
\<close>

section \<open>Structs\<close>

record transaction_input =
  in_txid :: string
  in_vout :: u32
  in_pubkey :: string
  in_signature :: "string option"

record transaction_output =
  out_to :: string
  out_amount :: u256

record transaction =
  txid :: string
  inputs :: "transaction_input list"
  outputs :: "transaction_output list"
  tx_timestamp :: int

record utxo =
  u_txid :: string
  u_vout :: u32
  u_to :: string
  u_amount :: u256

record block_header =
  index :: u64
  previous_hash :: string
  merkle_root :: string
  timestamp :: int
  nonce :: u64
  difficulty :: u32

record block =
  header :: block_header
  transactions :: "transaction list"
  block_hash :: string

section \<open>Third-party primitives\<close>

record 'v prims =
  sha256 :: "bytes \<Rightarrow> bytes"
  blake3 :: "bytes \<Rightarrow> bytes"
  hex_encode :: "bytes \<Rightarrow> string"
  hex_decode :: "string \<Rightarrow> bytes option"
  vk_from_bytes :: "bytes \<Rightarrow> bool"
  ed_public :: "bytes \<Rightarrow> bytes"
  ed_sign :: "bytes \<Rightarrow> bytes \<Rightarrow> bytes"
  ed_verify :: "bytes \<Rightarrow> bytes \<Rightarrow> bytes \<Rightarrow> bool"
  enc_tx_body :: "(string \<times> u32) list \<Rightarrow> transaction_output list \<Rightarrow> int \<Rightarrow> bytes"
  enc_header :: "block_header \<Rightarrow> bytes"
  enc_block :: "block \<Rightarrow> 'v"
  dec_block :: "'v \<Rightarrow> block option"
  enc_tx :: "transaction \<Rightarrow> 'v"
  dec_tx :: "'v \<Rightarrow> transaction option"
  enc_utxo :: "utxo \<Rightarrow> 'v"
  dec_utxo :: "'v \<Rightarrow> utxo option"
  as_bytes :: "string \<Rightarrow> 'v"
  from_utf8 :: "'v \<Rightarrow> string option"
  blob_len :: "'v \<Rightarrow> nat"

section \<open>What the program relies on\<close>

text \<open>Decoding what was encoded gives it back.\<close>

definition codec_ok :: "'v prims \<Rightarrow> bool" where
  "codec_ok P \<longleftrightarrow>
     (\<forall>b. dec_block P (enc_block P b) = Some b) \<and>
     (\<forall>t. dec_tx P (enc_tx P t) = Some t) \<and>
     (\<forall>u. dec_utxo P (enc_utxo P u) = Some u) \<and>
     (\<forall>s. from_utf8 P (as_bytes P s) = Some s)"

text \<open>The digests are 32 bytes long.\<close>

definition digest_ok :: "'v prims \<Rightarrow> bool" where
  "digest_ok P \<longleftrightarrow> (\<forall>x. length (sha256 P x) = 32) \<and> (\<forall>x. length (blake3 P x) = 32)"

text \<open>Hexadecimal text is the documented one.\<close>

definition hex_ok :: "'v prims \<Rightarrow> bool" where
  "hex_ok P \<longleftrightarrow> (\<forall>b. hex_encode P b = hex_of b) \<and> (\<forall>s. hex_decode P s = unhex s)"

text \<open>A signature made with a 32-byte secret key verifies under the key's public key.\<close>

definition ed25519_ok :: "'v prims \<Rightarrow> bool" where
  "ed25519_ok P \<longleftrightarrow>
     (\<forall>sk m. length sk = 32 \<longrightarrow>
        length (ed_public P sk) = 32 \<and> vk_from_bytes P (ed_public P sk) \<and>
        length (ed_sign P sk m) = 64 \<and> ed_verify P (ed_public P sk) m (ed_sign P sk m))"

lemma codec_simps [simp]:
  assumes "codec_ok P"
  shows "dec_block P (enc_block P b) = Some b" "dec_tx P (enc_tx P t) = Some t"
    "dec_utxo P (enc_utxo P u) = Some u" "from_utf8 P (as_bytes P s) = Some s"
  using assms by (simp_all add: codec_ok_def)

lemma digest_simps [simp]:
  assumes "digest_ok P"
  shows "length (sha256 P x) = 32" "length (blake3 P x) = 32"
  using assms by (simp_all add: digest_ok_def)

lemma hex_simps [simp]:
  assumes "hex_ok P"
  shows "hex_encode P b = hex_of b" "hex_decode P s = unhex s"
  using assms by (simp_all add: hex_ok_def)

section \<open>A reference instance\<close>

text \<open>
  A concrete instance of the primitives, on which the hypotheses above hold: the digests are
  padded prefixes, the encoder stores the value itself. It serves to exhibit states and blocks
  that satisfy the hypotheses of the theorems.
\<close>

datatype stored =
  SBlock block
| STx transaction
| SUtxo utxo
| SText string

definition pad :: "nat \<Rightarrow> bytes \<Rightarrow> bytes" where
  "pad n xs = take n (xs @ replicate n 0)"

fun as_block :: "stored \<Rightarrow> block option" where
  "as_block (SBlock b) = Some b"
| "as_block _ = None"

fun as_tx :: "stored \<Rightarrow> transaction option" where
  "as_tx (STx t) = Some t"
| "as_tx _ = None"

fun as_utxo :: "stored \<Rightarrow> utxo option" where
  "as_utxo (SUtxo u) = Some u"
| "as_utxo _ = None"

fun as_text :: "stored \<Rightarrow> string option" where
  "as_text (SText s) = Some s"
| "as_text _ = None"

definition ref_prims :: "stored prims" where
  "ref_prims = \<lparr>
     sha256 = pad 32,
     blake3 = pad 32,
     hex_encode = hex_of,
     hex_decode = unhex,
     vk_from_bytes = (\<lambda>_. True),
     ed_public = pad 32,
     ed_sign = (\<lambda>sk m. pad 32 sk @ pad 32 m),
     ed_verify = (\<lambda>pk m s. s = pad 32 pk @ pad 32 m),
     enc_tx_body = (\<lambda>is os t. [of_nat (length is), of_nat (length os)]),
     enc_header = (\<lambda>h. [0, ucast (index h), ucast (nonce h)]),
     enc_block = SBlock, dec_block = as_block,
     enc_tx = STx, dec_tx = as_tx,
     enc_utxo = SUtxo, dec_utxo = as_utxo,
     as_bytes = SText, from_utf8 = as_text,
     blob_len = (\<lambda>_. 1)\<rparr>"

lemma length_pad [simp]: "length (pad n xs) = n"
  by (simp add: pad_def)

lemma pad_id: "length xs = n \<Longrightarrow> pad n xs = xs"
  by (simp add: pad_def)

lemma ref_prims_ok [simp]:
  "codec_ok ref_prims" "digest_ok ref_prims" "hex_ok ref_prims" "ed25519_ok ref_prims"
  by (simp_all add: codec_ok_def digest_ok_def hex_ok_def ed25519_ok_def ref_prims_def pad_id)

end
