(* ===== verification/Crypto.thy ===== *)
theory Crypto
  imports Ledger_Types
begin

text \<open>
  \<open>core/src/crypto/mod.rs\<close>: wallet key pairs, addresses and signature verification. A signing key
  is its 32 secret bytes, a verifying key its 32 public bytes.
\<close>

record wallet_keypair =
  signing_key :: bytes
  verifying_key :: bytes

datatype crypto_error = InvalidHex | BadKeyLength | InvalidPublicKey

text \<open>\<open>new\<close> draws the secret from the operating system; the drawn bytes are an argument.\<close>

definition keypair_new :: "'v prims \<Rightarrow> bytes \<Rightarrow> wallet_keypair" where
  "keypair_new P secret = \<lparr>signing_key = secret, verifying_key = ed_public P secret\<rparr>"

definition keypair_sign :: "'v prims \<Rightarrow> wallet_keypair \<Rightarrow> bytes \<Rightarrow> bytes" where
  "keypair_sign P kp msg = ed_sign P (signing_key kp) (sha256 P msg)"

definition address_from_public_key :: "'v prims \<Rightarrow> bytes \<Rightarrow> string" where
  "address_from_public_key P pubkey =
     (let hash = sha256 P pubkey in ''0x'' @ hex_encode P (take 20 hash))"

definition keypair_address :: "'v prims \<Rightarrow> wallet_keypair \<Rightarrow> string" where
  "keypair_address P kp = address_from_public_key P (verifying_key kp)"

definition secret_hex :: "'v prims \<Rightarrow> wallet_keypair \<Rightarrow> string" where
  "secret_hex P kp = hex_encode P (signing_key kp)"

definition public_hex :: "'v prims \<Rightarrow> wallet_keypair \<Rightarrow> string" where
  "public_hex P kp = hex_encode P (verifying_key kp)"

definition from_secret_hex :: "'v prims \<Rightarrow> string \<Rightarrow> (crypto_error, wallet_keypair) result" where
  "from_secret_hex P s =
     bind_res (ok_or InvalidHex (hex_decode P s)) (\<lambda>secret_bytes.
     if length secret_bytes \<noteq> 32 then Err BadKeyLength
     else Ok \<lparr>signing_key = secret_bytes, verifying_key = ed_public P secret_bytes\<rparr>)"

definition address_from_pubkey_hex :: "'v prims \<Rightarrow> string \<Rightarrow> (crypto_error, string) result" where
  "address_from_pubkey_hex P s =
     bind_res (ok_or InvalidHex (hex_decode P s)) (\<lambda>pubkey_bytes.
     if length pubkey_bytes \<noteq> 32 then Err BadKeyLength
     else if \<not> vk_from_bytes P pubkey_bytes then Err InvalidPublicKey
     else Ok (address_from_public_key P pubkey_bytes))"

definition verify_signature :: "'v prims \<Rightarrow> string \<Rightarrow> bytes \<Rightarrow> bytes \<Rightarrow> bool" where
  "verify_signature P pubkey_hex msg sig_bytes =
     (if length sig_bytes \<noteq> 64 then False
      else (case hex_decode P pubkey_hex of
        None \<Rightarrow> False
      | Some pubkey_bytes \<Rightarrow>
          if length pubkey_bytes \<noteq> 32 then False
          else if \<not> vk_from_bytes P pubkey_bytes then False
          else ed_verify P pubkey_bytes (sha256 P msg) sig_bytes))"

definition keypair_wf :: "'v prims \<Rightarrow> wallet_keypair \<Rightarrow> bool" where
  "keypair_wf P kp \<longleftrightarrow> length (signing_key kp) = 32 \<and> verifying_key kp = ed_public P (signing_key kp)"

lemma keypair_wf_new: "length secret = 32 \<Longrightarrow> keypair_wf P (keypair_new P secret)"
  by (simp add: keypair_wf_def keypair_new_def)

lemma from_secret_hex_wf: "from_secret_hex P s = Ok kp \<Longrightarrow> keypair_wf P kp"
  by (auto simp: from_secret_hex_def keypair_wf_def res_simps split: if_splits)

lemma verify_own_signature:
  assumes "ed25519_ok P" "hex_ok P" "keypair_wf P kp"
  shows "verify_signature P (public_hex P kp) msg (keypair_sign P kp msg)"
  using assms
  by (simp add: verify_signature_def public_hex_def keypair_sign_def keypair_wf_def ed25519_ok_def)

lemma address_of_own_key:
  assumes "ed25519_ok P" "hex_ok P" "keypair_wf P kp"
  shows "address_from_pubkey_hex P (public_hex P kp) = Ok (keypair_address P kp)"
  using assms
  by (simp add: address_from_pubkey_hex_def public_hex_def keypair_address_def keypair_wf_def
      ed25519_ok_def)

lemma address_length:
  assumes "digest_ok P" "hex_ok P"
  shows "length (address_from_public_key P pk) = 42"
  using assms by (simp add: address_from_public_key_def)

end
