(* ===== verification/Transaction.thy ===== *)
theory Transaction
  imports Crypto
begin

text \<open>
  \<open>core/src/transaction/mod.rs\<close>: identifiers, signing and signature verification. The clock of
  \<open>coinbase\<close> is the argument \<open>now\<close>.
\<close>

datatype tx_error = MissingSignature | BadSignatureHex

definition serialize_for_hash :: "'v prims \<Rightarrow> transaction \<Rightarrow> bytes" where
  "serialize_for_hash P tx =
     (let inputs_for_hash = map (\<lambda>i. (in_txid i, in_vout i)) (inputs tx)
      in enc_tx_body P inputs_for_hash (outputs tx) (tx_timestamp tx))"

definition compute_txid :: "'v prims \<Rightarrow> transaction \<Rightarrow> string" where
  "compute_txid P tx =
     (let h1 = sha256 P (serialize_for_hash P tx); h2 = sha256 P h1 in hex_encode P h2)"

definition with_hashes :: "'v prims \<Rightarrow> transaction \<Rightarrow> transaction" where
  "with_hashes P tx = tx\<lparr>txid := compute_txid P tx\<rparr>"

definition with_txid :: "'v prims \<Rightarrow> transaction \<Rightarrow> transaction" where
  "with_txid P tx = with_hashes P tx"

definition coinbase :: "'v prims \<Rightarrow> int \<Rightarrow> string \<Rightarrow> u256 \<Rightarrow> transaction" where
  "coinbase P now to amount =
     with_hashes P \<lparr>txid = '''', inputs = [], outputs = [\<lparr>out_to = to, out_amount = amount\<rparr>],
       tx_timestamp = now\<rparr>"

definition sign_tx :: "'v prims \<Rightarrow> transaction \<Rightarrow> wallet_keypair \<Rightarrow> transaction" where
  "sign_tx P tx secret_key =
     (let tx_bytes = serialize_for_hash P tx;
          sig_hex = hex_encode P (keypair_sign P secret_key tx_bytes);
          pk_hex = public_hex P secret_key
      in tx\<lparr>inputs := map (\<lambda>inp. inp\<lparr>in_signature := Some sig_hex, in_pubkey := pk_hex\<rparr>) (inputs tx)\<rparr>)"

fun verify_inputs :: "'v prims \<Rightarrow> bytes \<Rightarrow> transaction_input list \<Rightarrow> (tx_error, bool) result" where
  "verify_inputs P tx_bytes [] = Ok True"
| "verify_inputs P tx_bytes (inp # inps) =
     (case in_signature inp of
        None \<Rightarrow> Err MissingSignature
      | Some sig_hex \<Rightarrow>
          (case hex_decode P sig_hex of
             None \<Rightarrow> Err BadSignatureHex
           | Some sig_bytes \<Rightarrow>
               if \<not> verify_signature P (in_pubkey inp) tx_bytes sig_bytes then Ok False
               else verify_inputs P tx_bytes inps))"

definition verify_signatures :: "'v prims \<Rightarrow> transaction \<Rightarrow> (tx_error, bool) result" where
  "verify_signatures P tx =
     (if inputs tx = [] then Ok True
      else verify_inputs P (serialize_for_hash P tx) (inputs tx))"

section \<open>Signing and verification\<close>

lemma serialize_sign [simp]: "serialize_for_hash P (sign_tx P tx kp) = serialize_for_hash P tx"
  by (simp add: serialize_for_hash_def sign_tx_def comp_def Let_def)

text \<open>What an accepted input carries.\<close>

definition input_signed :: "'v prims \<Rightarrow> bytes \<Rightarrow> transaction_input \<Rightarrow> bool" where
  "input_signed P tx_bytes inp \<longleftrightarrow>
     (\<exists>sig_hex sig_bytes. in_signature inp = Some sig_hex \<and> hex_decode P sig_hex = Some sig_bytes \<and>
        verify_signature P (in_pubkey inp) tx_bytes sig_bytes)"

lemma verify_inputs_True_iff:
  "verify_inputs P tx_bytes inps = Ok True \<longleftrightarrow> (\<forall>inp\<in>set inps. input_signed P tx_bytes inp)"
  by (induction inps) (auto simp: input_signed_def split: option.splits)

lemma verify_signatures_True_iff:
  "verify_signatures P tx = Ok True \<longleftrightarrow>
   (\<forall>inp\<in>set (inputs tx). input_signed P (serialize_for_hash P tx) inp)"
  by (auto simp: verify_signatures_def verify_inputs_True_iff)

lemma verify_signed:
  assumes "ed25519_ok P" "hex_ok P" "keypair_wf P kp"
  shows "verify_signatures P (sign_tx P tx kp) = Ok True"
proof -
  have "input_signed P (serialize_for_hash P tx) inp" if "inp \<in> set (inputs (sign_tx P tx kp))" for inp
    using that verify_own_signature[OF assms] assms(2)
    by (auto simp: input_signed_def sign_tx_def Let_def)
  then show ?thesis by (simp add: verify_signatures_True_iff)
qed

text \<open>
  A transaction signed with a wallet's key passes \<open>verify_signatures\<close>, and signing does not
  change its identifier: the txid covers neither public keys nor signatures.
\<close>

theorem sign_then_verify:
  assumes "ed25519_ok P" "hex_ok P" "keypair_wf P kp"
  shows "verify_signatures P (sign_tx P tx kp) = Ok True \<and>
    compute_txid P (sign_tx P tx kp) = compute_txid P tx"
  using verify_signed[OF assms] by (simp add: compute_txid_def)

definition sample_tx :: transaction where
  "sample_tx = \<lparr>txid = '''', inputs = [\<lparr>in_txid = ''00'', in_vout = 0, in_pubkey = '''',
     in_signature = None\<rparr>], outputs = [\<lparr>out_to = ''alice'', out_amount = 10\<rparr>], tx_timestamp = 0\<rparr>"

theorem sign_then_verify_witness:
  "verify_signatures ref_prims (sign_tx ref_prims sample_tx (keypair_new ref_prims (replicate 32 7)))
     = Ok True \<and> verify_signatures ref_prims sample_tx = Err MissingSignature"
proof -
  have "keypair_wf ref_prims (keypair_new ref_prims (replicate 32 7))"
    by (rule keypair_wf_new) simp
  from sign_then_verify[OF _ _ this, of sample_tx]
  have "verify_signatures ref_prims (sign_tx ref_prims sample_tx (keypair_new ref_prims (replicate 32 7)))
     = Ok True" by simp
  moreover have "verify_signatures ref_prims sample_tx = Err MissingSignature"
    by (simp add: sample_tx_def verify_signatures_def)
  ultimately show ?thesis by simp
qed

end
