(* ===== verification/Block.thy ===== *)
theory Block
  imports Transaction
begin

text \<open>
  \<open>core/src/block/mod.rs\<close>: header hashes and Merkle roots. The \<open>while\<close> loop over the levels of the
  tree is \<open>merkle_loop\<close>, whose measure is the number of nodes of the level.
\<close>

definition blake3_hash :: "'v prims \<Rightarrow> bytes \<Rightarrow> bytes" where
  "blake3_hash P data = blake3 P data"

definition sha256d :: "'v prims \<Rightarrow> bytes \<Rightarrow> bytes" where
  "sha256d P data = (let h1 = sha256 P data in sha256 P h1)"

definition to_hex :: "'v prims \<Rightarrow> bytes \<Rightarrow> string" where
  "to_hex P hash = hex_encode P hash"

definition serialize_header :: "'v prims \<Rightarrow> block_header \<Rightarrow> bytes" where
  "serialize_header P h = enc_header P h"

definition compute_header_hash :: "'v prims \<Rightarrow> block_header \<Rightarrow> string" where
  "compute_header_hash P h = to_hex P (blake3_hash P (serialize_header P h))"

definition merkle_leaf :: "'v prims \<Rightarrow> string \<Rightarrow> bytes" where
  "merkle_leaf P h =
     (let b = (case hex_decode P h of None \<Rightarrow> replicate 32 0 | Some b \<Rightarrow> b)
      in if length b = 32 then b else replicate 32 0)"

text \<open>The \<open>for i in (0..leaves.len()).step_by(2)\<close> loop over an even number of leaves.\<close>

fun merkle_pairs :: "'v prims \<Rightarrow> bytes list \<Rightarrow> bytes list" where
  "merkle_pairs P (l # r # rest) = blake3_hash P (l @ r) # merkle_pairs P rest"
| "merkle_pairs P _ = []"

definition pad_even :: "bytes list \<Rightarrow> bytes list" where
  "pad_even leaves = (if odd (length leaves) then leaves @ [last leaves] else leaves)"

lemma length_merkle_pairs: "length (merkle_pairs P ls) = length ls div 2"
  by (induction P ls rule: merkle_pairs.induct) auto

lemma length_next_level:
  assumes "length leaves > 1"
  shows "length (merkle_pairs P (pad_even leaves)) < length leaves"
proof -
  have "(n + n mod 2) div 2 < n" if "1 < n" for n :: nat using that by presburger
  from this[OF assms] show ?thesis
    by (auto simp: length_merkle_pairs pad_even_def odd_iff_mod_2_eq_one)
qed

lemma even_pad_even: "even (length (pad_even leaves))"
  by (simp add: pad_even_def)

function merkle_loop :: "'v prims \<Rightarrow> bytes list \<Rightarrow> bytes list" where
  "merkle_loop P leaves =
     (if length leaves > 1 then merkle_loop P (merkle_pairs P (pad_even leaves)) else leaves)"
  by pat_completeness auto
termination
  by (relation "measure (\<lambda>(P, leaves). length leaves)")
    (simp_all add: length_next_level)

declare merkle_loop.simps [simp del]

definition compute_merkle_root :: "'v prims \<Rightarrow> string list \<Rightarrow> string" where
  "compute_merkle_root P txids =
     (if txids = [] then to_hex P (blake3_hash P [])
      else to_hex P (hd (merkle_loop P (map (merkle_leaf P) txids))))"

section \<open>The tree\<close>

lemma merkle_loop_single: "leaves \<noteq> [] \<Longrightarrow> length (merkle_loop P leaves) = 1"
proof (induction P leaves rule: merkle_loop.induct)
  case (1 P leaves)
  show ?case
  proof (cases "length leaves > 1")
    case True
    then have "length (merkle_pairs P (pad_even leaves)) \<noteq> 0"
      by (auto simp: length_merkle_pairs pad_even_def)
    then show ?thesis using 1 True by (simp add: merkle_loop.simps[of P leaves])
  next
    case False
    with 1 have "length leaves = 1" by (cases leaves) auto
    then show ?thesis by (simp add: merkle_loop.simps[of P leaves])
  qed
qed

lemma merkle_loop_ex: "leaves \<noteq> [] \<Longrightarrow> \<exists>a. merkle_loop P leaves = [a]"
  using merkle_loop_single[of leaves P] by (cases "merkle_loop P leaves") auto

text \<open>
  The preimages hashed while the root is computed, level by level: what a collision of two trees
  of the same shape can be read off.
\<close>

fun pair_preimages :: "bytes list \<Rightarrow> bytes list" where
  "pair_preimages (l # r # rest) = (l @ r) # pair_preimages rest"
| "pair_preimages _ = []"

function merkle_preimages :: "'v prims \<Rightarrow> bytes list \<Rightarrow> bytes list" where
  "merkle_preimages P leaves =
     (if length leaves > 1
      then pair_preimages (pad_even leaves) @ merkle_preimages P (merkle_pairs P (pad_even leaves))
      else [])"
  by pat_completeness auto
termination
  by (relation "measure (\<lambda>(P, leaves). length leaves)")
    (simp_all add: length_next_level)

declare merkle_preimages.simps [simp del]

definition collision_at :: "'v prims \<Rightarrow> bytes list \<Rightarrow> bytes list \<Rightarrow> bool" where
  "collision_at P xs ys \<longleftrightarrow>
     list_ex (\<lambda>(x, y). x \<noteq> y \<and> blake3_hash P x = blake3_hash P y) (zip xs ys)"

lemma length_pair_preimages: "length (pair_preimages ls) = length ls div 2"
  by (induction ls rule: pair_preimages.induct) auto

lemma length_merkle_preimages:
  "length xs = length ys \<Longrightarrow> length (merkle_preimages P xs) = length (merkle_preimages P ys)"
proof (induction P xs arbitrary: ys rule: merkle_preimages.induct)
  case (1 P xs)
  have "length (merkle_pairs P (pad_even xs)) = length (merkle_pairs P (pad_even ys))"
    using 1 by (simp add: length_merkle_pairs pad_even_def)
  then show ?case using 1
    by (simp add: merkle_preimages.simps[of P xs] merkle_preimages.simps[of P ys]
        length_pair_preimages pad_even_def)
qed

lemma pairs_binding:
  assumes "length xs = length ys" "even (length xs)"
    and "\<forall>x\<in>set xs. length x = 32" "\<forall>y\<in>set ys. length y = 32"
    and "merkle_pairs P xs = merkle_pairs P ys" "\<not> collision_at P (pair_preimages xs) (pair_preimages ys)"
  shows "xs = ys"
  using assms
proof (induction xs arbitrary: ys rule: pair_preimages.induct)
  case (1 l r rest)
  then obtain l' r' rest' where ys: "ys = l' # r' # rest'"
    by (cases ys rule: pair_preimages.cases) auto
  have "rest = rest'" using 1 ys by (auto simp: collision_at_def)
  moreover have "l @ r = l' @ r'" using 1 ys by (auto simp: collision_at_def)
  ultimately show ?case using 1 ys by auto
qed auto

lemma set_merkle_pairs: "digest_ok P \<Longrightarrow> x \<in> set (merkle_pairs P ls) \<Longrightarrow> length x = 32"
  by (induction P ls rule: merkle_pairs.induct) (auto simp: blake3_hash_def)

lemma pad_even_inj: "length xs = length ys \<Longrightarrow> pad_even xs = pad_even ys \<Longrightarrow> xs = ys"
  by (auto simp: pad_even_def split: if_splits)

lemma set_pad_even: "set (pad_even xs) = set xs"
  by (cases "xs = []") (auto simp: pad_even_def)

lemma collision_at_append:
  "length a = length b \<Longrightarrow> collision_at P (a @ c) (b @ d) \<longleftrightarrow> collision_at P a b \<or> collision_at P c d"
  by (simp add: collision_at_def)

lemma merkle_loop_binding:
  assumes "digest_ok P" "length xs = length ys"
    and "\<forall>x\<in>set xs. length x = 32" "\<forall>y\<in>set ys. length y = 32"
    and "merkle_loop P xs = merkle_loop P ys"
    and "\<not> collision_at P (merkle_preimages P xs) (merkle_preimages P ys)"
  shows "xs = ys"
  using assms
proof (induction P xs arbitrary: ys rule: merkle_loop.induct)
  case (1 P xs)
  show ?case
  proof (cases "length xs > 1")
    case False
    with 1 show ?thesis by (simp add: merkle_loop.simps[of P xs] merkle_loop.simps[of P ys])
  next
    case True
    let ?xs = "pad_even xs" and ?ys = "pad_even ys"
    have len: "length ?xs = length ?ys" using 1 by (simp add: pad_even_def)
    have nc: "\<not> collision_at P (pair_preimages ?xs) (pair_preimages ?ys)"
        "\<not> collision_at P (merkle_preimages P (merkle_pairs P ?xs)) (merkle_preimages P (merkle_pairs P ?ys))"
      using 1 True len
      by (auto simp: merkle_preimages.simps[of P xs] merkle_preimages.simps[of P ys]
          length_pair_preimages collision_at_append)
    have "merkle_pairs P ?xs = merkle_pairs P ?ys"
      using 1 True nc len set_merkle_pairs[OF "1.prems"(1)]
      by (intro "1.IH") (auto simp: length_merkle_pairs merkle_loop.simps[of P xs] merkle_loop.simps[of P ys])
    then have "?xs = ?ys"
      using nc(1) len "1.prems"(3,4)
      by (intro pairs_binding[of ?xs ?ys P]) (simp_all add: even_pad_even set_pad_even)
    with "1.prems"(2) show ?thesis by (rule pad_even_inj)
  qed
qed

lemma merkle_leaf_length: "length (merkle_leaf P h) = 32"
  by (simp add: merkle_leaf_def Let_def)

lemma merkle_root_loop_eq:
  assumes "hex_ok P" "xs \<noteq> []" "ys \<noteq> []" "compute_merkle_root P xs = compute_merkle_root P ys"
  shows "merkle_loop P (map (merkle_leaf P) xs) = merkle_loop P (map (merkle_leaf P) ys)"
proof -
  obtain a b where ab: "merkle_loop P (map (merkle_leaf P) xs) = [a]"
      "merkle_loop P (map (merkle_leaf P) ys) = [b]"
    using assms(2,3) merkle_loop_ex[of "map (merkle_leaf P) xs" P]
      merkle_loop_ex[of "map (merkle_leaf P) ys" P] by auto
  with assms show ?thesis by (simp add: compute_merkle_root_def to_hex_def)
qed

text \<open>
  The Merkle root binds the transaction list of a given length: two lists of txids with the
  same number of entries and the same root have the same leaves, unless the two computations
  hash two different preimages to the same BLAKE3 digest at the same position of the tree.
\<close>

theorem merkle_root_binding:
  assumes "digest_ok P" "hex_ok P" "length xs = length ys"
    and "compute_merkle_root P xs = compute_merkle_root P ys"
  shows "map (merkle_leaf P) xs = map (merkle_leaf P) ys \<or>
    collision_at P (merkle_preimages P (map (merkle_leaf P) xs))
      (merkle_preimages P (map (merkle_leaf P) ys))"
proof (cases "xs = []")
  case False
  then have "merkle_loop P (map (merkle_leaf P) xs) = merkle_loop P (map (merkle_leaf P) ys)"
    using assms by (intro merkle_root_loop_eq) auto
  then show ?thesis
    using assms merkle_loop_binding[of P "map (merkle_leaf P) xs" "map (merkle_leaf P) ys"]
    by (auto simp: merkle_leaf_length)
qed (use assms in simp)

theorem merkle_root_binding_witness:
  "map (merkle_leaf ref_prims) [''0a'', ''0b''] = map (merkle_leaf ref_prims) [''0c'', ''0d''] \<or>
   collision_at ref_prims (merkle_preimages ref_prims (map (merkle_leaf ref_prims) [''0a'', ''0b'']))
     (merkle_preimages ref_prims (map (merkle_leaf ref_prims) [''0c'', ''0d'']))"
proof (rule merkle_root_binding)
  have "merkle_leaf ref_prims h = replicate 32 0" if "length h = 2" for h
    using that length_unhex[of h] by (auto simp: merkle_leaf_def ref_prims_def split: option.splits)
  then show "compute_merkle_root ref_prims [''0a'', ''0b''] = compute_merkle_root ref_prims [''0c'', ''0d'']"
    by (simp add: compute_merkle_root_def)
qed simp_all

text \<open>
  The root does not bind the number of transactions: a level with an odd number of nodes is
  completed with a copy of its last node, so repeating the last of an odd number of transactions
  leaves the root, and with it the block hash, unchanged.
\<close>

theorem merkle_root_duplicate_last:
  assumes "odd (length txids)" "length txids > 1"
  shows "compute_merkle_root P (txids @ [last txids]) = compute_merkle_root P txids"
proof -
  define l d where "l = map (merkle_leaf P) txids" and "d = map (merkle_leaf P) (txids @ [last txids])"
  have ne: "txids \<noteq> []" using assms by auto
  then have "pad_even l = d" "pad_even d = d" "length l > 1" "length d > 1"
    using assms by (simp_all add: l_def d_def pad_even_def last_map)
  then have "merkle_loop P d = merkle_loop P l"
    by (simp add: merkle_loop.simps[of P l] merkle_loop.simps[of P d])
  then show ?thesis using ne by (simp add: compute_merkle_root_def l_def d_def)
qed

theorem merkle_root_duplicate_last_witness:
  "compute_merkle_root ref_prims [''0a'', ''0b'', ''0c'', ''0c''] =
   compute_merkle_root ref_prims [''0a'', ''0b'', ''0c'']"
  using merkle_root_duplicate_last[of "[''0a'', ''0b'', ''0c'']" ref_prims] by simp

end
