(* ===== verification/Difficulty.thy ===== *)
theory Difficulty
  imports Block
begin

text \<open>
  The compact targets and the proof-of-work test of \<open>core/src/blockchain/mod.rs\<close>, and the display
  helper of \<open>core/src/consensus/mod.rs\<close>. The first part translates the bit and byte manipulation
  of the source; the second reads both conversions as arithmetic on natural numbers, from which
  the loss of precision of the compact form follows.
\<close>

datatype chain_error =
    ChainExists | HeaderHashMismatch | CheckpointPolicy | BadHash | PowInvalid
  | DifficultyMismatch | PrevMissing | ForkDetected | TimestampFuture
  | DifficultyTooAggressive | MerkleMismatch | MedianTimePast | NoTxs | CoinbaseHasInputs
  | TxVerify tx_error | TxSignatureInvalid | DupInput | UtxoMissing | InvalidPubkeyAddress
  | UtxoOwnership | OutputsExceedInputs | FeeTooLow | InvalidCoinbaseReward | DecodeError | Utf8Error
  | BlockNotFound | NoBlocks | NoCommonAncestor | TipHeaderMissing | ReorgDepth | ReorgCheckpoint
  | SpentTxMissing | Panic

section \<open>Translation\<close>

definition POW_LIMIT_BITS :: u32 where
  "POW_LIMIT_BITS = 0x1f7fffff"

definition compact_to_target :: "u32 \<Rightarrow> u256" where
  "compact_to_target bits =
     (let exponent = drop_bit 24 bits; mantissa = bits AND 0x007fffff
      in if mantissa = 0 then 0
         else if exponent \<le> 3 then ucast (drop_bit (8 * (3 - unat exponent)) mantissa)
         else push_bit (8 * (unat exponent - 3)) (ucast mantissa))"

definition first_non_zero :: "bytes \<Rightarrow> nat" where
  "first_non_zero bs =
     (let i = length (takeWhile (\<lambda>b. b = 0) bs) in if i < length bs then i else 31)"

definition mantissa_of :: "bytes \<Rightarrow> nat \<Rightarrow> u32 \<Rightarrow> u32" where
  "mantissa_of bs fnz sz =
     (if sz \<le> 3
      then push_bit (8 * (3 - unat sz)) (foldl (\<lambda>v b. push_bit 8 v OR ucast b) 0 (drop fnz bs))
      else push_bit 16 (ucast (bs ! fnz)) OR push_bit 8 (ucast (bs ! (fnz + 1))) OR ucast (bs ! (fnz + 2)))"

definition target_to_compact :: "u256 \<Rightarrow> u32" where
  "target_to_compact target =
     (if target = 0 then 0
      else
        let bs = to_big_endian target;
            fnz = first_non_zero bs;
            sz = of_nat (32 - fnz);
            mantissa = mantissa_of bs fnz sz;
            (mantissa, sz) = (if mantissa AND 0x00800000 \<noteq> 0 then (drop_bit 8 mantissa, sz + 1)
                                else (mantissa, sz))
        in push_bit 24 sz OR (mantissa AND 0x007fffff))"

definition hash_to_u256 :: "'v prims \<Rightarrow> string \<Rightarrow> (chain_error, u256) result" where
  "hash_to_u256 P hash_hex =
     (let normalized = (case strip_prefix ''0x'' hash_hex of None \<Rightarrow> hash_hex | Some s \<Rightarrow> s)
      in bind_res (ok_or BadHash (hex_decode P normalized)) (\<lambda>bs.
         if length bs \<noteq> 32 then Err BadHash else Ok (from_big_endian bs)))"

definition pow_limit_target :: u256 where
  "pow_limit_target = compact_to_target POW_LIMIT_BITS"

definition is_valid_pow :: "'v prims \<Rightarrow> string \<Rightarrow> u32 \<Rightarrow> (chain_error, bool) result" where
  "is_valid_pow P hash_hex bits =
     bind_res (hash_to_u256 P hash_hex) (\<lambda>hash.
     let target = compact_to_target bits in
     if target = 0 then Ok False else Ok (hash < target))"

text \<open>
  The sanity test that \<open>validate_fork_block\<close> and \<open>validate_and_insert_block\<close> apply to the bits of
  a block and of its parent (step 6 of both): the condition under which they refuse the block.
\<close>

definition too_aggressive :: "u32 \<Rightarrow> u32 \<Rightarrow> bool" where
  "too_aggressive prev_bits bits =
     (let prev_target = compact_to_target prev_bits; current_target = compact_to_target bits
      in current_target = 0 \<or>
         (prev_target \<noteq> 0 \<and>
           ((current_target > prev_target \<and> current_target div prev_target > 4) \<or>
            (current_target < prev_target \<and> prev_target div current_target > 4))))"

definition compact_to_leading_zeros :: "u32 \<Rightarrow> u32" where
  "compact_to_leading_zeros bits =
     (let exponent = drop_bit 24 bits; baseline_exp = 0x1d; baseline_zeros = 2
      in if exponent = 0 then 0
         else if exponent \<le> baseline_exp
         then min (baseline_zeros + (baseline_exp - exponent) * 2) 64
         else sat_sub baseline_zeros ((exponent - baseline_exp) * 2))"

section \<open>Arithmetic reading\<close>

lemma unat_push_or_byte: "push_bit 8 v OR ucast (b::u8) = (v::u32) * 256 + ucast b"
proof -
  have "push_bit 8 v AND ucast b = 0"
    by (rule bit_eqI) (auto simp: bit_simps dest: bit_imp_le_length)
  then have "push_bit 8 v OR ucast b = push_bit 8 v + ucast b"
    by (simp add: disjunctive_add_eq_or)
  then show ?thesis by (simp add: push_bit_eq_mult mult.commute)
qed

lemma foldl_push_or:
  "foldl (\<lambda>v b. push_bit 8 v OR ucast b) v bs = (v::u32) * 256 ^ length bs + of_nat (be_value bs)"
proof (induction bs rule: rev_induct)
  case (snoc b bs)
  have "(ucast b :: u32) = of_nat (unat b)" by simp
  then show ?case using snoc
    by (simp only: foldl_append foldl.simps unat_push_or_byte be_value_append be_value_Cons)
      (simp add: algebra_simps)
qed simp

lemma foldl_push_or_3:
  "push_bit 16 (ucast a) OR push_bit 8 (ucast b) OR ucast c = (of_nat (be_value [a, b, c]) :: u32)"
proof -
  have "push_bit 16 (ucast a) OR push_bit 8 (ucast b) OR ucast c =
      foldl (\<lambda>v b. push_bit 8 v OR ucast b) (0::u32) [a, b, c]"
    by (simp add: push_bit_or or.assoc)
  then show ?thesis by (simp only: foldl_push_or) simp
qed

lemma be_value_digits:
  "be_value (map (\<lambda>i. of_nat (n div 256 ^ (k - 1 - i)) :: u8) [0..<k]) = n mod 256 ^ k"
proof (induction k)
  case (Suc k)
  have "[0..<Suc k] = 0 # map Suc [0..<k]" by (simp add: upt_conv_Cons map_Suc_upt)
  then have "map (\<lambda>i. of_nat (n div 256 ^ (Suc k - 1 - i)) :: u8) [0..<Suc k] =
      of_nat (n div 256 ^ k) # map (\<lambda>i. of_nat (n div 256 ^ (k - 1 - i))) [0..<k]"
    by (simp add: comp_def)
  then have "be_value (map (\<lambda>i. of_nat (n div 256 ^ (Suc k - 1 - i)) :: u8) [0..<Suc k]) =
      (n div 256 ^ k mod 256) * 256 ^ k + n mod 256 ^ k"
    using Suc by (simp only: be_value_Cons) (simp add: unsigned_of_nat take_bit_eq_mod)
  moreover have "n mod 256 ^ Suc k = 256 ^ k * (n div 256 ^ k mod 256) + n mod 256 ^ k"
    by (simp only: power_Suc2 mod_mult2_eq)
  ultimately show ?case by (simp only: mult.commute)
qed simp

lemma be_value_to_big_endian: "be_value (to_big_endian t) = unat t"
  using be_value_digits[of "unat t" 32] unat_u256_lt[of t] by (simp add: to_big_endian_def)

lemma be_value_zeros: "be_value (takeWhile (\<lambda>b. b = 0) bs) = 0"
  by (induction bs) (auto simp: be_value_Cons)

lemma be_value_dropWhile: "be_value (dropWhile (\<lambda>b. b = 0) bs) = be_value bs"
  using be_value_append[of "takeWhile (\<lambda>b. b = 0) bs" "dropWhile (\<lambda>b. b = 0) bs"]
  by (simp add: be_value_zeros)

lemma be_value_ge: "bs \<noteq> [] \<Longrightarrow> hd bs \<noteq> 0 \<Longrightarrow> 256 ^ (length bs - 1) \<le> be_value bs"
proof (cases bs)
  case (Cons b rest)
  moreover assume "hd bs \<noteq> 0"
  ultimately have "1 \<le> unat b" by (simp add: Suc_le_eq unat_gt_0)
  then have "1 * 256 ^ length rest \<le> unat b * 256 ^ length rest" by (rule mult_le_mono1)
  then have "256 ^ length rest \<le> unat b * 256 ^ length rest + be_value rest" by linarith
  then show ?thesis using Cons by (simp add: be_value_Cons)
qed simp

text \<open>The significant bytes of a non-zero target.\<close>

lemma significant_bytes:
  assumes "t \<noteq> 0"
  obtains r s where "drop (first_non_zero (to_big_endian t)) (to_big_endian t) = r"
    "length r = s" "first_non_zero (to_big_endian t) = 32 - s" "1 \<le> s" "s \<le> 32"
    "be_value r = unat t" "256 ^ (s - 1) \<le> unat t" "unat t < 256 ^ s"
proof -
  let ?bs = "to_big_endian t"
  define r where "r = dropWhile (\<lambda>b. b = 0) ?bs"
  have v: "be_value r = unat t" by (simp add: r_def be_value_dropWhile be_value_to_big_endian)
  then have ne: "r \<noteq> []" using assms by (auto simp: unat_eq_0)
  have len: "length (takeWhile (\<lambda>b. b = 0) ?bs) + length r = 32"
    using length_append[of "takeWhile (\<lambda>b. b = 0) ?bs" r] by (simp add: r_def)
  have "length r \<noteq> 0" using ne by simp
  then have "length (takeWhile (\<lambda>b. b = 0) ?bs) < 32" using len by arith
  then have fnz: "first_non_zero ?bs = 32 - length r"
    using len unfolding first_non_zero_def Let_def length_to_big_endian by auto
  have dr: "drop (first_non_zero ?bs) ?bs = r"
  proof -
    have "length (takeWhile (\<lambda>b. b = 0) ?bs) = first_non_zero ?bs" using len fnz by simp
    then show ?thesis by (metis dropWhile_eq_drop r_def)
  qed
  have "hd r \<noteq> 0" using ne by (metis (mono_tags) hd_dropWhile r_def)
  then have "256 ^ (length r - 1) \<le> unat t" using be_value_ge[OF ne] v by simp
  moreover have "unat t < 256 ^ length r" using be_value_lt[of r] v by simp
  moreover have "length r \<noteq> 0" using ne by simp
  then have "1 \<le> length r" by arith
  moreover have "length r \<le> 32" using len by arith
  ultimately show thesis using that[OF dr refl fnz] v by blast
qed

lemma unat_and_mask23: "unat (w AND 0x007fffff :: u32) = unat w mod 2 ^ 23"
proof -
  have "w AND 0x007fffff = take_bit 23 w"
    by (simp add: take_bit_eq_mask mask_eq_exp_minus_1)
  then show ?thesis by (simp add: unsigned_take_bit_eq take_bit_eq_mod unat_mod)
qed

lemma unat_exponent: "unat (drop_bit 24 (w::u32)) = unat w div 2 ^ 24"
  by (subst unat_drop_bit_eq) (simp add: drop_bit_eq_div)

text \<open>The compact form read as a floating-point number to base 256.\<close>

definition compact_value :: "nat \<Rightarrow> nat \<Rightarrow> nat" where
  "compact_value e m = (if e \<le> 3 then m div 256 ^ (3 - e) else m * 256 ^ (e - 3) mod 2 ^ 256)"

lemma unat_compact_to_target:
  "unat (compact_to_target w) = compact_value (unat w div 2 ^ 24) (unat w mod 2 ^ 23)"
proof -
  let ?e = "unat w div 2 ^ 24" and ?m = "unat w mod 2 ^ 23"
  have p: "(2::nat) ^ (8 * k) = 256 ^ k" for k by (simp add: power_mult)
  have le3: "drop_bit 24 w \<le> 3 \<longleftrightarrow> ?e \<le> 3"
    by (simp add: word_le_nat_alt unat_exponent)
  have up: "unat (ucast x :: u256) = unat x" for x :: u32
    using unat_u32_lt[of x] by (simp add: unsigned_ucast_eq take_bit_eq_mod)
  have lo: "unat (ucast (drop_bit (8 * k) (w AND 0x007fffff)) :: u256) = ?m div 256 ^ k" for k
  proof -
    have "unat (drop_bit (8 * k) (w AND 0x007fffff)) = ?m div 2 ^ (8 * k)"
      by (subst unat_drop_bit_eq) (simp only: drop_bit_eq_div unat_and_mask23)
    then show ?thesis by (simp only: p up)
  qed
  have hi: "unat (push_bit (8 * k) (ucast (w AND 0x007fffff)) :: u256) = ?m * 256 ^ k mod 2 ^ 256" for k
  proof -
    have "unat (push_bit n x :: u256) = unat x * 2 ^ n mod 2 ^ LENGTH(256)" for n x
      by (subst unsigned_push_bit_eq) (simp only: push_bit_eq_mult take_bit_eq_mod)
    then show ?thesis by (simp only: up unat_and_mask23 p) simp
  qed
  have zero: "w AND 0x007fffff = 0 \<longleftrightarrow> ?m = 0"
    by (metis unat_and_mask23 unat_eq_0)
  show ?thesis
  proof (cases "?m = 0")
    case True
    then show ?thesis by (simp add: compact_to_target_def compact_value_def zero)
  next
    case False
    then show ?thesis
      unfolding compact_to_target_def Let_def compact_value_def zero le3 unat_exponent
      by (simp only: if_False if_distrib[of unat] lo hi)
  qed
qed

text \<open>An equation for evaluation, on natural numbers.\<close>

lemma compact_to_target_code [code]:
  "compact_to_target w = of_nat (compact_value (unat w div 2 ^ 24) (unat w mod 2 ^ 23))"
  by (simp only: unat_compact_to_target[symmetric]) simp

lemma mantissa_of_eq:
  assumes "drop fnz bs = r" "length r = s" "1 \<le> s" "s \<le> 32" "be_value r = n" "fnz = 32 - s"
    "length bs = 32"
  shows "mantissa_of bs fnz (of_nat s) = of_nat (if s \<le> 3 then n * 256 ^ (3 - s) else n div 256 ^ (s - 3))"
proof (cases "s \<le> 3")
  case True
  have "unat (of_nat s :: u32) = s" using assms(4) by (intro unat_of_nat_eq) simp
  then have "mantissa_of bs fnz (of_nat s) = push_bit (8 * (3 - s)) (of_nat n)"
    using True assms(1,5) by (simp add: mantissa_of_def word_le_nat_alt foldl_push_or del: push_bit_of_nat)
  also have "\<dots> = of_nat (n * 256 ^ (3 - s))"
    by (simp only: push_bit_eq_mult power_mult of_nat_mult of_nat_power) simp
  finally show ?thesis using True by simp
next
  case False
  then obtain a b c rest where r: "r = a # b # c # rest"
    using assms(2) by (metis Suc_le_length_iff not_less_eq_eq numeral_3_eq_3)
  have us: "unat (of_nat s :: u32) = s" using assms(4) by (intro unat_of_nat_eq) simp
  have nth: "bs ! fnz = a" "bs ! (fnz + 1) = b" "bs ! (fnz + 2) = c"
    using assms r nth_drop[of fnz bs 0] nth_drop[of fnz bs 1] nth_drop[of fnz bs 2] False
    by (simp_all add: numeral_2_eq_2)
  have "n = be_value [a, b, c] * 256 ^ (s - 3) + be_value rest"
    using assms(2,5) r be_value_append[of "[a, b, c]" rest] by auto
  moreover have "be_value rest < 256 ^ (s - 3)"
    using be_value_lt[of rest] assms(2) r by auto
  ultimately have "n div 256 ^ (s - 3) = be_value [a, b, c]" by simp
  then show ?thesis
    using False us by (simp only: mantissa_of_def nth foldl_push_or_3 word_le_nat_alt) simp
qed

lemma bit23_iff: "unat (w::u32) < 2 ^ 24 \<Longrightarrow> w AND 0x00800000 \<noteq> 0 \<longleftrightarrow> 2 ^ 23 \<le> unat w"
proof -
  assume lt: "unat w < 2 ^ 24"
  have "w AND 0x00800000 \<noteq> 0 \<longleftrightarrow> bit w 23"
    using and_exp_eq_0_iff_not_bit[of w 23] by simp
  also have "\<dots> \<longleftrightarrow> bit (unat w) 23"
    by (simp add: bit_unsigned_iff)
  also have "\<dots> \<longleftrightarrow> odd (unat w div 2 ^ 23)" by (rule bit_iff_odd)
  also have "\<dots> \<longleftrightarrow> 2 ^ 23 \<le> unat w"
  proof -
    have "unat w div 2 ^ 23 = 0 \<or> unat w div 2 ^ 23 = 1"
      using lt by (simp add: less_Suc_eq_0_disj div_less_iff_less_mult) arith
    then show ?thesis by (auto simp: div_eq_0_iff)
  qed
  finally show "w AND 0x00800000 \<noteq> 0 \<longleftrightarrow> 2 ^ 23 \<le> unat w" .
qed

lemma unat_assemble:
  assumes "sz < 2 ^ 8" "unat m < 2 ^ 23"
  shows "unat (push_bit 24 (of_nat sz) OR (m AND 0x007fffff) :: u32) = sz * 2 ^ 24 + unat m"
proof -
  have m: "m AND 0x007fffff = take_bit 23 m"
    by (simp add: take_bit_eq_mask mask_eq_exp_minus_1)
  have m': "unat (take_bit 23 m) = unat m"
    using assms(2) unat_and_mask23[of m] m by simp
  have "push_bit 24 (of_nat sz) AND take_bit 23 m = 0"
    by (rule bit_eqI) (auto simp: bit_simps simp del: push_bit_of_nat)
  then have "push_bit 24 (of_nat sz) OR take_bit 23 m = push_bit 24 (of_nat sz) + take_bit 23 m"
    by (rule disjunctive_add_eq_or[symmetric])
  also have "\<dots> = of_nat (sz * 2 ^ 24 + unat m)"
    by (simp only: push_bit_eq_mult of_nat_add of_nat_mult of_nat_power m'[symmetric] of_nat_unat) simp
  finally show ?thesis unfolding m using assms unat_of_nat_eq[of "sz * 2 ^ 24 + unat m", where ?'a = 32]
    by simp
qed

definition mantissa_nat :: "nat \<Rightarrow> nat \<Rightarrow> nat" where
  "mantissa_nat s n = (if s \<le> 3 then n * 256 ^ (3 - s) else n div 256 ^ (s - 3))"

lemma pow256_split: "a + b = c \<Longrightarrow> (256::nat) ^ a * 256 ^ b = 256 ^ c"
  by (auto simp: power_add)

lemma mantissa_nat_bounds:
  assumes "1 \<le> s" "256 ^ (s - 1) \<le> n" "n < 256 ^ s"
  shows "2 ^ 16 \<le> mantissa_nat s n" "mantissa_nat s n < 2 ^ 24"
proof -
  have lo: "256 ^ (s - 1) * 256 ^ (3 - s) = (256::nat) ^ 2" if "s \<le> 3"
    using that assms(1) by (simp flip: power_add)
  have hi: "256 ^ s * 256 ^ (3 - s) = (256::nat) ^ 3" if "s \<le> 3"
    using that by (simp flip: power_add)
  have lo': "(256::nat) ^ 2 * 256 ^ (s - 3) = 256 ^ (s - 1)" if "\<not> s \<le> 3"
    using that by (intro pow256_split) arith
  have hi': "(256::nat) ^ 3 * 256 ^ (s - 3) = 256 ^ s" if "\<not> s \<le> 3"
    using that by (intro pow256_split) arith
  show "2 ^ 16 \<le> mantissa_nat s n"
  proof (cases "s \<le> 3")
    case True
    have "256 ^ (s - 1) * 256 ^ (3 - s) \<le> n * 256 ^ (3 - s)" using assms(2) by (rule mult_le_mono1)
    then have "256 ^ 2 \<le> n * 256 ^ (3 - s)" by (simp only: lo[OF True])
    then show ?thesis using True by (simp add: mantissa_nat_def)
  next
    case False
    then show ?thesis using lo' assms(2) by (simp add: mantissa_nat_def less_eq_div_iff_mult_less_eq)
  qed
  show "mantissa_nat s n < 2 ^ 24"
  proof (cases "s \<le> 3")
    case True
    have "n * 256 ^ (3 - s) < 256 ^ s * 256 ^ (3 - s)" using assms(3) by simp
    then have "n * 256 ^ (3 - s) < 256 ^ 3" by (simp only: hi[OF True])
    then show ?thesis using True by (simp add: mantissa_nat_def)
  next
    case False
    then show ?thesis using hi' assms(3) by (simp add: mantissa_nat_def div_less_iff_less_mult)
  qed
qed

lemma target_to_compact_nat:
  assumes "t \<noteq> 0"
  obtains s where "1 \<le> s" "s \<le> 32" "256 ^ (s - 1) \<le> unat t" "unat t < 256 ^ s"
    "unat (target_to_compact t) =
       (let m = mantissa_nat s (unat t) in
        if 2 ^ 23 \<le> m then (s + 1) * 2 ^ 24 + m div 256 else s * 2 ^ 24 + m)"
proof -
  obtain r s where h: "drop (first_non_zero (to_big_endian t)) (to_big_endian t) = r"
    "length r = s" "first_non_zero (to_big_endian t) = 32 - s" "1 \<le> s" "s \<le> 32"
    "be_value r = unat t" "256 ^ (s - 1) \<le> unat t" "unat t < 256 ^ s"
    using significant_bytes[OF assms] by metis
  let ?m = "mantissa_nat s (unat t)"
  have sz: "of_nat (32 - first_non_zero (to_big_endian t)) = (of_nat s :: u32)"
    using h(3,5) by simp
  have man: "mantissa_of (to_big_endian t) (first_non_zero (to_big_endian t)) (of_nat s) = of_nat ?m"
    unfolding mantissa_nat_def using h by (intro mantissa_of_eq) simp_all
  have b: "2 ^ 16 \<le> ?m" "?m < 2 ^ 24" using mantissa_nat_bounds[OF h(4,7,8)] .
  have um: "unat (of_nat ?m :: u32) = ?m" using b by (intro unat_of_nat_eq) simp
  have bit: "(of_nat ?m :: u32) AND 0x00800000 \<noteq> 0 \<longleftrightarrow> 2 ^ 23 \<le> ?m"
    using bit23_iff[of "of_nat ?m"] um b by simp
  have db: "unat (drop_bit 8 (of_nat ?m :: u32)) = ?m div 256"
    by (subst unat_drop_bit_eq) (simp add: um drop_bit_eq_div)
  have "unat (target_to_compact t) =
      (if 2 ^ 23 \<le> ?m
       then unat (push_bit 24 (of_nat (s + 1)) OR (drop_bit 8 (of_nat ?m) AND 0x007fffff) :: u32)
       else unat (push_bit 24 (of_nat s) OR (of_nat ?m AND 0x007fffff) :: u32))"
    unfolding target_to_compact_def Let_def sz man if_not_P[OF assms] bit
    by (simp del: push_bit_of_nat add: add.commute)
  also have "\<dots> = (if 2 ^ 23 \<le> ?m then (s + 1) * 2 ^ 24 + ?m div 256 else s * 2 ^ 24 + ?m)"
    using h(5) b um db
      unat_assemble[of "s + 1" "drop_bit 8 (of_nat ?m)"] unat_assemble[of s "of_nat ?m"]
    by (auto simp del: push_bit_of_nat)
  finally show thesis using that[OF h(4,5,7,8)] by (simp add: Let_def)
qed

lemma compact_value_trunc:
  assumes "1 \<le> s" "s \<le> 32" "n < 256 ^ s" and m: "m = mantissa_nat s n"
  shows "m < 2 ^ 23 \<Longrightarrow> compact_value s m = (let k = s - 3 in n div 256 ^ k * 256 ^ k)"
    and "2 ^ 23 \<le> m \<Longrightarrow> compact_value (s + 1) (m div 256) = (let k = s - 2 in n div 256 ^ k * 256 ^ k)"
proof -
  have fits: "n div 256 ^ k * 256 ^ k mod 2 ^ 256 = n div 256 ^ k * 256 ^ k" for k
  proof -
    have "n div 256 ^ k * 256 ^ k \<le> n" by simp
    also have "n < 256 ^ 32" using assms(2,3) by (meson less_le_trans one_le_numeral power_increasing)
    finally show ?thesis by simp
  qed
  show "compact_value s m = (let k = s - 3 in n div 256 ^ k * 256 ^ k)"
    using fits[of "s - 3"] by (simp add: compact_value_def m mantissa_nat_def Let_def)
  have "m div 256 = (if s \<le> 2 then n * 256 ^ (2 - s) else n div 256 ^ (s - 2))"
  proof -
    have "n * 256 ^ (3 - s) div 256 = n * 256 ^ (2 - s)" if "s \<le> 2"
    proof -
      have "3 - s = Suc (2 - s)" using that by arith
      then show ?thesis by simp
    qed
    moreover have "n div 256 ^ (s - 3) div 256 = n div 256 ^ (s - 2)" if "\<not> s \<le> 2"
    proof -
      have "s - 2 = Suc (s - 3)" using that by arith
      then show ?thesis by (simp only: power_Suc2 div_mult2_eq)
    qed
    ultimately show ?thesis by (auto simp: m mantissa_nat_def)
  qed
  then show "compact_value (s + 1) (m div 256) = (let k = s - 2 in n div 256 ^ k * 256 ^ k)"
    using fits[of "s - 2"] by (auto simp: compact_value_def Let_def)
qed

lemma assemble_parts:
  "m < 2 ^ 23 \<Longrightarrow> (s * 2 ^ 24 + m) div 2 ^ 24 = (s::nat)"
  "m < 2 ^ 23 \<Longrightarrow> (s * 2 ^ 24 + m) mod 2 ^ 23 = m"
proof -
  have "(s * 2 ^ 24 + m) mod 2 ^ 23 = (m + (2 * s) * 2 ^ 23) mod 2 ^ 23" by (simp add: add.commute mult.commute)
  also have "\<dots> = m mod 2 ^ 23" by (rule mod_mult_self1)
  finally show "m < 2 ^ 23 \<Longrightarrow> (s * 2 ^ 24 + m) mod 2 ^ 23 = m" by simp
qed simp

lemma compact_to_target_truncates:
  assumes "t \<noteq> 0"
  obtains k where "unat (compact_to_target (target_to_compact t)) = unat t div 256 ^ k * 256 ^ k"
    "k = 0 \<or> 2 ^ 15 * 256 ^ k \<le> unat t"
proof -
  obtain s where s: "1 \<le> s" "s \<le> 32" "256 ^ (s - 1) \<le> unat t" "unat t < 256 ^ s"
    and w: "unat (target_to_compact t) =
       (let m = mantissa_nat s (unat t) in
        if 2 ^ 23 \<le> m then (s + 1) * 2 ^ 24 + m div 256 else s * 2 ^ 24 + m)"
    using target_to_compact_nat[OF assms] .
  define m where "m = mantissa_nat s (unat t)"
  have m24: "m < 2 ^ 24" using mantissa_nat_bounds(2)[OF s(1,3,4)] by (simp add: m_def)
  show thesis
  proof (cases "2 ^ 23 \<le> m")
    case False
    then have "unat (target_to_compact t) = s * 2 ^ 24 + m" using w by (simp add: m_def Let_def)
    then have "unat (compact_to_target (target_to_compact t)) = compact_value s m"
      using False by (simp only: unat_compact_to_target assemble_parts not_le)
    moreover have "2 ^ 15 * 256 ^ (s - 3) \<le> unat t" if "s - 3 \<noteq> 0"
    proof -
      have "2 ^ 15 * 256 ^ (s - 3) \<le> 256 ^ 2 * (256::nat) ^ (s - 3)" by (intro mult_le_mono1) simp
      also have "\<dots> = 256 ^ (s - 1)" using that by (intro pow256_split) arith
      finally show ?thesis using s(3) by linarith
    qed
    ultimately show thesis
      using that[of "s - 3"] False compact_value_trunc(1)[OF s(1,2,4) m_def] by (simp add: Let_def) linarith
  next
    case True
    then have "unat (target_to_compact t) = (s + 1) * 2 ^ 24 + m div 256" using w by (simp add: m_def Let_def)
    moreover have "m div 256 < 2 ^ 23" using m24 by (simp add: div_less_iff_less_mult)
    ultimately have "unat (compact_to_target (target_to_compact t)) = compact_value (s + 1) (m div 256)"
      by (simp only: unat_compact_to_target assemble_parts)
    moreover have "2 ^ 15 * 256 ^ (s - 2) \<le> unat t" if "s - 2 \<noteq> 0"
    proof (cases "s = 3")
      case False
      then have "2 ^ 23 * 256 ^ (s - 3) \<le> unat t"
        using True that by (simp add: m_def mantissa_nat_def less_eq_div_iff_mult_less_eq)
      moreover have "s - 2 = Suc (s - 3)" using that False by arith
      ultimately show ?thesis by simp
    qed (use True in \<open>simp add: m_def mantissa_nat_def\<close>)
    ultimately show thesis
      using that[of "s - 2"] compact_value_trunc(2)[OF s(1,2,4) m_def True] by (simp add: Let_def) linarith
  qed
qed

lemma compact_roundtrip_bounds:
  assumes "t \<noteq> 0"
  shows "unat (compact_to_target (target_to_compact t)) \<le> unat t"
    and "32768 * (unat t - unat (compact_to_target (target_to_compact t)))
      \<le> unat (compact_to_target (target_to_compact t))"
proof -
  obtain k where k: "unat (compact_to_target (target_to_compact t)) = unat t div 256 ^ k * 256 ^ k"
    "k = 0 \<or> 2 ^ 15 * 256 ^ k \<le> unat t"
    using compact_to_target_truncates[OF assms] .
  show "unat (compact_to_target (target_to_compact t)) \<le> unat t" using k(1) by simp
  show "32768 * (unat t - unat (compact_to_target (target_to_compact t)))
      \<le> unat (compact_to_target (target_to_compact t))"
  proof (cases "k = 0")
    case False
    then have "32768 \<le> unat t div 256 ^ k" using k(2) by (simp add: less_eq_div_iff_mult_less_eq)
    then have "32768 * 256 ^ k \<le> unat t div 256 ^ k * 256 ^ k" by (rule mult_le_mono1)
    moreover have "unat t - unat t div 256 ^ k * 256 ^ k < 256 ^ k"
      by (simp add: minus_div_mult_eq_mod)
    ultimately show ?thesis unfolding k(1) by linarith
  qed (simp add: k(1))
qed

text \<open>
  Precision of the compact form: encoding a non-zero target and decoding it again never gives a
  zero target, never makes the target easier, and loses at most one part in 32768 of it.
\<close>

theorem compact_precision:
  assumes "t \<noteq> 0"
  shows "compact_to_target (target_to_compact t) \<noteq> 0 \<and>
    compact_to_target (target_to_compact t) \<le> t \<and>
    32768 * (unat t - unat (compact_to_target (target_to_compact t)))
      \<le> unat (compact_to_target (target_to_compact t))"
proof (intro conjI)
  show "compact_to_target (target_to_compact t) \<noteq> 0"
  proof
    assume "compact_to_target (target_to_compact t) = 0"
    then have "unat t = 0" using compact_roundtrip_bounds(2)[OF assms] by simp
    then show False using assms by (simp add: unat_eq_0)
  qed
qed (use compact_roundtrip_bounds[OF assms] in \<open>simp_all add: word_le_nat_alt\<close>)

theorem compact_precision_witness:
  "compact_to_target (target_to_compact 0xffffff) \<noteq> 0 \<and>
   compact_to_target (target_to_compact 0xffffff) = 0xffff00"
proof -
  have "compact_to_target (target_to_compact 0xffffff) = 0xffff00"
    by (simp add: target_to_compact_def to_big_endian_def upt_rec first_non_zero_def mantissa_of_def
        compact_to_target_def)
  then show ?thesis using compact_precision[of "0xffffff"] by simp
qed

end
