(* ===== verification/Tokenomics.thy ===== *)
theory Tokenomics
  imports Prelude
begin

text \<open>
  \<open>core/src/config.rs\<close>: the token unit, the halving schedule and the fee formulas. All constants
  are 256-bit words; a \<open>usize\<close> is a natural number.
\<close>

definition RAM_PER_ASRM :: u256 where
  "RAM_PER_ASRM = 1000000000000000000"

definition initial_block_reward :: u256 where
  "initial_block_reward = RAM_PER_ASRM * 8"

definition HALVING_INTERVAL :: u64 where
  "HALVING_INTERVAL = 210000"

definition max_supply :: u256 where
  "max_supply = RAM_PER_ASRM * 42000000"

definition BASE_MIN_FEE :: u256 where
  "BASE_MIN_FEE = 100000000000000"

definition MIN_RELAY_FEE_NAT_PER_BYTE :: u256 where
  "MIN_RELAY_FEE_NAT_PER_BYTE = 200000000000"

definition DEFAULT_WALLET_FEE_NAT_PER_BYTE :: u256 where
  "DEFAULT_WALLET_FEE_NAT_PER_BYTE = 300000000000"

text \<open>The cast \<open>as u32\<close> keeps the low 32 bits of the quotient.\<close>

definition calculate_block_reward :: "u64 \<Rightarrow> u256" where
  "calculate_block_reward block_height =
     (let halvings = (ucast (block_height div HALVING_INTERVAL) :: u32)
      in if halvings \<ge> 33 then 0 else drop_bit (unat halvings) initial_block_reward)"

definition calculate_min_fee :: "nat \<Rightarrow> u256" where
  "calculate_min_fee tx_size_bytes = BASE_MIN_FEE + MIN_RELAY_FEE_NAT_PER_BYTE * of_nat tx_size_bytes"

definition calculate_default_fee :: "nat \<Rightarrow> u256" where
  "calculate_default_fee tx_size_bytes =
     BASE_MIN_FEE + DEFAULT_WALLET_FEE_NAT_PER_BYTE * of_nat tx_size_bytes"

section \<open>Rewards\<close>

lemma unat_initial_block_reward: "unat initial_block_reward = 8000000000000000000"
  by (simp add: initial_block_reward_def RAM_PER_ASRM_def)

lemma unat_max_supply: "unat max_supply = 42000000000000000000000000"
  by (simp add: max_supply_def RAM_PER_ASRM_def)

lemma unat_halvings:
  "unat (ucast (h div HALVING_INTERVAL) :: u32) = unat h div 210000 mod 2 ^ 32"
  by (simp add: HALVING_INTERVAL_def unsigned_ucast_eq take_bit_eq_mod unat_div)

lemma unat_block_reward:
  "unat (calculate_block_reward h) =
     (let k = unat h div 210000 mod 2 ^ 32 in if k \<ge> 33 then 0 else 8000000000000000000 div 2 ^ k)"
proof -
  have "unat (drop_bit n initial_block_reward) = 8000000000000000000 div 2 ^ n" for n
    by (subst unat_drop_bit_eq) (simp add: drop_bit_eq_div unat_initial_block_reward)
  then show ?thesis
    by (simp add: calculate_block_reward_def Let_def word_le_nat_alt unat_halvings)
qed

lemma block_reward_le: "unat (calculate_block_reward h) \<le> 8000000000000000000"
  by (simp add: unat_block_reward Let_def div_le_dividend)

text \<open>The reward of a height written as a function on natural numbers below \<open>2 ^ 64\<close>.\<close>

definition reward_at :: "nat \<Rightarrow> nat" where
  "reward_at h = unat (calculate_block_reward (of_nat h))"

lemma reward_at_eq:
  "h < 210000 * 2 ^ 32 \<Longrightarrow> reward_at h = (if h div 210000 \<ge> 33 then 0 else 8000000000000000000 div 2 ^ (h div 210000))"
proof -
  assume h: "h < 210000 * 2 ^ 32"
  then have "unat (of_nat h :: u64) = h" by (simp add: unsigned_of_nat take_bit_eq_mod)
  moreover have "h div 210000 < 2 ^ 32" using h by (simp add: less_mult_imp_div_less mult.commute)
  ultimately show ?thesis by (simp add: reward_at_def unat_block_reward Let_def)
qed

lemma reward_at_le_halved:
  assumes "h < 210000 * 2 ^ 32"
  shows "reward_at h \<le> 8000000000000000000 div 2 ^ (h div 210000)"
  using assms by (simp add: reward_at_eq)

lemma epoch_sum:
  "(\<Sum>h<210000 * m. 8000000000000000000 div 2 ^ (h div 210000)) =
   210000 * (\<Sum>k<m. 8000000000000000000 div 2 ^ k :: nat)"
proof (induction m)
  case (Suc m)
  let ?f = "\<lambda>h::nat. 8000000000000000000 div 2 ^ (h div 210000) :: nat"
  have split: "sum ?f {..<210000 * Suc m} = sum ?f {..<210000 * m} + sum ?f {210000 * m..<210000 * m + 210000}"
    using sum.atLeastLessThan_concat[of 0 "210000 * m" "210000 * m + 210000" ?f]
    by (simp add: lessThan_atLeast0 add.commute)
  have "(\<Sum>h\<in>{210000 * m..<210000 * m + 210000}. ?f h) =
      (\<Sum>h\<in>{210000 * m..<210000 * m + 210000}. 8000000000000000000 div 2 ^ m)"
  proof (rule sum.cong)
    fix h assume "h \<in> {210000 * m..<210000 * m + 210000}"
    then have "h div 210000 = m" by (auto intro!: div_nat_eqI)
    then show "?f h = 8000000000000000000 div 2 ^ m" by simp
  qed simp
  also have "\<dots> = 210000 * (8000000000000000000 div 2 ^ m)" by simp
  finally show ?case unfolding split using Suc by (simp add: distrib_left)
qed simp

lemma halving_sum: "(\<Sum>k<m. 8000000000000000000 div 2 ^ k :: nat) \<le> 16000000000000000000"
proof -
  have "(\<Sum>k<m. 8000000000000000000 div 2 ^ k :: nat) + 8000000000000000000 div 2 ^ m * 2
      \<le> 16000000000000000000" if "m \<noteq> 0"
    using that
  proof (induction m)
    case (Suc m)
    have "8000000000000000000 div 2 ^ Suc m * 2 \<le> (8000000000000000000 div 2 ^ m :: nat)"
      by (simp add: div_mult2_eq mult.commute[of 2 "2 ^ m"])
    then show ?case using Suc by (cases "m = 0") simp_all
  qed simp
  then show ?thesis by (cases "m = 0") auto
qed

text \<open>
  Emission: over any number of blocks below height \<open>210000 * 2 ^ 32\<close>, the rewards of the
  schedule sum up to at most 3,360,000 ASRM, well below \<open>max_supply\<close> (42,000,000 ASRM).
\<close>

theorem emission_bounded:
  assumes "n \<le> 210000 * 2 ^ 32"
  shows "(\<Sum>h<n. reward_at h) \<le> 3360000 * unat RAM_PER_ASRM \<and>
    3360000 * unat RAM_PER_ASRM < unat max_supply"
proof -
  define m where "m = n"
  then have m: "n \<le> 210000 * m" by simp
  have "(\<Sum>h<n. reward_at h) \<le> (\<Sum>h<n. 8000000000000000000 div 2 ^ (h div 210000))"
    using assms by (intro sum_mono reward_at_le_halved) auto
  also have "\<dots> \<le> (\<Sum>h<210000 * m. 8000000000000000000 div 2 ^ (h div 210000))"
    using m by (intro sum_mono2) auto
  also have "\<dots> \<le> 210000 * 16000000000000000000"
    using halving_sum[of m] by (simp add: epoch_sum)
  finally show ?thesis by (simp add: RAM_PER_ASRM_def unat_max_supply)
qed

theorem emission_bounded_witness:
  "(\<Sum>h<210000 * 40. reward_at h) \<le> 3360000 * unat RAM_PER_ASRM"
  using emission_bounded[of "210000 * 40"] by simp

text \<open>
  The cast to \<open>u32\<close> makes the schedule periodic: \<open>2 ^ 32\<close> halving intervals after any height
  below it, the reward is the same again, so height \<open>210000 * 2 ^ 32\<close> earns the full initial
  reward and not zero.
\<close>

theorem reward_wraps:
  "(\<forall>h < 210000 * 2 ^ 32. reward_at (h + 210000 * 2 ^ 32) = reward_at h) \<and>
   calculate_block_reward (210000 * 2 ^ 32) = initial_block_reward"
proof (intro conjI allI impI)
  fix h :: nat assume h: "h < 210000 * 2 ^ 32"
  then have "unat (of_nat (h + 210000 * 2 ^ 32) :: u64) = h + 210000 * 2 ^ 32"
    "unat (of_nat h :: u64) = h"
    by (intro unat_of_nat_eq; simp)+
  moreover have "(h + 210000 * 2 ^ 32) div 210000 = h div 210000 + 2 ^ 32" by simp
  ultimately show "reward_at (h + 210000 * 2 ^ 32) = reward_at h"
    by (simp only: reward_at_def unat_block_reward mod_add_self2)
next
  show "calculate_block_reward (210000 * 2 ^ 32) = initial_block_reward"
    by (simp add: word_unat_eq_iff unat_block_reward unat_initial_block_reward)
qed

theorem reward_wraps_witness:
  "reward_at (5 + 210000 * 2 ^ 32) = reward_at 5 \<and> reward_at 5 = 8000000000000000000"
  using conjunct1[OF reward_wraps, rule_format, of 5] by (simp add: reward_at_eq)

section \<open>Fees\<close>

lemma unat_min_fee:
  assumes "n < 2 ^ 64"
  shows "unat (calculate_min_fee n) = 100000000000000 + 200000000000 * n"
proof -
  have "unat (of_nat (100000000000000 + 200000000000 * n) :: u256) = 100000000000000 + 200000000000 * n"
    using assms by (intro unat_of_nat_eq) simp
  then show ?thesis by (simp add: calculate_min_fee_def BASE_MIN_FEE_def MIN_RELAY_FEE_NAT_PER_BYTE_def)
qed

lemma unat_default_fee:
  assumes "n < 2 ^ 64"
  shows "unat (calculate_default_fee n) = 100000000000000 + 300000000000 * n"
proof -
  have "unat (of_nat (100000000000000 + 300000000000 * n) :: u256) = 100000000000000 + 300000000000 * n"
    using assms by (intro unat_of_nat_eq) simp
  then show ?thesis
    by (simp add: calculate_default_fee_def BASE_MIN_FEE_def DEFAULT_WALLET_FEE_NAT_PER_BYTE_def)
qed

lemma min_fee_le_default: "n < 2 ^ 64 \<Longrightarrow> calculate_min_fee n \<le> calculate_default_fee n"
  by (simp add: word_le_nat_alt unat_min_fee unat_default_fee)

end
