(* ===== verification/Checkpoint.thy ===== *)
theory Checkpoint
  imports Prelude
begin

text \<open>\<open>core/src/checkpoint.rs\<close>: the checkpoint policy. Log output is left out.\<close>

record checkpoint =
  cp_height :: u64
  cp_hash :: string
  cp_description :: string

definition get_checkpoints :: "checkpoint list" where
  "get_checkpoints =
     [\<lparr>cp_height = 0,
       cp_hash = ''0047bb75cef130263090ec45c9e5b464ab0f56c556821cb3a40d59dbf31e7216'',
       cp_description = ''Genesis Block - Network Origin''\<rparr>]"

fun checkpoint_loop :: "u64 \<Rightarrow> string \<Rightarrow> checkpoint list \<Rightarrow> bool" where
  "checkpoint_loop height hash [] = True"
| "checkpoint_loop height hash (cp # cps) =
     (if cp_height cp = height
      then (if cp_hash cp = [] then checkpoint_loop height hash cps
            else if cp_hash cp \<noteq> hash then False
            else checkpoint_loop height hash cps)
      else checkpoint_loop height hash cps)"

definition validate_against_checkpoints :: "u64 \<Rightarrow> string \<Rightarrow> bool" where
  "validate_against_checkpoints height hash = checkpoint_loop height hash get_checkpoints"

definition get_latest_checkpoint_height :: u64 where
  "get_latest_checkpoint_height =
     (case map cp_height get_checkpoints of [] \<Rightarrow> 0 | h # hs \<Rightarrow> fold max hs h)"

text \<open>The reason string is present exactly when the reorganisation is refused.\<close>

definition check_reorg_against_checkpoints :: "u64 \<Rightarrow> u64 \<Rightarrow> bool \<times> (u64 \<times> u64) option" where
  "check_reorg_against_checkpoints reorg_depth current_height =
     (let latest_checkpoint = get_latest_checkpoint_height;
          reorg_target_height = sat_sub current_height reorg_depth
      in if reorg_target_height < latest_checkpoint
         then (False, Some (latest_checkpoint, reorg_target_height))
         else (True, None))"

lemma checkpoint_loop_iff:
  "checkpoint_loop height hash cps \<longleftrightarrow>
   (\<forall>cp\<in>set cps. cp_height cp = height \<and> cp_hash cp \<noteq> [] \<longrightarrow> cp_hash cp = hash)"
  by (induction cps) auto

text \<open>Only the genesis height is anchored, and only by the main network's genesis hash.\<close>

lemma validate_against_checkpoints_iff:
  "validate_against_checkpoints height hash \<longleftrightarrow>
   (height = 0 \<longrightarrow> hash = ''0047bb75cef130263090ec45c9e5b464ab0f56c556821cb3a40d59dbf31e7216'')"
  by (auto simp: validate_against_checkpoints_def checkpoint_loop_iff get_checkpoints_def)

lemma check_reorg_allowed: "fst (check_reorg_against_checkpoints d h)"
  by (simp add: check_reorg_against_checkpoints_def get_latest_checkpoint_height_def get_checkpoints_def)

end
