(* ===== verification/Security.thy ===== *)
theory Security
  imports Block
begin

text \<open>
  \<open>core/src/security.rs\<close>: the failure statistics, the policy checks on transactions, blocks and
  reorganisation depths, and the per-address rate limiter. The clock is the argument \<open>now\<close>; the
  atomic counters are 64-bit words that wrap; the limiter's hash map is a finite map.
\<close>

definition MAX_TX_SIZE :: nat where "MAX_TX_SIZE = 100000"
definition MIN_OUTPUT_VALUE :: u64 where "MIN_OUTPUT_VALUE = 1000000000000"
definition MAX_TX_INPUTS :: nat where "MAX_TX_INPUTS = 1000"
definition MAX_TX_OUTPUTS :: nat where "MAX_TX_OUTPUTS = 1000"
definition MAX_FUTURE_TIMESTAMP :: int where "MAX_FUTURE_TIMESTAMP = 7200"
definition MAX_REORG_DEPTH :: u64 where "MAX_REORG_DEPTH = 100"
definition GENESIS_TIMESTAMP :: int where "GENESIS_TIMESTAMP = 1738800000"

section \<open>Validation statistics\<close>

datatype block_failure_reason =
    HashMismatch | InvalidPoW | DifficultyOutOfRange | MerkleRootMismatch | TimestampTooOld
  | TimestampTooFuture | PreviousNotFound | EmptyBlock | InvalidCoinbase | SignatureFailure
  | UtxoNotFound | UtxoOwnershipFailure | DuplicateInput | InsufficientFee | CheckpointViolation
  | SecurityConstraint | Other

fun as_str :: "block_failure_reason \<Rightarrow> string" where
  "as_str HashMismatch = ''hash_mismatch''"
| "as_str InvalidPoW = ''invalid_pow''"
| "as_str DifficultyOutOfRange = ''difficulty_out_of_range''"
| "as_str MerkleRootMismatch = ''merkle_root_mismatch''"
| "as_str TimestampTooOld = ''timestamp_too_old''"
| "as_str TimestampTooFuture = ''timestamp_too_future''"
| "as_str PreviousNotFound = ''previous_not_found''"
| "as_str EmptyBlock = ''empty_block''"
| "as_str InvalidCoinbase = ''invalid_coinbase''"
| "as_str SignatureFailure = ''signature_failure''"
| "as_str UtxoNotFound = ''utxo_not_found''"
| "as_str UtxoOwnershipFailure = ''utxo_ownership_failure''"
| "as_str DuplicateInput = ''duplicate_input''"
| "as_str InsufficientFee = ''insufficient_fee''"
| "as_str CheckpointViolation = ''checkpoint_violation''"
| "as_str SecurityConstraint = ''security_constraint''"
| "as_str Other = ''other''"

record validation_stats =
  hash_mismatch :: u64
  invalid_pow :: u64
  difficulty_out_of_range :: u64
  merkle_root_mismatch :: u64
  timestamp_too_old :: u64
  timestamp_too_future :: u64
  previous_not_found :: u64
  empty_block :: u64
  invalid_coinbase :: u64
  signature_failure :: u64
  utxo_not_found :: u64
  utxo_ownership_failure :: u64
  duplicate_input :: u64
  insufficient_fee :: u64
  checkpoint_violation :: u64
  security_constraint :: u64
  other_failures :: u64

definition stats_new :: validation_stats where
  "stats_new = \<lparr>hash_mismatch = 0, invalid_pow = 0, difficulty_out_of_range = 0,
     merkle_root_mismatch = 0, timestamp_too_old = 0, timestamp_too_future = 0,
     previous_not_found = 0, empty_block = 0, invalid_coinbase = 0, signature_failure = 0,
     utxo_not_found = 0, utxo_ownership_failure = 0, duplicate_input = 0, insufficient_fee = 0,
     checkpoint_violation = 0, security_constraint = 0, other_failures = 0\<rparr>"

fun increment :: "validation_stats \<Rightarrow> block_failure_reason \<Rightarrow> validation_stats" where
  "increment s HashMismatch = s\<lparr>hash_mismatch := hash_mismatch s + 1\<rparr>"
| "increment s InvalidPoW = s\<lparr>invalid_pow := invalid_pow s + 1\<rparr>"
| "increment s DifficultyOutOfRange = s\<lparr>difficulty_out_of_range := difficulty_out_of_range s + 1\<rparr>"
| "increment s MerkleRootMismatch = s\<lparr>merkle_root_mismatch := merkle_root_mismatch s + 1\<rparr>"
| "increment s TimestampTooOld = s\<lparr>timestamp_too_old := timestamp_too_old s + 1\<rparr>"
| "increment s TimestampTooFuture = s\<lparr>timestamp_too_future := timestamp_too_future s + 1\<rparr>"
| "increment s PreviousNotFound = s\<lparr>previous_not_found := previous_not_found s + 1\<rparr>"
| "increment s EmptyBlock = s\<lparr>empty_block := empty_block s + 1\<rparr>"
| "increment s InvalidCoinbase = s\<lparr>invalid_coinbase := invalid_coinbase s + 1\<rparr>"
| "increment s SignatureFailure = s\<lparr>signature_failure := signature_failure s + 1\<rparr>"
| "increment s UtxoNotFound = s\<lparr>utxo_not_found := utxo_not_found s + 1\<rparr>"
| "increment s UtxoOwnershipFailure = s\<lparr>utxo_ownership_failure := utxo_ownership_failure s + 1\<rparr>"
| "increment s DuplicateInput = s\<lparr>duplicate_input := duplicate_input s + 1\<rparr>"
| "increment s InsufficientFee = s\<lparr>insufficient_fee := insufficient_fee s + 1\<rparr>"
| "increment s CheckpointViolation = s\<lparr>checkpoint_violation := checkpoint_violation s + 1\<rparr>"
| "increment s SecurityConstraint = s\<lparr>security_constraint := security_constraint s + 1\<rparr>"
| "increment s Other = s\<lparr>other_failures := other_failures s + 1\<rparr>"

definition get_stats :: "validation_stats \<Rightarrow> (string \<times> u64) list" where
  "get_stats s =
     [(''hash_mismatch'', hash_mismatch s), (''invalid_pow'', invalid_pow s),
      (''difficulty_out_of_range'', difficulty_out_of_range s),
      (''merkle_root_mismatch'', merkle_root_mismatch s),
      (''timestamp_too_old'', timestamp_too_old s), (''timestamp_too_future'', timestamp_too_future s),
      (''previous_not_found'', previous_not_found s), (''empty_block'', empty_block s),
      (''invalid_coinbase'', invalid_coinbase s), (''signature_failure'', signature_failure s),
      (''utxo_not_found'', utxo_not_found s), (''utxo_ownership_failure'', utxo_ownership_failure s),
      (''duplicate_input'', duplicate_input s), (''insufficient_fee'', insufficient_fee s),
      (''checkpoint_violation'', checkpoint_violation s),
      (''security_constraint'', security_constraint s), (''other'', other_failures s)]"

section \<open>Policy checks\<close>

datatype security_error =
    TooLarge | TooManyInputs | TooManyOutputs | TxTooFuture | TxAfterBlock | DustOutput nat
  | EmptyAddress nat | NoTransactionsInBlock | BlockTooFuture | PreGenesis | FirstNotCoinbase
  | ExtraCoinbase nat | ReorgTooDeep | RateLimited

fun check_dust :: "nat \<Rightarrow> transaction_output list \<Rightarrow> (security_error, unit) result" where
  "check_dust idx [] = Ok ()"
| "check_dust idx (out # outs) =
     (if out_amount out < ucast MIN_OUTPUT_VALUE then Err (DustOutput idx) else check_dust (Suc idx) outs)"

fun check_addresses :: "nat \<Rightarrow> transaction_output list \<Rightarrow> (security_error, unit) result" where
  "check_addresses idx [] = Ok ()"
| "check_addresses idx (out # outs) =
     (if out_to out = [] then Err (EmptyAddress idx) else check_addresses (Suc idx) outs)"

definition validate_transaction_security ::
    "'v prims \<Rightarrow> int \<Rightarrow> transaction \<Rightarrow> int \<Rightarrow> (security_error, unit) result" where
  "validate_transaction_security P now tx block_timestamp =
     (if blob_len P (enc_tx P tx) > MAX_TX_SIZE then Err TooLarge
      else if length (inputs tx) > MAX_TX_INPUTS then Err TooManyInputs
      else if length (outputs tx) > MAX_TX_OUTPUTS then Err TooManyOutputs
      else if tx_timestamp tx > i64 (now + MAX_FUTURE_TIMESTAMP) then Err TxTooFuture
      else if tx_timestamp tx > block_timestamp then Err TxAfterBlock
      else bind_res (if inputs tx \<noteq> [] then check_dust 0 (outputs tx) else Ok ()) (\<lambda>_.
           check_addresses 0 (outputs tx)))"

fun check_no_coinbase :: "nat \<Rightarrow> transaction list \<Rightarrow> (security_error, unit) result" where
  "check_no_coinbase idx [] = Ok ()"
| "check_no_coinbase idx (tx # txs) =
     (if inputs tx = [] then Err (ExtraCoinbase idx) else check_no_coinbase (Suc idx) txs)"

definition validate_block_security :: "int \<Rightarrow> block \<Rightarrow> (security_error, unit) result" where
  "validate_block_security now b =
     (case transactions b of
        [] \<Rightarrow> Err NoTransactionsInBlock
      | cb # rest \<Rightarrow>
          if timestamp (header b) > i64 (now + MAX_FUTURE_TIMESTAMP) then Err BlockTooFuture
          else if timestamp (header b) < GENESIS_TIMESTAMP then Err PreGenesis
          else if inputs cb \<noteq> [] then Err FirstNotCoinbase
          else check_no_coinbase 1 rest)"

definition validate_reorg_depth :: "u64 \<Rightarrow> u64 \<Rightarrow> u64 \<Rightarrow> (security_error, unit) result" where
  "validate_reorg_depth current_height fork_point_height max_depth =
     (let reorg_depth = sat_sub current_height fork_point_height
      in if reorg_depth > max_depth then Err ReorgTooDeep else Ok ())"

section \<open>Rate limiter\<close>

record address_rate_limiter =
  limits :: "string \<rightharpoonup> (u32 \<times> int)"
  max_per_window :: u32
  window_seconds :: int

definition rate_limiter_new :: "u32 \<Rightarrow> int \<Rightarrow> address_rate_limiter" where
  "rate_limiter_new mx w = \<lparr>limits = Map.empty, max_per_window = mx, window_seconds = w\<rparr>"

definition check_and_update ::
    "int \<Rightarrow> address_rate_limiter \<Rightarrow> string \<Rightarrow> address_rate_limiter \<times> (security_error, unit) result" where
  "check_and_update now l address =
     (let normalized = to_lowercase address;
          entry = (case limits l normalized of None \<Rightarrow> (0, now) | Some e \<Rightarrow> e);
          l = l\<lparr>limits := (limits l)(normalized \<mapsto> entry)\<rparr>
      in if i64 (now - snd entry) \<ge> window_seconds l
         then (l\<lparr>limits := (limits l)(normalized \<mapsto> (1, now))\<rparr>, Ok ())
         else if fst entry \<ge> max_per_window l then (l, Err RateLimited)
         else (l\<lparr>limits := (limits l)(normalized \<mapsto> (fst entry + 1, snd entry))\<rparr>, Ok ()))"

definition cleanup :: "int \<Rightarrow> address_rate_limiter \<Rightarrow> address_rate_limiter" where
  "cleanup now l =
     l\<lparr>limits := (\<lambda>a. case limits l a of
         None \<Rightarrow> None
       | Some (c, window_start) \<Rightarrow>
           if i64 (now - window_start) < i64 (window_seconds l * 2) then Some (c, window_start) else None)\<rparr>"

section \<open>Properties\<close>

text \<open>
  \<open>increment\<close> adds one to the counter that \<open>get_stats\<close> reports under the reason's name and
  leaves the sixteen others as they were.
\<close>

theorem increment_get_stats:
  "get_stats (increment s r) =
     map (\<lambda>(name, c). (name, if name = as_str r then c + 1 else c)) (get_stats s)"
  by (cases r) (simp_all add: get_stats_def)

lemma check_dust_Ok:
  "check_dust i outs = Ok u \<longleftrightarrow> (\<forall>out\<in>set outs. unat (out_amount out) \<ge> 1000000000000)"
  by (induction i outs rule: check_dust.induct)
    (auto simp: MIN_OUTPUT_VALUE_def word_less_nat_alt)

lemma check_addresses_Ok: "check_addresses i outs = Ok u \<longleftrightarrow> (\<forall>out\<in>set outs. out_to out \<noteq> [])"
  by (induction i outs rule: check_addresses.induct) auto

lemma check_no_coinbase_Ok: "check_no_coinbase i txs = Ok u \<longleftrightarrow> (\<forall>tx\<in>set txs. inputs tx \<noteq> [])"
  by (induction i txs rule: check_no_coinbase.induct) auto

text \<open>
  Exactly when \<open>validate_transaction_security\<close> accepts: the size and the counts are within
  their limits, the timestamp is neither too far in the future nor after the block, every output
  names an address, and, except for coinbase-like transactions, no output is dust.
\<close>

theorem transaction_security_iff:
  "is_ok (validate_transaction_security P now tx block_timestamp) \<longleftrightarrow>
     blob_len P (enc_tx P tx) \<le> 100000 \<and> length (inputs tx) \<le> 1000 \<and> length (outputs tx) \<le> 1000 \<and>
     tx_timestamp tx \<le> i64 (now + 7200) \<and> tx_timestamp tx \<le> block_timestamp \<and>
     (inputs tx = [] \<or> list_all (\<lambda>out. unat (out_amount out) \<ge> 10 ^ 12) (outputs tx)) \<and>
     list_all (\<lambda>out. out_to out \<noteq> []) (outputs tx)"
proof -
  have ok: "is_ok r \<longleftrightarrow> r = Ok ()" for r :: "(security_error, unit) result" by (cases r) auto
  show ?thesis
    unfolding ok validate_transaction_security_def
    by (auto simp: res_simps check_dust_Ok check_addresses_Ok list_all_iff MAX_TX_SIZE_def
        MAX_TX_INPUTS_def MAX_TX_OUTPUTS_def MAX_FUTURE_TIMESTAMP_def)
qed

text \<open>An accepted block has exactly one coinbase-like transaction, the first.\<close>

lemma block_security_coinbase:
  assumes "validate_block_security now b = Ok u"
  shows "\<exists>cb rest. transactions b = cb # rest \<and> inputs cb = [] \<and> (\<forall>tx\<in>set rest. inputs tx \<noteq> [])
    \<and> GENESIS_TIMESTAMP \<le> timestamp (header b)"
  using assms
  by (auto simp: validate_block_security_def check_no_coinbase_Ok split: list.splits if_splits)

lemma reorg_depth_Ok_iff:
  "validate_reorg_depth h f d = Ok u \<longleftrightarrow> unat h - unat f \<le> unat d"
  by (auto simp: validate_reorg_depth_def Let_def word_less_nat_alt unat_sat_sub)

text \<open>A run of requests of one address, and how many of them were admitted.\<close>

fun admitted :: "address_rate_limiter \<Rightarrow> string \<Rightarrow> int list \<Rightarrow> nat" where
  "admitted l a [] = 0"
| "admitted l a (t # ts) =
     (let (l', r) = check_and_update t l a in (if is_ok r then 1 else 0) + admitted l' a ts)"

lemma admitted_within_window:
  assumes "limits l (to_lowercase a) = Some (c, ws)" "c \<le> max_per_window l"
    and "list_all (\<lambda>t. i64 (t - ws) < window_seconds l) ts"
  shows "admitted l a ts = min (length ts) (unat (max_per_window l) - unat c)"
  using assms
proof (induction ts arbitrary: l c)
  case (Cons t ts)
  show ?case
  proof (cases "c \<ge> max_per_window l")
    case True
    then have "c = max_per_window l" using Cons.prems by auto
    moreover have "(limits l)(to_lowercase a \<mapsto> (c, ws)) = limits l"
      using Cons.prems(1) by auto
    ultimately show ?thesis
      using Cons.prems Cons.IH[of l c] by (simp add: check_and_update_def Let_def)
  next
    case False
    let ?l = "l\<lparr>limits := (limits l)(to_lowercase a \<mapsto> (c + 1, ws))\<rparr>"
    have lt: "unat c < unat (max_per_window l)" using False by (simp add: word_le_nat_alt)
    then have "unat (c + 1) = Suc (unat c)"
      using unat_u32_lt[of "max_per_window l"] by (simp add: unat_word_ariths)
    moreover from this lt have "c + 1 \<le> max_per_window l" by (simp add: word_le_nat_alt)
    ultimately have "admitted ?l a ts = min (length ts) (unat (max_per_window l) - Suc (unat c))"
      using Cons.IH[of ?l "c + 1"] Cons.prems(3) by simp
    then show ?thesis using False Cons.prems lt
      by (simp add: check_and_update_def Let_def min_def) linarith
  qed
qed simp

text \<open>
  Rate limit: however many requests an address that the limiter does not yet know makes
  within one window, exactly the first \<open>max_per_window\<close> are admitted.
\<close>

theorem rate_limit_window:
  assumes "limits l (to_lowercase a) = None" "0 < window_seconds l"
    and "list_all (\<lambda>t. i64 (t - t0) < window_seconds l) ts"
  shows "admitted l a (t0 # ts) = min (length (t0 # ts)) (unat (max_per_window l))"
proof -
  let ?l = "l\<lparr>limits := (limits l)(to_lowercase a \<mapsto> (0, t0))\<rparr>"
  have "check_and_update t0 l a = check_and_update t0 ?l a"
    using assms(1) by (simp add: check_and_update_def Let_def)
  then have "admitted l a (t0 # ts) = admitted ?l a (t0 # ts)" by simp
  also have "\<dots> = min (length (t0 # ts)) (unat (max_per_window l))"
    using admitted_within_window[of ?l a 0 t0 "t0 # ts"] assms by (simp add: i64_def)
  finally show ?thesis .
qed

theorem rate_limit_window_witness:
  "admitted (rate_limiter_new 3 60) ''0xAb'' [100, 101, 102, 103, 159] = 3"
proof -
  have "admitted (rate_limiter_new 3 60) ''0xAb'' (100 # [101, 102, 103, 159]) =
      min (length (100 # [101, 102, 103, 159 :: int])) (unat (max_per_window (rate_limiter_new 3 60)))"
    by (rule rate_limit_window) (simp_all add: rate_limiter_new_def i64_def)
  then show ?thesis by (simp add: rate_limiter_new_def)
qed

end
