(* ===== verification/Chain.thy ===== *)
theory Chain
  imports Difficulty Tokenomics Checkpoint Security
begin

text \<open>
  The blockchain state and the acceptance of blocks (\<open>core/src/blockchain/mod.rs\<close>, lines 16 to 806
  and \<open>recover_tip\<close>). A method that takes \<open>&mut self\<close> returns the new state beside its result, on
  every path: what an error leaves behind is part of the model. \<open>now\<close> is the clock. Log output is
  left out. A panic of the 256-bit arithmetic is the error \<open>Panic\<close>.
\<close>

section \<open>State and reads\<close>

record 'v blockchain =
  bc_db :: "'v db"
  chain_tip :: "string option"
  bc_difficulty :: u32
  block_interval :: int
  max_reorg_depth :: u64
  max_future_block_time :: int
  enable_deep_reorg_alerts :: bool

definition RETARGET_WINDOW :: nat where
  "RETARGET_WINDOW = 24"

definition load_block :: "'v prims \<Rightarrow> 'v blockchain \<Rightarrow> string \<Rightarrow> (chain_error, block option) result" where
  "load_block P bc hash =
     (case db_get (bc_db bc) (block_key hash) of
        None \<Rightarrow> Ok None
      | Some blob \<Rightarrow> (case dec_block P blob of None \<Rightarrow> Err DecodeError | Some b \<Rightarrow> Ok (Some b)))"

definition load_header :: "'v prims \<Rightarrow> 'v blockchain \<Rightarrow> string \<Rightarrow> (chain_error, block_header option) result" where
  "load_header P bc hash =
     (case db_get (bc_db bc) (block_key hash) of
        None \<Rightarrow> Ok None
      | Some blob \<Rightarrow>
          (case dec_block P blob of None \<Rightarrow> Err DecodeError | Some b \<Rightarrow> Ok (Some (header b))))"

definition load_tx :: "'v prims \<Rightarrow> 'v blockchain \<Rightarrow> string \<Rightarrow> (chain_error, transaction option) result" where
  "load_tx P bc tid =
     (case db_get (bc_db bc) (tx_key tid) of
        None \<Rightarrow> Ok None
      | Some blob \<Rightarrow> (case dec_tx P blob of None \<Rightarrow> Err DecodeError | Some t \<Rightarrow> Ok (Some t)))"

text \<open>\<open>Blockchain::new\<close> over an opened database: an undecodable tip string panics.\<close>

definition blockchain_new :: "'v prims \<Rightarrow> 'v db \<Rightarrow> (chain_error, 'v blockchain) result" where
  "blockchain_new P db =
     bind_res (case db_get db tip_key of
         None \<Rightarrow> Ok None
       | Some v \<Rightarrow> bind_res (ok_or Panic (from_utf8 P v)) (\<lambda>s. Ok (Some s))) (\<lambda>tip.
     Ok \<lparr>bc_db = db, chain_tip = tip,
       bc_difficulty = (case tip of
           None \<Rightarrow> POW_LIMIT_BITS
         | Some tip_hash \<Rightarrow> (case db_get db (block_key tip_hash) of
               None \<Rightarrow> POW_LIMIT_BITS
             | Some blob \<Rightarrow> (case dec_block P blob of
                   None \<Rightarrow> POW_LIMIT_BITS
                 | Some b \<Rightarrow> difficulty (header b)))),
       block_interval = 60, max_reorg_depth = 100, max_future_block_time = 7200,
       enable_deep_reorg_alerts = True\<rparr>)"

definition get_next_index :: "'v prims \<Rightarrow> 'v blockchain \<Rightarrow> (chain_error, u64) result" where
  "get_next_index P bc =
     (case chain_tip bc of
        None \<Rightarrow> Ok 0
      | Some tip_hash \<Rightarrow>
          bind_res (load_header P bc tip_hash) (\<lambda>prev.
          case prev of None \<Rightarrow> Ok 0 | Some h \<Rightarrow> Ok (index h + 1)))"

definition get_block_reward :: "'v blockchain \<Rightarrow> u64 \<Rightarrow> u256" where
  "get_block_reward bc height =
     (let halvings = (ucast (height div HALVING_INTERVAL) :: u32)
      in if halvings \<ge> 33 then 0 else drop_bit (unat halvings) initial_block_reward)"

section \<open>Median time past\<close>

text \<open>The loop \<open>for _ in 0..MTP_SPAN\<close>; the counter is the first argument.\<close>

fun mtp_collect :: "nat \<Rightarrow> 'v prims \<Rightarrow> 'v blockchain \<Rightarrow> string \<Rightarrow> (chain_error, int list) result" where
  "mtp_collect 0 P bc current_hash = Ok []"
| "mtp_collect (Suc n) P bc current_hash =
     bind_res (load_block P bc current_hash) (\<lambda>r.
     case r of
       None \<Rightarrow> Ok []
     | Some blk \<Rightarrow>
         if index (header blk) = 0 then Ok [timestamp (header blk)]
         else bind_res (mtp_collect n P bc (previous_hash (header blk))) (\<lambda>ts.
              Ok (timestamp (header blk) # ts)))"

definition median_time :: "int list \<Rightarrow> int" where
  "median_time timestamps =
     (let ts = sort timestamps; n = length ts
      in if n mod 2 = 0 then i64_div (i64 (ts ! (n div 2 - 1) + ts ! (n div 2))) 2 else ts ! (n div 2))"

definition validate_median_time_past :: "'v prims \<Rightarrow> 'v blockchain \<Rightarrow> block \<Rightarrow> (chain_error, unit) result" where
  "validate_median_time_past P bc block =
     bind_res (mtp_collect 11 P bc (previous_hash (header block))) (\<lambda>timestamps.
     if timestamps = [] then Ok ()
     else if timestamp (header block) \<le> median_time timestamps then Err MedianTimePast
     else Ok ())"

section \<open>Difficulty adjustment\<close>

text \<open>
  The loop \<open>for i in 1..=RETARGET_WINDOW\<close>, called with \<open>n\<close> iterations left. The inner
  \<^const>\<open>None\<close> is the early \<open>return Ok(self.difficulty)\<close> on a missing entry.
\<close>

fun dwg_loop :: "'v prims \<Rightarrow> 'v blockchain \<Rightarrow> u64 \<Rightarrow> nat \<Rightarrow> nat \<Rightarrow> u256 \<Rightarrow> int option \<Rightarrow> int option
    \<Rightarrow> (chain_error, (u256 \<times> int option \<times> int option) option) result" where
  "dwg_loop P bc current_index i 0 past_target_avg newest_time oldest_time =
     Ok (Some (past_target_avg, newest_time, oldest_time))"
| "dwg_loop P bc current_index i (Suc n) past_target_avg newest_time oldest_time =
     (let height = current_index - of_nat i in
      case db_get (bc_db bc) (index_key (unat height)) of
        None \<Rightarrow> Ok None
      | Some hash_bytes \<Rightarrow>
          bind_res (ok_or Utf8Error (from_utf8 P hash_bytes)) (\<lambda>hash.
          bind_res (load_header P bc hash) (\<lambda>r.
          case r of
            None \<Rightarrow> Ok None
          | Some hdr \<Rightarrow>
              let target = compact_to_target (difficulty hdr);
                  target = (if target = 0 then pow_limit_target else target);
                  (avg, newest) =
                    (if i = 1 then (target, Some (timestamp hdr))
                     else (sat_add (sat_mul past_target_avg (of_nat (i - 1))) target div of_nat i, newest_time))
              in dwg_loop P bc current_index (Suc i) n avg newest (Some (timestamp hdr)))))"

definition clamp_i64 :: "int \<Rightarrow> int \<Rightarrow> int \<Rightarrow> int option" where
  "clamp_i64 lo hi x = (if lo > hi then None else Some (if x < lo then lo else if x > hi then hi else x))"

text \<open>The clamps of the new target: never zero, at most the limit, within four times the previous one.\<close>

definition limit_target :: "u256 \<Rightarrow> u256" where
  "limit_target new_target =
     (let t = (if new_target = 0 then 1 else new_target)
      in if t > pow_limit_target then pow_limit_target else t)"

definition limit_step :: "u256 \<Rightarrow> u256 \<Rightarrow> u256" where
  "limit_step prev_target new_target =
     (if prev_target = 0 then new_target
      else
        let max_increase = sat_mul prev_target 4;
            min_decrease = prev_target div 4;
            t = (if new_target > max_increase then max_increase
                 else if new_target < min_decrease then min_decrease
                 else new_target)
        in if t = 0 then 1 else t)"

definition previous_bits_of :: "'v prims \<Rightarrow> 'v blockchain \<Rightarrow> u64 \<Rightarrow> (chain_error, u32) result" where
  "previous_bits_of P bc current_index =
     (case db_get (bc_db bc) (index_key (unat (current_index - 1))) of
        None \<Rightarrow> Ok (bc_difficulty bc)
      | Some v \<Rightarrow>
          bind_res (ok_or Utf8Error (from_utf8 P v)) (\<lambda>hash.
          bind_res (load_header P bc hash) (\<lambda>r.
          Ok (case r of None \<Rightarrow> bc_difficulty bc | Some h \<Rightarrow> difficulty h))))"

definition calculate_adjusted_difficulty :: "'v prims \<Rightarrow> 'v blockchain \<Rightarrow> u64 \<Rightarrow> (chain_error, u32) result" where
  "calculate_adjusted_difficulty P bc current_index =
     (if unat current_index < RETARGET_WINDOW then Ok (bc_difficulty bc)
      else bind_res (dwg_loop P bc current_index 1 RETARGET_WINDOW 0 None None) (\<lambda>r.
        case r of
          None \<Rightarrow> Ok (bc_difficulty bc)
        | Some (past_target_avg, newest, oldest) \<Rightarrow>
            let newest_time = (case newest of None \<Rightarrow> 0 | Some t \<Rightarrow> t);
                oldest_time = (case oldest of None \<Rightarrow> newest_time | Some t \<Rightarrow> t);
                raw_actual_timespan = max (i64 (newest_time - oldest_time)) 1;
                target_timespan = max (i64 (block_interval bc * int RETARGET_WINDOW)) 1
            in bind_res (ok_or Panic (clamp_i64 (i64_div target_timespan 3) (i64 (target_timespan * 3))
                 raw_actual_timespan)) (\<lambda>clamped_actual_timespan.
               let new_target = sat_mul past_target_avg (of_int clamped_actual_timespan)
                     div of_int target_timespan
               in bind_res (previous_bits_of P bc current_index) (\<lambda>previous_bits.
                  Ok (target_to_compact
                    (limit_step (compact_to_target previous_bits) (limit_target new_target)))))))"

section \<open>Tip recovery\<close>

text \<open>The scan keeps the first block of the greatest height among the \<open>b:\<close> entries that decode.\<close>

fun highest_block :: "'v prims \<Rightarrow> (string \<times> 'v) list \<Rightarrow> (u64 \<times> string) option \<Rightarrow> (u64 \<times> string) option" where
  "highest_block P [] best = best"
| "highest_block P ((key, v) # rest) best =
     highest_block P rest
       (if starts_with ''b:'' key then
          (case dec_block P v of
             None \<Rightarrow> best
           | Some b \<Rightarrow>
               let h = index (header b) in
               (case best of
                  None \<Rightarrow> Some (h, drop 2 key)
                | Some (h0, _) \<Rightarrow> if h > h0 then Some (h, drop 2 key) else best))
        else best)"

definition recover_tip :: "'v prims \<Rightarrow> 'v blockchain \<Rightarrow> 'v blockchain \<times> (chain_error, unit) result" where
  "recover_tip P bc =
     (case highest_block P (db_iterator (bc_db bc)) None of
        None \<Rightarrow> (bc, Err NoBlocks)
      | Some (height, hash) \<Rightarrow>
          (bc\<lparr>bc_db := db_put tip_key (as_bytes P hash) (bc_db bc), chain_tip := Some hash\<rparr>, Ok ()))"

section \<open>Genesis\<close>

text \<open>The unspent outputs a transaction creates, with the index of each; \<open>norm\<close> is the treatment of the address.\<close>

definition created_utxos :: "(string \<Rightarrow> string) \<Rightarrow> transaction \<Rightarrow> (string \<times> utxo) list" where
  "created_utxos norm tx =
     map (\<lambda>(v, out). (utxo_key (txid tx) v,
        \<lparr>u_txid = txid tx, u_vout = of_nat v, u_to = norm (out_to out), u_amount = out_amount out\<rparr>))
       (enumerate 0 (outputs tx))"

definition put_utxos :: "'v prims \<Rightarrow> (string \<times> utxo) list \<Rightarrow> 'v write_op list" where
  "put_utxos P us = map (\<lambda>(k, u). Put k (enc_utxo P u)) us"

definition create_genesis :: "'v prims \<Rightarrow> int \<Rightarrow> 'v blockchain \<Rightarrow> string
    \<Rightarrow> 'v blockchain \<times> (chain_error, string) result" where
  "create_genesis P now bc address =
     (if chain_tip bc \<noteq> None then (bc, Err ChainExists)
      else
        let cb = coinbase P now address 50;
            hdr = \<lparr>index = 0, previous_hash = replicate 64 (CHR ''0''),
              merkle_root = compute_merkle_root P [txid cb], timestamp = now, nonce = 0,
              difficulty = bc_difficulty bc\<rparr>;
            hash = compute_header_hash P hdr;
            block = \<lparr>header = hdr, transactions = [cb], block_hash = hash\<rparr>;
            batch = [Put (block_key hash) (enc_block P block), Put (tx_key (txid cb)) (enc_tx P cb)]
              @ put_utxos P (created_utxos id cb)
              @ [Put (index_key 0) (as_bytes P hash), Put tip_key (as_bytes P hash)]
        in (bc\<lparr>bc_db := put_batch (bc_db bc) batch, chain_tip := Some hash\<rparr>, Ok hash))"

section \<open>Properties of the retarget\<close>

lemma retarget_Ok:
  assumes "calculate_adjusted_difficulty P bc h = Ok bits" "RETARGET_WINDOW \<le> unat h"
    and "dwg_loop P bc h 1 RETARGET_WINDOW 0 None None = Ok (Some r)"
    and "previous_bits_of P bc h = Ok pb"
  obtains x where "bits = target_to_compact (limit_step (compact_to_target pb) (limit_target x))"
  using assms
  by (cases r) (auto simp: calculate_adjusted_difficulty_def Let_def res_simps)

lemma pow_limit_nonzero: "pow_limit_target \<noteq> 0"
  by (simp add: pow_limit_target_def POW_LIMIT_BITS_def compact_to_target_def)

lemma limit_target_range: "limit_target x \<noteq> 0" "limit_target x \<le> pow_limit_target"
  using pow_limit_nonzero
  by (auto simp: limit_target_def Let_def word_le_nat_alt word_less_nat_alt Suc_le_eq unat_gt_0)

lemma unat_div4: "unat (p div 4 :: u256) = unat p div 4"
  by (simp add: unat_div)

lemma limit_step_range:
  assumes "p \<noteq> 0" "x \<noteq> 0"
  shows "limit_step p x \<noteq> 0" "unat p div 4 \<le> unat (limit_step p x)" "unat (limit_step p x) \<le> 4 * unat p"
    "p \<le> m \<Longrightarrow> x \<le> m \<Longrightarrow> limit_step p x \<le> m"
proof -
  have p: "1 \<le> unat p" using assms(1) by (simp add: Suc_le_eq unat_gt_0)
  have mx: "unat (sat_mul p 4) \<le> 4 * unat p" "unat p div 4 \<le> unat (sat_mul p 4)" "unat p \<le> unat (sat_mul p 4)"
    by (auto simp: unat_sat_mul intro: le_trans[OF div_le_dividend])
  show "limit_step p x \<noteq> 0" using assms by (simp add: limit_step_def Let_def)
  show "unat p div 4 \<le> unat (limit_step p x)"
    using assms mx by (auto simp: limit_step_def Let_def word_less_nat_alt word_le_nat_alt unat_div4 unat_eq_0[symmetric])
  show "unat (limit_step p x) \<le> 4 * unat p"
    using assms mx p by (auto simp: limit_step_def Let_def word_less_nat_alt unat_div4)
  show "p \<le> m \<Longrightarrow> x \<le> m \<Longrightarrow> limit_step p x \<le> m"
    using assms mx p by (auto simp: limit_step_def Let_def word_less_nat_alt word_le_nat_alt unat_div4)
qed

lemma not_too_aggressive:
  assumes "16 \<le> unat (compact_to_target pb)" "t \<noteq> 0"
    and "unat (compact_to_target pb) div 4 \<le> unat t" "unat t \<le> 4 * unat (compact_to_target pb)"
  shows "\<not> too_aggressive pb (target_to_compact t)"
proof -
  define p where "p = unat (compact_to_target pb)"
  define t' where "t' = unat (compact_to_target (target_to_compact t))"
  have b: "t' \<le> unat t" "32768 * (unat t - t') \<le> t'"
    using compact_roundtrip_bounds[OF assms(2)] by (simp_all add: t'_def)
  have up: "t' div p \<le> 4" if "p < t'"
    using b assms(1,4) div_le_mono[of t' "4 * p" p] by (simp add: p_def)
  have t4: "4 \<le> t'" using assms(1,3) b by linarith
  have "p < 5 * t'" using assms(3) b t4 unfolding p_def by linarith
  then have down: "p div t' \<le> 4" using t4 by (simp add: less_Suc_eq_le[symmetric] div_less_iff_less_mult)
  have "compact_to_target (target_to_compact t) \<noteq> 0" using t4 by (auto simp: t'_def)
  then show ?thesis
    using up down
    by (auto simp: too_aggressive_def Let_def word_less_nat_alt unat_div p_def t'_def)
qed

text \<open>A history in which every block of the window has the same bits averages to that target.\<close>

lemma dwg_loop_const:
  assumes "\<And>j. i \<le> j \<Longrightarrow> j < i + n \<Longrightarrow> \<exists>v hash hdr.
      db_get (bc_db bc) (index_key (unat (h - of_nat j))) = Some v \<and> from_utf8 P v = Some hash \<and>
      load_header P bc hash = Ok (Some hdr) \<and> difficulty hdr = bits"
    and T: "compact_to_target bits = T" "T \<noteq> 0" "unat T * (i + n) < 2 ^ 256" "i + n < 2 ^ 64"
    and "i = 1 \<or> (1 < i \<and> avg = T)"
  shows "\<exists>nt ot. dwg_loop P bc h i n avg nw od = Ok (Some (if n = 0 then avg else T, nt, ot))"
  using assms
proof (induction n arbitrary: i avg nw od)
  case (Suc n)
  obtain v hash hdr where e: "db_get (bc_db bc) (index_key (unat (h - of_nat i))) = Some v"
    "from_utf8 P v = Some hash" "load_header P bc hash = Ok (Some hdr)" "difficulty hdr = bits"
    using Suc.prems(1)[of i] by auto
  define a where "a = (if i = 1 then T else sat_add (sat_mul avg (of_nat (i - 1))) T div of_nat i)"
  have "a = T"
  proof (cases "i = 1")
    case False
    then have i: "1 < i" "avg = T" using Suc.prems(6) by auto
    have iT: "unat T * i < 2 ^ 256" using Suc.prems(4) by (simp add: distrib_left)
    have u: "unat (of_nat (i - 1) :: u256) = i - 1" "unat (of_nat i :: u256) = i"
      using Suc.prems(5) by (intro unat_of_nat_eq; simp)+
    have s: "unat T * (i - 1) + unat T = unat T * i"
      using i by (cases i) auto
    have "unat (sat_mul T (of_nat (i - 1))) = unat T * (i - 1)"
      unfolding unat_sat_mul u using iT s by (auto simp: min_def)
    then have "unat (sat_add (sat_mul T (of_nat (i - 1))) T) = unat T * i"
      unfolding unat_sat_add using iT s by (auto simp: min_def)
    then have "unat a = unat T" using i u False by (simp add: a_def unat_div)
    then show ?thesis by (simp add: word_unat_eq_iff)
  qed (simp add: a_def)
  moreover have "\<exists>nt ot. dwg_loop P bc h (Suc i) n T nw' od' =
      Ok (Some (if n = 0 then T else T, nt, ot))" for nw' od'
    using Suc.prems by (intro Suc.IH) auto
  ultimately show ?case
    using e T(1,2) by (simp add: a_def Let_def split: if_splits)
qed simp

text \<open>
  C30. A retarget over a complete window, whose previous target is at least 16, is acceptable: the new
  bits decode to a non-zero target, the validator's progression test (step 6) does not refuse them, and
  the new target is at most the proof-of-work limit if the previous one was.
\<close>

theorem retarget_accepted:
  assumes "calculate_adjusted_difficulty P bc h = Ok bits" "24 \<le> unat h"
    and "dwg_loop P bc h 1 24 0 None None = Ok (Some r)"
    and "previous_bits_of P bc h = Ok pb" "16 \<le> unat (compact_to_target pb)"
  shows "compact_to_target bits \<noteq> 0 \<and> \<not> too_aggressive pb bits \<and>
    (compact_to_target pb \<le> pow_limit_target \<longrightarrow> compact_to_target bits \<le> pow_limit_target)"
proof -
  let ?p = "compact_to_target pb"
  obtain x where x: "bits = target_to_compact (limit_step ?p (limit_target x))"
    using assms by (auto simp: RETARGET_WINDOW_def elim: retarget_Ok[where P = P and bc = bc and h = h and r = r])
  define t where "t = limit_step ?p (limit_target x)"
  have p: "?p \<noteq> 0" using assms(5) by auto
  have t: "t \<noteq> 0" "unat ?p div 4 \<le> unat t" "unat t \<le> 4 * unat ?p"
    "?p \<le> pow_limit_target \<Longrightarrow> t \<le> pow_limit_target"
    using limit_step_range[OF p limit_target_range(1)] limit_target_range(2) by (auto simp: t_def)
  have "compact_to_target bits \<le> t" using compact_roundtrip_bounds(1)[OF t(1)] x
    by (simp add: t_def word_le_nat_alt)
  moreover have "\<not> too_aggressive pb bits"
    using not_too_aggressive[OF assms(5) t(1-3)] x by (simp add: t_def)
  moreover from this have "compact_to_target bits \<noteq> 0" by (auto simp: too_aggressive_def Let_def)
  ultimately show ?thesis using t(4) by auto
qed

text \<open>A database of 24 equal blocks, for the examples.\<close>

definition flat_header :: block_header where
  "flat_header = \<lparr>index = 23, previous_hash = ''f'', merkle_root = '''', timestamp = 1000, nonce = 0,
     difficulty = POW_LIMIT_BITS\<rparr>"

definition flat_chain :: "stored blockchain" where
  "flat_chain = \<lparr>bc_db = (block_key ''g'', SBlock \<lparr>header = flat_header, transactions = [], block_hash = ''g''\<rparr>)
       # map (\<lambda>i. (index_key i, SText ''g'')) [0..<24],
     chain_tip = Some ''g'', bc_difficulty = POW_LIMIT_BITS, block_interval = 60, max_reorg_depth = 100,
     max_future_block_time = 7200, enable_deep_reorg_alerts = True\<rparr>"

lemma flat_index: "n < 24 \<Longrightarrow> db_get (bc_db flat_chain) (index_key n) = Some (SText ''g'')"
proof -
  assume n: "n < 24"
  have "map_of (map (\<lambda>i. (index_key i, SText ''g'')) [0..<24]) (index_key n) = Some (SText ''g'')"
    by (rule map_of_is_SomeI) (use n in \<open>auto simp: distinct_map comp_def inj_on_def\<close>)
  then show ?thesis by (simp add: flat_chain_def db_get_def)
qed

lemma flat_load: "load_header ref_prims flat_chain ''g'' = Ok (Some flat_header)"
  by (simp add: load_header_def flat_chain_def db_get_def ref_prims_def)

lemma unat_pow_limit: "unat pow_limit_target = 0x7fffff * 256 ^ 28"
  by (simp add: pow_limit_target_def POW_LIMIT_BITS_def unat_compact_to_target compact_value_def)

lemma ref_from_utf8: "from_utf8 ref_prims (SText s) = Some s"
  by (simp add: ref_prims_def)

lemma flat_loop: "\<exists>nt ot. dwg_loop ref_prims flat_chain 24 1 24 0 None None = Ok (Some (pow_limit_target, nt, ot))"
proof -
  have "\<exists>nt ot. dwg_loop ref_prims flat_chain 24 1 24 0 None None =
      Ok (Some (if (24::nat) = 0 then 0 else pow_limit_target, nt, ot))"
  proof (rule dwg_loop_const[where bits = POW_LIMIT_BITS])
    fix j :: nat assume "1 \<le> j" "j < 1 + 24"
    then have "unat (24 - of_nat j :: u64) < 24"
      by (simp add: unat_sub word_le_nat_alt unat_of_nat_eq)
    then show "\<exists>v hash hdr. db_get (bc_db flat_chain) (index_key (unat (24 - of_nat j :: u64))) = Some v \<and>
        from_utf8 ref_prims v = Some hash \<and> load_header ref_prims flat_chain hash = Ok (Some hdr) \<and>
        difficulty hdr = POW_LIMIT_BITS"
      by (intro exI[of _ "SText ''g''"] exI[of _ "''g''"] exI[of _ flat_header])
        (simp add: flat_index flat_load ref_from_utf8, simp add: flat_header_def)
  qed (simp_all add: pow_limit_target_def[symmetric] pow_limit_nonzero unat_pow_limit)
  then show ?thesis by simp
qed


lemma flat_previous: "previous_bits_of ref_prims flat_chain 24 = Ok POW_LIMIT_BITS"
  using flat_index[of 23] by (simp add: previous_bits_of_def flat_load ref_from_utf8, simp add: flat_header_def)

lemma flat_retarget: "\<exists>bits. calculate_adjusted_difficulty ref_prims flat_chain 24 = Ok bits"
proof -
  obtain nt ot where "dwg_loop ref_prims flat_chain 24 1 24 0 None None = Ok (Some (pow_limit_target, nt, ot))"
    using flat_loop by blast
  moreover have "block_interval flat_chain = 60" by (simp add: flat_chain_def)
  moreover have "i64 1440 = 1440" "i64 4320 = 4320" "i64_div 1440 3 = 480"
    by (simp_all add: i64_def i64_div_def)
  ultimately show ?thesis
    by (simp add: calculate_adjusted_difficulty_def RETARGET_WINDOW_def flat_previous clamp_i64_def Let_def)
qed

theorem retarget_accepted_witness:
  "\<exists>bits. calculate_adjusted_difficulty ref_prims flat_chain 24 = Ok bits \<and>
    compact_to_target bits \<noteq> 0 \<and> \<not> too_aggressive POW_LIMIT_BITS bits"
proof -
  obtain bits where b: "calculate_adjusted_difficulty ref_prims flat_chain 24 = Ok bits"
    using flat_retarget by blast
  obtain r where r: "dwg_loop ref_prims flat_chain 24 1 24 0 None None = Ok (Some r)"
    using flat_loop by blast
  have "16 \<le> unat (compact_to_target POW_LIMIT_BITS)"
    using unat_pow_limit by (simp add: pow_limit_target_def)
  then show ?thesis using retarget_accepted[OF b _ r flat_previous] b by simp
qed

section \<open>Properties of median time past\<close>

lemma mtp_collect_length: "mtp_collect n P bc h = Ok ts \<Longrightarrow> length ts \<le> n"
  by (induction n P bc h arbitrary: ts rule: mtp_collect.induct)
    (auto simp: res_simps split: option.splits if_splits)

lemma i64_div_2_ge: "a \<le> b \<Longrightarrow> a \<le> i64_div (a + b) 2"
  by (auto simp: i64_div_def sgn_if)

text \<open>In a sorted list, everything up to a position that lies below the bound lies below it.\<close>

lemma sorted_prefix_below:
  assumes "sorted ts" "k < length ts" "ts ! k < (x :: int)"
  shows "Suc k \<le> length (filter (\<lambda>t. t < x) ts)"
proof -
  have "{0..k} \<subseteq> {i. i < length ts \<and> ts ! i < x}"
    using assms by (auto intro: le_less_trans[OF sorted_nth_mono])
  then have "card {0..k} \<le> card {i. i < length ts \<and> ts ! i < x}" by (intro card_mono) auto
  then show ?thesis by (simp add: length_filter_conv_card)
qed

lemma below_median:
  assumes "median_time ts < x" "ts \<noteq> []" "\<forall>t\<in>set ts. \<bar>t\<bar> < 2 ^ 62"
  shows "length ts \<le> 2 * length (filter (\<lambda>t. t < x) ts)"
proof -
  define s where "s = sort ts"
  define n where "n = length ts"
  have s: "sorted s" "length s = n" "set s = set ts" by (simp_all add: s_def n_def)
  have n: "n > 0" using assms(2) by (simp add: n_def)
  have len: "length (filter (\<lambda>t. t < x) s) = length (filter (\<lambda>t. t < x) ts)"
    unfolding s_def by (metis mset_filter mset_sort size_mset)
  show ?thesis
  proof (cases "even n")
    case False
    then have "s ! (n div 2) < x" using assms(1) s by (simp add: median_time_def s_def[symmetric] Let_def odd_iff_mod_2_eq_one)
    then show ?thesis using sorted_prefix_below[of s "n div 2" x] s n len unfolding n_def by simp
  next
    case True
    let ?a = "s ! (n div 2 - 1)" and ?b = "s ! (n div 2)"
    have i: "n div 2 - 1 < n" "n div 2 < n" "n \<ge> 2" using True n by (auto elim!: evenE)
    have "\<bar>?a\<bar> < 2 ^ 62" "\<bar>?b\<bar> < 2 ^ 62" using assms(3) s i by (metis nth_mem)+
    then have "i64 (?a + ?b) = ?a + ?b" by (simp add: i64_def)
    then have "i64_div (?a + ?b) 2 < x" using assms(1) s True
      by (simp add: median_time_def s_def[symmetric] Let_def even_iff_mod_2_eq_zero)
    moreover have "?a \<le> ?b" using s i by (intro sorted_nth_mono) auto
    ultimately have "?a < x" using i64_div_2_ge by (meson le_less_trans)
    then show ?thesis using sorted_prefix_below[of s "n div 2 - 1" x] s i len True unfolding n_def by auto
  qed
qed

text \<open>
  Median time past: an accepted block is later than at least half of the (at most eleven)
  timestamps collected from its ancestors.
\<close>

theorem mtp_majority:
  assumes "validate_median_time_past P bc block = Ok ()"
    and "mtp_collect 11 P bc (previous_hash (header block)) = Ok ts" "\<forall>t\<in>set ts. \<bar>t\<bar> < 2 ^ 62"
  shows "length ts \<le> 2 * length (filter (\<lambda>t. t < timestamp (header block)) ts) \<and> length ts \<le> 11"
proof (cases "ts = []")
  case False
  then have "median_time ts < timestamp (header block)"
    using assms(1,2) by (auto simp: validate_median_time_past_def split: if_splits)
  then show ?thesis using below_median[OF _ False assms(3)] mtp_collect_length[OF assms(2)] by simp
qed simp

theorem mtp_majority_witness:
  "let b = \<lparr>header = flat_header\<lparr>previous_hash := ''g'', timestamp := 1001\<rparr>, transactions = [], block_hash = ''h''\<rparr>
   in validate_median_time_past ref_prims flat_chain b = Ok () \<and>
     length [1000::int] \<le> 2 * length (filter (\<lambda>t. t < timestamp (header b)) [1000])"
proof -
  let ?b = "\<lparr>header = flat_header\<lparr>previous_hash := ''g'', timestamp := 1001\<rparr>, transactions = [], block_hash = ''h''\<rparr>"
  have "mtp_collect 11 ref_prims flat_chain ''g'' = Ok [1000]"
    by (simp add: numeral_eq_Suc load_block_def flat_chain_def db_get_def ref_prims_def flat_header_def block_key_def index_key_def)
  moreover from this have "validate_median_time_past ref_prims flat_chain ?b = Ok ()"
    by (simp add: validate_median_time_past_def median_time_def)
  ultimately show ?thesis using mtp_majority[of ref_prims flat_chain ?b "[1000]"] by (simp add: Let_def)
qed

text \<open>The reward method of the chain is the reward function of the configuration.\<close>

lemma get_block_reward_eq: "get_block_reward bc h = calculate_block_reward h"
  by (simp add: get_block_reward_def calculate_block_reward_def)

end
