(* ===== verification/Validation.thy ===== *)
theory Validation
  imports Chain
begin

text \<open>
  \<open>validate_fork_block\<close> and \<open>validate_and_insert_block\<close> of \<open>core/src/blockchain/mod.rs\<close>
  (lines 222 to 613), with the loop over the transactions of a block and its batch of writes.
\<close>

section \<open>Header checks\<close>

text \<open>Step 6 of both functions: skipped when the parent is missing or does not decode.\<close>

definition check_progression :: "'v prims \<Rightarrow> 'v blockchain \<Rightarrow> block \<Rightarrow> (chain_error, unit) result" where
  "check_progression P bc block =
     (case db_get (bc_db bc) (block_key (previous_hash (header block))) of
        None \<Rightarrow> Ok ()
      | Some prev_bytes \<Rightarrow>
          (case dec_block P prev_bytes of
             None \<Rightarrow> Ok ()
           | Some prev_block \<Rightarrow>
               ensure DifficultyTooAggressive
                 (\<not> too_aggressive (difficulty (header prev_block)) (difficulty (header block)))))"

text \<open>Steps 1 to 3 of both functions, and the first half of step 4: the parent is stored.\<close>

definition check_header :: "'v prims \<Rightarrow> 'v blockchain \<Rightarrow> block \<Rightarrow> (chain_error, unit) result" where
  "check_header P bc block =
     (let hdr = header block in
      bind_res (ensure HeaderHashMismatch (compute_header_hash P hdr = block_hash block)) (\<lambda>_.
      bind_res (ensure CheckpointPolicy (validate_against_checkpoints (index hdr) (block_hash block))) (\<lambda>_.
      bind_res (is_valid_pow P (block_hash block) (difficulty hdr)) (\<lambda>ok.
      bind_res (ensure PowInvalid ok) (\<lambda>_.
      bind_res (if index hdr > 0
        then bind_res (calculate_adjusted_difficulty P bc (index hdr)) (\<lambda>expected.
             ensure DifficultyMismatch (difficulty hdr = expected))
        else Ok ()) (\<lambda>_.
      if index hdr > 0
      then ensure PrevMissing (db_get (bc_db bc) (block_key (previous_hash hdr)) \<noteq> None)
      else Ok ()))))))"

text \<open>Steps 5 to 8 of both functions.\<close>

definition check_context :: "'v prims \<Rightarrow> int \<Rightarrow> 'v blockchain \<Rightarrow> block \<Rightarrow> (chain_error, unit) result" where
  "check_context P now bc block =
     (let hdr = header block in
      bind_res (ensure TimestampFuture (timestamp hdr \<le> i64 (now + max_future_block_time bc))) (\<lambda>_.
      bind_res (if index hdr > 0 then check_progression P bc block else Ok ()) (\<lambda>_.
      bind_res (ensure MerkleMismatch
          (compute_merkle_root P (map txid (transactions block)) = merkle_root hdr)) (\<lambda>_.
      if index hdr > 0 then validate_median_time_past P bc block else Ok ()))))"

section \<open>Fork blocks\<close>

definition validate_fork_block :: "'v prims \<Rightarrow> int \<Rightarrow> 'v blockchain \<Rightarrow> block
    \<Rightarrow> 'v blockchain \<times> (chain_error, unit) result" where
  "validate_fork_block P now bc block =
     (case bind_res (check_header P bc block) (\<lambda>_. check_context P now bc block) of
        Err e \<Rightarrow> (bc, Err e)
      | Ok _ \<Rightarrow>
          (bc\<lparr>bc_db := put_batch (bc_db bc)
             (Put (block_key (block_hash block)) (enc_block P block)
              # map (\<lambda>tx. Put (tx_key (txid tx)) (enc_tx P tx)) (transactions block))\<rparr>, Ok ()))"

section \<open>Transactions of a block\<close>

record 'v tx_acc =
  batch :: "'v write_op list"
  total_fees :: u256
  block_utxos :: "string \<rightharpoonup> utxo"

text \<open>The body of the loop over the inputs: the keys used so far and the running sum are threaded.\<close>

definition find_utxo :: "'v prims \<Rightarrow> 'v db \<Rightarrow> string \<Rightarrow> 'v tx_acc \<Rightarrow> (chain_error, utxo \<times> 'v tx_acc) result" where
  "find_utxo P d ukey acc =
     (case block_utxos acc ukey of
        Some pending \<Rightarrow> Ok (pending, acc\<lparr>block_utxos := (block_utxos acc)(ukey := None)\<rparr>)
      | None \<Rightarrow>
          (case db_get d ukey of
             None \<Rightarrow> Err UtxoMissing
           | Some blob \<Rightarrow>
               bind_res (ok_or DecodeError (dec_utxo P blob)) (\<lambda>u.
               Ok (u, acc\<lparr>batch := batch acc @ [Delete ukey]\<rparr>))))"

definition process_input :: "'v prims \<Rightarrow> 'v db \<Rightarrow> transaction_input
    \<Rightarrow> string list \<times> u256 \<times> 'v tx_acc \<Rightarrow> (chain_error, string list \<times> u256 \<times> 'v tx_acc) result" where
  "process_input P d inp st =
     (case st of (used_utxos, input_sum, acc) \<Rightarrow>
        let ukey = utxo_key (in_txid inp) (unat (in_vout inp)) in
        if ukey \<in> set used_utxos then Err DupInput
        else
          bind_res (find_utxo P d ukey acc) (\<lambda>(u, acc).
          case address_from_pubkey_hex P (in_pubkey inp) of
            Err _ \<Rightarrow> Err InvalidPubkeyAddress
          | Ok input_address \<Rightarrow>
              if to_lowercase input_address \<noteq> to_lowercase (u_to u) then Err UtxoOwnership
              else bind_res (ok_or Panic (u256_add input_sum (u_amount u))) (\<lambda>input_sum.
                   Ok (ukey # used_utxos, input_sum, acc))))"

definition check_signed :: "'v prims \<Rightarrow> transaction \<Rightarrow> (chain_error, unit) result" where
  "check_signed P tx =
     (case verify_signatures P tx of
        Err e \<Rightarrow> Err (TxVerify e)
      | Ok ok \<Rightarrow> ensure TxSignatureInvalid ok)"

definition add_outputs :: "'v prims \<Rightarrow> transaction \<Rightarrow> 'v tx_acc \<Rightarrow> 'v tx_acc" where
  "add_outputs P tx acc =
     acc\<lparr>batch := batch acc @ Put (tx_key (txid tx)) (enc_tx P tx)
            # put_utxos P (created_utxos to_lowercase tx),
         block_utxos := fold (\<lambda>(k, u) m. m(k \<mapsto> u)) (created_utxos to_lowercase tx) (block_utxos acc)\<rparr>"

definition process_coinbase :: "'v prims \<Rightarrow> transaction \<Rightarrow> 'v tx_acc \<Rightarrow> (chain_error, 'v tx_acc) result" where
  "process_coinbase P tx acc = bind_res (check_signed P tx) (\<lambda>_. Ok (add_outputs P tx acc))"

definition process_tx :: "'v prims \<Rightarrow> 'v db \<Rightarrow> transaction \<Rightarrow> 'v tx_acc \<Rightarrow> (chain_error, 'v tx_acc) result" where
  "process_tx P d tx acc =
     bind_res (check_signed P tx) (\<lambda>_.
     bind_res (fold_res (process_input P d) (inputs tx) ([], 0, acc)) (\<lambda>(used_utxos, input_sum, acc).
     bind_res (ok_or Panic (u256_sum (map out_amount (outputs tx)))) (\<lambda>output_sum.
     if output_sum > input_sum then Err OutputsExceedInputs
     else
       bind_res (ok_or Panic (u256_sub input_sum output_sum)) (\<lambda>fee.
       bind_res (ok_or Panic (u256_add (total_fees acc) fee)) (\<lambda>fees.
       if fee < calculate_min_fee (blob_len P (enc_tx P tx)) then Err FeeTooLow
       else Ok (add_outputs P tx (acc\<lparr>total_fees := fees\<rparr>)))))))"

text \<open>Step 9: the coinbase, the other transactions, the reward, and the batch of the whole block.\<close>

definition block_batch :: "'v prims \<Rightarrow> 'v blockchain \<Rightarrow> block \<Rightarrow> (chain_error, 'v write_op list) result" where
  "block_batch P bc block =
     (case transactions block of
        [] \<Rightarrow> Err NoTxs
      | cb # rest \<Rightarrow>
          if inputs cb \<noteq> [] then Err CoinbaseHasInputs
          else
            bind_res (process_coinbase P cb \<lparr>batch = [], total_fees = 0, block_utxos = Map.empty\<rparr>) (\<lambda>acc.
            bind_res (fold_res (process_tx P (bc_db bc)) rest acc) (\<lambda>acc.
            bind_res (ok_or Panic (u256_sum (map out_amount (outputs cb)))) (\<lambda>coinbase_output.
            bind_res (ok_or Panic (u256_add (get_block_reward bc (index (header block))) (total_fees acc)))
              (\<lambda>max_reward.
            if coinbase_output > max_reward then Err InvalidCoinbaseReward
            else Ok (batch acc @
              [Put (block_key (block_hash block)) (enc_block P block),
               Put (index_key (unat (index (header block)))) (as_bytes P (block_hash block)),
               Put tip_key (as_bytes P (block_hash block))]))))))"

section \<open>Insertion\<close>

text \<open>The second half of step 4: a tip whose block is gone is recovered before it is compared.\<close>

definition settle_tip :: "'v prims \<Rightarrow> 'v blockchain \<Rightarrow> block \<Rightarrow> 'v blockchain \<times> (chain_error, unit) result" where
  "settle_tip P bc block =
     (if index (header block) > 0
      then (case chain_tip bc of
          None \<Rightarrow> (bc, Ok ())
        | Some tip_hash \<Rightarrow>
            (case load_header P bc tip_hash of
               Err e \<Rightarrow> (bc, Err e)
             | Ok hdr \<Rightarrow>
                 (case (if hdr = None then recover_tip P bc else (bc, Ok ())) of
                    (bc, Err e) \<Rightarrow> (bc, Err e)
                  | (bc, Ok _) \<Rightarrow>
                      (bc, ensure ForkDetected (chain_tip bc = None \<or>
                         chain_tip bc = Some (previous_hash (header block)))))))
      else (bc, Ok ()))"

definition validate_and_insert_block :: "'v prims \<Rightarrow> int \<Rightarrow> 'v blockchain \<Rightarrow> block
    \<Rightarrow> 'v blockchain \<times> (chain_error, unit) result" where
  "validate_and_insert_block P now bc block =
     (if db_get (bc_db bc) (block_key (block_hash block)) \<noteq> None then (bc, Ok ())
      else
        case check_header P bc block of
          Err e \<Rightarrow> (bc, Err e)
        | Ok _ \<Rightarrow>
            (case settle_tip P bc block of
               (bc, Err e) \<Rightarrow> (bc, Err e)
             | (bc, Ok _) \<Rightarrow>
                 (case bind_res (check_context P now bc block) (\<lambda>_. block_batch P bc block) of
                    Err e \<Rightarrow> (bc, Err e)
                  | Ok ops \<Rightarrow>
                      (bc\<lparr>bc_db := put_batch (bc_db bc) ops, chain_tip := Some (block_hash block),
                         bc_difficulty := difficulty (header block)\<rparr>, Ok ()))))"

end
