(* ===== verification/Sample_Chain.thy ===== *)
theory Sample_Chain
  imports Validation
begin

text \<open>
  A small chain over the reference primitives, on which the theorems about insertion are exercised:
  one stored block, one unspent output, and blocks of height 1 (or another one) built on it from a
  list of transactions. The header checks pass for every such block, so that what becomes of it is
  decided by its transactions.
\<close>

definition sample_key :: wallet_keypair where
  "sample_key = keypair_new ref_prims (replicate 32 1)"

definition sample_address :: string where
  "sample_address = keypair_address ref_prims sample_key"

definition sample_genesis :: block where
  "sample_genesis = \<lparr>header = \<lparr>index = 0, previous_hash = '''', merkle_root = '''', timestamp = 1000, nonce = 0,
     difficulty = POW_LIMIT_BITS\<rparr>, transactions = [], block_hash = ''g''\<rparr>"

definition sample_utxo :: utxo where
  "sample_utxo = \<lparr>u_txid = ''aa'', u_vout = 0, u_to = sample_address, u_amount = 1000000000000000000\<rparr>"

definition sample_funding :: transaction where
  "sample_funding = \<lparr>txid = ''aa'', inputs = [],
     outputs = [\<lparr>out_to = sample_address, out_amount = 1000000000000000000\<rparr>], tx_timestamp = 0\<rparr>"

definition sample_chain :: "stored blockchain" where
  "sample_chain = \<lparr>bc_db = [(block_key ''g'', SBlock sample_genesis), (index_key 0, SText ''g''),
       (tx_key ''aa'', STx sample_funding), (tip_key, SText ''g''), (utxo_key ''aa'' 0, SUtxo sample_utxo)],
     chain_tip = Some ''g'', bc_difficulty = POW_LIMIT_BITS, block_interval = 60, max_reorg_depth = 100,
     max_future_block_time = 7200, enable_deep_reorg_alerts = True\<rparr>"

definition sample_block :: "u64 \<Rightarrow> transaction list \<Rightarrow> block" where
  "sample_block n txs =
     (let hdr = \<lparr>index = n, previous_hash = ''g'', merkle_root = compute_merkle_root ref_prims (map txid txs),
        timestamp = 2000, nonce = 0, difficulty = POW_LIMIT_BITS\<rparr>
      in \<lparr>header = hdr, transactions = txs, block_hash = compute_header_hash ref_prims hdr\<rparr>)"

text \<open>A coinbase, and a signed transaction that moves one output of the sample key.\<close>

definition sample_coinbase :: "string \<Rightarrow> u256 \<Rightarrow> transaction" where
  "sample_coinbase tid amount =
     \<lparr>txid = tid, inputs = [], outputs = [\<lparr>out_to = ''0xab'', out_amount = amount\<rparr>], tx_timestamp = 0\<rparr>"

definition sample_spend :: "string \<Rightarrow> string \<Rightarrow> u256 \<Rightarrow> transaction" where
  "sample_spend tid from amount = sign_tx ref_prims
     \<lparr>txid = tid, inputs = [\<lparr>in_txid = from, in_vout = 0, in_pubkey = '''', in_signature = None\<rparr>],
       outputs = [\<lparr>out_to = sample_address, out_amount = amount\<rparr>], tx_timestamp = 0\<rparr> sample_key"

definition sample_signature :: "string \<Rightarrow> string \<Rightarrow> u256 \<Rightarrow> string option" where
  "sample_signature tid from amount = in_signature (hd (inputs (sample_spend tid from amount)))"

text \<open>
  Blocks of height 1: an ordinary spend; one output spent by two transactions; an output spent in
  the block that creates it; a coinbase that claims the identifier of an earlier transaction.
\<close>

definition spend_block :: block where
  "spend_block = sample_block 1 [sample_coinbase ''c0'' 8000000000000000000,
     sample_spend ''b1'' ''aa'' 900000000000000000]"

definition double_spend_block :: block where
  "double_spend_block = sample_block 1 [sample_coinbase ''c0'' 8000000000000000000,
     sample_spend ''b1'' ''aa'' 900000000000000000, sample_spend ''b2'' ''aa'' 900000000000000000]"

definition chained_block :: block where
  "chained_block = sample_block 1 [sample_coinbase ''c0'' 8000000000000000000,
     sample_spend ''b1'' ''aa'' 900000000000000000, sample_spend ''b2'' ''b1'' 800000000000000000]"

definition forged_block :: block where
  "forged_block = sample_block 1 [sample_coinbase ''aa'' 1]"

definition jump_block :: block where
  "jump_block = sample_block 20 [sample_coinbase ''c0'' 8000000000000000000]"

definition sample_output :: "string \<Rightarrow> string \<Rightarrow> u256 \<Rightarrow> stored" where
  "sample_output t a amount = SUtxo \<lparr>u_txid = t, u_vout = 0, u_to = to_lowercase a, u_amount = amount\<rparr>"

section \<open>Header checks of the sample blocks\<close>

lemma ref_selectors:
  "enc_block ref_prims = SBlock" "dec_block ref_prims = as_block" "enc_tx ref_prims = STx"
  "dec_tx ref_prims = as_tx" "enc_utxo ref_prims = SUtxo" "dec_utxo ref_prims = as_utxo"
  "as_bytes ref_prims = SText" "from_utf8 ref_prims = as_text" "blob_len ref_prims v = 1"
  by (simp_all add: ref_prims_def)

lemma sample_key_wf: "keypair_wf ref_prims sample_key"
  by (simp add: sample_key_def keypair_wf_new)

lemma sample_db:
  "db_wf (bc_db sample_chain)"
  "db_get (bc_db sample_chain) (block_key ''g'') = Some (SBlock sample_genesis)"
  "db_get (bc_db sample_chain) (utxo_key ''aa'' 0) = Some (SUtxo sample_utxo)"
  "h \<noteq> ''g'' \<Longrightarrow> db_get (bc_db sample_chain) (block_key h) = None"
  "chain_tip sample_chain = Some ''g''" "bc_difficulty sample_chain = POW_LIMIT_BITS"
  "max_future_block_time sample_chain = 7200"
  by (auto simp: sample_chain_def db_get_def)
    (simp add: db_wf_def block_key_def index_key_def tip_key_def utxo_key_def tx_key_def)

lemma sample_db_more:
  "db_get (bc_db sample_chain) (tx_key ''aa'') = Some (STx sample_funding)"
  "t \<noteq> ''aa'' \<Longrightarrow> db_get (bc_db sample_chain) (utxo_key t n) = None"
  by (auto simp: sample_chain_def db_get_def)

lemma sample_hash:
  "compute_header_hash ref_prims hdr = hex_of (pad 32 [0, ucast (index hdr), ucast (nonce hdr)])"
  by (simp add: compute_header_hash_def to_hex_def blake3_hash_def serialize_header_def ref_prims_def)

lemma sample_block_simps [simp]:
  "transactions (sample_block n txs) = txs" "index (header (sample_block n txs)) = n"
  "previous_hash (header (sample_block n txs)) = ''g''" "timestamp (header (sample_block n txs)) = 2000"
  "difficulty (header (sample_block n txs)) = POW_LIMIT_BITS"
  "merkle_root (header (sample_block n txs)) = compute_merkle_root ref_prims (map txid txs)"
  "block_hash (sample_block n txs) = compute_header_hash ref_prims (header (sample_block n txs))"
  by (simp_all add: sample_block_def Let_def)

lemma sample_block_hash:
  "block_hash (sample_block n txs) = hex_of (pad 32 [0, ucast n, 0])"
  unfolding sample_block_simps sample_hash by (simp add: sample_block_def Let_def)

lemma strip_prefix_hex: "strip_prefix ''0x'' (hex_of (0 # bs)) = None"
  by (simp add: strip_prefix_def starts_with_def hex_digit_def)

lemma sample_pow:
  assumes "n < 24"
  shows "is_valid_pow ref_prims (hex_of (pad 32 [0, ucast (n::u64), 0])) POW_LIMIT_BITS = Ok True"
proof -
  let ?bs = "pad 32 [0, ucast n, 0]"
  have bs: "?bs = 0 # ucast n # replicate 30 0"
    by (simp add: pad_def numeral_eq_Suc)
  have z: "be_value (replicate k 0) = 0" for k by (induction k) (simp_all add: be_value_Cons)
  have "unat n < 24" using assms by (simp add: word_less_nat_alt)
  then have n: "unat (ucast n :: u8) = unat n" by (simp add: unsigned_ucast_eq take_bit_eq_mod)
  have "be_value ?bs = unat n * 256 ^ 30" unfolding bs by (simp add: be_value_Cons z n)
  then have "unat (from_big_endian ?bs) = unat n * 256 ^ 30" by (simp add: unat_from_big_endian)
  moreover have "unat (compact_to_target POW_LIMIT_BITS) = 0x7fffff * 256 ^ 28"
    using unat_pow_limit by (simp add: pow_limit_target_def)
  ultimately have "from_big_endian ?bs < compact_to_target POW_LIMIT_BITS"
    using \<open>unat n < 24\<close> by (simp add: word_less_nat_alt)
  moreover have "compact_to_target POW_LIMIT_BITS \<noteq> 0"
    using pow_limit_nonzero by (simp add: pow_limit_target_def)
  moreover have "hash_to_u256 ref_prims (hex_of ?bs) = Ok (from_big_endian ?bs)"
    using strip_prefix_hex[of "ucast n # replicate 30 0"] unfolding bs[symmetric]
    by (simp add: hash_to_u256_def)
  ultimately show ?thesis by (simp add: is_valid_pow_def)
qed

lemma sample_not_stored: "db_get (bc_db sample_chain) (block_key (block_hash (sample_block n txs))) = None"
proof -
  have "length (block_hash (sample_block n txs)) = 64" unfolding sample_block_hash by simp
  then show ?thesis by (intro sample_db(4)) auto
qed

lemma sample_check_header:
  assumes "0 < n" "n < 24"
  shows "check_header ref_prims sample_chain (sample_block n txs) = Ok ()"
proof -
  have "unat n < 24" using assms(2) by (simp add: word_less_nat_alt)
  then have "calculate_adjusted_difficulty ref_prims sample_chain n = Ok POW_LIMIT_BITS"
    by (simp add: calculate_adjusted_difficulty_def RETARGET_WINDOW_def sample_db)
  moreover have "is_valid_pow ref_prims (block_hash (sample_block n txs)) POW_LIMIT_BITS = Ok True"
    unfolding sample_block_hash by (rule sample_pow[OF assms(2)])
  moreover have "validate_against_checkpoints n h" for h
    using assms(1) by (auto simp: validate_against_checkpoints_iff)
  ultimately show ?thesis using assms(1) by (simp add: check_header_def sample_db Let_def)
qed

lemma sample_load: "load_block ref_prims sample_chain ''g'' = Ok (Some sample_genesis)"
  "load_header ref_prims sample_chain ''g'' = Ok (Some (header sample_genesis))"
  by (simp_all add: load_block_def load_header_def sample_db ref_selectors)

lemma sample_settle:
  "0 < n \<Longrightarrow> settle_tip ref_prims sample_chain (sample_block n txs) = (sample_chain, Ok ())"
  by (simp add: settle_tip_def sample_db sample_load)

lemma sample_check_context:
  assumes "0 < n"
  shows "check_context ref_prims 2000 sample_chain (sample_block n txs) = Ok ()"
proof -
  have "\<not> too_aggressive POW_LIMIT_BITS POW_LIMIT_BITS"
    using pow_limit_nonzero by (simp add: too_aggressive_def pow_limit_target_def)
  then have "check_progression ref_prims sample_chain (sample_block n txs) = Ok ()"
    by (simp add: check_progression_def sample_db ref_selectors) (simp add: sample_genesis_def)
  moreover have "mtp_collect 11 ref_prims sample_chain ''g'' = Ok [1000]"
    by (simp add: numeral_eq_Suc sample_load) (simp add: sample_genesis_def)
  then have "validate_median_time_past ref_prims sample_chain (sample_block n txs) = Ok ()"
    by (simp add: validate_median_time_past_def median_time_def)
  ultimately show ?thesis by (simp add: check_context_def sample_db i64_def)
qed

text \<open>So the transactions alone decide.\<close>

lemma sample_insert:
  assumes "0 < n" "n < 24" "block_batch ref_prims sample_chain (sample_block n txs) = Ok ops"
  shows "validate_and_insert_block ref_prims 2000 sample_chain (sample_block n txs) =
    (sample_chain\<lparr>bc_db := put_batch (bc_db sample_chain) ops,
       chain_tip := Some (block_hash (sample_block n txs)), bc_difficulty := POW_LIMIT_BITS\<rparr>, Ok ())"
  unfolding validate_and_insert_block_def sample_not_stored
  using assms sample_check_header[OF assms(1,2), of txs] sample_settle[OF assms(1), of txs]
    sample_check_context[OF assms(1), of txs]
  by simp

section \<open>Transactions of the sample blocks\<close>

lemma sample_spend_simps [simp]:
  "txid (sample_spend t f a) = t"
  "outputs (sample_spend t f a) = [\<lparr>out_to = sample_address, out_amount = a\<rparr>]"
  "inputs (sample_spend t f a) = [\<lparr>in_txid = f, in_vout = 0, in_pubkey = public_hex ref_prims sample_key,
     in_signature = sample_signature t f a\<rparr>]"
  by (simp_all add: sample_signature_def sample_spend_def sign_tx_def Let_def)

lemma sample_spend_signed: "check_signed ref_prims (sample_spend t f a) = Ok ()"
  using verify_signed[OF ref_prims_ok(4,3) sample_key_wf] by (simp add: check_signed_def sample_spend_def)

lemma sample_address_of_key:
  "address_from_pubkey_hex ref_prims (public_hex ref_prims sample_key) = Ok sample_address"
  using address_of_own_key[OF ref_prims_ok(4,3) sample_key_wf] by (simp add: sample_address_def)

lemma sample_min_fee: "calculate_min_fee (Suc 0) = 100200000000000"
  by (simp add: calculate_min_fee_def BASE_MIN_FEE_def MIN_RELAY_FEE_NAT_PER_BYTE_def)

lemma sample_process:
  assumes "find_utxo ref_prims d (utxo_key f 0) acc = Ok (u, acc1)"
    and "to_lowercase (u_to u) = to_lowercase sample_address"
    and "unat a + 100200000000000 \<le> unat (u_amount u)"
    and "unat (total_fees acc1) + unat (u_amount u) < 2 ^ 256"
  shows "process_tx ref_prims d (sample_spend t f a) acc =
    Ok (add_outputs ref_prims (sample_spend t f a)
      (acc1\<lparr>total_fees := total_fees acc1 + (u_amount u - a)\<rparr>))"
proof -
  have sub: "unat (u_amount u - a) = unat (u_amount u) - unat a"
    using assms(3) by (simp add: unat_sub word_le_nat_alt)
  have 1: "u256_sub (u_amount u) a = Some (u_amount u - a)"
    using assms(3) by (simp add: u256_sub_Some sub)
  have 2: "u256_add (total_fees acc1) (u_amount u - a) = Some (total_fees acc1 + (u_amount u - a))"
    using assms(3,4) sub by (simp add: u256_add_def)
  have 3: "\<not> u_amount u < a" "\<not> u_amount u - a < 100200000000000"
    using assms(3) by (simp_all add: word_less_nat_alt sub)
  have "u256_sum [x] = Some x" "u256_add 0 x = Some x" for x by (simp_all add: u256_simps)
  then show ?thesis
    using assms(1,2) 1 2 3
    by (simp add: process_tx_def sample_spend_signed process_input_def sample_address_of_key
        ref_selectors sample_min_fee Let_def)
qed

lemma sample_find_db: "find_utxo ref_prims (bc_db sample_chain) (utxo_key ''aa'' 0) acc =
   (case block_utxos acc (utxo_key ''aa'' 0) of
      None \<Rightarrow> Ok (sample_utxo, acc\<lparr>batch := batch acc @ [Delete (utxo_key ''aa'' 0)]\<rparr>)
    | Some p \<Rightarrow> Ok (p, acc\<lparr>block_utxos := (block_utxos acc)(utxo_key ''aa'' 0 := None)\<rparr>))"
  by (simp add: find_utxo_def sample_db ref_selectors split: option.splits)

lemma sample_created:
  "created_utxos norm (sample_spend t f a) =
     [(utxo_key t 0, \<lparr>u_txid = t, u_vout = 0, u_to = norm sample_address, u_amount = a\<rparr>)]"
  "created_utxos norm (sample_coinbase t a) =
     [(utxo_key t 0, \<lparr>u_txid = t, u_vout = 0, u_to = norm ''0xab'', u_amount = a\<rparr>)]"
  by (simp_all add: created_utxos_def sample_coinbase_def)

lemma sample_coinbase_signed:
  "process_coinbase ref_prims (sample_coinbase t a) acc = Ok (add_outputs ref_prims (sample_coinbase t a) acc)"
  by (simp add: process_coinbase_def check_signed_def verify_signatures_def sample_coinbase_def)

lemma u256_sum_single: "u256_sum [x] = Some x"
  by (simp add: u256_simps)

lemma sample_coinbase_simps [simp]:
  "txid (sample_coinbase t a) = t" "inputs (sample_coinbase t a) = []"
  "map out_amount (outputs (sample_coinbase t a)) = [a]"
  by (simp_all add: sample_coinbase_def)

lemma sample_reward: "n < 24 \<Longrightarrow> get_block_reward bc n = 8000000000000000000"
proof -
  assume "n < 24"
  then have "n div 210000 = 0" by (simp add: word_less_nat_alt word_unat_eq_iff unat_div)
  then show ?thesis
    by (simp add: get_block_reward_def HALVING_INTERVAL_def initial_block_reward_def RAM_PER_ASRM_def)
qed

lemma sample_utxo_simps: "u_to sample_utxo = sample_address" "u_amount sample_utxo = 1000000000000000000"
  by (simp_all add: sample_utxo_def)

lemmas sample_eval = sample_find_db sample_created sample_coinbase_signed sample_process put_utxos_def
  add_outputs_def block_batch_def ref_selectors sample_utxo_simps sample_reward u256_add_def u256_sum_single

lemma find_pending:
  "block_utxos acc k = Some p \<Longrightarrow> find_utxo P d k acc = Ok (p, acc\<lparr>block_utxos := (block_utxos acc)(k := None)\<rparr>)"
  by (simp add: find_utxo_def)

lemma block_batch_sample:
  assumes "n < 24"
  shows "block_batch ref_prims sample_chain (sample_block n (sample_coinbase t a # rest)) =
     bind_res (fold_res (process_tx ref_prims (bc_db sample_chain)) rest
       (add_outputs ref_prims (sample_coinbase t a) \<lparr>batch = [], total_fees = 0, block_utxos = Map.empty\<rparr>)) (\<lambda>acc.
     bind_res (ok_or Panic (u256_add 8000000000000000000 (total_fees acc))) (\<lambda>m.
     if a > m then Err InvalidCoinbaseReward
     else Ok (batch acc @
       [Put (block_key (block_hash (sample_block n (sample_coinbase t a # rest))))
          (enc_block ref_prims (sample_block n (sample_coinbase t a # rest))),
        Put (index_key (unat (index (header (sample_block n (sample_coinbase t a # rest))))))
          (as_bytes ref_prims (block_hash (sample_block n (sample_coinbase t a # rest)))),
        Put tip_key (as_bytes ref_prims (block_hash (sample_block n (sample_coinbase t a # rest))))])))"
  unfolding block_batch_def
  by (simp add: sample_coinbase_signed u256_sum_single sample_reward assms)

text \<open>What insertion makes of the four blocks of height 1, read off the database.\<close>

lemma sample_accepts:
  assumes "0 < n" "n < 24" "\<exists>ops. block_batch ref_prims sample_chain (sample_block n txs) = Ok ops \<and>
    Q (batch_view ops (db_get (bc_db sample_chain)))"
  shows "\<exists>bc'. validate_and_insert_block ref_prims 2000 sample_chain (sample_block n txs) = (bc', Ok ()) \<and>
    Q (db_get (bc_db bc')) \<and> db_wf (bc_db bc')"
  using sample_insert[OF assms(1,2)] assms(3) sample_db(1) by force

lemma spend_accepted:
  "\<exists>bc'. validate_and_insert_block ref_prims 2000 sample_chain spend_block = (bc', Ok ()) \<and>
    (db_get (bc_db bc') (utxo_key ''aa'' 0) = None \<and> db_get (bc_db bc') (tx_key ''aa'') = Some (STx sample_funding)) \<and>
    db_wf (bc_db bc')"
  unfolding spend_block_def
  by (rule sample_accepts[where Q = "\<lambda>m. m (utxo_key ''aa'' 0) = None \<and> m (tx_key ''aa'') = Some (STx sample_funding)"])
    (simp_all add: sample_eval block_batch_sample sample_db_more)

lemma double_spend_result:
  "\<exists>bc'. validate_and_insert_block ref_prims 2000 sample_chain double_spend_block = (bc', Ok ()) \<and>
    (db_get (bc_db bc') (utxo_key ''c0'' 0) = Some (sample_output ''c0'' ''0xab'' 8000000000000000000) \<and>
     db_get (bc_db bc') (utxo_key ''b1'' 0) = Some (sample_output ''b1'' sample_address 900000000000000000) \<and>
     db_get (bc_db bc') (utxo_key ''b2'' 0) = Some (sample_output ''b2'' sample_address 900000000000000000)) \<and>
    db_wf (bc_db bc')"
  unfolding double_spend_block_def
  by (rule sample_accepts[where Q = "\<lambda>m. m (utxo_key ''c0'' 0) = Some (sample_output ''c0'' ''0xab'' 8000000000000000000) \<and>
     m (utxo_key ''b1'' 0) = Some (sample_output ''b1'' sample_address 900000000000000000) \<and>
     m (utxo_key ''b2'' 0) = Some (sample_output ''b2'' sample_address 900000000000000000)"])
    (simp_all add: sample_eval block_batch_sample sample_output_def)

lemma chained_result:
  "\<exists>bc'. validate_and_insert_block ref_prims 2000 sample_chain chained_block = (bc', Ok ()) \<and>
    (db_get (bc_db bc') (utxo_key ''c0'' 0) = Some (sample_output ''c0'' ''0xab'' 8000000000000000000) \<and>
     db_get (bc_db bc') (utxo_key ''b1'' 0) = Some (sample_output ''b1'' sample_address 900000000000000000) \<and>
     db_get (bc_db bc') (utxo_key ''b2'' 0) = Some (sample_output ''b2'' sample_address 800000000000000000)) \<and>
    db_wf (bc_db bc')"
  unfolding chained_block_def
  by (rule sample_accepts[where Q = "\<lambda>m. m (utxo_key ''c0'' 0) = Some (sample_output ''c0'' ''0xab'' 8000000000000000000) \<and>
     m (utxo_key ''b1'' 0) = Some (sample_output ''b1'' sample_address 900000000000000000) \<and>
     m (utxo_key ''b2'' 0) = Some (sample_output ''b2'' sample_address 800000000000000000)"])
    (simp_all add: sample_eval block_batch_sample sample_output_def find_pending)

lemma forged_result:
  "\<exists>bc'. validate_and_insert_block ref_prims 2000 sample_chain forged_block = (bc', Ok ()) \<and>
    db_get (bc_db bc') (utxo_key ''aa'' 0) = Some (sample_output ''aa'' ''0xab'' 1) \<and> db_wf (bc_db bc')"
  unfolding forged_block_def
  by (rule sample_accepts[where Q = "\<lambda>m. m (utxo_key ''aa'' 0) = Some (sample_output ''aa'' ''0xab'' 1)"])
    (simp_all add: sample_eval block_batch_sample sample_output_def)

lemma jump_result:
  "\<exists>bc'. validate_and_insert_block ref_prims 2000 sample_chain jump_block = (bc', Ok ()) \<and>
    db_get (bc_db bc') (index_key 1) = None \<and> db_wf (bc_db bc')"
  unfolding jump_block_def
  by (rule sample_accepts[where Q = "\<lambda>m. m (index_key 1) = None"])
    (simp_all add: sample_eval block_batch_sample, simp add: sample_chain_def db_get_def)

end
