(* ===== verification/Acceptance.thy ===== *)
theory Acceptance
  imports Sample_Chain
begin

text \<open>
  What the validator guarantees of the state: what a refused block leaves behind, what an accepted
  one writes, and which facts hold of every block that was written.
\<close>

section \<open>What the theorems speak of\<close>

definition input_key :: "transaction_input \<Rightarrow> string" where
  "input_key inp = utxo_key (in_txid inp) (unat (in_vout inp))"

definition output_total :: "transaction \<Rightarrow> nat" where
  "output_total tx = sum_list (map (unat \<circ> out_amount) (outputs tx))"

text \<open>The output an input refers to: stored, or created by an earlier transaction of the block.\<close>

definition spends_from :: "'v prims \<Rightarrow> 'v db \<Rightarrow> transaction list \<Rightarrow> transaction_input \<Rightarrow> utxo \<Rightarrow> bool" where
  "spends_from P d earlier inp u \<longleftrightarrow>
     Option.bind (db_get d (input_key inp)) (dec_utxo P) = Some u \<or>
     (input_key inp, u) \<in> set (concat (map (created_utxos to_lowercase) earlier))"

text \<open>The input carries a valid signature under a key whose address owns the output.\<close>

definition authorised :: "'v prims \<Rightarrow> transaction \<Rightarrow> transaction_input \<Rightarrow> utxo \<Rightarrow> bool" where
  "authorised P tx inp u \<longleftrightarrow> input_signed P (serialize_for_hash P tx) inp \<and>
     (\<exists>a. address_from_pubkey_hex P (in_pubkey inp) = Ok a \<and> to_lowercase a = to_lowercase (u_to u))"

text \<open>
  The keys a list of transactions spends and creates, and the \<open>t:\<close> and \<open>u:\<close> records it stands for,
  the last transaction's first (a later record replaces an earlier one under the same key).
\<close>

definition spent_keys :: "transaction list \<Rightarrow> string list" where
  "spent_keys txs = concat (map (map input_key \<circ> inputs) txs)"

definition created_keys_of :: "transaction list \<Rightarrow> string list" where
  "created_keys_of txs = concat (map (map fst \<circ> created_utxos to_lowercase) txs)"

definition tx_records :: "'v prims \<Rightarrow> transaction list \<Rightarrow> string \<rightharpoonup> 'v" where
  "tx_records P txs = map_of (rev (map (\<lambda>tx. (tx_key (txid tx), enc_tx P tx)) txs))"

definition utxo_records :: "transaction list \<Rightarrow> string \<rightharpoonup> utxo" where
  "utxo_records txs = map_of (rev (concat (map (created_utxos to_lowercase) txs)))"

definition is_ledger_key :: "string \<Rightarrow> bool" where
  "is_ledger_key k \<longleftrightarrow> starts_with ''t:'' k \<or> starts_with ''u:'' k"

section \<open>Shape of the results\<close>

lemma settle_tip_state:
  assumes "settle_tip P bc b = (bc1, r)"
  shows "bc1 = bc \<or> (\<exists>tip hash. chain_tip bc = Some tip \<and> load_header P bc tip = Ok None \<and>
    bc1 = bc\<lparr>bc_db := db_put tip_key (as_bytes P hash) (bc_db bc), chain_tip := Some hash\<rparr>)"
  using assms
  by (auto simp: settle_tip_def recover_tip_def split: if_splits option.splits result.splits prod.splits)

lemma settle_tip_other:
  assumes "settle_tip P bc b = (bc1, r)"
  shows "k \<noteq> tip_key \<Longrightarrow> db_get (bc_db bc1) k = db_get (bc_db bc) k"
    and "bc_difficulty bc1 = bc_difficulty bc"
    and "db_wf (bc_db bc) \<Longrightarrow> db_wf (bc_db bc1)"
  using settle_tip_state[OF assms] by (auto simp: db_wf_put)

lemma settle_tip_Ok:
  assumes "settle_tip P bc b = (bc1, Ok u)" "index (header b) > 0"
  shows "chain_tip bc1 = None \<and> chain_tip bc = None \<or> chain_tip bc1 = Some (previous_hash (header b))"
  using assms
  by (auto simp: settle_tip_def recover_tip_def res_simps split: if_splits option.splits result.splits prod.splits)

lemma insert_Err:
  assumes "validate_and_insert_block P now bc b = (bc', Err e)"
  shows "bc' = bc \<or> (\<exists>r. settle_tip P bc b = (bc', r))"
  using assms
  by (auto simp: validate_and_insert_block_def split: if_splits result.splits prod.splits)

lemma insert_Ok:
  assumes "validate_and_insert_block P now bc b = (bc', Ok u)"
    and "db_get (bc_db bc) (block_key (block_hash b)) = None"
  obtains bc1 ops where "check_header P bc b = Ok ()" "settle_tip P bc b = (bc1, Ok ())"
    "check_context P now bc1 b = Ok ()" "block_batch P bc1 b = Ok ops"
    "bc' = bc1\<lparr>bc_db := put_batch (bc_db bc1) ops, chain_tip := Some (block_hash b),
       bc_difficulty := difficulty (header b)\<rparr>"
  using assms
  by (auto simp: validate_and_insert_block_def res_simps split: if_splits result.splits prod.splits)

text \<open>
  C6. A refused block changes nothing but the tip pointer, and that only when the tip's block was
  missing and \<open>recover_tip\<close> ran: otherwise the whole state is as before.
\<close>

theorem rejected_block_harmless:
  assumes "validate_and_insert_block P now bc b = (bc', Err e)"
  shows "(k \<noteq> tip_key \<longrightarrow> db_get (bc_db bc') k = db_get (bc_db bc) k) \<and>
    bc_difficulty bc' = bc_difficulty bc \<and>
    ((\<forall>tip. chain_tip bc = Some tip \<longrightarrow> load_header P bc tip \<noteq> Ok None) \<longrightarrow> bc' = bc)"
proof -
  consider "bc' = bc" | r where "settle_tip P bc b = (bc', r)" using insert_Err[OF assms] by auto
  then show ?thesis
  proof cases
    case 2
    then show ?thesis using settle_tip_other[OF 2] settle_tip_state[OF 2] by auto
  qed simp
qed

section \<open>The batch of a block\<close>

lemma created_keys: "(k, u) \<in> set (created_utxos norm tx) \<Longrightarrow> starts_with ''u:'' k"
  by (auto simp: created_utxos_def)

lemma op_keys_put_utxos: "op_key ` set (put_utxos P us) = fst ` set us"
  by (force simp: put_utxos_def image_iff)

lemma add_outputs_keys:
  "k \<in> op_key ` set (batch (add_outputs P tx acc)) \<Longrightarrow>
   k \<in> op_key ` set (batch acc) \<or> is_ledger_key k"
  using created_keys[of k _ to_lowercase tx]
  by (auto simp: add_outputs_def is_ledger_key_def image_Un op_keys_put_utxos)

lemma find_utxo_keys:
  assumes "find_utxo P d (utxo_key i n) acc = Ok (u, acc')" "k \<in> op_key ` set (batch acc')"
  shows "k \<in> op_key ` set (batch acc) \<or> is_ledger_key k"
  using assms by (auto simp: find_utxo_def is_ledger_key_def res_simps split: option.splits)

lemma process_input_find:
  assumes "process_input P d inp (used, s, acc) = Ok (used', s', acc')"
  obtains u addr where "find_utxo P d (utxo_key (in_txid inp) (unat (in_vout inp))) acc = Ok (u, acc')"
    "address_from_pubkey_hex P (in_pubkey inp) = Ok addr" "to_lowercase addr = to_lowercase (u_to u)"
    "unat s' = unat s + unat (u_amount u)"
    "used' = utxo_key (in_txid inp) (unat (in_vout inp)) # used"
    "utxo_key (in_txid inp) (unat (in_vout inp)) \<notin> set used"
  using assms
  by (cases "address_from_pubkey_hex P (in_pubkey inp)")
    (auto simp: process_input_def Let_def res_simps u256_simps split: if_splits)

lemma process_inputs_keys:
  assumes "fold_res (process_input P d) inps (used, s, acc) = Ok (used', s', acc')"
    and "k \<in> op_key ` set (batch acc')"
  shows "k \<in> op_key ` set (batch acc) \<or> is_ledger_key k"
  using assms
proof (induction inps arbitrary: used s acc)
  case (Cons inp inps)
  then obtain u1 s1 a1 where 1: "process_input P d inp (used, s, acc) = Ok (u1, s1, a1)"
    "fold_res (process_input P d) inps (u1, s1, a1) = Ok (used', s', acc')"
    by (auto simp: res_simps)
  from 1(1) obtain u where "find_utxo P d (utxo_key (in_txid inp) (unat (in_vout inp))) acc = Ok (u, a1)"
    by (rule process_input_find)
  with Cons.IH[OF 1(2) Cons.prems(2)] show ?case using find_utxo_keys by blast
qed simp

lemma process_tx_Ok:
  assumes "process_tx P d tx acc = Ok acc'"
  obtains used s acc1 fee where
    "check_signed P tx = Ok ()"
    "fold_res (process_input P d) (inputs tx) ([], 0, acc) = Ok (used, s, acc1)"
    "unat s = sum_list (map (unat \<circ> out_amount) (outputs tx)) + unat fee"
    "\<not> fee < calculate_min_fee (blob_len P (enc_tx P tx))"
    "acc' = add_outputs P tx (acc1\<lparr>total_fees := total_fees acc1 + fee\<rparr>)"
    "unat (total_fees acc1 + fee) = unat (total_fees acc1) + unat fee"
proof -
  from assms obtain used s acc1 fee osum fees where 1: "check_signed P tx = Ok ()"
    "fold_res (process_input P d) (inputs tx) ([], 0, acc) = Ok (used, s, acc1)"
    "u256_sum (map out_amount (outputs tx)) = Some osum" "u256_sub s osum = Some fee"
    "u256_add (total_fees acc1) fee = Some fees"
    "\<not> fee < calculate_min_fee (blob_len P (enc_tx P tx))"
    "acc' = add_outputs P tx (acc1\<lparr>total_fees := fees\<rparr>)"
    by (auto simp: process_tx_def res_simps split: if_splits)
  moreover have "fees = total_fees acc1 + fee" using 1(5) by (auto simp: u256_add_def split: if_splits)
  ultimately show thesis by (intro that) (auto simp: u256_simps)
qed

lemma process_txs_keys:
  assumes "fold_res (process_tx P d) txs acc = Ok acc'" "k \<in> op_key ` set (batch acc')"
  shows "k \<in> op_key ` set (batch acc) \<or> is_ledger_key k"
  using assms
proof (induction txs arbitrary: acc)
  case (Cons tx txs)
  then obtain a1 where 1: "process_tx P d tx acc = Ok a1" "fold_res (process_tx P d) txs a1 = Ok acc'"
    by (auto simp: res_simps)
  from 1(1) obtain used s a2 fee where
    2: "fold_res (process_input P d) (inputs tx) ([], 0, acc) = Ok (used, s, a2)"
    "a1 = add_outputs P tx (a2\<lparr>total_fees := total_fees a2 + fee\<rparr>)" by (rule process_tx_Ok)
  show ?case
    using Cons.IH[OF 1(2) Cons.prems(2)] 2 add_outputs_keys process_inputs_keys[OF 2(1)] by fastforce
qed simp

lemma block_batch_Ok:
  assumes "block_batch P bc b = Ok ops"
  obtains cb rest acc where "transactions b = cb # rest" "inputs cb = []"
    "fold_res (process_tx P (bc_db bc)) rest
       (add_outputs P cb \<lparr>batch = [], total_fees = 0, block_utxos = Map.empty\<rparr>) = Ok acc"
    "sum_list (map (unat \<circ> out_amount) (outputs cb)) \<le>
       unat (get_block_reward bc (index (header b))) + unat (total_fees acc)"
    "ops = batch acc @ [Put (block_key (block_hash b)) (enc_block P b),
       Put (index_key (unat (index (header b)))) (as_bytes P (block_hash b)),
       Put tip_key (as_bytes P (block_hash b))]"
  using assms
  by (auto simp: block_batch_def process_coinbase_def res_simps u256_simps word_less_nat_alt
      split: list.splits if_splits)

lemma block_batch_keys:
  assumes "block_batch P bc b = Ok ops" "\<not> is_ledger_key k"
    "k \<notin> {block_key (block_hash b), index_key (unat (index (header b))), tip_key}"
  shows "k \<notin> op_key ` set ops"
proof
  assume k: "k \<in> op_key ` set ops"
  from assms(1) obtain cb rest acc where 1: "fold_res (process_tx P (bc_db bc)) rest
       (add_outputs P cb \<lparr>batch = [], total_fees = 0, block_utxos = Map.empty\<rparr>) = Ok acc"
    "ops = batch acc @ [Put (block_key (block_hash b)) (enc_block P b),
       Put (index_key (unat (index (header b)))) (as_bytes P (block_hash b)),
       Put tip_key (as_bytes P (block_hash b))]" by (rule block_batch_Ok)
  have "k \<in> op_key ` set (batch acc)" using k assms(3) 1(2) by auto
  from process_txs_keys[OF 1(1) this] show False using assms(2) add_outputs_keys by fastforce
qed

section \<open>The ledger records of a batch\<close>

lemma records_Cons:
  "tx_records P (tx # txs) k =
     (case tx_records P txs k of Some v \<Rightarrow> Some v | None \<Rightarrow> if k = tx_key (txid tx) then Some (enc_tx P tx) else None)"
  "utxo_records (tx # txs) k =
     (case utxo_records txs k of Some u \<Rightarrow> Some u | None \<Rightarrow> map_of (rev (created_utxos to_lowercase tx)) k)"
  by (simp_all add: tx_records_def utxo_records_def map_add_def split: option.splits)

lemma utxo_records_None: "utxo_records txs k = None \<longleftrightarrow> k \<notin> set (created_keys_of txs)"
  by (induction txs) (auto simp: records_Cons created_keys_of_def map_of_eq_None_iff split: option.splits, auto simp: utxo_records_def)

lemma put_utxos_view:
  "batch_view (put_utxos P us) m k = (case map_of (rev us) k of Some u \<Rightarrow> Some (enc_utxo P u) | None \<Rightarrow> m k)"
  by (induction us arbitrary: m) (auto simp: put_utxos_def map_add_def split: option.splits)

lemma fold_upd_view: "fold (\<lambda>(k, u) m. m(k \<mapsto> u)) us m k = (case map_of (rev us) k of Some u \<Rightarrow> Some u | None \<Rightarrow> m k)"
  by (induction us arbitrary: m) (auto simp: map_add_def split: option.splits)

lemma deletes_view: "batch_view (map Delete ks) m k = (if k \<in> set ks then None else m k)"
  by (induction ks arbitrary: m) auto

lemma add_outputs_view:
  assumes "batch_view (batch acc) m = v"
  shows "starts_with ''t:'' k \<Longrightarrow> batch_view (batch (add_outputs P tx acc)) m k =
      (if k = tx_key (txid tx) then Some (enc_tx P tx) else v k)"
    and "starts_with ''u:'' k \<Longrightarrow> batch_view (batch (add_outputs P tx acc)) m k =
      (case map_of (rev (created_utxos to_lowercase tx)) k of Some u \<Rightarrow> Some (enc_utxo P u) | None \<Rightarrow> v k)"
    and "block_utxos (add_outputs P tx acc) k =
      (case map_of (rev (created_utxos to_lowercase tx)) k of Some u \<Rightarrow> Some u | None \<Rightarrow> block_utxos acc k)"
proof -
  have "map_of (rev (created_utxos to_lowercase tx)) k = None" if "starts_with ''t:'' k"
  proof (rule ccontr)
    assume "map_of (rev (created_utxos to_lowercase tx)) k \<noteq> None"
    then obtain u where "(k, u) \<in> set (created_utxos to_lowercase tx)" by (auto dest: map_of_SomeD)
    then have "starts_with ''u:'' k" by (rule created_keys)
    with that show False by (auto simp: starts_with_def)
  qed
  then show "starts_with ''t:'' k \<Longrightarrow> batch_view (batch (add_outputs P tx acc)) m k =
      (if k = tx_key (txid tx) then Some (enc_tx P tx) else v k)"
    by (simp add: add_outputs_def put_utxos_view assms)
  show "starts_with ''u:'' k \<Longrightarrow> batch_view (batch (add_outputs P tx acc)) m k =
      (case map_of (rev (created_utxos to_lowercase tx)) k of Some u \<Rightarrow> Some (enc_utxo P u) | None \<Rightarrow> v k)"
    by (auto simp: add_outputs_def put_utxos_view assms split: option.splits)
  show "block_utxos (add_outputs P tx acc) k =
      (case map_of (rev (created_utxos to_lowercase tx)) k of Some u \<Rightarrow> Some u | None \<Rightarrow> block_utxos acc k)"
    by (simp add: add_outputs_def fold_upd_view)
qed

text \<open>What the inputs of one transaction do: stored outputs are deleted, pending ones are taken out.\<close>

lemma process_inputs_effect:
  assumes "fold_res (process_input P d) inps (used, s, acc) = Ok (used', s', acc')"
  shows "distinct (map input_key inps) \<and> set (map input_key inps) \<inter> set used = {} \<and>
    batch acc' = batch acc @ map Delete (filter (\<lambda>k. block_utxos acc k = None) (map input_key inps)) \<and>
    block_utxos acc' = block_utxos acc |` (- set (map input_key inps))"
  using assms
proof (induction inps arbitrary: used s acc)
  case (Cons inp inps)
  then obtain u1 s1 a1 where 1: "process_input P d inp (used, s, acc) = Ok (u1, s1, a1)"
    "fold_res (process_input P d) inps (u1, s1, a1) = Ok (used', s', acc')"
    by (auto simp: res_simps)
  from 1(1) obtain u where u: "find_utxo P d (input_key inp) acc = Ok (u, a1)" "u1 = input_key inp # used"
    "input_key inp \<notin> set used"
    unfolding input_key_def by (rule process_input_find)
  have a1: "batch a1 = batch acc @ map Delete (filter (\<lambda>k. block_utxos acc k = None) [input_key inp])"
    "block_utxos a1 = block_utxos acc |` (- {input_key inp})"
    using u(1) by (auto simp: find_utxo_def res_simps restrict_map_def fun_eq_iff split: option.splits)
  note IH = Cons.IH[OF 1(2)]
  have n: "input_key inp \<notin> set (map input_key inps)" using IH u(2) by auto
  then have "filter (\<lambda>k. block_utxos a1 k = None) (map input_key inps) =
      filter (\<lambda>k. block_utxos acc k = None) (map input_key inps)"
    unfolding a1 by (intro filter_cong refl) (metis ComplI restrict_in singletonD)
  then show ?case using IH n u(2,3) by (auto simp: a1 restrict_map_def fun_eq_iff)
qed auto

text \<open>
  The records after the transactions of a block. An output created in the block and spent in it is
  taken from the pending outputs; it is exact unless an output both created and spent in the block
  is spent a second time.
\<close>

lemma process_txs_view:
  assumes "fold_res (process_tx P d) txs acc = Ok acc'"
  shows "starts_with ''t:'' k \<Longrightarrow> batch_view (batch acc') m k =
      (case tx_records P txs k of Some v \<Rightarrow> Some v | None \<Rightarrow> batch_view (batch acc) m k)"
    and "starts_with ''u:'' k \<Longrightarrow>
      k \<notin> set (spent_keys txs) \<or> (k \<notin> set (created_keys_of txs) \<and> block_utxos acc k = None) \<or>
        distinct (spent_keys txs) \<Longrightarrow>
      batch_view (batch acc') m k =
        (case utxo_records txs k of
           Some u \<Rightarrow> Some (enc_utxo P u)
         | None \<Rightarrow> if k \<in> set (spent_keys txs) \<and> block_utxos acc k = None then None
                   else batch_view (batch acc) m k)"
  using assms
proof (induction txs arbitrary: acc)
  case Nil
  { case 1 then show ?case by (simp add: tx_records_def) }
  { case 2 then show ?case by (simp add: utxo_records_def spent_keys_def) }
next
  case (Cons tx txs)
  { case 1
    then obtain a1 where r: "process_tx P d tx acc = Ok a1" "fold_res (process_tx P d) txs a1 = Ok acc'"
      by (auto simp: res_simps)
    from r(1) obtain used s a2 fee where
      2: "fold_res (process_input P d) (inputs tx) ([], 0, acc) = Ok (used, s, a2)"
      "a1 = add_outputs P tx (a2\<lparr>total_fees := total_fees a2 + fee\<rparr>)" by (rule process_tx_Ok)
    have d: "batch_view (batch a2) m k = batch_view (batch acc) m k"
      using process_inputs_effect[OF 2(1)] 1(1) by (auto simp: deletes_view input_key_def)
    show ?case
      using Cons.IH(1)[OF 1(1) r(2)] d 1(1) unfolding 2(2)
      by (auto simp: records_Cons add_outputs_view(1)[OF refl] split: option.splits)
  }
  { case 2
    then obtain a1 where r: "process_tx P d tx acc = Ok a1" "fold_res (process_tx P d) txs a1 = Ok acc'"
      by (auto simp: res_simps)
    from r(1) obtain used s a2 fee where
      3: "fold_res (process_input P d) (inputs tx) ([], 0, acc) = Ok (used, s, a2)"
      "a1 = add_outputs P tx (a2\<lparr>total_fees := total_fees a2 + fee\<rparr>)" by (rule process_tx_Ok)
    note e = process_inputs_effect[OF 3(1)]
    have v: "batch_view (batch a1) m k =
        (case map_of (rev (created_utxos to_lowercase tx)) k of Some u \<Rightarrow> Some (enc_utxo P u)
         | None \<Rightarrow> if k \<in> set (map input_key (inputs tx)) \<and> block_utxos acc k = None then None
                   else batch_view (batch acc) m k)"
      using e 2(1) unfolding 3(2) by (auto simp: add_outputs_view(2)[OF refl] deletes_view split: option.splits)
    have p: "block_utxos a1 k =
        (case map_of (rev (created_utxos to_lowercase tx)) k of Some u \<Rightarrow> Some u
         | None \<Rightarrow> if k \<in> set (map input_key (inputs tx)) then None else block_utxos acc k)"
      using e unfolding 3(2) by (auto simp: add_outputs_view(3)[OF refl] restrict_map_def split: option.splits)
    have s: "spent_keys (tx # txs) = map input_key (inputs tx) @ spent_keys txs"
      "k \<in> set (created_keys_of (tx # txs)) \<longleftrightarrow>
         map_of (rev (created_utxos to_lowercase tx)) k \<noteq> None \<or> k \<in> set (created_keys_of txs)"
      by (simp_all add: spent_keys_def created_keys_of_def map_of_eq_None_iff)
    have q: "k \<notin> set (spent_keys txs) \<or> (k \<notin> set (created_keys_of txs) \<and> block_utxos a1 k = None) \<or>
        distinct (spent_keys txs)"
      using 2(2) unfolding s p by (auto split: option.splits)
    show ?case
      using Cons.IH(2)[OF 2(1) q r(2)] 2(2) unfolding v p s records_Cons
      by (auto split: option.splits)
  }
qed

lemma block_batch_view:
  assumes "block_batch P bc b = Ok ops"
  shows "starts_with ''t:'' k \<Longrightarrow> batch_view ops m k =
      (case tx_records P (transactions b) k of Some v \<Rightarrow> Some v | None \<Rightarrow> m k)"
    and "starts_with ''u:'' k \<Longrightarrow>
      k \<notin> set (spent_keys (tl (transactions b))) \<or> k \<notin> set (created_keys_of (transactions b)) \<or>
        distinct (spent_keys (tl (transactions b))) \<Longrightarrow>
      batch_view ops m k =
        (case utxo_records (transactions b) k of
           Some u \<Rightarrow> Some (enc_utxo P u)
         | None \<Rightarrow> if k \<in> set (spent_keys (tl (transactions b))) then None else m k)"
proof -
  let ?e = "\<lparr>batch = [], total_fees = 0, block_utxos = Map.empty\<rparr>"
  from assms obtain cb rest acc where 1: "transactions b = cb # rest"
    "fold_res (process_tx P (bc_db bc)) rest (add_outputs P cb ?e) = Ok acc"
    "ops = batch acc @ [Put (block_key (block_hash b)) (enc_block P b),
       Put (index_key (unat (index (header b)))) (as_bytes P (block_hash b)),
       Put tip_key (as_bytes P (block_hash b))]" by (rule block_batch_Ok)
  have o: "batch_view ops m k = batch_view (batch acc) m k" if "is_ledger_key k"
    using that unfolding 1(3) by (auto simp: is_ledger_key_def)
  have z: "batch_view (batch ?e) m = m" by simp
  show "starts_with ''t:'' k \<Longrightarrow> batch_view ops m k =
      (case tx_records P (transactions b) k of Some v \<Rightarrow> Some v | None \<Rightarrow> m k)"
    using process_txs_view(1)[OF 1(2), of k m] o
    by (auto simp: 1(1) records_Cons is_ledger_key_def add_outputs_view(1)[OF z] split: option.splits)
  assume k: "starts_with ''u:'' k"
  assume "k \<notin> set (spent_keys (tl (transactions b))) \<or> k \<notin> set (created_keys_of (transactions b)) \<or>
        distinct (spent_keys (tl (transactions b)))"
  moreover have "k \<notin> set (created_keys_of rest) \<and> block_utxos (add_outputs P cb ?e) k = None"
    if "k \<notin> set (created_keys_of (transactions b))"
  proof -
    have "map_of (rev (created_utxos to_lowercase cb)) k = None"
      using that by (simp add: 1(1) created_keys_of_def map_of_eq_None_iff)
    then show ?thesis using that by (simp add: 1(1) add_outputs_view(3) created_keys_of_def)
  qed
  ultimately have "k \<notin> set (spent_keys rest) \<or> (k \<notin> set (created_keys_of rest) \<and> block_utxos (add_outputs P cb ?e) k = None) \<or>
        distinct (spent_keys rest)" by (auto simp: 1(1))
  from process_txs_view(2)[OF 1(2) k this, of m] o k
  show "batch_view ops m k =
        (case utxo_records (transactions b) k of
           Some u \<Rightarrow> Some (enc_utxo P u)
         | None \<Rightarrow> if k \<in> set (spent_keys (tl (transactions b))) then None else m k)"
    by (auto simp: 1(1) records_Cons is_ledger_key_def add_outputs_view(2)[OF z] add_outputs_view(3) split: option.splits)
qed

section \<open>Accepted blocks\<close>

text \<open>
  C5. What an accepted new block writes, record by record. The block is stored under its hash, its
  hash under its height and under \<open>tip\<close>. Every transaction is stored under its identifier, every
  output it creates under its key (where two transactions share a key, the later one), every stored
  output it spends is gone, and every other record is as before. (An output that the block both
  creates and spends stays stored, as \<open>chained_spend_survives\<close> shows; the equation for \<open>u:\<close> keys leaves
  out only such outputs in a block that spends one output twice, \<open>double_spend_accepted\<close>.) The in-memory tip and
  difficulty follow, the next height is one more, and reopening the database with
  \<open>Blockchain::new\<close> finds the same tip and difficulty.
\<close>

theorem accepted_block_effect:
  assumes "codec_ok P" "validate_and_insert_block P now bc b = (bc', Ok ())"
    and "db_get (bc_db bc) (block_key (block_hash b)) = None"
  shows "load_block P bc' (block_hash b) = Ok (Some b) \<and>
    db_get (bc_db bc') (index_key (unat (index (header b)))) = Some (as_bytes P (block_hash b)) \<and>
    chain_tip bc' = Some (block_hash b) \<and> bc_difficulty bc' = difficulty (header b) \<and>
    get_next_index P bc' = Ok (index (header b) + 1) \<and>
    (\<exists>bc2. blockchain_new P (bc_db bc') = Ok bc2 \<and> bc_db bc2 = bc_db bc' \<and> chain_tip bc2 = chain_tip bc' \<and>
       bc_difficulty bc2 = bc_difficulty bc') \<and>
    (starts_with ''t:'' k \<longrightarrow> db_get (bc_db bc') k =
       (case tx_records P (transactions b) k of Some v \<Rightarrow> Some v | None \<Rightarrow> db_get (bc_db bc) k)) \<and>
    (starts_with ''u:'' k \<longrightarrow>
       k \<notin> set (spent_keys (tl (transactions b))) \<or> k \<notin> set (created_keys_of (transactions b)) \<or>
         distinct (spent_keys (tl (transactions b))) \<longrightarrow>
       db_get (bc_db bc') k =
         (case utxo_records (transactions b) k of
            Some u \<Rightarrow> Some (enc_utxo P u)
          | None \<Rightarrow> if k \<in> set (spent_keys (tl (transactions b))) then None else db_get (bc_db bc) k)) \<and>
    (\<not> is_ledger_key k \<longrightarrow>
       k \<notin> {block_key (block_hash b), index_key (unat (index (header b))), tip_key} \<longrightarrow>
       db_get (bc_db bc') k = db_get (bc_db bc) k)"
proof -
  obtain bc1 ops where 1: "settle_tip P bc b = (bc1, Ok ())" "block_batch P bc1 b = Ok ops"
    "bc' = bc1\<lparr>bc_db := put_batch (bc_db bc1) ops, chain_tip := Some (block_hash b),
       bc_difficulty := difficulty (header b)\<rparr>"
    using insert_Ok[OF assms(2,3)] by metis
  have tail: "batch_view ops m (block_key (block_hash b)) = Some (enc_block P b)"
    "batch_view ops m (index_key (unat (index (header b)))) = Some (as_bytes P (block_hash b))"
    "batch_view ops m tip_key = Some (as_bytes P (block_hash b))" for m
    by (rule block_batch_Ok[OF 1(2)], simp)+
  have "db_get (bc_db bc') k = db_get (bc_db bc) k"
    if "\<not> is_ledger_key k" "k \<notin> {block_key (block_hash b), index_key (unat (index (header b))), tip_key}"
    using block_batch_keys[OF 1(2) that] that settle_tip_other(1)[OF 1(1), of k] 1(3)
    by (simp add: batch_view_untouched)
  moreover have "db_get (bc_db bc1) k = db_get (bc_db bc) k" if "starts_with ''t:'' k \<or> starts_with ''u:'' k"
    using that by (intro settle_tip_other(1)[OF 1(1)]) (auto simp: tip_key_def starts_with_def)
  then have "starts_with ''t:'' k \<Longrightarrow> db_get (bc_db bc') k =
      (case tx_records P (transactions b) k of Some v \<Rightarrow> Some v | None \<Rightarrow> db_get (bc_db bc) k)"
    and "starts_with ''u:'' k \<Longrightarrow>
      k \<notin> set (spent_keys (tl (transactions b))) \<or> k \<notin> set (created_keys_of (transactions b)) \<or>
        distinct (spent_keys (tl (transactions b))) \<Longrightarrow> db_get (bc_db bc') k =
      (case utxo_records (transactions b) k of
         Some u \<Rightarrow> Some (enc_utxo P u)
       | None \<Rightarrow> if k \<in> set (spent_keys (tl (transactions b))) then None else db_get (bc_db bc) k)"
    using block_batch_view[OF 1(2), of k "db_get (bc_db bc1)"] by (simp_all add: 1(3) cong: option.case_cong)
  moreover have "load_block P bc' (block_hash b) = Ok (Some b)" "get_next_index P bc' = Ok (index (header b) + 1)"
    "\<exists>bc2. blockchain_new P (bc_db bc') = Ok bc2 \<and> bc_db bc2 = bc_db bc' \<and> chain_tip bc2 = chain_tip bc' \<and>
       bc_difficulty bc2 = bc_difficulty bc'"
    using assms(1) tail 1(3) by (auto simp: load_block_def load_header_def get_next_index_def blockchain_new_def)
  ultimately show ?thesis using tail 1(3) by simp
qed

text \<open>
  C3. The header facts every accepted new block satisfies: its hash is the hash of its header and,
  read as a number, below the target its bits stand for; the bits are the ones the retarget
  computes; its parent is stored and is the chain tip (unless there is no tip yet); its timestamp
  is not too far ahead and its Merkle root commits to its transactions.
\<close>

theorem accepted_block_header:
  assumes "validate_and_insert_block P now bc b = (bc', Ok ())"
    and "db_get (bc_db bc) (block_key (block_hash b)) = None"
    and "index (header b) > 0" "chain_tip bc = Some tip" "load_header P bc tip \<noteq> Ok None"
  shows "block_hash b = compute_header_hash P (header b) \<and>
    (\<exists>x. hash_to_u256 P (block_hash b) = Ok x \<and> unat x < unat (compact_to_target (difficulty (header b)))) \<and>
    calculate_adjusted_difficulty P bc (index (header b)) = Ok (difficulty (header b)) \<and>
    previous_hash (header b) = tip \<and> db_get (bc_db bc) (block_key tip) \<noteq> None \<and>
    timestamp (header b) \<le> i64 (now + max_future_block_time bc) \<and>
    merkle_root (header b) = compute_merkle_root P (map txid (transactions b)) \<and>
    validate_median_time_past P bc b = Ok () \<and> check_progression P bc b = Ok ()"
proof -
  obtain bc1 ops where 1: "check_header P bc b = Ok ()" "settle_tip P bc b = (bc1, Ok ())"
    "check_context P now bc1 b = Ok ()"
    using insert_Ok[OF assms(1,2)] by metis
  have bc1: "bc1 = bc" using settle_tip_state[OF 1(2)] assms(4,5) by auto
  have tip: "tip = previous_hash (header b)" using settle_tip_Ok[OF 1(2) assms(3)] assms(4) bc1 by auto
  have pow: "\<exists>x. hash_to_u256 P h = Ok x \<and> unat x < unat (compact_to_target d)"
    if "is_valid_pow P h d = Ok True" for h d
    using that by (auto simp: is_valid_pow_def Let_def res_simps word_less_nat_alt split: if_splits)
  show ?thesis
    using 1(1,3) assms(3) pow unfolding bc1 tip
    by (auto simp: check_header_def check_context_def res_simps Let_def)
qed

text \<open>The ordinary spend of the samples, and a copy of it whose reward is refused.\<close>

theorem accepted_block_effect_witness:
  "\<exists>bc'. validate_and_insert_block ref_prims 2000 sample_chain spend_block = (bc', Ok ()) \<and>
    load_block ref_prims bc' (block_hash spend_block) = Ok (Some spend_block) \<and>
    db_get (bc_db bc') (utxo_key ''aa'' 0) = None"
proof -
  obtain bc' where 1: "validate_and_insert_block ref_prims 2000 sample_chain spend_block = (bc', Ok ())"
    using spend_accepted by blast
  have "db_get (bc_db sample_chain) (block_key (block_hash spend_block)) = None"
    unfolding spend_block_def by (rule sample_not_stored)
  note eff = accepted_block_effect[OF _ 1 this]
  have "utxo_records (transactions spend_block) (utxo_key ''aa'' 0) = None"
    "utxo_key ''aa'' 0 \<in> set (spent_keys (tl (transactions spend_block)))"
    "utxo_key ''aa'' 0 \<notin> set (created_keys_of (transactions spend_block))"
    by (simp_all add: utxo_records_def spend_block_def spent_keys_def created_keys_of_def input_key_def sample_created)
  then show ?thesis using 1 eff[of "block_key (block_hash spend_block)"] eff[of "utxo_key ''aa'' 0"] by simp
qed

theorem accepted_block_header_witness:
  "\<exists>bc'. validate_and_insert_block ref_prims 2000 sample_chain spend_block = (bc', Ok ()) \<and>
    previous_hash (header spend_block) = ''g''"
proof -
  obtain bc' where 1: "validate_and_insert_block ref_prims 2000 sample_chain spend_block = (bc', Ok ())"
    using spend_accepted by blast
  have 2: "db_get (bc_db sample_chain) (block_key (block_hash spend_block)) = None"
    unfolding spend_block_def by (rule sample_not_stored)
  have "index (header spend_block) > 0" by (simp add: spend_block_def)
  from accepted_block_header[OF 1 2 this sample_db(5)] sample_load 1 show ?thesis by auto
qed

theorem rejected_block_harmless_witness:
  "validate_and_insert_block ref_prims 2000 sample_chain (sample_block 1 []) = (sample_chain, Err NoTxs)"
proof -
  have b: "block_batch ref_prims sample_chain (sample_block 1 []) = Err NoTxs"
    by (simp add: block_batch_def)
  have 1: "snd (validate_and_insert_block ref_prims 2000 sample_chain (sample_block 1 [])) = Err NoTxs"
    unfolding validate_and_insert_block_def sample_not_stored
    using sample_check_header[of 1 "[]"] sample_settle[of 1 "[]"] sample_check_context[of 1 "[]"] b by simp
  then obtain bc' where 2: "validate_and_insert_block ref_prims 2000 sample_chain (sample_block 1 []) = (bc', Err NoTxs)"
    by (metis prod.collapse)
  from rejected_block_harmless[OF 2] sample_load sample_db(5) 2 show ?thesis by auto
qed

section \<open>Accepted transactions\<close>

lemma find_utxo_source:
  assumes "find_utxo P d (input_key inp) acc = Ok (u, acc')"
    and "\<And>k u. block_utxos acc k = Some u \<Longrightarrow> (k, u) \<in> set (concat (map (created_utxos to_lowercase) earlier))"
  shows "spends_from P d earlier inp u"
    and "block_utxos acc' k = Some u' \<Longrightarrow> block_utxos acc k = Some u'"
  using assms(1) assms(2)[of "input_key inp"]
  by (auto simp: find_utxo_def spends_from_def res_simps split: option.splits if_splits)

lemma process_inputs_sound:
  assumes "fold_res (process_input P d) inps (used, s, acc) = Ok (used', s', acc')"
    and "\<And>k u. block_utxos acc k = Some u \<Longrightarrow> (k, u) \<in> set (concat (map (created_utxos to_lowercase) earlier))"
    and "distinct used" "\<And>inp. inp \<in> set inps \<Longrightarrow> input_signed P (serialize_for_hash P tx) inp"
  shows "(\<exists>us. list_all2 (\<lambda>inp u. spends_from P d earlier inp u \<and> authorised P tx inp u) inps us \<and>
      unat s' = unat s + sum_list (map (unat \<circ> u_amount) us)) \<and>
    distinct used' \<and> used' = rev (map input_key inps) @ used \<and>
    (\<forall>k u. block_utxos acc' k = Some u \<longrightarrow> block_utxos acc k = Some u)"
  using assms
proof (induction inps arbitrary: used s acc)
  case (Cons inp inps)
  then obtain u1 s1 a1 where 1: "process_input P d inp (used, s, acc) = Ok (u1, s1, a1)"
    "fold_res (process_input P d) inps (u1, s1, a1) = Ok (used', s', acc')"
    by (auto simp: res_simps)
  from 1(1) obtain u addr where u: "find_utxo P d (input_key inp) acc = Ok (u, a1)"
    "address_from_pubkey_hex P (in_pubkey inp) = Ok addr" "to_lowercase addr = to_lowercase (u_to u)"
    "unat s1 = unat s + unat (u_amount u)" "u1 = input_key inp # used" "input_key inp \<notin> set used"
    unfolding input_key_def by (rule process_input_find)
  note src = find_utxo_source[OF u(1) Cons.prems(2)]
  have auth: "spends_from P d earlier inp u \<and> authorised P tx inp u"
    using src(1) u(2,3) Cons.prems(4) by (auto simp: authorised_def)
  have d1: "distinct u1" using u(5,6) Cons.prems(3) by simp
  have ih: "(\<exists>us. list_all2 (\<lambda>inp u. spends_from P d earlier inp u \<and> authorised P tx inp u) inps us \<and>
      unat s' = unat s1 + sum_list (map (unat \<circ> u_amount) us)) \<and>
    distinct used' \<and> used' = rev (map input_key inps) @ u1 \<and>
    (\<forall>k u. block_utxos acc' k = Some u \<longrightarrow> block_utxos a1 k = Some u)"
    by (rule Cons.IH[OF 1(2) _ d1]) (use src(2) Cons.prems(2,4) in auto)
  then obtain us where us: "list_all2 (\<lambda>inp u. spends_from P d earlier inp u \<and> authorised P tx inp u) inps us"
    "unat s' = unat s1 + sum_list (map (unat \<circ> u_amount) us)" by blast
  have "list_all2 (\<lambda>inp u. spends_from P d earlier inp u \<and> authorised P tx inp u) (inp # inps) (u # us)"
    "unat s' = unat s + sum_list (map (unat \<circ> u_amount) (u # us))" using us auth u(4) by simp_all
  then have ex: "\<exists>us. list_all2 (\<lambda>inp u. spends_from P d earlier inp u \<and> authorised P tx inp u) (inp # inps) us \<and>
      unat s' = unat s + sum_list (map (unat \<circ> u_amount) us)" by blast
  have "distinct used' \<and> used' = rev (map input_key (inp # inps)) @ used \<and>
    (\<forall>k u. block_utxos acc' k = Some u \<longrightarrow> block_utxos acc k = Some u)"
    using conjunct2[OF ih] u(5) src(2) by (elim conjE, intro conjI) simp_all
  with ex show ?case by (rule conjI)
qed auto

lemma add_outputs_pending:
  "block_utxos (add_outputs P tx acc) k = Some u \<Longrightarrow>
   block_utxos acc k = Some u \<or> (k, u) \<in> set (created_utxos to_lowercase tx)"
proof -
  have "fold (\<lambda>(k, u) m. m(k \<mapsto> u)) us m k = Some u \<Longrightarrow> m k = Some u \<or> (k, u) \<in> set us"
    for us and m :: "string \<rightharpoonup> utxo"
  proof (induction us arbitrary: m)
    case (Cons p us)
    then show ?case using Cons.IH[of "m(fst p \<mapsto> snd p)"] by (cases p) (auto split: if_splits)
  qed simp
  then show "block_utxos (add_outputs P tx acc) k = Some u \<Longrightarrow>
     block_utxos acc k = Some u \<or> (k, u) \<in> set (created_utxos to_lowercase tx)"
    by (auto simp: add_outputs_def)
qed

lemma process_tx_sound:
  assumes "process_tx P d tx acc = Ok acc'"
    and "\<And>k u. block_utxos acc k = Some u \<Longrightarrow> (k, u) \<in> set (concat (map (created_utxos to_lowercase) earlier))"
  shows "\<exists>us fee. list_all2 (\<lambda>inp u. spends_from P d earlier inp u \<and> authorised P tx inp u) (inputs tx) us \<and>
      distinct (map input_key (inputs tx)) \<and>
      sum_list (map (unat \<circ> u_amount) us) = output_total tx + fee \<and>
      unat (calculate_min_fee (blob_len P (enc_tx P tx))) \<le> fee"
    and "block_utxos acc' k = Some u \<Longrightarrow> (k, u) \<in> set (concat (map (created_utxos to_lowercase) (earlier @ [tx])))"
proof -
  from assms(1) obtain used s a1 fee where 1: "check_signed P tx = Ok ()"
    "fold_res (process_input P d) (inputs tx) ([], 0, acc) = Ok (used, s, a1)"
    "unat s = sum_list (map (unat \<circ> out_amount) (outputs tx)) + unat fee"
    "\<not> fee < calculate_min_fee (blob_len P (enc_tx P tx))"
    "acc' = add_outputs P tx (a1\<lparr>total_fees := total_fees a1 + fee\<rparr>)" by (rule process_tx_Ok)
  have sg: "verify_signatures P tx = Ok True"
    using 1(1) by (cases "verify_signatures P tx") (auto simp: check_signed_def res_simps)
  note 2 = process_inputs_sound[OF 1(2) assms(2), of tx, OF _ distinct.simps(1)[THEN iffD2]]
  from 2 sg obtain us where us: "list_all2 (\<lambda>inp u. spends_from P d earlier inp u \<and> authorised P tx inp u) (inputs tx) us"
    "unat s = sum_list (map (unat \<circ> u_amount) us)" "distinct (map input_key (inputs tx))"
    by (auto simp: verify_signatures_True_iff)
  then show "\<exists>us fee. list_all2 (\<lambda>inp u. spends_from P d earlier inp u \<and> authorised P tx inp u) (inputs tx) us \<and>
      distinct (map input_key (inputs tx)) \<and>
      sum_list (map (unat \<circ> u_amount) us) = output_total tx + fee \<and>
      unat (calculate_min_fee (blob_len P (enc_tx P tx))) \<le> fee"
    using 1(3,4) by (intro exI[of _ us] exI[of _ "unat fee"]) (simp add: output_total_def word_less_nat_alt)
  show "block_utxos acc' k = Some u \<Longrightarrow> (k, u) \<in> set (concat (map (created_utxos to_lowercase) (earlier @ [tx])))"
    using add_outputs_pending[of P tx "a1\<lparr>total_fees := total_fees a1 + fee\<rparr>" k u] 1(5) 2 sg assms(2)
    by (auto simp: verify_signatures_True_iff)
qed

lemma process_txs_pending:
  assumes "fold_res (process_tx P d) txs acc = Ok acc'"
    and "\<And>k u. block_utxos acc k = Some u \<Longrightarrow> (k, u) \<in> set (concat (map (created_utxos to_lowercase) earlier))"
    and "block_utxos acc' k = Some u"
  shows "(k, u) \<in> set (concat (map (created_utxos to_lowercase) (earlier @ txs)))"
  using assms
proof (induction txs arbitrary: acc earlier)
  case (Cons tx txs)
  then obtain a1 where 1: "process_tx P d tx acc = Ok a1" "fold_res (process_tx P d) txs a1 = Ok acc'"
    by (auto simp: res_simps)
  show ?case using Cons.IH[OF 1(2) process_tx_sound(2)[OF 1(1) Cons.prems(2)] Cons.prems(3)] by simp
qed simp

text \<open>
  C2. Every transaction after the coinbase of an accepted block is paid for and authorised: each
  input names a different output, which is stored or was created earlier in the block, and is
  signed under a key whose address owns it; what the inputs bring is exactly the outputs plus a
  fee of at least the minimum.
\<close>

theorem accepted_tx_sound:
  assumes "validate_and_insert_block P now bc b = (bc', Ok ())"
    and "db_get (bc_db bc) (block_key (block_hash b)) = None"
    and "transactions b = pre @ tx # post" "pre \<noteq> []"
  shows "\<exists>us fee. list_all2 (\<lambda>inp u. spends_from P (bc_db bc) pre inp u \<and> authorised P tx inp u) (inputs tx) us \<and>
      distinct (map input_key (inputs tx)) \<and>
      sum_list (map (unat \<circ> u_amount) us) = output_total tx + fee \<and>
      unat (calculate_min_fee (blob_len P (enc_tx P tx))) \<le> fee"
proof -
  obtain bc1 ops where 1: "settle_tip P bc b = (bc1, Ok ())" "block_batch P bc1 b = Ok ops"
    using insert_Ok[OF assms(1,2)] by metis
  let ?acc0 = "\<lambda>cb. add_outputs P cb \<lparr>batch = [], total_fees = 0, block_utxos = Map.empty\<rparr>"
  from 1(2) obtain cb rest acc where 2: "transactions b = cb # rest"
    "fold_res (process_tx P (bc_db bc1)) rest (?acc0 cb) = Ok acc" by (rule block_batch_Ok)
  obtain pre' where pre: "pre = cb # pre'" "rest = pre' @ tx # post"
    using assms(3,4) 2(1) by (cases pre) auto
  obtain a1 a2 where a: "fold_res (process_tx P (bc_db bc1)) pre' (?acc0 cb) = Ok a1"
    "process_tx P (bc_db bc1) tx a1 = Ok a2"
    using 2(2) unfolding pre(2) by (auto simp: fold_res_append res_simps)
  have p0: "(k, u) \<in> set (concat (map (created_utxos to_lowercase) [cb]))"
    if "block_utxos (?acc0 cb) k = Some u" for k u
    using add_outputs_pending[OF that] by simp
  have p1: "(k, u) \<in> set (concat (map (created_utxos to_lowercase) pre))" if "block_utxos a1 k = Some u" for k u
    using process_txs_pending[OF a(1) p0 that] pre(1) by simp
  have "spends_from P (bc_db bc1) pre = spends_from P (bc_db bc) pre"
    using settle_tip_other(1)[OF 1(1)] by (intro ext) (simp add: spends_from_def input_key_def)
  then show ?thesis using process_tx_sound(1)[OF a(2) p1] by simp
qed

theorem accepted_tx_sound_witness:
  "let tx = sample_spend ''b1'' ''aa'' 900000000000000000 in
   \<exists>us fee. list_all2 (\<lambda>inp u. spends_from ref_prims (bc_db sample_chain) [sample_coinbase ''c0'' 8000000000000000000] inp u \<and>
        authorised ref_prims tx inp u) (inputs tx) us \<and>
      sum_list (map (unat \<circ> u_amount) us) = output_total tx + fee"
proof -
  let ?tx = "sample_spend ''b1'' ''aa'' 900000000000000000"
  obtain bc' where 1: "validate_and_insert_block ref_prims 2000 sample_chain spend_block = (bc', Ok ())"
    using spend_accepted by blast
  have 2: "db_get (bc_db sample_chain) (block_key (block_hash spend_block)) = None"
    unfolding spend_block_def by (rule sample_not_stored)
  have "transactions spend_block = [sample_coinbase ''c0'' 8000000000000000000] @ ?tx # []"
    by (simp add: spend_block_def)
  from accepted_tx_sound[OF 1 2 this] show ?thesis unfolding Let_def by blast
qed

section \<open>Fork blocks\<close>

text \<open>
  Storing a fork block touches neither the unspent outputs nor the height index nor the tip:
  only the block's own record and the \<open>t:\<close> records of its transactions can change, and nothing at
  all changes when the block is refused.
\<close>

theorem fork_block_isolated:
  assumes "validate_fork_block P now bc b = (bc', r)"
  shows "chain_tip bc' = chain_tip bc \<and> bc_difficulty bc' = bc_difficulty bc \<and>
    (r \<noteq> Ok () \<longrightarrow> bc' = bc) \<and>
    (k \<noteq> block_key (block_hash b) \<longrightarrow> \<not> starts_with ''t:'' k \<longrightarrow> db_get (bc_db bc') k = db_get (bc_db bc) k)"
proof -
  have "batch_view (map (\<lambda>tx. Put (tx_key (txid tx)) (enc_tx P tx)) txs) m k = m k"
    if "\<not> starts_with ''t:'' k" for txs m
    using that by (intro batch_view_untouched) auto
  then show ?thesis
    using assms by (auto simp: validate_fork_block_def split: result.splits)
qed

text \<open>The checks of a fork block are those of a block on the tip, less the comparison with the tip.\<close>

lemma fork_block_checks:
  "snd (validate_fork_block P now bc b) = Ok () \<longleftrightarrow>
   check_header P bc b = Ok () \<and> check_context P now bc b = Ok ()"
  by (auto simp: validate_fork_block_def res_simps split: result.splits)

theorem fork_block_isolated_witness:
  "\<exists>bc'. validate_fork_block ref_prims 2000 sample_chain double_spend_block = (bc', Ok ()) \<and>
    chain_tip bc' = Some ''g'' \<and> db_get (bc_db bc') (utxo_key ''aa'' 0) = Some (SUtxo sample_utxo)"
proof -
  have "check_header ref_prims sample_chain double_spend_block = Ok ()"
    unfolding double_spend_block_def by (rule sample_check_header) simp_all
  moreover have "check_context ref_prims 2000 sample_chain double_spend_block = Ok ()"
    unfolding double_spend_block_def by (rule sample_check_context) simp
  ultimately obtain bc' where 1: "validate_fork_block ref_prims 2000 sample_chain double_spend_block = (bc', Ok ())"
    using fork_block_checks by (metis prod.collapse)
  from fork_block_isolated[OF 1, of "utxo_key ''aa'' 0"] 1 sample_db show ?thesis by simp
qed

end
