(* ===== verification/Conservation.thy ===== *)
theory Conservation
  imports Acceptance
begin

text \<open>
  What becomes of the money: the total of the unspent outputs in the database, and how the batch of
  an accepted block changes it.
\<close>

definition utxo_value :: "'v prims \<Rightarrow> string \<Rightarrow> 'v \<Rightarrow> nat" where
  "utxo_value P k v =
     (if starts_with ''u:'' k then (case dec_utxo P v of None \<Rightarrow> 0 | Some u \<Rightarrow> unat (u_amount u)) else 0)"

definition utxo_total :: "'v prims \<Rightarrow> 'v db \<Rightarrow> nat" where
  "utxo_total P d = entry_sum (utxo_value P) (db_iterator d)"

section \<open>Batches\<close>

fun put_weight :: "(string \<Rightarrow> 'v \<Rightarrow> nat) \<Rightarrow> 'v write_op list \<Rightarrow> nat" where
  "put_weight f [] = 0"
| "put_weight f (Put k v # ops) = f k v + put_weight f ops"
| "put_weight f (Delete k # ops) = put_weight f ops"

fun put_keys :: "'v write_op list \<Rightarrow> string list" where
  "put_keys [] = []"
| "put_keys (Put k v # ops) = k # put_keys ops"
| "put_keys (Delete k # ops) = put_keys ops"

fun delete_keys :: "'v write_op list \<Rightarrow> string list" where
  "delete_keys [] = []"
| "delete_keys (Put k v # ops) = delete_keys ops"
| "delete_keys (Delete k # ops) = k # delete_keys ops"

definition weight_at :: "(string \<Rightarrow> 'v \<Rightarrow> nat) \<Rightarrow> 'v db \<Rightarrow> string \<Rightarrow> nat" where
  "weight_at f d k = (case db_get d k of None \<Rightarrow> 0 | Some v \<Rightarrow> f k v)"

lemma ops_append [simp]:
  "put_weight f (xs @ ys) = put_weight f xs + put_weight f ys"
  "put_keys (xs @ ys) = put_keys xs @ put_keys ys"
  "delete_keys (xs @ ys) = delete_keys xs @ delete_keys ys"
proof -
  show "put_weight f (xs @ ys) = put_weight f xs + put_weight f ys"
    by (induction f xs rule: put_weight.induct) auto
  show "put_keys (xs @ ys) = put_keys xs @ put_keys ys" by (induction xs rule: put_keys.induct) auto
  show "delete_keys (xs @ ys) = delete_keys xs @ delete_keys ys"
    by (induction xs rule: delete_keys.induct) auto
qed

text \<open>A batch that deletes each key at most once, and none it also writes, gains no more than it puts.\<close>

lemma batch_weight:
  assumes "db_wf d" "distinct (delete_keys ops)" "set (delete_keys ops) \<inter> set (put_keys ops) = {}"
  shows "entry_sum f (db_iterator (put_batch d ops)) + sum_list (map (weight_at f d) (delete_keys ops))
    \<le> entry_sum f (db_iterator d) + put_weight f ops"
  using assms
proof (induction ops arbitrary: d)
  case (Cons x ops)
  show ?case
  proof (cases x)
    case (Put k v)
    have "sum_list (map (weight_at f (db_put k v d)) (delete_keys ops)) =
        sum_list (map (weight_at f d) (delete_keys ops))"
      using Cons.prems(3) Put by (intro arg_cong[where f = sum_list] map_cong) (auto simp: weight_at_def)
    moreover have "entry_sum f (db_iterator (db_put k v d)) \<le> entry_sum f (db_iterator d) + f k v"
      using kv.entry_sum_put[OF Cons.prems(1), of f k v] by linarith
    moreover have "db_wf (db_put k v d)" using Cons.prems(1) by (rule db_wf_put)
    ultimately show ?thesis
      using Cons.IH[of "db_put k v d"] Cons.prems Put by (simp add: put_batch_def)
  next
    case (Delete k)
    have "sum_list (map (weight_at f (db_delete k d)) (delete_keys ops)) =
        sum_list (map (weight_at f d) (delete_keys ops))"
      using Cons.prems(2) Delete by (intro arg_cong[where f = sum_list] map_cong) (auto simp: weight_at_def)
    moreover have "entry_sum f (db_iterator d) = entry_sum f (db_iterator (db_delete k d)) + weight_at f d k"
      using kv.entry_sum_delete[OF Cons.prems(1), of f k] by (simp add: weight_at_def)
    moreover have "db_wf (db_delete k d)" using Cons.prems(1) by (rule db_wf_delete)
    ultimately show ?thesis
      using Cons.IH[of "db_delete k d"] Cons.prems Delete by (simp add: put_batch_def)
  qed
qed (simp add: put_batch_def)

section \<open>The batch of a block balances\<close>

text \<open>No output is spent twice in the block, and none is spent in the block that creates it.\<close>

definition plain_spends :: "block \<Rightarrow> bool" where
  "plain_spends b \<longleftrightarrow> distinct (spent_keys (tl (transactions b))) \<and>
     set (spent_keys (tl (transactions b))) \<inter> set (created_keys_of (transactions b)) = {}"

text \<open>The invariant of the loop: the outputs put, plus the fees, are the coinbase plus what is deleted.\<close>

definition balanced :: "'v prims \<Rightarrow> 'v db \<Rightarrow> nat \<Rightarrow> 'v tx_acc \<Rightarrow> bool" where
  "balanced P d cb acc \<longleftrightarrow>
     put_weight (utxo_value P) (batch acc) + unat (total_fees acc) =
     cb + sum_list (map (weight_at (utxo_value P) d) (delete_keys (batch acc)))"

lemma find_utxo_db:
  assumes "find_utxo P d (input_key inp) acc = Ok (u, acc')" "input_key inp \<notin> dom (block_utxos acc)"
  shows "acc' = acc\<lparr>batch := batch acc @ [Delete (input_key inp)]\<rparr>"
    "weight_at (utxo_value P) d (input_key inp) = unat (u_amount u)"
proof -
  have k: "starts_with ''u:'' (input_key inp)" by (simp add: input_key_def)
  show "acc' = acc\<lparr>batch := batch acc @ [Delete (input_key inp)]\<rparr>"
    using assms by (auto simp: find_utxo_def res_simps split: option.splits)
  show "weight_at (utxo_value P) d (input_key inp) = unat (u_amount u)"
    using assms k by (auto simp: find_utxo_def res_simps weight_at_def utxo_value_def split: option.splits)
qed

lemma process_inputs_db:
  assumes "fold_res (process_input P d) inps (used, s, acc) = Ok (used', s', acc')"
    and "set (map input_key inps) \<inter> dom (block_utxos acc) = {}"
  shows "acc' = acc\<lparr>batch := batch acc @ map (Delete \<circ> input_key) inps\<rparr> \<and>
    unat s' = unat s + sum_list (map (weight_at (utxo_value P) d \<circ> input_key) inps)"
  using assms
proof (induction inps arbitrary: used s acc)
  case (Cons inp inps)
  then obtain u1 s1 a1 where 1: "process_input P d inp (used, s, acc) = Ok (u1, s1, a1)"
    "fold_res (process_input P d) inps (u1, s1, a1) = Ok (used', s', acc')"
    by (auto simp: res_simps)
  from 1(1) obtain u where u: "find_utxo P d (input_key inp) acc = Ok (u, a1)"
    "unat s1 = unat s + unat (u_amount u)"
    unfolding input_key_def by (rule process_input_find)
  have n: "input_key inp \<notin> dom (block_utxos acc)" using Cons.prems(2) by auto
  note f = find_utxo_db[OF u(1) n]
  show ?case using Cons.IH[OF 1(2)] Cons.prems(2) f u(2) by simp
qed simp

lemma map_enumerate_snd: "map (\<lambda>p. f (snd p)) (enumerate n xs) = map f xs"
  by (induction xs arbitrary: n) auto

lemma created_weight:
  assumes "codec_ok P"
  shows "put_weight (utxo_value P) (put_utxos P (created_utxos norm tx)) = output_total tx"
    "put_keys (put_utxos P (created_utxos norm tx)) = map fst (created_utxos norm tx)"
    "delete_keys (put_utxos P (created_utxos norm tx)) = []"
proof -
  have 1: "put_weight (utxo_value P) (put_utxos P us) = sum_list (map (unat \<circ> u_amount \<circ> snd) us)"
    if "\<forall>p\<in>set us. starts_with ''u:'' (fst p)" for us
    using that assms by (induction us) (auto simp: put_utxos_def utxo_value_def)
  have 2: "put_keys (put_utxos P us) = map fst us \<and> delete_keys (put_utxos P us) = []" for us
    by (induction us) (auto simp: put_utxos_def)
  have "map (unat \<circ> u_amount \<circ> snd) (created_utxos norm tx) = map (unat \<circ> out_amount) (outputs tx)"
    by (simp add: created_utxos_def case_prod_beta comp_def map_enumerate_snd[of "\<lambda>x. unat (out_amount x)"])
  moreover have "\<forall>p\<in>set (created_utxos norm tx). starts_with ''u:'' (fst p)"
    using created_keys[of _ _ norm tx] by auto
  ultimately show "put_weight (utxo_value P) (put_utxos P (created_utxos norm tx)) = output_total tx"
    using 1[of "created_utxos norm tx"] by (simp add: output_total_def)
  show "put_keys (put_utxos P (created_utxos norm tx)) = map fst (created_utxos norm tx)"
    "delete_keys (put_utxos P (created_utxos norm tx)) = []" using 2 by simp_all
qed

lemma dom_fold_upd: "dom (fold (\<lambda>(k, u) m. m(k \<mapsto> u)) us m) = dom m \<union> fst ` set us"
  by (induction us arbitrary: m) auto

lemma add_outputs_balance:
  assumes "codec_ok P"
  shows "put_weight (utxo_value P) (batch (add_outputs P tx acc)) =
      put_weight (utxo_value P) (batch acc) + output_total tx"
    "delete_keys (batch (add_outputs P tx acc)) = delete_keys (batch acc)"
    "put_keys (batch (add_outputs P tx acc)) =
       put_keys (batch acc) @ tx_key (txid tx) # map fst (created_utxos to_lowercase tx)"
    "total_fees (add_outputs P tx acc) = total_fees acc"
    "dom (block_utxos (add_outputs P tx acc)) = dom (block_utxos acc) \<union> set (created_keys_of [tx])"
  using created_weight[OF assms, of to_lowercase tx]
  by (simp_all add: add_outputs_def utxo_value_def dom_fold_upd created_keys_of_def)

text \<open>One transaction keeps the balance, and the keys it deletes are those of its inputs.\<close>

lemma process_tx_balance:
  assumes "process_tx P d tx acc = Ok acc'" "codec_ok P" "balanced P d cb acc"
    and "set (map input_key (inputs tx)) \<inter> dom (block_utxos acc) = {}"
  shows "balanced P d cb acc'"
    "delete_keys (batch acc') = delete_keys (batch acc) @ map input_key (inputs tx)"
    "put_keys (batch acc') = put_keys (batch acc) @ tx_key (txid tx) # map fst (created_utxos to_lowercase tx)"
    "dom (block_utxos acc') = dom (block_utxos acc) \<union> set (created_keys_of [tx])"
proof -
  from assms(1) obtain used s a1 fee where
    1: "fold_res (process_input P d) (inputs tx) ([], 0, acc) = Ok (used, s, a1)"
    "unat s = sum_list (map (unat \<circ> out_amount) (outputs tx)) + unat fee"
    "acc' = add_outputs P tx (a1\<lparr>total_fees := total_fees a1 + fee\<rparr>)"
    "unat (total_fees a1 + fee) = unat (total_fees a1) + unat fee" by (rule process_tx_Ok)
  have d: "delete_keys (map (Delete \<circ> input_key) xs) = map input_key xs"
    "put_keys (map (Delete \<circ> input_key) xs) = []" "put_weight g (map (Delete \<circ> input_key) xs) = 0" for xs g
    by (induction xs) auto
  note 2 = process_inputs_db[OF 1(1) assms(4)] and 3 = add_outputs_balance[OF assms(2), of tx]
  show "balanced P d cb acc'"
    using assms(3) 1(2,4) 2 unfolding balanced_def 1(3) by (simp add: 3 d[unfolded comp_def] output_total_def comp_def)
  show "delete_keys (batch acc') = delete_keys (batch acc) @ map input_key (inputs tx)"
    "put_keys (batch acc') = put_keys (batch acc) @ tx_key (txid tx) # map fst (created_utxos to_lowercase tx)"
    "dom (block_utxos acc') = dom (block_utxos acc) \<union> set (created_keys_of [tx])"
    using 2 by (simp_all add: 3 d 1(3))
qed

lemma process_txs_balance:
  assumes "fold_res (process_tx P d) txs acc = Ok acc'" "codec_ok P" "balanced P d cb acc"
    and "set (spent_keys txs) \<inter> (dom (block_utxos acc) \<union> set (created_keys_of txs)) = {}"
  shows "balanced P d cb acc' \<and> delete_keys (batch acc') = delete_keys (batch acc) @ spent_keys txs \<and>
    set (put_keys (batch acc')) \<subseteq> set (put_keys (batch acc)) \<union> range tx_key \<union> set (created_keys_of txs)"
  using assms
proof (induction txs arbitrary: acc)
  case Nil
  then show ?case by (auto simp: spent_keys_def)
next
  case (Cons tx txs)
  then obtain a1 where 1: "process_tx P d tx acc = Ok a1" "fold_res (process_tx P d) txs a1 = Ok acc'"
    by (auto simp: res_simps)
  have s: "spent_keys (tx # txs) = map input_key (inputs tx) @ spent_keys txs"
    "created_keys_of (tx # txs) = created_keys_of [tx] @ created_keys_of txs"
    by (simp_all add: spent_keys_def created_keys_of_def)
  have "set (map input_key (inputs tx)) \<inter> dom (block_utxos acc) = {}" using Cons.prems(4) s by auto
  note 2 = process_tx_balance[OF 1(1) Cons.prems(2,3) this]
  have "set (spent_keys txs) \<inter> (dom (block_utxos a1) \<union> set (created_keys_of txs)) = {}"
    using Cons.prems(4) unfolding s 2(4) by auto
  from Cons.IH[OF 1(2) Cons.prems(2) 2(1) this] show ?case
    using 2(2,3) unfolding s by (auto simp: created_keys_of_def)
qed

section \<open>Conservation\<close>

lemma utxo_total_put_other:
  assumes "db_wf d" "\<not> starts_with ''u:'' k"
  shows "utxo_total P (db_put k v d) = utxo_total P d"
  using kv.entry_sum_put[OF assms(1), of "utxo_value P" k v] assms(2)
  by (cases "db_get d k") (simp_all add: utxo_total_def utxo_value_def)

text \<open>
  C1. An accepted block creates no money beyond its reward: if no output is spent twice in it and
  none is spent in the block that creates it, the total of all unspent outputs grows by at most the
  reward of its height. (Fees are moved to the miner, not created.)
\<close>

theorem supply_conserved:
  assumes "codec_ok P" "db_wf (bc_db bc)" "plain_spends b"
    and "validate_and_insert_block P now bc b = (bc', Ok ())"
    and "db_get (bc_db bc) (block_key (block_hash b)) = None"
  shows "utxo_total P (bc_db bc') \<le> utxo_total P (bc_db bc) + unat (calculate_block_reward (index (header b)))"
proof -
  obtain bc1 ops where 1: "settle_tip P bc b = (bc1, Ok ())" "block_batch P bc1 b = Ok ops"
    "bc' = bc1\<lparr>bc_db := put_batch (bc_db bc1) ops, chain_tip := Some (block_hash b),
       bc_difficulty := difficulty (header b)\<rparr>"
    using insert_Ok[OF assms(4,5)] by metis
  let ?d = "bc_db bc1" and ?f = "utxo_value P"
  from 1(2) obtain cb rest acc where 2: "transactions b = cb # rest"
    "fold_res (process_tx P ?d) rest (add_outputs P cb \<lparr>batch = [], total_fees = 0, block_utxos = Map.empty\<rparr>) = Ok acc"
    "sum_list (map (unat \<circ> out_amount) (outputs cb)) \<le>
       unat (get_block_reward bc1 (index (header b))) + unat (total_fees acc)"
    "ops = batch acc @ [Put (block_key (block_hash b)) (enc_block P b),
       Put (index_key (unat (index (header b)))) (as_bytes P (block_hash b)),
       Put tip_key (as_bytes P (block_hash b))]" by (rule block_batch_Ok)
  let ?acc0 = "add_outputs P cb \<lparr>batch = [], total_fees = 0, block_utxos = Map.empty\<rparr>"
  note a0 = add_outputs_balance[OF assms(1), of cb "\<lparr>batch = [], total_fees = 0, block_utxos = Map.empty\<rparr>"]
  have b0: "balanced P ?d (output_total cb) ?acc0" by (simp add: balanced_def a0)
  have plain: "distinct (spent_keys rest)" "set (spent_keys rest) \<inter> set (created_keys_of (cb # rest)) = {}"
    using assms(3) 2(1) by (simp_all add: plain_spends_def)
  then have "set (spent_keys rest) \<inter> (dom (block_utxos ?acc0) \<union> set (created_keys_of rest)) = {}"
    unfolding a0 by (auto simp: created_keys_of_def)
  note 3 = process_txs_balance[OF 2(2) assms(1) b0 this]
  have dk: "delete_keys ops = spent_keys rest" using 3 2(4) a0 by simp
  have w: "put_weight ?f ops = put_weight ?f (batch acc)" using 2(4) by (simp add: utxo_value_def)
  have u: "\<forall>k\<in>set (spent_keys rest). starts_with ''u:'' k"
    by (auto simp: spent_keys_def input_key_def)
  have "set (put_keys ops) \<subseteq> set (created_keys_of (cb # rest)) \<union> range tx_key \<union> {k. \<not> starts_with ''u:'' k}"
    using 3 2(4) a0 by (auto simp: created_keys_of_def)
  then have "set (delete_keys ops) \<inter> set (put_keys ops) = {}"
    using plain(2) u unfolding dk by fastforce
  moreover have "db_wf ?d" using settle_tip_other(3)[OF 1(1) assms(2)] .
  ultimately have "utxo_total P (put_batch ?d ops) + sum_list (map (weight_at ?f ?d) (delete_keys ops))
      \<le> utxo_total P ?d + put_weight ?f ops"
    using batch_weight[of ?d ops ?f] plain(1) dk by (simp add: utxo_total_def)
  moreover have "utxo_total P ?d = utxo_total P (bc_db bc)"
    using settle_tip_state[OF 1(1)] utxo_total_put_other[OF assms(2), of tip_key] by auto
  ultimately show ?thesis
    using conjunct1[OF 3] 2(3) w 1(3) dk conjunct1[OF conjunct2[OF 3]] unfolding balanced_def
    by (simp add: a0 get_block_reward_eq output_total_def)
qed

lemma sample_total: "utxo_total ref_prims (bc_db sample_chain) = 1000000000000000000"
  by (simp add: utxo_total_def entry_sum_def db_iterator_def sample_chain_def utxo_value_def ref_selectors sample_utxo_def)

theorem supply_conserved_witness:
  "\<exists>bc'. validate_and_insert_block ref_prims 2000 sample_chain spend_block = (bc', Ok ()) \<and>
    utxo_total ref_prims (bc_db bc') \<le> 1000000000000000000 + 8000000000000000000"
proof -
  obtain bc' where 1: "validate_and_insert_block ref_prims 2000 sample_chain spend_block = (bc', Ok ())"
    using spend_accepted by blast
  have 2: "db_get (bc_db sample_chain) (block_key (block_hash spend_block)) = None"
    unfolding spend_block_def by (rule sample_not_stored)
  have 3: "plain_spends spend_block"
    by (simp add: plain_spends_def spend_block_def spent_keys_def created_keys_of_def input_key_def sample_created)
  have 4: "unat (calculate_block_reward (index (header spend_block))) = 8000000000000000000"
    by (simp add: spend_block_def unat_block_reward)
  from supply_conserved[OF _ sample_db(1) 3 1 2] 1 4 show ?thesis by (auto simp: sample_total)
qed

section \<open>What the validator lets through\<close>

lemma utxo_total_ge:
  assumes "db_wf d" "distinct ks"
  shows "sum_list (map (weight_at (utxo_value P) d) ks) \<le> utxo_total P d"
  using assms
proof (induction ks arbitrary: d)
  case (Cons k ks)
  have "sum_list (map (weight_at (utxo_value P) (db_delete k d)) ks) = sum_list (map (weight_at (utxo_value P) d) ks)"
    using Cons.prems(2) by (intro arg_cong[where f = sum_list] map_cong) (auto simp: weight_at_def)
  moreover have "utxo_total P d = utxo_total P (db_delete k d) + weight_at (utxo_value P) d k"
    using kv.entry_sum_delete[OF Cons.prems(1), of "utxo_value P" k] by (simp add: utxo_total_def weight_at_def)
  moreover have "sum_list (map (weight_at (utxo_value P) (db_delete k d)) ks) \<le> utxo_total P (db_delete k d)"
    using Cons.IH[OF db_wf_delete[OF Cons.prems(1)]] Cons.prems(2) by simp
  ultimately show ?case by simp
qed simp

lemma sample_weight:
  "db_get d (utxo_key t 0) = Some (sample_output t a n) \<Longrightarrow> weight_at (utxo_value ref_prims) d (utxo_key t 0) = unat n"
  by (simp add: weight_at_def utxo_value_def ref_selectors sample_output_def)

text \<open>
  C38. Two transactions of one block may spend the same stored output: each passes, since the set of
  used outputs is per transaction and the database is only written at the end. Both new outputs
  are unspent afterwards, and the total grows by more than the reward.
\<close>

theorem double_spend_accepted:
  "\<exists>bc'. validate_and_insert_block ref_prims 2000 sample_chain double_spend_block = (bc', Ok ()) \<and>
    map input_key (inputs (transactions double_spend_block ! 1)) =
      map input_key (inputs (transactions double_spend_block ! 2)) \<and>
    utxo_total ref_prims (bc_db bc') >
      utxo_total ref_prims (bc_db sample_chain) + unat (calculate_block_reward (index (header double_spend_block)))"
proof -
  obtain bc' where 1: "validate_and_insert_block ref_prims 2000 sample_chain double_spend_block = (bc', Ok ())"
    "db_get (bc_db bc') (utxo_key ''c0'' 0) = Some (sample_output ''c0'' ''0xab'' 8000000000000000000)"
    "db_get (bc_db bc') (utxo_key ''b1'' 0) = Some (sample_output ''b1'' sample_address 900000000000000000)"
    "db_get (bc_db bc') (utxo_key ''b2'' 0) = Some (sample_output ''b2'' sample_address 900000000000000000)"
    "db_wf (bc_db bc')" using double_spend_result by blast
  show ?thesis
    using 1(1) utxo_total_ge[OF 1(5), of "[utxo_key ''c0'' 0, utxo_key ''b1'' 0, utxo_key ''b2'' 0]" ref_prims]
    by (simp add: sample_weight[OF 1(2)] sample_weight[OF 1(3)] sample_weight[OF 1(4)] sample_total
        double_spend_block_def unat_block_reward input_key_def)
qed

text \<open>
  An output that is created and spent in the same block stays in the database: the spend
  removes it from the pending map only, and the \<open>put\<close> of its creation is still in the batch. It is
  unspent after the block, beside the output it paid for.
\<close>

theorem chained_spend_survives:
  "\<exists>bc'. validate_and_insert_block ref_prims 2000 sample_chain chained_block = (bc', Ok ()) \<and>
    input_key (hd (inputs (transactions chained_block ! 2))) = utxo_key ''b1'' 0 \<and>
    db_get (bc_db bc') (utxo_key ''b1'' 0) \<noteq> None \<and>
    utxo_total ref_prims (bc_db bc') >
      utxo_total ref_prims (bc_db sample_chain) + unat (calculate_block_reward (index (header chained_block)))"
proof -
  obtain bc' where 1: "validate_and_insert_block ref_prims 2000 sample_chain chained_block = (bc', Ok ())"
    "db_get (bc_db bc') (utxo_key ''c0'' 0) = Some (sample_output ''c0'' ''0xab'' 8000000000000000000)"
    "db_get (bc_db bc') (utxo_key ''b1'' 0) = Some (sample_output ''b1'' sample_address 900000000000000000)"
    "db_get (bc_db bc') (utxo_key ''b2'' 0) = Some (sample_output ''b2'' sample_address 800000000000000000)"
    "db_wf (bc_db bc')" using chained_result by blast
  show ?thesis
    using 1(1,3) utxo_total_ge[OF 1(5), of "[utxo_key ''c0'' 0, utxo_key ''b1'' 0, utxo_key ''b2'' 0]" ref_prims]
    by (simp add: sample_weight[OF 1(2)] sample_weight[OF 1(3)] sample_weight[OF 1(4)] sample_total
        chained_block_def unat_block_reward input_key_def)
qed

text \<open>
  C39. The transaction identifier a block carries is never compared with the hash of the
  transaction: a coinbase that claims the identifier of an earlier transaction is accepted and
  replaces that transaction's unspent output by its own.
\<close>

theorem forged_txid_accepted:
  "\<exists>bc'. validate_and_insert_block ref_prims 2000 sample_chain forged_block = (bc', Ok ()) \<and>
    txid (hd (transactions forged_block)) \<noteq> compute_txid ref_prims (hd (transactions forged_block)) \<and>
    db_get (bc_db sample_chain) (utxo_key ''aa'' 0) = Some (SUtxo sample_utxo) \<and>
    db_get (bc_db bc') (utxo_key ''aa'' 0) = Some (sample_output ''aa'' ''0xab'' 1)"
proof -
  have "length (compute_txid ref_prims tx) = 64" for tx by (simp add: compute_txid_def Let_def)
  then have "''aa'' \<noteq> compute_txid ref_prims tx" for tx
    by (rule_tac notI, drule_tac arg_cong[where f = length]) simp
  then show ?thesis using forged_result sample_db(3) by (auto simp: forged_block_def)
qed

text \<open>
  The height a block claims is not compared with that of its parent: a block of height 20 on
  the block of height 0 is accepted, and the height index has a gap.
\<close>

theorem height_jump_accepted:
  "\<exists>bc'. validate_and_insert_block ref_prims 2000 sample_chain jump_block = (bc', Ok ()) \<and>
    load_header ref_prims sample_chain (previous_hash (header jump_block)) = Ok (Some (header sample_genesis)) \<and>
    index (header jump_block) = 20 \<and> index (header sample_genesis) = 0 \<and>
    db_get (bc_db bc') (index_key 1) = None"
  using jump_result sample_load by (auto simp: jump_block_def sample_genesis_def)

end
