(* ===== verification/Queries.thy ===== *)
theory Queries
  imports Conservation "HOL-Library.AList" "HOL-Library.Product_Lexorder"
begin

text \<open>
  The read side of the blockchain (\<open>core/src/blockchain/mod.rs\<close>, lines 168 to 172, 633 to 637 and
  808 to 1145): scans of the database in iterator order, walks over the height index, and the
  per-address reports. A sum that overflows 256 bits panics. The order in which a \<open>HashMap\<close> is
  drained is the argument \<open>drain\<close>. An iterator error of the database does not occur in the model.
\<close>

section \<open>Scans\<close>

definition get_utxos :: "'v prims \<Rightarrow> 'v blockchain \<Rightarrow> string \<Rightarrow> (chain_error, utxo list) result" where
  "get_utxos P bc address =
     concat_res (\<lambda>(key, value).
       if starts_with ''u:'' key
       then bind_res (ok_or DecodeError (dec_utxo P value)) (\<lambda>u. Ok (if u_to u = address then [u] else []))
       else Ok []) (db_iterator (bc_db bc))"

definition count_transactions :: "'v blockchain \<Rightarrow> nat" where
  "count_transactions bc = length (filter (\<lambda>(k, _). starts_with ''t:'' k) (db_iterator (bc_db bc)))"

definition calculate_total_volume :: "'v prims \<Rightarrow> 'v blockchain \<Rightarrow> (chain_error, u256) result" where
  "calculate_total_volume P bc =
     fold_res (\<lambda>(k, v) total.
       if starts_with ''u:'' k
       then bind_res (ok_or DecodeError (dec_utxo P v)) (\<lambda>u. ok_or Panic (u256_add total (u_amount u)))
       else Ok total) (db_iterator (bc_db bc)) 0"

definition get_address_balance_from_db :: "'v prims \<Rightarrow> 'v blockchain \<Rightarrow> string \<Rightarrow> (chain_error, u256) result" where
  "get_address_balance_from_db P bc address =
     fold_res (\<lambda>(k, v) balance.
       if starts_with ''u:'' k
       then (case dec_utxo P v of
               None \<Rightarrow> Ok balance
             | Some u \<Rightarrow> if u_to u = address then ok_or Panic (u256_add balance (u_amount u)) else Ok balance)
       else Ok balance) (db_iterator (bc_db bc)) 0"

definition get_balance :: "'v prims \<Rightarrow> 'v blockchain \<Rightarrow> string \<Rightarrow> (chain_error, u256) result" where
  "get_balance P bc address = get_address_balance_from_db P bc address"

text \<open>The body of the loop that fills the map of balances; the map is an association list.\<close>

definition credit :: "string \<Rightarrow> u256 \<Rightarrow> (string \<times> u256) list \<Rightarrow> (chain_error, (string \<times> u256) list) result" where
  "credit a x m =
     bind_res (ok_or Panic (u256_add (case map_of m a of None \<Rightarrow> 0 | Some y \<Rightarrow> y) x)) (\<lambda>s.
     Ok (AList.update a s m))"

definition get_all_address_balances ::
    "((string \<times> u256) list \<Rightarrow> (string \<times> u256) list) \<Rightarrow> 'v prims \<Rightarrow> 'v blockchain
      \<Rightarrow> (chain_error, (string \<times> u256) list) result" where
  "get_all_address_balances drain P bc =
     bind_res (fold_res (\<lambda>(k, v) balances.
       if starts_with ''u:'' k
       then (case dec_utxo P v of None \<Rightarrow> Ok balances | Some u \<Rightarrow> credit (u_to u) (u_amount u) balances)
       else Ok balances) (db_iterator (bc_db bc)) []) (\<lambda>balances.
     Ok (sort_key (\<lambda>p. - int (unat (snd p))) (drain balances)))"

section \<open>Walks over the height index\<close>

text \<open>\<^const>\<open>None\<close>: no entry for the height, the loop ends there.\<close>

definition block_at :: "'v prims \<Rightarrow> 'v blockchain \<Rightarrow> nat \<Rightarrow> (chain_error, block option) result option" where
  "block_at P bc i =
     (case db_get (bc_db bc) (index_key i) of
        None \<Rightarrow> None
      | Some hash_bytes \<Rightarrow>
          Some (bind_res (ok_or Utf8Error (from_utf8 P hash_bytes)) (load_block P bc)))"

definition heights_from :: "'v blockchain \<Rightarrow> nat \<Rightarrow> nat set" where
  "heights_from bc i = {n. i \<le> n \<and> db_get (bc_db bc) (index_key n) \<noteq> None}"

lemma finite_heights: "finite (heights_from bc i)"
proof -
  have "index_key ` heights_from bc i \<subseteq> dom (map_of (bc_db bc))"
    by (auto simp: heights_from_def db_get_def)
  then have "finite (index_key ` heights_from bc i)" using finite_dom_map_of finite_subset by blast
  then show ?thesis by (rule finite_imageD) (simp add: inj_on_def)
qed

lemma heights_decrease:
  assumes "block_at P bc i = Some r"
  shows "card (heights_from bc (Suc i)) < card (heights_from bc i)"
proof (rule psubset_card_mono[OF finite_heights])
  have "i \<in> heights_from bc i" using assms by (auto simp: block_at_def heights_from_def split: option.splits)
  moreover have "i \<notin> heights_from bc (Suc i)" "heights_from bc (Suc i) \<subseteq> heights_from bc i"
    by (auto simp: heights_from_def)
  ultimately show "heights_from bc (Suc i) \<subset> heights_from bc i" by blast
qed

text \<open>The loops end because the index has finitely many entries.\<close>

function all_blocks_loop :: "'v prims \<Rightarrow> 'v blockchain \<Rightarrow> nat \<Rightarrow> (chain_error, block list) result" where
  "all_blocks_loop P bc i =
     (case block_at P bc i of
        None \<Rightarrow> Ok []
      | Some r \<Rightarrow>
          bind_res r (\<lambda>b. bind_res (all_blocks_loop P bc (Suc i)) (\<lambda>bs.
          Ok ((case b of None \<Rightarrow> [] | Some blk \<Rightarrow> [blk]) @ bs))))"
  by pat_completeness auto
termination
  by (relation "measure (\<lambda>(P, bc, i). card (heights_from bc i))") (simp_all add: heights_decrease)

function blocks_range_loop :: "'v prims \<Rightarrow> 'v blockchain \<Rightarrow> nat option \<Rightarrow> nat \<Rightarrow> (chain_error, block list) result" where
  "blocks_range_loop P bc to_height i =
     (if (case to_height of None \<Rightarrow> False | Some to \<Rightarrow> i > to) then Ok []
      else (case block_at P bc i of
        None \<Rightarrow> Ok []
      | Some r \<Rightarrow>
          bind_res r (\<lambda>b. bind_res (blocks_range_loop P bc to_height (Suc i)) (\<lambda>bs.
          Ok ((case b of None \<Rightarrow> [] | Some blk \<Rightarrow> [blk]) @ bs)))))"
  by pat_completeness auto
termination
  by (relation "measure (\<lambda>(P, bc, to_height, i). card (heights_from bc i))") (simp_all add: heights_decrease)

declare all_blocks_loop.simps [simp del] blocks_range_loop.simps [simp del]

definition get_all_blocks :: "'v prims \<Rightarrow> 'v blockchain \<Rightarrow> (chain_error, block list) result" where
  "get_all_blocks P bc = all_blocks_loop P bc 0"

definition get_all_blocks_cached :: "'v prims \<Rightarrow> 'v blockchain \<Rightarrow> (chain_error, block list) result" where
  "get_all_blocks_cached P bc = get_all_blocks P bc"

definition get_blocks_range :: "'v prims \<Rightarrow> 'v blockchain \<Rightarrow> u64 \<Rightarrow> u64 option \<Rightarrow> (chain_error, block list) result" where
  "get_blocks_range P bc from_height to_height =
     blocks_range_loop P bc (map_option unat to_height) (unat from_height)"

definition get_transaction :: "'v prims \<Rightarrow> 'v blockchain \<Rightarrow> string
    \<Rightarrow> (chain_error, (transaction \<times> nat) option) result" where
  "get_transaction P bc tid =
     bind_res (get_all_blocks P bc) (\<lambda>blocks.
     Ok (find (\<lambda>(tx, _). txid tx = tid)
       (concat (map (\<lambda>b. map (\<lambda>tx. (tx, unat (index (header b)))) (transactions b)) blocks))))"

section \<open>Reports per address\<close>

definition sum_amounts :: "transaction_output list \<Rightarrow> u256 \<Rightarrow> (chain_error, u256) result" where
  "sum_amounts outs acc = fold_res (\<lambda>out acc. ok_or Panic (u256_add acc (out_amount out))) outs acc"

definition get_address_received_from_db :: "'v prims \<Rightarrow> 'v blockchain \<Rightarrow> string \<Rightarrow> (chain_error, u256) result" where
  "get_address_received_from_db P bc address =
     bind_res (get_all_blocks_cached P bc) (\<lambda>blocks.
     fold_res (\<lambda>tx. sum_amounts (filter (\<lambda>out. out_to out = address) (outputs tx)))
       (concat (map transactions blocks)) 0)"

definition get_address_sent_from_db :: "'v prims \<Rightarrow> 'v blockchain \<Rightarrow> string \<Rightarrow> (chain_error, u256) result" where
  "get_address_sent_from_db P bc address =
     bind_res (get_all_blocks_cached P bc) (\<lambda>blocks.
     fold_res (\<lambda>tx total.
       if inputs tx \<noteq> [] \<and> list_ex (\<lambda>inp. in_pubkey inp = address) (inputs tx)
       then sum_amounts (outputs tx) total else Ok total)
       (concat (map transactions blocks)) 0)"

record tx_entry =
  e_txid :: string
  e_height :: u64
  e_timestamp :: int
  e_direction :: string
  e_amount :: u256
  e_counterpart :: string

definition is_sender :: "'v prims \<Rightarrow> string \<Rightarrow> transaction \<Rightarrow> bool" where
  "is_sender P address tx \<longleftrightarrow>
     list_ex (\<lambda>inp. case address_from_pubkey_hex P (in_pubkey inp) of
        Ok a \<Rightarrow> to_lowercase a = address | Err _ \<Rightarrow> False) (inputs tx)"

definition is_receiver :: "string \<Rightarrow> transaction \<Rightarrow> bool" where
  "is_receiver address tx \<longleftrightarrow> list_ex (\<lambda>out. out_to out = address) (outputs tx)"

text \<open>The entries one transaction contributes.\<close>

definition tx_entries :: "'v prims \<Rightarrow> string \<Rightarrow> u64 \<Rightarrow> transaction \<Rightarrow> (chain_error, tx_entry list) result" where
  "tx_entries P address height tx =
     (let entry = (\<lambda>dir amount other. \<lparr>e_txid = txid tx, e_height = height, e_timestamp = tx_timestamp tx,
            e_direction = dir, e_amount = amount, e_counterpart = other\<rparr>)
      in if is_sender P address tx then
           bind_res (if list_all (\<lambda>out. out_to out = address) (outputs tx)
             then bind_res (ok_or Panic (u256_sum (map out_amount (outputs tx)))) (\<lambda>total.
                  Ok [entry ''send'' total address])
             else Ok []) (\<lambda>self_send.
           Ok (map (\<lambda>out. entry ''send'' (out_amount out) (out_to out))
             (filter (\<lambda>out. out_to out \<noteq> address) (outputs tx)) @ self_send))
         else
           bind_res (ok_or Panic (u256_sum (map out_amount (filter (\<lambda>out. out_to out = address) (outputs tx)))))
             (\<lambda>received.
           Ok [entry ''receive'' received
             (case inputs tx of
                [] \<Rightarrow> ''coinbase''
              | inp # _ \<Rightarrow> (case address_from_pubkey_hex P (in_pubkey inp) of Ok a \<Rightarrow> a | Err _ \<Rightarrow> in_pubkey inp))]))"

definition history_step :: "'v prims \<Rightarrow> string \<Rightarrow> u64 \<times> transaction
    \<Rightarrow> string list \<times> tx_entry list \<Rightarrow> (chain_error, string list \<times> tx_entry list) result" where
  "history_step P address htx st =
     (case (htx, st) of ((height, tx), (seen_txids, results)) \<Rightarrow>
        if \<not> is_receiver address tx \<and> \<not> is_sender P address tx then Ok (seen_txids, results)
        else if txid tx \<in> set seen_txids then Ok (seen_txids, results)
        else bind_res (tx_entries P address height tx) (\<lambda>es. Ok (txid tx # seen_txids, results @ es)))"

text \<open>The comparison \<open>b.1.cmp(&a.1).then(b.2.cmp(&a.2))\<close> as a sorting key.\<close>

definition newest_first :: "tx_entry \<Rightarrow> int \<times> int" where
  "newest_first e = (- int (unat (e_height e)), - e_timestamp e)"

definition get_address_transactions_from_db ::
    "'v prims \<Rightarrow> 'v blockchain \<Rightarrow> string \<Rightarrow> nat option \<Rightarrow> (chain_error, tx_entry list) result" where
  "get_address_transactions_from_db P bc address limit =
     bind_res (get_all_blocks_cached P bc) (\<lambda>blocks.
     bind_res (fold_res (history_step P address)
       (concat (map (\<lambda>b. map (\<lambda>tx. (index (header b), tx)) (transactions b)) blocks)) ([], [])) (\<lambda>(_, results).
     let results = sort_key newest_first results
     in Ok (case limit of None \<Rightarrow> results | Some n \<Rightarrow> take n results)))"

definition get_address_transaction_count_from_db :: "'v prims \<Rightarrow> 'v blockchain \<Rightarrow> string \<Rightarrow> (chain_error, nat) result" where
  "get_address_transaction_count_from_db P bc address =
     bind_res (get_all_blocks_cached P bc) (\<lambda>blocks.
     Ok (length (remdups (map txid (filter (\<lambda>tx. is_receiver address tx \<or>
         list_ex (\<lambda>inp. in_pubkey inp = address) (inputs tx)) (concat (map transactions blocks)))))))"

section \<open>Balances\<close>

text \<open>The amounts of the decodable unspent outputs of an address, in iterator order.\<close>

definition owned :: "'v prims \<Rightarrow> (string \<Rightarrow> bool) \<Rightarrow> (string \<times> 'v) list \<Rightarrow> utxo list" where
  "owned P own es = filter (\<lambda>u. own (u_to u)) (List.map_filter (\<lambda>(k, v).
     if starts_with ''u:'' k then dec_utxo P v else None) es)"

lemma owned_simps [simp]:
  "owned P own [] = []"
  "owned P own ((k, v) # es) =
     (if starts_with ''u:'' k then (case dec_utxo P v of None \<Rightarrow> [] | Some u \<Rightarrow> if own (u_to u) then [u] else []) else [])
     @ owned P own es"
  by (auto simp: owned_def List.map_filter_simps split: option.splits)

definition amounts :: "utxo list \<Rightarrow> nat" where
  "amounts us = sum_list (map (unat \<circ> u_amount) us)"

lemma amounts_simps [simp]: "amounts [] = 0" "amounts (u # us) = unat (u_amount u) + amounts us"
  "amounts (us @ vs) = amounts us + amounts vs"
  by (simp_all add: amounts_def)

lemma utxo_total_owned: "utxo_total P d = amounts (owned P (\<lambda>_. True) d)"
proof -
  have "entry_sum (utxo_value P) es = amounts (owned P (\<lambda>_. True) es)" for es
    by (induction es) (auto simp: entry_sum_def utxo_value_def split: option.splits)
  then show ?thesis by (simp add: utxo_total_def db_iterator_def)
qed

lemma get_utxos_Ok:
  assumes "get_utxos P bc a = Ok us"
  shows "us = owned P (\<lambda>t. t = a) (bc_db bc)"
proof -
  have "concat_res (\<lambda>(key, value). if starts_with ''u:'' key
       then bind_res (ok_or DecodeError (dec_utxo P value)) (\<lambda>u. Ok (if u_to u = a then [u] else []))
       else Ok []) es = Ok us \<Longrightarrow> us = owned P (\<lambda>t. t = a) es" for es us
    by (induction es arbitrary: us) (auto simp: res_simps split: if_splits)
  then show ?thesis using assms by (simp add: get_utxos_def db_iterator_def)
qed

lemma balance_loop:
  "fold_res (\<lambda>(k, v) balance. if starts_with ''u:'' k
       then (case dec_utxo P v of None \<Rightarrow> Ok balance
             | Some u \<Rightarrow> if u_to u = a then ok_or Panic (u256_add balance (u_amount u)) else Ok balance)
       else Ok balance) es b = Ok s \<longleftrightarrow> unat b + amounts (owned P (\<lambda>t. t = a) es) = unat s"
proof (induction es arbitrary: b)
  case (Cons e es)
  obtain k v where e: "e = (k, v)" by (cases e)
  show ?case
  proof (cases "starts_with ''u:'' k \<and> (\<exists>u. dec_utxo P v = Some u \<and> u_to u = a)")
    case True
    then obtain u where u: "starts_with ''u:'' k" "dec_utxo P v = Some u" "u_to u = a" by auto
    show ?thesis
    proof (cases "u256_add b (u_amount u)")
      case None
      then have "unat b + unat (u_amount u) \<ge> 2 ^ 256" by (auto simp: u256_add_def split: if_splits)
      then have "unat b + (unat (u_amount u) + n) \<noteq> unat s" for n
        using unat_u256_lt[of s] by (simp del: unat_u256_bound)
      then show ?thesis using None e u by simp
    next
      case (Some c)
      then have "unat c = unat b + unat (u_amount u)" by (simp add: u256_add_Some)
      then show ?thesis using Cons.IH[of c] Some e u by (simp add: add.assoc)
    qed
  next
    case False
    then show ?thesis using Cons.IH[of b] e by (auto split: option.splits)
  qed
qed (auto simp: word_unat_eq_iff)

lemma balance_iff:
  "get_address_balance_from_db P bc a = Ok s \<longleftrightarrow> amounts (owned P (\<lambda>t. t = a) (bc_db bc)) = unat s"
  using balance_loop[where P = P and a = a and es = "bc_db bc" and b = 0 and s = s] by (simp add: get_address_balance_from_db_def db_iterator_def)

text \<open>
  The balance of an address is the sum of the outputs \<open>get_utxos\<close> lists for it, and is reported
  whenever that sum fits 256 bits.
\<close>

theorem balance_is_sum_of_utxos:
  assumes "get_utxos P bc a = Ok us"
  shows "get_address_balance_from_db P bc a = Ok s \<longleftrightarrow> sum_list (map (unat \<circ> u_amount) us) = unat s"
  using get_utxos_Ok[OF assms] balance_iff[of P bc a s] by (simp add: amounts_def)

theorem balance_is_sum_of_utxos_witness:
  "get_utxos ref_prims sample_chain sample_address = Ok [sample_utxo] \<and>
   get_address_balance_from_db ref_prims sample_chain sample_address = Ok 1000000000000000000"
proof -
  have u: "get_utxos ref_prims sample_chain sample_address = Ok [sample_utxo]"
    by (simp add: get_utxos_def db_iterator_def sample_chain_def ref_selectors) (simp add: sample_utxo_def)
  then show ?thesis using balance_is_sum_of_utxos[OF u, of 1000000000000000000] by (simp add: sample_utxo_def)
qed

text \<open>The rich list.\<close>

lemma credit_Ok:
  assumes "credit a x m = Ok m'" "distinct (map fst m)"
  shows "distinct (map fst m')" "map_of m' b = (if b = a then
      Some ((case map_of m a of None \<Rightarrow> 0 | Some y \<Rightarrow> y) + x) else map_of m b)"
    "unat ((case map_of m a of None \<Rightarrow> 0 | Some y \<Rightarrow> y) + x) =
      unat (case map_of m a of None \<Rightarrow> 0 | Some y \<Rightarrow> y) + unat x"
  using assms
  by (auto simp: credit_def res_simps distinct_update update_conv' u256_add_def unat_word_ariths split: if_splits)

definition balance_in :: "(string \<times> u256) list \<Rightarrow> string \<Rightarrow> nat" where
  "balance_in m a = (case map_of m a of None \<Rightarrow> 0 | Some y \<Rightarrow> unat y)"

lemma balances_loop:
  assumes "fold_res (\<lambda>(k, v) balances. if starts_with ''u:'' k
       then (case dec_utxo P v of None \<Rightarrow> Ok balances | Some u \<Rightarrow> credit (u_to u) (u_amount u) balances)
       else Ok balances) es m = Ok m'" "distinct (map fst m)"
  shows "distinct (map fst m') \<and> balance_in m' a = balance_in m a + amounts (owned P (\<lambda>t. t = a) es)"
  using assms
proof (induction es arbitrary: m)
  case (Cons e es)
  obtain k v where e: "e = (k, v)" by (cases e)
  show ?case
  proof (cases "starts_with ''u:'' k \<and> dec_utxo P v \<noteq> None")
    case True
    then obtain u where u: "starts_with ''u:'' k" "dec_utxo P v = Some u" by auto
    then obtain m1 where m1: "credit (u_to u) (u_amount u) m = Ok m1"
      using Cons.prems(1) e by (auto simp: res_simps)
    note c = credit_Ok[OF m1 Cons.prems(2)]
    have "balance_in m1 a = balance_in m a + (if u_to u = a then unat (u_amount u) else 0)"
      using c(2)[of a] c(3) by (auto simp: balance_in_def split: option.splits)
    then show ?thesis using Cons.IH[OF _ c(1)] Cons.prems(1) e u m1 by auto
  next
    case False
    then show ?thesis using Cons e by (auto split: if_splits option.splits)
  qed
qed simp

lemma update_sum:
  "sum_list (map (unat \<circ> snd) (AList.update a s m)) + balance_in m a = sum_list (map (unat \<circ> snd) m) + unat s"
  by (induction m) (auto simp: balance_in_def)

lemma balances_sum:
  assumes "fold_res (\<lambda>(k, v) balances. if starts_with ''u:'' k
       then (case dec_utxo P v of None \<Rightarrow> Ok balances | Some u \<Rightarrow> credit (u_to u) (u_amount u) balances)
       else Ok balances) es m = Ok m'"
  shows "sum_list (map (unat \<circ> snd) m') = sum_list (map (unat \<circ> snd) m) + amounts (owned P (\<lambda>_. True) es)"
  using assms
proof (induction es arbitrary: m)
  case (Cons e es)
  obtain k v where e: "e = (k, v)" by (cases e)
  show ?case
  proof (cases "starts_with ''u:'' k \<and> dec_utxo P v \<noteq> None")
    case True
    then obtain u where u: "starts_with ''u:'' k" "dec_utxo P v = Some u" by auto
    then obtain s where s: "u256_add (case map_of m (u_to u) of None \<Rightarrow> 0 | Some y \<Rightarrow> y) (u_amount u) = Some s"
      "fold_res (\<lambda>(k, v) balances. if starts_with ''u:'' k
       then (case dec_utxo P v of None \<Rightarrow> Ok balances | Some u \<Rightarrow> credit (u_to u) (u_amount u) balances)
       else Ok balances) es (AList.update (u_to u) s m) = Ok m'"
      using Cons.prems e by (auto simp: res_simps credit_def)
    have "unat s = balance_in m (u_to u) + unat (u_amount u)"
      using s(1) by (auto simp: u256_add_Some balance_in_def split: option.splits)
    then show ?thesis using Cons.IH[OF s(2)] update_sum[of "u_to u" s m] e u by (simp add: comp_def)
  next
    case False
    then show ?thesis using Cons e by (auto split: if_splits option.splits)
  qed
qed simp

text \<open>
  The rich list names each address once, in descending order of balance, with the balance that
  \<open>get_address_balance_from_db\<close> reports; together the balances are all the unspent money. This holds
  in whatever order the hash map is drained.
\<close>

theorem rich_list_partitions_supply:
  assumes "get_all_address_balances drain P bc = Ok bs" "\<And>xs. mset (drain xs) = mset xs"
  shows "distinct (map fst bs) \<and> sorted_wrt (\<ge>) (map (unat \<circ> snd) bs) \<and>
    list_all (\<lambda>(a, x). get_address_balance_from_db P bc a = Ok x) bs \<and>
    sum_list (map (unat \<circ> snd) bs) = utxo_total P (bc_db bc)"
proof -
  obtain m where m: "fold_res (\<lambda>(k, v) balances. if starts_with ''u:'' k
       then (case dec_utxo P v of None \<Rightarrow> Ok balances | Some u \<Rightarrow> credit (u_to u) (u_amount u) balances)
       else Ok balances) (bc_db bc) [] = Ok m" and bs: "bs = sort_key (\<lambda>p. - int (unat (snd p))) (drain m)"
    using assms(1) by (auto simp: get_all_address_balances_def res_simps db_iterator_def)
  have ms: "mset bs = mset m" using bs assms(2) by simp
  have d: "distinct (map fst m)" "balance_in m a = amounts (owned P (\<lambda>t. t = a) (bc_db bc))" for a
    using balances_loop[OF m, of a] by (auto simp: balance_in_def)
  have "mset (map f bs) = mset (map f m)" for f :: "string \<times> u256 \<Rightarrow> 'z" using ms by simp
  note mm = this
  have "distinct (map fst bs)" using d(1) mm[of fst] mset_eq_imp_distinct_iff by blast
  moreover have "sorted_wrt (\<ge>) (map (unat \<circ> snd) bs)"
    using sorted_sort_key[of "\<lambda>p. - int (unat (snd p))" "drain m"] unfolding bs
    by (simp add: sorted_wrt_map comp_def word_le_def[symmetric] word_le_nat_alt[symmetric])
  moreover have "get_address_balance_from_db P bc a = Ok x" if "(a, x) \<in> set bs" for a x
  proof -
    have "(a, x) \<in> set m" using that ms by (metis mset_eq_setD)
    then have "map_of m a = Some x" using d(1) by simp
    then show ?thesis using d(2)[of a] by (simp add: balance_iff balance_in_def)
  qed
  moreover have "sum_list (map (unat \<circ> snd) bs) = sum_list (map (unat \<circ> snd) m)"
    using mm[of "unat \<circ> snd"] by (metis sum_mset_sum_list)
  then have "sum_list (map (unat \<circ> snd) bs) = utxo_total P (bc_db bc)"
    using balances_sum[OF m] by (simp add: utxo_total_owned)
  ultimately show ?thesis by (auto simp: list_all_iff)
qed

theorem rich_list_partitions_supply_witness:
  "\<exists>bs. get_all_address_balances rev ref_prims sample_chain = Ok bs \<and>
    sum_list (map (unat \<circ> snd) bs) = utxo_total ref_prims (bc_db sample_chain)"
proof -
  have "get_all_address_balances rev ref_prims sample_chain = Ok [(sample_address, 1000000000000000000)]"
    by (simp add: get_all_address_balances_def db_iterator_def sample_chain_def ref_selectors credit_def u256_add_def)
      (simp add: sample_utxo_def)
  from rich_list_partitions_supply[OF this] this show ?thesis by auto
qed

section \<open>Blocks by height\<close>

lemma range_loop_None: "blocks_range_loop P bc None i = all_blocks_loop P bc i"
proof (induction P bc i rule: all_blocks_loop.induct)
  case (1 P bc i)
  then show ?case by (subst blocks_range_loop.simps, subst all_blocks_loop.simps) (auto split: option.splits intro!: arg_cong2[where f = bind_res])
qed

lemma range_loop_Some:
  "blocks_range_loop P bc (Some to) i = Ok bs \<Longrightarrow>
   length bs \<le> Suc to - i \<and> (\<forall>b\<in>set bs. \<exists>n. i \<le> n \<and> n \<le> to \<and> block_at P bc n = Some (Ok (Some b)))"
proof (induction P bc "Some to" i arbitrary: bs rule: blocks_range_loop.induct)
  case (1 P bc i)
  show ?case
  proof (cases "i > to \<or> block_at P bc i = None")
    case True
    then show ?thesis using 1(2) by (subst (asm) blocks_range_loop.simps) (auto split: if_splits)
  next
    case False
    then obtain r where r: "block_at P bc i = Some r" "\<not> i > to" by auto
    then obtain b bs' where b: "r = Ok b" "blocks_range_loop P bc (Some to) (Suc i) = Ok bs'"
      "bs = (case b of None \<Rightarrow> [] | Some blk \<Rightarrow> [blk]) @ bs'"
      using 1(2) by (subst (asm) blocks_range_loop.simps) (auto simp: res_simps)
    have "length bs' \<le> Suc to - Suc i \<and> (\<forall>b\<in>set bs'. \<exists>n. Suc i \<le> n \<and> n \<le> to \<and> block_at P bc n = Some (Ok (Some b)))"
      using 1(1) r b by auto
    then show ?thesis using b r by (auto split: option.splits intro: Suc_leD)
  qed
qed

text \<open>A chain with one block, which spends an output of the sample key.\<close>

definition spent_block :: block where
  "spent_block = sample_genesis\<lparr>transactions := [sample_spend ''b1'' ''aa'' 1]\<rparr>"

definition spent_chain :: "stored blockchain" where
  "spent_chain = sample_chain\<lparr>bc_db := [(block_key ''g'', SBlock spent_block), (index_key 0, SText ''g'')]\<rparr>"

lemma spent_chain_index:
  "block_at ref_prims spent_chain 0 = Some (Ok (Some spent_block))"
  "block_at ref_prims spent_chain (Suc 0) = None"
  by (simp_all add: block_at_def spent_chain_def db_get_def load_block_def ref_selectors)

lemma spent_chain_blocks: "get_all_blocks ref_prims spent_chain = Ok [spent_block]"
  by (simp add: get_all_blocks_def all_blocks_loop.simps[of _ _ 0] all_blocks_loop.simps[of _ _ "Suc 0"]
      spent_chain_index)

text \<open>
  \<open>get_blocks_range\<close> without an upper end from height 0 is \<open>get_all_blocks\<close>, and with an upper
  end it returns only blocks recorded at heights of the range, at most one for each.
\<close>

theorem blocks_range_spec:
  assumes "get_blocks_range P bc from_height (Some to) = Ok bs"
  shows "get_blocks_range P bc 0 None = get_all_blocks P bc \<and>
     length bs \<le> Suc (unat to) - unat from_height \<and>
     (\<forall>b\<in>set bs. \<exists>n. unat from_height \<le> n \<and> n \<le> unat to \<and> block_at P bc n = Some (Ok (Some b)))"
  using assms range_loop_None[of P bc 0] range_loop_Some[of P bc "unat to" "unat from_height" bs]
  by (auto simp: get_blocks_range_def get_all_blocks_def)

theorem blocks_range_spec_witness:
  "get_blocks_range ref_prims spent_chain 0 (Some 5) = Ok [spent_block] \<and>
   get_blocks_range ref_prims spent_chain 0 None = get_all_blocks ref_prims spent_chain"
proof -
  have "get_blocks_range ref_prims spent_chain 0 (Some 5) = Ok [spent_block]"
    by (simp add: get_blocks_range_def blocks_range_loop.simps[of _ _ _ 0]
        blocks_range_loop.simps[of _ _ _ "Suc 0"] spent_chain_index)
  with blocks_range_spec[OF this] show ?thesis by blast
qed

section \<open>Reports\<close>

lemma signed_pubkey_length:
  assumes "hex_ok P" "input_signed P m inp"
  shows "length (in_pubkey inp) = 64"
  using assms length_unhex by (fastforce simp: input_signed_def verify_signature_def split: option.splits if_splits)

text \<open>
  \<open>get_address_sent_from_db\<close> compares the address with the public key of each input, so it
  reports 0 for the address of every key, also for one that has spent, on any chain whose inputs
  carry signatures.
\<close>

theorem sent_amount_always_zero:
  assumes "hex_ok P" "digest_ok P" "get_all_blocks P bc = Ok blocks"
    and "\<forall>tx\<in>set (concat (map transactions blocks)). verify_signatures P tx = Ok True"
  shows "get_address_sent_from_db P bc (address_from_public_key P pk) = Ok 0"
proof -
  let ?a = "address_from_public_key P pk"
  have "\<not> list_ex (\<lambda>inp. in_pubkey inp = ?a) (inputs tx)" if t: "tx \<in> set (concat (map transactions blocks))" for tx
  proof
    assume "list_ex (\<lambda>inp. in_pubkey inp = ?a) (inputs tx)"
    then obtain inp where i: "inp \<in> set (inputs tx)" "in_pubkey inp = ?a" unfolding list_ex_iff by blast
    have "verify_signatures P tx = Ok True" using assms(4) t by blast
    then have "input_signed P (serialize_for_hash P tx) inp" using i(1) by (simp add: verify_signatures_True_iff)
    then have "length ?a = 64" using signed_pubkey_length[OF assms(1)] i(2) by metis
    then show False using address_length[OF assms(2,1), of pk] by simp
  qed
  then have "fold_res (\<lambda>tx total. if inputs tx \<noteq> [] \<and> list_ex (\<lambda>inp. in_pubkey inp = ?a) (inputs tx)
       then sum_amounts (outputs tx) total else Ok total) (concat (map transactions blocks)) 0 =
     fold_res (\<lambda>tx total. Ok total) (concat (map transactions blocks)) 0"
    by (intro fold_res_cong_set) auto
  moreover have "fold_res (\<lambda>tx total. Ok total) xs z = Ok z" for xs and z :: u256
    by (induction xs) auto
  ultimately show ?thesis
    using assms(3) by (simp add: get_address_sent_from_db_def get_all_blocks_cached_def)
qed

theorem sent_amount_always_zero_witness:
  "get_all_blocks ref_prims spent_chain = Ok [spent_block] \<and>
   address_from_pubkey_hex ref_prims (in_pubkey (hd (inputs (sample_spend ''b1'' ''aa'' 1)))) = Ok sample_address \<and>
   get_address_sent_from_db ref_prims spent_chain sample_address = Ok 0"
proof -
  have 2: "\<forall>tx\<in>set (concat (map transactions [spent_block])). verify_signatures ref_prims tx = Ok True"
    using verify_signed[OF ref_prims_ok(4,3) sample_key_wf] by (simp add: spent_block_def sample_spend_def)
  have sa: "sample_address = address_from_public_key ref_prims (verifying_key sample_key)"
    by (simp add: sample_address_def keypair_address_def)
  have "get_address_sent_from_db ref_prims spent_chain sample_address = Ok 0"
    unfolding sa by (rule sent_amount_always_zero[OF _ _ spent_chain_blocks 2]) simp_all
  with spent_chain_blocks sample_address_of_key show ?thesis by simp
qed

lemma tx_entries_txid: "tx_entries P a h tx = Ok es \<Longrightarrow> e \<in> set es \<Longrightarrow> e_txid e = txid tx \<and> e_height e = h"
  by (auto simp: tx_entries_def Let_def res_simps split: if_splits)

lemma history_loop:
  assumes "fold_res (history_step P a) xs (seen, res) = Ok (seen', res')" "e \<in> set res'"
  shows "e \<in> set res \<or> (\<exists>(h, tx)\<in>set xs. (is_receiver a tx \<or> is_sender P a tx) \<and> e_txid e = txid tx \<and> e_height e = h)"
  using assms
proof (induction xs arbitrary: seen res)
  case (Cons x xs)
  obtain h tx where x: "x = (h, tx)" by (cases x)
  obtain seen1 res1 where 1: "history_step P a x (seen, res) = Ok (seen1, res1)"
    "fold_res (history_step P a) xs (seen1, res1) = Ok (seen', res')"
    using Cons.prems(1) by (auto simp: res_simps)
  have "e \<in> set res1 \<Longrightarrow> e \<in> set res \<or> (is_receiver a tx \<or> is_sender P a tx) \<and> e_txid e = txid tx \<and> e_height e = h"
    using 1(1) x tx_entries_txid[of P a h tx _ e] by (auto simp: history_step_def res_simps split: if_splits)
  then show ?case using Cons.IH[OF 1(2) Cons.prems(2)] x by auto
qed simp

text \<open>
  The history of an address is sorted newest first and has at most as many entries as asked
  for; every entry belongs to a transaction of a stored block in which the address takes part.
\<close>

theorem history_sorted_and_relevant:
  assumes "get_address_transactions_from_db P bc a limit = Ok es"
  shows "sorted_wrt (\<lambda>e f. e_height e > e_height f \<or> e_height e = e_height f \<and> e_timestamp e \<ge> e_timestamp f) es \<and>
    (\<forall>n. limit = Some n \<longrightarrow> length es \<le> n) \<and>
    (\<exists>blocks. get_all_blocks P bc = Ok blocks \<and>
      (\<forall>e\<in>set es. \<exists>b\<in>set blocks. \<exists>tx\<in>set (transactions b). (is_receiver a tx \<or> is_sender P a tx) \<and>
         e_txid e = txid tx \<and> e_height e = index (header b)))"
proof -
  obtain blocks seen rs where 1: "get_all_blocks P bc = Ok blocks"
    "fold_res (history_step P a) (concat (map (\<lambda>b. map (\<lambda>tx. (index (header b), tx)) (transactions b)) blocks)) ([], [])
       = Ok (seen, rs)"
    "es = (case limit of None \<Rightarrow> sort_key newest_first rs
        | Some n \<Rightarrow> take n (sort_key newest_first rs))"
    using assms by (auto simp: get_address_transactions_from_db_def get_all_blocks_cached_def res_simps Let_def)
  let ?s = "sort_key newest_first rs"
  have le: "newest_first e \<le> newest_first f \<Longrightarrow>
      e_height e > e_height f \<or> e_height e = e_height f \<and> e_timestamp e \<ge> e_timestamp f" for e f
    by (auto simp: newest_first_def word_less_def word_le_def word_uint_eq_iff less_eq_prod_def)
  have "sorted_wrt (\<lambda>e f. e_height e > e_height f \<or> e_height e = e_height f \<and> e_timestamp e \<ge> e_timestamp f) ?s"
    using sorted_sort_key[of newest_first rs]
    unfolding sorted_wrt_map by (rule sorted_wrt_mono_rel[rotated]) (use le in blast)
  then have "sorted_wrt (\<lambda>e f. e_height e > e_height f \<or> e_height e = e_height f \<and> e_timestamp e \<ge> e_timestamp f) es"
    unfolding 1(3) by (auto split: option.splits intro: sorted_wrt_take)
  moreover have "set es \<subseteq> set rs" unfolding 1(3) by (auto split: option.splits dest: in_set_takeD)
  then have "\<forall>e\<in>set es. \<exists>b\<in>set blocks. \<exists>tx\<in>set (transactions b). (is_receiver a tx \<or> is_sender P a tx) \<and>
         e_txid e = txid tx \<and> e_height e = index (header b)"
    using history_loop[OF 1(2)] by fastforce
  ultimately show ?thesis using 1(1,3) by auto
qed

theorem history_sorted_and_relevant_witness:
  "\<exists>es. get_address_transactions_from_db ref_prims spent_chain ''x'' (Some 3) = Ok es \<and> length es \<le> 3"
proof -
  have "length sample_address = 42" "length (to_lowercase sample_address) = 42"
    by (simp_all add: sample_address_def keypair_address_def address_length to_lowercase_def)
  moreover have "length ''x'' \<noteq> 42" by simp
  ultimately have "to_lowercase sample_address \<noteq> ''x''" "sample_address \<noteq> ''x''" by metis+
  then have 2: "\<exists>es. get_address_transactions_from_db ref_prims spent_chain ''x'' (Some 3) = Ok es"
    using spent_chain_blocks by (simp add: spent_block_def get_address_transactions_from_db_def get_all_blocks_cached_def history_step_def
        is_receiver_def is_sender_def sample_address_of_key)
  then obtain es where "get_address_transactions_from_db ref_prims spent_chain ''x'' (Some 3) = Ok es" by blast
  with history_sorted_and_relevant[OF this] show ?thesis by blast
qed

end
