(* ===== verification/Hash_Map.thy ===== *)
theory Hash_Map
  imports Kv_Store "HOL-Library.Multiset"
begin

text \<open>
  Rust's \<open>HashMap\<close> with string keys, as the pool and the node use it: the entries in some order,
  each key once. What a \<open>HashMap\<close> does not fix is the order in which it is iterated; a definition
  that iterates one takes a function \<open>ord\<close> that arranges the entries, and the theorems assume of it
  only that it permutes them (\<open>arranges\<close>). The map satisfies the interface \<open>kv_store\<close> of the
  database, so the sums over its entries come from there. The texts of \<open>U256\<close> values are the work
  of the crate \<open>primitive-types\<close>: they are the parameter \<open>u256_text\<close>.
\<close>

type_synonym 'v hash_map = "(string \<times> 'v) list"

definition hm_get :: "'v hash_map \<Rightarrow> string \<Rightarrow> 'v option" where
  "hm_get m k = map_of m k"

fun hm_insert :: "string \<Rightarrow> 'v \<Rightarrow> 'v hash_map \<Rightarrow> 'v hash_map" where
  "hm_insert k v [] = [(k, v)]"
| "hm_insert k v ((k', v') # m) = (if k = k' then (k, v) # m else (k', v') # hm_insert k v m)"

definition hm_remove :: "string \<Rightarrow> 'v hash_map \<Rightarrow> 'v hash_map" where
  "hm_remove k m = filter (\<lambda>p. fst p \<noteq> k) m"

definition hm_entries :: "'v hash_map \<Rightarrow> (string \<times> 'v) list" where
  "hm_entries m = m"

definition hm_keys :: "'v hash_map \<Rightarrow> string list" where
  "hm_keys m = map fst m"

definition hm_wf :: "'v hash_map \<Rightarrow> bool" where
  "hm_wf m \<longleftrightarrow> distinct (map fst m)"

definition get_or :: "'v \<Rightarrow> 'v hash_map \<Rightarrow> string \<Rightarrow> 'v" where
  "get_or d m k = (case hm_get m k of None \<Rightarrow> d | Some v \<Rightarrow> v)"

text \<open>\<open>*m.entry(k).or_default() += 1\<close>\<close>

definition hm_count :: "string \<Rightarrow> u64 hash_map \<Rightarrow> u64 hash_map" where
  "hm_count k m = hm_insert k (get_or 0 m k + 1) m"

definition arranges :: "('a list \<Rightarrow> 'a list) \<Rightarrow> bool" where
  "arranges ord \<longleftrightarrow> (\<forall>xs. mset (ord xs) = mset xs)"

lemma set_hm_insert: "set (map fst (hm_insert k v m)) = insert k (set (map fst m))"
  by (induction k v m rule: hm_insert.induct) auto

lemma hm_get_insert [simp]: "hm_get (hm_insert k v m) = (hm_get m)(k \<mapsto> v)"
  unfolding hm_get_def by (induction k v m rule: hm_insert.induct) (auto simp: fun_eq_iff)

lemma hm_get_remove [simp]: "hm_get (hm_remove k m) = (hm_get m)(k := None)"
  by (induction m) (auto simp: hm_get_def hm_remove_def fun_eq_iff)

lemma hm_get_Nil [simp]: "hm_get [] = Map.empty"
  by (simp add: hm_get_def fun_eq_iff)

lemma hm_wf_insert [simp]: "hm_wf m \<Longrightarrow> hm_wf (hm_insert k v m)"
proof (induction k v m rule: hm_insert.induct)
  case (2 k v k' v' m)
  then show ?case using set_hm_insert[of k v m] by (auto simp: hm_wf_def)
qed (simp add: hm_wf_def)

lemma hm_wf_remove [simp]: "hm_wf m \<Longrightarrow> hm_wf (hm_remove k m)"
  by (simp add: hm_wf_def hm_remove_def distinct_map_filter)

lemma hm_wf_Nil [simp]: "hm_wf []"
  by (simp add: hm_wf_def)

lemma hm_wf_count [simp]: "hm_wf m \<Longrightarrow> hm_wf (hm_count k m)"
  by (simp add: hm_count_def)

interpretation hm: kv_store hm_get hm_insert hm_remove hm_entries hm_wf
  by unfold_locales (simp_all, auto simp: hm_get_def fun_eq_iff hm_entries_def hm_wf_def)

lemma get_or_insert [simp]: "get_or d (hm_insert k v m) x = (if x = k then v else get_or d m x)"
  by (simp add: get_or_def)

lemma get_or_count [simp]: "get_or 0 (hm_count k m) x = (if x = k then get_or 0 m k + 1 else get_or 0 m x)"
  by (simp add: hm_count_def)

lemma get_or_Nil [simp]: "get_or d [] k = d"
  by (simp add: get_or_def)

lemma hm_keys_insert [simp]: "set (hm_keys (hm_insert k v m)) = insert k (set (hm_keys m))"
  unfolding hm_keys_def by (rule set_hm_insert)

lemma hm_keys_iff: "k \<in> set (hm_keys m) \<longleftrightarrow> hm_get m k \<noteq> None"
  unfolding hm_keys_def hm_get_def by (force simp: map_of_eq_None_iff)

lemma hm_entry_iff: "hm_wf m \<Longrightarrow> (k, v) \<in> set m \<longleftrightarrow> hm_get m k = Some v"
  using hm.iter_iff[of m k v] by (simp add: hm_entries_def)

lemma arranges_mset [simp]: "arranges ord \<Longrightarrow> mset (ord xs) = mset xs"
  by (simp add: arranges_def)

lemma arranges_set [simp]: "arranges ord \<Longrightarrow> set (ord xs) = set xs"
  by (metis arranges_mset set_mset_mset)

lemma arranges_distinct [simp]: "arranges ord \<Longrightarrow> distinct (map f (ord xs)) = distinct (map f xs)"
  by (metis arranges_mset mset_eq_imp_distinct_iff mset_map)

lemma arranges_sum: "arranges ord \<Longrightarrow> sum_list (map f (ord xs)) = (sum_list (map f xs) :: nat)"
proof -
  assume a: "arranges ord"
  have "sum_mset (mset (map f (ord xs))) = sum_mset (mset (map f xs))"
    by (simp only: mset_map arranges_mset[OF a])
  then show ?thesis by (simp only: sum_mset_sum_list)
qed

lemma hm_wf_arranged [simp]: "arranges ord \<Longrightarrow> hm_wf (ord m) = hm_wf m"
  by (simp add: hm_wf_def)

lemma hm_get_arranged:
  assumes "arranges ord" "hm_wf m"
  shows "hm_get (ord m) = hm_get m"
proof
  fix k
  have "hm_get (ord m) k = Some v \<longleftrightarrow> hm_get m k = Some v" for v
    using assms hm_entry_iff[of "ord m" k v] hm_entry_iff[of m k v] by simp
  then show "hm_get (ord m) k = hm_get m k" by (metis not_Some_eq)
qed

lemma arranges_id [simp]: "arranges (\<lambda>xs. xs)"
  by (simp add: arranges_def)

section \<open>Texts of amounts\<close>

record u256_text =
  to_dec_str :: "u256 \<Rightarrow> string"
  to_hex_str :: "u256 \<Rightarrow> string"
  from_dec_str :: "string \<Rightarrow> u256 option"
  from_hex_str :: "string \<Rightarrow> u256 option"

definition text_ok :: "u256_text \<Rightarrow> bool" where
  "text_ok T \<longleftrightarrow> (\<forall>n. from_dec_str T (to_dec_str T n) = Some n) \<and> (\<forall>n. from_hex_str T (to_hex_str T n) = Some n)"

text \<open>A concrete instance, for the witnesses.\<close>

definition read_u256 :: "string \<Rightarrow> u256 option" where
  "read_u256 s = (case read_nat s of None \<Rightarrow> None | Some n \<Rightarrow> if n < 2 ^ 256 then Some (of_nat n) else None)"

definition ref_text :: u256_text where
  "ref_text = \<lparr>to_dec_str = (\<lambda>n. show_nat (unat n)), to_hex_str = (\<lambda>n. show_nat (unat n)),
     from_dec_str = read_u256, from_hex_str = read_u256\<rparr>"

lemma ref_text_ok [simp]: "text_ok ref_text"
  by (simp add: text_ok_def ref_text_def read_u256_def)

end
