(* ===== verification/Float64.thy ===== *)
theory Float64
  imports Prelude "HOL-Library.Log_Nat"
begin

text \<open>
  The \<open>f64\<close> arithmetic the pool uses for share times and for its fee: finite values are rationals,
  every operation rounds its exact result to 53 significant bits, ties to even, with the smallest
  exponent of the format, and overflows to an infinity. A zero has no sign here, so a division by
  zero is taken as one by the positive zero. A cast from an integer rounds, a cast to an unsigned
  integer truncates and saturates, as in Rust.
\<close>

datatype f64 = NaN | Infinity bool | Fin rat

definition round_even :: "rat \<Rightarrow> int" where
  "round_even x =
     (let f = \<lfloor>x\<rfloor>; d = x - of_int f
      in if d < 1 / 2 \<or> d = 1 / 2 \<and> even f then f else f + 1)"

text \<open>The binary exponent of a positive rational.\<close>

definition log2_floor :: "rat \<Rightarrow> int" where
  "log2_floor x =
     (let (n, d) = quotient_of x; e = int (floorlog 2 (nat n)) - int (floorlog 2 (nat d))
      in if 2 powi e \<le> x then e else e - 1)"

definition f64_round :: "rat \<Rightarrow> f64" where
  "f64_round x =
     (if x = 0 then Fin 0
      else let u = 2 powi (max (log2_floor \<bar>x\<bar> - 52) (- 1074)); r = of_int (round_even (x / u)) * u
           in if \<bar>r\<bar> \<ge> 2 ^ 1024 then Infinity (r < 0) else Fin r)"

definition f64_of_int :: "int \<Rightarrow> f64" where
  "f64_of_int n = f64_round (of_int n)"

fun f64_mul :: "f64 \<Rightarrow> f64 \<Rightarrow> f64" where
  "f64_mul (Fin x) (Fin y) = f64_round (x * y)"
| "f64_mul (Fin x) (Infinity s) = (if x = 0 then NaN else Infinity (s \<noteq> (x < 0)))"
| "f64_mul (Infinity s) (Fin x) = (if x = 0 then NaN else Infinity (s \<noteq> (x < 0)))"
| "f64_mul (Infinity s) (Infinity t) = Infinity (s \<noteq> t)"
| "f64_mul _ _ = NaN"

fun f64_div :: "f64 \<Rightarrow> f64 \<Rightarrow> f64" where
  "f64_div (Fin x) (Fin y) =
     (if y \<noteq> 0 then f64_round (x / y) else if x = 0 then NaN else Infinity (x < 0))"
| "f64_div (Fin x) (Infinity s) = Fin 0"
| "f64_div (Infinity s) (Fin x) = Infinity (s \<noteq> (x < 0))"
| "f64_div _ _ = NaN"

fun f64_add :: "f64 \<Rightarrow> f64 \<Rightarrow> f64" where
  "f64_add (Fin x) (Fin y) = f64_round (x + y)"
| "f64_add (Fin x) (Infinity s) = Infinity s"
| "f64_add (Infinity s) (Fin x) = Infinity s"
| "f64_add (Infinity s) (Infinity t) = (if s = t then Infinity s else NaN)"
| "f64_add _ _ = NaN"

fun f64_neg :: "f64 \<Rightarrow> f64" where
  "f64_neg NaN = NaN"
| "f64_neg (Infinity s) = Infinity (\<not> s)"
| "f64_neg (Fin x) = Fin (- x)"

definition f64_sub :: "f64 \<Rightarrow> f64 \<Rightarrow> f64" where
  "f64_sub x y = f64_add x (f64_neg y)"

fun f64_le :: "f64 \<Rightarrow> f64 \<Rightarrow> bool" where
  "f64_le (Fin x) (Fin y) \<longleftrightarrow> x \<le> y"
| "f64_le (Fin x) (Infinity s) \<longleftrightarrow> \<not> s"
| "f64_le (Infinity s) (Fin x) \<longleftrightarrow> s"
| "f64_le (Infinity s) (Infinity t) \<longleftrightarrow> s \<or> \<not> t"
| "f64_le _ _ \<longleftrightarrow> False"

definition f64_lt :: "f64 \<Rightarrow> f64 \<Rightarrow> bool" where
  "f64_lt x y \<longleftrightarrow> f64_le x y \<and> \<not> f64_le y x"

text \<open>\<open>f64::min\<close> and \<open>f64::max\<close> give the other argument when one is not a number.\<close>

definition f64_min :: "f64 \<Rightarrow> f64 \<Rightarrow> f64" where
  "f64_min x y = (if x = NaN then y else if y = NaN then x else if f64_le x y then x else y)"

definition f64_max :: "f64 \<Rightarrow> f64 \<Rightarrow> f64" where
  "f64_max x y = (if x = NaN then y else if y = NaN then x else if f64_le y x then x else y)"

fun f64_to_u128 :: "f64 \<Rightarrow> nat" where
  "f64_to_u128 NaN = 0"
| "f64_to_u128 (Infinity s) = (if s then 0 else 2 ^ 128 - 1)"
| "f64_to_u128 (Fin x) = (if x < 0 then 0 else min (nat \<lfloor>x\<rfloor>) (2 ^ 128 - 1))"

section \<open>Exact cases\<close>

lemma round_even_of_int [simp]: "round_even (of_int n) = n"
  by (simp add: round_even_def)

lemma log2_floor_le:
  assumes "0 < x"
  shows "2 powi log2_floor x \<le> x"
proof -
  obtain n d where q: "quotient_of x = (n, d)" by (cases "quotient_of x")
  have d: "d > 0" and xnd: "x = of_int n / of_int d" using q quotient_of_denom_pos quotient_of_div by blast+
  then have n: "n > 0" using assms by (simp add: zero_less_divide_iff)
  let ?a = "floorlog 2 (nat n)" and ?b = "floorlog 2 (nat d)"
  have a: "(2::nat) ^ (?a - 1) \<le> nat n" and b: "nat d < 2 ^ ?b" and a0: "0 < ?a"
    using floorlog_bounds[of "nat n" 2] floorlog_bounds[of "nat d" 2] n d by (auto simp: floorlog_def)
  have "of_nat ((2::nat) ^ (?a - 1)) \<le> (of_nat (nat n) :: rat)" "of_nat (nat d) \<le> (of_nat (2 ^ ?b) :: rat)"
    using a b by (simp_all only: of_nat_le_iff less_imp_le)
  then have a': "(2::rat) ^ (?a - 1) \<le> of_int n" and b': "of_int d \<le> (2::rat) ^ ?b" using n d by simp_all
  have "(2::rat) powi (int ?a - int ?b - 1) = 2 ^ (?a - 1) / 2 ^ ?b"
  proof -
    have "int ?a - int ?b - 1 = int (?a - 1) - int ?b" using a0 by simp
    moreover have "(2::rat) powi (int m - int k) = 2 ^ m / 2 ^ k" for m k by (simp add: power_int_diff)
    ultimately show ?thesis by presburger
  qed
  also have "\<dots> \<le> of_int n / of_int d" using a' b' d n by (intro frac_le) auto
  finally have "2 powi (int ?a - int ?b - 1) \<le> x" using xnd by simp
  then show ?thesis by (auto simp: log2_floor_def q Let_def)
qed

text \<open>A value with at most 53 significant bits and an exponent in range is its own rounding.\<close>

lemma f64_round_exact:
  assumes "\<bar>k\<bar> < 2 ^ 53" "-1074 \<le> j" "j \<le> 900"
  shows "f64_round (of_int k * 2 powi j) = Fin (of_int k * 2 powi j)"
proof (cases "k = 0")
  case False
  define x where "x = (of_int k * 2 powi j :: rat)"
  have x: "x \<noteq> 0" "\<bar>x\<bar> = of_int \<bar>k\<bar> * 2 powi j" using False by (simp_all add: x_def abs_mult)
  let ?e = "max (log2_floor \<bar>x\<bar> - 52) (- 1074)"
  have "(2::rat) powi log2_floor \<bar>x\<bar> \<le> of_int \<bar>k\<bar> * 2 powi j" using log2_floor_le[of "\<bar>x\<bar>"] x by simp
  also have "\<dots> < 2 ^ 53 * 2 powi j"
    using assms(1) by (intro mult_strict_right_mono) (metis of_int_less_iff of_int_numeral of_int_power, simp)
  also have "\<dots> = 2 powi (53 + j)" by (simp add: power_int_add)
  finally have "log2_floor \<bar>x\<bar> < 53 + j" by (metis linorder_not_less one_le_numeral power_int_increasing order_less_le_trans less_irrefl)
  then have e: "?e \<le> j" using assms(2) by simp
  have "x / 2 powi ?e = of_int k * 2 powi (j - ?e)" by (simp add: x_def power_int_diff)
  also have "\<dots> = of_int (k * 2 ^ nat (j - ?e))" using e by (simp add: power_int_def)
  finally have r: "of_int (round_even (x / 2 powi ?e)) * 2 powi ?e = x"
    by (metis nonzero_divide_eq_eq power_int_eq_0_iff round_even_of_int zero_neq_numeral)
  have "\<bar>x\<bar> < 2 ^ 53 * 2 powi j"
    unfolding x(2) using assms(1) by (intro mult_strict_right_mono) (metis of_int_less_iff of_int_numeral of_int_power, simp)
  also have "\<dots> = 2 powi (53 + j)" by (simp add: power_int_add)
  also have "\<dots> \<le> 2 powi 1024" using assms(3) by (intro power_int_increasing) auto
  finally have "\<bar>x\<bar> < 2 ^ 1024" by (simp only: power_int_numeral)
  then have "\<not> 2 ^ 1024 \<le> \<bar>x\<bar>" by (simp only: not_le not_False_eq_True)
  then show ?thesis using x(1) r unfolding f64_round_def x_def[symmetric] Let_def by (simp only: if_False)
qed (simp add: f64_round_def)

lemma f64_of_int_exact: "\<bar>k\<bar> < 2 ^ 53 \<Longrightarrow> f64_of_int k = Fin (of_int k)"
  using f64_round_exact[of k 0] by (simp add: f64_of_int_def)

section \<open>Bounded values stay finite\<close>

definition fin_le :: "rat \<Rightarrow> f64 \<Rightarrow> bool" where
  "fin_le b x \<longleftrightarrow> (\<exists>r. x = Fin r \<and> \<bar>r\<bar> \<le> b)"

lemma round_even_near: "\<bar>of_int (round_even x) - x\<bar> \<le> 1"
proof -
  have "of_int \<lfloor>x\<rfloor> \<le> x" "x < of_int \<lfloor>x\<rfloor> + 1" by linarith+
  then show ?thesis by (auto simp: round_even_def Let_def)
qed

lemma f64_round_bounded:
  assumes "\<bar>x\<bar> \<le> b" "b \<le> 2 ^ 1000"
  shows "fin_le (2 * b + 1) (f64_round x)"
proof (cases "x = 0")
  case False
  define u where "u = (2 powi (max (log2_floor \<bar>x\<bar> - 52) (- 1074)) :: rat)"
  define r where "r = of_int (round_even (x / u)) * u"
  have u: "0 < u" by (simp add: u_def)
  have "2 powi (log2_floor \<bar>x\<bar> - 52) \<le> (2 :: rat) powi log2_floor \<bar>x\<bar>" by (intro power_int_increasing) auto
  also have "\<dots> \<le> \<bar>x\<bar>" using False by (intro log2_floor_le) simp
  finally have le: "2 powi (log2_floor \<bar>x\<bar> - 52) \<le> \<bar>x\<bar>" .
  have small: "(2 :: rat) powi (- 1074) \<le> 1" using power_int_increasing[of "- 1074" 0 "2 :: rat"] by simp
  have "u \<le> \<bar>x\<bar> + 1" using le small unfolding u_def max_def by auto
  moreover have "\<bar>r - x\<bar> \<le> u"
  proof -
    have "r - x = (of_int (round_even (x / u)) - x / u) * u" using u by (simp add: r_def left_diff_distrib)
    then have "\<bar>r - x\<bar> = \<bar>of_int (round_even (x / u)) - x / u\<bar> * u" using u by (simp add: abs_mult)
    also have "\<dots> \<le> 1 * u" using round_even_near[of "x / u"] u by (intro mult_right_mono) auto
    finally show ?thesis by simp
  qed
  ultimately have r: "\<bar>r\<bar> \<le> 2 * b + 1" using assms(1) by linarith
  also have "\<dots> < 2 ^ 1024"
  proof -
    have "2 * b + 1 \<le> 2 * 2 ^ 1000 + 1" using assms(2) by simp
    also have "\<dots> < (2 :: rat) ^ 1024" by simp
    finally show ?thesis .
  qed
  finally have "\<not> \<bar>r\<bar> \<ge> 2 ^ 1024" by (simp only: not_le)
  then show ?thesis using False r unfolding f64_round_def Let_def u_def[symmetric] r_def[symmetric]
    by (simp only: if_False fin_le_def) blast
qed (use assms in \<open>auto simp: f64_round_def fin_le_def\<close>)

lemma fin_round:
  assumes "\<bar>x\<bar> \<le> 2 ^ k" "k \<le> 1000"
  shows "fin_le (2 ^ (k + 2)) (f64_round x)"
proof -
  have "(1::rat) \<le> 2 * 2 ^ k" using one_le_power[of "2::rat" k] by linarith
  then have "2 * (2::rat) ^ k + 1 \<le> 2 ^ (k + 2)" by (simp add: power_add)
  moreover have "(2::rat) ^ k \<le> 2 ^ 1000" using assms(2) by (intro power_increasing) auto
  ultimately show ?thesis using f64_round_bounded[OF assms(1)] by (fastforce simp: fin_le_def)
qed

lemma fin_mono: "fin_le (2 ^ a) x \<Longrightarrow> a \<le> b \<Longrightarrow> fin_le (2 ^ b) x"
proof -
  assume h: "fin_le (2 ^ a) x" "a \<le> b"
  have "(2::rat) ^ a \<le> 2 ^ b" using h(2) by (intro power_increasing) auto
  with h(1) show ?thesis unfolding fin_le_def using order.trans by blast
qed

lemma fin_of_int: "\<bar>n\<bar> \<le> 2 ^ k \<Longrightarrow> k \<le> 1000 \<Longrightarrow> fin_le (2 ^ (k + 2)) (f64_of_int n)"
  unfolding f64_of_int_def by (intro fin_round) (metis of_int_abs of_int_le_iff of_int_numeral of_int_power)

lemma fin_mul:
  assumes "fin_le (2 ^ a) x" "fin_le (2 ^ b) y" "a + b \<le> 1000"
  shows "fin_le (2 ^ (a + b + 2)) (f64_mul x y)"
proof -
  obtain r s where rs: "x = Fin r" "y = Fin s" "\<bar>r\<bar> \<le> 2 ^ a" "\<bar>s\<bar> \<le> 2 ^ b" using assms by (auto simp: fin_le_def)
  then have "\<bar>r * s\<bar> \<le> 2 ^ (a + b)" by (simp add: abs_mult power_add mult_mono)
  then show ?thesis using fin_round assms(3) rs by simp
qed

lemma fin_div:
  assumes "fin_le (2 ^ a) x" "y = Fin s" "1 \<le> \<bar>s\<bar>" "a \<le> 1000"
  shows "fin_le (2 ^ (a + 2)) (f64_div x y)"
proof -
  obtain r where r: "x = Fin r" "\<bar>r\<bar> \<le> 2 ^ a" using assms by (auto simp: fin_le_def)
  have "\<bar>r\<bar> / \<bar>s\<bar> \<le> \<bar>r\<bar>" using assms(3) mult_left_mono[of 1 "\<bar>s\<bar>" "\<bar>r\<bar>"] by (auto simp: divide_le_eq)
  then have "\<bar>r / s\<bar> \<le> 2 ^ a" using r(2) by (simp add: abs_divide)
  then show ?thesis using fin_round assms r by auto
qed

lemma fin_add:
  assumes "fin_le (2 ^ a) x" "fin_le (2 ^ a) y" "a < 1000"
  shows "fin_le (2 ^ (a + 3)) (f64_add x y)"
proof -
  obtain r s where rs: "x = Fin r" "y = Fin s" "\<bar>r\<bar> \<le> 2 ^ a" "\<bar>s\<bar> \<le> 2 ^ a" using assms by (auto simp: fin_le_def)
  then have "\<bar>r + s\<bar> \<le> 2 ^ Suc a" using abs_triangle_ineq[of r s] by simp
  then show ?thesis using fin_round[of "r + s" "Suc a"] assms(3) rs by (simp add: power_add mult.commute)
qed

lemma fin_neg: "fin_le b x \<Longrightarrow> fin_le b (f64_neg x)"
  by (auto simp: fin_le_def)

lemma fin_sub: "fin_le (2 ^ a) x \<Longrightarrow> fin_le (2 ^ a) y \<Longrightarrow> a < 1000 \<Longrightarrow> fin_le (2 ^ (a + 3)) (f64_sub x y)"
  unfolding f64_sub_def by (intro fin_add fin_neg)

lemma fin_min_max:
  "fin_le b x \<Longrightarrow> fin_le b y \<Longrightarrow> fin_le b (f64_min x y)" "fin_le b x \<Longrightarrow> fin_le b y \<Longrightarrow> fin_le b (f64_max x y)"
  by (auto simp: fin_le_def f64_min_def f64_max_def)

section \<open>Sorting by descending keys\<close>

text \<open>\<open>sort_by\<close> with \<open>partial_cmp\<close> of the keys in reverse, where values that do not compare count as equal:
  a stable sort.\<close>

fun insert_desc :: "('a \<Rightarrow> f64) \<Rightarrow> 'a \<Rightarrow> 'a list \<Rightarrow> 'a list" where
  "insert_desc f x [] = [x]"
| "insert_desc f x (y # ys) = (if f64_lt (f x) (f y) then y # insert_desc f x ys else x # y # ys)"

definition sort_desc :: "('a \<Rightarrow> f64) \<Rightarrow> 'a list \<Rightarrow> 'a list" where
  "sort_desc f xs = foldr (insert_desc f) xs []"

lemma set_insert_desc [simp]: "set (insert_desc f x ys) = insert x (set ys)"
  by (induction ys) auto

lemma f64_fin_total: "fin_le b x \<Longrightarrow> fin_le b y \<Longrightarrow> f64_le x y \<or> f64_le y x"
  by (auto simp: fin_le_def)

lemma f64_le_trans: "f64_le x y \<Longrightarrow> f64_le y z \<Longrightarrow> f64_le x z"
  by (cases x; cases y; cases z) auto

lemma sorted_insert_desc:
  assumes "sorted_wrt (\<lambda>a b. f64_le (f b) (f a)) ys" "\<forall>y\<in>insert x (set ys). fin_le b (f y)"
  shows "sorted_wrt (\<lambda>a b. f64_le (f b) (f a)) (insert_desc f x ys)"
  using assms
proof (induction ys)
  case (Cons y ys)
  show ?case
  proof (cases "f64_lt (f x) (f y)")
    case True
    then show ?thesis using Cons by (auto simp: f64_lt_def)
  next
    case False
    then have "f64_le (f y) (f x)" using f64_fin_total[of b "f x" "f y"] Cons.prems(2) by (auto simp: f64_lt_def)
    then show ?thesis using Cons.prems(1) False f64_le_trans by auto
  qed
qed simp

lemma sorted_sort_desc:
  assumes "\<forall>x\<in>set xs. fin_le b (f x)"
  shows "sorted_wrt (\<lambda>a b. f64_le (f b) (f a)) (sort_desc f xs) \<and> set (sort_desc f xs) = set xs"
  using assms
proof (induction xs)
  case (Cons x xs)
  then show ?case using sorted_insert_desc[of f "sort_desc f xs" x b] by (simp add: sort_desc_def)
qed (simp add: sort_desc_def)

end
