(* ===== verification/Explorer_Db.thy ===== *)
theory Explorer_Db
  imports Hash_Map Float64
begin

text \<open>
  The database of the block explorer (\<open>explorer/src/db.rs\<close> with the structs of \<open>state.rs\<close>): an index
  of blocks, transactions, addresses and unspent outputs in a RocksDB store of its own, with running
  counters. The store is the ordered key/value store of theory \<open>Kv_Store\<close>. What \<open>serde_json\<close>, the texts
  of \<open>U256\<close> and \<open>chrono\<close> do is the record \<open>ex_codec\<close>; a time is its whole seconds. Counters wrap as in a
  release build; an overflow of \<open>U256\<close> panics (\<open>ExPanic\<close>). I/O errors do not occur.
\<close>

section \<open>Records and codecs\<close>

record block_info =
  bi_height :: u64
  bi_hash :: string
  bi_timestamp :: int
  bi_transactions :: nat
  bi_miner :: string
  bi_difficulty :: u32
  bi_nonce :: u64
  bi_previous_hash :: string
  bi_confirmations :: u64

record transaction_info =
  ti_hash :: string
  ti_txid :: string
  ti_from :: string
  ti_to :: string
  ti_amount :: u256
  ti_fee :: u256
  ti_total :: u256
  ti_timestamp :: int
  ti_block_height :: "u64 option"
  ti_status :: string
  ti_confirmations :: "u64 option"

record address_info =
  ai_address :: string
  ai_balance :: u256
  ai_sent :: u256
  ai_received :: u256
  ai_transaction_count :: nat
  ai_last_transaction :: "int option"

record rich_list_entry =
  rank :: nat
  rl_address :: string
  rl_balance :: u256
  percentage :: f64

datatype ex_error = ExUtf8 | ExParse | ExJson | ExPanic

record 'v ex_codec =
  enc_block_info :: "block_info \<Rightarrow> 'v"
  dec_block_info :: "'v \<Rightarrow> block_info option"
  enc_tx_info :: "transaction_info \<Rightarrow> 'v"
  dec_tx_info :: "'v \<Rightarrow> transaction_info option"
  enc_addr_info :: "address_info \<Rightarrow> 'v"
  dec_addr_info :: "'v \<Rightarrow> address_info option"
  ex_text :: "string \<Rightarrow> 'v"
  ex_utf8 :: "'v \<Rightarrow> string option"
  ex_lossy :: "'v \<Rightarrow> string"
  ex_amounts :: u256_text
  ex_time :: "int \<Rightarrow> int option"

definition ex_codec_ok :: "'v ex_codec \<Rightarrow> bool" where
  "ex_codec_ok C \<longleftrightarrow>
     (\<forall>b. dec_block_info C (enc_block_info C b) = Some b) \<and>
     (\<forall>t. dec_tx_info C (enc_tx_info C t) = Some t) \<and>
     (\<forall>a. dec_addr_info C (enc_addr_info C a) = Some a) \<and>
     (\<forall>s. ex_utf8 C (ex_text C s) = Some s) \<and> (\<forall>s. ex_lossy C (ex_text C s) = s) \<and>
     text_ok (ex_amounts C)"

lemma ex_codec_simps [simp]:
  assumes "ex_codec_ok C"
  shows "dec_block_info C (enc_block_info C b) = Some b" "dec_tx_info C (enc_tx_info C t) = Some t"
    "dec_addr_info C (enc_addr_info C a) = Some a" "ex_utf8 C (ex_text C s) = Some s" "ex_lossy C (ex_text C s) = s"
    "from_dec_str (ex_amounts C) (to_dec_str (ex_amounts C) n) = Some n"
    "from_hex_str (ex_amounts C) (to_hex_str (ex_amounts C) n) = Some n"
  using assms by (simp_all add: ex_codec_ok_def text_ok_def)

section \<open>Keys and scans\<close>

definition ex_block_key :: "u64 \<Rightarrow> string" where
  "ex_block_key height = ''b:'' @ show_nat (unat height)"

definition hash_key :: "string \<Rightarrow> string" where
  "hash_key hash = ''bh:'' @ hash"

definition ex_tx_key :: "string \<Rightarrow> string" where
  "ex_tx_key hash = ''t:'' @ hash"

definition show_int :: "int \<Rightarrow> string" where
  "show_int n = (if n < 0 then ''-'' @ show_nat (nat (- n)) else show_nat (nat n))"

definition ta_key :: "string \<Rightarrow> int \<Rightarrow> string \<Rightarrow> string" where
  "ta_key address ts hash = ''ta:'' @ address @ '':'' @ show_int ts @ '':'' @ hash"

definition tb_key :: "u64 \<Rightarrow> string \<Rightarrow> string" where
  "tb_key height hash = ''tb:'' @ show_nat (unat height) @ '':'' @ hash"

definition addr_key :: "string \<Rightarrow> string" where
  "addr_key address = ''addr:'' @ address"

definition eu_key :: "string \<Rightarrow> string \<Rightarrow> u32 \<Rightarrow> string" where
  "eu_key address t vout = ''eu:'' @ address @ '':'' @ t @ '':'' @ show_nat (unat vout)"

definition eur_key :: "string \<Rightarrow> u32 \<Rightarrow> string" where
  "eur_key t vout = ''eur:'' @ t @ '':'' @ show_nat (unat vout)"

text \<open>\<open>format!("{:020}", n)\<close>\<close>

definition pad20 :: "nat \<Rightarrow> string" where
  "pad20 n = (let s = show_nat n in replicate (20 - length s) (CHR ''0'') @ s)"

definition make_ti_key :: "transaction_info \<Rightarrow> string" where
  "make_ti_key tx =
     (let ts = ti_timestamp tx;
          ts_u64 = (if ts < 0 then 0 else of_int ts :: u64);
          inverted = - 1 - ts_u64
      in ''ti:'' @ pad20 (unat inverted) @ '':'' @ ti_hash tx)"

text \<open>\<open>iter.seek(prefix)\<close> and the loop that breaks at the first key without the prefix.\<close>

definition seek_prefix :: "string \<Rightarrow> 'v db \<Rightarrow> (string \<times> 'v) list" where
  "seek_prefix p d = takeWhile (\<lambda>e. starts_with p (fst e)) (dropWhile (\<lambda>e. fst e < p) (db_iterator d))"

section \<open>Counters\<close>

definition read_counter :: "'v ex_codec \<Rightarrow> 'v db \<Rightarrow> string \<Rightarrow> (ex_error, u64) result" where
  "read_counter C d key =
     (case db_get d key of
        None \<Rightarrow> Ok 0
      | Some data \<Rightarrow>
          bind_res (ok_or ExUtf8 (ex_utf8 C data)) (\<lambda>s.
          bind_res (ok_or ExParse (from_str_radix 64 10 s)) (\<lambda>n. Ok (of_nat n))))"

definition read_amount :: "'v ex_codec \<Rightarrow> 'v db \<Rightarrow> string \<Rightarrow> (ex_error, u256) result" where
  "read_amount C d key =
     (case db_get d key of
        None \<Rightarrow> Ok 0
      | Some data \<Rightarrow>
          bind_res (ok_or ExUtf8 (ex_utf8 C data)) (\<lambda>s.
          Ok (case from_dec_str (ex_amounts C) s of Some n \<Rightarrow> n | None \<Rightarrow> 0)))"

definition ok_else :: "'a \<Rightarrow> ('e, 'a) result \<Rightarrow> 'a" where
  "ok_else x r = (case r of Ok y \<Rightarrow> y | Err _ \<Rightarrow> x)"

definition counter_text :: "'v ex_codec \<Rightarrow> u64 \<Rightarrow> 'v" where
  "counter_text C n = ex_text C (show_nat (unat n))"

definition amount_text :: "'v ex_codec \<Rightarrow> u256 \<Rightarrow> 'v" where
  "amount_text C n = ex_text C (to_dec_str (ex_amounts C) n)"

definition get_last_indexed_height :: "'v ex_codec \<Rightarrow> 'v db \<Rightarrow> (ex_error, u64) result" where
  "get_last_indexed_height C d = read_counter C d ''meta:last_height''"

definition get_block_count :: "'v ex_codec \<Rightarrow> 'v db \<Rightarrow> (ex_error, u64) result" where
  "get_block_count C d = read_counter C d ''meta:block_count''"

definition set_block_count :: "'v ex_codec \<Rightarrow> u64 \<Rightarrow> 'v db \<Rightarrow> 'v db" where
  "set_block_count C n d = db_put ''meta:block_count'' (counter_text C n) d"

definition get_transaction_count :: "'v ex_codec \<Rightarrow> 'v db \<Rightarrow> (ex_error, u64) result" where
  "get_transaction_count C d = read_counter C d ''meta:tx_count''"

definition set_transaction_count :: "'v ex_codec \<Rightarrow> u64 \<Rightarrow> 'v db \<Rightarrow> 'v db" where
  "set_transaction_count C n d = db_put ''meta:tx_count'' (counter_text C n) d"

definition get_total_volume :: "'v ex_codec \<Rightarrow> 'v db \<Rightarrow> (ex_error, u256) result" where
  "get_total_volume C d = read_amount C d ''meta:total_volume''"

definition get_last_synced_height :: "'v ex_codec \<Rightarrow> 'v db \<Rightarrow> (ex_error, u64) result" where
  "get_last_synced_height C d = read_counter C d ''meta:last_synced''"

definition set_last_synced_height :: "'v ex_codec \<Rightarrow> u64 \<Rightarrow> 'v db \<Rightarrow> 'v db" where
  "set_last_synced_height C n d = db_put ''meta:last_synced'' (counter_text C n) d"

definition get_stats_db :: "'v ex_codec \<Rightarrow> 'v db \<Rightarrow> (ex_error, u64 \<times> u64 \<times> u256) result" where
  "get_stats_db C d =
     bind_res (get_block_count C d) (\<lambda>block_count.
     bind_res (get_transaction_count C d) (\<lambda>tx_count.
     bind_res (get_total_volume C d) (\<lambda>total_volume. Ok (block_count, tx_count, total_volume))))"

definition get_address_count :: "'v ex_codec \<Rightarrow> 'v db \<Rightarrow> (ex_error, u64) result" where
  "get_address_count C d = read_counter C d ''meta:address_count''"

definition get_circulating_supply :: "'v ex_codec \<Rightarrow> 'v db \<Rightarrow> (ex_error, u256) result" where
  "get_circulating_supply C d = read_amount C d ''meta:circulating_supply''"

section \<open>Blocks\<close>

definition hash_lookup_candidates :: "string \<Rightarrow> string list" where
  "hash_lookup_candidates hash =
     (let trimmed = trim hash;
          no_prefix = (case strip_prefix ''0x'' trimmed of
             Some s \<Rightarrow> s
           | None \<Rightarrow> (case strip_prefix ''0X'' trimmed of Some s \<Rightarrow> s | None \<Rightarrow> trimmed));
          push_unique = (\<lambda>value candidates.
             if value \<noteq> [] \<and> value \<notin> set candidates then candidates @ [value] else candidates)
      in fold push_unique [trimmed, no_prefix, to_lowercase trimmed, to_lowercase no_prefix] [])"

definition save_block :: "'v ex_codec \<Rightarrow> block_info \<Rightarrow> 'v db \<Rightarrow> 'v db" where
  "save_block C block d =
     (let block_key = ex_block_key (bi_height block);
          is_new = (db_get d block_key = None);
          current_count = ok_else 0 (get_block_count C d);
          prev_last = ok_else 0 (get_last_indexed_height C d);
          batch = [Put block_key (enc_block_info C block),
                   Put (hash_key (bi_hash block)) (counter_text C (bi_height block))]
            @ (if is_new then [Put ''meta:block_count'' (counter_text C (current_count + 1))] else [])
            @ (if bi_height block \<ge> prev_last then [Put ''meta:last_height'' (counter_text C (bi_height block))] else [])
      in put_batch d batch)"

definition get_block_by_height :: "'v ex_codec \<Rightarrow> 'v db \<Rightarrow> u64 \<Rightarrow> (ex_error, block_info option) result" where
  "get_block_by_height C d height =
     (case db_get d (ex_block_key height) of
        None \<Rightarrow> Ok None
      | Some data \<Rightarrow>
          bind_res (ok_or ExJson (dec_block_info C data)) (\<lambda>block.
          bind_res (get_last_indexed_height C d) (\<lambda>tip.
          Ok (Some (block\<lparr>bi_confirmations := if tip > height then tip - height else 0\<rparr>)))))"

definition get_latest_block :: "'v ex_codec \<Rightarrow> 'v db \<Rightarrow> (ex_error, block_info option) result" where
  "get_latest_block C d =
     bind_res (get_last_indexed_height C d) (\<lambda>h.
     bind_res (if h = 0 then bind_res (get_block_count C d) (\<lambda>n. Ok (n = 0)) else Ok False) (\<lambda>empty.
     if empty then Ok None else get_block_by_height C d h))"

fun first_block :: "'v ex_codec \<Rightarrow> 'v db \<Rightarrow> string list \<Rightarrow> (ex_error, block_info option) result" where
  "first_block C d [] = Ok None"
| "first_block C d (candidate # rest) =
     (case db_get d (hash_key candidate) of
        Some height_bytes \<Rightarrow>
          bind_res (ok_or ExUtf8 (ex_utf8 C height_bytes)) (\<lambda>height_str.
          bind_res (ok_or ExParse (from_str_radix 64 10 height_str)) (\<lambda>height.
          get_block_by_height C d (of_nat height)))
      | None \<Rightarrow> first_block C d rest)"

definition get_block_by_hash :: "'v ex_codec \<Rightarrow> 'v db \<Rightarrow> string \<Rightarrow> (ex_error, block_info option) result" where
  "get_block_by_hash C d hash = first_block C d (hash_lookup_candidates hash)"

text \<open>The blocks of a list of heights that are stored.\<close>

definition blocks_at :: "'v ex_codec \<Rightarrow> 'v db \<Rightarrow> nat list \<Rightarrow> (ex_error, block_info list) result" where
  "blocks_at C d heights =
     concat_res (\<lambda>h. bind_res (get_block_by_height C d (of_nat h)) (\<lambda>b.
       Ok (case b of Some x \<Rightarrow> [x] | None \<Rightarrow> []))) heights"

definition compute_avg_block_time :: "'v ex_codec \<Rightarrow> 'v db \<Rightarrow> u64 \<Rightarrow> (ex_error, f64) result" where
  "compute_avg_block_time C d sample =
     bind_res (get_last_indexed_height C d) (\<lambda>last_h.
     if last_h < 2 then Ok (Fin 0)
     else
       bind_res (blocks_at C d [unat (sat_sub last_h sample)..<Suc (unat last_h)]) (\<lambda>bs.
       let times = map bi_timestamp bs in
       if length times < 2 then Ok (Fin 0)
       else Ok (f64_div (f64_of_int (i64 (last times - hd times))) (f64_of_int (int (length times) - 1)))))"

definition get_blocks :: "'v ex_codec \<Rightarrow> 'v db \<Rightarrow> u32 \<Rightarrow> u32 \<Rightarrow> (ex_error, block_info list) result" where
  "get_blocks C d page limit =
     bind_res (get_last_indexed_height C d) (\<lambda>last_height.
     bind_res (get_block_count C d) (\<lambda>total_blocks.
     if total_blocks = 0 then Ok []
     else
       let skip = ucast ((page - 1) * limit) :: u64
       in if skip \<ge> total_blocks then Ok []
          else
            let start_height = sat_sub last_height skip;
                end_height = sat_sub start_height (ucast limit - 1)
            in blocks_at C d (rev [unat end_height..<Suc (unat start_height)])))"

section \<open>Transactions\<close>

definition save_transaction :: "'v ex_codec \<Rightarrow> transaction_info \<Rightarrow> 'v db \<Rightarrow> (ex_error, 'v db) result" where
  "save_transaction C tx d =
     (let tx_key = ex_tx_key (ti_hash tx);
          is_new = (db_get d tx_key = None);
          batch = [Put tx_key (enc_tx_info C tx),
                   Put (make_ti_key tx) (ex_text C (ti_hash tx)),
                   Put (ta_key (ti_from tx) (ti_timestamp tx) (ti_hash tx)) (ex_text C []),
                   Put (ta_key (ti_to tx) (ti_timestamp tx) (ti_hash tx)) (ex_text C [])]
            @ (case ti_block_height tx of
                 Some height \<Rightarrow> [Put (tb_key height (ti_hash tx)) (ex_text C (ti_hash tx))] | None \<Rightarrow> [])
      in if \<not> is_new then Ok (put_batch d batch)
         else
           let current_count = ok_else 0 (get_transaction_count C d);
               current_volume = ok_else 0 (get_total_volume C d)
           in bind_res (ok_or ExPanic (u256_add current_volume (ti_amount tx))) (\<lambda>new_volume.
              bind_res (if ti_from tx = ''Block_Reward''
                  then bind_res (ok_or ExPanic (u256_add (ok_else 0 (get_circulating_supply C d)) (ti_amount tx)))
                         (\<lambda>supply. Ok [Put ''meta:circulating_supply'' (amount_text C supply)])
                  else Ok []) (\<lambda>supply_put.
              Ok (put_batch d (batch @ [Put ''meta:tx_count'' (counter_text C (current_count + 1)),
                Put ''meta:total_volume'' (amount_text C new_volume)] @ supply_put)))))"

fun first_tx :: "'v ex_codec \<Rightarrow> 'v db \<Rightarrow> string list \<Rightarrow> (ex_error, transaction_info option) result" where
  "first_tx C d [] = Ok None"
| "first_tx C d (candidate # rest) =
     (case db_get d (ex_tx_key candidate) of
        Some data \<Rightarrow>
          bind_res (ok_or ExJson (dec_tx_info C data)) (\<lambda>tx.
          case ti_block_height tx of
            Some block_height \<Rightarrow>
              bind_res (get_block_count C d) (\<lambda>current_height.
              Ok (Some (tx\<lparr>ti_confirmations :=
                Some (if current_height > block_height then current_height - block_height else 0)\<rparr>)))
          | None \<Rightarrow> Ok (Some (tx\<lparr>ti_confirmations := None\<rparr>)))
      | None \<Rightarrow> first_tx C d rest)"

definition get_transaction_db :: "'v ex_codec \<Rightarrow> 'v db \<Rightarrow> string \<Rightarrow> (ex_error, transaction_info option) result" where
  "get_transaction_db C d hash = first_tx C d (hash_lookup_candidates hash)"

text \<open>The loop of \<open>get_transactions\<close> over the entries of the time index that are not skipped.\<close>

fun collect_txs :: "'v ex_codec \<Rightarrow> 'v db \<Rightarrow> nat \<Rightarrow> (string \<times> 'v) list \<Rightarrow> transaction_info list
    \<Rightarrow> (ex_error, transaction_info list) result" where
  "collect_txs C d limit [] results = Ok results"
| "collect_txs C d limit ((key, hash_bytes) # rest) results =
     (if length results < limit
      then bind_res (get_transaction_db C d (ex_lossy C hash_bytes)) (\<lambda>tx.
           collect_txs C d limit rest (results @ (case tx of Some t \<Rightarrow> [t] | None \<Rightarrow> [])))
      else Ok results)"

definition get_transactions :: "'v ex_codec \<Rightarrow> 'v db \<Rightarrow> u32 \<Rightarrow> u32 \<Rightarrow> (ex_error, transaction_info list) result" where
  "get_transactions C d page limit =
     (let skip = unat ((page - 1) * limit)
      in collect_txs C d (unat limit) (drop skip (seek_prefix ''ti:'' d)) [])"

text \<open>The distinct hashes in order of first occurrence.\<close>

fun distinct_first :: "string list \<Rightarrow> string list \<Rightarrow> string list" where
  "distinct_first seen [] = []"
| "distinct_first seen (x # xs) = (if x \<in> set seen then distinct_first seen xs else x # distinct_first (x # seen) xs)"

definition get_transactions_by_address :: "'v ex_codec \<Rightarrow> 'v db \<Rightarrow> string \<Rightarrow> (ex_error, transaction_info list) result" where
  "get_transactions_by_address C d address =
     (let prefix = ''ta:'' @ address @ '':'';
          tx_hashes = List.map_filter (\<lambda>(key, _).
            let parts = split_on (CHR '':'') key
            in if length parts = 4 then Some (parts ! 3) else None) (seek_prefix prefix d)
      in bind_res (concat_res (\<lambda>hash. bind_res (get_transaction_db C d hash) (\<lambda>tx.
             Ok (case tx of Some t \<Rightarrow> [t] | None \<Rightarrow> []))) (distinct_first [] tx_hashes)) (\<lambda>transactions.
         Ok (sort_key (\<lambda>t. - ti_timestamp t) transactions)))"

section \<open>Unspent outputs\<close>

definition has_utxo_data :: "'v db \<Rightarrow> bool" where
  "has_utxo_data d =
     (case dropWhile (\<lambda>e. fst e < ''eu:'') (db_iterator d) of
        [] \<Rightarrow> False
      | (k, _) # _ \<Rightarrow> starts_with ''eu:'' k)"

definition save_utxo :: "'v ex_codec \<Rightarrow> string \<Rightarrow> u32 \<Rightarrow> string \<Rightarrow> u256 \<Rightarrow> 'v db \<Rightarrow> 'v db" where
  "save_utxo C t vout address amount d =
     db_put (eu_key address t vout) (ex_text C (to_hex_str (ex_amounts C) amount)) d"

definition remove_utxo :: "string \<Rightarrow> u32 \<Rightarrow> string \<Rightarrow> 'v db \<Rightarrow> 'v db" where
  "remove_utxo t vout address d = db_delete (eu_key address t vout) d"

definition create_ops :: "'v ex_codec \<Rightarrow> string \<times> u32 \<times> string \<times> u256 \<Rightarrow> 'v write_op list" where
  "create_ops C = (\<lambda>(t, vout, address, amount).
     [Put (eu_key address t vout) (ex_text C (to_hex_str (ex_amounts C) amount)),
      Put (eur_key t vout) (ex_text C address)])"

definition spend_ops :: "'v ex_codec \<Rightarrow> 'v db \<Rightarrow> string \<times> u32 \<times> string \<Rightarrow> 'v write_op list" where
  "spend_ops C d = (\<lambda>(t, vout, address).
     let rev_key = eur_key t vout;
         real_address = (if address \<noteq> [] then address
           else (case Option.bind (db_get d rev_key) (ex_utf8 C) of Some a \<Rightarrow> a | None \<Rightarrow> []))
     in (if real_address \<noteq> [] then [Delete (eu_key real_address t vout)] else []) @ [Delete rev_key])"

definition apply_utxo_changes :: "'v ex_codec \<Rightarrow> (string \<times> u32 \<times> string \<times> u256) list \<Rightarrow> (string \<times> u32 \<times> string) list
    \<Rightarrow> 'v db \<Rightarrow> 'v db" where
  "apply_utxo_changes C created spent d =
     put_batch d (concat (map (create_ops C) created) @ concat (map (spend_ops C d) spent))"

text \<open>The amount of a record, where it can be read.\<close>

definition eu_amount :: "'v ex_codec \<Rightarrow> 'v \<Rightarrow> u256 option" where
  "eu_amount C value = Option.bind (ex_utf8 C value) (from_hex_str (ex_amounts C))"

definition get_balance_from_utxos :: "'v ex_codec \<Rightarrow> 'v db \<Rightarrow> string \<Rightarrow> (ex_error, u256) result" where
  "get_balance_from_utxos C d address =
     fold_res (\<lambda>(_, value) balance.
       case eu_amount C value of
         Some amount \<Rightarrow> ok_or ExPanic (u256_add balance amount)
       | None \<Rightarrow> Ok balance) (seek_prefix (''eu:'' @ address @ '':'') d) 0"

text \<open>\<open>splitn(4, ':')\<close>: the address of a key with at least four parts.\<close>

definition eu_address :: "string \<Rightarrow> string option" where
  "eu_address key = (let parts = split_on (CHR '':'') key in if length parts \<ge> 4 then Some (parts ! 1) else None)"

definition get_all_balances_from_utxos :: "'v ex_codec \<Rightarrow> (u256 hash_map \<Rightarrow> u256 hash_map) \<Rightarrow> 'v db
    \<Rightarrow> (ex_error, (string \<times> u256) list) result" where
  "get_all_balances_from_utxos C ord d =
     bind_res (fold_res (\<lambda>(key, value) m.
       case eu_address key of
         None \<Rightarrow> Ok m
       | Some address \<Rightarrow>
           (case eu_amount C value of
              None \<Rightarrow> Ok m
            | Some amount \<Rightarrow>
                bind_res (ok_or ExPanic (u256_add (get_or 0 m address) amount)) (\<lambda>s. Ok (hm_insert address s m))))
       (seek_prefix ''eu:'' d) []) (\<lambda>m.
     Ok (sort_key (\<lambda>e. - int (unat (snd e))) (filter (\<lambda>(_, b). b \<noteq> 0) (ord m))))"

text \<open>\<open>f64::round\<close>: halves away from zero.\<close>

definition round_half_away :: "rat \<Rightarrow> int" where
  "round_half_away x = (if x < 0 then - \<lfloor>- x + 1 / 2\<rfloor> else \<lfloor>x + 1 / 2\<rfloor>)"

fun f64_round_int :: "f64 \<Rightarrow> f64" where
  "f64_round_int (Fin x) = f64_round (of_int (round_half_away x))"
| "f64_round_int x = x"

definition low_u128 :: "u256 \<Rightarrow> nat" where
  "low_u128 x = unat x mod 2 ^ 128"

definition get_richlist :: "'v ex_codec \<Rightarrow> (u256 hash_map \<Rightarrow> u256 hash_map) \<Rightarrow> 'v db \<Rightarrow> nat
    \<Rightarrow> (ex_error, rich_list_entry list) result" where
  "get_richlist C ord d limit =
     (let total_supply = ok_else 0 (get_circulating_supply C d) in
      bind_res (get_all_balances_from_utxos C ord d) (\<lambda>entries.
      let supply_f64 = (if total_supply = 0 then Fin 1 else f64_of_int (int (low_u128 total_supply)))
      in Ok (map (\<lambda>(i, (address, balance)).
           let pct = f64_mul (f64_div (f64_of_int (int (low_u128 balance))) supply_f64) (Fin 100)
           in \<lparr>rank = i + 1, rl_address = address, rl_balance = balance,
               percentage = f64_div (f64_round_int (f64_mul pct (Fin 100))) (Fin 100)\<rparr>)
         (enumerate 0 (take limit entries)))))"

section \<open>Addresses\<close>

definition save_address_info :: "'v ex_codec \<Rightarrow> address_info \<Rightarrow> 'v db \<Rightarrow> 'v db" where
  "save_address_info C info d =
     (let key = addr_key (ai_address info);
          is_new = (db_get d key = None);
          current_count = ok_else 0 (get_address_count C d)
      in put_batch d (Put key (enc_addr_info C info) #
           (if is_new then [Put ''meta:address_count'' (counter_text C (current_count + 1))] else [])))"

definition get_address_info :: "'v ex_codec \<Rightarrow> 'v db \<Rightarrow> string \<Rightarrow> (ex_error, address_info option) result" where
  "get_address_info C d address =
     (case db_get d (addr_key address) of
        Some data \<Rightarrow> bind_res (ok_or ExJson (dec_addr_info C data)) (\<lambda>info. Ok (Some info))
      | None \<Rightarrow> Ok None)"

definition add_to_totals :: "string \<Rightarrow> transaction_info \<Rightarrow> u256 \<times> u256 \<times> int option
    \<Rightarrow> (ex_error, u256 \<times> u256 \<times> int option) result" where
  "add_to_totals address tx = (\<lambda>(sent, received, last_transaction).
     bind_res (if ti_from tx = address
         then bind_res (ok_or ExPanic (u256_add (ti_amount tx) (ti_fee tx))) (\<lambda>x. ok_or ExPanic (u256_add sent x))
         else Ok sent) (\<lambda>sent'.
     bind_res (if ti_to tx = address then ok_or ExPanic (u256_add received (ti_amount tx)) else Ok received) (\<lambda>received'.
     Ok (sent', received',
       case last_transaction of
         None \<Rightarrow> Some (ti_timestamp tx)
       | Some l \<Rightarrow> if ti_timestamp tx > l then Some (ti_timestamp tx) else last_transaction))))"

definition update_address_info :: "'v ex_codec \<Rightarrow> string \<Rightarrow> 'v db \<Rightarrow> (ex_error, 'v db \<times> address_info) result" where
  "update_address_info C address d =
     bind_res (get_transactions_by_address C d address) (\<lambda>transactions.
     bind_res (fold_res (add_to_totals address) transactions (0, 0, None)) (\<lambda>(sent, received, last_transaction).
     bind_res (get_balance_from_utxos C d address) (\<lambda>balance.
     let info = \<lparr>ai_address = address, ai_balance = balance, ai_sent = sent, ai_received = received,
           ai_transaction_count = length transactions, ai_last_transaction = last_transaction\<rparr>
     in Ok (save_address_info C info d, info))))"

definition clear_all :: "'v db \<Rightarrow> 'v db" where
  "clear_all d = put_batch d (map (\<lambda>e. Delete (fst e)) (db_iterator d))"

section \<open>Opening the database\<close>

definition stored_height :: "string \<Rightarrow> u64" where
  "stored_height key =
     (case Option.bind (strip_prefix ''b:'' key) (from_str_radix 64 10) of Some n \<Rightarrow> of_nat n | None \<Rightarrow> 0)"

definition max_stored_height :: "'v db \<Rightarrow> u64" where
  "max_stored_height d = fold (\<lambda>(key, _) m. max m (stored_height key)) (seek_prefix ''b:'' d) 0"

definition count_prefix :: "string \<Rightarrow> 'v db \<Rightarrow> u64" where
  "count_prefix p d = of_nat (length (seek_prefix p d))"

definition init_block_count :: "'v ex_codec \<Rightarrow> 'v db \<Rightarrow> 'v db" where
  "init_block_count C d =
     (let max_height = max_stored_height d in
      if max_height > 0
      then db_put ''meta:last_height'' (counter_text C max_height) (set_block_count C (count_prefix ''b:'' d) d)
      else d)"

definition init_tx_count :: "'v ex_codec \<Rightarrow> 'v db \<Rightarrow> 'v db" where
  "init_tx_count C d =
     (let count = count_prefix ''t:'' d in if count > 0 then set_transaction_count C count d else d)"

definition migrate_last_height :: "'v ex_codec \<Rightarrow> 'v db \<Rightarrow> 'v db" where
  "migrate_last_height C d =
     (if db_get d ''meta:last_height'' \<noteq> None then d
      else
        let max_height = max_stored_height d in
        if max_height > 0
        then put_batch d [Put ''meta:last_height'' (counter_text C max_height),
               Put ''meta:block_count'' (counter_text C (count_prefix ''b:'' d))]
        else d)"

definition migrate_supply :: "'v ex_codec \<Rightarrow> 'v db \<Rightarrow> (ex_error, 'v db) result" where
  "migrate_supply C d =
     (if db_get d ''meta:supply_migrated'' \<noteq> None then Ok d
      else
        bind_res (fold_res (\<lambda>(_, value) supply.
          case dec_tx_info C value of
            Some tx \<Rightarrow> if ti_from tx = ''Block_Reward'' then ok_or ExPanic (u256_add supply (ti_amount tx)) else Ok supply
          | None \<Rightarrow> Ok supply) (seek_prefix ''t:'' d) 0) (\<lambda>supply.
        Ok (put_batch d [Put ''meta:circulating_supply'' (amount_text C supply),
              Put ''meta:supply_migrated'' (ex_text C ''1'')])))"

definition migrate_address_count :: "'v ex_codec \<Rightarrow> 'v db \<Rightarrow> 'v db" where
  "migrate_address_count C d =
     (if db_get d ''meta:addr_count_migrated'' \<noteq> None then d
      else put_batch d [Put ''meta:address_count'' (counter_text C (count_prefix ''addr:'' d)),
             Put ''meta:addr_count_migrated'' (ex_text C ''1'')])"

definition migrate_time_index :: "'v ex_codec \<Rightarrow> 'v db \<Rightarrow> (ex_error, 'v db) result" where
  "migrate_time_index C d =
     (if db_get d ''meta:ti_migrated'' \<noteq> None then Ok d
      else
        bind_res (fold_res (\<lambda>(_, value) (batch, total_volume).
          case dec_tx_info C value of
            Some tx \<Rightarrow>
              bind_res (ok_or ExPanic (u256_add total_volume (ti_amount tx))) (\<lambda>v.
              Ok (batch @ [Put (make_ti_key tx) (ex_text C (ti_hash tx))], v))
          | None \<Rightarrow> Ok (batch, total_volume)) (seek_prefix ''t:'' d) ([], 0)) (\<lambda>(batch, total_volume).
        Ok (put_batch d (batch @ [Put ''meta:total_volume'' (amount_text C total_volume),
              Put ''meta:ti_migrated'' (ex_text C ''1'')]))))"

definition initialize_metadata :: "'v ex_codec \<Rightarrow> 'v db \<Rightarrow> (ex_error, 'v db) result" where
  "initialize_metadata C d =
     bind_res (get_block_count C d) (\<lambda>block_count.
     bind_res (get_transaction_count C d) (\<lambda>tx_count.
     let d1 = (if block_count = 0 then init_block_count C d else d);
         d2 = (if tx_count = 0 then init_tx_count C d1 else d1)
     in bind_res (migrate_supply C (migrate_last_height C d2)) (\<lambda>d3.
        migrate_time_index C (migrate_address_count C d3))))"

definition explorer_db_new :: "'v ex_codec \<Rightarrow> 'v db \<Rightarrow> (ex_error, 'v db) result" where
  "explorer_db_new C d = initialize_metadata C d"

section \<open>A scan finds exactly the keys with the prefix\<close>

declare starts_with_Cons [simp]

lemma starts_with_le: "starts_with p s \<Longrightarrow> p \<le> s"
proof (induction p arbitrary: s)
  case (Cons c p)
  then show ?case by (cases s) (auto simp: Cons_le_Cons)
qed simp

text \<open>Between a prefix and a text that has it, in the order of the keys, every text has it.\<close>

lemma starts_with_convex: "p \<le> k \<Longrightarrow> k \<le> s \<Longrightarrow> starts_with p s \<Longrightarrow> starts_with p k"
proof (induction p arbitrary: k s)
  case (Cons c p)
  obtain x s' where s: "s = x # s'" "c = x" "starts_with p s'" using Cons.prems(3) by (cases s) auto
  obtain y k' where k: "k = y # k'" using Cons.prems(1) by (cases k) auto
  have "c \<le> y" "y \<le> x" using Cons.prems(1,2) by (auto simp: s k Cons_le_Cons)
  then have "c = y" using s by auto
  then show ?case using Cons.IH[of k' s'] Cons.prems(1,2) s k by (auto simp: Cons_le_Cons)
qed simp

lemma seek_prefix_filter:
  assumes "db_wf d"
  shows "seek_prefix p d = filter (\<lambda>e. starts_with p (fst e)) d"
proof -
  have s: "sorted_wrt (\<lambda>a b. fst a < fst b) d" using assms by (simp add: db_wf_def sorted_wrt_map)
  have take: "takeWhile (\<lambda>e. starts_with p (fst e)) es = filter (\<lambda>e. starts_with p (fst e)) es"
    if "sorted_wrt (\<lambda>a b. fst a < fst b) es" "\<forall>e\<in>set es. p \<le> fst e" for es :: "(string \<times> 'a) list"
    using that
  proof (induction es)
    case (Cons e es)
    have "\<not> starts_with p (fst e')" if "\<not> starts_with p (fst e)" "e' \<in> set es" for e'
      using starts_with_convex[of p "fst e" "fst e'"] Cons.prems that by (auto simp: less_le)
    then show ?case using Cons by (auto simp: filter_empty_conv)
  qed simp
  let ?drop = "dropWhile (\<lambda>e. fst e < p) d"
  have split: "d = takeWhile (\<lambda>e. fst e < p) d @ ?drop" by simp
  have sd: "sorted_wrt (\<lambda>a b. fst a < fst b) ?drop" using s split sorted_wrt_append by metis
  have "\<forall>e\<in>set ?drop. p \<le> fst e"
  proof (cases ?drop)
    case (Cons e es)
    then have "p \<le> fst e" using hd_dropWhile[of "\<lambda>e. fst e < p" d] by auto
    then show ?thesis using sd unfolding Cons by auto
  next
    case Nil
    show ?thesis unfolding Nil by simp
  qed
  then have "takeWhile (\<lambda>e. starts_with p (fst e)) ?drop = filter (\<lambda>e. starts_with p (fst e)) ?drop"
    by (rule take[OF sd])
  moreover have "filter (\<lambda>e. starts_with p (fst e)) (takeWhile (\<lambda>e. fst e < p) d) = []"
    using starts_with_le by (fastforce simp: filter_empty_conv dest: set_takeWhileD)
  ultimately show ?thesis unfolding seek_prefix_def db_iterator_def
    by (metis (no_types, lifting) append_Nil filter_append split)
qed

lemma seek_prefix_iff: "db_wf d \<Longrightarrow> (k, v) \<in> set (seek_prefix p d) \<longleftrightarrow> starts_with p k \<and> db_get d k = Some v"
  using db_iterator_iff[of d k v] by (auto simp: seek_prefix_filter db_iterator_def)

section \<open>The counters count\<close>

lemma read_counter_text:
  assumes "ex_codec_ok C" "db_get d key = Some (counter_text C n)"
  shows "read_counter C d key = Ok n"
  using assms parse_show_nat[of "unat n" 64] unat_u64_lt[of n] by (simp add: read_counter_def counter_text_def)

definition prefix_count :: "string \<Rightarrow> 'v db \<Rightarrow> nat" where
  "prefix_count p d = entry_sum (\<lambda>k v. if starts_with p k then 1 else 0) (db_iterator d)"

lemma count_prefix_eq:
  fixes d :: "'v db"
  shows "db_wf d \<Longrightarrow> count_prefix p d = of_nat (prefix_count p d)"
proof -
  have "length (filter (\<lambda>e. starts_with p (fst e)) es) = sum_list (map (\<lambda>(k, v). if starts_with p k then 1 :: nat else 0) es)"
    for es :: "(string \<times> 'v) list" by (induction es) auto
  then show "db_wf d \<Longrightarrow> ?thesis" by (simp add: count_prefix_def seek_prefix_filter prefix_count_def entry_sum_def db_iterator_def)
qed

lemma prefix_count_put:
  assumes "db_wf d"
  shows "prefix_count p (db_put k v d) = prefix_count p d + (if starts_with p k \<and> db_get d k = None then 1 else 0)"
  using kv.entry_sum_put[OF assms, of "\<lambda>k v. if starts_with p k then 1 else 0" k v]
  by (auto simp: prefix_count_def split: option.splits)

lemma prefix_count_delete:
  assumes "db_wf d" "\<not> starts_with p k"
  shows "prefix_count p (db_delete k d) = prefix_count p d"
  using kv.entry_sum_delete[OF assms(1), of "\<lambda>k v. if starts_with p k then 1 else 0" k] assms(2)
  by (auto simp: prefix_count_def split: option.splits)

lemma prefix_count_batch:
  assumes "db_wf d" "\<forall>op\<in>set ops. \<not> starts_with p (op_key op)"
  shows "prefix_count p (put_batch d ops) = prefix_count p d"
  using assms
proof (induction ops arbitrary: d)
  case (Cons op ops)
  then show ?case
    by (cases op) (simp_all add: put_batch_def prefix_count_put prefix_count_delete db_wf_put db_wf_delete)
qed (simp add: put_batch_def)

definition counter_ok :: "'v ex_codec \<Rightarrow> string \<Rightarrow> string \<Rightarrow> 'v db \<Rightarrow> bool" where
  "counter_ok C key p d \<longleftrightarrow> read_counter C d key = Ok (of_nat (prefix_count p d))"

definition counts_ok :: "'v ex_codec \<Rightarrow> 'v db \<Rightarrow> bool" where
  "counts_ok C d \<longleftrightarrow> db_wf d \<and> counter_ok C ''meta:block_count'' ''b:'' d \<and>
     counter_ok C ''meta:tx_count'' ''t:'' d \<and> counter_ok C ''meta:address_count'' ''addr:'' d"

lemma counter_kept:
  assumes "db_wf d" "counter_ok C key p d" "\<forall>op\<in>set ops. op_key op \<noteq> key \<and> \<not> starts_with p (op_key op)"
  shows "counter_ok C key p (put_batch d ops)"
proof -
  have "key \<notin> op_key ` set ops" using assms(3) by auto
  then have "read_counter C (put_batch d ops) key = read_counter C d key"
    using batch_view_untouched[of key ops "db_get d"] by (simp add: read_counter_def)
  moreover have "prefix_count p (put_batch d ops) = prefix_count p d"
    using assms(3) by (intro prefix_count_batch[OF assms(1)]) auto
  ultimately show ?thesis using assms(2) by (simp add: counter_ok_def)
qed

lemma counter_bumped:
  assumes "ex_codec_ok C" "db_wf d" "counter_ok C key p d" "starts_with p k" "\<not> starts_with p key"
    and "\<forall>op\<in>set ops. \<not> starts_with p (op_key op)"
    and "db_get d k = None \<Longrightarrow> batch_view ops m key = Some (counter_text C (of_nat (prefix_count p d) + 1))"
    and "db_get d k \<noteq> None \<Longrightarrow> key \<notin> op_key ` set ops"
    and "m = (db_get d)(k \<mapsto> v)"
  shows "counter_ok C key p (put_batch d (Put k v # ops))"
proof -
  have w: "db_wf (db_put k v d)" using assms(2) by (rule db_wf_put)
  have e: "put_batch d (Put k v # ops) = put_batch (db_put k v d) ops" by (simp add: put_batch_def)
  have g: "db_get (put_batch d (Put k v # ops)) key = batch_view ops m key" using assms(9) by simp
  have n: "prefix_count p (put_batch d (Put k v # ops)) = prefix_count p d + (if db_get d k = None then 1 else 0)"
    unfolding e using prefix_count_batch[OF w assms(6)] prefix_count_put[OF assms(2), of p k v] assms(4) by simp
  have "k \<noteq> key" using assms(4,5) by auto
  show ?thesis
  proof (cases "db_get d k = None")
    case True
    then show ?thesis using n read_counter_text[OF assms(1) g[unfolded assms(7)[OF True]]] by (simp add: counter_ok_def add.commute)
  next
    case False
    then have "db_get (put_batch d (Put k v # ops)) key = db_get d key"
      using g batch_view_untouched[OF assms(8), of m] assms(9) \<open>k \<noteq> key\<close> by simp
    then show ?thesis using False n assms(3) by (simp add: counter_ok_def read_counter_def)
  qed
qed

lemmas ex_keys = ex_block_key_def hash_key_def ex_tx_key_def ta_key_def tb_key_def addr_key_def eu_key_def eur_key_def

lemma ti_key_prefix: "\<exists>s. make_ti_key tx = ''ti:'' @ s"
  by (simp add: make_ti_key_def Let_def)

lemma save_block_counts:
  assumes "ex_codec_ok C" "counts_ok C d"
  shows "counts_ok C (save_block C b d)"
proof -
  define ops where "ops = Put (hash_key (bi_hash b)) (counter_text C (bi_height b))
    # (if db_get d (ex_block_key (bi_height b)) = None
        then [Put ''meta:block_count'' (counter_text C (ok_else 0 (get_block_count C d) + 1))] else [])
    @ (if bi_height b \<ge> ok_else 0 (get_last_indexed_height C d)
        then [Put ''meta:last_height'' (counter_text C (bi_height b))] else [])"
  have e: "save_block C b d = put_batch d (Put (ex_block_key (bi_height b)) (enc_block_info C b) # ops)"
    by (simp add: save_block_def ops_def Let_def)
  have w: "db_wf d" "counter_ok C ''meta:block_count'' ''b:'' d" using assms(2) by (simp_all add: counts_ok_def)
  have n: "ok_else 0 (get_block_count C d) = of_nat (prefix_count ''b:'' d)"
    using w(2) by (simp add: counter_ok_def get_block_count_def ok_else_def)
  have "counter_ok C ''meta:block_count'' ''b:'' (save_block C b d)"
    unfolding e by (rule counter_bumped[OF assms(1) w, where m = "(db_get d)(ex_block_key (bi_height b) \<mapsto> enc_block_info C b)"])
      (auto simp: ops_def n ex_keys)
  then show ?thesis using assms(2) unfolding counts_ok_def e
    by (auto intro!: counter_kept simp: ops_def ex_keys)
qed

lemma save_address_counts:
  assumes "ex_codec_ok C" "counts_ok C d"
  shows "counts_ok C (save_address_info C info d)"
proof -
  define ops where "ops = (if db_get d (addr_key (ai_address info)) = None
      then [Put ''meta:address_count'' (counter_text C (ok_else 0 (get_address_count C d) + 1))] else [])"
  have e: "save_address_info C info d = put_batch d (Put (addr_key (ai_address info)) (enc_addr_info C info) # ops)"
    by (simp add: save_address_info_def ops_def Let_def)
  have w: "db_wf d" "counter_ok C ''meta:address_count'' ''addr:'' d" using assms(2) by (simp_all add: counts_ok_def)
  have n: "ok_else 0 (get_address_count C d) = of_nat (prefix_count ''addr:'' d)"
    using w(2) by (simp add: counter_ok_def get_address_count_def ok_else_def)
  have "counter_ok C ''meta:address_count'' ''addr:'' (save_address_info C info d)"
    unfolding e by (rule counter_bumped[OF assms(1) w, where m = "(db_get d)(addr_key (ai_address info) \<mapsto> enc_addr_info C info)"])
      (auto simp: ops_def n ex_keys)
  then show ?thesis using assms(2) unfolding counts_ok_def e
    by (auto intro!: counter_kept simp: ops_def ex_keys)
qed

lemma utxo_changes_counts: "counts_ok C d \<Longrightarrow> counts_ok C (apply_utxo_changes C created spent d)"
  unfolding counts_ok_def apply_utxo_changes_def
  by (auto intro!: counter_kept simp: create_ops_def spend_ops_def Let_def ex_keys split: if_splits)

lemma set_synced_counts: "counts_ok C d \<Longrightarrow> counts_ok C (set_last_synced_height C n d)"
  using counter_kept[where ops = "[Put ''meta:last_synced'' (counter_text C n)]" and d = d]
  unfolding counts_ok_def set_last_synced_height_def by (auto simp: put_batch_def db_wf_put)

lemma save_transaction_counts:
  assumes "ex_codec_ok C" "counts_ok C d" "save_transaction C tx d = Ok d'"
  shows "counts_ok C d'"
proof -
  let ?k = "ex_tx_key (ti_hash tx)"
  define rest where "rest = [Put (make_ti_key tx) (ex_text C (ti_hash tx)),
      Put (ta_key (ti_from tx) (ti_timestamp tx) (ti_hash tx)) (ex_text C []),
      Put (ta_key (ti_to tx) (ti_timestamp tx) (ti_hash tx)) (ex_text C [])]
    @ (case ti_block_height tx of
         Some height \<Rightarrow> [Put (tb_key height (ti_hash tx)) (ex_text C (ti_hash tx))] | None \<Rightarrow> [])"
  obtain s where ti: "make_ti_key tx = ''ti:'' @ s" using ti_key_prefix by blast
  have w: "db_wf d" "counter_ok C ''meta:tx_count'' ''t:'' d" using assms(2) by (simp_all add: counts_ok_def)
  have n: "ok_else 0 (get_transaction_count C d) = of_nat (prefix_count ''t:'' d)"
    using w(2) by (simp add: counter_ok_def get_transaction_count_def ok_else_def)
  obtain extra where d': "d' = put_batch d (Put ?k (enc_tx_info C tx) # rest @ extra)"
    and extra: "(db_get d ?k \<noteq> None \<and> extra = []) \<or> (db_get d ?k = None \<and> (\<exists>vol sup.
      extra = [Put ''meta:tx_count'' (counter_text C (of_nat (prefix_count ''t:'' d) + 1)), Put ''meta:total_volume'' vol] @ sup \<and>
      (\<forall>op\<in>set sup. op_key op = ''meta:circulating_supply'')))"
    using assms(3) n by (auto simp: save_transaction_def Let_def rest_def res_simps split: if_splits)
  have r: "op_key op \<notin> {''meta:block_count'', ''meta:tx_count'', ''meta:address_count''} \<and> \<not> starts_with ''b:'' (op_key op) \<and>
      \<not> starts_with ''t:'' (op_key op) \<and> \<not> starts_with ''addr:'' (op_key op)" if "op \<in> set rest" for op
    using that by (auto simp: rest_def ti ex_keys split: option.splits)
  have x: "\<not> starts_with ''b:'' (op_key op) \<and> \<not> starts_with ''t:'' (op_key op) \<and> \<not> starts_with ''addr:'' (op_key op) \<and>
      op_key op \<notin> {''meta:block_count'', ''meta:address_count''}" if "op \<in> set extra" for op
    using that extra by auto
  have "counter_ok C ''meta:tx_count'' ''t:'' d'"
    unfolding d'
  proof (rule counter_bumped[OF assms(1) w _ _ _ _ _ refl])
    show "\<forall>op\<in>set (rest @ extra). \<not> starts_with ''t:'' (op_key op)" using r x by auto
    assume "db_get d ?k = None"
    then obtain vol sup where e: "extra = [Put ''meta:tx_count'' (counter_text C (of_nat (prefix_count ''t:'' d) + 1)),
        Put ''meta:total_volume'' vol] @ sup" "\<forall>op\<in>set sup. op_key op = ''meta:circulating_supply''"
      using extra by auto
    have "''meta:tx_count'' \<notin> op_key ` set sup" using e(2) by auto
    from batch_view_untouched[OF this] show "batch_view (rest @ extra) ((db_get d)(?k \<mapsto> enc_tx_info C tx)) ''meta:tx_count'' =
        Some (counter_text C (of_nat (prefix_count ''t:'' d) + 1))" by (simp add: e(1))
  next
    assume "db_get d ?k \<noteq> None"
    with extra have "extra = []" by (elim disjE conjE) simp_all
    moreover have "op_key op \<noteq> ''meta:tx_count''" if "op \<in> set rest" for op using r[OF that] by simp
    ultimately show "''meta:tx_count'' \<notin> op_key ` set (rest @ extra)" by force
  qed (simp_all add: ex_keys)
  then show ?thesis using assms(2) r x unfolding counts_ok_def d'
    by (auto intro!: counter_kept simp: ex_keys)
qed

lemma update_address_counts:
  "ex_codec_ok C \<Longrightarrow> counts_ok C d \<Longrightarrow> update_address_info C address d = Ok (d', info) \<Longrightarrow> counts_ok C d'"
  using save_address_counts[of C d] by (auto simp: update_address_info_def res_simps Let_def)

section \<open>The time index is newest first\<close>

lemma digit_less: "m < 10 \<Longrightarrow> n < 10 \<Longrightarrow> digit m < digit n \<longleftrightarrow> m < n"
  by (drule less_10_cases, drule less_10_cases) (elim disjE; simp add: digit_def less_char_def)

text \<open>The digits of a number, padded to a width, compare like the number.\<close>

fun digits_of :: "nat \<Rightarrow> nat \<Rightarrow> string" where
  "digits_of 0 n = []"
| "digits_of (Suc k) n = digits_of k (n div 10) @ [digit (n mod 10)]"

lemma length_digits_of [simp]: "length (digits_of k n) = k"
  by (induction k n rule: digits_of.induct) auto

lemma digits_of_zero: "digits_of k 0 = replicate k (CHR ''0'')"
  by (induction k) (simp_all add: digit_def replicate_append_same)

lemma digits_of_show: "length (show_nat n) \<le> k \<Longrightarrow> digits_of k n = replicate (k - length (show_nat n)) (CHR ''0'') @ show_nat n"
proof (induction n arbitrary: k rule: show_nat.induct)
  case (1 n)
  obtain k' where k: "k = Suc k'" using "1.prems" by (cases k) auto
  show ?case
  proof (cases "n < 10")
    case True
    then show ?thesis by (simp add: k show_nat.simps[of n] digits_of_zero)
  next
    case False
    then show ?thesis using "1.IH"[of k'] "1.prems" by (simp add: k show_nat.simps[of n])
  qed
qed

lemma list_less_append_same:
  fixes xs ys :: string
  shows "length xs = length ys \<Longrightarrow> xs @ us < ys @ vs \<longleftrightarrow> xs < ys \<or> xs = ys \<and> us < vs"
  by (induction xs ys rule: list_induct2) auto

lemma digits_of_less: "m < 10 ^ k \<Longrightarrow> n < 10 ^ k \<Longrightarrow> digits_of k m < digits_of k n \<longleftrightarrow> m < n"
proof (induction k arbitrary: m n)
  case (Suc k)
  have lt: "m div 10 < 10 ^ k" "n div 10 < 10 ^ k" using Suc.prems by (simp_all add: less_mult_imp_div_less mult.commute)
  have eq: "digits_of k (m div 10) = digits_of k (n div 10) \<longleftrightarrow> m div 10 = n div 10"
    using Suc.IH[OF lt] Suc.IH[OF lt(2,1)] by (metis less_irrefl linorder_neqE)
  have "m < n \<longleftrightarrow> m div 10 < n div 10 \<or> m div 10 = n div 10 \<and> m mod 10 < n mod 10"
    by (metis div_le_mono div_mult_mod_eq le_neq_implies_less less_imp_le nat_add_left_cancel_less not_less)
  then show ?case using Suc.IH[OF lt] eq by (simp add: list_less_append_same digit_less)
qed simp

lemma pad20_less:
  assumes "m < 2 ^ 64" "n < 2 ^ 64"
  shows "pad20 m < pad20 n \<longleftrightarrow> m < n" "length (pad20 m) = 20"
proof -
  have b: "k < 10 ^ 20" "length (show_nat k) \<le> 20" if "k < 2 ^ 64" for k :: nat
    using that show_nat_length[of k 20] by simp_all
  have p: "pad20 k = digits_of 20 k" if "k < 2 ^ 64" for k
    using digits_of_show[OF b(2)[OF that]] by (simp add: pad20_def Let_def)
  show "pad20 m < pad20 n \<longleftrightarrow> m < n" using digits_of_less[OF b(1)[OF assms(1)] b(1)[OF assms(2)]] assms by (simp add: p)
  show "length (pad20 m) = 20" using assms by (simp add: p)
qed

lemma inverted_time:
  assumes "0 \<le> ts" "is_i64 ts"
  shows "unat (- 1 - of_int ts :: u64) = 2 ^ 64 - 1 - nat ts"
proof -
  have t: "nat ts < 2 ^ 64" using assms by (simp add: is_i64_def)
  have e: "of_int ts = (of_nat (nat ts) :: u64)" using assms(1) by simp
  have m: "unat (- 1 :: u64) = 2 ^ 64 - 1" by code_simp
  have n: "unat (of_nat (nat ts) :: u64) = nat ts" using t by (simp add: unat_of_nat_eq)
  then have "(of_nat (nat ts) :: u64) \<le> - 1" using m t by (simp only: word_le_nat_alt)
  then show ?thesis using m n unfolding e by (simp add: unat_sub)
qed

lemma ti_key_order:
  assumes "0 \<le> ti_timestamp a" "is_i64 (ti_timestamp a)" "0 \<le> ti_timestamp b" "is_i64 (ti_timestamp b)"
    and "make_ti_key a < make_ti_key b"
  shows "ti_timestamp b \<le> ti_timestamp a"
proof (rule ccontr)
  assume "\<not> ti_timestamp b \<le> ti_timestamp a"
  then have lt: "nat (ti_timestamp a) < nat (ti_timestamp b)" using assms(1) by simp
  have bd: "nat (ti_timestamp b) < 2 ^ 63" using assms(3,4) by (simp add: is_i64_def nat_less_iff)
  let ?inv = "\<lambda>t. 2 ^ 64 - 1 - nat (ti_timestamp t)"
  have k: "make_ti_key t = ''ti:'' @ pad20 (?inv t) @ '':'' @ ti_hash t" if "0 \<le> ti_timestamp t" "is_i64 (ti_timestamp t)" for t
    using inverted_time[OF that] that by (simp add: make_ti_key_def Let_def)
  have "(2::nat) ^ 63 < 2 ^ 64 - 1" by simp
  then have "?inv b < ?inv a" using lt bd by (intro diff_less_mono2) linarith+
  then have "pad20 (?inv b) < pad20 (?inv a)" using pad20_less(1)[of "?inv b" "?inv a"] by simp
  moreover have "length (pad20 (?inv t)) = 20" for t :: transaction_info using pad20_less(2)[of "?inv t" 0] by simp
  ultimately have "make_ti_key b < make_ti_key a"
    using assms(1-4) list_less_append_same[of "pad20 (?inv b)" "pad20 (?inv a)"] by (simp add: k)
  then show False using assms(5) by (metis less_asym)
qed

text \<open>Each entry of the time index is the key of a time and a hash, whose record has that time.\<close>

definition plain_hash :: "string \<Rightarrow> bool" where
  "plain_hash h \<longleftrightarrow> trim h = h \<and> h \<noteq> []"

definition index_ok :: "'v ex_codec \<Rightarrow> 'v db \<Rightarrow> bool" where
  "index_ok C d \<longleftrightarrow> (\<forall>k v. starts_with ''ti:'' k \<longrightarrow> db_get d k = Some v \<longrightarrow>
     (\<exists>tx. k = make_ti_key tx \<and> v = ex_text C (ti_hash tx) \<and> 0 \<le> ti_timestamp tx \<and> is_i64 (ti_timestamp tx) \<and>
       plain_hash (ti_hash tx) \<and>
       (\<exists>r. db_get d (ex_tx_key (ti_hash tx)) = Some (enc_tx_info C r) \<and> ti_timestamp r = ti_timestamp tx)))"

lemma candidates_plain: "plain_hash h \<Longrightarrow> \<exists>cs. hash_lookup_candidates h = h # cs"
  by (auto simp: plain_hash_def hash_lookup_candidates_def Let_def)

lemma get_transaction_stored:
  assumes "ex_codec_ok C" "plain_hash h" "db_get d (ex_tx_key h) = Some (enc_tx_info C r)" "get_transaction_db C d h = Ok (Some t)"
  shows "ti_timestamp t = ti_timestamp r"
proof -
  obtain cs where "hash_lookup_candidates h = h # cs" using candidates_plain[OF assms(2)] by blast
  then show ?thesis using assms by (auto simp: get_transaction_db_def res_simps split: option.splits)
qed

lemma save_transaction_index:
  assumes "ex_codec_ok C" "index_ok C d" "save_transaction C tx d = Ok d'"
    and "plain_hash (ti_hash tx)" "0 \<le> ti_timestamp tx" "is_i64 (ti_timestamp tx)"
    and "\<And>r. db_get d (ex_tx_key (ti_hash tx)) = Some (enc_tx_info C r) \<Longrightarrow> ti_timestamp r = ti_timestamp tx"
  shows "index_ok C d'"
proof -
  let ?m = "(db_get d)(ex_tx_key (ti_hash tx) \<mapsto> enc_tx_info C tx)"
  obtain ops where d': "d' = put_batch d (Put (ex_tx_key (ti_hash tx)) (enc_tx_info C tx) #
      Put (make_ti_key tx) (ex_text C (ti_hash tx)) # ops)"
    and ops: "\<forall>op\<in>set ops. \<not> starts_with ''ti:'' (op_key op) \<and> \<not> starts_with ''t:'' (op_key op)"
    using assms(3) by (fastforce simp: save_transaction_def Let_def res_simps ex_keys split: if_splits option.splits)
  obtain s where ti: "make_ti_key tx = ''ti:'' @ s" using ti_key_prefix by blast
  have g: "db_get d' k = (if k = make_ti_key tx then Some (ex_text C (ti_hash tx)) else ?m k)"
    if "starts_with ''ti:'' k \<or> starts_with ''t:'' k" for k
  proof -
    have "k \<notin> op_key ` set ops" using ops that by auto
    from batch_view_untouched[OF this] show ?thesis unfolding d' by simp
  qed
  have t: "db_get d' (ex_tx_key h) = ?m (ex_tx_key h)" for h using g[of "ex_tx_key h"] by (simp add: ex_tx_key_def ti)
  show ?thesis unfolding index_ok_def
  proof (intro allI impI)
    fix k v assume k: "starts_with ''ti:'' k" "db_get d' k = Some v"
    show "\<exists>tx. k = make_ti_key tx \<and> v = ex_text C (ti_hash tx) \<and> 0 \<le> ti_timestamp tx \<and> is_i64 (ti_timestamp tx) \<and>
       plain_hash (ti_hash tx) \<and>
       (\<exists>r. db_get d' (ex_tx_key (ti_hash tx)) = Some (enc_tx_info C r) \<and> ti_timestamp r = ti_timestamp tx)"
    proof (cases "k = make_ti_key tx")
      case True
      then show ?thesis using k g[of k] t[of "ti_hash tx"] assms(4-6) by (intro exI[of _ tx]) auto
    next
      case False
      then have "db_get d k = Some v" using k g[of k] by (auto simp: ex_tx_key_def split: if_splits)
      then obtain u r where u: "k = make_ti_key u" "v = ex_text C (ti_hash u)" "0 \<le> ti_timestamp u" "is_i64 (ti_timestamp u)"
        "plain_hash (ti_hash u)" "db_get d (ex_tx_key (ti_hash u)) = Some (enc_tx_info C r)" "ti_timestamp r = ti_timestamp u"
        using assms(2) k(1) unfolding index_ok_def by meson
      have "ti_timestamp tx = ti_timestamp u" if "ti_hash u = ti_hash tx" using assms(7) u(6,7) that by auto
      then show ?thesis using u t[of "ti_hash u"] by (intro exI[of _ u]) (auto simp: ex_tx_key_def)
    qed
  qed
qed

lemma collect_sorted:
  assumes "ex_codec_ok C" "collect_txs C d limit es acc = Ok txs" "sorted_wrt (\<lambda>a b. fst a < fst b) es"
    and "\<And>k v. (k, v) \<in> set es \<Longrightarrow> \<exists>tx. k = make_ti_key tx \<and> v = ex_text C (ti_hash tx) \<and> 0 \<le> ti_timestamp tx \<and>
      is_i64 (ti_timestamp tx) \<and> (\<forall>a\<in>set acc. ti_timestamp tx \<le> ti_timestamp a) \<and>
      (\<forall>r. get_transaction_db C d (ti_hash tx) = Ok (Some r) \<longrightarrow> ti_timestamp r = ti_timestamp tx)"
    and "sorted_wrt (\<lambda>a b. ti_timestamp a \<ge> ti_timestamp b) acc" "length acc \<le> limit"
  shows "sorted_wrt (\<lambda>a b. ti_timestamp a \<ge> ti_timestamp b) txs \<and> length txs \<le> limit"
  using assms(2-)
proof (induction es arbitrary: acc)
  case (Cons e es)
  obtain k v where e: "e = (k, v)" by (cases e)
  show ?case
  proof (cases "length acc < limit")
    case True
    obtain tx where tx: "k = make_ti_key tx" "v = ex_text C (ti_hash tx)" "0 \<le> ti_timestamp tx" "is_i64 (ti_timestamp tx)"
      "\<forall>a\<in>set acc. ti_timestamp tx \<le> ti_timestamp a"
      "\<forall>r. get_transaction_db C d (ti_hash tx) = Ok (Some r) \<longrightarrow> ti_timestamp r = ti_timestamp tx"
      using Cons.prems(3)[of k v] by (auto simp: e)
    obtain r where r: "get_transaction_db C d (ti_hash tx) = Ok r"
      "collect_txs C d limit es (acc @ (case r of Some t \<Rightarrow> [t] | None \<Rightarrow> [])) = Ok txs"
      using Cons.prems(1) True assms(1) tx(2) by (auto simp: e res_simps)
    have rt: "r = Some t \<Longrightarrow> ti_timestamp t = ti_timestamp tx" for t using r(1) tx(6) by simp
    show ?thesis
    proof (rule Cons.IH[OF r(2)])
      show "sorted_wrt (\<lambda>a b. fst a < fst b) es" using Cons.prems(2) by simp
      show "sorted_wrt (\<lambda>a b. ti_timestamp b \<le> ti_timestamp a) (acc @ (case r of Some t \<Rightarrow> [t] | None \<Rightarrow> []))"
        using Cons.prems(4) tx(5) rt by (auto simp: sorted_wrt_append split: option.splits)
      show "length (acc @ (case r of Some t \<Rightarrow> [t] | None \<Rightarrow> [])) \<le> limit" using True by (auto split: option.splits)
    next
      fix k' v' assume "(k', v') \<in> set es"
      then have lt: "k < k'" and m: "(k', v') \<in> set (e # es)" using Cons.prems(2) by (auto simp: e)
      obtain tx' where tx': "k' = make_ti_key tx'" "v' = ex_text C (ti_hash tx')" "0 \<le> ti_timestamp tx'"
        "is_i64 (ti_timestamp tx')" "\<forall>a\<in>set acc. ti_timestamp tx' \<le> ti_timestamp a"
        "\<forall>r. get_transaction_db C d (ti_hash tx') = Ok (Some r) \<longrightarrow> ti_timestamp r = ti_timestamp tx'"
        using Cons.prems(3)[OF m] by auto
      have "ti_timestamp tx' \<le> ti_timestamp tx" using ti_key_order[OF tx(3,4) tx'(3,4)] lt tx(1) tx'(1) by simp
      then show "\<exists>tx. k' = make_ti_key tx \<and> v' = ex_text C (ti_hash tx) \<and> 0 \<le> ti_timestamp tx \<and> is_i64 (ti_timestamp tx) \<and>
          (\<forall>a\<in>set (acc @ (case r of Some t \<Rightarrow> [t] | None \<Rightarrow> [])). ti_timestamp tx \<le> ti_timestamp a) \<and>
          (\<forall>r. get_transaction_db C d (ti_hash tx) = Ok (Some r) \<longrightarrow> ti_timestamp r = ti_timestamp tx)"
        using tx' rt by (intro exI[of _ tx']) (auto split: option.splits)
    qed
  qed (use Cons.prems in \<open>simp add: e\<close>)
qed simp

text \<open>
  The pages of transactions are newest first and within the limit, although the database orders its
  keys as texts: the key holds the inverted time with leading zeros.
\<close>

theorem transactions_newest_first:
  assumes "ex_codec_ok C" "db_wf d" "index_ok C d" "get_transactions C d page limit = Ok txs"
  shows "sorted_wrt (\<lambda>a b. ti_timestamp a \<ge> ti_timestamp b) txs \<and> length txs \<le> unat limit"
proof -
  let ?es = "drop (unat ((page - 1) * limit)) (seek_prefix ''ti:'' d)"
  have s: "sorted_wrt (\<lambda>a b. fst a < fst b) (seek_prefix ''ti:'' d)"
    using assms(2) by (simp add: seek_prefix_filter db_wf_def sorted_wrt_map sorted_wrt_filter)
  have m: "starts_with ''ti:'' k \<and> db_get d k = Some v" if "(k, v) \<in> set ?es" for k v
    using in_set_dropD[OF that] seek_prefix_iff[OF assms(2)] by blast
  have entry: "\<exists>tx. k = make_ti_key tx \<and> v = ex_text C (ti_hash tx) \<and> 0 \<le> ti_timestamp tx \<and> is_i64 (ti_timestamp tx) \<and>
      (\<forall>r. get_transaction_db C d (ti_hash tx) = Ok (Some r) \<longrightarrow> ti_timestamp r = ti_timestamp tx)"
    if "(k, v) \<in> set ?es" for k v
    using m[OF that] assms(3) get_transaction_stored[OF assms(1)] unfolding index_ok_def by metis
  show ?thesis
    by (rule collect_sorted[OF assms(1), of d _ ?es "[]"])
      (use assms(4) s entry in \<open>auto simp: get_transactions_def sorted_wrt_drop\<close>)
qed

text \<open>A limit of 0 does not give an empty page: the subtraction wraps and the page is the whole chain.\<close>

lemma blocks_limit_zero:
  assumes "get_last_indexed_height C d = Ok h" "get_block_count C d = Ok n" "n \<noteq> 0"
  shows "get_blocks C d 1 0 = blocks_at C d (rev [0..<Suc (unat h)])"
proof -
  have "sat_sub h (- 1) = 0" by (auto simp: sat_sub_def dest: word_order.extremum_uniqueI)
  moreover have "sat_sub h 0 = h" by (simp add: sat_sub_def)
  ultimately show ?thesis using assms by (simp add: get_blocks_def Let_def)
qed

section \<open>An instance\<close>

datatype ex_stored = XBlock block_info | XTx transaction_info | XAddr address_info | XText string

definition ref_ex_codec :: "ex_stored ex_codec" where
  "ref_ex_codec = \<lparr>enc_block_info = XBlock, dec_block_info = (\<lambda>v. case v of XBlock b \<Rightarrow> Some b | _ \<Rightarrow> None),
     enc_tx_info = XTx, dec_tx_info = (\<lambda>v. case v of XTx t \<Rightarrow> Some t | _ \<Rightarrow> None),
     enc_addr_info = XAddr, dec_addr_info = (\<lambda>v. case v of XAddr a \<Rightarrow> Some a | _ \<Rightarrow> None),
     ex_text = XText, ex_utf8 = (\<lambda>v. case v of XText s \<Rightarrow> Some s | _ \<Rightarrow> None),
     ex_lossy = (\<lambda>v. case v of XText s \<Rightarrow> s | _ \<Rightarrow> []), ex_amounts = ref_text, ex_time = Some\<rparr>"

lemma ref_ex_codec_ok [simp]: "ex_codec_ok ref_ex_codec"
  by (simp add: ex_codec_ok_def ref_ex_codec_def)

definition sample_tx_info :: transaction_info where
  "sample_tx_info = \<lparr>ti_hash = ''aa'', ti_txid = ''aa'', ti_from = ''Block_Reward'', ti_to = ''0xab'', ti_amount = 50,
     ti_fee = 0, ti_total = 50, ti_timestamp = 1000, ti_block_height = Some 0, ti_status = ''confirmed'', ti_confirmations = Some 0\<rparr>"

theorem transactions_newest_first_witness:
  "\<exists>d. save_transaction ref_ex_codec sample_tx_info [] = Ok d \<and> index_ok ref_ex_codec d \<and>
     (\<forall>txs. get_transactions ref_ex_codec d 1 20 \<noteq> Ok txs \<or> length txs \<le> 20)"
proof -
  have e: "db_get [] k = None" for k by (simp add: db_get_def)
  have "u256_add 0 50 \<noteq> None" by (simp add: u256_add_def)
  then obtain d where d: "save_transaction ref_ex_codec sample_tx_info [] = Ok d"
    by (auto simp: save_transaction_def Let_def e sample_tx_info_def get_total_volume_def get_circulating_supply_def
        read_amount_def ok_else_def)
  have w: "db_wf d" using d by (auto simp: save_transaction_def Let_def res_simps split: if_splits)
  have "is_space (CHR ''a'') = False" by (simp add: is_space_def)
  then have "plain_hash (ti_hash sample_tx_info)" by (simp add: plain_hash_def trim_def sample_tx_info_def)
  then have i: "index_ok ref_ex_codec d"
    by (intro save_transaction_index[OF ref_ex_codec_ok _ d]) (simp_all add: index_ok_def e sample_tx_info_def is_i64_def)
  show ?thesis using transactions_newest_first[OF ref_ex_codec_ok w i, of 1 20] d i by auto
qed

end
