(* ===== verification/Json.thy ===== *)
theory Json
  imports Float64 Text_Bytes
begin

text \<open>
  The values of \<open>serde_json\<close> that the pool reads and writes: the documented enum \<open>Value\<close> with the
  accessors the code calls. An object is its list of members. Reading a value from text and
  writing it are the crate's work and do not appear.
\<close>

datatype json =
    JNull
  | JBool bool
  | JInt int
  | JFloat f64
  | JStr string
  | JArr "json list"
  | JObj "(string \<times> json) list"

fun json_get :: "string \<Rightarrow> json \<Rightarrow> json option" where
  "json_get k (JObj ms) = map_of ms k"
| "json_get k _ = None"

text \<open>\<open>value[k]\<close>: a missing member is \<open>Null\<close>.\<close>

definition json_index :: "json \<Rightarrow> string \<Rightarrow> json" where
  "json_index v k = (case json_get k v of None \<Rightarrow> JNull | Some w \<Rightarrow> w)"

fun as_str_json :: "json \<Rightarrow> string option" where
  "as_str_json (JStr s) = Some s"
| "as_str_json _ = None"

fun as_array :: "json \<Rightarrow> json list option" where
  "as_array (JArr vs) = Some vs"
| "as_array _ = None"

fun as_u64 :: "json \<Rightarrow> u64 option" where
  "as_u64 (JInt n) = (if 0 \<le> n \<and> n < 2 ^ 64 then Some (of_int n) else None)"
| "as_u64 _ = None"

fun as_i64 :: "json \<Rightarrow> int option" where
  "as_i64 (JInt n) = (if - (2 ^ 63) \<le> n \<and> n < 2 ^ 63 then Some n else None)"
| "as_i64 _ = None"

fun as_bool :: "json \<Rightarrow> bool option" where
  "as_bool (JBool b) = Some b"
| "as_bool _ = None"

lemma as_u64_nat [simp]: "as_u64 (JInt (uint w)) = Some (w :: u64)"
  using uint_lt2p[of w] by simp

end
