(* ===== verification/Explorer.thy ===== *)
theory Explorer
  imports Explorer_Db Sample_Chain Json
begin

text \<open>
  The explorer process: what it reads from the node's answers (\<open>explorer/src/rpc.rs\<close>), a round of
  indexing (\<open>explorer/src/main.rs\<close>) and the request handlers that do more than pass a query on
  (\<open>explorer/src/handlers.rs\<close>). Base64 and bincode decoding of a list of blocks is the argument \<open>dec\<close>,
  an answer of the node is \<^typ>\<open>json option\<close>, \<^const>\<open>None\<close> when the request or its parsing fails. The map of
  unspent outputs is a finite map, since it is only looked up and updated. A round that fails half-way
  leaves what it has written: its result is the database with the outcome. Rounds and requests run one
  after the other; the code reads and writes its counters without a lock around both, so that two writers
  at the same time could lose an increment, which the model does not show.
\<close>

section \<open>What the node sends\<close>

datatype fetch_error = FetchFailed | NoBlockchain | DecodeFailed | FetchPanic

type_synonym outpoints = "(string \<times> u32) \<rightharpoonup> (string \<times> u256)"

definition parse_u256_from_json :: "u256_text \<Rightarrow> json \<Rightarrow> u256 option" where
  "parse_u256_from_json T value =
     (case (case as_str_json value of
              Some s \<Rightarrow>
                (case Option.bind (strip_prefix ''0x'' s) (from_hex_str T) of
                   Some u \<Rightarrow> Some u
                 | None \<Rightarrow> from_dec_str T s)
            | None \<Rightarrow> None) of
        Some u \<Rightarrow> Some u
      | None \<Rightarrow> map_option ucast (as_u64 value))"

definition fetch_counts :: "json option \<Rightarrow> (fetch_error, u64 \<times> u64) result" where
  "fetch_counts answer =
     bind_res (ok_or FetchFailed answer) (\<lambda>v.
     let num = (\<lambda>k. case Option.bind (json_get k v) as_u64 of Some n \<Rightarrow> n | None \<Rightarrow> 0)
     in Ok (num ''blocks'', num ''transactions''))"

definition fetch_total_volume :: "u256_text \<Rightarrow> json option \<Rightarrow> (fetch_error, u256) result" where
  "fetch_total_volume T answer =
     bind_res (ok_or FetchFailed answer) (\<lambda>v.
     Ok (case Option.bind (json_get ''total_volume'' v) (parse_u256_from_json T) of Some n \<Rightarrow> n | None \<Rightarrow> 0))"

definition fetch_address_info :: "u256_text \<Rightarrow> json option \<Rightarrow> (fetch_error, u256 \<times> u256 \<times> u256 \<times> nat) result" where
  "fetch_address_info T answer =
     bind_res (ok_or FetchFailed answer) (\<lambda>v.
     let amount = (\<lambda>k. case Option.bind (json_get k v) (parse_u256_from_json T) of Some n \<Rightarrow> n | None \<Rightarrow> 0);
         tx_count = (case Option.bind (json_get ''transaction_count'' v) as_u64 of Some n \<Rightarrow> n | None \<Rightarrow> 0)
     in Ok (amount ''balance'', amount ''received'', amount ''sent'', unat tx_count))"

fun as_f64 :: "json \<Rightarrow> f64 option" where
  "as_f64 (JInt n) = Some (f64_of_int n)"
| "as_f64 (JFloat x) = Some x"
| "as_f64 _ = None"

definition fetch_hashrate :: "json option \<Rightarrow> (fetch_error, f64) result" where
  "fetch_hashrate answer =
     bind_res (ok_or FetchFailed answer) (\<lambda>status.
     Ok (case Option.bind (Option.bind (json_get ''mining'' status) (json_get ''hashrate'')) as_f64 of
           Some h \<Rightarrow> h | None \<Rightarrow> Fin 0))"

definition block_info_of :: "'v ex_codec \<Rightarrow> int \<Rightarrow> block \<Rightarrow> block_info" where
  "block_info_of C now block =
     \<lparr>bi_height = index (header block), bi_hash = block_hash block,
      bi_timestamp = (case ex_time C (timestamp (header block)) of Some t \<Rightarrow> t | None \<Rightarrow> now),
      bi_transactions = length (transactions block),
      bi_miner = (case transactions block of
          tx # _ \<Rightarrow> (case outputs tx of out # _ \<Rightarrow> out_to out | [] \<Rightarrow> ''Unknown_Miner'')
        | [] \<Rightarrow> ''Unknown_Miner''),
      bi_difficulty = difficulty (header block), bi_nonce = nonce (header block),
      bi_previous_hash = previous_hash (header block), bi_confirmations = 0\<rparr>"

section \<open>Transactions of blocks\<close>

record extraction =
  ex_map :: outpoints
  ex_txs :: "transaction_info list"
  ex_created :: "(string \<times> u32 \<times> string \<times> u256) list"
  ex_spent :: "(string \<times> u32 \<times> string) list"

definition output_sum :: "transaction \<Rightarrow> (ex_error, u256) result" where
  "output_sum tx = ok_or ExPanic (u256_sum (map out_amount (outputs tx)))"

text \<open>The new outputs enter the map and the list of created outputs.\<close>

definition track_outputs :: "transaction \<Rightarrow> extraction \<Rightarrow> extraction" where
  "track_outputs tx e = fold (\<lambda>(vout, out) e.
     e\<lparr>ex_map := (ex_map e)((txid tx, of_nat vout) \<mapsto> (out_to out, out_amount out)),
       ex_created := ex_created e @ [(txid tx, of_nat vout, out_to out, out_amount out)]\<rparr>)
     (enumerate 0 (outputs tx)) e"

definition track_inputs :: "transaction \<Rightarrow> extraction \<Rightarrow> extraction" where
  "track_inputs tx e = fold (\<lambda>inp e.
     let k = (in_txid inp, in_vout inp);
         address = (case ex_map e k of Some (a, _) \<Rightarrow> a | None \<Rightarrow> [])
     in e\<lparr>ex_map := (ex_map e)(k := None), ex_spent := ex_spent e @ [(in_txid inp, in_vout inp, address)]\<rparr>)
     (inputs tx) e"

definition recipients :: "nat \<Rightarrow> string" where
  "recipients n = show_nat n @ '' recipients''"

definition coinbase_info :: "int \<Rightarrow> block \<Rightarrow> transaction \<Rightarrow> (ex_error, transaction_info) result" where
  "coinbase_info ts block tx =
     bind_res (output_sum tx) (\<lambda>total_amount.
     let to_address = (case outputs tx of [out] \<Rightarrow> out_to out | outs \<Rightarrow> recipients (length outs))
     in Ok \<lparr>ti_hash = txid tx, ti_txid = txid tx, ti_from = ''Block_Reward'', ti_to = to_address,
          ti_amount = total_amount, ti_fee = 0, ti_total = total_amount, ti_timestamp = ts,
          ti_block_height = Some (index (header block)), ti_status = ''confirmed'', ti_confirmations = Some 0\<rparr>)"

text \<open>
  The sum of the known inputs and the number of missing ones; a missing input is logged with the first
  eight bytes of its identifier if it is one of the first three or the last.
\<close>

definition input_sums :: "outpoints \<Rightarrow> transaction \<Rightarrow> (ex_error, u256 \<times> nat) result" where
  "input_sums m tx = fold_res (\<lambda>(idx, inp) (input_sum, missing).
     case m (in_txid inp, in_vout inp) of
       Some (_, amount) \<Rightarrow> bind_res (ok_or ExPanic (u256_add input_sum amount)) (\<lambda>s. Ok (s, missing))
     | None \<Rightarrow>
         if (idx < 3 \<or> idx = length (inputs tx) - 1) \<and> length (in_txid inp) < 8 then Err ExPanic
         else Ok (input_sum, missing + 1)) (enumerate 0 (inputs tx)) (0, 0)"

definition estimated_fee :: "'b prims \<Rightarrow> transaction \<Rightarrow> (ex_error, u256) result" where
  "estimated_fee P tx =
     ok_or ExPanic (Option.bind (u256_mul (of_nat (blob_len P (enc_tx P tx))) 200000000000) (u256_add 100000000000000))"

definition from_address_of :: "'b prims \<Rightarrow> transaction \<Rightarrow> string" where
  "from_address_of P tx =
     (let from_pubkey = (case inputs tx of i # _ \<Rightarrow> in_pubkey i | [] \<Rightarrow> ''Unknown'')
      in if from_pubkey \<noteq> ''Unknown''
         then (case address_from_pubkey_hex P from_pubkey of Ok a \<Rightarrow> a | Err _ \<Rightarrow> from_pubkey)
         else from_pubkey)"

definition transfer_info :: "'b prims \<Rightarrow> int \<Rightarrow> block \<Rightarrow> outpoints \<Rightarrow> transaction \<Rightarrow> (ex_error, transaction_info) result" where
  "transfer_info P ts block m tx =
     (let from_address = from_address_of P tx in
      bind_res (input_sums m tx) (\<lambda>(input_sum, missing_inputs).
      bind_res (ensure ExPanic (missing_inputs = 0 \<or> length (txid tx) \<ge> 8)) (\<lambda>_.
      bind_res (output_sum tx) (\<lambda>out_sum.
      bind_res (if input_sum \<ge> out_sum then Ok (input_sum - out_sum)
                else if missing_inputs > 0 then estimated_fee P tx else Ok 0) (\<lambda>fee.
      let others = filter (\<lambda>out. out_to out \<noteq> from_address) (outputs tx) in
      bind_res (ok_or ExPanic (u256_sum (map out_amount others))) (\<lambda>actual_transfer_amount.
      let amount = (if others = [] then out_sum else actual_transfer_amount) in
      bind_res (if input_sum > 0 then Ok input_sum else ok_or ExPanic (u256_add out_sum fee)) (\<lambda>total.
      let to_address =
            (case others of
               [out] \<Rightarrow> out_to out
             | _ # _ \<Rightarrow> recipients (length others)
             | [] \<Rightarrow> (case outputs tx of [out] \<Rightarrow> out_to out | outs \<Rightarrow> show_nat (length outs) @ '' outputs''))
      in bind_res (ensure ExPanic (length (txid tx) \<ge> 8 \<and> length from_address \<ge> 10)) (\<lambda>_.
         Ok \<lparr>ti_hash = txid tx, ti_txid = txid tx, ti_from = from_address, ti_to = to_address,
             ti_amount = amount, ti_fee = fee, ti_total = total, ti_timestamp = ts,
             ti_block_height = Some (index (header block)), ti_status = ''confirmed'', ti_confirmations = Some 0\<rparr>))))))))"

definition extract_tx :: "'b prims \<Rightarrow> int \<Rightarrow> block \<Rightarrow> transaction \<Rightarrow> extraction \<Rightarrow> (ex_error, extraction) result" where
  "extract_tx P ts block tx e =
     (if inputs tx = []
      then bind_res (coinbase_info ts block tx) (\<lambda>info.
           Ok (track_outputs tx (e\<lparr>ex_txs := ex_txs e @ [info]\<rparr>)))
      else bind_res (transfer_info P ts block (ex_map e) tx) (\<lambda>info.
           Ok (track_outputs tx (track_inputs tx (e\<lparr>ex_txs := ex_txs e @ [info]\<rparr>)))))"

definition extract_block :: "'b prims \<Rightarrow> 'v ex_codec \<Rightarrow> int \<Rightarrow> block \<Rightarrow> extraction \<Rightarrow> (ex_error, extraction) result" where
  "extract_block P C now block e =
     (let ts = (case ex_time C (timestamp (header block)) of Some t \<Rightarrow> t | None \<Rightarrow> now)
      in fold_res (extract_tx P ts block) (transactions block) e)"

definition extract_transactions :: "'b prims \<Rightarrow> 'v ex_codec \<Rightarrow> int \<Rightarrow> block list \<Rightarrow> outpoints \<Rightarrow> (ex_error, extraction) result" where
  "extract_transactions P C now blocks m =
     fold_res (extract_block P C now) (sort_key (\<lambda>b. index (header b)) blocks)
       \<lparr>ex_map = m, ex_txs = [], ex_created = [], ex_spent = []\<rparr>"

section \<open>A round of indexing\<close>

definition fetched :: "'b prims \<Rightarrow> 'v ex_codec \<Rightarrow> int \<Rightarrow> (string \<Rightarrow> block list option) \<Rightarrow> string
    \<Rightarrow> (fetch_error, block_info list \<times> extraction) result" where
  "fetched P C now dec encoded =
     bind_res (ok_or DecodeFailed (dec encoded)) (\<lambda>blocks.
     case extract_transactions P C now blocks Map.empty of
       Ok e \<Rightarrow> Ok (map (block_info_of C now) blocks, e)
     | Err _ \<Rightarrow> Err FetchPanic)"

definition nothing_fetched :: "block_info list \<times> extraction" where
  "nothing_fetched = ([], \<lparr>ex_map = Map.empty, ex_txs = [], ex_created = [], ex_spent = []\<rparr>)"

definition fetch_blocks_range :: "'b prims \<Rightarrow> 'v ex_codec \<Rightarrow> int \<Rightarrow> (string \<Rightarrow> block list option) \<Rightarrow> json option
    \<Rightarrow> (fetch_error, block_info list \<times> extraction) result" where
  "fetch_blocks_range P C now dec answer =
     bind_res (ok_or FetchFailed answer) (\<lambda>data.
     case Option.bind (json_get ''blockchain'' data) as_str_json of
       Some encoded \<Rightarrow> fetched P C now dec encoded
     | None \<Rightarrow> Ok nothing_fetched)"

definition fetch_blockchain_with_transactions :: "'b prims \<Rightarrow> 'v ex_codec \<Rightarrow> int \<Rightarrow> (string \<Rightarrow> block list option)
    \<Rightarrow> json option \<Rightarrow> (fetch_error, block_info list \<times> extraction) result" where
  "fetch_blockchain_with_transactions P C now dec answer =
     bind_res (ok_or FetchFailed answer) (\<lambda>data.
     case Option.bind (json_get ''blockchain'' data) as_str_json of
       Some encoded \<Rightarrow> if encoded = [] then Ok nothing_fetched else fetched P C now dec encoded
     | None \<Rightarrow> Err NoBlockchain)"

definition fetch_blocks :: "'v ex_codec \<Rightarrow> int \<Rightarrow> (string \<Rightarrow> block list option) \<Rightarrow> json option
    \<Rightarrow> (fetch_error, block_info list) result" where
  "fetch_blocks C now dec answer =
     bind_res (ok_or FetchFailed answer) (\<lambda>data.
     bind_res (ok_or NoBlockchain (Option.bind (json_get ''blockchain'' data) as_str_json)) (\<lambda>encoded.
     bind_res (ok_or DecodeFailed (dec encoded)) (\<lambda>blocks. Ok (map (block_info_of C now) blocks))))"

datatype sync_outcome = Synced | NothingNew | FetchError fetch_error | DbError ex_error

fun save_transactions :: "'v ex_codec \<Rightarrow> transaction_info list \<Rightarrow> 'v db \<Rightarrow> 'v db \<times> ex_error option" where
  "save_transactions C [] d = (d, None)"
| "save_transactions C (tx # txs) d =
     (case save_transaction C tx d of
        Ok d' \<Rightarrow> save_transactions C txs d'
      | Err e \<Rightarrow> (d, Some e))"

text \<open>An error of an address is logged and the loop goes on; a panic ends it.\<close>

fun update_addresses :: "'v ex_codec \<Rightarrow> string list \<Rightarrow> 'v db \<Rightarrow> 'v db \<times> ex_error option" where
  "update_addresses C [] d = (d, None)"
| "update_addresses C (a # as) d =
     (case update_address_info C a d of
        Ok (d', _) \<Rightarrow> update_addresses C as d'
      | Err ExPanic \<Rightarrow> (d, Some ExPanic)
      | Err _ \<Rightarrow> update_addresses C as d)"

definition index_fetched :: "'v ex_codec \<Rightarrow> (string list \<Rightarrow> string list) \<Rightarrow> block_info list \<Rightarrow> extraction \<Rightarrow> 'v db
    \<Rightarrow> 'v db \<times> sync_outcome" where
  "index_fetched C ord blocks e d =
     (let latest_height = Max (bi_height ` set blocks);
          d1 = fold (save_block C) blocks d;
          d2 = apply_utxo_changes C (ex_created e) (ex_spent e) d1
      in case save_transactions C (ex_txs e) d2 of
           (d3, Some err) \<Rightarrow> (d3, DbError err)
         | (d3, None) \<Rightarrow>
             (case update_addresses C (ord (remdups (concat (map (\<lambda>tx. [ti_from tx, ti_to tx]) (ex_txs e))))) d3 of
                (d4, Some err) \<Rightarrow> (d4, DbError err)
              | (d4, None) \<Rightarrow> (set_last_synced_height C latest_height d4, Synced)))"

text \<open>\<open>full\<close> and \<open>ranged\<close> are the node's answers to the two requests.\<close>

definition sync_blockchain :: "'b prims \<Rightarrow> 'v ex_codec \<Rightarrow> int \<Rightarrow> (string \<Rightarrow> block list option) \<Rightarrow> (string list \<Rightarrow> string list)
    \<Rightarrow> json option \<Rightarrow> (u64 \<Rightarrow> json option) \<Rightarrow> 'v db \<Rightarrow> 'v db \<times> sync_outcome" where
  "sync_blockchain P C now dec ord full ranged d =
     (case get_last_synced_height C d of
        Err e \<Rightarrow> (d, DbError e)
      | Ok height \<Rightarrow>
          let (d0, last_synced) = (if height > 0 \<and> \<not> has_utxo_data d
                then (set_last_synced_height C 0 d, 0) else (d, height))
          in (case (if last_synced = 0 then fetch_blockchain_with_transactions P C now dec full
                   else fetch_blocks_range P C now dec (ranged (last_synced + 1))) of
               Err e \<Rightarrow> (d0, FetchError e)
             | Ok (blocks, e) \<Rightarrow> if blocks = [] then (d0, NothingNew) else index_fetched C ord blocks e d0))"

section \<open>Requests\<close>

definition handle_get_blocks :: "'v ex_codec \<Rightarrow> 'v db \<Rightarrow> u32 option \<Rightarrow> u32 option
    \<Rightarrow> (ex_error, block_info list \<times> u32 \<times> u32 \<times> u64) result" where
  "handle_get_blocks C d page_q limit_q =
     (let page = (case page_q of Some p \<Rightarrow> p | None \<Rightarrow> 1); limit = (case limit_q of Some l \<Rightarrow> l | None \<Rightarrow> 20)
      in bind_res (get_blocks C d page limit) (\<lambda>blocks. Ok (blocks, page, limit, ok_else 0 (get_block_count C d))))"

definition handle_get_transactions :: "'v ex_codec \<Rightarrow> 'v db \<Rightarrow> u32 option \<Rightarrow> u32 option
    \<Rightarrow> (ex_error, transaction_info list \<times> u32 \<times> u32 \<times> u64) result" where
  "handle_get_transactions C d page_q limit_q =
     (let page = (case page_q of Some p \<Rightarrow> p | None \<Rightarrow> 1); limit = (case limit_q of Some l \<Rightarrow> l | None \<Rightarrow> 20)
      in bind_res (get_transactions C d page limit) (\<lambda>txs. Ok (txs, page, limit, ok_else 0 (get_transaction_count C d))))"

definition handle_richlist :: "'v ex_codec \<Rightarrow> (u256 hash_map \<Rightarrow> u256 hash_map) \<Rightarrow> 'v db \<Rightarrow> nat option
    \<Rightarrow> (ex_error, rich_list_entry list \<times> u256 \<times> nat) result" where
  "handle_richlist C ord d limit_q =
     (let limit = min (case limit_q of Some l \<Rightarrow> l | None \<Rightarrow> 50) 200
      in bind_res (get_richlist C ord d limit) (\<lambda>entries.
         Ok (entries, ok_else 0 (get_circulating_supply C d), length entries)))"

definition handle_address_info :: "'v ex_codec \<Rightarrow> string \<Rightarrow> 'v db \<Rightarrow> (ex_error, 'v db \<times> address_info) result" where
  "handle_address_info C address d =
     bind_res (get_address_info C d address) (\<lambda>stored.
     case stored of
       Some info \<Rightarrow> Ok (d, info)
     | None \<Rightarrow> update_address_info C address d)"

text \<open>A single record is the body of the answer, or status 404, or status 500.\<close>

datatype 'a reply = HttpOk 'a | NotFound | ServerError ex_error

definition reply_of :: "(ex_error, 'a option) result \<Rightarrow> 'a reply" where
  "reply_of r = (case r of Ok (Some x) \<Rightarrow> HttpOk x | Ok None \<Rightarrow> NotFound | Err e \<Rightarrow> ServerError e)"

definition handle_block_by_height :: "'v ex_codec \<Rightarrow> 'v db \<Rightarrow> u64 \<Rightarrow> block_info reply" where
  "handle_block_by_height C d height = reply_of (get_block_by_height C d height)"

definition handle_block_by_hash :: "'v ex_codec \<Rightarrow> 'v db \<Rightarrow> string \<Rightarrow> block_info reply" where
  "handle_block_by_hash C d hash = reply_of (get_block_by_hash C d hash)"

definition handle_transaction_by_hash :: "'v ex_codec \<Rightarrow> 'v db \<Rightarrow> string \<Rightarrow> transaction_info reply" where
  "handle_transaction_by_hash C d hash = reply_of (get_transaction_db C d hash)"

record blockchain_stats =
  st_total_blocks :: u64
  st_total_transactions :: u64
  st_total_volume :: u256
  st_average_block_time :: f64
  st_average_block_size :: nat
  st_current_difficulty :: u32
  st_network_hashrate :: string
  st_total_addresses :: u64
  st_circulating_supply :: u256

text \<open>\<open>{:.2}\<close> of a float: the exact value rounded to two decimals, ties to even.\<close>

definition show_fixed2 :: "f64 \<Rightarrow> string" where
  "show_fixed2 h =
     (case h of
        NaN \<Rightarrow> ''NaN''
      | Infinity s \<Rightarrow> (if s then ''-inf'' else ''inf'')
      | Fin x \<Rightarrow>
          let n = nat (round_even (\<bar>x\<bar> * 100))
          in (if x < 0 then ''-'' else []) @ show_nat (n div 100) @ ''.'' @ [digit (n div 10 mod 10), digit (n mod 10)])"

definition format_hashrate :: "f64 \<Rightarrow> string" where
  "format_hashrate h =
     (if f64_le (Fin (10 ^ 12)) h then show_fixed2 (f64_div h (Fin (10 ^ 12))) @ '' TH/s''
      else if f64_le (Fin (10 ^ 9)) h then show_fixed2 (f64_div h (Fin (10 ^ 9))) @ '' GH/s''
      else if f64_le (Fin (10 ^ 6)) h then show_fixed2 (f64_div h (Fin (10 ^ 6))) @ '' MH/s''
      else if f64_le (Fin (10 ^ 3)) h then show_fixed2 (f64_div h (Fin (10 ^ 3))) @ '' KH/s''
      else show_fixed2 h @ '' H/s'')"

function trim_0x :: "string \<Rightarrow> string" where
  "trim_0x s = (case strip_prefix ''0x'' s of Some r \<Rightarrow> trim_0x r | None \<Rightarrow> s)"
  by auto
termination by (relation "measure length") (auto simp: strip_prefix_def starts_with_def intro!: diff_less split: if_splits)

declare trim_0x.simps [simp del]

definition nibble_difficulty :: "block_info option \<Rightarrow> nat" where
  "nibble_difficulty latest =
     max (case latest of
            Some b \<Rightarrow> length (takeWhile (\<lambda>c. c = CHR ''0'') (trim_0x (bi_hash b)))
          | None \<Rightarrow> 1) 1"

text \<open>The text of an unknown rate is a dash, three bytes of UTF-8.\<close>

definition get_blockchain_stats :: "'v ex_codec \<Rightarrow> 'v db \<Rightarrow> (ex_error, blockchain_stats) result" where
  "get_blockchain_stats C d =
     bind_res (get_stats_db C d) (\<lambda>(total_blocks, total_transactions, total_volume).
     let average_block_time = ok_else (Fin 0) (compute_avg_block_time C d 50);
         latest_block = ok_else None (get_latest_block C d);
         expected_hashes = f64_round (16 ^ nibble_difficulty latest_block)
     in Ok \<lparr>st_total_blocks = total_blocks, st_total_transactions = total_transactions, st_total_volume = total_volume,
          st_average_block_time = average_block_time, st_average_block_size = 250,
          st_current_difficulty = (case latest_block of Some b \<Rightarrow> bi_difficulty b | None \<Rightarrow> 1),
          st_network_hashrate =
            (if f64_lt (Fin 0) average_block_time then format_hashrate (f64_div expected_hashes average_block_time)
             else map char_of [226 :: nat, 128, 148]),
          st_total_addresses = ok_else 0 (get_address_count C d),
          st_circulating_supply = ok_else 0 (get_circulating_supply C d)\<rparr>)"

section \<open>A saved block is found\<close>

lemma saved_block:
  assumes "ex_codec_ok C"
  shows "db_get (save_block C b d) (ex_block_key (bi_height b)) = Some (enc_block_info C b)"
    "db_get (save_block C b d) (hash_key (bi_hash b)) = Some (counter_text C (bi_height b))"
  by (simp_all add: save_block_def Let_def ex_keys)

lemma saved_other_hash: "h \<noteq> bi_hash b \<Longrightarrow> db_get (save_block C b d) (hash_key h) = db_get d (hash_key h)"
  by (simp add: save_block_def Let_def ex_keys)

lemma trim_0x_prefix:
  assumes "plain_hash h"
  shows "trim (''0x'' @ h) = ''0x'' @ h"
proof -
  have t: "rev (dropWhile is_space (rev (dropWhile is_space h))) = h" "h \<noteq> []" using assms by (simp_all add: plain_hash_def trim_def)
  have "length (rev (dropWhile is_space (rev (dropWhile is_space h)))) \<le> length (dropWhile is_space h)"
    by (metis length_dropWhile_le length_rev)
  then have "length (takeWhile is_space h) = 0"
    using t(1) takeWhile_dropWhile_id[of is_space h] by (metis add_le_same_cancel2 le_zero_eq length_append)
  then have d: "dropWhile is_space h = h" by (metis append_Nil length_0_conv takeWhile_dropWhile_id)
  then have "dropWhile is_space (rev h) = rev h" using t by (metis rev_rev_ident)
  then have "dropWhile is_space (rev h @ ''x0'') = rev h @ ''x0''" using t(2)
    by (metis append_is_Nil_conv dropWhile_eq_self_iff hd_append2 rev_is_Nil_conv)
  then show ?thesis by (simp add: trim_def is_space_def)
qed

lemma saved_block_height:
  assumes "ex_codec_ok C" "get_last_indexed_height C d = Ok n"
  shows "get_block_by_height C (save_block C b d) (bi_height b) =
    Ok (Some (b\<lparr>bi_confirmations := max n (bi_height b) - bi_height b\<rparr>))"
proof -
  have "get_last_indexed_height C (save_block C b d) = Ok (max n (bi_height b))"
  proof (cases "n \<le> bi_height b")
    case True
    then have "db_get (save_block C b d) ''meta:last_height'' = Some (counter_text C (bi_height b))"
      using assms(2) by (simp add: save_block_def Let_def ok_else_def)
    then show ?thesis using read_counter_text[OF assms(1)] True by (simp add: get_last_indexed_height_def max_def)
  next
    case False
    then have "db_get (save_block C b d) ''meta:last_height'' = db_get d ''meta:last_height''"
      using assms(2) by (simp add: save_block_def Let_def ok_else_def ex_keys)
    then show ?thesis using assms(2) False by (simp add: get_last_indexed_height_def read_counter_def max_def)
  qed
  then show ?thesis using saved_block(1)[OF assms(1)] assms(1)
    by (auto simp: get_block_by_height_def max_def not_le)
qed

text \<open>
  A block that was saved is found by its height, by its hash, and by its hash written with the prefix
  \<open>0x\<close> unless another block is stored under that text.
\<close>

theorem saved_block_found:
  assumes "ex_codec_ok C" "get_last_indexed_height C d = Ok n" "plain_hash (bi_hash b)"
    and "q = bi_hash b \<or> q = ''0x'' @ bi_hash b \<and> db_get d (hash_key q) = None"
  shows "handle_block_by_hash C (save_block C b d) q = HttpOk (b\<lparr>bi_confirmations := max n (bi_height b) - bi_height b\<rparr>) \<and>
    handle_block_by_height C (save_block C b d) (bi_height b) = HttpOk (b\<lparr>bi_confirmations := max n (bi_height b) - bi_height b\<rparr>)"
proof -
  let ?d = "save_block C b d"
  have h: "get_block_by_height C ?d (bi_height b) = Ok (Some (b\<lparr>bi_confirmations := max n (bi_height b) - bi_height b\<rparr>))"
    by (rule saved_block_height[OF assms(1,2)])
  have found: "first_block C ?d (bi_hash b # cs) = get_block_by_height C ?d (bi_height b)" for cs
    using saved_block(2)[OF assms(1)] assms(1) parse_show_nat[of "unat (bi_height b)" 64] unat_u64_lt[of "bi_height b"]
    by (simp add: counter_text_def)
  have "get_block_by_hash C ?d q = get_block_by_height C ?d (bi_height b)"
    using assms(4)
  proof
    assume "q = bi_hash b"
    then show ?thesis using candidates_plain[OF assms(3)] found unfolding get_block_by_hash_def by metis
  next
    assume q: "q = ''0x'' @ bi_hash b \<and> db_get d (hash_key q) = None"
    have "\<exists>cs. hash_lookup_candidates q = q # bi_hash b # cs"
      using q trim_0x_prefix[OF assms(3)] assms(3)
      by (auto simp: hash_lookup_candidates_def Let_def strip_prefix_def plain_hash_def)
    moreover have "db_get ?d (hash_key q) = None" using q saved_other_hash[of q b C d] by auto
    ultimately show ?thesis using found unfolding get_block_by_hash_def by (metis first_block.simps(2) option.simps(4))
  qed
  then show ?thesis using h by (simp add: handle_block_by_hash_def handle_block_by_height_def reply_of_def)
qed

definition sample_block_info :: block_info where
  "sample_block_info = \<lparr>bi_height = 3, bi_hash = ''ab'', bi_timestamp = 1000, bi_transactions = 1, bi_miner = ''0xab'',
     bi_difficulty = 1, bi_nonce = 0, bi_previous_hash = ''g'', bi_confirmations = 0\<rparr>"

theorem saved_block_found_witness:
  "handle_block_by_hash ref_ex_codec (save_block ref_ex_codec sample_block_info []) ''0xab'' = HttpOk sample_block_info"
proof -
  have "plain_hash ''ab''" by (simp add: plain_hash_def trim_def is_space_def)
  moreover have "get_last_indexed_height ref_ex_codec [] = Ok 0" "db_get ([] :: ex_stored db) (hash_key ''0xab'') = None"
    by (simp_all add: get_last_indexed_height_def read_counter_def db_get_def)
  ultimately show ?thesis using saved_block_found[OF ref_ex_codec_ok, of "[]" 0 sample_block_info "''0xab''"]
    by (simp add: sample_block_info_def)
qed

section \<open>The counters stay exact\<close>

lemma counts_okD:
  assumes "counts_ok C d"
  shows "get_block_count C d = Ok (of_nat (length (seek_prefix ''b:'' d)))"
    "get_transaction_count C d = Ok (of_nat (length (seek_prefix ''t:'' d)))"
    "get_address_count C d = Ok (of_nat (length (seek_prefix ''addr:'' d)))"
  using assms count_prefix_eq[of d]
  by (simp_all add: counts_ok_def counter_ok_def get_block_count_def get_transaction_count_def get_address_count_def count_prefix_def)

lemma save_transactions_counts:
  "ex_codec_ok C \<Longrightarrow> counts_ok C d \<Longrightarrow> counts_ok C (fst (save_transactions C txs d))"
  by (induction txs arbitrary: d) (auto split: result.splits intro: save_transaction_counts)

lemma update_addresses_counts:
  "ex_codec_ok C \<Longrightarrow> counts_ok C d \<Longrightarrow> counts_ok C (fst (update_addresses C as d))"
  by (induction as arbitrary: d) (auto split: result.splits ex_error.splits intro: update_address_counts)

lemma save_blocks_counts: "ex_codec_ok C \<Longrightarrow> counts_ok C d \<Longrightarrow> counts_ok C (fold (save_block C) bs d)"
  by (induction bs arbitrary: d) (auto intro: save_block_counts)

lemma index_fetched_counts:
  assumes "ex_codec_ok C" "counts_ok C d"
  shows "counts_ok C (fst (index_fetched C ord blocks e d))"
proof -
  have d2: "counts_ok C (apply_utxo_changes C (ex_created e) (ex_spent e) (fold (save_block C) blocks d))"
    using assms by (intro utxo_changes_counts save_blocks_counts)
  note d3 = save_transactions_counts[OF assms(1) d2, of "ex_txs e"]
  show ?thesis
    using d3 update_addresses_counts[OF assms(1) d3]
    by (auto simp: index_fetched_def Let_def split: prod.splits option.splits intro!: set_synced_counts)
      (metis fst_conv)+
qed

lemma sync_blockchain_counts:
  assumes "ex_codec_ok C" "counts_ok C d"
  shows "counts_ok C (fst (sync_blockchain P C now dec ord full ranged d))"
  using assms by (auto simp: sync_blockchain_def Let_def set_synced_counts
      split: result.splits prod.splits intro!: index_fetched_counts)

text \<open>Opening the database recounts what was never counted and keeps the counters otherwise.\<close>

lemma counter_set:
  assumes "ex_codec_ok C" "db_wf d" "\<forall>op\<in>set ops. \<not> starts_with p (op_key op)"
    and "batch_view ops (db_get d) key = Some (counter_text C (count_prefix p d))"
  shows "counter_ok C key p (put_batch d ops)"
proof -
  have "db_get (put_batch d ops) key = Some (counter_text C (count_prefix p d))" using assms(4) by simp
  then show ?thesis using read_counter_text[OF assms(1)] prefix_count_batch[OF assms(2,3)] count_prefix_eq[OF assms(2)]
    by (simp add: counter_ok_def)
qed

lemma init_block_counts:
  assumes "ex_codec_ok C" "counts_ok C d"
  shows "counts_ok C (init_block_count C d)"
proof -
  let ?ops = "[Put ''meta:block_count'' (counter_text C (count_prefix ''b:'' d)),
    Put ''meta:last_height'' (counter_text C (max_stored_height d))]"
  have "counts_ok C (put_batch d ?ops)"
    using assms counter_set[OF assms(1), of d ?ops] unfolding counts_ok_def by (auto intro!: counter_kept simp: batch_view_def)
  then show ?thesis using assms(2) by (simp add: init_block_count_def Let_def set_block_count_def put_batch_def)
qed

lemma init_tx_counts:
  assumes "ex_codec_ok C" "counts_ok C d"
  shows "counts_ok C (init_tx_count C d)"
proof -
  let ?ops = "[Put ''meta:tx_count'' (counter_text C (count_prefix ''t:'' d))]"
  have "counts_ok C (put_batch d ?ops)"
    using assms counter_set[OF assms(1), of d ?ops] unfolding counts_ok_def by (auto intro!: counter_kept simp: batch_view_def)
  then show ?thesis using assms(2) by (simp add: init_tx_count_def Let_def set_transaction_count_def put_batch_def)
qed

lemma migrate_last_height_counts:
  assumes "ex_codec_ok C" "counts_ok C d"
  shows "counts_ok C (migrate_last_height C d)"
proof -
  let ?ops = "[Put ''meta:last_height'' (counter_text C (max_stored_height d)),
    Put ''meta:block_count'' (counter_text C (count_prefix ''b:'' d))]"
  have "counts_ok C (put_batch d ?ops)"
    using assms counter_set[OF assms(1), of d ?ops] unfolding counts_ok_def by (auto intro!: counter_kept simp: batch_view_def)
  then show ?thesis using assms(2) by (simp add: migrate_last_height_def Let_def)
qed

lemma migrate_address_counts:
  assumes "ex_codec_ok C" "counts_ok C d"
  shows "counts_ok C (migrate_address_count C d)"
proof -
  let ?ops = "[Put ''meta:address_count'' (counter_text C (count_prefix ''addr:'' d)), Put ''meta:addr_count_migrated'' (ex_text C ''1'')]"
  have "counts_ok C (put_batch d ?ops)"
    using assms counter_set[OF assms(1), of d ?ops] unfolding counts_ok_def by (auto intro!: counter_kept simp: batch_view_def)
  then show ?thesis using assms(2) by (simp add: migrate_address_count_def)
qed

lemma migrate_supply_counts:
  "counts_ok C d \<Longrightarrow> migrate_supply C d = Ok d' \<Longrightarrow> counts_ok C d'"
  unfolding counts_ok_def by (auto simp: migrate_supply_def res_simps split: if_splits intro!: counter_kept)

lemma migrate_time_index_counts:
  assumes "counts_ok C d" "migrate_time_index C d = Ok d'"
  shows "counts_ok C d'"
proof (cases "db_get d ''meta:ti_migrated'' = None")
  case True
  obtain batch vol where b: "fold_res (\<lambda>(_, value) (batch, total_volume).
          case dec_tx_info C value of
            Some tx \<Rightarrow>
              bind_res (ok_or ExPanic (u256_add total_volume (ti_amount tx))) (\<lambda>v.
              Ok (batch @ [Put (make_ti_key tx) (ex_text C (ti_hash tx))], v))
          | None \<Rightarrow> Ok (batch, total_volume)) (seek_prefix ''t:'' d) ([], 0) = Ok (batch, vol)"
    and d': "d' = put_batch d (batch @ [Put ''meta:total_volume'' (amount_text C vol), Put ''meta:ti_migrated'' (ex_text C ''1'')])"
    using assms(2) True by (auto simp: migrate_time_index_def res_simps)
  have "\<forall>op\<in>set (fst (batch, vol)). \<exists>s. op_key op = ''ti:'' @ s"
    by (rule fold_res_inv[OF b]) (use ti_key_prefix in \<open>auto simp: res_simps split: option.splits\<close>)
  then have "op_key op \<notin> {''meta:block_count'', ''meta:tx_count'', ''meta:address_count''} \<and> \<not> starts_with ''b:'' (op_key op) \<and>
      \<not> starts_with ''t:'' (op_key op) \<and> \<not> starts_with ''addr:'' (op_key op)" if "op \<in> set batch" for op
    using that by fastforce
  then show ?thesis using assms(1) unfolding counts_ok_def d' by (auto intro!: counter_kept)
qed (use assms in \<open>simp add: migrate_time_index_def\<close>)

lemma opened_counts:
  assumes "ex_codec_ok C" "counts_ok C d" "explorer_db_new C d = Ok d'"
  shows "counts_ok C d'"
proof -
  obtain n t where "get_block_count C d = Ok n" "get_transaction_count C d = Ok t" using counts_okD[OF assms(2)] by blast
  then obtain d2 d3 where d2: "d2 = (let d1 = (if n = 0 then init_block_count C d else d) in if t = 0 then init_tx_count C d1 else d1)"
    and d3: "migrate_supply C (migrate_last_height C d2) = Ok d3" "migrate_time_index C (migrate_address_count C d3) = Ok d'"
    using assms(3) by (auto simp: explorer_db_new_def initialize_metadata_def Let_def bind_res_Ok_iff)
  have "counts_ok C d2" using assms(1,2) by (simp add: d2 Let_def init_block_counts init_tx_counts)
  then have "counts_ok C d3" using migrate_supply_counts[OF _ d3(1)] migrate_last_height_counts[OF assms(1)] by blast
  then show ?thesis using migrate_time_index_counts[OF _ d3(2)] migrate_address_counts[OF assms(1)] by blast
qed

text \<open>What the process does to its database: it opens it, indexes rounds and answers requests for addresses.\<close>

inductive explorer_step :: "'b prims \<Rightarrow> 'v ex_codec \<Rightarrow> (string \<Rightarrow> block list option) \<Rightarrow> 'v db \<Rightarrow> 'v db \<Rightarrow> bool"
  for P :: "'b prims" and C :: "'v ex_codec" and dec :: "string \<Rightarrow> block list option" where
  opened: "explorer_db_new C d = Ok d' \<Longrightarrow> explorer_step P C dec d d'"
| round: "sync_blockchain P C now dec ord full ranged d = (d', outcome) \<Longrightarrow> explorer_step P C dec d d'"
| request: "handle_address_info C address d = Ok (d', info) \<Longrightarrow> explorer_step P C dec d d'"

lemma empty_counts: "counts_ok C []"
  by (simp add: counts_ok_def counter_ok_def read_counter_def db_get_def prefix_count_def entry_sum_def db_iterator_def db_wf_def)

lemma explorer_step_counts:
  assumes "ex_codec_ok C" "explorer_step P C dec d d'" "counts_ok C d"
  shows "counts_ok C d'"
  using assms(2,3)
proof (induction rule: explorer_step.induct)
  case (round now ord full ranged d d' outcome)
  then show ?case using sync_blockchain_counts[OF assms(1), of d] by (metis fst_conv)
qed (use assms(1) in \<open>auto simp: handle_address_info_def res_simps split: option.splits intro: opened_counts update_address_counts\<close>)

text \<open>
  C20. From an empty database, whatever the node answers, in whatever order rounds, restarts and requests
  come and however rounds fail half-way, the counters of blocks, transactions and addresses are the
  numbers of their records (modulo \<open>2^64\<close>).
\<close>

theorem explorer_counts:
  assumes "ex_codec_ok C" "(explorer_step P C dec)\<^sup>*\<^sup>* [] d"
  shows "get_block_count C d = Ok (of_nat (length (seek_prefix ''b:'' d))) \<and>
    get_transaction_count C d = Ok (of_nat (length (seek_prefix ''t:'' d))) \<and>
    get_address_count C d = Ok (of_nat (length (seek_prefix ''addr:'' d)))"
proof -
  have "counts_ok C d" using assms(2)
    by (induction rule: rtranclp_induct) (auto intro: empty_counts explorer_step_counts[OF assms(1)])
  then show ?thesis by (simp add: counts_okD)
qed

definition ex_sample_block :: block where
  "ex_sample_block = sample_block 0 [sample_coinbase ''aa'' 50]"

theorem explorer_counts_witness:
  "\<exists>d outcome. sync_blockchain ref_prims ref_ex_codec 0 (\<lambda>_. Some [ex_sample_block]) id
       (Some (JObj [(''blockchain'', JStr ''x'')])) (\<lambda>_. None) [] = (d, outcome) \<and>
     get_block_count ref_ex_codec d = Ok (of_nat (length (seek_prefix ''b:'' d)))"
proof -
  obtain d outcome where s: "sync_blockchain ref_prims ref_ex_codec 0 (\<lambda>_. Some [ex_sample_block]) id
       (Some (JObj [(''blockchain'', JStr ''x'')])) (\<lambda>_. None) [] = (d, outcome)" by fastforce
  then have "explorer_step ref_prims ref_ex_codec (\<lambda>_. Some [ex_sample_block]) [] d" by (rule explorer_step.round)
  then show ?thesis using explorer_counts[OF ref_ex_codec_ok r_into_rtranclp] s by blast
qed

end
