(* ===== verification/Explorer_Utxo.thy ===== *)
theory Explorer_Utxo
  imports Explorer
begin

text \<open>
  The explorer's index of unspent outputs against the ledger it is an index of. The specification is a
  map from outpoints to address and amount, from which a transaction removes its inputs and to which it
  adds its outputs, one after the other. The program instead extracts the outputs and inputs of a whole
  round with a map that starts empty, writes all created outputs, then deletes all spent ones, and finds
  the address of an older output through a second index. The relation \<open>utxos_ok\<close> between the database and
  the map is kept by a round, and balances read by prefix scans are sums over the map.
\<close>

section \<open>The ledger as a map\<close>

datatype utxo_event = Spend "string \<times> u32" | Create "string \<times> u32" string u256

definition tx_events :: "transaction \<Rightarrow> utxo_event list" where
  "tx_events tx = map (\<lambda>i. Spend (in_txid i, in_vout i)) (inputs tx) @
     map (\<lambda>(n, out). Create (txid tx, of_nat n) (out_to out) (out_amount out)) (enumerate 0 (outputs tx))"

fun ledger_event :: "utxo_event \<Rightarrow> outpoints \<Rightarrow> outpoints" where
  "ledger_event (Spend k) M = M(k := None)"
| "ledger_event (Create k a x) M = M(k \<mapsto> (a, x))"

definition ledger_tx :: "transaction \<Rightarrow> outpoints \<Rightarrow> outpoints" where
  "ledger_tx tx M = fold ledger_event (tx_events tx) M"

definition colon_free :: "string \<Rightarrow> bool" where
  "colon_free s \<longleftrightarrow> CHR '':'' \<notin> set s"

definition utxos_ok :: "'v ex_codec \<Rightarrow> 'v db \<Rightarrow> outpoints \<Rightarrow> bool" where
  "utxos_ok C d M \<longleftrightarrow> db_wf d \<and>
     (\<forall>t n a x. M (t, n) = Some (a, x) \<longrightarrow> a \<noteq> [] \<and> colon_free a \<and> colon_free t \<and> db_get d (eur_key t n) = Some (ex_text C a)) \<and>
     (\<forall>k v. starts_with ''eu:'' k \<longrightarrow> (db_get d k = Some v \<longleftrightarrow>
       (\<exists>t n a x. M (t, n) = Some (a, x) \<and> k = eu_key a t n \<and> v = ex_text C (to_hex_str (ex_amounts C) x))))"

text \<open>
  The texts of a transaction have no separator, and its identifier has not occurred before, neither as an
  identifier nor in an input.
\<close>

definition plain_tx :: "transaction \<Rightarrow> bool" where
  "plain_tx tx \<longleftrightarrow> colon_free (txid tx) \<and> (\<forall>i\<in>set (inputs tx). colon_free (in_txid i)) \<and>
     (\<forall>out\<in>set (outputs tx). out_to out \<noteq> [] \<and> colon_free (out_to out)) \<and> length (outputs tx) \<le> 2 ^ 32"

fun fresh_ids :: "string list \<Rightarrow> transaction list \<Rightarrow> bool" where
  "fresh_ids used [] \<longleftrightarrow> True"
| "fresh_ids used (tx # txs) \<longleftrightarrow> txid tx \<notin> set (map in_txid (inputs tx) @ used) \<and>
     fresh_ids (txid tx # map in_txid (inputs tx) @ used) txs"

section \<open>Keys\<close>

lemma colon_split: "colon_free a \<Longrightarrow> colon_free b \<Longrightarrow> a @ CHR '':'' # r = b @ CHR '':'' # s \<longleftrightarrow> a = b \<and> r = s"
proof (induction a arbitrary: b)
  case Nil
  then show ?case by (cases b) (auto simp: colon_free_def)
next
  case (Cons c a)
  then show ?case by (cases b) (auto simp: colon_free_def)
qed

lemma eu_key_inj:
  assumes "colon_free t" "colon_free u"
  shows "eu_key a t m = eu_key b u n \<longleftrightarrow> a = b \<and> t = u \<and> m = n"
  using append_sep_inj[OF show_nat_no_colon[of "unat m"] show_nat_no_colon[of "unat n"], of "a @ '':'' @ t" "b @ '':'' @ u"]
    append_sep_inj[of "CHR '':''" t u a b] assms by (auto simp: eu_key_def colon_free_def word_unat_eq_iff)

lemma eur_key_inj: "eur_key t m = eur_key u n \<longleftrightarrow> t = u \<and> m = n"
  using append_sep_inj[OF show_nat_no_colon[of "unat m"] show_nat_no_colon[of "unat n"], of t u]
  by (auto simp: eur_key_def word_unat_eq_iff)

lemma starts_with_trans: "starts_with (p @ q) k \<Longrightarrow> starts_with p k"
  unfolding starts_with_def by (metis append.assoc append_eq_conv_conj append_take_drop_id)

lemma eu_key_prefix:
  assumes "colon_free a" "colon_free b"
  shows "starts_with (''eu:'' @ a @ '':'') (eu_key b t n) \<longleftrightarrow> a = b"
proof
  assume "starts_with (''eu:'' @ a @ '':'') (eu_key b t n)"
  then obtain r where "(''eu:'' @ a @ '':'') @ r = eu_key b t n" unfolding starts_with_def by (metis append_take_drop_id)
  then show "a = b" using colon_split[OF assms] by (simp add: eu_key_def)
qed (simp add: eu_key_def starts_with_def)

lemma key_kinds_ex [simp]: "starts_with ''eu:'' (eu_key a t n)" "\<not> starts_with ''eu:'' (eur_key t n)"
  "eu_key a t n \<noteq> eur_key u m" "eur_key u m \<noteq> eu_key a t n"
  by (simp_all add: eu_key_def eur_key_def)

section \<open>Extraction as events\<close>

fun extract_event :: "utxo_event \<Rightarrow> extraction \<Rightarrow> extraction" where
  "extract_event (Spend k) e = e\<lparr>ex_map := (ex_map e)(k := None),
     ex_spent := ex_spent e @ [(fst k, snd k, case ex_map e k of Some (a, _) \<Rightarrow> a | None \<Rightarrow> [])]\<rparr>"
| "extract_event (Create k a x) e = e\<lparr>ex_map := (ex_map e)(k \<mapsto> (a, x)),
     ex_created := ex_created e @ [(fst k, snd k, a, x)]\<rparr>"

lemma track_events: "track_outputs tx (track_inputs tx e) = fold extract_event (tx_events tx) e"
proof -
  have o: "track_outputs tx e = fold extract_event (map (\<lambda>(n, out). Create (txid tx, of_nat n) (out_to out) (out_amount out))
      (enumerate 0 (outputs tx))) e" for e
    unfolding track_outputs_def fold_map by (intro fold_cong) auto
  have i: "track_inputs tx e = fold extract_event (map (\<lambda>i. Spend (in_txid i, in_vout i)) (inputs tx)) e" for e
    unfolding track_inputs_def fold_map by (intro fold_cong) (auto simp: Let_def)
  show ?thesis by (simp add: o i tx_events_def)
qed

lemma fold_event_txs: "fold extract_event evs (e\<lparr>ex_txs := ts\<rparr>) = (fold extract_event evs e)\<lparr>ex_txs := ts\<rparr>"
proof (induction evs arbitrary: e)
  case (Cons ev evs)
  have "extract_event ev (e\<lparr>ex_txs := ts\<rparr>) = (extract_event ev e)\<lparr>ex_txs := ts\<rparr>" by (cases ev) simp_all
  then show ?case using Cons by simp
qed simp

lemma extract_tx_events:
  assumes "extract_tx P ts b tx e = Ok e'"
  shows "\<exists>l. e' = (fold extract_event (tx_events tx) e)\<lparr>ex_txs := l\<rparr>"
proof (cases "inputs tx = []")
  case True
  then have "track_inputs tx e = e" for e by (simp add: track_inputs_def)
  then show ?thesis using assms True track_events[of tx] fold_event_txs by (auto simp: extract_tx_def res_simps)
next
  case False
  then show ?thesis using assms track_events[of tx] fold_event_txs by (auto simp: extract_tx_def res_simps)
qed

lemma fold_res_extract:
  assumes "\<And>x e e'. f x e = Ok e' \<Longrightarrow> \<exists>l. e' = (fold extract_event (g x) e)\<lparr>ex_txs := l\<rparr>"
    and "fold_res f xs e = Ok e'"
  shows "\<exists>l. e' = (fold extract_event (concat (map g xs)) e)\<lparr>ex_txs := l\<rparr>"
  using assms(2)
proof (induction xs arbitrary: e)
  case Nil
  then show ?case by (metis concat.simps(1) extraction.surjective extraction.update_convs(2) fold_simps(1) fold_res.simps(1) list.simps(8) result.inject(1))
next
  case (Cons x xs)
  then obtain e1 where e1: "f x e = Ok e1" "fold_res f xs e1 = Ok e'" by (auto simp: res_simps)
  then show ?case using assms(1)[OF e1(1)] Cons.IH[OF e1(2)] fold_event_txs by auto
qed

definition round_txs :: "block list \<Rightarrow> transaction list" where
  "round_txs blocks = concat (map transactions (sort_key (\<lambda>b. index (header b)) blocks))"

definition round_events :: "transaction list \<Rightarrow> utxo_event list" where
  "round_events txs = concat (map tx_events txs)"

lemma extract_transactions_events:
  assumes "extract_transactions P C now blocks m = Ok e"
  shows "\<exists>l. e = (fold extract_event (round_events (round_txs blocks))
    \<lparr>ex_map = m, ex_txs = [], ex_created = [], ex_spent = []\<rparr>)\<lparr>ex_txs := l\<rparr>"
proof -
  have b: "\<exists>l. e' = (fold extract_event (concat (map tx_events (transactions b))) e)\<lparr>ex_txs := l\<rparr>"
    if "extract_block P C now b e = Ok e'" for b e e'
    by (rule fold_res_extract[OF extract_tx_events that[unfolded extract_block_def Let_def]])
  have eq: "concat (map (\<lambda>b. concat (map tx_events (transactions b))) bs) = round_events (concat (map transactions bs))" for bs
    by (induction bs) (simp_all add: round_events_def)
  show ?thesis unfolding round_txs_def eq[symmetric]
    by (rule fold_res_extract[where g = "\<lambda>b. concat (map tx_events (transactions b))", OF b assms[unfolded extract_transactions_def]])
qed

lemma ledger_events: "fold ledger_tx txs M = fold ledger_event (round_events txs) M"
  by (induction txs arbitrary: M) (simp_all add: round_events_def ledger_tx_def)

section \<open>What a round has extracted\<close>

definition spent_set :: "extraction \<Rightarrow> (string \<times> u32) set" where
  "spent_set e = (\<lambda>(t, n, a). (t, n)) ` set (ex_spent e)"

definition created_map :: "extraction \<Rightarrow> outpoints" where
  "created_map e = map_of (map (\<lambda>(t, n, a, x). ((t, n), (a, x))) (ex_created e))"

definition extracted :: "outpoints \<Rightarrow> (string \<times> u32) set \<Rightarrow> extraction \<Rightarrow> outpoints \<Rightarrow> bool" where
  "extracted M0 U e M \<longleftrightarrow>
     M = (\<lambda>k. if k \<in> spent_set e then None else (case created_map e k of Some v \<Rightarrow> Some v | None \<Rightarrow> M0 k)) \<and>
     ex_map e = (\<lambda>k. if k \<in> spent_set e then None else created_map e k) \<and>
     spent_set e \<union> dom (created_map e) \<union> dom M0 \<subseteq> U \<and>
     (\<forall>t n a. (t, n, a) \<in> set (ex_spent e) \<longrightarrow> a = [] \<or> (\<exists>x. created_map e (t, n) = Some (a, x))) \<and>
     (\<forall>k a x. k \<in> spent_set e \<longrightarrow> created_map e k = Some (a, x) \<longrightarrow> (fst k, snd k, a) \<in> set (ex_spent e)) \<and>
     distinct (map (\<lambda>(t, n, a, x). (t, n)) (ex_created e)) \<and>
     (\<forall>k a x. created_map e k = Some (a, x) \<longrightarrow> M0 k = None \<and> a \<noteq> [] \<and> colon_free a \<and> colon_free (fst k)) \<and>
     (\<forall>k\<in>spent_set e. colon_free (fst k))"

lemma extracted_txs [simp]: "extracted M0 U (e\<lparr>ex_txs := l\<rparr>) M = extracted M0 U e M"
proof -
  have same: "spent_set (e\<lparr>ex_txs := l\<rparr>) = spent_set e" "created_map (e\<lparr>ex_txs := l\<rparr>) = created_map e"
    by (simp_all add: spent_set_def created_map_def)
  show ?thesis unfolding extracted_def same by simp
qed

fun fresh_events :: "(string \<times> u32) set \<Rightarrow> utxo_event list \<Rightarrow> bool" where
  "fresh_events U [] \<longleftrightarrow> True"
| "fresh_events U (Spend k # evs) \<longleftrightarrow> colon_free (fst k) \<and> fresh_events (insert k U) evs"
| "fresh_events U (Create k a x # evs) \<longleftrightarrow> k \<notin> U \<and> a \<noteq> [] \<and> colon_free a \<and> colon_free (fst k) \<and> fresh_events (insert k U) evs"

lemma created_map_create:
  "created_map e k = None \<Longrightarrow> created_map (extract_event (Create k a x) e) = (created_map e)(k \<mapsto> (a, x))"
  by (cases k) (auto simp: created_map_def map_add_def fun_eq_iff split: option.splits)

lemma events_simps [simp]:
  "created_map (extract_event (Spend k) e) = created_map e"
  "spent_set (extract_event (Spend k) e) = insert k (spent_set e)"
  "spent_set (extract_event (Create k a x) e) = spent_set e"
  by (simp_all add: created_map_def spent_set_def)

lemma extracted_spend:
  assumes "extracted M0 U e M" "colon_free (fst k)"
  shows "extracted M0 (insert k U) (extract_event (Spend k) e) (ledger_event (Spend k) M)"
proof -
  note E = assms(1)[unfolded extracted_def]
  have m: "ex_map e k = (if k \<in> spent_set e then None else created_map e k)" using E by metis
  have new: "set (ex_spent (extract_event (Spend k) e)) =
      insert (fst k, snd k, case ex_map e k of Some (a, _) \<Rightarrow> a | None \<Rightarrow> []) (set (ex_spent e))" by simp
  have addr: "\<forall>t n a. (t, n, a) \<in> set (ex_spent (extract_event (Spend k) e)) \<longrightarrow> a = [] \<or> (\<exists>x. created_map e (t, n) = Some (a, x))"
    using E m unfolding new by (auto split: option.splits if_splits)
  have "(fst k, snd k, a) \<in> set (ex_spent (extract_event (Spend k) e))" if "created_map e k = Some (a, x)" for a x
    using that E m unfolding new by (cases "k \<in> spent_set e") auto
  then have known: "\<forall>k' a x. k' \<in> insert k (spent_set e) \<longrightarrow> created_map e k' = Some (a, x) \<longrightarrow>
      (fst k', snd k', a) \<in> set (ex_spent (extract_event (Spend k) e))"
    using E unfolding new by blast
  show ?thesis unfolding extracted_def events_simps
    using E addr known assms(2) by (auto simp: fun_eq_iff)
qed

lemma extracted_create:
  assumes "extracted M0 U e M" "k \<notin> U" "a \<noteq> []" "colon_free a" "colon_free (fst k)"
  shows "extracted M0 (insert k U) (extract_event (Create k a x) e) (ledger_event (Create k a x) M)"
proof -
  note E = assms(1)[unfolded extracted_def]
  have k: "created_map e k = None" "k \<notin> spent_set e" "M0 k = None" using E assms(2) by (auto simp: domIff)
  have unspent: "\<And>b. (fst k, snd k, b) \<notin> set (ex_spent e)" using k(2) by (force simp: spent_set_def)
  have "k \<notin> (\<lambda>(t, n, a, x). (t, n)) ` set (ex_created e)" using k(1)
    by (auto simp: created_map_def map_of_eq_None_iff image_iff)
  then have "distinct (map (\<lambda>(t, n, a, x). (t, n)) (ex_created (extract_event (Create k a x) e)))"
    using E by (simp add: image_iff case_prod_beta)
  then show ?thesis unfolding extracted_def created_map_create[OF k(1)] events_simps
    using E k unspent assms(3-) by (auto simp: fun_eq_iff)
qed

lemma extracted_events:
  "extracted M0 U e M \<Longrightarrow> fresh_events U evs \<Longrightarrow> \<exists>U'. extracted M0 U' (fold extract_event evs e) (fold ledger_event evs M)"
proof (induction U evs arbitrary: e M rule: fresh_events.induct)
  case (2 U k evs)
  then have "extracted M0 (insert k U) (extract_event (Spend k) e) (ledger_event (Spend k) M)" by (intro extracted_spend) auto
  from "2.IH"[OF this] show ?case using "2.prems"(2) by (simp del: extract_event.simps ledger_event.simps)
next
  case (3 U k a x evs)
  then have "extracted M0 (insert k U) (extract_event (Create k a x) e) (ledger_event (Create k a x) M)" by (intro extracted_create) auto
  from "3.IH"[OF this] show ?case using "3.prems"(2) by (simp del: extract_event.simps ledger_event.simps)
qed auto

text \<open>The events of transactions with fresh identifiers are fresh.\<close>

lemma fresh_events_append: "fresh_events U (xs @ ys) \<longleftrightarrow> fresh_events U xs \<and>
    fresh_events (U \<union> {k. Spend k \<in> set xs \<or> (\<exists>a x. Create k a x \<in> set xs)}) ys"
proof (induction U xs rule: fresh_events.induct)
  case (2 U k evs)
  have "insert k U \<union> {k. Spend k \<in> set evs \<or> (\<exists>a x. Create k a x \<in> set evs)} =
    U \<union> {k'. Spend k' \<in> set (Spend k # evs) \<or> (\<exists>a x. Create k' a x \<in> set (Spend k # evs))}" by auto
  then show ?case using 2 by simp
next
  case (3 U k a x evs)
  have "insert k U \<union> {k. Spend k \<in> set evs \<or> (\<exists>a x. Create k a x \<in> set evs)} =
    U \<union> {k'. Spend k' \<in> set (Create k a x # evs) \<or> (\<exists>b y. Create k' b y \<in> set (Create k a x # evs))}" by auto
  then show ?case using 3 by simp
qed simp

lemma fresh_spends: "\<forall>k\<in>set ks. colon_free (fst k) \<Longrightarrow> fresh_events U (map Spend ks)"
  by (induction ks arbitrary: U) auto

lemma fresh_creates:
  assumes "\<forall>out\<in>set outs. out_to out \<noteq> [] \<and> colon_free (out_to out)" "colon_free t" "m + length outs \<le> 2 ^ 32"
    and "\<forall>n\<ge>m. n < 2 ^ 32 \<longrightarrow> (t, of_nat n) \<notin> U"
  shows "fresh_events U (map (\<lambda>(n, out). Create (t, of_nat n) (out_to out) (out_amount out)) (enumerate m outs))"
  using assms
proof (induction outs arbitrary: m U)
  case (Cons out outs)
  have m: "m < 2 ^ 32" using Cons.prems(3) by simp
  have "(of_nat n :: u32) \<noteq> of_nat m" if "Suc m \<le> n" "n < 2 ^ 32" for n
    using that m unat_of_nat_eq[of n, where 'a = 32] unat_of_nat_eq[of m, where 'a = 32] by fastforce
  then have "fresh_events (insert (t, of_nat m) U)
      (map (\<lambda>(n, out). Create (t, of_nat n) (out_to out) (out_amount out)) (enumerate (Suc m) outs))"
    using Cons.prems by (intro Cons.IH) auto
  then show ?case using Cons.prems m by simp
qed simp

lemma fresh_round:
  assumes "fresh_ids used txs" "\<forall>tx\<in>set txs. plain_tx tx" "fst ` U \<subseteq> set used"
  shows "fresh_events U (round_events txs)"
  using assms
proof (induction txs arbitrary: used U)
  case (Cons tx txs)
  let ?ins = "map (\<lambda>i. (in_txid i, in_vout i)) (inputs tx)"
  let ?cs = "map (\<lambda>(n, out). Create (txid tx, of_nat n) (out_to out) (out_amount out)) (enumerate 0 (outputs tx)) :: utxo_event list"
  have p: "plain_tx tx" using Cons.prems(2) by simp
  have e: "tx_events tx = map Spend ?ins @ ?cs" by (simp add: tx_events_def)
  have "fresh_events U (map Spend ?ins)" using p by (intro fresh_spends) (auto simp: plain_tx_def)
  moreover have "fresh_events (U \<union> set ?ins) ?cs"
    using p Cons.prems(1,3) by (intro fresh_creates) (auto simp: plain_tx_def)
  ultimately have "fresh_events U (tx_events tx)" unfolding e fresh_events_append
    by (auto simp: image_iff Collect_disj_eq[symmetric] elim!: back_subst[where P = "\<lambda>V. fresh_events V _"])
  moreover have "fresh_events (U \<union> {k. Spend k \<in> set (tx_events tx) \<or> (\<exists>a x. Create k a x \<in> set (tx_events tx))}) (round_events txs)"
    using Cons.prems by (intro Cons.IH[of "txid tx # map in_txid (inputs tx) @ used"]) (auto simp: tx_events_def)
  ultimately show ?case by (simp add: round_events_def fresh_events_append)
qed (simp add: round_events_def)

section \<open>The batch of a round\<close>

lemma batch_deletes:
  assumes "\<forall>op\<in>set ops. \<exists>k. op = Delete k"
  shows "batch_view ops m k = (if Delete k \<in> set ops then None else m k)"
  using assms
proof (induction ops arbitrary: m)
  case (Cons op ops)
  then show ?case by (cases op) auto
qed simp

lemma batch_puts:
  assumes "\<forall>op\<in>set ops. \<exists>k v. op = Put k v" "\<And>k v w. Put k v \<in> set ops \<Longrightarrow> Put k w \<in> set ops \<Longrightarrow> v = w"
  shows "batch_view ops m k = Some v \<longleftrightarrow> Put k v \<in> set ops \<or> (m k = Some v \<and> (\<forall>w. Put k w \<notin> set ops))"
  using assms
proof (induction ops arbitrary: m)
  case (Cons op ops)
  obtain k' v' where op: "op = Put k' v'" using Cons.prems(1) by auto
  have IH: "batch_view ops m k = Some v \<longleftrightarrow> Put k v \<in> set ops \<or> (m k = Some v \<and> (\<forall>w. Put k w \<notin> set ops))" for m
    using Cons.prems by (intro Cons.IH) auto
  have "v' = w" if "Put k' w \<in> set ops" for w using Cons.prems(2)[of k' v' w] that op by simp
  then show ?case by (auto simp: op IH)
qed simp

text \<open>The batch deletes exactly the keys of spent outputs, under their address where that is known.\<close>

lemma spend_ops_deletes: "\<forall>op\<in>set (concat (map (spend_ops C d) sp)). \<exists>k. op = Delete k"
  by (auto simp: spend_ops_def Let_def split: if_splits)

lemma created_in_map:
  assumes "extracted M0 U e M"
  shows "(t, n, a, x) \<in> set (ex_created e) \<longleftrightarrow> created_map e (t, n) = Some (a, x)"
proof -
  have "distinct (map (\<lambda>(t, n, a, x). (t, n)) (ex_created e))" using assms by (simp add: extracted_def)
  then have "distinct (map fst (map (\<lambda>(t, n, a, x). ((t, n), (a, x))) (ex_created e)))"
    by (simp add: o_def case_prod_unfold)
  then have "created_map e (t, n) = Some (a, x) \<longleftrightarrow> ((t, n), (a, x)) \<in> set (map (\<lambda>(t, n, a, x). ((t, n), (a, x))) (ex_created e))"
    unfolding created_map_def by (simp only: map_of_eq_Some_iff)
  then show ?thesis by force
qed

lemma round_puts:
  assumes "extracted M0 U e M"
  shows "Put k v \<in> set (concat (map (create_ops C) (ex_created e))) \<longleftrightarrow>
    (\<exists>t n a x. created_map e (t, n) = Some (a, x) \<and>
      (k = eu_key a t n \<and> v = ex_text C (to_hex_str (ex_amounts C) x) \<or> k = eur_key t n \<and> v = ex_text C a))"
  by (auto simp: create_ops_def created_in_map[OF assms, symmetric]) blast+

lemma round_get:
  assumes "extracted M0 U e M"
  shows "db_get (apply_utxo_changes C (ex_created e) (ex_spent e) d) k = Some v \<longleftrightarrow>
    Delete k \<notin> set (concat (map (spend_ops C d) (ex_spent e))) \<and>
    (let puts = concat (map (create_ops C) (ex_created e))
     in Put k v \<in> set puts \<or> (db_get d k = Some v \<and> (\<forall>w. Put k w \<notin> set puts)))"
proof -
  let ?puts = "concat (map (create_ops C) (ex_created e))"
  have cf: "colon_free a \<and> colon_free t" if "created_map e (t, n) = Some (a, x)" for t n a x
    using assms that by (force simp: extracted_def)
  have "v = w" if "Put k v \<in> set ?puts" "Put k w \<in> set ?puts" for k v w
  proof -
    obtain t n a x where 1: "created_map e (t, n) = Some (a, x)"
      "k = eu_key a t n \<and> v = ex_text C (to_hex_str (ex_amounts C) x) \<or> k = eur_key t n \<and> v = ex_text C a"
      using \<open>Put k v \<in> _\<close> unfolding round_puts[OF assms] by blast
    obtain u m b y where 2: "created_map e (u, m) = Some (b, y)"
      "k = eu_key b u m \<and> w = ex_text C (to_hex_str (ex_amounts C) y) \<or> k = eur_key u m \<and> w = ex_text C b"
      using \<open>Put k w \<in> _\<close> unfolding round_puts[OF assms] by blast
    show ?thesis using 1 2 cf[OF 1(1)] cf[OF 2(1)] by (auto simp: eur_key_inj eu_key_inj)
  qed
  moreover have "\<forall>op\<in>set ?puts. \<exists>k v. op = Put k v" by (auto simp: create_ops_def)
  ultimately have "batch_view ?puts (db_get d) k = Some v \<longleftrightarrow>
      Put k v \<in> set ?puts \<or> (db_get d k = Some v \<and> (\<forall>w. Put k w \<notin> set ?puts))" by (intro batch_puts)
  then show ?thesis
    by (simp only: apply_utxo_changes_def Let_def db_get_put_batch batch_view_append batch_deletes[OF spend_ops_deletes]) simp
qed

text \<open>A spent output loses the key under which it is stored; a live output keeps its keys.\<close>

lemma extractedD:
  assumes "extracted M0 U e M"
  shows "(t, n, a) \<in> set (ex_spent e) \<Longrightarrow> a = [] \<or> (\<exists>x. created_map e (t, n) = Some (a, x))"
    and "(t, n) \<in> spent_set e \<Longrightarrow> created_map e (t, n) = Some (a, x) \<Longrightarrow> (t, n, a) \<in> set (ex_spent e)"
    and "created_map e (t, n) = Some (a, x) \<Longrightarrow> M0 (t, n) = None \<and> a \<noteq> [] \<and> colon_free a \<and> colon_free t"
    and "(t, n) \<in> spent_set e \<Longrightarrow> colon_free t"
proof -
  have E: "\<forall>t n a. (t, n, a) \<in> set (ex_spent e) \<longrightarrow> a = [] \<or> (\<exists>x. created_map e (t, n) = Some (a, x))"
    "\<forall>k a x. k \<in> spent_set e \<longrightarrow> created_map e k = Some (a, x) \<longrightarrow> (fst k, snd k, a) \<in> set (ex_spent e)"
    "\<forall>k a x. created_map e k = Some (a, x) \<longrightarrow> M0 k = None \<and> a \<noteq> [] \<and> colon_free a \<and> colon_free (fst k)"
    "\<forall>k\<in>spent_set e. colon_free (fst k)"
    using assms unfolding extracted_def by - (elim conjE, assumption)+
  show "(t, n, a) \<in> set (ex_spent e) \<Longrightarrow> a = [] \<or> (\<exists>x. created_map e (t, n) = Some (a, x))" using E(1) by blast
  show "(t, n) \<in> spent_set e \<Longrightarrow> created_map e (t, n) = Some (a, x) \<Longrightarrow> (t, n, a) \<in> set (ex_spent e)"
    using E(2)[rule_format, of "(t, n)"] by simp
  show "created_map e (t, n) = Some (a, x) \<Longrightarrow> M0 (t, n) = None \<and> a \<noteq> [] \<and> colon_free a \<and> colon_free t"
    using E(3)[rule_format, of "(t, n)"] by simp
  show "(t, n) \<in> spent_set e \<Longrightarrow> colon_free t" using E(4) by auto
qed

lemma stored_output:
  assumes "utxos_ok C d M0" "extracted M0 U e M"
    and "created_map e (t, n) = Some (a, x) \<or> (created_map e (t, n) = None \<and> M0 (t, n) = Some (a, x))"
  shows "a \<noteq> [] \<and> colon_free a \<and> colon_free t"
  using assms(3)
proof
  assume "created_map e (t, n) = Some (a, x)"
  then show ?thesis using extractedD(3)[OF assms(2)] by blast
qed (use assms(1) in \<open>auto simp: utxos_ok_def\<close>)

lemma round_deletes:
  assumes "ex_codec_ok C" "utxos_ok C d M0" "extracted M0 U e M"
    and "created_map e (t, n) = Some (a, x) \<or> (created_map e (t, n) = None \<and> M0 (t, n) = Some (a, x))"
  shows "Delete (eu_key a t n) \<in> set (concat (map (spend_ops C d) (ex_spent e))) \<longleftrightarrow> (t, n) \<in> spent_set e"
proof
  note at = stored_output[OF assms(2-4)]
  assume "Delete (eu_key a t n) \<in> set (concat (map (spend_ops C d) (ex_spent e)))"
  then obtain u m b c where s: "(u, m, b) \<in> set (ex_spent e)" and k: "eu_key a t n = eu_key c u m"
    by (auto simp: spend_ops_def Let_def split: if_splits)
  then have um: "(u, m) \<in> spent_set e" by (force simp: spent_set_def)
  then have "colon_free u" by (rule extractedD(4)[OF assms(3)])
  then show "(t, n) \<in> spent_set e" using k um at eu_key_inj[of t u] by simp
next
  note at = stored_output[OF assms(2-4)]
  have spends: "Delete (eu_key a t n) \<in> set (concat (map (spend_ops C d) (ex_spent e)))"
    if "(t, n, b) \<in> set (ex_spent e)" "Delete (eu_key a t n) \<in> set (spend_ops C d (t, n, b))" for b
    using that by auto
  assume sp: "(t, n) \<in> spent_set e"
  show "Delete (eu_key a t n) \<in> set (concat (map (spend_ops C d) (ex_spent e)))"
  proof (cases "created_map e (t, n)")
    case None
    obtain b where b: "(t, n, b) \<in> set (ex_spent e)" using sp by (auto simp: spent_set_def)
    then have "b = []" using extractedD(1)[OF assms(3)] None by fastforce
    moreover have "db_get d (eur_key t n) = Some (ex_text C a)" using None assms(2,4) by (auto simp: utxos_ok_def)
    ultimately show ?thesis using b at assms(1) None by (intro spends[of b]) (auto simp: spend_ops_def Let_def)
  next
    case (Some v)
    then have "created_map e (t, n) = Some (a, x)" using assms(4) by simp
    then have "(t, n, a) \<in> set (ex_spent e)" by (rule extractedD(2)[OF assms(3) sp])
    then show ?thesis using at by (intro spends[of a]) (auto simp: spend_ops_def Let_def)
  qed
qed

lemma round_eur_deletes:
  "Delete (eur_key t n) \<in> set (concat (map (spend_ops C d) (ex_spent e))) \<longleftrightarrow> (t, n) \<in> spent_set e"
proof -
  have "Delete (eur_key t n) \<in> set (spend_ops C d s) \<longleftrightarrow> (t, n) = (case s of (t, n, a) \<Rightarrow> (t, n))" for s
    by (cases s) (auto simp: spend_ops_def Let_def eur_key_inj)
  then show ?thesis by (simp add: spent_set_def image_iff)
qed

text \<open>The batch of a round keeps the relation with the ledger.\<close>

lemma round_keeps_utxos:
  assumes "ex_codec_ok C" "utxos_ok C d M0" "extracted M0 U e M"
  shows "utxos_ok C (apply_utxo_changes C (ex_created e) (ex_spent e) d) M"
proof -
  note get = round_get[OF assms(3), of C d, unfolded Let_def round_puts[OF assms(3)]]
  have M: "M (t, n) = Some (a, x) \<longleftrightarrow> (t, n) \<notin> spent_set e \<and>
      (created_map e (t, n) = Some (a, x) \<or> (created_map e (t, n) = None \<and> M0 (t, n) = Some (a, x)))" for t n a x
    using assms(3) by (auto simp: extracted_def split: option.splits)
  have eur: "db_get (apply_utxo_changes C (ex_created e) (ex_spent e) d) (eur_key t n) = Some (ex_text C a)"
    if m: "M (t, n) = Some (a, x)" for t n a x
    using m assms(2) unfolding get round_eur_deletes M by (auto simp: eur_key_inj utxos_ok_def)
  have old: "db_get d k = Some v \<longleftrightarrow> (\<exists>t n a x. M0 (t, n) = Some (a, x) \<and> k = eu_key a t n \<and>
      v = ex_text C (to_hex_str (ex_amounts C) x))" if "starts_with ''eu:'' k" for k v
    using assms(2) that unfolding utxos_ok_def by blast
  have eu: "db_get (apply_utxo_changes C (ex_created e) (ex_spent e) d) k = Some v \<longleftrightarrow>
      (\<exists>t n a x. M (t, n) = Some (a, x) \<and> k = eu_key a t n \<and> v = ex_text C (to_hex_str (ex_amounts C) x))"
    if k: "starts_with ''eu:'' k" for k v
  proof
    assume L: "db_get (apply_utxo_changes C (ex_created e) (ex_spent e) d) k = Some v"
    then obtain t n a x where o: "created_map e (t, n) = Some (a, x) \<or> M0 (t, n) = Some (a, x)"
      and kv: "k = eu_key a t n" "v = ex_text C (to_hex_str (ex_amounts C) x)"
      using k unfolding get old[OF k] by auto
    have "created_map e (t, n) = None" if "M0 (t, n) = Some (a, x)"
      using extractedD(3)[OF assms(3), of t n] that by (cases "created_map e (t, n)") auto
    then have o': "created_map e (t, n) = Some (a, x) \<or> (created_map e (t, n) = None \<and> M0 (t, n) = Some (a, x))" using o by blast
    have "(t, n) \<notin> spent_set e" using L round_deletes[OF assms o'] unfolding get kv(1) by simp
    then show "\<exists>t n a x. M (t, n) = Some (a, x) \<and> k = eu_key a t n \<and> v = ex_text C (to_hex_str (ex_amounts C) x)"
      using o' kv M by blast
  next
    assume "\<exists>t n a x. M (t, n) = Some (a, x) \<and> k = eu_key a t n \<and> v = ex_text C (to_hex_str (ex_amounts C) x)"
    then obtain t n a x where m: "M (t, n) = Some (a, x)" and kv: "k = eu_key a t n" "v = ex_text C (to_hex_str (ex_amounts C) x)" by blast
    then have o: "(t, n) \<notin> spent_set e" "created_map e (t, n) = Some (a, x) \<or> (created_map e (t, n) = None \<and> M0 (t, n) = Some (a, x))"
      using M by blast+
    have nd: "Delete k \<notin> set (concat (map (spend_ops C d) (ex_spent e)))" using round_deletes[OF assms o(2)] o(1) kv by simp
    have no: "k \<noteq> eu_key b u m'" if "created_map e (t, n) = None" "created_map e (u, m') = Some (b, y)" for u m' b y
      using that stored_output[OF assms(2,3) o(2)] stored_output[OF assms(2,3) disjI1, OF that(2)] eu_key_inj[of t u] kv(1) by auto
    show "db_get (apply_utxo_changes C (ex_created e) (ex_spent e) d) k = Some v"
    proof (cases "created_map e (t, n)")
      case None
      then have "db_get d k = Some v" using o(2) kv old[OF k, of v] by auto
      moreover have "k \<noteq> eur_key u m'" for u m' using kv(1) by simp
      ultimately show ?thesis unfolding get using nd no[OF None] by blast
    next
      case (Some p)
      then have "created_map e (t, n) = Some (a, x)" using o(2) by auto
      then show ?thesis unfolding get using nd kv by blast
    qed
  qed
  have plain: "a \<noteq> [] \<and> colon_free a \<and> colon_free t" if "M (t, n) = Some (a, x)" for t n a x
    using that stored_output[OF assms(2,3)] M by blast
  have w: "db_wf (apply_utxo_changes C (ex_created e) (ex_spent e) d)" using assms(2) by (simp add: apply_utxo_changes_def utxos_ok_def)
  show ?thesis unfolding utxos_ok_def using w plain eur eu by blast
qed

section \<open>A round keeps the index equal to the ledger\<close>

definition same_utxos :: "'v db \<Rightarrow> 'v db \<Rightarrow> bool" where
  "same_utxos d d' \<longleftrightarrow> (db_wf d \<longrightarrow> db_wf d') \<and> (\<forall>k. starts_with ''eu'' k \<longrightarrow> db_get d' k = db_get d k)"

lemma same_utxos_refl: "same_utxos d d"
  by (simp add: same_utxos_def)

lemma same_utxos_trans: "same_utxos d d' \<Longrightarrow> same_utxos d' d'' \<Longrightarrow> same_utxos d d''"
  by (simp add: same_utxos_def)

lemma same_utxos_batch:
  assumes "\<forall>op\<in>set ops. \<not> starts_with ''eu'' (op_key op)"
  shows "same_utxos d (put_batch d ops)"
proof -
  have "batch_view ops m k = m k" if "starts_with ''eu'' k" for k m
    using that assms by (intro batch_view_untouched) auto
  then show ?thesis by (simp add: same_utxos_def)
qed

lemma utxos_ok_same:
  assumes "utxos_ok C d M" "same_utxos d d'"
  shows "utxos_ok C d' M"
proof -
  have "starts_with ''eu:'' k \<Longrightarrow> starts_with ''eu'' k" for k using starts_with_trans[of "''eu''" "'':''"] by simp
  then have "starts_with ''eu:'' k \<Longrightarrow> db_get d' k = db_get d k" for k using assms(2) by (auto simp: same_utxos_def)
  moreover have "db_get d' (eur_key t n) = db_get d (eur_key t n)" for t n using assms(2) by (simp add: same_utxos_def eur_key_def)
  ultimately show ?thesis using assms unfolding utxos_ok_def same_utxos_def by auto
qed

lemma save_block_same: "same_utxos d (save_block C b d)"
  unfolding save_block_def Let_def by (rule same_utxos_batch) (auto simp: ex_keys)

lemma save_blocks_same: "same_utxos d (fold (save_block C) bs d)"
proof (induction bs arbitrary: d)
  case (Cons b bs)
  show ?case using same_utxos_trans[OF save_block_same Cons] by simp
qed (simp add: same_utxos_refl)

lemma save_transaction_same:
  assumes "save_transaction C tx d = Ok d'"
  shows "same_utxos d d'"
proof -
  obtain s where "make_ti_key tx = ''ti:'' @ s" using ti_key_prefix by blast
  moreover obtain ops where "d' = put_batch d ops" "\<forall>op\<in>set ops. op_key op \<in> {ex_tx_key (ti_hash tx), make_ti_key tx} \<or>
      (\<exists>s. op_key op \<in> {''ta:'' @ s, ''tb:'' @ s, ''meta:'' @ s})"
    using assms by (fastforce simp: save_transaction_def Let_def res_simps ta_key_def tb_key_def split: if_splits option.splits)
  ultimately show ?thesis by (auto intro!: same_utxos_batch simp: ex_tx_key_def)
qed

lemma save_transactions_same: "same_utxos d (fst (save_transactions C txs d))"
proof (induction txs arbitrary: d)
  case (Cons tx txs)
  then show ?case using save_transaction_same same_utxos_trans same_utxos_refl by (auto split: result.splits) blast
qed (simp add: same_utxos_refl)

lemma update_address_same: "update_address_info C a d = Ok (d', info) \<Longrightarrow> same_utxos d d'"
  by (auto simp: update_address_info_def res_simps Let_def save_address_info_def addr_key_def intro!: same_utxos_batch)

lemma update_addresses_same: "same_utxos d (fst (update_addresses C as d))"
proof (induction as arbitrary: d)
  case (Cons a as)
  then show ?case using update_address_same same_utxos_trans same_utxos_refl
    by (auto split: result.splits ex_error.splits) blast
qed (simp add: same_utxos_refl)

lemma set_synced_same: "same_utxos d (set_last_synced_height C n d)"
  using same_utxos_batch[of "[Put ''meta:last_synced'' (counter_text C n)]" d]
  by (simp add: set_last_synced_height_def put_batch_def)

lemma index_fetched_utxos:
  fixes C :: "'v ex_codec"
  shows "same_utxos (apply_utxo_changes C (ex_created e) (ex_spent e) (fold (save_block C) blocks d)) (fst (index_fetched C ord blocks e d))"
proof -
  let ?d2 = "apply_utxo_changes C (ex_created e) (ex_spent e) (fold (save_block C) blocks d)"
  let ?as = "ord (remdups (concat (map (\<lambda>tx. [ti_from tx, ti_to tx]) (ex_txs e))))"
  obtain d3 o3 where 3: "save_transactions C (ex_txs e) ?d2 = (d3, o3)" by fastforce
  obtain d4 o4 where 4: "update_addresses C ?as d3 = (d4, o4)" by fastforce
  have "same_utxos ?d2 d3" "same_utxos d3 d4"
    using save_transactions_same[of ?d2 C "ex_txs e"] update_addresses_same[of d3 C ?as] by (simp_all add: 3 4)
  then show ?thesis using 3 4 same_utxos_trans set_synced_same[of d4 C]
    by (auto simp: index_fetched_def Let_def split: option.splits)
qed

lemma round_refines:
  assumes "ex_codec_ok C" "utxos_ok C d M" "dec encoded = Some blocks" "fetched P C now dec encoded = Ok (infos, e)"
    and "\<forall>tx\<in>set (round_txs blocks). plain_tx tx" "fresh_ids used (round_txs blocks)" "fst ` dom M \<subseteq> set used"
  shows "utxos_ok C (fst (index_fetched C ord infos e d)) (fold ledger_tx (round_txs blocks) M)"
proof -
  let ?e0 = "\<lparr>ex_map = Map.empty, ex_txs = [], ex_created = [], ex_spent = []\<rparr>"
  have x: "extract_transactions P C now blocks Map.empty = Ok e"
    using assms(3,4) by (auto simp: fetched_def split: result.splits)
  obtain l where e: "e = (fold extract_event (round_events (round_txs blocks)) ?e0)\<lparr>ex_txs := l\<rparr>"
    using extract_transactions_events[OF x] by blast
  have "extracted M (dom M) ?e0 M" by (auto simp: extracted_def spent_set_def created_map_def)
  from extracted_events[OF this fresh_round[OF assms(6,5,7)]] obtain U'
    where "extracted M U' (fold extract_event (round_events (round_txs blocks)) ?e0) (fold ledger_tx (round_txs blocks) M)"
    unfolding ledger_events by blast
  then have "extracted M U' e (fold ledger_tx (round_txs blocks) M)"
    unfolding e extracted_txs .
  then have "utxos_ok C (apply_utxo_changes C (ex_created e) (ex_spent e) (fold (save_block C) infos d)) (fold ledger_tx (round_txs blocks) M)"
    by (rule round_keeps_utxos[OF assms(1) utxos_ok_same[OF assms(2) save_blocks_same]])
  then show ?thesis using index_fetched_utxos by (rule utxos_ok_same)
qed


section \<open>Balances\<close>

definition ledger_balance :: "outpoints \<Rightarrow> string \<Rightarrow> nat" where
  "ledger_balance M a = (\<Sum>k\<in>{k\<in>dom M. fst (the (M k)) = a}. unat (snd (the (M k))))"

lemma balance_fold:
  assumes "\<And>k v. (k, v) \<in> set es \<Longrightarrow> eu_amount C v = Some (f v)"
    and "unat b + sum_list (map (\<lambda>(k, v). unat (f v)) es) < 2 ^ 256"
  shows "fold_res (\<lambda>(_, value) balance.
       case eu_amount C value of
         Some amount \<Rightarrow> ok_or ExPanic (u256_add balance amount)
       | None \<Rightarrow> Ok balance) es b = Ok (b + of_nat (sum_list (map (\<lambda>(k, v). unat (f v)) es)))"
  using assms
proof (induction es arbitrary: b)
  case (Cons e es)
  obtain k v where e: "e = (k, v)" by (cases e)
  have v: "eu_amount C v = Some (f v)" using Cons.prems(1)[of k v] e by simp
  have "unat b + unat (f v) < 2 ^ 256" using Cons.prems(2) e by simp
  then have add: "u256_add b (f v) = Some (b + f v)" and u: "unat (b + f v) = unat b + unat (f v)"
    by (simp_all add: u256_add_def unat_word_ariths)
  have "fold_res (\<lambda>(_, value) balance. case eu_amount C value of
       Some amount \<Rightarrow> ok_or ExPanic (u256_add balance amount) | None \<Rightarrow> Ok balance) es (b + f v) =
      Ok (b + f v + of_nat (sum_list (map (\<lambda>(k, v). unat (f v)) es)))"
    using Cons.prems e u by (intro Cons.IH) auto
  then show ?case using v add by (simp add: e add.assoc)
qed simp

text \<open>
  The balance the explorer reports for an address, read by a scan over the keys with its prefix, is the
  sum of the amounts of the ledger's unspent outputs to exactly that address.
\<close>

theorem explorer_balance:
  assumes "ex_codec_ok C" "utxos_ok C d M" "colon_free a" "ledger_balance M a < 2 ^ 256"
  shows "get_balance_from_utxos C d a = Ok (of_nat (ledger_balance M a))"
proof -
  let ?S = "{k\<in>dom M. fst (the (M k)) = a}"
  let ?es = "seek_prefix (''eu:'' @ a @ '':'') d"
  let ?entry = "\<lambda>k. (eu_key a (fst k) (snd k), ex_text C (to_hex_str (ex_amounts C) (snd (the (M k)))))"
  let ?f = "\<lambda>v. the (eu_amount C v)"
  have w: "db_wf d" using assms(2) by (simp add: utxos_ok_def)
  have amount: "eu_amount C (ex_text C (to_hex_str (ex_amounts C) x)) = Some x" for x
    using assms(1) by (simp add: eu_amount_def)
  have cf: "colon_free b \<and> colon_free t" if "M (t, n) = Some (b, x)" for t n b x
    using that assms(2) unfolding utxos_ok_def by blast
  have p: "starts_with (''eu:'' @ a @ '':'') k \<Longrightarrow> starts_with ''eu:'' k" for k by (rule starts_with_trans)
  have old: "db_get d k = Some v \<longleftrightarrow> (\<exists>t n a x. M (t, n) = Some (a, x) \<and> k = eu_key a t n \<and>
      v = ex_text C (to_hex_str (ex_amounts C) x))" if "starts_with ''eu:'' k" for k v
    using assms(2) that unfolding utxos_ok_def by blast
  have es: "(k, v) \<in> set ?es \<longleftrightarrow> (k, v) \<in> ?entry ` ?S" for k v
  proof -
    have "(k, v) \<in> set ?es \<longleftrightarrow> starts_with (''eu:'' @ a @ '':'') k \<and> (\<exists>t n b x. M (t, n) = Some (b, x) \<and> k = eu_key b t n \<and>
      v = ex_text C (to_hex_str (ex_amounts C) x))" using seek_prefix_iff[OF w] p old by blast
    also have "\<dots> \<longleftrightarrow> (\<exists>t n x. M (t, n) = Some (a, x) \<and> k = eu_key a t n \<and> v = ex_text C (to_hex_str (ex_amounts C) x))"
      using eu_key_prefix[OF assms(3)] cf by metis
    also have "\<dots> \<longleftrightarrow> (k, v) \<in> ?entry ` ?S"
    proof
      assume "\<exists>t n x. M (t, n) = Some (a, x) \<and> k = eu_key a t n \<and> v = ex_text C (to_hex_str (ex_amounts C) x)"
      then obtain t n x where "M (t, n) = Some (a, x)" "k = eu_key a t n" "v = ex_text C (to_hex_str (ex_amounts C) x)" by blast
      then show "(k, v) \<in> ?entry ` ?S" by (intro image_eqI[of _ _ "(t, n)"]) auto
    qed (auto, blast)
    finally show ?thesis .
  qed
  have inj: "inj_on ?entry ?S" using cf by (auto simp: inj_on_def eu_key_inj)
  have "distinct ?es" using kv.iter_distinct[OF w] by (simp add: seek_prefix_filter[OF w] db_iterator_def distinct_map)
  then have "sum_list (map (\<lambda>(k, v). unat (?f v)) ?es) = (\<Sum>(k, v)\<in>?entry ` ?S. unat (?f v))"
    using es by (subst sum_list_distinct_conv_sum_set) (auto intro!: sum.cong)
  also have "\<dots> = ledger_balance M a" unfolding ledger_balance_def by (subst sum.reindex[OF inj]) (simp add: amount)
  finally have "sum_list (map (\<lambda>(k, v). unat (?f v)) ?es) = ledger_balance M a" .
  moreover have "eu_amount C v = Some (?f v)" if "(k, v) \<in> set ?es" for k v using that amount unfolding es by auto
  ultimately show ?thesis using balance_fold[of ?es C ?f 0] assms(4) by (simp add: get_balance_from_utxos_def)
qed

section \<open>An instance\<close>

lemma sample_fetched:
  "\<exists>infos e. fetched ref_prims ref_ex_codec 0 (\<lambda>_. Some [ex_sample_block]) ''x'' = Ok (infos, e)"
  by (simp add: fetched_def extract_transactions_def extract_block_def extract_tx_def coinbase_info_def output_sum_def
      ex_sample_block_def u256_sum_single Let_def)

lemma empty_utxos: "utxos_ok C [] Map.empty"
  by (simp add: utxos_ok_def db_get_def)

lemma sample_round:
  "round_txs [ex_sample_block] = [sample_coinbase ''aa'' 50]" "plain_tx (sample_coinbase ''aa'' 50)"
  "ledger_tx (sample_coinbase ''aa'' 50) Map.empty = [(''aa'', 0) \<mapsto> (''0xab'', 50)]"
  by (simp add: round_txs_def ex_sample_block_def, code_simp, simp add: ledger_tx_def tx_events_def sample_coinbase_def)


theorem explorer_balance_witness:
  "\<exists>infos e. fetched ref_prims ref_ex_codec 0 (\<lambda>_. Some [ex_sample_block]) ''x'' = Ok (infos, e) \<and>
     get_balance_from_utxos ref_ex_codec (fst (index_fetched ref_ex_codec id infos e [])) ''0xab'' = Ok 50"
proof -
  let ?M = "[(''aa'', 0) \<mapsto> (''0xab'', 50)] :: outpoints"
  obtain infos e where f: "fetched ref_prims ref_ex_codec 0 (\<lambda>_. Some [ex_sample_block]) ''x'' = Ok (infos, e)"
    using sample_fetched by blast
  have u: "utxos_ok ref_ex_codec (fst (index_fetched ref_ex_codec id infos e [])) ?M"
    using round_refines[OF ref_ex_codec_ok empty_utxos _ f, of "[ex_sample_block]" "[]" id] by (auto simp: sample_round)
  have "{k \<in> dom ?M. fst (the (?M k)) = ''0xab''} = {(''aa'', 0)}" by auto
  then have b: "ledger_balance ?M ''0xab'' = 50" by (simp add: ledger_balance_def)
  have "colon_free ''0xab''" by (simp add: colon_free_def)
  then show ?thesis using explorer_balance[OF ref_ex_codec_ok u] f b by auto
qed

end
