(* ===== verification/Dag.thy ===== *)
theory Dag
  imports Difficulty
begin

text \<open>
  The memory-hard hash (\<open>core/src/consensus/dag.rs\<close>) and the target test of the miner
  (\<open>compact_bits_to_target_bytes\<close>, \<open>hash_meets_target\<close> and \<open>build_header_bytes\<close> of
  \<open>consensus/cuda.rs\<close>). Arrays are byte lists; a slice out of range is \<^const>\<open>None\<close>. The DAG is
  filled in chunks whose items are computed in parallel and copied in order; the sizes are
  arguments of the filling loop, so that it can be run on small ones.
\<close>

section \<open>Parameters\<close>

definition DAG_SIZE :: nat where "DAG_SIZE = 4 * 1024 * 1024 * 1024"
definition DAG_ITEM_SIZE :: nat where "DAG_ITEM_SIZE = 128"
definition DAG_ITEM_COUNT :: nat where "DAG_ITEM_COUNT = DAG_SIZE div DAG_ITEM_SIZE"
definition EPOCH_LENGTH :: u64 where "EPOCH_LENGTH = 7500"
definition MIX_ITERATIONS :: nat where "MIX_ITERATIONS = 32"

definition get_epoch :: "u64 \<Rightarrow> u64" where
  "get_epoch block_number = block_number div EPOCH_LENGTH"

definition byte_string :: "string \<Rightarrow> bytes" where
  "byte_string s = map (\<lambda>c. of_nat (of_char c)) s"

fun seed_hash :: "'v prims \<Rightarrow> nat \<Rightarrow> bytes" where
  "seed_hash P 0 = blake3 P (byte_string ''Astram Genesis DAG Seed'')"
| "seed_hash P (Suc epoch) = blake3 P (seed_hash P epoch)"

definition get_seed_hash :: "'v prims \<Rightarrow> u64 \<Rightarrow> bytes" where
  "get_seed_hash P epoch = seed_hash P (unat epoch)"

section \<open>Items\<close>

text \<open>\<open>a[start..start + 32].copy_from_slice(..)\<close> with the slice in range.\<close>

definition write_at :: "nat \<Rightarrow> bytes \<Rightarrow> bytes \<Rightarrow> bytes" where
  "write_at start src dst = take start dst @ src @ drop (start + length src) dst"

definition u32_le :: "nat \<Rightarrow> bytes" where
  "u32_le n = to_le_bytes 4 n"

text \<open>The expansion of the first 32 bytes to 128 in counter mode, shared by items and mixes.\<close>

definition expand :: "'v prims \<Rightarrow> bytes \<Rightarrow> bytes" where
  "expand P item = fold (\<lambda>i item. write_at (i * 32) (blake3 P (take 32 item @ u32_le i)) item) [1..<4] item"

definition xor_bytes :: "bytes \<Rightarrow> bytes \<Rightarrow> bytes" where
  "xor_bytes xs ys = map2 (\<lambda>x y. x XOR y) xs ys"

definition mix_round :: "'v prims \<Rightarrow> nat \<Rightarrow> bytes \<Rightarrow> bytes" where
  "mix_round P round item = write_at 0 (xor_bytes (take 32 item) (blake3 P (item @ u32_le round))) item"

definition generate_dag_item :: "'v prims \<Rightarrow> u32 \<Rightarrow> bytes \<Rightarrow> bytes" where
  "generate_dag_item P idx seed =
     (let initial = blake3 P (seed @ u32_le (unat idx));
          item = expand P (write_at 0 initial (replicate DAG_ITEM_SIZE 0))
      in fold (mix_round P) [0..<4] item)"

section \<open>The whole DAG\<close>

definition fill_chunk :: "'v prims \<Rightarrow> bytes \<Rightarrow> nat \<Rightarrow> nat \<Rightarrow> nat \<Rightarrow> bytes \<Rightarrow> bytes" where
  "fill_chunk P seed chunk_size item_count chunk_idx dag =
     (let start_idx = chunk_idx * chunk_size;
          end_idx = min (start_idx + chunk_size) item_count;
          items = map (\<lambda>i. generate_dag_item P (of_nat i) seed) [start_idx..<end_idx]
      in fold (\<lambda>(i, item) dag. write_at ((start_idx + i) * DAG_ITEM_SIZE) item dag) (enumerate 0 items) dag)"

definition fill_dag :: "'v prims \<Rightarrow> bytes \<Rightarrow> nat \<Rightarrow> nat \<Rightarrow> bytes" where
  "fill_dag P seed chunk_size item_count =
     fold (fill_chunk P seed chunk_size item_count) [0..<(item_count + chunk_size - 1) div chunk_size]
       (replicate (item_count * DAG_ITEM_SIZE) 0)"

definition generate_full_dag :: "'v prims \<Rightarrow> u64 \<Rightarrow> bytes" where
  "generate_full_dag P epoch = fill_dag P (get_seed_hash P epoch) 100000 DAG_ITEM_COUNT"

section \<open>Hashing with the DAG\<close>

definition slice :: "bytes \<Rightarrow> nat \<Rightarrow> nat \<Rightarrow> bytes option" where
  "slice xs start len = (if start + len \<le> length xs then Some (take len (drop start xs)) else None)"

definition le_value :: "bytes \<Rightarrow> nat" where
  "le_value bs = be_value (rev bs)"

definition dag_step :: "'v prims \<Rightarrow> bytes \<Rightarrow> nat \<Rightarrow> bytes \<Rightarrow> bytes option" where
  "dag_step P dag iteration mix =
     (let offset = iteration mod 4 * 32;
          dag_index = le_value (take 4 (drop offset mix)) mod DAG_ITEM_COUNT
      in Option.bind (slice dag (dag_index * DAG_ITEM_SIZE) DAG_ITEM_SIZE) (\<lambda>dag_item.
         let mix = xor_bytes mix dag_item
         in Some (write_at 0 (blake3 P mix) mix)))"

definition initial_mix :: "'v prims \<Rightarrow> bytes \<Rightarrow> u64 \<Rightarrow> bytes" where
  "initial_mix P header_hash nonce0 =
     (let seed = blake3 P (header_hash @ to_le_bytes 8 (unat nonce0))
      in expand P (write_at 0 seed (replicate 128 0)))"

definition hash_with_dag :: "'v prims \<Rightarrow> bytes \<Rightarrow> u64 \<Rightarrow> bytes \<Rightarrow> bytes option" where
  "hash_with_dag P header_hash nonce0 dag =
     map_option (blake3 P)
       (fold (\<lambda>iteration m. Option.bind m (dag_step P dag iteration)) [0..<MIX_ITERATIONS]
         (Some (initial_mix P header_hash nonce0)))"

section \<open>The miner's target test\<close>

definition compact_bits_to_target_bytes :: "u32 \<Rightarrow> bytes" where
  "compact_bits_to_target_bytes bits =
     (let exponent = drop_bit 24 bits; mantissa = bits AND 0x007fffff in
      if mantissa = 0 then replicate 32 0
      else to_big_endian
        (if exponent \<le> 3 then ucast (drop_bit (8 * (3 - unat exponent)) mantissa)
         else push_bit (8 * (unat exponent - 3)) (ucast mantissa)))"

fun meets_target_loop :: "bytes \<Rightarrow> bytes \<Rightarrow> bool" where
  "meets_target_loop (h # hs) (t # ts) =
     (if h < t then True else if h > t then False else meets_target_loop hs ts)"
| "meets_target_loop _ _ = False"

definition hash_meets_target :: "bytes \<Rightarrow> bytes \<Rightarrow> bool" where
  "hash_meets_target hash target = meets_target_loop hash target"

definition build_header_bytes :: "bytes \<Rightarrow> u64 \<Rightarrow> bytes \<Rightarrow> bytes" where
  "build_header_bytes prefix nonce0 suffix = prefix @ to_le_bytes 8 (unat nonce0) @ suffix"

section \<open>Lengths\<close>

lemma length_write_at: "start + length src \<le> length dst \<Longrightarrow> length (write_at start src dst) = length dst"
  by (simp add: write_at_def)

lemma length_expand:
  assumes "digest_ok P" "length item = 128"
  shows "length (expand P item) = 128"
  using assms by (simp add: expand_def upt_rec length_write_at)

lemma length_xor_bytes [simp]: "length (xor_bytes xs ys) = min (length xs) (length ys)"
  by (simp add: xor_bytes_def)

lemma length_mix_round:
  assumes "digest_ok P" "length item = 128"
  shows "length (mix_round P r item) = 128"
  using assms by (simp add: mix_round_def length_write_at)

lemma length_dag_item:
  assumes "digest_ok P"
  shows "length (generate_dag_item P i seed) = DAG_ITEM_SIZE"
proof -
  have "length (fold (mix_round P) rs item) = 128" if "length item = 128" for rs item
    using that by (induction rs arbitrary: item) (simp_all add: length_mix_round[OF assms])
  then show ?thesis
    using assms by (simp add: generate_dag_item_def Let_def DAG_ITEM_SIZE_def length_expand length_write_at)
qed

section \<open>The chunked loop builds the DAG\<close>

lemma write_next:
  assumes "length done = k" "length item = n"
  shows "write_at k item (done @ replicate (n + m) 0) = (done @ item) @ replicate m 0"
  using assms by (simp add: write_at_def replicate_add)

text \<open>After the items before \<open>s\<close>, writing the items \<open>s\<close> to \<open>e\<close> extends the finished prefix.\<close>

lemma fill_items:
  assumes "\<And>i. length (g i) = DAG_ITEM_SIZE"
  shows "fold (\<lambda>(i, item) dag. write_at ((s + i) * DAG_ITEM_SIZE) item dag) (enumerate k (map g [s + k..<s + k + n]))
      (concat (map g [0..<s + k]) @ replicate ((n + m) * DAG_ITEM_SIZE) 0)
    = concat (map g [0..<s + k + n]) @ replicate (m * DAG_ITEM_SIZE) 0"
proof (induction n arbitrary: k)
  case (Suc n)
  have len: "length (concat (map g [0..<j])) = j * DAG_ITEM_SIZE" for j
    using assms by (induction j) simp_all
  have w: "write_at ((s + k) * DAG_ITEM_SIZE) (g (s + k)) (concat (map g [0..<s + k]) @ replicate ((Suc n + m) * DAG_ITEM_SIZE) 0)
      = concat (map g [0..<s + Suc k]) @ replicate ((n + m) * DAG_ITEM_SIZE) 0"
    using write_next[OF len assms, of "s + k" "s + k" "(n + m) * DAG_ITEM_SIZE"] by (simp add: add_mult_distrib)
  have "[s + k..<s + k + Suc n] = (s + k) # [s + Suc k..<s + Suc k + n]" by (simp add: upt_conv_Cons)
  then show ?case using Suc.IH[of "Suc k"] w by simp
qed simp

lemma fill_chunk_extends:
  assumes "digest_ok P" "0 < c" "j * c < n"
  shows "fill_chunk P seed c n j (concat (map (\<lambda>i. generate_dag_item P (of_nat i) seed) [0..<j * c]) @
      replicate ((n - j * c) * DAG_ITEM_SIZE) 0)
    = concat (map (\<lambda>i. generate_dag_item P (of_nat i) seed) [0..<min (j * c + c) n]) @
      replicate ((n - min (j * c + c) n) * DAG_ITEM_SIZE) 0"
proof -
  let ?g = "\<lambda>i. generate_dag_item P (of_nat i) seed"
  obtain q m where e: "min (j * c + c) n = j * c + q" "n - j * c = q + m" "n - (j * c + q) = m"
  proof
    show "min (j * c + c) n = j * c + (min (j * c + c) n - j * c)" using assms(3) by simp
    show "n - j * c = (min (j * c + c) n - j * c) + (n - min (j * c + c) n)" using assms(3) by auto
    show "n - (j * c + (min (j * c + c) n - j * c)) = n - min (j * c + c) n" using assms(3) by simp
  qed
  show ?thesis
    using fill_items[of ?g "j * c" 0 q m] length_dag_item[OF assms(1)]
    by (simp add: fill_chunk_def Let_def e)
qed

lemma fill_dag_prefix:
  assumes "digest_ok P" "0 < c" "k * c < n + c"
  shows "fold (fill_chunk P seed c n) [0..<k] (replicate (n * DAG_ITEM_SIZE) 0) =
    concat (map (\<lambda>i. generate_dag_item P (of_nat i) seed) [0..<min (k * c) n]) @
    replicate ((n - min (k * c) n) * DAG_ITEM_SIZE) 0"
  using assms(3)
proof (induction k)
  case (Suc k)
  have k: "k * c < n" using Suc.prems by simp
  then have "min (k * c) n = k * c" by simp
  then show ?case
    using Suc.IH Suc.prems k fill_chunk_extends[OF assms(1,2) k, of seed] by (simp add: add.commute)
qed simp

lemma fill_dag_concat:
  assumes "digest_ok P" "0 < chunk_size"
  shows "fill_dag P seed chunk_size n = concat (map (\<lambda>i. generate_dag_item P (of_nat i) seed) [0..<n])"
proof (cases "n = 0")
  case True
  then show ?thesis using assms(2) by (simp add: fill_dag_def)
next
  case False
  let ?k = "(n + chunk_size - 1) div chunk_size"
  have "n \<le> ?k * chunk_size" "?k * chunk_size < n + chunk_size"
    using assms(2) False div_mult_mod_eq[of "n + chunk_size - 1" chunk_size]
      mod_less_divisor[OF assms(2), of "n + chunk_size - 1"] by linarith+
  then show ?thesis using fill_dag_prefix[OF assms, of ?k n seed] by (simp add: fill_dag_def)
qed

text \<open>
  The chunked, parallel generation yields the items in order: for any positive chunk size the
  DAG is the concatenation of its items, with nothing left over and nothing overwritten.
\<close>

theorem fill_dag_is_concat:
  assumes "digest_ok P" "0 < chunk_size"
  shows "fill_dag P seed chunk_size n = concat (map (\<lambda>i. generate_dag_item P (of_nat i) seed) [0..<n])"
  using assms by (rule fill_dag_concat)

theorem fill_dag_is_concat_witness:
  "fill_dag ref_prims [] 2 3 = concat (map (\<lambda>i. generate_dag_item ref_prims (of_nat i) []) [0..<3])"
  by (rule fill_dag_is_concat) simp_all

section \<open>Hashing needs the items only\<close>

text \<open>The same hash with the items computed on demand.\<close>

definition light_step :: "'v prims \<Rightarrow> bytes \<Rightarrow> nat \<Rightarrow> bytes \<Rightarrow> bytes" where
  "light_step P seed iteration mix =
     (let dag_index = le_value (take 4 (drop (iteration mod 4 * 32) mix)) mod DAG_ITEM_COUNT;
          mix = xor_bytes mix (generate_dag_item P (of_nat dag_index) seed)
      in write_at 0 (blake3 P mix) mix)"

definition light_hash :: "'v prims \<Rightarrow> bytes \<Rightarrow> bytes \<Rightarrow> u64 \<Rightarrow> bytes" where
  "light_hash P seed header_hash nonce0 =
     blake3 P (fold (light_step P seed) [0..<MIX_ITERATIONS] (initial_mix P header_hash nonce0))"

lemma slice_concat:
  assumes "\<And>i. length (g i) = k" "i < n"
  shows "slice (concat (map g [0..<n])) (i * k) k = Some (g i)"
proof -
  have len: "length (concat (map g [a..<b])) = (b - a) * k" for a b
    using assms(1) by (induction b) (auto simp: Suc_diff_le)
  have "[0..<n] = [0..<i] @ i # [Suc i..<n]" using assms(2) by (metis upt_conv_Cons less_imp_le upt_add_eq_append zero_le le_add_diff_inverse)
  then have "concat (map g [0..<n]) = concat (map g [0..<i]) @ g i @ concat (map g [Suc i..<n])" by simp
  then show ?thesis using assms(1) len[of 0 i] by (simp add: slice_def)
qed

lemma DAG_ITEM_COUNT_pos: "0 < DAG_ITEM_COUNT"
  by (simp add: DAG_ITEM_COUNT_def DAG_SIZE_def DAG_ITEM_SIZE_def)

text \<open>
  With the DAG of its epoch, \<open>hash_with_dag\<close> never reads out of range and returns the 32-byte
  hash that computing each visited item on demand gives.
\<close>

theorem hash_with_dag_light:
  assumes "digest_ok P"
  shows "hash_with_dag P header_hash nonce0 (generate_full_dag P epoch) =
      Some (light_hash P (get_seed_hash P epoch) header_hash nonce0) \<and>
    length (light_hash P (get_seed_hash P epoch) header_hash nonce0) = 32"
proof -
  let ?seed = "get_seed_hash P epoch" and ?dag = "generate_full_dag P epoch"
  have dag: "?dag = concat (map (\<lambda>i. generate_dag_item P (of_nat i) ?seed) [0..<DAG_ITEM_COUNT])"
    unfolding generate_full_dag_def by (rule fill_dag_concat[OF assms]) simp
  have "dag_step P ?dag it mix = Some (light_step P ?seed it mix)" for it mix
    using slice_concat[of "\<lambda>i. generate_dag_item P (of_nat i) ?seed", OF length_dag_item[OF assms]] DAG_ITEM_COUNT_pos
    by (simp add: dag_step_def light_step_def Let_def dag)
  then have "fold (\<lambda>it m. Option.bind m (dag_step P ?dag it)) its (Some m) = Some (fold (light_step P ?seed) its m)" for its m
    by (induction its arbitrary: m) simp_all
  then show ?thesis using assms by (simp add: hash_with_dag_def light_hash_def)
qed

theorem hash_with_dag_light_witness:
  "\<exists>h. hash_with_dag ref_prims [] 0 (generate_full_dag ref_prims 0) = Some h \<and> length h = 32"
  using hash_with_dag_light[OF ref_prims_ok(2), of "[]" 0 0] by blast

section \<open>The miner accepts what the node accepts\<close>

lemma meets_target_iff:
  "length hs = length ts \<Longrightarrow> meets_target_loop hs ts \<longleftrightarrow> be_value hs < be_value ts"
proof (induction hs ts rule: list_induct2)
  case (Cons h hs t ts)
  let ?B = "256 ^ length ts :: nat"
  have lt: "be_value hs < ?B" "be_value ts < ?B" using be_value_lt[of hs] be_value_lt[of ts] Cons.hyps by simp_all
  have less: "a * ?B + x < b * ?B + y" if "a < b" "x < ?B" for a b x y :: nat
  proof -
    have "Suc a * ?B \<le> b * ?B" using that(1) by (intro mult_le_mono1) simp
    then show ?thesis using that(2) by simp
  qed
  consider "h < t" | "t < h" | "h = t" by force
  then show ?case
  proof cases
    case 1
    then show ?thesis using less[of "unat h" "unat t" "be_value hs" "be_value ts"] lt Cons.hyps
      by (simp add: be_value_Cons word_less_nat_alt)
  next
    case 2
    then show ?thesis using less[of "unat t" "unat h" "be_value ts" "be_value hs"] lt Cons.hyps
      by (simp add: be_value_Cons word_less_nat_alt)
  next
    case 3
    then show ?thesis using Cons by (simp add: be_value_Cons)
  qed
qed simp

lemma target_bytes: "compact_bits_to_target_bytes bits = to_big_endian (compact_to_target bits)"
proof -
  have "to_big_endian 0 = replicate 32 0" by (simp add: to_big_endian_def map_replicate_const)
  then show ?thesis by (simp add: compact_bits_to_target_bytes_def compact_to_target_def Let_def)
qed

lemma strip_0x_hex: "strip_prefix ''0x'' (hex_of bs) = None"
proof (cases bs)
  case (Cons b bs)
  have "n < 16 \<Longrightarrow> hex_digit n \<noteq> CHR ''x''" for n
    by (drule less_16_cases, elim disjE, drule less_10_cases) (auto simp: hex_digit_def)
  then have "hex_digit (unat b mod 16) \<noteq> CHR ''x''" by simp
  then show ?thesis using Cons by (simp add: strip_prefix_def starts_with_def)
qed (simp add: strip_prefix_def starts_with_def)

lemma miner_pow:
  assumes "hex_ok P" "length hash = 32"
  shows "hash_meets_target hash (compact_bits_to_target_bytes bits) \<longleftrightarrow>
    is_valid_pow P (hex_encode P hash) bits = Ok True"
proof -
  have "hash_meets_target hash (compact_bits_to_target_bytes bits) \<longleftrightarrow> be_value hash < unat (compact_to_target bits)"
    using meets_target_iff[of hash "to_big_endian (compact_to_target bits)"] assms(2)
    by (simp add: hash_meets_target_def target_bytes be_value_to_big_endian)
  moreover have "hash_to_u256 P (hex_encode P hash) = Ok (from_big_endian hash)"
    using assms by (simp add: hash_to_u256_def strip_0x_hex)
  ultimately show ?thesis
    using assms(2) by (auto simp: is_valid_pow_def Let_def word_less_nat_alt unat_from_big_endian)
qed

text \<open>
  The miner's byte-by-byte comparison accepts a header hash exactly when the node's
  proof-of-work test does, for every compact difficulty.
\<close>

theorem miner_agrees_with_node:
  assumes "hex_ok P" "length hash = 32"
  shows "hash_meets_target hash (compact_bits_to_target_bytes bits) \<longleftrightarrow>
    is_valid_pow P (hex_encode P hash) bits = Ok True"
  using assms by (rule miner_pow)

theorem miner_agrees_with_node_witness:
  "hash_meets_target (replicate 32 0) (compact_bits_to_target_bytes POW_LIMIT_BITS) \<longleftrightarrow>
    is_valid_pow ref_prims (hex_encode ref_prims (replicate 32 0)) POW_LIMIT_BITS = Ok True"
  by (rule miner_agrees_with_node) simp_all

end
