(* ===== verification/Cuda_Miner.thy ===== *)
theory Cuda_Miner
  imports Dag
begin

text \<open>
  The GPU miner: the host side \<open>core/src/consensus/cuda.rs\<close> and the kernel \<open>cuda/miner.cu\<close> that it launches.
  The kernel is a step function on threads that share a flag; a launch is run by a schedule, the list of
  the threads in the order in which the device lets them move, so that every interleaving is covered.
  The device (failures of the driver, schedules, and the reads of the flag that cancels the search) is
  the record \<open>gpu_env\<close>. The BLAKE3 routine of the kernel (lines 1 to 172) is not modelled; it is taken to be BLAKE3. The kernel also walks
  the DAG, but the hash it gets there is not used by its test, and the walk is left out. Its message
  buffer has 192 bytes; what happens beyond is undefined, here an error of its own. Hash rates and
  console output are left out.
\<close>

section \<open>The kernel\<close>

fun kernel_meets_target :: "bytes \<Rightarrow> bytes \<Rightarrow> bool" where
  "kernel_meets_target (h # hs) (t # ts) =
     (if h < t then True else if h > t then False else kernel_meets_target hs ts)"
| "kernel_meets_target _ _ = True"

datatype place = Test | Try | Done

record gpu_state =
  found_flag :: bool
  found :: "u64 \<times> bytes"
  threads :: "(u64 \<times> place) list"

record launch_args =
  la_prefix :: bytes
  la_suffix :: bytes
  la_start :: u64
  la_total :: u64
  la_target :: bytes
  la_threads :: nat

definition kernel_nonce :: "launch_args \<Rightarrow> u64 \<Rightarrow> u64" where
  "kernel_nonce A i = la_start A + i"

definition kernel_hash :: "'v prims \<Rightarrow> launch_args \<Rightarrow> u64 \<Rightarrow> bytes" where
  "kernel_hash P A n = blake3 P (build_header_bytes (la_prefix A) n (la_suffix A))"

text \<open>
  One move of a thread: the head of its loop with the look at the flag, or the test of a nonce with the
  exchange of the flag and, for the thread that wins it, the writes of what it found.
\<close>

definition kernel_step :: "'v prims \<Rightarrow> launch_args \<Rightarrow> nat \<Rightarrow> gpu_state \<Rightarrow> gpu_state" where
  "kernel_step P A t g =
     (if t < length (threads g)
      then (case threads g ! t of
          (i, Done) \<Rightarrow> g
        | (i, Test) \<Rightarrow> g\<lparr>threads := (threads g)[t := (i, if i < la_total A \<and> \<not> found_flag g then Try else Done)]\<rparr>
        | (i, Try) \<Rightarrow>
            let n = kernel_nonce A i; h = kernel_hash P A n
            in if kernel_meets_target h (la_target A)
               then (if found_flag g then g else g\<lparr>found_flag := True, found := (n, h)\<rparr>)
                      \<lparr>threads := (threads g)[t := (i, Done)]\<rparr>
               else g\<lparr>threads := (threads g)[t := (i + of_nat (la_threads A), Test)]\<rparr>)
      else g)"

definition kernel_init :: "launch_args \<Rightarrow> gpu_state" where
  "kernel_init A = \<lparr>found_flag = False, found = (0, replicate 32 0), threads = map (\<lambda>t. (of_nat t, Test)) [0..<la_threads A]\<rparr>"

definition mine_kernel :: "'v prims \<Rightarrow> launch_args \<Rightarrow> nat list \<Rightarrow> gpu_state" where
  "mine_kernel P A schedule = fold (kernel_step P A) schedule (kernel_init A)"

section \<open>The host\<close>

datatype mine_error = Cancelled | Driver string | SerializationMismatch | TargetMissed u32 | Overrun

record field_codec =
  fc_u64 :: "u64 \<Rightarrow> bytes"
  fc_str :: "string \<Rightarrow> bytes"
  fc_i64 :: "int \<Rightarrow> bytes"
  fc_u32 :: "u32 \<Rightarrow> bytes"

record gpu_env =
  ge_open :: "(mine_error, unit) result"
  ge_load :: "(mine_error, unit) result"
  ge_launch :: "nat \<Rightarrow> (mine_error, unit) result"
  ge_schedule :: "nat \<Rightarrow> nat list"
  ge_cancelled :: "nat \<Rightarrow> bool"
  ge_batch_size :: "string option"

type_synonym dag_cache = "u64 \<times> bytes option"

definition dag_cache_init :: dag_cache where
  "dag_cache_init = (- 1, None)"

definition get_or_generate_dag :: "'v prims \<Rightarrow> u64 \<Rightarrow> dag_cache \<Rightarrow> bytes \<times> dag_cache" where
  "get_or_generate_dag P epoch cache =
     (case (if fst cache = epoch then snd cache else None) of
        Some dag \<Rightarrow> (dag, cache)
      | None \<Rightarrow> let dag = generate_full_dag P epoch in (dag, (epoch, Some dag)))"

definition DEFAULT_BATCH_SIZE :: u64 where "DEFAULT_BATCH_SIZE = 524288"
definition THREADS_PER_BLOCK :: u64 where "THREADS_PER_BLOCK = 256"
definition MAX_BLOCKS :: u64 where "MAX_BLOCKS = 768"

definition batch_size :: "string option \<Rightarrow> u64" where
  "batch_size var =
     max (case Option.bind var (from_str_radix 64 10) of Some n \<Rightarrow> of_nat n | None \<Rightarrow> DEFAULT_BATCH_SIZE) 1"

definition grid_blocks :: "u64 \<Rightarrow> u64" where
  "grid_blocks batch = min ((batch + THREADS_PER_BLOCK - 1) div THREADS_PER_BLOCK) MAX_BLOCKS"

definition header_prefix :: "field_codec \<Rightarrow> block_header \<Rightarrow> bytes" where
  "header_prefix F h = fc_u64 F (index h) @ fc_str F (previous_hash h) @ fc_str F (merkle_root h) @ fc_i64 F (timestamp h)"

definition header_suffix :: "field_codec \<Rightarrow> block_header \<Rightarrow> bytes" where
  "header_suffix F h = fc_u32 F (difficulty h)"

definition check_layout :: "'v prims \<Rightarrow> field_codec \<Rightarrow> block_header \<Rightarrow> (mine_error, unit) result" where
  "check_layout P F h =
     ensure SerializationMismatch
       (build_header_bytes (header_prefix F h) 0 (header_suffix F h) = serialize_header P (h\<lparr>nonce := 0\<rparr>))"

definition launch_args_of :: "field_codec \<Rightarrow> block_header \<Rightarrow> u64 \<Rightarrow> bytes \<Rightarrow> u64 \<Rightarrow> launch_args" where
  "launch_args_of F h batch target start =
     \<lparr>la_prefix = header_prefix F h, la_suffix = header_suffix F h, la_start = start, la_total = batch,
      la_target = target, la_threads = unat (grid_blocks batch * THREADS_PER_BLOCK)\<rparr>"

definition launch :: "'v prims \<Rightarrow> gpu_env \<Rightarrow> (u64 \<Rightarrow> launch_args) \<Rightarrow> nat \<Rightarrow> u64 \<Rightarrow> (mine_error, (u64 \<times> bytes) option) result" where
  "launch P G args k start =
     bind_res (ge_launch G k) (\<lambda>_.
     let A = args start
     in if length (la_prefix A) + 8 + length (la_suffix A) > 192 then Err Overrun
        else let g = mine_kernel P A (ge_schedule G k) in Ok (if found_flag g then Some (found g) else None))"

text \<open>The search of a header goes on after a hash that fails the host's test.\<close>

partial_function (option) header_loop :: "'v prims \<Rightarrow> gpu_env \<Rightarrow> (u64 \<Rightarrow> launch_args) \<Rightarrow> u64 \<Rightarrow> bytes \<Rightarrow> nat \<Rightarrow> u64
    \<Rightarrow> (mine_error, u64 \<times> bytes) result option" where
  "header_loop P G args batch target k start =
     (if ge_cancelled G k then Some (Err Cancelled)
      else (case launch P G args k start of
          Err e \<Rightarrow> Some (Err e)
        | Ok None \<Rightarrow> header_loop P G args batch target (Suc k) (start + batch)
        | Ok (Some (n, h)) \<Rightarrow>
            if \<not> hash_meets_target h target then header_loop P G args batch target (Suc k) (n + 1)
            else Some (Ok (n, h))))"

definition mine_header_cuda :: "'v prims \<Rightarrow> field_codec \<Rightarrow> gpu_env \<Rightarrow> block_header \<Rightarrow> bytes option \<Rightarrow> dag_cache
    \<Rightarrow> (dag_cache \<times> (mine_error, u64 \<times> string) result) option" where
  "mine_header_cuda P F G hdr target_override cache =
     (case ge_open G of
        Err e \<Rightarrow> Some (cache, Err e)
      | Ok _ \<Rightarrow>
          let (dag, cache) = get_or_generate_dag P (get_epoch (index hdr)) cache
          in (case bind_res (check_layout P F hdr) (\<lambda>_. ge_load G) of
                Err e \<Rightarrow> Some (cache, Err e)
              | Ok _ \<Rightarrow>
                  let batch = batch_size (ge_batch_size G);
                      target = (case target_override of Some t \<Rightarrow> t | None \<Rightarrow> compact_bits_to_target_bytes (difficulty hdr))
                  in map_option (\<lambda>r. (cache, bind_res r (\<lambda>(n, h). Ok (n, hex_encode P h))))
                       (header_loop P G (launch_args_of F hdr batch target) batch target 0 (nonce hdr))))"

text \<open>The search of a block ends with an error there.\<close>

partial_function (option) block_loop :: "'v prims \<Rightarrow> gpu_env \<Rightarrow> (u64 \<Rightarrow> launch_args) \<Rightarrow> u64 \<Rightarrow> bytes \<Rightarrow> u32 \<Rightarrow> nat \<Rightarrow> u64
    \<Rightarrow> (mine_error, u64 \<times> bytes) result option" where
  "block_loop P G args batch target bits k start =
     (if ge_cancelled G k then Some (Err Cancelled)
      else (case launch P G args k start of
          Err e \<Rightarrow> Some (Err e)
        | Ok None \<Rightarrow> block_loop P G args batch target bits (Suc k) (start + batch)
        | Ok (Some (n, h)) \<Rightarrow>
            if \<not> hash_meets_target h target then Some (Err (TargetMissed bits)) else Some (Ok (n, h))))"

definition mine_block_with_coinbase_cuda :: "'v prims \<Rightarrow> field_codec \<Rightarrow> gpu_env \<Rightarrow> int \<Rightarrow> u64 \<Rightarrow> string \<Rightarrow> u32
    \<Rightarrow> transaction list \<Rightarrow> string \<Rightarrow> u256 \<Rightarrow> dag_cache \<Rightarrow> (dag_cache \<times> (mine_error, block) result) option" where
  "mine_block_with_coinbase_cuda P F G now index0 prev_hash bits txs miner_addr reward cache =
     (case ge_open G of
        Err e \<Rightarrow> Some (cache, Err e)
      | Ok _ \<Rightarrow>
          let cb = with_hashes P (coinbase P now miner_addr reward);
              all_txs = cb # txs;
              root = compute_merkle_root P (map txid all_txs);
              hdr = \<lparr>index = index0, previous_hash = prev_hash, merkle_root = root, timestamp = now, nonce = 0, difficulty = bits\<rparr>;
              (dag, cache) = get_or_generate_dag P (get_epoch index0) cache
          in (case bind_res (check_layout P F hdr) (\<lambda>_. ge_load G) of
                Err e \<Rightarrow> Some (cache, Err e)
              | Ok _ \<Rightarrow>
                  let batch = batch_size (ge_batch_size G);
                      target = compact_bits_to_target_bytes bits
                  in map_option (\<lambda>r. (cache, bind_res r (\<lambda>(n, h).
                         Ok \<lparr>header = hdr\<lparr>nonce := n\<rparr>, transactions = all_txs, block_hash = hex_encode P h\<rparr>)))
                       (block_loop P G (launch_args_of F hdr batch target) batch target bits 0 0)))"

section \<open>What a launch finds\<close>

lemma kernel_meets_iff:
  "length hs = length ts \<Longrightarrow> kernel_meets_target hs ts \<longleftrightarrow> hash_meets_target hs ts \<or> hs = ts"
  by (induction hs ts rule: list_induct2) (auto simp: hash_meets_target_def)

text \<open>A nonce of the batch that the kernel accepts.\<close>

definition accepts :: "'v prims \<Rightarrow> launch_args \<Rightarrow> nat \<Rightarrow> bool" where
  "accepts P A j \<longleftrightarrow> j < unat (la_total A) \<and> kernel_meets_target (kernel_hash P A (la_start A + of_nat j)) (la_target A)"

definition thread_ok :: "'v prims \<Rightarrow> launch_args \<Rightarrow> bool \<Rightarrow> nat \<Rightarrow> u64 \<times> place \<Rightarrow> bool" where
  "thread_ok P A flag t th \<longleftrightarrow>
     (\<exists>k. unat (fst th) = t + k * la_threads A) \<and> (snd th = Try \<longrightarrow> fst th < la_total A) \<and>
     (\<not> flag \<longrightarrow> (\<forall>k. (snd th \<noteq> Done \<longrightarrow> t + k * la_threads A < unat (fst th)) \<longrightarrow> \<not> accepts P A (t + k * la_threads A)))"

definition kernel_ok :: "'v prims \<Rightarrow> launch_args \<Rightarrow> gpu_state \<Rightarrow> bool" where
  "kernel_ok P A g \<longleftrightarrow>
     length (threads g) = la_threads A \<and>
     (\<forall>t<la_threads A. thread_ok P A (found_flag g) t (threads g ! t)) \<and>
     (found_flag g \<longrightarrow> (\<exists>j. accepts P A j \<and>
        found g = (la_start A + of_nat j, kernel_hash P A (la_start A + of_nat j))))"

definition no_wrap :: "launch_args \<Rightarrow> bool" where
  "no_wrap A \<longleftrightarrow> 0 < la_threads A \<and> unat (la_total A) + la_threads A < 2 ^ 64"

lemma thread_ok_flag: "thread_ok P A flag t th \<Longrightarrow> thread_ok P A True t th"
  by (simp add: thread_ok_def)


lemma kernel_init_ok: "unat (la_total A) + la_threads A < 2 ^ 64 \<Longrightarrow> kernel_ok P A (kernel_init A)"
proof -
  assume n: "unat (la_total A) + la_threads A < 2 ^ 64"
  have "thread_ok P A False t (of_nat t, Test)" if "t < la_threads A" for t
  proof -
    have "unat (of_nat t :: u64) = t" using that n by (intro unat_of_nat_eq) simp
    then show ?thesis by (auto simp: thread_ok_def intro: exI[of _ 0])
  qed
  then show ?thesis by (simp add: kernel_ok_def kernel_init_def)
qed

lemma thread_test:
  assumes "thread_ok P A flag t (i, Test)"
  shows "thread_ok P A flag t (i, if i < la_total A \<and> \<not> flag then Try else Done)"
proof (cases "i < la_total A \<or> flag")
  case True
  then show ?thesis using assms by (auto simp: thread_ok_def)
next
  case False
  then have "\<not> accepts P A j" if "unat i \<le> j" for j using that by (simp add: accepts_def word_less_nat_alt)
  moreover have "\<not> accepts P A (t + k * la_threads A)" if "t + k * la_threads A < unat i" for k
    using assms False that by (auto simp: thread_ok_def)
  ultimately have "\<not> accepts P A (t + k * la_threads A)" for k by (meson not_le)
  then show ?thesis using assms False by (auto simp: thread_ok_def)
qed

lemma thread_next:
  assumes "thread_ok P A flag t (i, Try)" "no_wrap A" "\<not> kernel_meets_target (kernel_hash P A (kernel_nonce A i)) (la_target A)"
  shows "thread_ok P A flag t (i + of_nat (la_threads A), Test)"
proof -
  let ?N = "la_threads A"
  obtain k where k: "unat i = t + k * ?N" and i: "unat i < unat (la_total A)"
    using assms(1) by (auto simp: thread_ok_def word_less_nat_alt)
  have "unat (of_nat ?N :: u64) = ?N" using assms(2) by (intro unat_of_nat_eq) (simp add: no_wrap_def)
  then have n: "unat (i + of_nat ?N) = t + Suc k * ?N"
    using k i assms(2) by (subst unat_add_lem[THEN iffD1]) (simp_all add: no_wrap_def)
  have "\<not> accepts P A (unat i)" using assms(3) by (simp add: accepts_def kernel_nonce_def)
  moreover have "k' \<le> k" if "t + k' * ?N < t + Suc k * ?N" for k'
    using that by (metis add_less_cancel_left less_Suc_eq_le mult_less_cancel2)
  moreover have "t + k' * ?N < unat i" if "k' < k" for k' using that k assms(2) by (simp add: no_wrap_def)
  ultimately have "\<not> accepts P A (t + k' * ?N)" if "t + k' * ?N < unat (i + of_nat ?N)" "\<not> flag" for k'
    using that assms(1) unfolding n k thread_ok_def by (metis fst_conv k le_neq_implies_less)
  then show ?thesis using n by (auto simp: thread_ok_def simp del: mult_Suc)
qed

lemma thread_found:
  assumes "thread_ok P A flag t (i, Try)"
  shows "thread_ok P A True t (i, Done)"
  using assms by (simp add: thread_ok_def)

lemma kernel_step_ok:
  assumes "kernel_ok P A g" "no_wrap A"
  shows "kernel_ok P A (kernel_step P A t g)"
proof (cases "t < length (threads g)")
  case True
  have ok: "thread_ok P A (found_flag g) t (threads g ! t)" using assms(1) True by (simp add: kernel_ok_def)
  have upd: "kernel_ok P A (g\<lparr>threads := (threads g)[t := th]\<rparr>)" if "thread_ok P A (found_flag g) t th" for th
  proof -
    have "thread_ok P A (found_flag g) u ((threads g)[t := th] ! u)" if "u < la_threads A" for u
      using that \<open>thread_ok P A (found_flag g) t th\<close> assms(1) by (cases "u = t") (simp_all add: kernel_ok_def)
    then show ?thesis using assms(1) by (simp add: kernel_ok_def)
  qed
  obtain i pl where th: "threads g ! t = (i, pl)" by fastforce
  show ?thesis
  proof (cases pl)
    case Done
    then show ?thesis using assms(1) th by (simp add: kernel_step_def)
  next
    case Test
    then show ?thesis using upd thread_test[of P A "found_flag g" t i] ok th True by (simp add: kernel_step_def)
  next
    case Try
    let ?h = "kernel_hash P A (kernel_nonce A i)"
    show ?thesis
    proof (cases "kernel_meets_target ?h (la_target A)")
      case False
      then show ?thesis using upd thread_next[OF ok[unfolded th Try] assms(2)] th True Try by (simp add: kernel_step_def Let_def)
    next
      case meets: True
      have i: "accepts P A (unat i)" using ok meets unfolding th Try
        by (auto simp: accepts_def thread_ok_def kernel_nonce_def word_less_nat_alt)
      have d: "thread_ok P A True t (i, Done)" by (rule thread_found[OF ok[unfolded th Try]])
      show ?thesis
      proof (cases "found_flag g")
        case True
        then show ?thesis using upd d meets th Try \<open>t < _\<close> by (simp add: kernel_step_def Let_def)
      next
        case False
        have "thread_ok P A True u ((threads g)[t := (i, Done)] ! u)" if "u < la_threads A" for u
        proof (cases "u = t")
          case True
          then show ?thesis using d \<open>t < _\<close> by simp
        next
          case False
          then show ?thesis using assms(1) that unfolding kernel_ok_def by (auto intro: thread_ok_flag)
        qed
        then show ?thesis using False meets th Try \<open>t < _\<close> i assms(1)
          by (auto simp: kernel_step_def Let_def kernel_ok_def kernel_nonce_def intro!: exI[of _ "unat i"])
      qed
    qed
  qed
next
  case False
  then show ?thesis using assms(1) by (simp add: kernel_step_def)
qed

lemma mine_kernel_ok:
  assumes "no_wrap A"
  shows "kernel_ok P A (mine_kernel P A schedule)"
proof -
  have "kernel_ok P A g \<Longrightarrow> kernel_ok P A (fold (kernel_step P A) s g)" for g s
    by (induction s arbitrary: g) (simp_all add: kernel_step_ok assms)
  then show ?thesis using assms kernel_init_ok[of A P] by (simp add: mine_kernel_def no_wrap_def)
qed

section \<open>Every thread ends\<close>

fun thread_left :: "launch_args \<Rightarrow> u64 \<times> place \<Rightarrow> nat" where
  "thread_left A (i, Done) = 0"
| "thread_left A (i, Try) = 2 * (unat (la_total A) - unat i)"
| "thread_left A (i, Test) = 2 * (unat (la_total A) - unat i) + 1"

definition finished :: "gpu_state \<Rightarrow> bool" where
  "finished g \<longleftrightarrow> list_all (\<lambda>th. snd th = Done) (threads g)"

lemma step_other: "t' \<noteq> t \<Longrightarrow> threads (kernel_step P A t g) ! t' = threads g ! t'"
  by (auto simp: kernel_step_def Let_def split: prod.splits place.splits)

lemma step_length: "length (threads (kernel_step P A t g)) = length (threads g)"
  by (auto simp: kernel_step_def Let_def split: prod.splits place.splits)

lemma step_left:
  assumes "kernel_ok P A g" "no_wrap A" "t < la_threads A"
  shows "thread_left A (threads (kernel_step P A t g) ! t) \<le> thread_left A (threads g ! t) - 1"
proof -
  obtain i pl where th: "threads g ! t = (i, pl)" by fastforce
  have l: "t < length (threads g)" using assms(1,3) by (simp add: kernel_ok_def)
  have ok: "thread_ok P A (found_flag g) t (i, pl)" using assms(1,3) th by (auto simp: kernel_ok_def)
  show ?thesis
  proof (cases pl)
    case Try
    then have i: "unat i < unat (la_total A)" using ok by (simp add: thread_ok_def word_less_nat_alt)
    have "unat (of_nat (la_threads A) :: u64) = la_threads A" using assms(2) by (intro unat_of_nat_eq) (simp add: no_wrap_def)
    then have "unat (i + of_nat (la_threads A)) = unat i + la_threads A"
      using i assms(2) by (subst unat_add_lem[THEN iffD1]) (simp_all add: no_wrap_def)
    then show ?thesis using Try th l i assms(2) by (auto simp: kernel_step_def Let_def no_wrap_def)
  qed (use th l in \<open>auto simp: kernel_step_def\<close>)
qed

lemma run_left:
  assumes "kernel_ok P A g" "no_wrap A" "t < la_threads A"
  shows "thread_left A (threads (fold (kernel_step P A) s g) ! t) \<le> thread_left A (threads g ! t) - count_list s t"
  using assms(1)
proof (induction s arbitrary: g)
  case (Cons u s)
  have "thread_left A (threads (kernel_step P A u g) ! t) \<le> thread_left A (threads g ! t) - (if u = t then 1 else 0)"
    using step_left[OF Cons.prems assms(2,3)] step_other[of t u P A g] by auto
  with Cons.IH[OF kernel_step_ok[OF Cons.prems assms(2), of u]] show ?case by (simp split: if_splits)
qed simp

lemma left_Done: "thread_left A th = 0 \<Longrightarrow> thread_ok P A flag t th \<Longrightarrow> snd th = Done"
  by (cases th; cases "snd th") (auto simp: thread_ok_def word_less_nat_alt)

definition fair :: "nat \<Rightarrow> u64 \<Rightarrow> nat list \<Rightarrow> bool" where
  "fair n batch schedule \<longleftrightarrow> list_all (\<lambda>t. 2 * unat batch + 1 \<le> count_list schedule t) [0..<n]"

lemma fair_finishes:
  assumes "no_wrap A" "fair (la_threads A) (la_total A) schedule"
  shows "finished (mine_kernel P A schedule)"
proof -
  let ?g = "mine_kernel P A schedule"
  have ok: "kernel_ok P A ?g" by (rule mine_kernel_ok[OF assms(1)])
  have init: "kernel_ok P A (kernel_init A)" using assms(1) by (intro kernel_init_ok) (simp add: no_wrap_def)
  have "snd (threads ?g ! t) = Done" if "t < la_threads A" for t
  proof -
    have "thread_left A (threads (kernel_init A) ! t) \<le> 2 * unat (la_total A) + 1" using that by (simp add: kernel_init_def)
    moreover have "2 * unat (la_total A) + 1 \<le> count_list schedule t" using assms(2) that by (simp add: fair_def list_all_iff)
    ultimately have "thread_left A (threads ?g ! t) = 0"
      using run_left[OF init assms(1) that, of schedule] by (simp add: mine_kernel_def)
    moreover have "thread_ok P A (found_flag ?g) t (threads ?g ! t)" using ok that by (simp add: kernel_ok_def)
    ultimately show ?thesis by (rule left_Done)
  qed
  then show ?thesis using ok by (auto simp: finished_def list_all_length kernel_ok_def)
qed

lemma residue_class: "0 < N \<Longrightarrow> \<exists>t<N. \<exists>k. j = t + k * (N :: nat)"
  by (metis mod_less_divisor mod_mult_div_eq mult.commute)

lemma kernel_complete:
  assumes "no_wrap A" "finished (mine_kernel P A schedule)"
  shows "(found_flag (mine_kernel P A schedule) \<longleftrightarrow> (\<exists>j. accepts P A j)) \<and>
    (found_flag (mine_kernel P A schedule) \<longrightarrow> (\<exists>j. accepts P A j \<and>
      found (mine_kernel P A schedule) = (la_start A + of_nat j, kernel_hash P A (la_start A + of_nat j))))"
proof -
  let ?g = "mine_kernel P A schedule"
  have ok: "kernel_ok P A ?g" by (rule mine_kernel_ok[OF assms(1)])
  have "\<not> accepts P A j" if "\<not> found_flag ?g" for j
  proof -
    obtain t k where t: "t < la_threads A" "j = t + k * la_threads A"
      using residue_class[of "la_threads A" j] assms(1) by (auto simp: no_wrap_def)
    have "snd (threads ?g ! t) = Done" using assms(2) ok t(1) by (simp add: finished_def list_all_length kernel_ok_def)
    then show ?thesis using ok t that by (auto simp: kernel_ok_def thread_ok_def)
  qed
  then show ?thesis using ok by (auto simp: kernel_ok_def)
qed

text \<open>
  C37. Whatever the order in which the threads move, when all have ended the launch reports a nonce exactly
  if the batch has one that the kernel accepts, and then reports such a nonce with its header hash.
\<close>

theorem kernel_exhaustive:
  assumes "no_wrap A" "finished (mine_kernel P A schedule)"
  shows "(found_flag (mine_kernel P A schedule) \<longleftrightarrow> (\<exists>j. accepts P A j)) \<and>
    (found_flag (mine_kernel P A schedule) \<longrightarrow> (\<exists>j. accepts P A j \<and>
      found (mine_kernel P A schedule) = (la_start A + of_nat j, kernel_hash P A (la_start A + of_nat j))))"
  using assms by (rule kernel_complete)

section \<open>The cache of the DAG\<close>

definition cache_ok :: "'v prims \<Rightarrow> dag_cache \<Rightarrow> bool" where
  "cache_ok P cache \<longleftrightarrow> (case snd cache of Some dag \<Rightarrow> dag = generate_full_dag P (fst cache) | None \<Rightarrow> True)"

lemma cache_init_ok: "cache_ok P dag_cache_init"
  by (simp add: cache_ok_def dag_cache_init_def)

text \<open>The cache always answers with the DAG of the epoch that is asked for.\<close>

theorem dag_cache_correct:
  assumes "cache_ok P cache" "get_or_generate_dag P epoch cache = (dag, cache')"
  shows "dag = generate_full_dag P epoch \<and> cache_ok P cache'"
  using assms by (auto simp: get_or_generate_dag_def cache_ok_def Let_def split: option.splits if_splits)

theorem dag_cache_correct_witness:
  "fst (get_or_generate_dag ref_prims 3 dag_cache_init) = generate_full_dag ref_prims 3"
  using dag_cache_correct[OF cache_init_ok[of ref_prims], of 3 "fst (get_or_generate_dag ref_prims 3 dag_cache_init)"]
  by (metis prod.collapse)

section \<open>What the host returns\<close>

text \<open>The documented layout of \<open>bincode\<close> with integers of fixed length: the fields in order, little-endian.\<close>

definition fields_ok :: "'v prims \<Rightarrow> field_codec \<Rightarrow> bool" where
  "fields_ok P F \<longleftrightarrow>
     (\<forall>h. enc_header P h = fc_u64 F (index h) @ fc_str F (previous_hash h) @ fc_str F (merkle_root h) @
        fc_i64 F (timestamp h) @ fc_u64 F (nonce h) @ fc_u32 F (difficulty h)) \<and>
     (\<forall>n. fc_u64 F n = to_le_bytes 8 (unat n))"

definition nonce_hash :: "'v prims \<Rightarrow> block_header \<Rightarrow> u64 \<Rightarrow> bytes" where
  "nonce_hash P h n = blake3_hash P (serialize_header P (h\<lparr>nonce := n\<rparr>))"

lemma nonce_hash_hex: "hex_encode P (nonce_hash P h n) = compute_header_hash P (h\<lparr>nonce := n\<rparr>)"
  by (simp add: nonce_hash_def compute_header_hash_def to_hex_def)

lemma layout:
  assumes "fields_ok P F"
  shows "build_header_bytes (header_prefix F h) n (header_suffix F h) = serialize_header P (h\<lparr>nonce := n\<rparr>)"
  using assms by (simp add: fields_ok_def build_header_bytes_def header_prefix_def header_suffix_def serialize_header_def)

lemma kernel_nonce_hash:
  assumes "fields_ok P F"
  shows "kernel_hash P (launch_args_of F h batch target start) n = nonce_hash P h n"
  by (simp add: kernel_hash_def launch_args_of_def layout[OF assms] nonce_hash_def blake3_hash_def)

lemma batch_pos: "0 < unat (batch_size var)"
proof -
  have "1 \<le> batch_size var" by (simp add: batch_size_def)
  then show ?thesis by (metis word_le_nat_alt unat_1 less_le_trans zero_less_one)
qed

lemma grid_threads:
  assumes "0 < unat batch" "unat batch \<le> 2 ^ 63"
  shows "0 < unat (grid_blocks batch * THREADS_PER_BLOCK)" "unat (grid_blocks batch * THREADS_PER_BLOCK) \<le> 196608"
proof -
  have "unat (255 + batch) = unat batch + 255" using assms(2) by (subst unat_add_lem[THEN iffD1]) simp_all
  then have b: "unat (grid_blocks batch) = min ((unat batch + 255) div 256) 768"
    by (simp add: grid_blocks_def THREADS_PER_BLOCK_def MAX_BLOCKS_def unat_div min_def word_le_nat_alt)
  moreover have "0 < (unat batch + 255) div 256" using assms(1) by (simp add: div_greater_zero_iff)
  moreover have "unat (grid_blocks batch * 256) = unat (grid_blocks batch) * 256"
    using b by (subst unat_mult_lem[THEN iffD1]) simp_all
  ultimately show "0 < unat (grid_blocks batch * THREADS_PER_BLOCK)" "unat (grid_blocks batch * THREADS_PER_BLOCK) \<le> 196608"
    by (simp_all add: THREADS_PER_BLOCK_def)
qed

lemma launch_no_wrap:
  assumes "0 < unat batch" "unat batch \<le> 2 ^ 63"
  shows "no_wrap (launch_args_of F h batch target start)"
  using grid_threads[OF assms] assms(2) by (simp add: no_wrap_def launch_args_of_def)

lemma launch_found:
  assumes "fields_ok P F" "0 < unat batch" "unat batch \<le> 2 ^ 63"
    and "launch P G (launch_args_of F h batch target) k start = Ok (Some (n, bs))"
  shows "bs = nonce_hash P h n" "kernel_meets_target bs target"
proof -
  let ?A = "launch_args_of F h batch target start" and ?g = "mine_kernel P (launch_args_of F h batch target start) (ge_schedule G k)"
  have "found_flag ?g" "found ?g = (n, bs)"
    using assms(4) by (auto simp: launch_def Let_def bind_res_Ok_iff split: if_splits)
  moreover have "kernel_ok P ?A ?g" by (rule mine_kernel_ok[OF launch_no_wrap[OF assms(2,3)]])
  ultimately obtain j where j: "accepts P ?A j" "n = start + of_nat j" "bs = kernel_hash P ?A n"
    by (auto simp: kernel_ok_def launch_args_of_def)
  show "bs = nonce_hash P h n" using j(3) kernel_nonce_hash[OF assms(1)] by simp
  show "kernel_meets_target bs target" using j by (simp add: accepts_def launch_args_of_def)
qed

lemmas header_loop_rule =
  header_loop.raw_induct[of "\<lambda>((((((P, G), args), batch), target), k), start) r. Q P G args batch target k start r" for Q,
    simplified, case_names loop]

lemmas block_loop_rule =
  block_loop.raw_induct[of "\<lambda>(((((((P, G), args), batch), target), bits), k), start) r. Q P G args batch target bits k start r" for Q,
    simplified, case_names loop]

lemma header_loop_launched:
  assumes "header_loop P G args batch target k start = Some r"
  shows "\<forall>n bs. r = Ok (n, bs) \<longrightarrow> (\<exists>k s. launch P G args k s = Ok (Some (n, bs))) \<and> hash_meets_target bs target"
proof (rule header_loop_rule[OF _ assms], goal_cases)
  case (1 rec P G args batch target k start r)
  then show ?case by (auto split: if_splits result.splits option.splits) blast+
qed

lemma block_loop_launched:
  assumes "block_loop P G args batch target bits k start = Some r"
  shows "\<forall>n bs. r = Ok (n, bs) \<longrightarrow> (\<exists>k s. launch P G args k s = Ok (Some (n, bs))) \<and> hash_meets_target bs target"
proof (rule block_loop_rule[OF _ assms], goal_cases)
  case (1 rec P G args batch target bits k start r)
  then show ?case by (auto split: if_splits result.splits option.splits) blast+
qed

definition batch_sane :: "gpu_env \<Rightarrow> bool" where
  "batch_sane G \<longleftrightarrow> unat (batch_size (ge_batch_size G)) \<le> 2 ^ 63"

text \<open>
  What the search of a header returns is a nonce with the header's hash for it, below the target that was
  asked for.
\<close>

lemma mined_header:
  assumes "fields_ok P F" "batch_sane G" "mine_header_cuda P F G hdr override cache = Some (cache', Ok (n, h))"
  shows "h = compute_header_hash P (hdr\<lparr>nonce := n\<rparr>) \<and>
    hash_meets_target (nonce_hash P hdr n) (case override of Some t \<Rightarrow> t | None \<Rightarrow> compact_bits_to_target_bytes (difficulty hdr))"
proof -
  let ?b = "batch_size (ge_batch_size G)" and ?t = "case override of Some t \<Rightarrow> t | None \<Rightarrow> compact_bits_to_target_bytes (difficulty hdr)"
  obtain bs where l: "header_loop P G (launch_args_of F hdr ?b ?t) ?b ?t 0 (nonce hdr) = Some (Ok (n, bs))" "h = hex_encode P bs"
    using assms(3) by (auto simp: mine_header_cuda_def Let_def bind_res_Ok_iff split: result.splits prod.splits)
  from header_loop_launched[OF l(1)] obtain k s where
    k: "launch P G (launch_args_of F hdr ?b ?t) k s = Ok (Some (n, bs))" "hash_meets_target bs ?t" by blast
  have "bs = nonce_hash P hdr n" by (rule launch_found(1)[OF assms(1) batch_pos assms(2)[unfolded batch_sane_def] k(1)])
  then show ?thesis using l(2) k(2) nonce_hash_hex by metis
qed

lemma mined_block:
  assumes "fields_ok P F" "hex_ok P" "digest_ok P" "batch_sane G"
    and "mine_block_with_coinbase_cuda P F G now i prev bits txs addr reward cache = Some (cache', Ok b)"
  shows "compute_header_hash P (header b) = block_hash b \<and> is_valid_pow P (block_hash b) bits = Ok True \<and>
    compute_merkle_root P (map txid (transactions b)) = merkle_root (header b) \<and>
    transactions b = with_hashes P (coinbase P now addr reward) # txs \<and>
    index (header b) = i \<and> previous_hash (header b) = prev \<and> timestamp (header b) = now \<and> difficulty (header b) = bits"
proof -
  let ?b = "batch_size (ge_batch_size G)" and ?t = "compact_bits_to_target_bytes bits"
  let ?txs = "with_hashes P (coinbase P now addr reward) # txs"
  let ?h = "\<lparr>index = i, previous_hash = prev, merkle_root = compute_merkle_root P (map txid ?txs), timestamp = now,
      nonce = 0, difficulty = bits\<rparr>"
  obtain n bs where l: "block_loop P G (launch_args_of F ?h ?b ?t) ?b ?t bits 0 0 = Some (Ok (n, bs))"
    and b: "b = \<lparr>header = ?h\<lparr>nonce := n\<rparr>, transactions = ?txs, block_hash = hex_encode P bs\<rparr>"
    using assms(5) unfolding mine_block_with_coinbase_cuda_def Let_def
    by (auto simp: bind_res_Ok_iff simp del: block_header.update_convs split: result.splits prod.splits)
  from block_loop_launched[OF l] obtain k s where
    k: "launch P G (launch_args_of F ?h ?b ?t) k s = Ok (Some (n, bs))" "hash_meets_target bs ?t" by blast
  have bs: "bs = nonce_hash P ?h n" by (rule launch_found(1)[OF assms(1) batch_pos assms(4)[unfolded batch_sane_def] k(1)])
  then have "length bs = 32" using assms(3) unfolding nonce_hash_def blake3_hash_def digest_ok_def by blast
  then have "is_valid_pow P (hex_encode P bs) bits = Ok True"
    using miner_pow[OF assms(2)] k(2) by blast
  moreover have "hex_encode P bs = compute_header_hash P (?h\<lparr>nonce := n\<rparr>)" using bs nonce_hash_hex[of P ?h n] by simp
  ultimately show ?thesis unfolding b by simp
qed

section \<open>The search ends\<close>

text \<open>The device works: no failure, no cancellation, and every thread of every launch runs to its end.\<close>

definition gpu_ready :: "gpu_env \<Rightarrow> bool" where
  "gpu_ready G \<longleftrightarrow> ge_open G = Ok () \<and> ge_load G = Ok () \<and>
     (\<forall>k. ge_launch G k = Ok () \<and> \<not> ge_cancelled G k \<and>
        fair (unat (grid_blocks (batch_size (ge_batch_size G)) * THREADS_PER_BLOCK)) (batch_size (ge_batch_size G)) (ge_schedule G k))"

definition header_fits :: "field_codec \<Rightarrow> block_header \<Rightarrow> bool" where
  "header_fits F h \<longleftrightarrow> length (header_prefix F h) + 8 + length (header_suffix F h) \<le> 192"

lemma launch_covers:
  assumes "fields_ok P F" "gpu_ready G" "batch_sane G" "header_fits F h"
  defines "batch \<equiv> batch_size (ge_batch_size G)"
  shows "\<exists>r. launch P G (launch_args_of F h batch target) k start = Ok r"
    and "launch P G (launch_args_of F h batch target) k start = Ok None \<Longrightarrow> j < unat batch \<Longrightarrow>
      \<not> kernel_meets_target (nonce_hash P h (start + of_nat j)) target"
proof -
  let ?A = "launch_args_of F h batch target start"
  have w: "no_wrap ?A" using launch_no_wrap batch_pos assms(3) by (simp add: batch_def batch_sane_def)
  have l: "launch P G (launch_args_of F h batch target) k start =
      (let g = mine_kernel P ?A (ge_schedule G k) in Ok (if found_flag g then Some (found g) else None))"
    using assms(2,4) by (simp add: launch_def gpu_ready_def header_fits_def launch_args_of_def)
  then show "\<exists>r. launch P G (launch_args_of F h batch target) k start = Ok r" by (simp add: Let_def)
  have "fair (la_threads ?A) (la_total ?A) (ge_schedule G k)" using assms(2) by (simp add: gpu_ready_def launch_args_of_def batch_def)
  then have full: "found_flag (mine_kernel P ?A (ge_schedule G k)) \<longleftrightarrow> (\<exists>j. accepts P ?A j)"
    using kernel_complete[OF w fair_finishes[OF w]] by blast
  have acc: "accepts P ?A j \<longleftrightarrow> j < unat batch \<and> kernel_meets_target (nonce_hash P h (start + of_nat j)) target" for j
    unfolding accepts_def kernel_nonce_hash[OF assms(1)] by (simp add: launch_args_of_def)
  show "\<not> kernel_meets_target (nonce_hash P h (start + of_nat j)) target"
    if "launch P G (launch_args_of F h batch target) k start = Ok None" "j < unat batch"
    using that full acc[of j] unfolding l Let_def by (auto split: if_splits)
qed

text \<open>A round either finds a nonce, or comes closer to the one that is known to exist.\<close>

lemma search_round:
  assumes "fields_ok P F" "gpu_ready G" "batch_sane G" "header_fits F h" "digest_ok P" "length target = 32"
    and "\<And>n. nonce_hash P h n \<noteq> target" "hash_meets_target (nonce_hash P h m) target"
  defines "batch \<equiv> batch_size (ge_batch_size G)"
  shows "(\<exists>n bs. launch P G (launch_args_of F h batch target) k start = Ok (Some (n, bs)) \<and> hash_meets_target bs target) \<or>
    (launch P G (launch_args_of F h batch target) k start = Ok None \<and> unat (m - (start + batch)) < unat (m - start))"
proof -
  let ?l = "launch P G (launch_args_of F h batch target) k start"
  note cover = launch_covers[OF assms(1-4), of target k start, folded batch_def]
  have len: "length (nonce_hash P h n) = length target" for n
    using assms(5,6) by (simp add: nonce_hash_def blake3_hash_def)
  have pos: "0 < unat batch" unfolding batch_def by (rule batch_pos)
  obtain r where r: "?l = Ok r" using cover(1) by blast
  show ?thesis
  proof (cases r)
    case (Some nb)
    obtain n bs where nb: "nb = (n, bs)" by fastforce
    have "bs = nonce_hash P h n" "kernel_meets_target bs target"
      using launch_found[OF assms(1) pos _ r[unfolded Some nb]] assms(3) by (simp_all add: batch_def batch_sane_def)
    then have "hash_meets_target bs target" using kernel_meets_iff[OF len, of n] assms(7) by blast
    then show ?thesis using r Some nb by blast
  next
    case None
    have "\<not> unat (m - start) < unat batch"
      using cover(2)[of "unat (m - start)"] r None kernel_meets_iff[OF len, of m] assms(8) by auto
    then have "batch \<le> m - start" by (simp add: word_le_nat_alt)
    then have "unat ((m - start) - batch) = unat (m - start) - unat batch" by (simp add: unat_sub)
    then have "unat (m - (start + batch)) = unat (m - start) - unat batch" by (simp only: diff_diff_eq)
    then have "unat (m - (start + batch)) < unat (m - start)" using \<open>\<not> unat (m - start) < unat batch\<close> pos by linarith
    then show ?thesis using r None by blast
  qed
qed

lemma block_loop_ends:
  assumes "fields_ok P F" "gpu_ready G" "batch_sane G" "header_fits F h" "digest_ok P" "length target = 32"
    and "\<And>n. nonce_hash P h n \<noteq> target" "hash_meets_target (nonce_hash P h m) target"
  defines "batch \<equiv> batch_size (ge_batch_size G)"
  shows "\<exists>n bs. block_loop P G (launch_args_of F h batch target) batch target bits k start = Some (Ok (n, bs))"
proof (induction "unat (m - start)" arbitrary: k start rule: less_induct)
  case less
  have c: "\<not> ge_cancelled G k" using assms(2) by (simp add: gpu_ready_def)
  from search_round[OF assms(1-8), of k start, folded batch_def] show ?case
  proof
    assume "\<exists>n bs. launch P G (launch_args_of F h batch target) k start = Ok (Some (n, bs)) \<and> hash_meets_target bs target"
    then show ?thesis using c by (auto simp: block_loop.simps[of P G _ batch target bits k start])
  next
    assume "launch P G (launch_args_of F h batch target) k start = Ok None \<and> unat (m - (start + batch)) < unat (m - start)"
    then show ?thesis using c less[of "start + batch" "Suc k"] by (simp add: block_loop.simps[of P G _ batch target bits k start])
  qed
qed

lemma header_loop_ends:
  assumes "fields_ok P F" "gpu_ready G" "batch_sane G" "header_fits F h" "digest_ok P" "length target = 32"
    and "\<And>n. nonce_hash P h n \<noteq> target" "hash_meets_target (nonce_hash P h m) target"
  defines "batch \<equiv> batch_size (ge_batch_size G)"
  shows "\<exists>n bs. header_loop P G (launch_args_of F h batch target) batch target k start = Some (Ok (n, bs))"
proof (induction "unat (m - start)" arbitrary: k start rule: less_induct)
  case less
  have c: "\<not> ge_cancelled G k" using assms(2) by (simp add: gpu_ready_def)
  from search_round[OF assms(1-8), of k start, folded batch_def] show ?case
  proof
    assume "\<exists>n bs. launch P G (launch_args_of F h batch target) k start = Ok (Some (n, bs)) \<and> hash_meets_target bs target"
    then show ?thesis using c by (auto simp: header_loop.simps[of P G _ batch target k start])
  next
    assume "launch P G (launch_args_of F h batch target) k start = Ok None \<and> unat (m - (start + batch)) < unat (m - start)"
    then show ?thesis using c less[of "start + batch" "Suc k"] by (simp add: header_loop.simps[of P G _ batch target k start])
  qed
qed

lemma layout_checked: "fields_ok P F \<Longrightarrow> check_layout P F h = Ok ()"
  by (simp add: check_layout_def layout)

lemma header_search_ends:
  assumes "fields_ok P F" "gpu_ready G" "batch_sane G" "header_fits F hdr" "digest_ok P" "length target = 32"
    and "\<forall>n. nonce_hash P hdr n \<noteq> target" "hash_meets_target (nonce_hash P hdr m) target"
  shows "\<exists>cache' n. mine_header_cuda P F G hdr (Some target) cache =
      Some (cache', Ok (n, compute_header_hash P (hdr\<lparr>nonce := n\<rparr>))) \<and> hash_meets_target (nonce_hash P hdr n) target"
proof -
  let ?b = "batch_size (ge_batch_size G)"
  obtain n bs where l: "header_loop P G (launch_args_of F hdr ?b target) ?b target 0 (nonce hdr) = Some (Ok (n, bs))"
    using header_loop_ends[OF assms(1-6) _ assms(8)] assms(7) by blast
  have "\<exists>cache'. mine_header_cuda P F G hdr (Some target) cache = Some (cache', Ok (n, hex_encode P bs))"
    using l assms(2) layout_checked[OF assms(1)]
    by (auto simp: mine_header_cuda_def gpu_ready_def Let_def split: prod.splits)
  then obtain cache' where m: "mine_header_cuda P F G hdr (Some target) cache = Some (cache', Ok (n, hex_encode P bs))" by blast
  show ?thesis using mined_header[OF assms(1,3) m] m by auto
qed

text \<open>
  C36. If some nonce brings the hash of a header below the target, no nonce hits the target exactly, the header
  fits the kernel's message buffer of 192 bytes (\<open>header_fits\<close>), the batch size is at most \<open>2 ^ 63\<close>
  (\<open>batch_sane\<close>) and the device works (\<open>gpu_ready\<close>), then the search returns, from whatever nonce it starts
  and however the threads interleave; and what it returns is a nonce with that property. The BLAKE3 routine of
  the kernel (\<open>miner.cu\<close>, lines 1 to 172) is taken to compute BLAKE3, and is not modelled.
\<close>

theorem header_search_succeeds:
  assumes "fields_ok P F" "gpu_ready G" "batch_sane G" "header_fits F hdr" "digest_ok P" "length target = 32"
    and "\<forall>n. nonce_hash P hdr n \<noteq> target" "hash_meets_target (nonce_hash P hdr m) target"
  shows "\<exists>cache' n. mine_header_cuda P F G hdr (Some target) cache =
      Some (cache', Ok (n, compute_header_hash P (hdr\<lparr>nonce := n\<rparr>))) \<and> hash_meets_target (nonce_hash P hdr n) target"
  using assms by (rule header_search_ends)

text \<open>
  A block the GPU miner returns carries the hash of its own header, the node's proof-of-work test accepts
  it at the difficulty that was asked for, its Merkle root is the one of its transactions, and these are
  a coinbase for the miner followed by the given ones.
\<close>

theorem mined_block_valid:
  assumes "fields_ok P F" "hex_ok P" "digest_ok P" "batch_sane G"
    and "mine_block_with_coinbase_cuda P F G now i prev bits txs addr reward cache = Some (cache', Ok b)"
  shows "compute_header_hash P (header b) = block_hash b \<and> is_valid_pow P (block_hash b) bits = Ok True \<and>
    compute_merkle_root P (map txid (transactions b)) = merkle_root (header b) \<and>
    transactions b = with_hashes P (coinbase P now addr reward) # txs \<and>
    index (header b) = i \<and> previous_hash (header b) = prev \<and> timestamp (header b) = now \<and> difficulty (header b) = bits"
  using assms by (rule mined_block)

section \<open>Examples\<close>

text \<open>The documented layout, and a device whose launches run 256 threads in turn.\<close>

definition wire_fields :: field_codec where
  "wire_fields = \<lparr>fc_u64 = (\<lambda>n. to_le_bytes 8 (unat n)), fc_str = (\<lambda>s. to_le_bytes 8 (length s) @ byte_string s),
     fc_i64 = (\<lambda>i. to_le_bytes 8 (nat (i mod 2 ^ 64))), fc_u32 = (\<lambda>n. to_le_bytes 4 (unat n))\<rparr>"

definition wire_prims :: "stored prims" where
  "wire_prims = ref_prims\<lparr>enc_header := (\<lambda>h. fc_u64 wire_fields (index h) @ fc_str wire_fields (previous_hash h) @
     fc_str wire_fields (merkle_root h) @ fc_i64 wire_fields (timestamp h) @ fc_u64 wire_fields (nonce h) @
     fc_u32 wire_fields (difficulty h))\<rparr>"

definition sample_gpu :: gpu_env where
  "sample_gpu = \<lparr>ge_open = Ok (), ge_load = Ok (), ge_launch = (\<lambda>_. Ok ()),
     ge_schedule = (\<lambda>_. concat (replicate 3 [0..<256])), ge_cancelled = (\<lambda>_. False), ge_batch_size = Some ''1''\<rparr>"

definition sample_header :: block_header where
  "sample_header = \<lparr>index = 0, previous_hash = [], merkle_root = [], timestamp = 0, nonce = 0, difficulty = POW_LIMIT_BITS\<rparr>"

lemma wire_same:
  "sha256 wire_prims = sha256 ref_prims" "blake3 wire_prims = blake3 ref_prims" "hex_encode wire_prims = hex_encode ref_prims" "hex_decode wire_prims = hex_decode ref_prims"
  "vk_from_bytes wire_prims = vk_from_bytes ref_prims" "ed_public wire_prims = ed_public ref_prims" "ed_sign wire_prims = ed_sign ref_prims" "ed_verify wire_prims = ed_verify ref_prims"
  "enc_tx_body wire_prims = enc_tx_body ref_prims" "enc_block wire_prims = enc_block ref_prims" "dec_block wire_prims = dec_block ref_prims" "enc_tx wire_prims = enc_tx ref_prims"
  "dec_tx wire_prims = dec_tx ref_prims" "enc_utxo wire_prims = enc_utxo ref_prims" "dec_utxo wire_prims = dec_utxo ref_prims" "as_bytes wire_prims = as_bytes ref_prims"
  "from_utf8 wire_prims = from_utf8 ref_prims"
  by (simp_all add: wire_prims_def)

lemma wire_ok: "fields_ok wire_prims wire_fields" "hex_ok wire_prims" "digest_ok wire_prims" "codec_ok wire_prims" "ed25519_ok wire_prims"
proof -
  show "fields_ok wire_prims wire_fields" by (simp add: fields_ok_def wire_prims_def wire_fields_def)
  show "hex_ok wire_prims" using ref_prims_ok(3) unfolding hex_ok_def wire_same by blast
  show "digest_ok wire_prims" using ref_prims_ok(2) unfolding digest_ok_def wire_same by blast
  show "codec_ok wire_prims" using ref_prims_ok(1) unfolding codec_ok_def wire_same by blast
  show "ed25519_ok wire_prims" using ref_prims_ok(4) unfolding ed25519_ok_def wire_same by blast
qed

lemma count_rounds: "t < n \<Longrightarrow> count_list (concat (replicate k [0..<n])) t = k"
proof (induction k)
  case (Suc k)
  have "count_list [0..<n] t = (if t < n then 1 else 0)" for n by (induction n) auto
  then show ?case using Suc by (simp add: count_list_append)
qed simp

lemma sample_batch: "batch_size (ge_batch_size sample_gpu) = 1"
  by (simp add: sample_gpu_def) code_simp

lemma sample_gpu_ok: "gpu_ready sample_gpu" "batch_sane sample_gpu"
proof -
  have "unat (grid_blocks 1 * THREADS_PER_BLOCK) = 256" by code_simp
  moreover have "fair 256 1 (concat (replicate 3 [0..<256]))" using count_rounds[of _ 256 3] by (simp add: fair_def list_all_iff)
  ultimately show "gpu_ready sample_gpu" by (simp add: gpu_ready_def sample_batch) (simp add: sample_gpu_def)
  show "batch_sane sample_gpu" by (simp add: batch_sane_def sample_batch)
qed

lemma sample_nonce_hash: "nonce_hash wire_prims sample_header n = replicate 32 0"
proof -
  have z: "to_le_bytes 8 0 = replicate 8 0" by code_simp
  have r: "replicate 32 0 = replicate 8 0 @ replicate 8 0 @ replicate 8 0 @ replicate 8 (0 :: u8)" by (simp add: replicate_add[symmetric])
  have "nonce_hash wire_prims sample_header n = pad 32 (replicate 32 0 @ to_le_bytes 8 (unat n) @ to_le_bytes 4 (unat POW_LIMIT_BITS))"
    by (simp add: nonce_hash_def blake3_hash_def serialize_header_def wire_prims_def wire_fields_def ref_prims_def sample_header_def
        z byte_string_def r)
  then show ?thesis by (simp add: pad_def)
qed

theorem header_search_succeeds_witness:
  "\<exists>cache' n. mine_header_cuda wire_prims wire_fields sample_gpu sample_header (Some (replicate 32 255)) dag_cache_init =
    Some (cache', Ok (n, compute_header_hash wire_prims (sample_header\<lparr>nonce := n\<rparr>)))"
proof -
  have f: "header_fits wire_fields sample_header"
    by (simp add: header_fits_def header_prefix_def header_suffix_def wire_fields_def sample_header_def byte_string_def)
  have d: "hash_meets_target (replicate 32 0) (replicate 32 255)" "replicate 32 0 \<noteq> (replicate 32 255 :: bytes)" by code_simp+
  show ?thesis
    using header_search_succeeds[OF wire_ok(1) sample_gpu_ok f wire_ok(3), of "replicate 32 255" 0 dag_cache_init] d
    by (auto simp: sample_nonce_hash)
qed

theorem kernel_exhaustive_witness:
  "\<exists>j. found (mine_kernel wire_prims (launch_args_of wire_fields sample_header 1 (replicate 32 255) 7) (ge_schedule sample_gpu 0)) =
    (7 + of_nat j, replicate 32 0)"
proof -
  let ?A = "launch_args_of wire_fields sample_header 1 (replicate 32 255) 7"
  have w: "no_wrap ?A" by (rule launch_no_wrap) simp_all
  have "fair (la_threads ?A) (la_total ?A) (ge_schedule sample_gpu 0)"
    using sample_gpu_ok(1) by (simp add: gpu_ready_def sample_batch launch_args_of_def)
  note e = kernel_exhaustive[OF w fair_finishes[OF w this, of wire_prims]]
  have h: "kernel_hash wire_prims ?A n = replicate 32 0" for n by (simp add: kernel_nonce_hash[OF wire_ok(1)] sample_nonce_hash)
  have "kernel_meets_target (replicate 32 0) (replicate 32 255)" by code_simp
  then have "accepts wire_prims ?A 0" unfolding accepts_def h by (simp add: launch_args_of_def)
  then show ?thesis using e h by (auto simp: launch_args_of_def)
qed

lemma wire_root_length: "length (compute_merkle_root wire_prims [x]) = 64"
  by (simp add: compute_merkle_root_def merkle_loop.simps to_hex_def merkle_leaf_def Let_def wire_prims_def ref_prims_def split: option.splits)

lemma wire_nonce_hash:
  assumes "index h = 0" "previous_hash h = []"
  shows "\<exists>r. nonce_hash wire_prims h n = replicate 16 0 @ r \<and> length r = 16"
proof -
  have z: "to_le_bytes 8 0 = replicate 8 0" by code_simp
  have r: "replicate 16 0 = replicate 8 0 @ replicate 8 (0 :: u8)" by (simp add: replicate_add[symmetric])
  obtain xs where "enc_header wire_prims (h\<lparr>nonce := n\<rparr>) = replicate 16 0 @ xs"
    using assms by (simp add: wire_prims_def wire_fields_def z byte_string_def r)
  then have "nonce_hash wire_prims h n = pad 32 (replicate 16 0 @ xs)"
    by (simp add: nonce_hash_def blake3_hash_def serialize_header_def) (simp add: wire_prims_def ref_prims_def)
  then have "nonce_hash wire_prims h n = replicate 16 0 @ take 16 (xs @ replicate 32 0)" by (simp add: pad_def)
  then show ?thesis by fastforce
qed

lemma zeros_meet_limit:
  assumes "length r = 16"
  shows "hash_meets_target (replicate 16 0 @ r) (compact_bits_to_target_bytes POW_LIMIT_BITS)"
proof -
  have "be_value (replicate k 0 @ r) = be_value r" for k by (induction k) (simp_all add: be_value_Cons)
  then have "be_value (replicate 16 0 @ r) < 256 ^ 16" using be_value_lt[of r] assms by simp
  also have "256 ^ 16 \<le> unat (compact_to_target POW_LIMIT_BITS)"
    by (simp add: unat_compact_to_target POW_LIMIT_BITS_def compact_value_def)
  finally show ?thesis
    using meets_target_iff[of "replicate 16 0 @ r" "to_big_endian (compact_to_target POW_LIMIT_BITS)"] assms
    by (simp add: hash_meets_target_def target_bytes be_value_to_big_endian)
qed

theorem mined_block_valid_witness:
  "\<exists>cache' b. mine_block_with_coinbase_cuda wire_prims wire_fields sample_gpu 0 0 [] POW_LIMIT_BITS [] ''a'' 5 dag_cache_init = Some (cache', Ok b) \<and>
    compute_header_hash wire_prims (header b) = block_hash b"
proof -
  let ?cb = "with_hashes wire_prims (coinbase wire_prims 0 ''a'' 5)" and ?t = "compact_bits_to_target_bytes POW_LIMIT_BITS"
  let ?b = "batch_size (ge_batch_size sample_gpu)"
  let ?h = "\<lparr>index = 0, previous_hash = [], merkle_root = compute_merkle_root wire_prims [txid ?cb], timestamp = 0,
      nonce = 0, difficulty = POW_LIMIT_BITS\<rparr>"
  have m: "hash_meets_target (nonce_hash wire_prims ?h n) ?t" for n
    using wire_nonce_hash[of ?h n] zeros_meet_limit by auto
  have "\<not> hash_meets_target x x" for x using meets_target_iff[of x x] by (simp add: hash_meets_target_def)
  then have ne: "nonce_hash wire_prims ?h n \<noteq> ?t" for n using m[of n] by metis
  have f: "header_fits wire_fields ?h"
    by (simp add: header_fits_def header_prefix_def header_suffix_def wire_fields_def byte_string_def wire_root_length)
  obtain n bs where l: "block_loop wire_prims sample_gpu (launch_args_of wire_fields ?h ?b ?t) ?b ?t POW_LIMIT_BITS 0 0 = Some (Ok (n, bs))"
    using block_loop_ends[OF wire_ok(1) sample_gpu_ok f wire_ok(3) _ ne m, of POW_LIMIT_BITS 0 0]
    by (metis length_to_big_endian target_bytes)
  obtain dag cache' where c: "get_or_generate_dag wire_prims (get_epoch 0) dag_cache_init = (dag, cache')"
    by (cases "get_or_generate_dag wire_prims (get_epoch 0) dag_cache_init")
  have "\<exists>b. mine_block_with_coinbase_cuda wire_prims wire_fields sample_gpu 0 0 [] POW_LIMIT_BITS [] ''a'' 5 dag_cache_init = Some (cache', Ok b)"
    using l sample_gpu_ok(1) layout_checked[OF wire_ok(1)] c
    by (simp add: mine_block_with_coinbase_cuda_def gpu_ready_def Let_def)
  then show ?thesis using mined_block_valid[OF wire_ok(1,2,3) sample_gpu_ok(2)] by blast
qed

end
