(* ===== verification/Pool_Shares.thy ===== *)
theory Pool_Shares
  imports Hash_Map Float64
begin

text \<open>
  \<open>astram-stratum/src/shares.rs\<close>: the share tracker of the pool, with its rolling window of shares,
  the pending balances, and the distribution of a block reward over the window (PPLNS). The clock
  is an argument. Where the code iterates a hash map, the order is the argument \<open>ord\<close>. A panic
  (an amount beyond 128 bits, an overflowing product) is \<^const>\<open>None\<close>: it poisons the mutex that
  holds the tracker, which then serves no further request.
\<close>

record share =
  sh_miner_address :: string
  sh_worker_name :: string
  sh_difficulty :: u32
  sh_timestamp :: int
  sh_job_id :: string

record found_block =
  fb_height :: u64
  fb_hash :: string
  fb_timestamp :: int
  fb_reward :: string
  fb_finder :: string
  fb_shares_in_window :: nat

record connected_worker =
  cw_address :: string
  cw_worker_name :: string
  cw_difficulty :: u32
  cw_connected_at :: int

record miner_stats =
  ms_address :: string
  ms_worker_name :: string
  ms_difficulty :: u32
  ms_shares_accepted :: u64
  ms_shares_rejected :: u64
  ms_shares_in_window :: u64
  ms_balance :: string
  ms_last_share_at :: "int option"
  ms_connected :: bool

record share_tracker =
  recent_shares :: "share list"
  window_size :: nat
  found_blocks :: "found_block list"
  balances :: "u256 hash_map"
  total_shares_accepted :: u64
  total_shares_rejected :: u64
  miner_accepted :: "u64 hash_map"
  miner_rejected :: "u64 hash_map"
  miner_last_share :: "int hash_map"
  connected_workers :: "connected_worker hash_map"

definition tracker_new :: "nat \<Rightarrow> share_tracker" where
  "tracker_new ws =
     \<lparr>recent_shares = [], window_size = ws, found_blocks = [], balances = [],
      total_shares_accepted = 0, total_shares_rejected = 0, miner_accepted = [], miner_rejected = [],
      miner_last_share = [], connected_workers = []\<rparr>"

definition register_worker :: "int \<Rightarrow> string \<Rightarrow> string \<Rightarrow> string \<Rightarrow> u32 \<Rightarrow> share_tracker \<Rightarrow> share_tracker" where
  "register_worker now extranonce1 address worker diff t =
     t\<lparr>connected_workers := hm_insert extranonce1
        \<lparr>cw_address = address, cw_worker_name = worker, cw_difficulty = diff, cw_connected_at = now\<rparr>
        (connected_workers t)\<rparr>"

definition unregister_worker :: "string \<Rightarrow> share_tracker \<Rightarrow> share_tracker" where
  "unregister_worker extranonce1 t = t\<lparr>connected_workers := hm_remove extranonce1 (connected_workers t)\<rparr>"

text \<open>The \<open>while\<close> loop that pops shares from the front.\<close>

fun trim_window :: "nat \<Rightarrow> share list \<Rightarrow> share list" where
  "trim_window ws [] = []"
| "trim_window ws (s # ss) = (if length (s # ss) > ws then trim_window ws ss else s # ss)"

definition add_share :: "share \<Rightarrow> share_tracker \<Rightarrow> share_tracker" where
  "add_share s t =
     t\<lparr>total_shares_accepted := total_shares_accepted t + 1,
       miner_accepted := hm_count (sh_miner_address s) (miner_accepted t),
       miner_last_share := hm_insert (sh_miner_address s) (sh_timestamp s) (miner_last_share t),
       recent_shares := trim_window (window_size t) (recent_shares t @ [s])\<rparr>"

definition add_rejected :: "string \<Rightarrow> share_tracker \<Rightarrow> share_tracker" where
  "add_rejected miner_address t =
     t\<lparr>total_shares_rejected := total_shares_rejected t + 1,
       miner_rejected := hm_count miner_address (miner_rejected t)\<rparr>"

definition window_counts :: "share list \<Rightarrow> u64 hash_map" where
  "window_counts shares = fold (\<lambda>s m. hm_count (sh_miner_address s) m) shares []"

text \<open>The fee of the pool, an \<open>f64\<close> product truncated to 128 bits.\<close>

definition pool_fee :: "u256 \<Rightarrow> f64 \<Rightarrow> u256 option" where
  "pool_fee total_reward fraction =
     (if unat total_reward < 2 ^ 128
      then Some (of_nat (f64_to_u128 (f64_mul (f64_of_int (uint total_reward)) fraction)))
      else None)"

definition credit_balance :: "string \<Rightarrow> u256 \<Rightarrow> u256 hash_map \<Rightarrow> u256 hash_map" where
  "credit_balance addr c bal = hm_insert addr (sat_add (get_or 0 bal addr) c) bal"

definition credit_miner :: "u256 \<Rightarrow> u64 \<Rightarrow> string \<times> u64 \<Rightarrow> u256 hash_map \<times> (string \<times> u256) list
    \<Rightarrow> (u256 hash_map \<times> (string \<times> u256) list) option" where
  "credit_miner distributable total_in_window = (\<lambda>(addr, count) (bal, credits).
     Option.bind (u256_mul distributable (ucast count)) (\<lambda>p.
     Option.bind (u256_div p (ucast total_in_window)) (\<lambda>c.
     if c > 0 then Some (credit_balance addr c bal, credits @ [(addr, c)]) else Some (bal, credits))))"

definition distribute_pplns :: "u256_text \<Rightarrow> ((string \<times> u64) list \<Rightarrow> (string \<times> u64) list)
    \<Rightarrow> u256 \<Rightarrow> f64 \<Rightarrow> string \<Rightarrow> u64 \<Rightarrow> string \<Rightarrow> int \<Rightarrow> share_tracker
    \<Rightarrow> (share_tracker \<times> (string \<times> u256) list) option" where
  "distribute_pplns T ord total_reward pool_fee_fraction finder block_height hash now t =
     (if list_ex (\<lambda>b. fb_hash b = hash) (found_blocks t) then Some (t, [])
      else
        let window_len = length (recent_shares t); counts = window_counts (recent_shares t) in
        Option.bind (pool_fee total_reward pool_fee_fraction) (\<lambda>fee_amount.
        let distributable = sat_sub total_reward fee_amount;
            total_in_window = (of_nat window_len :: u64) in
        Option.bind
          (if total_in_window = 0
           then Some (credit_balance finder distributable (balances t), [(finder, distributable)])
           else fold (\<lambda>e acc. Option.bind acc (credit_miner distributable total_in_window e)) (ord counts)
                  (Some (balances t, [])))
          (\<lambda>(bal, credits).
            Some (t\<lparr>balances := bal, found_blocks := found_blocks t @
              [\<lparr>fb_height = block_height, fb_hash = hash, fb_timestamp = now,
                fb_reward = ''0x'' @ to_hex_str T total_reward, fb_finder = finder,
                fb_shares_in_window = window_len\<rparr>]\<rparr>, credits))))"

text \<open>
  \<open>values\<close> arranges the connected workers, \<open>ord\<close> the set of addresses. The worker shown for an
  address is the last one visited.
\<close>

definition miner_stats_of :: "u256_text \<Rightarrow> share_tracker \<Rightarrow> connected_worker hash_map \<Rightarrow> u64 hash_map \<Rightarrow> string \<Rightarrow> miner_stats" where
  "miner_stats_of T t connected_info counts addr =
     (let conn = hm_get connected_info addr in
      \<lparr>ms_address = addr,
       ms_worker_name = (case conn of None \<Rightarrow> '''' | Some w \<Rightarrow> cw_worker_name w),
       ms_difficulty = (case conn of None \<Rightarrow> 0 | Some w \<Rightarrow> cw_difficulty w),
       ms_shares_accepted = get_or 0 (miner_accepted t) addr,
       ms_shares_rejected = get_or 0 (miner_rejected t) addr,
       ms_shares_in_window = get_or 0 counts addr,
       ms_balance = ''0x'' @ to_hex_str T (get_or 0 (balances t) addr),
       ms_last_share_at = hm_get (miner_last_share t) addr,
       ms_connected = (conn \<noteq> None)\<rparr>)"

definition tracker_miner_stats :: "u256_text \<Rightarrow> (string list \<Rightarrow> string list)
    \<Rightarrow> (connected_worker list \<Rightarrow> connected_worker list) \<Rightarrow> share_tracker \<Rightarrow> miner_stats list" where
  "tracker_miner_stats T ord vals t =
     (let counts = window_counts (recent_shares t);
          workers = vals (map snd (connected_workers t));
          connected_info = fold (\<lambda>w m. hm_insert (cw_address w) w m) workers [];
          addresses = remdups (hm_keys (miner_accepted t) @ hm_keys (miner_rejected t) @ map cw_address workers)
      in map (miner_stats_of T t connected_info counts) (ord addresses))"

section \<open>The window\<close>

lemma trim_window_drop: "trim_window ws ss = drop (length ss - ws) ss"
  by (induction ws ss rule: trim_window.induct) (auto simp: Suc_diff_le)

lemma add_share_window: "recent_shares (add_share s t) = drop (Suc (length (recent_shares t)) - window_size t) (recent_shares t @ [s])"
  by (simp add: add_share_def trim_window_drop)

lemma add_share_size [simp]: "window_size (add_share s t) = window_size t"
  by (simp add: add_share_def)

lemma window_after_shares:
  "recent_shares (fold add_share ss (tracker_new ws)) = drop (length ss - ws) ss \<and>
   window_size (fold add_share ss (tracker_new ws)) = ws"
proof (induction ss rule: rev_induct)
  case (snoc s ss)
  show ?case
  proof (cases "length ss < ws")
    case True
    then show ?thesis using snoc by (simp add: add_share_window)
  next
    case False
    then have "drop (Suc (length ss) - ws) (ss @ [s]) = drop 1 (drop (length ss - ws) ss @ [s])"
      by (simp add: drop_drop[symmetric] Suc_diff_le del: drop_drop) (simp add: drop_Suc)
    then show ?thesis using snoc False by (simp add: add_share_window)
  qed
qed (simp add: tracker_new_def)

text \<open>
  The rolling window is a queue of bounded length: whatever shares arrive, it holds exactly the
  most recent ones, as many as the window has room for, in the order of their arrival.
\<close>

theorem window_is_last_shares:
  "recent_shares (fold add_share ss (tracker_new ws)) = drop (length ss - ws) ss"
  using window_after_shares by blast

section \<open>Counts\<close>

definition shares_of :: "share list \<Rightarrow> string \<Rightarrow> nat" where
  "shares_of ss a = length (filter (\<lambda>s. sh_miner_address s = a) ss)"

lemma window_counts_snoc: "window_counts (ss @ [s]) = hm_count (sh_miner_address s) (window_counts ss)"
  by (simp add: window_counts_def)

lemma window_counts_wf [simp]: "hm_wf (window_counts ss)"
  by (induction ss rule: rev_induct) (simp_all add: window_counts_snoc, simp add: window_counts_def)

lemma window_counts_get: "get_or 0 (window_counts ss) a = of_nat (shares_of ss a)"
proof (induction ss rule: rev_induct)
  case (snoc s ss)
  then show ?case by (cases "sh_miner_address s = a") (auto simp: window_counts_snoc shares_of_def)
qed (simp add: window_counts_def shares_of_def)

lemma window_counts_keys: "set (map fst (window_counts ss)) = sh_miner_address ` set ss"
proof (induction ss rule: rev_induct)
  case (snoc s ss)
  then show ?case
    using set_hm_insert[of "sh_miner_address s" _ "window_counts ss"] by (simp add: window_counts_snoc hm_count_def)
qed (simp add: window_counts_def)

lemma shares_of_le: "shares_of ss a \<le> length ss"
  by (simp add: shares_of_def)

lemma shares_of_total: "distinct as \<Longrightarrow> sh_miner_address ` set ss \<subseteq> set as \<Longrightarrow> sum_list (map (shares_of ss) as) = length ss"
proof (induction ss)
  case (Cons s ss)
  have 1: "shares_of (s # ss) = (\<lambda>a. shares_of ss a + (if a = sh_miner_address s then 1 else 0))"
    by (auto simp: shares_of_def fun_eq_iff)
  have "sum_list (map (\<lambda>a. if a = x then 1 else 0) as) = (1::nat)" if "x \<in> set as" for x
    using that Cons.prems(1) by (simp add: sum_list_distinct_conv_sum_set)
  then show ?case unfolding 1 using Cons by (simp add: sum_list_addf)
qed (simp add: shares_of_def)

lemma window_counts_entry:
  assumes "(a, c) \<in> set (window_counts ss)" "length ss < 2 ^ 64"
  shows "unat c = shares_of ss a"
proof -
  have "get_or 0 (window_counts ss) a = c" using assms(1) by (simp add: get_or_def hm_entry_iff)
  then have "c = of_nat (shares_of ss a)" by (simp add: window_counts_get)
  then show ?thesis using assms(2) shares_of_le[of ss a] by (simp add: unat_of_nat_eq)
qed

lemma window_counts_total:
  assumes "length ss < 2 ^ 64"
  shows "sum_list (map (\<lambda>e. unat (snd e)) (window_counts ss)) = length ss"
proof -
  have "map (\<lambda>e. unat (snd e)) (window_counts ss) = map (shares_of ss) (map fst (window_counts ss))"
    using window_counts_entry[OF _ assms] by auto
  then show ?thesis using shares_of_total[of "map fst (window_counts ss)" ss] window_counts_wf[of ss] window_counts_keys[of ss]
    by (simp only: hm_wf_def order_refl)
qed

section \<open>Distribution\<close>

definition pplns_credit :: "u256 \<Rightarrow> u64 \<Rightarrow> u64 \<Rightarrow> u256" where
  "pplns_credit d n c = of_nat (unat d * unat c div unat n)"

lemma len256: "LENGTH(256) = 256"
  by simp

lemma credit_miner_eq:
  assumes "credit_miner d n (a, c) (bal, cs) = Some (bal', cs')" "n \<noteq> 0"
  shows "unat (pplns_credit d n c) = unat d * unat c div unat n"
    and "bal' = (if pplns_credit d n c > 0 then credit_balance a (pplns_credit d n c) bal else bal)"
    and "cs' = cs @ filter (\<lambda>e. snd e > 0) [(a, pplns_credit d n c)]"
proof -
  obtain p where p: "u256_mul d (ucast c) = Some p" using assms(1) by (auto simp: credit_miner_def bind_eq_Some_conv)
  have u: "unat (ucast x :: u256) = unat x" for x :: u64
    using unat_u64_lt[of x] by (simp add: unsigned_ucast_eq take_bit_nat_eq_self)
  have lt: "unat d * unat c < 2 ^ 256" and up: "unat p = unat d * unat c"
    using p by (auto simp: u256_mul_def u unat_word_ariths split: if_splits)
  have "unat d * unat c div unat n \<le> unat d * unat c" by (rule div_le_dividend)
  with lt show q: "unat (pplns_credit d n c) = unat d * unat c div unat n"
    unfolding pplns_credit_def by (intro unat_of_nat_eq) (simp only: le_less_trans len256)
  have "(ucast n :: u256) \<noteq> 0" using assms(2) u[of n] by (metis unat_eq_0)
  moreover have "unat (p div ucast n) = unat d * unat c div unat n" by (simp add: unat_div up u)
  then have "p div ucast n = pplns_credit d n c" using q by (simp add: word_unat_eq_iff)
  ultimately have "u256_div p (ucast n) = Some (pplns_credit d n c)" by (simp add: u256_div_def)
  then show "bal' = (if pplns_credit d n c > 0 then credit_balance a (pplns_credit d n c) bal else bal)"
    "cs' = cs @ filter (\<lambda>e. snd e > 0) [(a, pplns_credit d n c)]"
    using assms(1) p by (auto simp: credit_miner_def split: if_splits)
qed

lemma credit_fold:
  assumes "fold (\<lambda>e acc. Option.bind acc (credit_miner d n e)) es (Some (bal, cs)) = Some (bal', cs')"
    and "distinct (map fst es)" "n \<noteq> 0"
  shows "cs' = cs @ filter (\<lambda>e. snd e > 0) (map (\<lambda>(a, c). (a, pplns_credit d n c)) es) \<and>
    (\<forall>(a, c)\<in>set es. unat (pplns_credit d n c) = unat d * unat c div unat n) \<and>
    (\<forall>a. get_or 0 bal' a = (case map_of es a of None \<Rightarrow> get_or 0 bal a
        | Some c \<Rightarrow> sat_add (get_or 0 bal a) (pplns_credit d n c)))"
  using assms
proof (induction es arbitrary: bal cs)
  case (Cons e es)
  obtain a c where e: "e = (a, c)" by (cases e)
  have none: "fold (\<lambda>e acc. Option.bind acc (credit_miner d n e)) xs None = None" for xs by (induction xs) auto
  obtain bal1 cs1 where 1: "credit_miner d n (a, c) (bal, cs) = Some (bal1, cs1)"
    using Cons.prems(1) none e by (cases "credit_miner d n (a, c) (bal, cs)") auto
  note c = credit_miner_eq[OF 1 Cons.prems(3)]
  have "fold (\<lambda>e acc. Option.bind acc (credit_miner d n e)) es (Some (bal1, cs1)) = Some (bal', cs')"
    using Cons.prems(1) 1 e by simp
  from Cons.IH[OF this] Cons.prems(2,3) e
  have IH: "cs' = cs1 @ filter (\<lambda>e. snd e > 0) (map (\<lambda>(a, c). (a, pplns_credit d n c)) es)"
    "\<forall>(a, c)\<in>set es. unat (pplns_credit d n c) = unat d * unat c div unat n"
    "\<And>x. get_or 0 bal' x = (case map_of es x of None \<Rightarrow> get_or 0 bal1 x
        | Some c \<Rightarrow> sat_add (get_or 0 bal1 x) (pplns_credit d n c))" and na: "map_of es a = None"
    by (auto simp: map_of_eq_None_iff)
  have z: "sat_add x 0 = x" for x by (simp add: word_unat_eq_iff unat_sat_add min_absorb1)
  have "get_or 0 bal1 x = (if x = a then sat_add (get_or 0 bal x) (pplns_credit d n c) else get_or 0 bal x)" for x
    using z by (auto simp: c(2) credit_balance_def word_gt_0 )
  then show ?case using IH c(1,3) na e by (auto split: option.splits)
qed simp

lemma sum_div_bounds:
  assumes "0 < (n::nat)"
  shows "n * (\<Sum>c\<leftarrow>cs. d * c div n) \<le> d * sum_list cs"
    and "d * sum_list cs + length cs \<le> n * (\<Sum>c\<leftarrow>cs. d * c div n) + n * length cs"
proof (induction cs)
  case (Cons c cs)
  case 1
  show ?case using Cons by (simp add: distrib_left add_mono)
next
  case (Cons c cs)
  case 2
  have "d * c + 1 \<le> n * (d * c div n) + n" using mod_less_divisor[OF assms, of "d * c"] div_mult_mod_eq[of "d * c" n]
    by (simp only: mult.commute[of n])
  then show ?case using Cons by (simp add: distrib_left)
qed simp_all

lemma sum_credits:
  "sum_list (map (unat \<circ> snd) (filter (\<lambda>e. snd e > 0) es)) = sum_list (map (unat \<circ> snd) (es :: (string \<times> u256) list))"
  by (induction es) (auto simp: word_gt_0)

lemma get_or_credits:
  assumes "hm_wf es"
  shows "get_or 0 (filter (\<lambda>e. snd e > 0) es) a = get_or (0::u256) es a"
proof -
  have "hm_get (filter (\<lambda>e. snd e > 0) es) a = (case hm_get es a of None \<Rightarrow> None | Some c \<Rightarrow> if c > 0 then Some c else None)"
    using assms by (induction es) (auto simp: hm_wf_def hm_get_def map_of_eq_None_iff split: option.splits)
  then show ?thesis by (auto simp: get_or_def word_gt_0 split: option.splits)
qed

lemma credit_total:
  assumes "arranges ord" "W \<noteq> []" "length W < 2 ^ 64"
  defines "S \<equiv> \<lambda>d. \<Sum>e\<leftarrow>ord (window_counts W). d * unat (snd e) div length W"
  shows "S d \<le> d" "d < S d + card (sh_miner_address ` set W)"
proof -
  let ?es = "ord (window_counts W)" and ?cs = "map (\<lambda>e. unat (snd e)) (ord (window_counts W))"
  have S: "S d = (\<Sum>c\<leftarrow>?cs. d * c div length W)" by (simp add: S_def comp_def)
  have tot: "sum_list ?cs = length W" using assms(1,3) by (simp add: arranges_sum window_counts_total)
  have lw: "0 < length W" using assms(2) by simp
  have "length W * S d \<le> length W * d"
    using sum_div_bounds(1)[OF lw, of d ?cs] unfolding S by (simp only: tot mult.commute)
  then show "S d \<le> d" using lw by simp
  have "length ?cs = length (map fst ?es)" by simp
  also have "\<dots> = card (set (map fst ?es))"
    using assms(1) window_counts_wf[of W] by (intro distinct_card[symmetric]) (simp add: hm_wf_def)
  also have "set (map fst ?es) = sh_miner_address ` set W" using assms(1) window_counts_keys[of W] by simp
  finally have len: "length ?cs = card (sh_miner_address ` set W)" .
  then have "0 < length ?cs" using assms(2) by (simp only: card_gt_0_iff) simp
  then have "length W * d < length W * (S d + length ?cs)"
    using sum_div_bounds(2)[OF lw, of d ?cs] unfolding S by (simp only: tot distrib_left mult.commute)
  then show "d < S d + card (sh_miner_address ` set W)" using lw len by simp
qed

text \<open>
  C26. A found block credits every miner of the window in proportion to its shares, rounded down:
  together the credits stay within the reward less the fee and miss it by less than one unit for
  each miner. Every balance grows by exactly its credit (or saturates), in whatever order the
  counts are visited, and the block is recorded.
\<close>

theorem pplns_proportional:
  assumes "distribute_pplns T ord R f finder h hash now t = Some (t', credits)"
    and "\<not> list_ex (\<lambda>b. fb_hash b = hash) (found_blocks t)" "arranges ord"
    and "recent_shares t \<noteq> []" "length (recent_shares t) < 2 ^ 64"
  shows "\<exists>fee. pool_fee R f = Some fee \<and>
    (\<forall>a. unat (get_or 0 credits a) =
       (unat R - unat fee) * shares_of (recent_shares t) a div length (recent_shares t)) \<and>
    (\<forall>a. get_or 0 (balances t') a = sat_add (get_or 0 (balances t) a) (get_or 0 credits a)) \<and>
    sum_list (map (unat \<circ> snd) credits) \<le> unat R - unat fee \<and>
    unat R - unat fee < sum_list (map (unat \<circ> snd) credits) + card (sh_miner_address ` set (recent_shares t)) \<and>
    map fb_hash (found_blocks t') = map fb_hash (found_blocks t) @ [hash]"
proof -
  let ?W = "recent_shares t" and ?n = "of_nat (length (recent_shares t)) :: u64"
  let ?es = "ord (window_counts ?W)"
  have n: "unat ?n = length ?W" using assms(5) by (simp add: unat_of_nat_eq)
  then have n0: "?n \<noteq> 0" using assms(4) by (metis length_0_conv unat_eq_0)
  obtain fee bal where fee: "pool_fee R f = Some fee" and
    1: "fold (\<lambda>e acc. Option.bind acc (credit_miner (sat_sub R fee) ?n e)) ?es (Some (balances t, [])) = Some (bal, credits)"
    and t': "balances t' = bal" "map fb_hash (found_blocks t') = map fb_hash (found_blocks t) @ [hash]"
    using assms(1,2) n0 by (auto simp: distribute_pplns_def bind_eq_Some_conv Let_def)
  let ?d = "sat_sub R fee"
  let ?q = "map (\<lambda>(a, c). (a, pplns_credit ?d ?n c)) ?es"
  have wf: "hm_wf ?es" using assms(3) by simp
  note F = credit_fold[OF 1 wf[unfolded hm_wf_def] n0]
  have "map fst ?q = map fst ?es" by auto
  then have wq: "hm_wf ?q" using wf by (simp only: hm_wf_def)
  have cr: "credits = filter (\<lambda>e. snd e > 0) ?q" using F by simp
  have entry: "unat c = shares_of ?W a" "unat (pplns_credit ?d ?n c) = unat ?d * shares_of ?W a div length ?W"
    if "(a, c) \<in> set ?es" for a c
    using that window_counts_entry[of a c ?W] assms(3,5) F n by auto
  have get: "hm_get ?es = hm_get (window_counts ?W)" using assms(3) by (rule hm_get_arranged) simp
  have none: "shares_of ?W a = 0" if "hm_get ?es a = None" for a
    using that window_counts_keys[of ?W] unfolding get
    by (auto simp: shares_of_def hm_get_def map_of_eq_None_iff filter_empty_conv)
  have hq: "hm_get ?q a = map_option (pplns_credit ?d ?n) (hm_get ?es a)" for a
    unfolding hm_get_def by (simp add: map_of_map)
  have credit: "get_or 0 credits a = (case hm_get ?es a of None \<Rightarrow> 0 | Some c \<Rightarrow> pplns_credit ?d ?n c)" for a
    unfolding cr get_or_credits[OF wq] by (simp add: get_or_def hq split: option.splits)
  have "unat (get_or 0 credits a) = (unat R - unat fee) * shares_of ?W a div length ?W" for a
    using none[of a] entry[of a] hm_entry_iff[OF wf, of a] by (auto simp: credit unat_sat_sub split: option.splits)
  moreover have "get_or 0 (balances t') a = sat_add (get_or 0 (balances t) a) (get_or 0 credits a)" for a
  proof -
    have "sat_add x 0 = x" for x by (simp add: word_unat_eq_iff unat_sat_add min_absorb1)
    then show ?thesis using F[THEN conjunct2, THEN conjunct2, rule_format, of a]
      unfolding credit t' hm_get_def by (simp split: option.splits)
  qed
  moreover
  have "sum_list (map (unat \<circ> snd) credits) = (\<Sum>e\<leftarrow>?es. unat ?d * unat (snd e) div length ?W)"
    unfolding cr sum_credits map_map
    by (intro arg_cong[where f = sum_list] map_cong) (use entry in \<open>auto simp: entry\<close>)
  with credit_total[OF assms(3-5), of "unat ?d"]
  have "sum_list (map (unat \<circ> snd) credits) \<le> unat R - unat fee"
    "unat R - unat fee < sum_list (map (unat \<circ> snd) credits) + card (sh_miner_address ` set ?W)"
    by (simp_all add: unat_sat_sub)
  ultimately show ?thesis using fee t'(2) by blast
qed

definition sample_share :: "string \<Rightarrow> share" where
  "sample_share a = \<lparr>sh_miner_address = a, sh_worker_name = ''w'', sh_difficulty = 1, sh_timestamp = 0, sh_job_id = ''j''\<rparr>"

definition sample_tracker :: share_tracker where
  "sample_tracker = fold add_share [sample_share ''a'', sample_share ''b'', sample_share ''a''] (tracker_new 10)"

lemma no_fee: "unat R < 2 ^ 128 \<Longrightarrow> pool_fee R (Fin 0) = Some 0"
proof -
  assume "unat R < 2 ^ 128"
  moreover have "f64_of_int n \<noteq> NaN" for n by (simp add: f64_of_int_def f64_round_def Let_def)
  then have "f64_to_u128 (f64_mul (f64_of_int n) (Fin 0)) = 0" for n
    by (cases "f64_of_int n") (simp_all add: f64_round_def)
  ultimately show ?thesis by (simp add: pool_fee_def)
qed

lemma sample_window:
  "recent_shares sample_tracker = [sample_share ''a'', sample_share ''b'', sample_share ''a'']"
  "balances sample_tracker = []" "found_blocks sample_tracker = []"
  by (simp_all add: sample_tracker_def add_share_def tracker_new_def)

lemma sample_distribution:
  "\<exists>t'. distribute_pplns ref_text (\<lambda>xs. xs) 1000 (Fin 0) ''f'' 7 ''h'' 0 sample_tracker =
     Some (t', [(''a'', 666), (''b'', 333)])"
proof -
  have "window_counts (recent_shares sample_tracker) = [(''a'', 2), (''b'', 1)]"
    by (simp add: sample_window window_counts_def sample_share_def hm_count_def get_or_def hm_get_def)
  moreover have "sat_sub 1000 (0::u256) = 1000" by (simp add: sat_sub_def)
  ultimately show ?thesis
    by (simp add: distribute_pplns_def no_fee Let_def sample_window credit_miner_def u256_mul_def u256_div_def word_gt_0)
qed

theorem pplns_proportional_witness:
  "\<exists>t'. distribute_pplns ref_text (\<lambda>xs. xs) 1000 (Fin 0) ''f'' 7 ''h'' 0 sample_tracker =
     Some (t', [(''a'', 666), (''b'', 333)]) \<and> get_or 0 (balances t') ''a'' = 666"
proof -
  obtain t' where t': "distribute_pplns ref_text (\<lambda>xs. xs) 1000 (Fin 0) ''f'' 7 ''h'' 0 sample_tracker =
     Some (t', [(''a'', 666), (''b'', 333)])" using sample_distribution by blast
  have "\<not> list_ex (\<lambda>b. fb_hash b = ''h'') (found_blocks sample_tracker)" "recent_shares sample_tracker \<noteq> []"
    "length (recent_shares sample_tracker) < 2 ^ 64" by (simp_all add: sample_window)
  from pplns_proportional[OF t' this(1) arranges_id this(2,3)]
  have "get_or 0 (balances t') ''a'' =
      sat_add (get_or 0 (balances sample_tracker) ''a'') (get_or 0 [(''a'', 666), (''b'', 333)] ''a'')" by blast
  then have "get_or 0 (balances t') ''a'' = sat_add (get_or 0 (balances sample_tracker) ''a'') 666"
    by (simp only: get_or_def hm_get_def map_of_Cons_code) simp
  with t' show ?thesis by (simp add: sample_window sat_add_def)
qed

text \<open>
  A block is paid once: distributing again for a block hash that was already processed changes
  nothing and credits nobody.
\<close>

theorem pplns_once:
  assumes "distribute_pplns T ord R f finder h hash now t = Some (t', credits)"
  shows "distribute_pplns T ord2 R2 f2 finder2 h2 hash now2 t' = Some (t', [])"
  using assms by (auto simp: distribute_pplns_def Let_def bind_eq_Some_conv split: if_splits)

theorem pplns_once_witness:
  "\<exists>t'. distribute_pplns ref_text (\<lambda>xs. xs) 1000 (Fin 0) ''f'' 7 ''h'' 0 sample_tracker =
     Some (t', [(''a'', 666), (''b'', 333)]) \<and>
    distribute_pplns ref_text (\<lambda>xs. xs) 5 (Fin 0) ''g'' 7 ''h'' 0 t' = Some (t', [])"
  using sample_distribution pplns_once by blast

section \<open>Invariant and statistics\<close>

definition tracker_inv :: "share_tracker \<Rightarrow> bool" where
  "tracker_inv t \<longleftrightarrow> hm_wf (balances t) \<and> hm_wf (miner_accepted t) \<and> hm_wf (miner_rejected t) \<and>
     hm_wf (connected_workers t) \<and> length (recent_shares t) \<le> window_size t \<and>
     sh_miner_address ` set (recent_shares t) \<subseteq> set (hm_keys (miner_accepted t)) \<and>
     distinct (map fb_hash (found_blocks t))"

lemma tracker_inv_new [simp]: "tracker_inv (tracker_new ws)"
  by (simp add: tracker_inv_def tracker_new_def)

lemma tracker_inv_add_share [simp]:
  assumes "tracker_inv t"
  shows "tracker_inv (add_share s t)"
proof -
  have "set (recent_shares (add_share s t)) \<subseteq> insert s (set (recent_shares t))"
    unfolding add_share_window using set_drop_subset by fastforce
  moreover have "hm_keys (miner_accepted (add_share s t)) = hm_keys (hm_count (sh_miner_address s) (miner_accepted t))"
    by (simp add: add_share_def)
  ultimately have "sh_miner_address ` set (recent_shares (add_share s t)) \<subseteq> set (hm_keys (miner_accepted (add_share s t)))"
    using assms by (auto simp: tracker_inv_def hm_count_def)
  moreover have "length (recent_shares (add_share s t)) \<le> window_size (add_share s t)"
    by (simp only: add_share_window add_share_size) simp
  ultimately show ?thesis using assms by (simp add: tracker_inv_def) (simp add: add_share_def)
qed

lemma tracker_inv_ops [simp]:
  "tracker_inv t \<Longrightarrow> tracker_inv (add_rejected a t)"
  "tracker_inv t \<Longrightarrow> tracker_inv (register_worker now e a w d t)"
  "tracker_inv t \<Longrightarrow> tracker_inv (unregister_worker e t)"
  "tracker_inv t \<Longrightarrow> tracker_inv (t\<lparr>balances := hm_remove a (balances t)\<rparr>)"
  by (simp_all add: tracker_inv_def add_rejected_def register_worker_def unregister_worker_def)

lemma credit_fold_wf:
  "fold (\<lambda>e acc. Option.bind acc (credit_miner d n e)) es (Some (bal, cs)) = Some (bal', cs') \<Longrightarrow> hm_wf bal \<Longrightarrow> hm_wf bal'"
proof (induction es arbitrary: bal cs)
  case (Cons e es)
  have none: "fold (\<lambda>e acc. Option.bind acc (credit_miner d n e)) xs None = None" for xs by (induction xs) auto
  obtain bal1 cs1 where 1: "credit_miner d n e (bal, cs) = Some (bal1, cs1)"
    using Cons.prems(1) none by (cases "credit_miner d n e (bal, cs)") auto
  then have "hm_wf bal1" using Cons.prems(2)
    by (auto simp: credit_miner_def bind_eq_Some_conv credit_balance_def split: prod.splits if_splits)
  then show ?case using Cons.IH Cons.prems(1) 1 by simp
qed simp

lemma tracker_inv_distribute:
  assumes "tracker_inv t" "distribute_pplns T ord R f finder h hash now t = Some (t', credits)"
  shows "tracker_inv t'"
proof (cases "list_ex (\<lambda>b. fb_hash b = hash) (found_blocks t)")
  case True
  then show ?thesis using assms by (simp add: distribute_pplns_def)
next
  case False
  then obtain bal cs fb where t': "t' = t\<lparr>balances := bal, found_blocks := found_blocks t @ [fb]\<rparr>" "fb_hash fb = hash" "hm_wf bal"
    using assms credit_fold_wf[of "sat_sub R _" _ "ord _" "balances t" "[]"]
    by (auto simp: distribute_pplns_def Let_def bind_eq_Some_conv credit_balance_def tracker_inv_def split: if_splits)
  then show ?thesis using assms(1) False by (auto simp: tracker_inv_def list_ex_iff)
qed

text \<open>
  The statistics name every known miner once, and their window counts add up to the window.
\<close>

theorem stats_cover_window:
  assumes "tracker_inv t" "arranges ord" "arranges vals" "length (recent_shares t) < 2 ^ 64"
  shows "distinct (map ms_address (tracker_miner_stats T ord vals t)) \<and>
    sum_list (map (unat \<circ> ms_shares_in_window) (tracker_miner_stats T ord vals t)) = length (recent_shares t)"
proof -
  let ?ws = "vals (map snd (connected_workers t))" and ?W = "recent_shares t"
  let ?as = "remdups (hm_keys (miner_accepted t) @ hm_keys (miner_rejected t) @ map cw_address ?ws)"
  have 1: "map ms_address (tracker_miner_stats T ord vals t) = ord ?as"
    by (simp add: tracker_miner_stats_def Let_def comp_def miner_stats_of_def)
  have c: "unat (of_nat (shares_of ?W a) :: u64) = shares_of ?W a" for a
    using assms(4) shares_of_le[of ?W a] by (intro unat_of_nat_eq) simp
  have "map (unat \<circ> ms_shares_in_window) (tracker_miner_stats T ord vals t) = map (shares_of ?W) (ord ?as)"
    by (simp add: tracker_miner_stats_def Let_def comp_def miner_stats_of_def window_counts_get c)
  moreover have "distinct (ord ?as)" using arranges_distinct[OF assms(2), of id ?as] by simp
  moreover have "sh_miner_address ` set ?W \<subseteq> set (ord ?as)" using assms(1,2) by (auto simp: tracker_inv_def)
  ultimately show ?thesis using shares_of_total[of "ord ?as" ?W] 1 by simp
qed

theorem stats_cover_window_witness:
  "sum_list (map (unat \<circ> ms_shares_in_window) (tracker_miner_stats ref_text (\<lambda>xs. xs) (\<lambda>xs. xs) sample_tracker)) = 3"
proof -
  have "tracker_inv sample_tracker" by (simp add: sample_tracker_def)
  from stats_cover_window[OF this, of "\<lambda>xs. xs" "\<lambda>xs. xs" ref_text] show ?thesis by (simp add: sample_window)
qed

end
