(* ===== verification/Payout.thy ===== *)
theory Payout
  imports Pool_Shares Json Tokenomics Sample_Chain
begin

text \<open>
  \<open>astram-stratum/src/payout.rs\<close>: the persistent balances of the pool and the transactions that pay
  them out. A record of the database is read as text. The node's answer to the query for unspent
  outputs is an argument. The clock is read once in each round of the fee loop: \<open>now k\<close> with \<open>k\<close>
  rounds to go. A panic of \<open>U256\<close> arithmetic is the error \<open>PayoutPanic\<close>.
\<close>

record pending_payout =
  pp_miner_addr :: string
  pp_amount :: u256
  pp_tx :: transaction

datatype payout_error = FetchFailed | NoUtxos | BalanceTooSmall | CannotCoverFee | NoFeeConvergence | PayoutPanic

section \<open>Persistent balances\<close>

definition bal_key :: "string \<Rightarrow> string" where
  "bal_key a = ''bal:'' @ a"

text \<open>\<open>seek(b"bal:")\<close> and the loop while the key has that prefix.\<close>

definition bal_entries :: "string db \<Rightarrow> (string \<times> string) list" where
  "bal_entries d = takeWhile (\<lambda>e. starts_with ''bal:'' (fst e)) (dropWhile (\<lambda>e. fst e < ''bal:'') (db_iterator d))"

definition save_all :: "u256_text \<Rightarrow> ((string \<times> u256) list \<Rightarrow> (string \<times> u256) list) \<Rightarrow> u256 hash_map
    \<Rightarrow> string db \<Rightarrow> string db" where
  "save_all T ord bals d =
     put_batch d (map (\<lambda>e. Delete (fst e)) (bal_entries d) @
       map (\<lambda>e. Put (bal_key (fst e)) (to_dec_str T (snd e))) (filter (\<lambda>e. snd e > 0) (ord bals)))"

definition load_entry :: "u256_text \<Rightarrow> string \<times> string \<Rightarrow> u256 hash_map \<Rightarrow> u256 hash_map" where
  "load_entry T = (\<lambda>(k, v) m.
     case strip_prefix ''bal:'' k of
       None \<Rightarrow> m
     | Some addr \<Rightarrow>
         (case from_dec_str T v of
            None \<Rightarrow> m
          | Some bal \<Rightarrow> if bal > 0 then hm_insert addr bal m else m))"

definition load_all :: "u256_text \<Rightarrow> string db \<Rightarrow> u256 hash_map" where
  "load_all T d = fold (load_entry T) (bal_entries d) []"

definition set_balance :: "u256_text \<Rightarrow> string \<Rightarrow> u256 \<Rightarrow> string db \<Rightarrow> string db" where
  "set_balance T address bal d =
     (if bal = 0 then db_delete (bal_key address) d else db_put (bal_key address) (to_dec_str T bal) d)"

section \<open>Spendable outputs\<close>

definition from_limbs :: "u64 list \<Rightarrow> u256" where
  "from_limbs p = of_nat (unat (p ! 0) + 2 ^ 64 * unat (p ! 1) + 2 ^ 128 * unat (p ! 2) + 2 ^ 192 * unat (p ! 3))"

definition limbs_of :: "json \<Rightarrow> u64 list option" where
  "limbs_of v =
     (case as_array v of
        None \<Rightarrow> None
      | Some arr \<Rightarrow> let p = List.map_filter as_u64 arr in if length p = 4 then Some p else None)"

definition parse_utxo_amount :: "u256_text \<Rightarrow> json \<Rightarrow> u256" where
  "parse_utxo_amount T u =
     (case limbs_of (json_index u ''amount_raw'') of
        Some p \<Rightarrow> from_limbs p
      | None \<Rightarrow>
     (case limbs_of (json_index u ''amount'') of
        Some p \<Rightarrow> from_limbs p
      | None \<Rightarrow>
     (case as_str_json (json_index u ''amount'') of
        Some s \<Rightarrow>
          (case strip_prefix ''0x'' s of
             Some h \<Rightarrow> (case from_hex_str T h of None \<Rightarrow> 0 | Some n \<Rightarrow> n)
           | None \<Rightarrow> (case from_dec_str T s of None \<Rightarrow> 0 | Some n \<Rightarrow> n))
      | None \<Rightarrow> 0)))"

type_synonym input_pool = "(transaction_input \<times> u256) list"

definition utxo_input :: "u256_text \<Rightarrow> string \<Rightarrow> json \<Rightarrow> (transaction_input \<times> u256) option" where
  "utxo_input T address u =
     (case as_str_json (json_index u ''txid'') of
        None \<Rightarrow> None
      | Some tid \<Rightarrow>
          let vout = (case as_u64 (json_index u ''vout'') of None \<Rightarrow> 0 | Some v \<Rightarrow> ucast v);
              amt = parse_utxo_amount T u
          in if amt > 0
             then Some (\<lparr>in_txid = tid, in_vout = vout, in_pubkey = address, in_signature = None\<rparr>, amt)
             else None)"

definition fetch_utxos :: "u256_text \<Rightarrow> string \<Rightarrow> json list option \<Rightarrow> (payout_error, input_pool) result" where
  "fetch_utxos T address response =
     bind_res (ok_or FetchFailed response) (\<lambda>utxos. Ok (List.map_filter (utxo_input T address) utxos))"

section \<open>Building a payout\<close>

text \<open>
  The selected inputs, their sum, and the part of the pool behind the cursor. \<open>gather goal\<close> is the
  \<open>while\<close> loop that moves the cursor until the sum reaches the goal or the pool is used up.
\<close>

type_synonym selection = "transaction_input list \<times> u256 \<times> input_pool"

fun gather :: "u256 \<Rightarrow> transaction_input list \<Rightarrow> u256 \<Rightarrow> input_pool \<Rightarrow> (payout_error, selection) result" where
  "gather goal sel isum [] = Ok (sel, isum, [])"
| "gather goal sel isum ((inp, amt) # rest) =
     (if isum < goal
      then bind_res (ok_or PayoutPanic (u256_add isum amt)) (\<lambda>isum'. gather goal (sel @ [inp]) isum' rest)
      else Ok (sel, isum, (inp, amt) # rest))"

definition payout_tx :: "'v prims \<Rightarrow> int \<Rightarrow> wallet_keypair \<Rightarrow> string \<Rightarrow> string \<Rightarrow> u256 \<Rightarrow> transaction_input list \<Rightarrow> u256 \<Rightarrow> transaction" where
  "payout_tx P now kp pool_address to amount sel change =
     with_hashes P (sign_tx P
       \<lparr>txid = '''', inputs = sel,
        outputs = \<lparr>out_to = to, out_amount = amount\<rparr> #
          (if change > 0 then [\<lparr>out_to = pool_address, out_amount = change\<rparr>] else []),
        tx_timestamp = now\<rparr> kp)"

fun fee_loop :: "'v prims \<Rightarrow> (nat \<Rightarrow> int) \<Rightarrow> wallet_keypair \<Rightarrow> string \<Rightarrow> string \<Rightarrow> u256 \<Rightarrow> nat \<Rightarrow> u256 \<Rightarrow> selection
    \<Rightarrow> (payout_error, transaction) result" where
  "fee_loop P now kp pool_address to amount 0 fee st = Err NoFeeConvergence"
| "fee_loop P now kp pool_address to amount (Suc k) fee (sel, isum, rest) =
     bind_res (ok_or PayoutPanic (u256_add amount fee)) (\<lambda>goal.
     bind_res (gather goal sel isum rest) (\<lambda>(sel, isum, rest).
     if isum < goal then Err CannotCoverFee
     else
       let change = isum - amount - fee;
           tx = payout_tx P (now k) kp pool_address to amount sel change;
           new_fee = calculate_default_fee (blob_len P (enc_tx P tx))
       in if new_fee \<le> fee then Ok tx
          else fee_loop P now kp pool_address to amount k new_fee (sel, isum, rest)))"

definition build_payout_tx :: "'v prims \<Rightarrow> (nat \<Rightarrow> int) \<Rightarrow> wallet_keypair \<Rightarrow> string \<Rightarrow> string \<Rightarrow> u256
    \<Rightarrow> (payout_error, input_pool) result \<Rightarrow> (payout_error, transaction) result" where
  "build_payout_tx P now kp pool_address to amount fetched =
     bind_res fetched (\<lambda>input_pool.
     if input_pool = [] then Err NoUtxos
     else bind_res (gather amount [] 0 input_pool) (\<lambda>(sel, isum, rest).
       if isum < amount then Err BalanceTooSmall
       else fee_loop P now kp pool_address to amount 16 0 (sel, isum, rest)))"

section \<open>The payout loop\<close>

definition payout_candidates :: "((string \<times> u256) list \<Rightarrow> (string \<times> u256) list) \<Rightarrow> string \<Rightarrow> u256 \<Rightarrow> share_tracker
    \<Rightarrow> (string \<times> u256) list" where
  "payout_candidates ord pool_address threshold t =
     filter (\<lambda>(addr, bal). bal \<ge> threshold \<and> addr \<noteq> pool_address) (ord (balances t))"

text \<open>\<open>fetched i\<close> is what the node answers when the transaction of candidate \<open>i\<close> is built.\<close>

definition payout_round :: "'v prims \<Rightarrow> (nat \<Rightarrow> nat \<Rightarrow> int) \<Rightarrow> wallet_keypair \<Rightarrow> string
    \<Rightarrow> ((string \<times> u256) list \<Rightarrow> (string \<times> u256) list) \<Rightarrow> u256
    \<Rightarrow> (nat \<Rightarrow> (payout_error, input_pool) result) \<Rightarrow> share_tracker \<Rightarrow> pending_payout list \<Rightarrow> pending_payout list" where
  "payout_round P now kp pool_address ord threshold fetched t pending =
     (let candidates = payout_candidates ord pool_address threshold t in
      if candidates = [] then pending
      else List.map_filter (\<lambda>(i, addr, amount).
        case build_payout_tx P (now i) kp pool_address addr amount (fetched i) of
          Ok tx \<Rightarrow> Some \<lparr>pp_miner_addr = addr, pp_amount = amount, pp_tx = tx\<rparr>
        | Err e \<Rightarrow> None) (enumerate 0 candidates))"

text \<open>One tick of \<open>run_balance_sync\<close>.\<close>

definition balance_sync :: "u256_text \<Rightarrow> ((string \<times> u256) list \<Rightarrow> (string \<times> u256) list) \<Rightarrow> share_tracker \<Rightarrow> string db \<Rightarrow> string db" where
  "balance_sync T ord t d = save_all T ord (balances t) d"

section \<open>Balances survive a restart\<close>

lemma prefix_le: "starts_with p x \<Longrightarrow> p \<le> (x :: string)"
proof (induction p arbitrary: x)
  case (Cons c p)
  then show ?case by (cases x) (auto simp: starts_with_def)
qed (simp add: starts_with_def)

lemma prefix_range: "p \<le> k \<Longrightarrow> \<not> starts_with p k \<Longrightarrow> starts_with p x \<Longrightarrow> x < (k :: string)"
proof (induction p arbitrary: k x)
  case (Cons c p)
  obtain x' where x: "x = c # x'" "starts_with p x'" using Cons.prems(3) by (cases x) (auto simp: starts_with_def)
  show ?case
  proof (cases k)
    case Nil
    then show ?thesis using Cons.prems(1) by simp
  next
    case (Cons c' k')
    then show ?thesis using Cons.prems Cons.IH[of k' x'] x by (auto simp: starts_with_def)
  qed
qed (simp add: starts_with_def)

lemma bal_entries_filter:
  assumes "db_wf d"
  shows "bal_entries d = filter (\<lambda>e. starts_with ''bal:'' (fst e)) d"
  using assms unfolding bal_entries_def db_iterator_def
proof (induction d)
  case (Cons e d)
  have lt: "\<forall>x\<in>set d. fst e < fst x" and wf: "db_wf d" using Cons.prems by (auto simp: db_wf_def)
  consider "fst e < ''bal:''" | "starts_with ''bal:'' (fst e)" | "''bal:'' \<le> fst e" "\<not> starts_with ''bal:'' (fst e)"
    by fastforce
  then show ?case
  proof cases
    case 1
    then have "\<not> starts_with ''bal:'' (fst e)" using prefix_le leD by blast
    then show ?thesis using 1 Cons.IH[OF wf] by simp
  next
    case 2
    have ge: "\<not> fst x < ''bal:''" if "x \<in> set d" for x
      using that lt prefix_le[OF 2] by (meson leD le_less_trans less_imp_le not_le)
    then have "dropWhile (\<lambda>e. fst e < ''bal:'') d = d" by (cases d) auto
    then show ?thesis using 2 Cons.IH[OF wf] prefix_le[OF 2] by (simp add: not_less)
  next
    case 3
    have "\<not> starts_with ''bal:'' (fst x)" if "x \<in> set d" for x
      using that lt prefix_range[OF 3] by (metis less_asym)
    then have "filter (\<lambda>e. starts_with ''bal:'' (fst e)) d = []" by (simp add: filter_empty_conv)
    then show ?thesis using 3 by (simp add: not_less[symmetric])
  qed
qed simp

lemma bal_key_prefix [simp]: "starts_with ''bal:'' (bal_key a)" "strip_prefix ''bal:'' (bal_key a) = Some a"
  unfolding bal_key_def by (rule starts_with_append, rule strip_prefix_append)

lemma bal_key_inj [simp]: "bal_key a = bal_key b \<longleftrightarrow> a = b"
  by (simp add: bal_key_def)

lemma bal_key_iff: "starts_with ''bal:'' k \<longleftrightarrow> (\<exists>a. k = bal_key a)"
  unfolding starts_with_def bal_key_def by (metis append_take_drop_id append_eq_conv_conj)

definition positive :: "u256 option \<Rightarrow> u256 option" where
  "positive b = (case b of None \<Rightarrow> None | Some n \<Rightarrow> if n > 0 then Some n else None)"

lemma load_fold:
  assumes "distinct (map fst es)" "\<forall>e\<in>set es. starts_with ''bal:'' (fst e)"
  shows "hm_get (fold (load_entry T) es m) a =
    (case positive (Option.bind (map_of es (bal_key a)) (from_dec_str T)) of None \<Rightarrow> hm_get m a | Some b \<Rightarrow> Some b)"
  using assms
proof (induction es arbitrary: m)
  case (Cons e es)
  obtain x v where e: "e = (bal_key x, v)" using Cons.prems(2) bal_key_iff by (cases e) auto
  have "map_of es (bal_key x) = None" using Cons.prems(1) e by (auto simp: map_of_eq_None_iff)
  then show ?case using Cons e
    by (cases "a = x") (auto simp: load_entry_def positive_def split: option.splits)
qed (simp add: positive_def)

lemma load_all_get:
  assumes "db_wf d"
  shows "hm_get (load_all T d) a = positive (Option.bind (db_get d (bal_key a)) (from_dec_str T))"
proof -
  let ?es = "filter (\<lambda>e. starts_with ''bal:'' (fst e)) d"
  have "distinct (map fst ?es)" using assms by (simp add: db_wf_distinct distinct_map_filter)
  moreover have "map_of ?es (bal_key a) = db_get d (bal_key a)"
    unfolding db_get_def by (induction d) auto
  ultimately show ?thesis
    unfolding load_all_def bal_entries_filter[OF assms]
    by (subst load_fold) (auto simp: positive_def split: option.splits)
qed

lemma batch_view_deletes: "batch_view (map (\<lambda>e. Delete (fst e)) es) m k = (if k \<in> fst ` set es then None else m k)"
  by (induction es arbitrary: m) auto

lemma batch_view_puts:
  "distinct (map fst es) \<Longrightarrow> batch_view (map (\<lambda>e. Put (bal_key (fst e)) (g (snd e))) es) m (bal_key a) =
     (case map_of es a of None \<Rightarrow> m (bal_key a) | Some b \<Rightarrow> Some (g b))"
proof (induction es arbitrary: m)
  case (Cons e es)
  obtain x b where e: "e = (x, b)" by (cases e)
  have "map_of es x = None" using Cons.prems e by (auto simp: map_of_eq_None_iff)
  then show ?case using Cons e by (cases "a = x") (simp_all split: option.splits)
qed simp

lemma map_of_positive:
  "distinct (map fst es) \<Longrightarrow> map_of (filter (\<lambda>e. snd e > 0) es) a = positive (map_of es a)"
proof (induction es)
  case (Cons e es)
  obtain x b where e: "e = (x, b)" by (cases e)
  have "map_of es x = None" using Cons.prems e by (auto simp: map_of_eq_None_iff)
  then show ?case using Cons e by (cases "a = x") (simp_all add: positive_def)
qed (simp add: positive_def)

lemma save_all_get:
  assumes "db_wf d" "hm_wf bals" "arranges ord"
  shows "db_get (save_all T ord bals d) (bal_key a) = map_option (to_dec_str T) (positive (hm_get bals a))"
proof -
  let ?es = "filter (\<lambda>e. snd e > 0) (ord bals)"
  have d: "distinct (map fst (ord bals))" using assms(2,3) by (simp add: hm_wf_def)
  then have "map_of ?es a = positive (map_of (ord bals) a)" by (rule map_of_positive)
  moreover have "map_of (ord bals) a = hm_get bals a" using hm_get_arranged[OF assms(3,2)] by (simp add: hm_get_def fun_eq_iff)
  moreover have "batch_view (map (\<lambda>e. Delete (fst e)) (bal_entries d)) (db_get d) (bal_key a) = None"
    unfolding batch_view_deletes bal_entries_filter[OF assms(1)]
    by (auto simp: db_get_def map_of_eq_None_iff image_iff)
  moreover have "distinct (map fst ?es)" using d by (simp add: distinct_map_filter)
  ultimately show ?thesis by (simp add: save_all_def batch_view_puts split: option.splits)
qed

text \<open>
  C27. The balances of the pool survive a restart: loading after saving gives every non-zero balance
  back and nothing else, whatever was stored before.
\<close>

theorem balances_persist:
  assumes "text_ok T" "db_wf d" "hm_wf bals" "arranges ord"
  shows "get_or 0 (load_all T (save_all T ord bals d)) a = get_or 0 bals a"
proof -
  have "db_wf (save_all T ord bals d)" using assms(2) by (simp add: save_all_def)
  moreover have "Option.bind (map_option (to_dec_str T) x) (from_dec_str T) = x" for x
    using assms(1) by (cases x) (simp_all add: text_ok_def)
  ultimately have "hm_get (load_all T (save_all T ord bals d)) a = positive (positive (hm_get bals a))"
    using assms by (simp add: load_all_get save_all_get)
  then show ?thesis by (auto simp: get_or_def positive_def word_gt_0 split: option.splits)
qed

theorem balances_persist_witness:
  "get_or 0 (load_all ref_text (save_all ref_text (\<lambda>xs. xs) [(''a'', 7), (''b'', 0)] [(''bal:c'', ''5'')])) ''a'' = 7 \<and>
   get_or 0 (load_all ref_text (save_all ref_text (\<lambda>xs. xs) [(''a'', 7), (''b'', 0)] [(''bal:c'', ''5'')])) ''c'' = 0"
  by (subst balances_persist, simp_all add: db_wf_def hm_wf_def)+ (simp_all add: get_or_def hm_get_def)

section \<open>Payout transactions\<close>

lemma gather_spec:
  "gather goal sel s pool = Ok (sel', s', rest) \<Longrightarrow>
   \<exists>n\<le>length pool. sel' = sel @ map fst (take n pool) \<and> rest = drop n pool \<and>
     unat s' = unat s + sum_list (map (unat \<circ> snd) (take n pool)) \<and> (s < goal \<longrightarrow> pool \<noteq> [] \<longrightarrow> 0 < n)"
proof (induction goal sel s pool rule: gather.induct)
  case (2 goal sel s inp amt rest0)
  show ?case
  proof (cases "s < goal")
    case True
    then obtain t where t: "unat t = unat s + unat amt" "gather goal (sel @ [inp]) t rest0 = Ok (sel', s', rest)"
      using 2(2) by (auto simp: res_simps u256_simps)
    obtain n where "n \<le> length rest0" "sel' = (sel @ [inp]) @ map fst (take n rest0)" "rest = drop n rest0"
      "unat s' = unat t + sum_list (map (unat \<circ> snd) (take n rest0))"
      using 2(1)[OF True t(2)] by blast
    then show ?thesis using t(1) by (intro exI[of _ "Suc n"]) (simp add: comp_def)
  next
    case False
    then show ?thesis using 2(2) by (intro exI[of _ 0]) auto
  qed
qed auto

text \<open>What the loops know of the selection.\<close>

definition selects :: "input_pool \<Rightarrow> nat \<Rightarrow> transaction_input list \<Rightarrow> u256 \<Rightarrow> input_pool \<Rightarrow> bool" where
  "selects pool n sel s rest \<longleftrightarrow> n \<le> length pool \<and> sel = map fst (take n pool) \<and> rest = drop n pool \<and>
     unat s = sum_list (map (unat \<circ> snd) (take n pool))"

lemma gather_selects:
  assumes "gather goal sel s rest = Ok (sel', s', rest')" "selects pool n sel s rest"
  shows "\<exists>m\<ge>n. selects pool m sel' s' rest'"
proof -
  obtain k where k: "k \<le> length rest" "sel' = sel @ map fst (take k rest)" "rest' = drop k rest"
    "unat s' = unat s + sum_list (map (unat \<circ> snd) (take k rest))" using gather_spec[OF assms(1)] by blast
  have "take (n + k) pool = take n pool @ take k rest" using assms(2) by (simp add: selects_def take_add)
  then have "selects pool (n + k) sel' s' rest'" using k assms(2) by (auto simp: selects_def add.commute)
  then show ?thesis by (intro exI[of _ "n + k"]) simp
qed

definition pays :: "'v prims \<Rightarrow> wallet_keypair \<Rightarrow> string \<Rightarrow> string \<Rightarrow> u256 \<Rightarrow> input_pool \<Rightarrow> nat \<Rightarrow> transaction \<Rightarrow> bool" where
  "pays P kp pool_address to amount pool n tx \<longleftrightarrow>
     (\<exists>t change fee. tx = payout_tx P t kp pool_address to amount (map fst (take n pool)) change \<and>
        sum_list (map (unat \<circ> snd) (take n pool)) = unat amount + unat change + unat fee \<and>
        unat amount + unat change + unat fee < 2 ^ 256 \<and> calculate_default_fee (blob_len P (enc_tx P tx)) \<le> fee)"

lemma fee_loop_pays:
  "fee_loop P now kp pa to amount k fee (sel, s, rest) = Ok tx \<Longrightarrow> selects pool n sel s rest \<Longrightarrow>
   \<exists>m\<ge>n. m \<le> length pool \<and> pays P kp pa to amount pool m tx"
proof (induction k arbitrary: fee sel s rest n)
  case (Suc k)
  obtain goal sel' s' rest' where 1: "unat goal = unat amount + unat fee" "gather goal sel s rest = Ok (sel', s', rest')"
    "\<not> s' < goal"
    "(let change = s' - amount - fee; tx' = payout_tx P (now k) kp pa to amount sel' change;
           new_fee = calculate_default_fee (blob_len P (enc_tx P tx'))
       in if new_fee \<le> fee then Ok tx' else fee_loop P now kp pa to amount k new_fee (sel', s', rest')) = Ok tx"
    using Suc.prems(1) by (auto simp: res_simps u256_simps split: if_splits)
  obtain m where m: "m \<ge> n" "selects pool m sel' s' rest'" using gather_selects[OF 1(2) Suc.prems(2)] by blast
  show ?case
  proof (cases "tx = payout_tx P (now k) kp pa to amount sel' (s' - amount - fee) \<and>
      calculate_default_fee (blob_len P (enc_tx P tx)) \<le> fee")
    case True
    have le: "unat amount + unat fee \<le> unat s'" using 1(1,3) by (simp add: word_less_nat_alt)
    have "unat (s' - amount) = unat s' - unat amount" using le by (intro unat_sub) (simp add: word_le_nat_alt)
    moreover from this have "unat (s' - amount - fee) = unat (s' - amount) - unat fee"
      using le by (intro unat_sub) (simp add: word_le_nat_alt)
    ultimately have "unat s' = unat amount + unat (s' - amount - fee) + unat fee" using le by simp
    then have "pays P kp pa to amount pool m tx" using True m(2) unat_u256_lt[of s'] unfolding pays_def selects_def by metis
    then show ?thesis using m by (auto simp: selects_def)
  next
    case False
    then obtain f where "fee_loop P now kp pa to amount k f (sel', s', rest') = Ok tx"
      using 1(4) by (auto simp: Let_def split: if_splits)
    from Suc.IH[OF this m(2)] show ?thesis using m(1) le_trans by blast
  qed
qed simp

lemma build_pays:
  assumes "build_payout_tx P now kp pa to amount (Ok pool) = Ok tx" "0 < amount"
  shows "\<exists>m>0. m \<le> length pool \<and> pays P kp pa to amount pool m tx"
proof -
  obtain sel s rest where 1: "pool \<noteq> []" "gather amount [] 0 pool = Ok (sel, s, rest)"
    "fee_loop P now kp pa to amount 16 0 (sel, s, rest) = Ok tx"
    using assms(1) by (auto simp: build_payout_tx_def res_simps split: if_splits)
  obtain n where n: "selects pool n sel s rest" "0 < n"
    using gather_spec[OF 1(2)] 1(1) assms(2) by (auto simp: selects_def)
  show ?thesis using fee_loop_pays[OF 1(3) n(1)] n(2) by (meson less_le_trans)
qed

definition outpoint :: "transaction_input \<Rightarrow> string \<times> u32" where
  "outpoint i = (in_txid i, in_vout i)"

lemma payout_tx_simps [simp]:
  "map outpoint (inputs (payout_tx P t kp pa to amount sel change)) = map outpoint sel"
  "outputs (payout_tx P t kp pa to amount sel change) = \<lparr>out_to = to, out_amount = amount\<rparr> #
     (if change > 0 then [\<lparr>out_to = pa, out_amount = change\<rparr>] else [])"
  by (simp_all add: payout_tx_def with_hashes_def sign_tx_def Let_def comp_def outpoint_def)

lemma payout_tx_signed:
  assumes "ed25519_ok P" "hex_ok P" "keypair_wf P kp"
  shows "verify_signatures P (payout_tx P t kp pa to amount sel change) = Ok True"
proof -
  have "verify_signatures P (with_hashes P x) = verify_signatures P x" for x
    by (simp add: verify_signatures_def with_hashes_def serialize_for_hash_def)
  then show ?thesis using verify_signed[OF assms] by (simp add: payout_tx_def)
qed

text \<open>
  C28. A payout transaction is signed, spends outputs of the pool's wallet in the order the node lists
  them, pays the miner the full amount, and what it spends is what it pays plus a fee that covers
  the default fee of its own size: it loses nothing.
\<close>

theorem payout_tx_balanced:
  assumes "ed25519_ok P" "hex_ok P" "keypair_wf P kp" "0 < amount"
    and "build_payout_tx P now kp pa to amount (Ok pool) = Ok tx"
  shows "verify_signatures P tx = Ok True \<and> hd (outputs tx) = \<lparr>out_to = to, out_amount = amount\<rparr> \<and>
    (\<exists>n fee. map outpoint (inputs tx) = map (outpoint \<circ> fst) (take n pool) \<and>
      sum_list (map (unat \<circ> snd) (take n pool)) = sum_list (map (unat \<circ> out_amount) (outputs tx)) + unat fee \<and>
      calculate_default_fee (blob_len P (enc_tx P tx)) \<le> fee)"
proof -
  obtain n t change fee where
    1: "tx = payout_tx P t kp pa to amount (map fst (take n pool)) change"
    "sum_list (map (unat \<circ> snd) (take n pool)) = unat amount + unat change + unat fee"
    "calculate_default_fee (blob_len P (enc_tx P tx)) \<le> fee"
    using build_pays[OF assms(5,4)] by (auto simp: pays_def)
  have "sum_list (map (unat \<circ> out_amount) (outputs tx)) = unat amount + unat change"
    by (auto simp: 1(1) word_gt_0)
  moreover have "map outpoint (inputs tx) = map (outpoint \<circ> fst) (take n pool)"
    by (simp add: 1(1))
  ultimately have "map outpoint (inputs tx) = map (outpoint \<circ> fst) (take n pool) \<and>
      sum_list (map (unat \<circ> snd) (take n pool)) = sum_list (map (unat \<circ> out_amount) (outputs tx)) + unat fee"
    using 1(2) by simp
  then show ?thesis using 1(1,3) payout_tx_signed[OF assms(1-3)] by fastforce
qed

text \<open>
  The payouts of one round are built independently from the same list of unspent outputs, so any
  two of them spend the same first output: a block that carries both contains a double spend.
\<close>

theorem payouts_conflict:
  assumes "build_payout_tx P now1 kp pa to1 amount1 (Ok pool) = Ok tx1" "0 < amount1"
    and "build_payout_tx P now2 kp pa to2 amount2 (Ok pool) = Ok tx2" "0 < amount2"
  shows "outpoint (hd (inputs tx1)) = outpoint (hd (inputs tx2))"
proof -
  have first: "outpoint (hd (inputs tx)) = outpoint (fst (hd pool))"
    if b: "build_payout_tx P now kp pa to amount (Ok pool) = Ok tx" "0 < amount" for now to amount tx
  proof -
    obtain n t change where "0 < n" "n \<le> length pool"
      "tx = payout_tx P t kp pa to amount (map fst (take n pool)) change"
      using build_pays[OF b] by (auto simp: pays_def)
    then have "map outpoint (inputs tx) = map outpoint (map fst (take n pool))"
      "take n pool \<noteq> []" "hd (take n pool) = hd pool" by (auto simp: hd_take)
    then show ?thesis by (metis hd_map map_is_Nil_conv)
  qed
  show ?thesis using first[OF assms(1,2)] first[OF assms(3,4)] by simp
qed

definition payout_pool :: input_pool where
  "payout_pool = [(\<lparr>in_txid = ''aa'', in_vout = 0, in_pubkey = '''', in_signature = None\<rparr>, 1000000000000000000)]"

lemma sample_payout: "\<exists>tx. build_payout_tx ref_prims (\<lambda>_. 0) sample_key ''pool'' to 1000 (Ok payout_pool) = Ok tx"
proof -
  have "calculate_default_fee (Suc 0) = 100300000000000"
    by (simp add: calculate_default_fee_def BASE_MIN_FEE_def DEFAULT_WALLET_FEE_NAT_PER_BYTE_def)
  then have "\<exists>tx. fee_loop ref_prims (\<lambda>_. 0) sample_key ''pool'' to 1000 (Suc (Suc k)) 0
      ([fst (hd payout_pool)], 1000000000000000000, []) = Ok tx" for k
    by (simp add: u256_add_def ref_selectors Let_def)
  from this[of 14] show ?thesis
    by (simp add: build_payout_tx_def payout_pool_def u256_add_def del: fee_loop.simps)
qed

theorem payout_tx_balanced_witness:
  "\<exists>tx. build_payout_tx ref_prims (\<lambda>_. 0) sample_key ''pool'' ''x'' 1000 (Ok payout_pool) = Ok tx \<and>
    verify_signatures ref_prims tx = Ok True"
proof -
  obtain tx where tx: "build_payout_tx ref_prims (\<lambda>_. 0) sample_key ''pool'' ''x'' 1000 (Ok payout_pool) = Ok tx"
    using sample_payout by blast
  from payout_tx_balanced[OF ref_prims_ok(4,3) sample_key_wf _ tx] tx show ?thesis by auto
qed

theorem payouts_conflict_witness:
  "\<exists>tx1 tx2. build_payout_tx ref_prims (\<lambda>_. 0) sample_key ''pool'' ''x'' 1000 (Ok payout_pool) = Ok tx1 \<and>
    build_payout_tx ref_prims (\<lambda>_. 0) sample_key ''pool'' ''y'' 1000 (Ok payout_pool) = Ok tx2 \<and>
    outpoint (hd (inputs tx1)) = outpoint (hd (inputs tx2))"
proof -
  obtain tx1 tx2 where tx: "build_payout_tx ref_prims (\<lambda>_. 0) sample_key ''pool'' ''x'' 1000 (Ok payout_pool) = Ok tx1"
    "build_payout_tx ref_prims (\<lambda>_. 0) sample_key ''pool'' ''y'' 1000 (Ok payout_pool) = Ok tx2"
    using sample_payout by blast
  from payouts_conflict[OF tx(1) _ tx(2)] tx show ?thesis by auto
qed

end
