(* ===== verification/Share_Validation.thy ===== *)
theory Share_Validation
  imports Dag Sample_Chain
begin

text \<open>
  \<open>astram-stratum/src/share_validator.rs\<close>: how the mining pool judges a submitted nonce. A share
  must begin with as many zero digits as the worker's pool difficulty; it is a block if its value
  is below the network target, which is the test of the node. The first theorem says that the two
  tests agree, the second that a difficulty of at most \<open>initial_pool_difficulty\<close> never makes the
  pool refuse a block.
\<close>

datatype share_error = InvalidHashHex | BadHashLength nat | DegenerateTarget u32 | HashTooHigh string u32

datatype share_result =
    AcceptedShare string
  | FoundBlock string
  | Rejected string

definition compact_bits_to_u256 :: "u32 \<Rightarrow> u256" where
  "compact_bits_to_u256 bits =
     (let exponent = drop_bit 24 bits; mantissa = bits AND 0x007fffff
      in if mantissa = 0 then 0
         else if exponent \<le> 3 then ucast (drop_bit (8 * (3 - unat exponent)) mantissa)
         else push_bit (8 * (unat exponent - 3)) (ucast mantissa))"

definition hash_hex_to_u256 :: "'v prims \<Rightarrow> string \<Rightarrow> (share_error, u256) result" where
  "hash_hex_to_u256 P hash_hex =
     bind_res (ok_or InvalidHashHex (hex_decode P hash_hex)) (\<lambda>bs.
     if length bs \<noteq> 32 then Err (BadHashLength (length bs)) else Ok (from_big_endian bs))"

definition reject_reason :: "string \<Rightarrow> u32 \<Rightarrow> string" where
  "reject_reason hash pool_diff =
     ''hash '' @ take 8 hash @ '' does not meet pool difficulty '' @ show_nat (unat pool_diff) @
     '' (need '' @ show_nat (unat pool_diff) @ '' leading zeros)''"

definition validate_share :: "'v prims \<Rightarrow> block_header \<Rightarrow> u32 \<Rightarrow> u32 \<Rightarrow> (share_error, share_result) result" where
  "validate_share P h pool_diff block_compact =
     (let hash = compute_header_hash P h;
          pool_prefix = replicate (unat pool_diff) CHR ''0''
      in if \<not> starts_with pool_prefix hash then Ok (Rejected (reject_reason hash pool_diff))
         else
           let block_target = compact_bits_to_u256 block_compact in
           if block_target = 0 then Ok (AcceptedShare hash)
           else bind_res (hash_hex_to_u256 P hash) (\<lambda>hash_value.
             if hash_value < block_target then Ok (FoundBlock hash) else Ok (AcceptedShare hash)))"

definition pool_diff_to_target :: "u32 \<Rightarrow> string" where
  "pool_diff_to_target pool_diff =
     (let zeros = unat (min pool_diff 64); rest = 64 - zeros
      in replicate zeros CHR ''0'' @ replicate rest CHR ''f'')"

fun leading_zero_nibbles :: "bytes \<Rightarrow> u32" where
  "leading_zero_nibbles [] = 0"
| "leading_zero_nibbles (byte # bs) =
     (if byte = 0 then 2 + leading_zero_nibbles bs
      else if drop_bit 4 byte = 0 then 1 else 0)"

definition initial_pool_difficulty :: "u32 \<Rightarrow> u32" where
  "initial_pool_difficulty block_compact =
     (let network_target = compact_bits_to_u256 block_compact in
      if network_target = 0 then 1
      else max (sat_sub (leading_zero_nibbles (to_big_endian network_target)) 1) 1)"

definition validate_full_block :: "'v prims \<Rightarrow> block_header \<Rightarrow> u32 \<Rightarrow> (share_error, string) result" where
  "validate_full_block P h block_compact =
     (let hash = compute_header_hash P h; block_target = compact_bits_to_u256 block_compact in
      if block_target = 0 then Err (DegenerateTarget block_compact)
      else bind_res (hash_hex_to_u256 P hash) (\<lambda>hash_value.
        if hash_value \<ge> block_target then Err (HashTooHigh (take 8 hash) block_compact) else Ok hash))"

section \<open>Leading zeros and values\<close>

lemma compact_bits_to_u256_eq: "compact_bits_to_u256 = compact_to_target"
  by (simp add: fun_eq_iff compact_bits_to_u256_def compact_to_target_def)

lemma hex_digit_zero: "n < 16 \<Longrightarrow> CHR ''0'' = hex_digit n \<longleftrightarrow> n = 0"
  using hex_val_digit[of n] hex_val_digit[of 0] by (force simp: hex_digit_def)

lemma power_16_even: "(16::nat) ^ (2 * k) = 256 ^ k"
  by (simp add: power_mult)

text \<open>A hexadecimal text begins with \<open>n\<close> zero digits iff its value is below the matching power.\<close>

lemma zero_prefix_iff:
  "n \<le> 2 * length bs \<Longrightarrow>
   starts_with (replicate n CHR ''0'') (hex_of bs) \<longleftrightarrow> be_value bs < 16 ^ (2 * length bs - n)"
proof (induction bs arbitrary: n)
  case (Cons b bs)
  let ?u = "unat b" and ?p = "(256::nat) ^ length bs"
  have lt: "be_value bs < ?p" "?u < 256" by (simp_all add: be_value_lt unat_u8_lt)
  have hi: "CHR ''0'' = hex_digit (?u div 16) \<longleftrightarrow> ?u < 16"
    and lo: "CHR ''0'' = hex_digit (?u mod 16) \<longleftrightarrow> ?u mod 16 = 0"
    using byte_nibbles[of b] by (auto simp: hex_digit_zero)
  have ge: "?u * ?p + be_value bs < k * ?p \<longleftrightarrow> ?u < k" for k
  proof
    assume "?u < k"
    then have "Suc ?u * ?p \<le> k * ?p" using mult_le_mono1 Suc_leI by blast
    then show "?u * ?p + be_value bs < k * ?p" using lt(1) by simp
  next
    assume "?u * ?p + be_value bs < k * ?p"
    then have "?u * ?p < k * ?p" by linarith
    then show "?u < k" by (simp only: mult_less_cancel2)
  qed
  consider "n = 0" | "n = 1" | m where "n = Suc (Suc m)" by (metis One_nat_def not0_implies_Suc)
  then show ?case
  proof cases
    case 1
    then show ?thesis using be_value_lt[of "b # bs"] power_16_even[of "length (b # bs)"] by simp
  next
    case 2
    have "(16::nat) ^ (2 * length (b # bs) - n) = 16 * ?p"
      using 2 power_16_even[of "length bs"] by simp
    then show ?thesis using 2 ge[of 16] hi by (simp add: starts_with_Cons be_value_Cons)
  next
    case (3 m)
    have "be_value (b # bs) < 16 ^ (2 * length bs - m) \<longleftrightarrow> ?u = 0 \<and> be_value bs < 16 ^ (2 * length bs - m)"
    proof -
      have "(16::nat) ^ (2 * length bs - m) \<le> ?p"
        using power_increasing[of "2 * length bs - m" "2 * length bs" "16::nat"] power_16_even[of "length bs"] by simp
      then have "be_value (b # bs) < 16 ^ (2 * length bs - m) \<Longrightarrow> ?u * ?p + be_value bs < 1 * ?p"
        by (simp add: be_value_Cons)
      then have "be_value (b # bs) < 16 ^ (2 * length bs - m) \<Longrightarrow> ?u = 0" using ge[of 1] by blast
      then show ?thesis by (auto simp: be_value_Cons)
    qed
    moreover have "?u < 16 \<and> ?u mod 16 = 0 \<longleftrightarrow> ?u = 0" by auto
    ultimately show ?thesis using Cons.IH[of m] Cons.prems 3 hi lo
      by (auto simp: starts_with_Cons)
  qed
qed simp

lemma drop_bit_4_zero: "drop_bit 4 (b::u8) = 0 \<longleftrightarrow> unat b < 16"
proof -
  have "unat (drop_bit 4 b) = unat b div 16" by (subst unat_drop_bit_eq) (simp add: drop_bit_eq_div)
  then show ?thesis by (metis div_eq_0_iff unat_0 word_unat_eq_iff zero_neq_numeral)
qed

lemma leading_zero_nibbles_le:
  "length bs \<le> 32 \<Longrightarrow> unat (leading_zero_nibbles bs) \<le> 2 * length bs"
proof (induction bs)
  case (Cons b bs)
  then have l: "unat (leading_zero_nibbles bs) \<le> 2 * length bs" "length bs \<le> 31" by simp_all
  then have "unat (2 + leading_zero_nibbles bs) = 2 + unat (leading_zero_nibbles bs)"
    by (subst unat_add_lem[THEN iffD1]) simp_all
  then show ?case using l by simp
qed simp

lemma leading_zero_nibbles_bound:
  "length bs \<le> 32 \<Longrightarrow> be_value bs < 16 ^ (2 * length bs - unat (leading_zero_nibbles bs))"
proof (induction bs)
  case (Cons b bs)
  have l: "unat (leading_zero_nibbles bs) \<le> 2 * length bs" "length bs \<le> 31"
    using leading_zero_nibbles_le[of bs] Cons.prems by simp_all
  then have z: "unat (2 + leading_zero_nibbles bs) = 2 + unat (leading_zero_nibbles bs)"
    by (subst unat_add_lem[THEN iffD1]) simp_all
  have "starts_with (replicate 1 CHR ''0'') (hex_of (b # bs))" if "unat b < 16"
    using that hex_digit_zero[of 0] by (simp add: starts_with_Cons)
  then show ?case
    using Cons z zero_prefix_iff[of 1 "b # bs"] be_value_lt[of "b # bs"] power_16_even[of "Suc (length bs)"]
    by (auto simp: drop_bit_4_zero be_value_Cons)
qed simp

lemma header_hash_bytes:
  assumes "digest_ok P" "hex_ok P"
  obtains bs where "length bs = 32" "compute_header_hash P h = hex_of bs"
    "hash_hex_to_u256 P (compute_header_hash P h) = Ok (from_big_endian bs)"
    "\<And>bits. is_valid_pow P (compute_header_hash P h) bits =
       Ok (compact_to_target bits \<noteq> 0 \<and> from_big_endian bs < compact_to_target bits)"
proof -
  define bs where "bs = blake3 P (enc_header P h)"
  have 1: "length bs = 32" "compute_header_hash P h = hex_of bs"
    using assms by (simp_all add: bs_def compute_header_hash_def to_hex_def blake3_hash_def serialize_header_def)
  show thesis
    using that[OF 1] 1 assms strip_0x_hex[of bs]
    by (simp add: hash_hex_to_u256_def is_valid_pow_def hash_to_u256_def Let_def)
qed

section \<open>Verdicts\<close>

definition share_header :: block_header where
  "share_header = \<lparr>index = 1, previous_hash = [], merkle_root = [], timestamp = 0, nonce = 0,
     difficulty = POW_LIMIT_BITS\<rparr>"

lemma share_verdict_found:
  assumes "digest_ok P" "hex_ok P"
  shows "validate_share P h pool_diff bits = Ok (FoundBlock (compute_header_hash P h)) \<longleftrightarrow>
      starts_with (replicate (unat pool_diff) CHR ''0'') (compute_header_hash P h) \<and>
      is_valid_pow P (compute_header_hash P h) bits = Ok True"
    and "\<exists>r. validate_share P h pool_diff bits = Ok r"
    and "validate_full_block P h bits = Ok (compute_header_hash P h) \<longleftrightarrow>
      is_valid_pow P (compute_header_hash P h) bits = Ok True"
proof -
  obtain bs where bs: "hash_hex_to_u256 P (compute_header_hash P h) = Ok (from_big_endian bs)"
    "\<And>bits. is_valid_pow P (compute_header_hash P h) bits =
       Ok (compact_to_target bits \<noteq> 0 \<and> from_big_endian bs < compact_to_target bits)"
    using header_hash_bytes[OF assms, of h] by metis
  show "validate_share P h pool_diff bits = Ok (FoundBlock (compute_header_hash P h)) \<longleftrightarrow>
      starts_with (replicate (unat pool_diff) CHR ''0'') (compute_header_hash P h) \<and>
      is_valid_pow P (compute_header_hash P h) bits = Ok True"
    "\<exists>r. validate_share P h pool_diff bits = Ok r"
    "validate_full_block P h bits = Ok (compute_header_hash P h) \<longleftrightarrow>
      is_valid_pow P (compute_header_hash P h) bits = Ok True"
    by (auto simp: validate_share_def validate_full_block_def Let_def compact_bits_to_u256_eq bs)
qed

text \<open>
  The verdict on a share is total, and it is a block exactly if it meets the pool difficulty and
  the node's own proof-of-work test accepts its hash. The check of the \<open>submitblock\<close> path accepts
  the same hashes.
\<close>

theorem share_verdict:
  assumes "digest_ok P" "hex_ok P"
  shows "(\<exists>r. validate_share P h pool_diff bits = Ok r) \<and>
    (validate_share P h pool_diff bits = Ok (FoundBlock (compute_header_hash P h)) \<longleftrightarrow>
      starts_with (replicate (unat pool_diff) CHR ''0'') (compute_header_hash P h) \<and>
      is_valid_pow P (compute_header_hash P h) bits = Ok True) \<and>
    (validate_full_block P h bits = Ok (compute_header_hash P h) \<longleftrightarrow>
      is_valid_pow P (compute_header_hash P h) bits = Ok True)"
  using share_verdict_found[OF assms] by simp

theorem share_verdict_witness:
  "\<exists>r. validate_share ref_prims share_header 3 POW_LIMIT_BITS = Ok r"
  using share_verdict[of ref_prims] by simp

lemma within_pow_limit_nibbles:
  assumes "compact_to_target bits \<le> pow_limit_target"
  shows "1 \<le> unat (leading_zero_nibbles (to_big_endian (compact_to_target bits)))"
proof -
  let ?t = "compact_to_target bits"
  obtain b bs where b: "to_big_endian ?t = b # bs" "length bs = 31"
    using length_to_big_endian[of ?t] by (cases "to_big_endian ?t") auto
  have "unat pow_limit_target < 256 ^ 31"
    by (simp add: pow_limit_target_def unat_compact_to_target POW_LIMIT_BITS_def compact_value_def)
  then have "unat ?t < 256 ^ 31" using assms word_le_nat_alt by (metis le_less_trans)
  then have "unat b * 256 ^ 31 + be_value bs < 256 ^ 31"
    using be_value_to_big_endian[of ?t] b by (simp add: be_value_Cons)
  then have "unat b = 0" by (cases "unat b") simp_all
  then have "leading_zero_nibbles (to_big_endian ?t) = 2 + leading_zero_nibbles bs"
    using b by (simp add: unat_eq_0)
  moreover have "unat (2 + leading_zero_nibbles bs) = 2 + unat (leading_zero_nibbles bs)"
    using leading_zero_nibbles_le[of bs] b(2) by (subst unat_add_lem[THEN iffD1]) simp_all
  ultimately show ?thesis by simp
qed

lemma initial_difficulty_le_nibbles:
  assumes "compact_to_target bits \<le> pow_limit_target" "compact_to_target bits \<noteq> 0"
  shows "unat (initial_pool_difficulty bits) \<le> unat (leading_zero_nibbles (to_big_endian (compact_to_target bits)))"
  using within_pow_limit_nibbles[OF assms(1)] assms(2)
  by (auto simp: initial_pool_difficulty_def compact_bits_to_u256_eq Let_def max_def unat_sat_sub)

lemma valid_block_found:
  assumes "digest_ok P" "hex_ok P"
    and "compact_to_target bits \<le> pow_limit_target" "pool_diff \<le> initial_pool_difficulty bits"
    and "is_valid_pow P (compute_header_hash P h) bits = Ok True"
  shows "validate_share P h pool_diff bits = Ok (FoundBlock (compute_header_hash P h))"
proof -
  let ?t = "compact_to_target bits"
  obtain bs where bs: "length bs = 32" "compute_header_hash P h = hex_of bs"
    "is_valid_pow P (compute_header_hash P h) bits = Ok (?t \<noteq> 0 \<and> from_big_endian bs < ?t)"
    using header_hash_bytes[OF assms(1,2), of h] by metis
  let ?n = "unat (leading_zero_nibbles (to_big_endian ?t))"
  have lt: "be_value bs < unat ?t" and nz: "?t \<noteq> 0"
    using bs assms(5) by (simp_all add: word_less_nat_alt unat_from_big_endian)
  have n: "unat pool_diff \<le> ?n"
    using initial_difficulty_le_nibbles[OF assms(3) nz] assms(4) by (simp add: word_le_nat_alt)
  have "unat ?t < 16 ^ (64 - ?n)"
    using leading_zero_nibbles_bound[of "to_big_endian ?t"] by (simp add: be_value_to_big_endian)
  also have "\<dots> \<le> 16 ^ (64 - unat pool_diff)" using n by (intro power_increasing) simp_all
  finally have "be_value bs < 16 ^ (64 - unat pool_diff)" using lt by simp
  then have "starts_with (replicate (unat pool_diff) CHR ''0'') (compute_header_hash P h)"
    using zero_prefix_iff[of "unat pool_diff" bs] n leading_zero_nibbles_le[of "to_big_endian ?t"] bs(1,2) by simp
  then show ?thesis using share_verdict_found[OF assms(1,2)] assms(5) by blast
qed

text \<open>
  With any target the network allows, a worker whose pool difficulty is at most
  \<open>initial_pool_difficulty\<close> never has a block refused: every hash the node would accept is a
  \<open>FoundBlock\<close>.
\<close>

theorem no_block_refused:
  assumes "digest_ok P" "hex_ok P"
    and "compact_to_target bits \<le> pow_limit_target" "pool_diff \<le> initial_pool_difficulty bits"
    and "is_valid_pow P (compute_header_hash P h) bits = Ok True"
  shows "validate_share P h pool_diff bits = Ok (FoundBlock (compute_header_hash P h))"
  using assms by (rule valid_block_found)

lemma share_header_pow: "is_valid_pow ref_prims (compute_header_hash ref_prims share_header) POW_LIMIT_BITS = Ok True"
  using sample_pow[of 1]
  by (simp add: share_header_def compute_header_hash_def to_hex_def blake3_hash_def serialize_header_def
      ref_prims_def)

theorem no_block_refused_witness:
  "validate_share ref_prims share_header 1 POW_LIMIT_BITS = Ok (FoundBlock (compute_header_hash ref_prims share_header))"
proof -
  have "1 \<le> initial_pool_difficulty POW_LIMIT_BITS"
    by (simp add: initial_pool_difficulty_def Let_def le_max_iff_disj)
  then show ?thesis
    using no_block_refused[of ref_prims POW_LIMIT_BITS 1 share_header] share_header_pow
    by (simp add: pow_limit_target_def)
qed

end
