(* ===== verification/Pool_Session.thy ===== *)
theory Pool_Session
  imports Float64 Text_Bytes
begin

text \<open>
  \<open>astram-stratum/src/session.rs\<close> and \<open>vardiff.rs\<close>: the state of a miner's connection and the
  adjustment of its pool difficulty. The clock is an argument. Counters are \<open>u64\<close> and the
  difficulty is \<open>u32\<close>; adding one to the largest \<open>u32\<close> panics in a debug build and wraps in a
  release build, here it wraps (the theorems about the adjustment exclude it by the upper limit).
\<close>

record miner_session =
  s_worker_name :: string
  s_miner_address :: string
  s_extranonce1 :: string
  s_difficulty :: u32
  s_shares_accepted :: u64
  s_shares_rejected :: u64
  s_connected_at :: int
  s_last_share_at :: "int option"
  s_share_timestamps :: "int list"

definition session_new :: "int \<Rightarrow> string \<Rightarrow> u32 \<Rightarrow> miner_session" where
  "session_new now extranonce1 initial_difficulty =
     \<lparr>s_worker_name = '''', s_miner_address = '''', s_extranonce1 = extranonce1,
      s_difficulty = initial_difficulty, s_shares_accepted = 0, s_shares_rejected = 0,
      s_connected_at = now, s_last_share_at = None, s_share_timestamps = []\<rparr>"

text \<open>\<open>login.find('.')\<close> splits at the first dot.\<close>

definition authorize :: "string \<Rightarrow> miner_session \<Rightarrow> miner_session" where
  "authorize login s =
     (if CHR ''.'' \<in> set login
      then s\<lparr>s_miner_address := takeWhile (\<lambda>c. c \<noteq> CHR ''.'') login,
             s_worker_name := tl (dropWhile (\<lambda>c. c \<noteq> CHR ''.'') login)\<rparr>
      else s\<lparr>s_miner_address := login, s_worker_name := ''default''\<rparr>)"

definition record_accepted_share :: "int \<Rightarrow> miner_session \<Rightarrow> miner_session" where
  "record_accepted_share now s =
     (let ts = s_share_timestamps s @ [now]
      in s\<lparr>s_shares_accepted := s_shares_accepted s + 1, s_last_share_at := Some now,
           s_share_timestamps := (if length ts > 64 then tl ts else ts)\<rparr>)"

definition record_rejected_share :: "miner_session \<Rightarrow> miner_session" where
  "record_rejected_share s = s\<lparr>s_shares_rejected := s_shares_rejected s + 1\<rparr>"

definition avg_share_time :: "miner_session \<Rightarrow> f64 option" where
  "avg_share_time s =
     (let ts = s_share_timestamps s in
      if length ts < 2 then None
      else Some (f64_div (f64_of_int (last ts - hd ts)) (f64_of_int (int (length ts - 1)))))"

definition is_authorized :: "miner_session \<Rightarrow> bool" where
  "is_authorized s \<longleftrightarrow> s_miner_address s \<noteq> ''''"

section \<open>Variable difficulty\<close>

record var_diff_config =
  min_diff :: u32
  max_diff :: u32
  target_share_time :: f64
  variance_percent :: f64
  min_samples :: nat

definition var_diff_default :: var_diff_config where
  "var_diff_default =
     \<lparr>min_diff = 1, max_diff = 32, target_share_time = Fin 15, variance_percent = Fin (1 / 2), min_samples = 5\<rparr>"

text \<open>The branch taken while there are too few samples.\<close>

definition vardiff_idle :: "int \<Rightarrow> miner_session \<Rightarrow> var_diff_config \<Rightarrow> u32 option" where
  "vardiff_idle now s cfg =
     (let ts = s_share_timestamps s;
          reference = (if ts = [] then s_connected_at s else last ts);
          elapsed = f64_of_int (now - reference)
      in if f64_lt (f64_mul (target_share_time cfg) (Fin 2)) elapsed
         then let new_diff = max (sat_sub (s_difficulty s) 1) (min_diff cfg)
              in if new_diff \<noteq> s_difficulty s then Some new_diff else None
         else None)"

definition vardiff_shares :: "miner_session \<Rightarrow> var_diff_config \<Rightarrow> u32 option" where
  "vardiff_shares s cfg =
     Option.bind (avg_share_time s) (\<lambda>avg.
       let low = f64_mul (target_share_time cfg) (variance_percent cfg);
           high = f64_div (target_share_time cfg) (variance_percent cfg)
       in if f64_le low avg \<and> f64_le avg high then None
          else let new_diff = (if f64_lt avg low then min (s_difficulty s + 1) (max_diff cfg)
                               else max (sat_sub (s_difficulty s) 1) (min_diff cfg))
               in if new_diff = s_difficulty s then None else Some new_diff)"

definition check_vardiff :: "int \<Rightarrow> miner_session \<Rightarrow> var_diff_config \<Rightarrow> u32 option" where
  "check_vardiff now s cfg =
     (if length (s_share_timestamps s) < min_samples cfg then vardiff_idle now s cfg
      else vardiff_shares s cfg)"

section \<open>Sessions\<close>

text \<open>Every operation on a session keeps at most 64 timestamps, the last of which is the last share.\<close>

definition session_inv :: "miner_session \<Rightarrow> bool" where
  "session_inv s \<longleftrightarrow> length (s_share_timestamps s) \<le> 64 \<and>
     s_last_share_at s = (if s_share_timestamps s = [] then None else Some (last (s_share_timestamps s)))"

lemma session_inv_new [simp]: "session_inv (session_new now e d)"
  by (simp add: session_inv_def session_new_def)

lemma session_inv_ops [simp]:
  "session_inv s \<Longrightarrow> session_inv (authorize login s)"
  "session_inv s \<Longrightarrow> session_inv (record_accepted_share now s)"
  "session_inv s \<Longrightarrow> session_inv (record_rejected_share s)"
  "session_inv s \<Longrightarrow> session_inv (s\<lparr>s_difficulty := d\<rparr>)"
  by (auto simp: session_inv_def authorize_def record_accepted_share_def record_rejected_share_def Let_def
      last_tl dest: arg_cong[where f = length])

lemma authorize_split:
  assumes "CHR ''.'' \<notin> set addr"
  shows "s_miner_address (authorize (addr @ ''.'' @ worker) s) = addr \<and>
    s_worker_name (authorize (addr @ ''.'' @ worker) s) = worker"
  using assms by (auto simp: authorize_def takeWhile_append dropWhile_append)

section \<open>Adjustments\<close>

lemma lower_diff:
  assumes "mn \<le> d" "max (sat_sub d 1) mn \<noteq> d"
  shows "unat (max (sat_sub d 1) mn) + 1 = unat d" "mn \<le> max (sat_sub d 1) mn"
  using assms unat_sat_sub[of d 1]
  by (auto simp: max_def word_le_nat_alt unat_eq_0 word_unat_eq_iff split: if_splits)

lemma raise_diff:
  assumes "d \<le> mx" "min (d + 1) mx \<noteq> d" "mx \<noteq> - 1"
  shows "unat (min (d + 1) mx) = unat d + 1" "min (d + 1) mx \<le> (mx::u32)"
proof -
  have p: "unat (x + 1) = unat x + 1" if "x \<noteq> - 1" for x :: u32
    using that by (metis Suc_eq_plus1 add.commute add_eq_0_iff2 unatSuc)
  have d: "d \<noteq> - 1" using assms(1,3) by (metis word_order.extremum_uniqueI)
  have "d \<noteq> mx" using p[OF assms(3)] assms(2) by (auto simp: min_def word_le_nat_alt)
  then have "d + 1 \<le> mx" using assms(1) p[OF d] by (simp add: word_le_nat_alt word_unat_eq_iff)
  then show "unat (min (d + 1) mx) = unat d + 1" "min (d + 1) mx \<le> mx" using p[OF d] by (simp_all add: min_def)
qed

text \<open>
  An adjustment moves the difficulty by exactly one and keeps it between the configured limits.
\<close>

theorem vardiff_step:
  assumes "check_vardiff now s cfg = Some d"
    and "min_diff cfg \<le> s_difficulty s" "s_difficulty s \<le> max_diff cfg" "max_diff cfg \<noteq> - 1"
  shows "min_diff cfg \<le> d \<and> d \<le> max_diff cfg \<and>
    (unat d = unat (s_difficulty s) + 1 \<or> unat d + 1 = unat (s_difficulty s))"
proof -
  let ?d = "s_difficulty s"
  have lower: "d = max (sat_sub ?d 1) (min_diff cfg) \<and> d \<noteq> ?d \<or> d = min (?d + 1) (max_diff cfg) \<and> d \<noteq> ?d"
    using assms(1)
    by (auto simp: check_vardiff_def vardiff_idle_def vardiff_shares_def Let_def bind_eq_Some_conv split: if_splits)
  then show ?thesis
  proof
    assume d: "d = max (sat_sub ?d 1) (min_diff cfg) \<and> d \<noteq> ?d"
    then have "unat d + 1 = unat ?d" "min_diff cfg \<le> d" using lower_diff[OF assms(2)] by auto
    then show ?thesis using assms(3) by (auto simp: word_le_nat_alt)
  next
    assume d: "d = min (?d + 1) (max_diff cfg) \<and> d \<noteq> ?d"
    then have "unat d = unat ?d + 1" "d \<le> max_diff cfg" using raise_diff[OF assms(3) _ assms(4)] by auto
    then show ?thesis using assms(2) by (auto simp: word_le_nat_alt)
  qed
qed

definition idle_session :: miner_session where
  "idle_session = session_new 0 [] 3"

lemma idle_vardiff: "f64_lt (f64_mul (target_share_time var_diff_default) (Fin 2)) (f64_of_int 100)"
proof -
  have "f64_mul (target_share_time var_diff_default) (Fin 2) = Fin 30"
    using f64_round_exact[of 30 0] by (simp add: var_diff_default_def)
  then show ?thesis by (simp add: f64_of_int_exact f64_lt_def)
qed

lemma idle_session_lowered: "check_vardiff 100 idle_session var_diff_default = Some 2"
  using idle_vardiff
  by (simp add: check_vardiff_def idle_session_def session_new_def vardiff_idle_def Let_def)
    (simp add: var_diff_default_def sat_sub_def max_def word_le_nat_alt)

theorem vardiff_step_witness:
  "check_vardiff 100 idle_session var_diff_default = Some 2 \<and> min_diff var_diff_default \<le> 2"
  using idle_session_lowered vardiff_step[OF idle_session_lowered]
  by (simp add: idle_session_def session_new_def var_diff_default_def)

text \<open>What the handler does with the verdict.\<close>

definition apply_vardiff :: "int \<Rightarrow> var_diff_config \<Rightarrow> miner_session \<Rightarrow> miner_session" where
  "apply_vardiff now cfg s = (case check_vardiff now s cfg of None \<Rightarrow> s | Some d \<Rightarrow> s\<lparr>s_difficulty := d\<rparr>)"

lemma apply_vardiff_session_inv [simp]: "session_inv s \<Longrightarrow> session_inv (apply_vardiff now cfg s)"
  by (simp add: apply_vardiff_def split: option.splits)

definition idle :: "int \<Rightarrow> var_diff_config \<Rightarrow> miner_session \<Rightarrow> bool" where
  "idle now cfg s \<longleftrightarrow> length (s_share_timestamps s) < min_samples cfg \<and>
     f64_lt (f64_mul (target_share_time cfg) (Fin 2))
       (f64_of_int (now - (if s_share_timestamps s = [] then s_connected_at s else last (s_share_timestamps s))))"

lemma idle_difficulty [simp]: "idle now cfg (s\<lparr>s_difficulty := d\<rparr>) = idle now cfg s"
  by (simp add: idle_def)

lemma apply_idle:
  assumes "idle now cfg s"
  shows "apply_vardiff now cfg s = s\<lparr>s_difficulty := max (sat_sub (s_difficulty s) 1) (min_diff cfg)\<rparr>"
  using assms by (simp add: apply_vardiff_def check_vardiff_def vardiff_idle_def idle_def Let_def)

text \<open>
  A miner that finds no share comes down to the smallest difficulty: after \<open>n\<close> checks of an
  idle session its difficulty is lower by \<open>n\<close>, or the configured minimum.
\<close>

theorem idle_miner_reaches_minimum:
  assumes "idle now cfg s" "min_diff cfg \<le> s_difficulty s"
  shows "unat (s_difficulty ((apply_vardiff now cfg ^^ n) s)) = max (unat (s_difficulty s) - n) (unat (min_diff cfg))"
proof -
  let ?f = "apply_vardiff now cfg"
  have "idle now cfg ((?f ^^ n) s) \<and>
    unat (s_difficulty ((?f ^^ n) s)) = max (unat (s_difficulty s) - n) (unat (min_diff cfg))"
  proof (induction n)
    case 0
    then show ?case using assms by (simp add: word_le_nat_alt)
  next
    case (Suc n)
    have "unat (max a b) = max (unat a) (unat b)" for a b :: u32 by (simp add: max_def word_le_nat_alt)
    then have "unat (s_difficulty ((?f ^^ Suc n) s)) = max (unat (s_difficulty s) - Suc n) (unat (min_diff cfg))"
      using Suc by (auto simp: apply_idle unat_sat_sub max_def)
    moreover have "idle now cfg ((?f ^^ Suc n) s)" using Suc by (simp add: apply_idle)
    ultimately show ?case by blast
  qed
  then show ?thesis by blast
qed

theorem idle_miner_reaches_minimum_witness:
  "unat (s_difficulty ((apply_vardiff 100 var_diff_default ^^ 5) idle_session)) = 1"
proof -
  have "idle 100 var_diff_default idle_session"
    using idle_vardiff by (simp add: idle_def idle_session_def session_new_def) (simp add: var_diff_default_def)
  from idle_miner_reaches_minimum[OF this, of 5] show ?thesis
    by (simp add: idle_session_def session_new_def var_diff_default_def)
qed

end
