(* ===== verification/Pool_Template.thy ===== *)
theory Pool_Template
  imports Payout Share_Validation Pool_Session
begin

text \<open>
  The first half of \<open>astram-stratum/src/main.rs\<close>: the pool's configuration, what it reads from the
  node, and the mining templates it hands to its workers. The answers of the node's HTTP interface
  are arguments: the parsed JSON of \<open>/status\<close>, and for \<open>/mempool\<close> the transactions that the
  base64 and \<open>bincode\<close> decoders give, with the text of the fees (\<^const>\<open>None\<close>: the request failed).
\<close>

section \<open>Configuration and node answers\<close>

record pool_config =
  pool_address :: string
  pool_fee_percent :: f64
  vardiff :: var_diff_config

record mempool_snapshot =
  ms_txs :: "transaction list"
  ms_total_fees :: u256

record chain_status =
  cs_height :: u64
  cs_difficulty :: u32
  cs_next_difficulty :: u32
  cs_tip_hash :: string

definition member_u64 :: "json option \<Rightarrow> string \<Rightarrow> u64 option" where
  "member_u64 v k = Option.bind (Option.bind v (json_get k)) as_u64"

definition or_else :: "'a option \<Rightarrow> 'a option \<Rightarrow> 'a option" where
  "or_else x y = (case x of None \<Rightarrow> y | Some a \<Rightarrow> Some a)"

definition unwrap_or :: "'a \<Rightarrow> 'a option \<Rightarrow> 'a" where
  "unwrap_or d x = (case x of None \<Rightarrow> d | Some a \<Rightarrow> a)"

definition read_status :: "json \<Rightarrow> chain_status" where
  "read_status value =
     (let bc = json_get ''blockchain'' value;
          height = unwrap_or 0 (or_else (member_u64 bc ''height'') (member_u64 (Some value) ''height''));
          diff = ucast (unwrap_or 1 (member_u64 bc ''difficulty''));
          next_diff = ucast (unwrap_or (ucast diff) (member_u64 bc ''next_difficulty''));
          tip = unwrap_or ''none'' (Option.bind (Option.bind bc (json_get ''chain_tip'')) as_str_json)
      in \<lparr>cs_height = height, cs_difficulty = diff, cs_next_difficulty = next_diff, cs_tip_hash = tip\<rparr>)"

definition fetch_status :: "json option \<Rightarrow> chain_status option" where
  "fetch_status response = map_option read_status response"

definition parse_u256 :: "u256_text \<Rightarrow> string \<Rightarrow> u256 option" where
  "parse_u256 T value =
     (case strip_prefix ''0x'' value of Some h \<Rightarrow> from_hex_str T h | None \<Rightarrow> from_dec_str T value)"

definition fetch_mempool :: "u256_text \<Rightarrow> (transaction list \<times> string) option \<Rightarrow> mempool_snapshot option" where
  "fetch_mempool T response =
     map_option (\<lambda>(txs, fees). \<lparr>ms_txs = txs, ms_total_fees = unwrap_or 0 (parse_u256 T fees)\<rparr>) response"

section \<open>Templates\<close>

record mining_template =
  mt_job_id :: string
  mt_height :: u64
  mt_prev_hash :: string
  mt_difficulty :: u32
  mt_pool_diff :: u32
  mt_timestamp :: int
  mt_merkle_root :: string
  mt_transactions :: "transaction list"
  mt_coinbase_value :: u256

record node_answers =
  na_status :: "json option"
  na_mempool :: "(transaction list \<times> string) option"

definition build_template :: "'v prims \<Rightarrow> u256_text \<Rightarrow> int \<Rightarrow> node_answers \<Rightarrow> string \<Rightarrow> string \<Rightarrow> pending_payout list
    \<Rightarrow> mining_template option" where
  "build_template P T now ans address job_id pending =
     Option.bind (fetch_status (na_status ans)) (\<lambda>status.
     let height = cs_height status + 1;
         prev_hash = (if cs_tip_hash status = ''none'' then replicate 64 CHR ''0'' else cs_tip_hash status);
         base_reward = calculate_block_reward height;
         payout_txs = map pp_tx pending;
         mempool_txs = (case fetch_mempool T (na_mempool ans) of Some snapshot \<Rightarrow> ms_txs snapshot | None \<Rightarrow> []);
         coinbase_value = base_reward;
         cb = with_hashes P (coinbase P now address coinbase_value);
         all_txs = [cb] @ payout_txs @ mempool_txs;
         root = compute_merkle_root P (map txid all_txs);
         block_difficulty = cs_next_difficulty status
     in Some \<lparr>mt_job_id = job_id, mt_height = height, mt_prev_hash = prev_hash, mt_difficulty = block_difficulty,
          mt_pool_diff = initial_pool_difficulty block_difficulty, mt_timestamp = now, mt_merkle_root = root,
          mt_transactions = all_txs, mt_coinbase_value = coinbase_value\<rparr>)"

definition build_header_for_nonce :: "mining_template \<Rightarrow> u64 \<Rightarrow> block_header" where
  "build_header_for_nonce t n =
     \<lparr>index = mt_height t, previous_hash = mt_prev_hash t, merkle_root = mt_merkle_root t,
      timestamp = mt_timestamp t, nonce = n, difficulty = mt_difficulty t\<rparr>"

definition compute_header_hash_str :: "'v prims \<Rightarrow> mining_template \<Rightarrow> u64 \<Rightarrow> string" where
  "compute_header_hash_str P t n = compute_header_hash P (build_header_for_nonce t n)"

text \<open>The block the handler submits for a nonce.\<close>

definition template_block :: "'v prims \<Rightarrow> mining_template \<Rightarrow> u64 \<Rightarrow> block" where
  "template_block P t n =
     \<lparr>header = build_header_for_nonce t n, transactions = mt_transactions t, block_hash = compute_header_hash_str P t n\<rparr>"

definition build_notify :: "mining_template \<Rightarrow> json" where
  "build_notify t =
     JObj [(''id'', JNull), (''method'', JStr ''mining.notify''),
       (''params'', JArr [JStr (mt_job_id t), JInt (uint (mt_height t)), JStr (mt_prev_hash t),
          JStr (mt_merkle_root t), JInt (mt_timestamp t), JInt (uint (mt_difficulty t)),
          JStr (pool_diff_to_target (mt_pool_diff t))])]"

section \<open>Nonces\<close>

text \<open>
  \<open>u64::from_str_radix\<close>: an optional plus sign, then at least one digit; an error on any other
  character and on overflow.
\<close>

fun radix_digits :: "nat \<Rightarrow> nat \<Rightarrow> string \<Rightarrow> nat option" where
  "radix_digits r acc [] = Some acc"
| "radix_digits r acc (c # cs) =
     (case hex_val c of
        None \<Rightarrow> None
      | Some d \<Rightarrow> if d < r \<and> acc * r + d < 2 ^ 64 then radix_digits r (acc * r + d) cs else None)"

definition u64_from_str_radix :: "nat \<Rightarrow> string \<Rightarrow> u64 option" where
  "u64_from_str_radix r s =
     (let digits = (case s of c # cs \<Rightarrow> if c = CHR ''+'' then cs else s | [] \<Rightarrow> [])
      in if digits = [] then None else map_option of_nat (radix_digits r 0 digits))"

definition is_ascii_digit :: "char \<Rightarrow> bool" where
  "is_ascii_digit c \<longleftrightarrow> CHR ''0'' \<le> c \<and> c \<le> CHR ''9''"

definition parse_nonce :: "string \<Rightarrow> u64 option" where
  "parse_nonce nonce_str =
     (case strip_prefix ''0x'' nonce_str of
        Some h \<Rightarrow> u64_from_str_radix 16 h
      | None \<Rightarrow>
          if list_all is_ascii_digit nonce_str then u64_from_str_radix 10 nonce_str
          else u64_from_str_radix 16 nonce_str)"

section \<open>Template loop\<close>

record template_loop_state =
  tl_last_tip :: string
  tl_last_job_time :: int

definition should_rebuild :: "int \<Rightarrow> chain_status option \<Rightarrow> template_loop_state \<Rightarrow> bool" where
  "should_rebuild now status st =
     (case status of
        Some s \<Rightarrow> cs_tip_hash s \<noteq> tl_last_tip st \<or> now - tl_last_job_time st \<ge> 15
      | None \<Rightarrow> False)"

text \<open>One pass of the loop: the new loop state and the template it stores and broadcasts.\<close>

definition template_tick :: "'v prims \<Rightarrow> u256_text \<Rightarrow> int \<Rightarrow> int \<Rightarrow> json option \<Rightarrow> node_answers \<Rightarrow> string \<Rightarrow> pending_payout list
    \<Rightarrow> template_loop_state \<Rightarrow> template_loop_state \<times> mining_template option" where
  "template_tick P T now millis polled ans address pending st =
     (if should_rebuild now (fetch_status polled) st
      then (case build_template P T now ans address (show_nat (nat millis)) pending of
          Some template \<Rightarrow> (\<lparr>tl_last_tip = mt_prev_hash template, tl_last_job_time = now\<rparr>, Some template)
        | None \<Rightarrow> (st, None))
      else (st, None))"

end
