(* ===== verification/Pool.thy ===== *)
theory Pool
  imports Pool_Template
begin

text \<open>
  The second half of \<open>astram-stratum/src/main.rs\<close>: the handler of a worker's connection, the other
  writers of the shared state, and the pool as a state machine. The shared state is what the
  mutexes hold; a connection is the handler's local variables. The handler takes one parsed line
  and returns the lines it sends, in order; a send is taken to succeed. \<^const>\<open>None\<close> is a panic
  inside \<open>distribute_pplns\<close>, or of \<open>clamp\<close> in \<open>mining.subscribe\<close> when the configured range is empty. One event reads the clock once. What the event finds outside the pool
  (clock, randomness, answers of the node) is the record \<open>env\<close>. Of the error texts that quote a
  library's own message, the quoted part is left out.
\<close>

section \<open>State\<close>

record pool =
  p_tracker :: share_tracker
  p_templates :: "mining_template hash_map"
  p_pending :: "pending_payout list"
  p_rebuild :: int

record conn =
  c_session :: "miner_session option"
  c_registered :: "string option"
  c_open :: bool

record env =
  e_now :: int
  e_millis :: int
  e_random :: bytes
  e_answers :: node_answers
  e_submit :: "(string, unit) result"

record 'v pool_params =
  pr_prims :: "'v prims"
  pr_text :: u256_text
  pr_ord :: "(string \<times> u64) list \<Rightarrow> (string \<times> u64) list"
  pr_config :: pool_config

definition pool_version :: string where
  "pool_version = ''1.0.11''"

definition conn_new :: conn where
  "conn_new = \<lparr>c_session = None, c_registered = None, c_open = True\<rparr>"

type_synonym outcome = "(pool \<times> conn \<times> json list) option"

section \<open>Messages\<close>

definition response :: "json \<Rightarrow> json \<Rightarrow> json \<Rightarrow> json" where
  "response rid result error = JObj [(''id'', rid), (''result'', result), (''error'', error)]"

definition reply_true :: "json \<Rightarrow> json" where
  "reply_true rid = response rid (JBool True) JNull"

definition reply_error :: "json \<Rightarrow> string \<Rightarrow> json" where
  "reply_error rid msg = response rid (JBool False) (JStr msg)"

definition diff_msg :: "u32 \<Rightarrow> json" where
  "diff_msg d = JObj [(''id'', JNull), (''method'', JStr ''mining.set_difficulty''), (''params'', JArr [JInt (uint d)])]"

definition param_str :: "nat \<Rightarrow> json option \<Rightarrow> string option" where
  "param_str i params =
     Option.bind (Option.bind params as_array) (\<lambda>a. if i < length a then as_str_json (a ! i) else None)"

text \<open>\<open>split('/').nth(1)\<close>\<close>

definition agent_version :: "string \<Rightarrow> string" where
  "agent_version agent =
     (case dropWhile (\<lambda>c. c \<noteq> CHR ''/'') agent of [] \<Rightarrow> '''' | _ # r \<Rightarrow> takeWhile (\<lambda>c. c \<noteq> CHR ''/'') r)"

section \<open>Handlers\<close>

definition clamp :: "u32 \<Rightarrow> u32 \<Rightarrow> u32 \<Rightarrow> u32 option" where
  "clamp lo hi x = (if lo > hi then None else Some (max lo (min x hi)))"

definition on_subscribe :: "'v pool_params \<Rightarrow> env \<Rightarrow> json \<Rightarrow> json option \<Rightarrow> pool \<Rightarrow> conn \<Rightarrow> outcome" where
  "on_subscribe R e rid params p c =
     (let miner_version = agent_version (unwrap_or '''' (param_str 0 params));
          cfg = vardiff (pr_config R)
      in if miner_version \<noteq> '''' \<and> miner_version \<noteq> pool_version
         then Some (p, c\<lparr>c_open := False\<rparr>,
           [response rid JNull (JStr (''version mismatch: miner '' @ miner_version @
              '' is not compatible with pool '' @ pool_version))])
         else
           let extranonce1 = hex_encode (pr_prims R) (e_random e);
               job_id = show_nat (nat (e_millis e));
               (p, init_diff, sent) =
                 (case build_template (pr_prims R) (pr_text R) (e_now e) (e_answers e)
                         (pool_address (pr_config R)) job_id (p_pending p) of
                    Some t \<Rightarrow>
                      let pool_diff = max (mt_pool_diff t) (min_diff cfg)
                      in (p\<lparr>p_templates := hm_insert job_id t (p_templates p)\<rparr>, pool_diff,
                          [diff_msg pool_diff, build_notify t])
                  | None \<Rightarrow> (p, min_diff cfg, []));
               s = session_new (e_now e) extranonce1 init_diff
           in map_option (\<lambda>d. (p, c\<lparr>c_session := Some (s\<lparr>s_difficulty := d\<rparr>)\<rparr>,
               sent @ [response rid
                 (JArr [JArr [JArr [JStr ''mining.set_difficulty'', JStr ''1''], JArr [JStr ''mining.notify'', JStr ''1'']],
                        JStr extranonce1, JInt 4]) JNull]))
             (clamp (min_diff cfg) (max_diff cfg) (s_difficulty s)))"

definition on_authorize :: "env \<Rightarrow> json \<Rightarrow> json option \<Rightarrow> pool \<Rightarrow> conn \<Rightarrow> pool \<times> conn \<times> json list" where
  "on_authorize e rid params p c =
     (let login = unwrap_or ''unknown'' (param_str 0 params) in
      case c_session c of
        None \<Rightarrow> (p, c, [reply_true rid])
      | Some s \<Rightarrow>
          let s = authorize login s
          in (p\<lparr>p_tracker := register_worker (e_now e) (s_extranonce1 s) (s_miner_address s) (s_worker_name s)
                (s_difficulty s) (p_tracker p)\<rparr>,
              c\<lparr>c_session := Some s, c_registered := Some (s_extranonce1 s)\<rparr>, [reply_true rid]))"

text \<open>The bookkeeping of a refused share, the same in all four branches that refuse one.\<close>

definition refuse :: "json \<Rightarrow> string \<Rightarrow> miner_session \<Rightarrow> pool \<Rightarrow> conn \<Rightarrow> pool \<times> conn \<times> json list" where
  "refuse rid msg s p c =
     (p\<lparr>p_tracker := add_rejected (s_miner_address s) (p_tracker p)\<rparr>,
      c\<lparr>c_session := Some (record_rejected_share s)\<rparr>, [reply_error rid msg])"

definition worker_share :: "env \<Rightarrow> string \<Rightarrow> miner_session \<Rightarrow> share" where
  "worker_share e job_id s =
     \<lparr>sh_miner_address = s_miner_address s, sh_worker_name = s_worker_name s, sh_difficulty = s_difficulty s,
      sh_timestamp = e_now e, sh_job_id = job_id\<rparr>"

definition submit_share :: "'v pool_params \<Rightarrow> env \<Rightarrow> json \<Rightarrow> string \<Rightarrow> miner_session \<Rightarrow> pool \<Rightarrow> conn \<Rightarrow> pool \<times> conn \<times> json list" where
  "submit_share R e rid job_id s p c =
     (let s1 = record_accepted_share (e_now e) s;
          p = p\<lparr>p_tracker := add_share (worker_share e job_id s1) (p_tracker p)\<rparr>;
          (s2, sent) = (case check_vardiff (e_now e) s1 (vardiff (pr_config R)) of
              Some new_diff \<Rightarrow> (s1\<lparr>s_difficulty := new_diff\<rparr>, [diff_msg new_diff])
            | None \<Rightarrow> (s1, []))
      in (p, c\<lparr>c_session := Some s2\<rparr>, sent @ [reply_true rid]))"

definition pay_pending :: "pool \<Rightarrow> pool" where
  "pay_pending p =
     p\<lparr>p_pending := [],
       p_tracker := fold (\<lambda>q t. t\<lparr>balances := hm_remove (pp_miner_addr q) (balances t)\<rparr>) (p_pending p) (p_tracker p)\<rparr>"

definition submit_block_ok :: "'v pool_params \<Rightarrow> env \<Rightarrow> json \<Rightarrow> string \<Rightarrow> mining_template \<Rightarrow> string \<Rightarrow> miner_session
    \<Rightarrow> pool \<Rightarrow> conn \<Rightarrow> outcome" where
  "submit_block_ok R e rid job_id tmpl hash s p c =
     Option.bind
       (distribute_pplns (pr_text R) (pr_ord R) (mt_coinbase_value tmpl)
          (f64_div (pool_fee_percent (pr_config R)) (Fin 100)) (s_miner_address s) (mt_height tmpl) hash (e_now e)
          (add_share (worker_share e job_id s) (p_tracker p)))
       (\<lambda>(t, credits).
         let s = record_accepted_share (e_now e) s;
             p = p\<lparr>p_tracker := t, p_templates := filter (\<lambda>(_, m). mt_height m \<noteq> mt_height tmpl) (p_templates p)\<rparr>;
             p = pay_pending p;
             p = p\<lparr>p_rebuild := e_millis e\<rparr>
         in Some (p, c\<lparr>c_session := Some s\<rparr>,
              [JObj [(''id'', rid), (''result'', JBool True), (''block_found'', JBool True), (''error'', JNull)]]))"

text \<open>\<open>e_str.contains(..)\<close> for the texts of a stale template.\<close>

definition contains :: "string \<Rightarrow> string \<Rightarrow> bool" where
  "contains pat s \<longleftrightarrow> list_ex (\<lambda>i. starts_with pat (drop i s)) [0..<Suc (length s)]"

definition is_stale :: "string \<Rightarrow> bool" where
  "is_stale msg \<longleftrightarrow> contains ''utxo not found'' msg \<or> contains ''already exists'' msg \<or> contains ''stale'' msg \<or>
     contains ''duplicate'' msg \<or> contains ''too aggressively'' msg \<or> contains ''difficulty target'' msg"

definition submit_block_err :: "env \<Rightarrow> json \<Rightarrow> string \<Rightarrow> miner_session \<Rightarrow> pool \<Rightarrow> conn \<Rightarrow> pool \<times> conn \<times> json list" where
  "submit_block_err e rid msg s p c =
     (let (p, c) =
        (if is_stale msg then (p\<lparr>p_pending := []\<rparr>, c)
         else (p\<lparr>p_tracker := add_rejected (s_miner_address s) (p_tracker p)\<rparr>,
               c\<lparr>c_session := Some (record_rejected_share s)\<rparr>))
      in (p\<lparr>p_rebuild := e_millis e\<rparr>, c, [reply_error rid msg]))"

definition share_error_text :: "share_error \<Rightarrow> string" where
  "share_error_text err =
     (case err of
        InvalidHashHex \<Rightarrow> ''invalid hash hex''
      | BadHashLength n \<Rightarrow> ''hash must be 32 bytes, got '' @ show_nat n
      | DegenerateTarget b \<Rightarrow> ''degenerate block target''
      | HashTooHigh h b \<Rightarrow> ''block hash '' @ h @ '' does not meet difficulty'')"

definition judge_nonce :: "'v pool_params \<Rightarrow> env \<Rightarrow> json \<Rightarrow> string \<Rightarrow> u64 \<Rightarrow> miner_session \<Rightarrow> pool \<Rightarrow> conn \<Rightarrow> outcome" where
  "judge_nonce R e rid job_id n s p c =
     (case hm_get (p_templates p) job_id of
        None \<Rightarrow> Some (refuse rid ''unknown job'' s p c)
      | Some tmpl \<Rightarrow>
          (case validate_share (pr_prims R) (build_header_for_nonce tmpl n) (s_difficulty s) (mt_difficulty tmpl) of
             Ok (Rejected reason) \<Rightarrow> Some (refuse rid reason s p c)
           | Ok (AcceptedShare hash) \<Rightarrow> Some (submit_share R e rid job_id s p c)
           | Ok (FoundBlock hash) \<Rightarrow>
               (case e_submit e of
                  Ok _ \<Rightarrow> submit_block_ok R e rid job_id tmpl (block_hash (template_block (pr_prims R) tmpl n)) s p c
                | Err msg \<Rightarrow> Some (submit_block_err e rid msg s p c))
           | Err err \<Rightarrow> Some (refuse rid (share_error_text err) s p c)))"

definition on_submit :: "'v pool_params \<Rightarrow> env \<Rightarrow> json \<Rightarrow> json option \<Rightarrow> pool \<Rightarrow> conn \<Rightarrow> outcome" where
  "on_submit R e rid params p c =
     (let job_id = unwrap_or '''' (param_str 1 params); nonce_str = unwrap_or '''' (param_str 2 params) in
      case c_session c of
        None \<Rightarrow> Some (p, c, [reply_error rid ''not authorized''])
      | Some s \<Rightarrow>
          if \<not> is_authorized s then Some (p, c, [reply_error rid ''not authorized''])
          else (case parse_nonce nonce_str of
            None \<Rightarrow> Some (refuse rid ''invalid nonce'' s p c)
          | Some n \<Rightarrow> judge_nonce R e rid job_id n s p c))"

definition handle_request :: "'v pool_params \<Rightarrow> env \<Rightarrow> json \<Rightarrow> pool \<Rightarrow> conn \<Rightarrow> outcome" where
  "handle_request R e req p c =
     (let rid = unwrap_or JNull (json_get ''id'' req);
          meth = unwrap_or '''' (Option.bind (json_get ''method'' req) as_str_json);
          params = json_get ''params'' req
      in if meth = ''mining.subscribe'' then on_subscribe R e rid params p c
         else if meth = ''mining.authorize'' then Some (on_authorize e rid params p c)
         else if meth = ''mining.submit'' then on_submit R e rid params p c
         else Some (p, c, [response rid JNull (JStr ''unsupported method'')]))"

definition on_job :: "'v pool_params \<Rightarrow> env \<Rightarrow> mining_template \<Rightarrow> pool \<Rightarrow> conn \<Rightarrow> pool \<times> conn \<times> json list" where
  "on_job R e template p c =
     (case c_session c of
        None \<Rightarrow> (p, c, [])
      | Some s \<Rightarrow>
          if \<not> is_authorized s then (p, c, [])
          else
            let p = p\<lparr>p_templates := hm_insert (mt_job_id template) template (p_templates p)\<rparr>;
                s = apply_vardiff (e_now e) (vardiff (pr_config R)) s;
                s = (if s_difficulty s > mt_pool_diff template then s\<lparr>s_difficulty := mt_pool_diff template\<rparr> else s)
            in (p, c\<lparr>c_session := Some s\<rparr>, [diff_msg (s_difficulty s), build_notify template]))"

definition on_disconnect :: "pool \<Rightarrow> conn \<Rightarrow> pool \<times> conn" where
  "on_disconnect p c =
     (case c_registered c of
        None \<Rightarrow> (p, c\<lparr>c_open := False\<rparr>)
      | Some e1 \<Rightarrow> (p\<lparr>p_tracker := unregister_worker e1 (p_tracker p)\<rparr>, c\<lparr>c_registered := None, c_open := False\<rparr>))"

section \<open>Other writers\<close>

text \<open>The \<open>submitblock\<close> call of the GBT server, after the payload was decoded.\<close>

definition gbt_submit :: "'v pool_params \<Rightarrow> env \<Rightarrow> block \<Rightarrow> pool \<Rightarrow> (string, pool) result option" where
  "gbt_submit R e b p =
     (case e_submit e of
        Err msg \<Rightarrow> Some (Err (''submit failed: '' @ msg))
      | Ok _ \<Rightarrow>
          map_option (\<lambda>(t, _). Ok (p\<lparr>p_tracker := t\<rparr>))
            (distribute_pplns (pr_text R) (pr_ord R) 0 (Fin 0) (pool_address (pr_config R)) (index (header b))
               (block_hash b) (e_now e) (p_tracker p)))"

definition restore_balances :: "u256_text \<Rightarrow> ((string \<times> u256) list \<Rightarrow> (string \<times> u256) list) \<Rightarrow> string db \<Rightarrow> share_tracker \<Rightarrow> share_tracker" where
  "restore_balances T ord d t =
     fold (\<lambda>(addr, bal) t. t\<lparr>balances := hm_insert addr bal (balances t)\<rparr>) (ord (load_all T d)) t"

definition pool_start :: "'v pool_params \<Rightarrow> ((string \<times> u256) list \<Rightarrow> (string \<times> u256) list) \<Rightarrow> string db \<Rightarrow> nat \<Rightarrow> pool" where
  "pool_start R ord d pplns_window =
     \<lparr>p_tracker = restore_balances (pr_text R) ord d (tracker_new pplns_window), p_templates = [], p_pending = [], p_rebuild = 0\<rparr>"

section \<open>The pool as a state machine\<close>

text \<open>
  Connections are numbered; \<open>m_jobs\<close> are the templates broadcast so far. A restart loses everything
  but the database.
\<close>

record machine =
  m_pool :: pool
  m_conns :: "nat \<Rightarrow> conn option"
  m_loop :: template_loop_state
  m_jobs :: "mining_template list"
  m_db :: "string db"

definition machine_start :: "'v pool_params \<Rightarrow> ((string \<times> u256) list \<Rightarrow> (string \<times> u256) list) \<Rightarrow> string db \<Rightarrow> nat \<Rightarrow> machine" where
  "machine_start R ord d w =
     \<lparr>m_pool = pool_start R ord d w, m_conns = Map.empty, m_loop = \<lparr>tl_last_tip = '''', tl_last_job_time = 0\<rparr>,
      m_jobs = [], m_db = d\<rparr>"

inductive pool_step :: "'v pool_params \<Rightarrow> machine \<Rightarrow> machine \<Rightarrow> bool" for R where
  connect: "m_conns m i = None \<Longrightarrow> pool_step R m (m\<lparr>m_conns := (m_conns m)(i \<mapsto> conn_new)\<rparr>)"
| request: "m_conns m i = Some c \<Longrightarrow> c_open c \<Longrightarrow> handle_request R e req (m_pool m) c = Some (p, c', sent) \<Longrightarrow>
    pool_step R m (m\<lparr>m_pool := p, m_conns := (m_conns m)(i \<mapsto> c')\<rparr>)"
| job: "m_conns m i = Some c \<Longrightarrow> c_open c \<Longrightarrow> t \<in> set (m_jobs m) \<Longrightarrow> on_job R e t (m_pool m) c = (p, c', sent) \<Longrightarrow>
    pool_step R m (m\<lparr>m_pool := p, m_conns := (m_conns m)(i \<mapsto> c')\<rparr>)"
| disconnect: "m_conns m i = Some c \<Longrightarrow> on_disconnect (m_pool m) c = (p, c') \<Longrightarrow>
    pool_step R m (m\<lparr>m_pool := p, m_conns := (m_conns m)(i := None)\<rparr>)"
| tick: "template_tick (pr_prims R) (pr_text R) now millis polled ans (pool_address (pr_config R))
      (p_pending (m_pool m)) (m_loop m) = (st, Some t) \<Longrightarrow>
    pool_step R m (m\<lparr>m_loop := st, m_jobs := m_jobs m @ [t],
      m_pool := (m_pool m)\<lparr>p_templates := hm_insert (mt_job_id t) t (p_templates (m_pool m))\<rparr>\<rparr>)"
| payout: "pool_step R m (m\<lparr>m_pool := (m_pool m)\<lparr>p_pending := payout_round (pr_prims R) now2 kp
      (pool_address (pr_config R)) ord threshold fetched (p_tracker (m_pool m)) (p_pending (m_pool m))\<rparr>\<rparr>)"
| sync: "pool_step R m (m\<lparr>m_db := balance_sync (pr_text R) ord (p_tracker (m_pool m)) (m_db m)\<rparr>)"
| gbt: "gbt_submit R e b (m_pool m) = Some (Ok p) \<Longrightarrow> pool_step R m (m\<lparr>m_pool := p\<rparr>)"
| restart: "pool_step R m (machine_start R ord (m_db m) w)"

inductive pool_reachable :: "'v pool_params \<Rightarrow> machine \<Rightarrow> bool" for R where
  start: "db_wf d \<Longrightarrow> pool_reachable R (machine_start R ord d w)"
| step: "pool_reachable R m \<Longrightarrow> pool_step R m m' \<Longrightarrow> pool_reachable R m'"

section \<open>Invariant\<close>

text \<open>
  A template is sound if every block built from it carries its own header hash and Merkle root,
  opens with a coinbase that pays exactly the reward of its height to the pool, and has the pool
  difficulty derived from its bits.
\<close>

definition template_sound :: "'v pool_params \<Rightarrow> mining_template \<Rightarrow> bool" where
  "template_sound R t \<longleftrightarrow>
     mt_merkle_root t = compute_merkle_root (pr_prims R) (map txid (mt_transactions t)) \<and>
     mt_pool_diff t = initial_pool_difficulty (mt_difficulty t) \<and>
     (\<exists>now rest. mt_transactions t = with_hashes (pr_prims R) (coinbase (pr_prims R) now (pool_address (pr_config R))
        (calculate_block_reward (mt_height t))) # rest) \<and>
     mt_coinbase_value t = calculate_block_reward (mt_height t)"

lemma build_template_sound:
  "build_template (pr_prims R) T now ans (pool_address (pr_config R)) job_id pending = Some t \<Longrightarrow> template_sound R t"
  by (auto simp: build_template_def template_sound_def Let_def bind_eq_Some_conv)

definition pool_inv :: "'v pool_params \<Rightarrow> pool \<Rightarrow> bool" where
  "pool_inv R p \<longleftrightarrow> tracker_inv (p_tracker p) \<and> (\<forall>t\<in>snd ` set (p_templates p). template_sound R t)"

definition conn_inv :: "conn \<Rightarrow> bool" where
  "conn_inv c \<longleftrightarrow> (\<forall>s. c_session c = Some s \<longrightarrow> session_inv s)"

definition machine_inv :: "'v pool_params \<Rightarrow> machine \<Rightarrow> bool" where
  "machine_inv R m \<longleftrightarrow> pool_inv R (m_pool m) \<and> (\<forall>i c. m_conns m i = Some c \<longrightarrow> conn_inv c) \<and>
     (\<forall>t\<in>set (m_jobs m). template_sound R t) \<and> db_wf (m_db m)"

lemma snd_hm_insert: "snd ` set (hm_insert k v m) \<subseteq> insert v (snd ` set m)"
  by (induction k v m rule: hm_insert.induct) auto

lemma pool_inv_insert [simp]:
  "pool_inv R p \<Longrightarrow> template_sound R t \<Longrightarrow> pool_inv R (p\<lparr>p_templates := hm_insert k t (p_templates p)\<rparr>)"
  using snd_hm_insert[of k t "p_templates p"] by (fastforce simp: pool_inv_def)

lemma pool_inv_tracker [simp]: "pool_inv R p \<Longrightarrow> tracker_inv t \<Longrightarrow> pool_inv R (p\<lparr>p_tracker := t\<rparr>)"
  by (simp add: pool_inv_def)

lemma pool_inv_other [simp]:
  "pool_inv R (p\<lparr>p_pending := q\<rparr>) = pool_inv R p" "pool_inv R (p\<lparr>p_rebuild := x\<rparr>) = pool_inv R p"
  by (simp_all add: pool_inv_def)

lemma conn_inv_simps [simp]:
  "conn_inv (c\<lparr>c_session := Some s\<rparr>) = session_inv s" "conn_inv (c\<lparr>c_registered := r\<rparr>) = conn_inv c"
  "conn_inv (c\<lparr>c_open := b\<rparr>) = conn_inv c" "conn_inv conn_new"
  by (simp_all add: conn_inv_def conn_new_def)

lemma conn_inv_session: "c_session c = Some s \<Longrightarrow> conn_inv c \<Longrightarrow> session_inv s"
  by (simp add: conn_inv_def)

lemma refuse_inv:
  "refuse rid msg s p c = (p', c', sent) \<Longrightarrow> pool_inv R p \<Longrightarrow> session_inv s \<Longrightarrow> pool_inv R p' \<and> conn_inv c'"
  by (auto simp: refuse_def pool_inv_def)

lemma pay_pending_inv: "pool_inv R p \<Longrightarrow> pool_inv R (pay_pending p)"
proof -
  have "tracker_inv t \<Longrightarrow> tracker_inv (fold (\<lambda>q t. t\<lparr>balances := hm_remove (pp_miner_addr q) (balances t)\<rparr>) qs t)"
    for qs :: "pending_payout list" and t
    by (induction qs arbitrary: t) simp_all
  then show "pool_inv R p \<Longrightarrow> pool_inv R (pay_pending p)" by (simp add: pay_pending_def pool_inv_def)
qed

lemma submit_block_ok_inv:
  assumes "submit_block_ok R e rid job_id tmpl hash s p c = Some (p', c', sent)" "pool_inv R p" "session_inv s"
  shows "pool_inv R p' \<and> conn_inv c'"
proof -
  obtain t credits where d: "distribute_pplns (pr_text R) (pr_ord R) (mt_coinbase_value tmpl)
          (f64_div (pool_fee_percent (pr_config R)) (Fin 100)) (s_miner_address s) (mt_height tmpl) hash (e_now e)
          (add_share (worker_share e job_id s) (p_tracker p)) = Some (t, credits)"
    using assms(1) by (auto simp: submit_block_ok_def bind_eq_Some_conv)
  have "tracker_inv t" using tracker_inv_distribute[OF _ d] assms(2) by (simp add: pool_inv_def)
  then have "pool_inv R (p\<lparr>p_tracker := t, p_templates := filter (\<lambda>(_, m). mt_height m \<noteq> mt_height tmpl) (p_templates p)\<rparr>)"
    using assms(2) by (auto simp: pool_inv_def)
  from pay_pending_inv[OF this] show ?thesis
    using assms(1,3) d by (auto simp: submit_block_ok_def Let_def)
qed

lemma judge_nonce_inv:
  assumes "judge_nonce R e rid job_id n s p c = Some (p', c', sent)" "pool_inv R p" "conn_inv c" "session_inv s"
  shows "pool_inv R p' \<and> conn_inv c'"
proof -
  have "submit_share R e rid job_id s p c = (p', c', sent) \<Longrightarrow> ?thesis"
    using assms(2,4) by (auto simp: submit_share_def Let_def pool_inv_def split: option.splits)
  moreover have "submit_block_err e rid msg s p c = (p', c', sent) \<Longrightarrow> ?thesis" for msg
    using assms(2,3,4) by (auto simp: submit_block_err_def pool_inv_def split: if_splits)
  ultimately show ?thesis
    using assms(1,2,4)
    by (auto simp: judge_nonce_def split: option.splits result.splits share_result.splits
        dest: refuse_inv submit_block_ok_inv)
qed

lemma handle_request_inv:
  assumes "handle_request R e req p c = Some (p', c', sent)" "pool_inv R p" "conn_inv c"
  shows "pool_inv R p' \<and> conn_inv c'"
proof -
  have 1: "on_subscribe R e rid params p c = Some (p', c', sent) \<Longrightarrow> ?thesis" for rid params
    using assms(2,3)
    by (auto simp: on_subscribe_def Let_def dest!: build_template_sound split: option.splits if_splits)
  have 2: "on_authorize e rid params p c = (p', c', sent) \<Longrightarrow> ?thesis" for rid params
    using assms(2,3) by (auto simp: on_authorize_def Let_def conn_inv_def pool_inv_def split: option.splits)
  have 3: "on_submit R e rid params p c = Some (p', c', sent) \<Longrightarrow> ?thesis" for rid params
    using assms(2,3)
    by (auto simp: on_submit_def Let_def split: option.splits if_splits
        dest!: refuse_inv judge_nonce_inv conn_inv_session)
  show ?thesis using assms 1 2 3 by (auto simp: handle_request_def Let_def split: if_splits)
qed

lemma on_job_inv:
  assumes "on_job R e t p c = (p', c', sent)" "pool_inv R p" "conn_inv c" "template_sound R t"
  shows "pool_inv R p' \<and> conn_inv c'"
proof (cases "c_session c")
  case None
  then show ?thesis using assms by (simp add: on_job_def)
next
  case (Some s)
  then have "session_inv s" using assms(3) by (simp add: conn_inv_def)
  then show ?thesis using assms Some by (auto simp: on_job_def Let_def split: if_splits)
qed

lemma restore_balances_inv: "tracker_inv t \<Longrightarrow> tracker_inv (restore_balances T ord d t)"
proof -
  have i: "tracker_inv t \<Longrightarrow> tracker_inv (t\<lparr>balances := hm_insert a b (balances t)\<rparr>)" for t a b
    by (simp add: tracker_inv_def)
  have "tracker_inv t \<Longrightarrow> tracker_inv (fold (\<lambda>(addr, bal) t. t\<lparr>balances := hm_insert addr bal (balances t)\<rparr>) es t)" for es t
    by (induction es arbitrary: t) (auto simp: i)
  then show "tracker_inv t \<Longrightarrow> tracker_inv (restore_balances T ord d t)" by (simp add: restore_balances_def)
qed

lemma machine_start_inv: "db_wf d \<Longrightarrow> machine_inv R (machine_start R ord d w)"
  by (simp add: machine_inv_def machine_start_def pool_start_def pool_inv_def restore_balances_inv)

lemma template_tick_Some:
  "template_tick P T now millis polled ans a pending st = (st', Some t) \<Longrightarrow>
   \<exists>j. build_template P T now ans a j pending = Some t"
  by (auto simp: template_tick_def split: if_splits option.splits)

lemma pool_step_inv:
  assumes "pool_step R m m'" "machine_inv R m"
  shows "machine_inv R m'"
  using assms
proof (cases rule: pool_step.cases)
  case (request i c e req p c' sent)
  then show ?thesis using assms(2) handle_request_inv[OF request(4)] by (auto simp: machine_inv_def)
next
  case (job i c t e p c' sent)
  then show ?thesis using assms(2) on_job_inv[OF job(5)] by (auto simp: machine_inv_def)
next
  case (disconnect i c p c')
  then show ?thesis using assms(2)
    by (auto simp: machine_inv_def on_disconnect_def pool_inv_def split: option.splits if_splits)
next
  case (tick now millis polled ans st t)
  have "template_sound R t" using template_tick_Some[OF tick(2)] build_template_sound by blast
  then show ?thesis using tick assms(2) by (auto simp: machine_inv_def)
next
  case (gbt e b p)
  then show ?thesis using assms(2) tracker_inv_distribute
    by (auto simp: machine_inv_def gbt_submit_def pool_inv_def split: result.splits)
next
  case (restart ord w)
  then show ?thesis using assms(2) machine_start_inv by (auto simp: machine_inv_def)
next
  case (sync ord)
  then show ?thesis using assms(2) by (auto simp: machine_inv_def balance_sync_def save_all_def)
qed (auto simp: machine_inv_def)

lemma reachable_machine_inv: "pool_reachable R m \<Longrightarrow> machine_inv R m"
  by (induction rule: pool_reachable.induct) (auto intro: machine_start_inv pool_step_inv)

section \<open>Theorems\<close>

text \<open>
  C23. Whatever the workers, the node and the clock do, and across restarts: the share window never
  outgrows its size and no block is recorded twice, a connection keeps at most 64 timestamps, and
  every template in the store is sound.
\<close>

theorem pool_invariant:
  assumes "pool_reachable R m"
  shows "length (recent_shares (p_tracker (m_pool m))) \<le> window_size (p_tracker (m_pool m)) \<and>
    distinct (map fb_hash (found_blocks (p_tracker (m_pool m)))) \<and>
    (\<forall>i c s. m_conns m i = Some c \<longrightarrow> c_session c = Some s \<longrightarrow> length (s_share_timestamps s) \<le> 64) \<and>
    (\<forall>j t. hm_get (p_templates (m_pool m)) j = Some t \<longrightarrow> template_sound R t)"
  using reachable_machine_inv[OF assms]
  by (auto simp: machine_inv_def pool_inv_def conn_inv_def tracker_inv_def session_inv_def hm_get_def
      dest!: map_of_SomeD)

text \<open>
  C24. A block found for a job reaches the node. When a worker has received a job, the template of the
  job is in the pool's store and the worker's difficulty is at most that of the template. As long as these
  two things hold, whatever else has happened to the pool and the connection, a nonce whose header meets
  the network target goes to the node and is never refused as a share. (The first ends when a block of
  the same height is found, the second when an adjustment raises the difficulty above the template's:
  then the same nonce is refused, \<open>raised_difficulty_refuses_block\<close>.)
\<close>

theorem job_block_reaches_node:
  assumes "digest_ok (pr_prims R)" "hex_ok (pr_prims R)"
    and "template_sound R t" "compact_to_target (mt_difficulty t) \<le> pow_limit_target"
  shows "(c_session c = Some s \<longrightarrow> is_authorized s \<longrightarrow> on_job R e t p c = (p', c', sent) \<longrightarrow>
      hm_get (p_templates p') (mt_job_id t) = Some t \<and>
      (\<exists>s'. c_session c' = Some s' \<and> is_authorized s' \<and> s_difficulty s' \<le> mt_pool_diff t)) \<and>
    (hm_get (p_templates p2) (mt_job_id t) = Some t \<longrightarrow> s_difficulty s2 \<le> mt_pool_diff t \<longrightarrow>
      is_valid_pow (pr_prims R) (compute_header_hash (pr_prims R) (build_header_for_nonce t n)) (mt_difficulty t) = Ok True \<longrightarrow>
      judge_nonce R e2 rid (mt_job_id t) n s2 p2 c2 =
        (case e_submit e2 of
           Ok _ \<Rightarrow> submit_block_ok R e2 rid (mt_job_id t) t (compute_header_hash_str (pr_prims R) t n) s2 p2 c2
         | Err msg \<Rightarrow> Some (submit_block_err e2 rid msg s2 p2 c2)))"
proof (intro conjI impI)
  assume a: "c_session c = Some s" "is_authorized s" "on_job R e t p c = (p', c', sent)"
  show "hm_get (p_templates p') (mt_job_id t) = Some t"
    using a by (auto simp: on_job_def Let_def)
  show "\<exists>s'. c_session c' = Some s' \<and> is_authorized s' \<and> s_difficulty s' \<le> mt_pool_diff t"
    using a by (auto simp: on_job_def Let_def is_authorized_def apply_vardiff_def split: if_splits option.splits)
next
  assume a: "hm_get (p_templates p2) (mt_job_id t) = Some t" "s_difficulty s2 \<le> mt_pool_diff t"
    "is_valid_pow (pr_prims R) (compute_header_hash (pr_prims R) (build_header_for_nonce t n)) (mt_difficulty t) = Ok True"
  have "mt_pool_diff t = initial_pool_difficulty (mt_difficulty t)" using assms(3) by (simp add: template_sound_def)
  then have "validate_share (pr_prims R) (build_header_for_nonce t n) (s_difficulty s2) (mt_difficulty t) =
      Ok (FoundBlock (compute_header_hash (pr_prims R) (build_header_for_nonce t n)))"
    using valid_block_found[OF assms(1,2,4) _ a(3)] a(2) by simp
  then show "judge_nonce R e2 rid (mt_job_id t) n s2 p2 c2 =
        (case e_submit e2 of
           Ok _ \<Rightarrow> submit_block_ok R e2 rid (mt_job_id t) t (compute_header_hash_str (pr_prims R) t n) s2 p2 c2
         | Err msg \<Rightarrow> Some (submit_block_err e2 rid msg s2 p2 c2))"
    using a(1) by (auto simp: judge_nonce_def template_block_def split: result.splits)
qed

text \<open>
  C29. What a block that the node accepts does to the pool: the finder's share enters the window, the
  reward is distributed over it, the queue of payouts is emptied, and \<^emph>\<open>every\<close> miner with a
  queued payout ends with balance 0. That includes what this very distribution has just credited
  to it, and payouts that the block does not carry because its template is older than the queue.
\<close>

theorem block_found_effect:
  assumes "submit_block_ok R e rid job_id tmpl hash s p c = Some (p', c', sent)"
  shows "\<exists>t credits. distribute_pplns (pr_text R) (pr_ord R) (mt_coinbase_value tmpl)
        (f64_div (pool_fee_percent (pr_config R)) (Fin 100)) (s_miner_address s) (mt_height tmpl) hash (e_now e)
        (add_share (worker_share e job_id s) (p_tracker p)) = Some (t, credits) \<and>
    (\<forall>a. get_or 0 (balances (p_tracker p')) a =
       (if a \<in> pp_miner_addr ` set (p_pending p) then 0 else get_or 0 (balances t) a)) \<and>
    recent_shares (p_tracker p') = recent_shares t \<and> p_pending p' = [] \<and>
    p_templates p' = filter (\<lambda>(_, m). mt_height m \<noteq> mt_height tmpl) (p_templates p)"
proof -
  have f: "get_or 0 (balances (fold (\<lambda>q t. t\<lparr>balances := hm_remove (pp_miner_addr q) (balances t)\<rparr>) qs t)) a =
      (if a \<in> pp_miner_addr ` set qs then 0 else get_or 0 (balances t) a) \<and>
    recent_shares (fold (\<lambda>q t. t\<lparr>balances := hm_remove (pp_miner_addr q) (balances t)\<rparr>) qs t) = recent_shares t"
    for qs :: "pending_payout list" and t :: share_tracker and a
    by (induction qs arbitrary: t) (auto simp: get_or_def)
  obtain t credits where d: "distribute_pplns (pr_text R) (pr_ord R) (mt_coinbase_value tmpl)
        (f64_div (pool_fee_percent (pr_config R)) (Fin 100)) (s_miner_address s) (mt_height tmpl) hash (e_now e)
        (add_share (worker_share e job_id s) (p_tracker p)) = Some (t, credits)"
    using assms by (auto simp: submit_block_ok_def bind_eq_Some_conv)
  show ?thesis using assms d f
    by (intro exI[of _ t] exI[of _ credits]) (auto simp: submit_block_ok_def pay_pending_def Let_def)
qed

text \<open>
  A nonce can be submitted again: nothing records which nonces a worker has sent, so the same
  share counts once more each time it is repeated.
\<close>

theorem share_replay_counted:
  assumes "c_session c = Some s" "is_authorized s"
    and "parse_nonce (unwrap_or [] (param_str 2 params)) = Some n"
    and "hm_get (p_templates p) (unwrap_or [] (param_str 1 params)) = Some t"
    and "validate_share (pr_prims R) (build_header_for_nonce t n) (s_difficulty s) (mt_difficulty t) = Ok (AcceptedShare h)"
    and "check_vardiff (e_now e) (record_accepted_share (e_now e) s) (vardiff (pr_config R)) = None"
  shows "\<exists>p1 c1 sent1 p2 c2 sent2. on_submit R e rid params p c = Some (p1, c1, sent1) \<and>
    on_submit R e rid params p1 c1 = Some (p2, c2, sent2) \<and> reply_true rid \<in> set sent2 \<and>
    total_shares_accepted (p_tracker p2) = total_shares_accepted (p_tracker p) + 2"
proof -
  let ?s1 = "record_accepted_share (e_now e) s"
  obtain p1 c1 sent1 where 1: "on_submit R e rid params p c = Some (p1, c1, sent1)" "c_session c1 = Some ?s1"
    "p_templates p1 = p_templates p" "total_shares_accepted (p_tracker p1) = total_shares_accepted (p_tracker p) + 1"
    using assms by (simp add: on_submit_def judge_nonce_def submit_share_def Let_def add_share_def)
  have "is_authorized ?s1" "s_difficulty ?s1 = s_difficulty s"
    using assms(2) by (simp_all add: record_accepted_share_def is_authorized_def Let_def)
  then show ?thesis using 1 assms(3,4,5)
    by (auto simp: on_submit_def judge_nonce_def submit_share_def Let_def add_share_def split: option.splits)
qed

section \<open>Witnesses\<close>

definition sample_params :: "stored pool_params" where
  "sample_params = \<lparr>pr_prims = ref_prims, pr_text = ref_text, pr_ord = (\<lambda>xs. xs),
     pr_config = \<lparr>pool_address = ''pool'', pool_fee_percent = Fin 0, vardiff = var_diff_default\<rparr>\<rparr>"

definition sample_env :: env where
  "sample_env = \<lparr>e_now = 0, e_millis = 5, e_random = [1, 2, 3, 4],
     e_answers = \<lparr>na_status = None, na_mempool = None\<rparr>, e_submit = Ok ()\<rparr>"

text \<open>A template for height 1 at the easiest difficulty.\<close>

definition sample_template :: mining_template where
  "sample_template = \<lparr>mt_job_id = ''1'', mt_height = 1, mt_prev_hash = '''', mt_difficulty = POW_LIMIT_BITS,
     mt_pool_diff = initial_pool_difficulty POW_LIMIT_BITS, mt_timestamp = 0,
     mt_merkle_root = compute_merkle_root ref_prims [compute_txid ref_prims (coinbase ref_prims 0 ''pool'' (calculate_block_reward 1))],
     mt_transactions = [with_hashes ref_prims (coinbase ref_prims 0 ''pool'' (calculate_block_reward 1))],
     mt_coinbase_value = calculate_block_reward 1\<rparr>"

lemma sample_template_sound: "template_sound sample_params sample_template"
  by (auto simp: template_sound_def sample_template_def sample_params_def with_hashes_def)

definition sample_session :: miner_session where
  "sample_session = authorize ''a.w'' (session_new 0 ''e1'' 1)"

lemma sample_session_simps:
  "s_miner_address sample_session = ''a''" "is_authorized sample_session" "s_difficulty sample_session = 1"
  "s_share_timestamps sample_session = []" "s_connected_at sample_session = 0"
  by (simp_all add: sample_session_def authorize_def is_authorized_def session_new_def)

definition sample_pool :: pool where
  "sample_pool = \<lparr>p_tracker = tracker_new 10, p_templates = [(''1'', sample_template)],
     p_pending = [\<lparr>pp_miner_addr = ''a'', pp_amount = 5, pp_tx = sample_tx\<rparr>], p_rebuild = 0\<rparr>"

definition sample_conn :: conn where
  "sample_conn = \<lparr>c_session = Some sample_session, c_registered = None, c_open = True\<rparr>"

lemma sample_header_pow:
  "is_valid_pow ref_prims (compute_header_hash ref_prims (build_header_for_nonce sample_template 0)) POW_LIMIT_BITS = Ok True"
  using sample_pow[of 1]
  by (simp add: build_header_for_nonce_def sample_template_def compute_header_hash_def to_hex_def blake3_hash_def
      serialize_header_def ref_prims_def)

theorem job_block_reaches_node_witness:
  "\<exists>p' c' sent s'. on_job sample_params sample_env sample_template sample_pool sample_conn = (p', c', sent) \<and>
    c_session c' = Some s' \<and>
    judge_nonce sample_params sample_env JNull ''1'' 0 s' p' c' =
      submit_block_ok sample_params sample_env JNull ''1'' sample_template
        (compute_header_hash_str ref_prims sample_template 0) s' p' c'"
proof -
  obtain p' c' sent where j: "on_job sample_params sample_env sample_template sample_pool sample_conn = (p', c', sent)"
    by (cases "on_job sample_params sample_env sample_template sample_pool sample_conn")
  have c: "c_session sample_conn = Some sample_session" by (simp add: sample_conn_def)
  have ok: "digest_ok (pr_prims sample_params)" "hex_ok (pr_prims sample_params)"
    "compact_to_target (mt_difficulty sample_template) \<le> pow_limit_target"
    by (simp_all add: sample_params_def sample_template_def pow_limit_target_def)
  note t = job_block_reaches_node[OF ok(1,2) sample_template_sound ok(3)]
  obtain s' where s': "hm_get (p_templates p') (mt_job_id sample_template) = Some sample_template" "c_session c' = Some s'"
    "s_difficulty s' \<le> mt_pool_diff sample_template"
    using t[of sample_conn sample_session sample_env sample_pool p' c' sent] c sample_session_simps(2) j by blast
  show ?thesis
    using t[of _ _ _ _ _ _ _ p' s' 0 sample_env JNull c'] s' j sample_header_pow
    by (auto simp: sample_params_def sample_template_def sample_env_def)
qed

text \<open>
  The limit of the promise: the worker's difficulty is raised by an adjustment without regard to the
  template, and then a nonce that makes a valid block is refused as too weak a share.
\<close>

lemma raised_difficulty_refuses_block:
  "is_valid_pow ref_prims (compute_header_hash ref_prims (build_header_for_nonce sample_template 0)) (mt_difficulty sample_template) = Ok True"
  "\<exists>reason. judge_nonce sample_params sample_env JNull ''1'' 0 (sample_session\<lparr>s_difficulty := 4\<rparr>) sample_pool sample_conn =
     Some (refuse JNull reason (sample_session\<lparr>s_difficulty := 4\<rparr>) sample_pool sample_conn)"
proof -
  show "is_valid_pow ref_prims (compute_header_hash ref_prims (build_header_for_nonce sample_template 0)) (mt_difficulty sample_template) = Ok True"
    using sample_header_pow by (simp add: sample_template_def)
  have "compute_header_hash ref_prims (build_header_for_nonce sample_template 0) = hex_of (pad 32 [0, 1, 0])"
    by (simp add: build_header_for_nonce_def sample_template_def compute_header_hash_def to_hex_def
        blake3_hash_def serialize_header_def ref_prims_def)
  moreover have "\<not> starts_with ''0000'' (hex_of (pad 32 [0, 1, 0]))" by (simp add: pad_def starts_with_def hex_digit_def)
  moreover have "unat (4 :: u32) = Suc (Suc (Suc (Suc 0)))" by simp
  then have "replicate (unat (4 :: u32)) CHR ''0'' = ''0000''" by (simp only: replicate.simps)
  ultimately show "\<exists>reason. judge_nonce sample_params sample_env JNull ''1'' 0 (sample_session\<lparr>s_difficulty := 4\<rparr>) sample_pool sample_conn =
     Some (refuse JNull reason (sample_session\<lparr>s_difficulty := 4\<rparr>) sample_pool sample_conn)"
    by (intro exI[of _ "reject_reason (compute_header_hash ref_prims (build_header_for_nonce sample_template 0)) 4"])
      (simp add: judge_nonce_def validate_share_def Let_def sample_pool_def sample_params_def hm_get_def del: hex_of_Cons)
qed

theorem pool_invariant_witness:
  "\<exists>m. pool_reachable sample_params m \<and> length (recent_shares (p_tracker (m_pool m))) \<le> window_size (p_tracker (m_pool m))"
proof -
  have "pool_reachable sample_params (machine_start sample_params (\<lambda>xs. xs) [] 10)" by (intro pool_reachable.start) simp
  with pool_invariant[OF this] show ?thesis by blast
qed

theorem block_found_effect_witness:
  "\<exists>p' c' sent t credits. submit_block_ok sample_params sample_env JNull ''1'' sample_template ''h'' sample_session sample_pool sample_conn =
      Some (p', c', sent) \<and>
    distribute_pplns ref_text (\<lambda>xs. xs) (calculate_block_reward 1) (Fin 0) ''a'' 1 ''h'' 0
      (add_share (worker_share sample_env ''1'' sample_session) (tracker_new 10)) = Some (t, credits) \<and>
    get_or 0 (balances t) ''a'' = calculate_block_reward 1 \<and> get_or 0 (balances (p_tracker p')) ''a'' = 0"
proof -
  let ?R = "calculate_block_reward 1"
  let ?d = "distribute_pplns ref_text (\<lambda>xs. xs) ?R (Fin 0) ''a'' 1 ''h'' 0
      (add_share (worker_share sample_env ''1'' sample_session) (tracker_new 10))"
  have r: "unat ?R < 2 ^ 128" by (simp add: unat_block_reward)
  have c: "credit_miner ?R 1 (''a'', 1) ([], []) = Some ([(''a'', ?R)], [(''a'', ?R)])"
    using r by (simp add: credit_miner_def u256_mul_def u256_div_def credit_balance_def sat_add_def get_or_def hm_get_def)
      (simp add: calculate_block_reward_def initial_block_reward_def HALVING_INTERVAL_def RAM_PER_ASRM_def)
  have "recent_shares (add_share (worker_share sample_env ''1'' sample_session) (tracker_new 10)) =
      [worker_share sample_env ''1'' sample_session]" "balances (add_share x (tracker_new 10)) = []"
    "found_blocks (add_share x (tracker_new 10)) = []" for x by (simp_all add: add_share_def tracker_new_def)
  moreover have "window_counts [worker_share sample_env ''1'' sample_session] = [(''a'', 1)]"
    by (simp add: window_counts_def worker_share_def sample_session_simps hm_count_def get_or_def hm_get_def)
  moreover have "sat_sub ?R 0 = ?R" by (simp add: sat_sub_def)
  ultimately obtain t where t: "?d = Some (t, [(''a'', ?R)])" "balances t = [(''a'', ?R)]"
    using c by (auto simp: distribute_pplns_def no_fee[OF r] Let_def)
  have z: "f64_round 0 = Fin 0" by (simp add: f64_round_def)
  have "\<exists>p' c' sent. submit_block_ok sample_params sample_env JNull ''1'' sample_template ''h'' sample_session sample_pool sample_conn =
      Some (p', c', sent)"
    using t(1) by (simp add: submit_block_ok_def sample_params_def sample_template_def sample_pool_def sample_session_simps z
        sample_env_def Let_def)
  then obtain p' c' sent where p': "submit_block_ok sample_params sample_env JNull ''1'' sample_template ''h'' sample_session
      sample_pool sample_conn = Some (p', c', sent)" by blast
  from block_found_effect[OF this] have "get_or 0 (balances (p_tracker p')) ''a'' = 0"
    by (auto simp: sample_pool_def)
  then show ?thesis using p' t by (auto simp: get_or_def hm_get_def)
qed

definition hard_template :: mining_template where
  "hard_template = sample_template\<lparr>mt_difficulty := 0\<rparr>"

lemma zero_prefix_hash:
  "validate_share ref_prims (build_header_for_nonce hard_template 0) 1 0 =
     Ok (AcceptedShare (compute_header_hash ref_prims (build_header_for_nonce hard_template 0)))"
proof -
  have "compute_header_hash ref_prims (build_header_for_nonce hard_template 0) = hex_of (pad 32 [0, 1, 0])"
    by (simp add: build_header_for_nonce_def hard_template_def sample_template_def compute_header_hash_def to_hex_def
        blake3_hash_def serialize_header_def ref_prims_def)
  moreover have "starts_with ''0'' (hex_of (pad 32 [0, 1, 0]))" by (simp add: pad_def starts_with_def hex_digit_def)
  moreover have "replicate (unat (1 :: u32)) CHR ''0'' = ''0''" by simp
  ultimately show ?thesis
    by (simp only: validate_share_def Let_def compact_bits_to_u256_eq) (simp add: compact_to_target_def)
qed

theorem share_replay_counted_witness:
  "\<exists>p1 c1 sent1 p2 c2 sent2.
    on_submit sample_params sample_env JNull (Some (JArr [JStr ''w'', JStr ''1'', JStr ''0'']))
      (sample_pool\<lparr>p_templates := [(''1'', hard_template)]\<rparr>) sample_conn = Some (p1, c1, sent1) \<and>
    on_submit sample_params sample_env JNull (Some (JArr [JStr ''w'', JStr ''1'', JStr ''0''])) p1 c1 = Some (p2, c2, sent2) \<and>
    total_shares_accepted (p_tracker p2) = 2"
proof -
  let ?ps = "Some (JArr [JStr ''w'', JStr ''1'', JStr ''0''])" and ?p = "sample_pool\<lparr>p_templates := [(''1'', hard_template)]\<rparr>"
  have n: "parse_nonce (unwrap_or [] (param_str 2 ?ps)) = Some 0" by code_simp
  have t: "hm_get (p_templates ?p) (unwrap_or [] (param_str 1 ?ps)) = Some hard_template"
    by (simp add: param_str_def unwrap_or_def hm_get_def)
  have v: "validate_share (pr_prims sample_params) (build_header_for_nonce hard_template 0) (s_difficulty sample_session)
      (mt_difficulty hard_template) = Ok (AcceptedShare (compute_header_hash ref_prims (build_header_for_nonce hard_template 0)))"
    using zero_prefix_hash by (simp add: sample_session_simps sample_params_def hard_template_def)
  have "f64_mul (Fin 15) (Fin 2) = Fin 30" "f64_of_int 0 = Fin 0"
    using f64_round_exact[of 30 0] by (simp_all add: f64_of_int_def f64_round_def)
  then have d: "check_vardiff (e_now sample_env) (record_accepted_share (e_now sample_env) sample_session)
      (vardiff (pr_config sample_params)) = None"
    by (simp add: check_vardiff_def vardiff_idle_def record_accepted_share_def sample_session_simps sample_env_def
        sample_params_def var_diff_default_def f64_lt_def Let_def del: f64_mul.simps)
  have "c_session sample_conn = Some sample_session" by (simp add: sample_conn_def)
  from share_replay_counted[OF this sample_session_simps(2) n t v d, of JNull] show ?thesis
    by (auto simp: sample_pool_def tracker_new_def)
qed

section \<open>Registered workers\<close>

definition subscribe_request :: json where
  "subscribe_request = JObj [(''method'', JStr ''mining.subscribe'')]"

definition authorize_request :: json where
  "authorize_request = JObj [(''method'', JStr ''mining.authorize'')]"

text \<open>The requests of a connection one after the other, then its end.\<close>

fun serve :: "'v pool_params \<Rightarrow> (env \<times> json) list \<Rightarrow> pool \<Rightarrow> conn \<Rightarrow> (pool \<times> conn) option" where
  "serve R [] p c = Some (on_disconnect p c)"
| "serve R ((e, req) # reqs) p c = Option.bind (handle_request R e req p c) (\<lambda>(p, c, sent). serve R reqs p c)"

lemma serve_subscribe:
  "na_status (e_answers e) = None \<Longrightarrow> min_diff (vardiff (pr_config R)) \<le> max_diff (vardiff (pr_config R)) \<Longrightarrow> \<exists>d. serve R ((e, subscribe_request) # reqs) p c =
     serve R reqs p (c\<lparr>c_session := Some (session_new (e_now e) (hex_encode (pr_prims R) (e_random e)) d)\<rparr>)"
  by (auto simp: handle_request_def subscribe_request_def on_subscribe_def param_str_def unwrap_or_def agent_version_def
      build_template_def fetch_status_def Let_def session_new_def clamp_def)

lemma serve_authorize:
  "c_session c = Some s \<Longrightarrow> serve R ((e, authorize_request) # reqs) p c =
     serve R reqs (p\<lparr>p_tracker := register_worker (e_now e) (s_extranonce1 s) ''unknown'' ''default'' (s_difficulty s) (p_tracker p)\<rparr>)
       (c\<lparr>c_session := Some (authorize ''unknown'' s), c_registered := Some (s_extranonce1 s)\<rparr>)"
  by (simp add: handle_request_def authorize_request_def unwrap_or_def on_authorize_def Let_def param_str_def authorize_def)

lemma serve_login:
  assumes "na_status (e_answers e) = None" "min_diff (vardiff (pr_config R)) \<le> max_diff (vardiff (pr_config R))"
  shows "\<exists>w s. serve R ((e, subscribe_request) # (e, authorize_request) # reqs) p c =
     serve R reqs (p\<lparr>p_tracker := (p_tracker p)\<lparr>connected_workers :=
         hm_insert (hex_encode (pr_prims R) (e_random e)) w (connected_workers (p_tracker p))\<rparr>\<rparr>)
       (c\<lparr>c_session := Some s, c_registered := Some (hex_encode (pr_prims R) (e_random e))\<rparr>)"
proof -
  obtain d where d: "serve R ((e, subscribe_request) # (e, authorize_request) # reqs) p c =
     serve R ((e, authorize_request) # reqs) p (c\<lparr>c_session := Some (session_new (e_now e) (hex_encode (pr_prims R) (e_random e)) d)\<rparr>)"
    using serve_subscribe[OF assms] by blast
  let ?s = "session_new (e_now e) (hex_encode (pr_prims R) (e_random e)) d"
  have x: "s_extranonce1 ?s = hex_encode (pr_prims R) (e_random e)" by (simp add: session_new_def)
  have "c_session (c\<lparr>c_session := Some ?s\<rparr>) = Some ?s" by simp
  from serve_authorize[OF this, unfolded register_worker_def x, of R e reqs p]
  show ?thesis unfolding d by (simp del: serve.simps) blast
qed

text \<open>
  A connection that subscribes and authorizes twice leaves its first registration behind: the
  worker stays among the connected ones after the connection has ended.
\<close>

theorem resubscribe_leaks_worker:
  assumes "na_status (e_answers e1) = None" "na_status (e_answers e2) = None"
    and "min_diff (vardiff (pr_config R)) \<le> max_diff (vardiff (pr_config R))"
    and "hex_encode (pr_prims R) (e_random e1) \<noteq> hex_encode (pr_prims R) (e_random e2)"
  shows "\<exists>p' c'. serve R [(e1, subscribe_request), (e1, authorize_request), (e2, subscribe_request), (e2, authorize_request)] p conn_new =
      Some (p', c') \<and> \<not> c_open c' \<and>
    hm_get (connected_workers (p_tracker p')) (hex_encode (pr_prims R) (e_random e1)) \<noteq> None"
proof -
  let ?h1 = "hex_encode (pr_prims R) (e_random e1)" and ?h2 = "hex_encode (pr_prims R) (e_random e2)"
  let ?r = "[(e2, subscribe_request), (e2, authorize_request)]"
  obtain w1 s1 where 1: "serve R ((e1, subscribe_request) # (e1, authorize_request) # ?r) p conn_new =
      serve R ?r (p\<lparr>p_tracker := (p_tracker p)\<lparr>connected_workers := hm_insert ?h1 w1 (connected_workers (p_tracker p))\<rparr>\<rparr>)
       (conn_new\<lparr>c_session := Some s1, c_registered := Some ?h1\<rparr>)" (is "_ = serve R ?r ?p1 ?c1")
    using serve_login[OF assms(1,3)] by blast
  obtain w2 s2 where 2: "serve R ?r ?p1 ?c1 =
      serve R [] (?p1\<lparr>p_tracker := (p_tracker ?p1)\<lparr>connected_workers := hm_insert ?h2 w2 (connected_workers (p_tracker ?p1))\<rparr>\<rparr>)
       (?c1\<lparr>c_session := Some s2, c_registered := Some ?h2\<rparr>)"
    using serve_login[OF assms(2,3)] by blast
  show ?thesis unfolding 1 2 using assms(4) by (auto simp: on_disconnect_def unregister_worker_def)
qed

theorem resubscribe_leaks_worker_witness:
  "\<exists>p' c'. serve sample_params [(sample_env, subscribe_request), (sample_env, authorize_request),
        (sample_env\<lparr>e_random := [5, 6, 7, 8]\<rparr>, subscribe_request),
        (sample_env\<lparr>e_random := [5, 6, 7, 8]\<rparr>, authorize_request)] sample_pool conn_new = Some (p', c') \<and> \<not> c_open c' \<and>
    hm_get (connected_workers (p_tracker p')) (hex_of [1, 2, 3, 4]) \<noteq> None"
  using resubscribe_leaks_worker[of sample_env "sample_env\<lparr>e_random := [5, 6, 7, 8]\<rparr>" sample_params sample_pool]
  by (simp add: sample_env_def sample_params_def var_diff_default_def del: serve.simps hex_of_Cons)

end
