(* ===== verification/Ip_Addr.thy ===== *)
theory Ip_Addr
  imports Text_Bytes
begin

text \<open>
  Internet addresses as the standard library reads and prints them (\<open>IpAddr::from_str\<close> and \<open>Display\<close>):
  dotted decimal octets without leading zeros, and eight groups of at most four hexadecimal digits, where
  \<open>::\<close> stands for a run of zeros and the last two groups may be written as an IPv4 address. A reader
  consumes a prefix of the text and returns the rest.
\<close>

type_synonym u16 = "16 word"

datatype ip_addr = V4 u8 u8 u8 u8 | V6 "u16 list"

section \<open>Reading\<close>

text \<open>A number of at most \<open>max_digits\<close> digits below \<open>bound\<close>.\<close>

definition read_number :: "nat \<Rightarrow> nat \<Rightarrow> bool \<Rightarrow> nat \<Rightarrow> string \<Rightarrow> (nat \<times> string) option" where
  "read_number radix max_digits allow_zero_prefix bound s =
     (let digits = takeWhile (\<lambda>c. case hex_val c of Some d \<Rightarrow> d < radix | None \<Rightarrow> False) s
      in if length digits > max_digits \<or> digits = [] then None
         else if \<not> allow_zero_prefix \<and> hd digits = CHR ''0'' \<and> length digits > 1 then None
         else (case read_radix radix 0 digits of
                 Some n \<Rightarrow> if n < bound then Some (n, drop (length digits) s) else None
               | None \<Rightarrow> None))"

definition read_given_char :: "char \<Rightarrow> string \<Rightarrow> string option" where
  "read_given_char c s = (case s of x # xs \<Rightarrow> if x = c then Some xs else None | [] \<Rightarrow> None)"

text \<open>The separator stands before every item but the first.\<close>

definition read_separator :: "char \<Rightarrow> nat \<Rightarrow> (string \<Rightarrow> 'a option) \<Rightarrow> string \<Rightarrow> 'a option" where
  "read_separator c index inner s = (if index > 0 then Option.bind (read_given_char c s) inner else inner s)"

definition read_octet :: "nat \<Rightarrow> string \<Rightarrow> (nat \<times> string) option" where
  "read_octet index = read_separator (CHR ''.'') index (read_number 10 3 False 256)"

definition read_ipv4_addr :: "string \<Rightarrow> ((nat \<times> nat \<times> nat \<times> nat) \<times> string) option" where
  "read_ipv4_addr s =
     Option.bind (read_octet 0 s) (\<lambda>(a, s1).
     Option.bind (read_octet 1 s1) (\<lambda>(b, s2).
     Option.bind (read_octet 2 s2) (\<lambda>(c, s3).
     Option.bind (read_octet 3 s3) (\<lambda>(d, s4). Some ((a, b, c, d), s4)))))"

text \<open>
  The groups read so far, whether the last two came from an IPv4 address, and the rest; \<open>left\<close> is the
  number of groups that still fit.
\<close>

fun read_groups :: "nat \<Rightarrow> nat \<Rightarrow> nat list \<Rightarrow> string \<Rightarrow> nat list \<times> bool \<times> string" where
  "read_groups i 0 groups s = (groups, False, s)"
| "read_groups i (Suc left) groups s =
     (case (if left > 0 then read_separator (CHR '':'') i read_ipv4_addr s else None) of
        Some ((a, b, c, d), s') \<Rightarrow> (groups @ [256 * a + b, 256 * c + d], True, s')
      | None \<Rightarrow>
          (case read_separator (CHR '':'') i (read_number 16 4 True (2 ^ 16)) s of
             Some (g, s') \<Rightarrow> read_groups (Suc i) left (groups @ [g]) s'
           | None \<Rightarrow> (groups, False, s)))"

definition read_ipv6_addr :: "string \<Rightarrow> (nat list \<times> string) option" where
  "read_ipv6_addr s =
     (let (head, head_ipv4, s1) = read_groups 0 8 [] s in
      if length head = 8 then Some (head, s1)
      else if head_ipv4 then None
      else
        Option.bind (read_given_char (CHR '':'') s1) (\<lambda>s2.
        Option.bind (read_given_char (CHR '':'') s2) (\<lambda>s3.
        let (tail, _, s4) = read_groups 0 (8 - (length head + 1)) [] s3
        in Some (head @ replicate (8 - length head - length tail) 0 @ tail, s4))))"

definition parse_ip :: "string \<Rightarrow> ip_addr option" where
  "parse_ip s =
     (case (case read_ipv4_addr s of
              Some ((a, b, c, d), r) \<Rightarrow> Some (V4 (of_nat a) (of_nat b) (of_nat c) (of_nat d), r)
            | None \<Rightarrow> map_option (\<lambda>(gs, r). (V6 (map of_nat gs), r)) (read_ipv6_addr s)) of
        Some (ip, r) \<Rightarrow> if r = [] then Some ip else None
      | None \<Rightarrow> None)"

section \<open>Printing\<close>

fun show_hex :: "nat \<Rightarrow> string" where
  "show_hex n = (if n < 16 then [hex_digit n] else show_hex (n div 16) @ [hex_digit (n mod 16)])"

declare show_hex.simps [simp del]

definition show_v4 :: "u8 \<Rightarrow> u8 \<Rightarrow> u8 \<Rightarrow> u8 \<Rightarrow> string" where
  "show_v4 a b c d = show_nat (unat a) @ ''.'' @ show_nat (unat b) @ ''.'' @ show_nat (unat c) @ ''.'' @ show_nat (unat d)"

fun show_groups :: "u16 list \<Rightarrow> string" where
  "show_groups [] = []"
| "show_groups [g] = show_hex (unat g)"
| "show_groups (g # gs) = show_hex (unat g) @ '':'' @ show_groups gs"

text \<open>The first of the longest runs of zeros, as its start and length.\<close>

fun zero_span :: "nat \<Rightarrow> nat \<times> nat \<Rightarrow> nat \<times> nat \<Rightarrow> u16 list \<Rightarrow> nat \<times> nat" where
  "zero_span i current longest [] = longest"
| "zero_span i current longest (g # gs) =
     (if g = 0
      then let current' = (if snd current = 0 then i else fst current, snd current + 1)
           in zero_span (Suc i) current' (if snd current' > snd longest then current' else longest) gs
      else zero_span (Suc i) (0, 0) longest gs)"

definition show_v6 :: "u16 list \<Rightarrow> string" where
  "show_v6 gs =
     (if take 6 gs = [0, 0, 0, 0, 0, 0xffff]
      then ''::ffff:'' @ show_v4 (of_nat (unat (gs ! 6) div 256)) (of_nat (unat (gs ! 6))) (of_nat (unat (gs ! 7) div 256)) (of_nat (unat (gs ! 7)))
      else
        let (start, n) = zero_span 0 (0, 0) (0, 0) gs
        in if n > 1 then show_groups (take start gs) @ ''::'' @ show_groups (drop (start + n) gs)
           else show_groups gs)"

fun show_ip :: "ip_addr \<Rightarrow> string" where
  "show_ip (V4 a b c d) = show_v4 a b c d"
| "show_ip (V6 gs) = show_v6 gs"

section \<open>An IPv4 address is read back\<close>

lemma read_number_show:
  assumes "n < bound" "n < 1000" "\<And>c cs. rest = c # cs \<Longrightarrow> hex_val c = None"
  shows "read_number 10 3 False bound (show_nat n @ rest) = Some (n, rest)"
proof -
  let ?p = "\<lambda>c. case hex_val c of Some d \<Rightarrow> d < 10 | None \<Rightarrow> False"
  have d: "\<forall>c\<in>set (show_nat n). ?p c" using show_nat_digits hex_val_dec_digit by fastforce
  have "takeWhile ?p rest = []" using assms(3) by (cases rest) auto
  then have t: "takeWhile ?p (show_nat n @ rest) = show_nat n" using d by (simp add: takeWhile_append)
  have "length (show_nat n) \<le> 3" using show_nat_length[of n 3] assms(2) by simp
  moreover have "\<not> (hd (show_nat n) = CHR ''0'' \<and> length (show_nat n) > 1)"
    using show_nat_hd_zero[of n] by (cases n) (simp_all add: show_nat.simps[of 0])
  ultimately show ?thesis using t read_radix_show_nat[of n] assms(1) by (simp add: read_number_def Let_def)
qed

lemma read_octet_show:
  assumes "\<And>c cs. rest = c # cs \<Longrightarrow> hex_val c = None"
  shows "read_octet 0 (show_nat (unat (a :: u8)) @ rest) = Some (unat a, rest)"
    "0 < i \<Longrightarrow> read_octet i (CHR ''.'' # show_nat (unat a) @ rest) = Some (unat a, rest)"
  using read_number_show[of "unat a" 256 rest] assms unat_u8_lt[of a]
  by (simp_all add: read_octet_def read_separator_def read_given_char_def)

theorem ipv4_read_back: "parse_ip (show_ip (V4 a b c d)) = Some (V4 a b c d)"
proof -
  have dot: "hex_val (CHR ''.'') = None" by (simp add: hex_val_def less_eq_char_def)
  have "read_ipv4_addr (show_v4 a b c d) = Some ((unat a, unat b, unat c, unat d), [])"
    using dot read_octet_show(1)[of "''.'' @ show_nat (unat b) @ ''.'' @ show_nat (unat c) @ ''.'' @ show_nat (unat d)" a]
      read_octet_show(2)[of "''.'' @ show_nat (unat c) @ ''.'' @ show_nat (unat d)" 1 b]
      read_octet_show(2)[of "''.'' @ show_nat (unat d)" 2 c] read_octet_show(2)[of "[]" 3 d]
    by (simp add: read_ipv4_addr_def show_v4_def)
  then show ?thesis by (simp add: parse_ip_def)
qed

end
