(* ===== verification/Dns.thy ===== *)
theory Dns
  imports Ip_Addr Hash_Map Float64
begin

text \<open>
  The DNS seed server (\<open>astram-dns/src/main.rs\<close>): nodes register with their address and height, other
  nodes ask for a list of the best ones, and two background tasks remove entries that are old or cannot
  be reached. The state is the map from \<open>address:port\<close> to the entry. Times are seconds in \<open>i64\<close>; the
  clock, the headers and the address of a client, the outcome of connection attempts and the order in
  which the map is iterated are arguments. Each handler takes the lock once; a health check takes it
  twice, and the state machine has a step for its second half only, since the first one just reads.
\<close>

record node_info =
  ni_address :: string
  ni_port :: u16
  ni_version :: string
  ni_height :: u64
  ni_last_seen :: int
  ni_first_seen :: int
  ni_uptime_hours :: f64

record app_state =
  nodes :: "node_info hash_map"
  max_age :: u64

record register_request =
  rq_address :: "string option"
  rq_port :: u16
  rq_version :: string
  rq_height :: u64

record register_response =
  rs_status :: nat
  rs_success :: bool
  rs_message :: string
  rs_node_count :: nat
  rs_address :: string
  rs_port :: u16

definition app_new :: "u64 \<Rightarrow> app_state" where
  "app_new age = \<lparr>nodes = [], max_age = age\<rparr>"

section \<open>Removal\<close>

definition cleanup_stale_nodes :: "int \<Rightarrow> app_state \<Rightarrow> app_state" where
  "cleanup_stale_nodes now st = st\<lparr>nodes := filter (\<lambda>(_, node).
     let age = i64 (now - ni_last_seen node) in age < sint (max_age st)) (nodes st)\<rparr>"

definition health_targets :: "(node_info hash_map \<Rightarrow> node_info hash_map) \<Rightarrow> app_state \<Rightarrow> (string \<times> string \<times> u16) list" where
  "health_targets ord st = map (\<lambda>(k, node). (k, ni_address node, ni_port node)) (ord (nodes st))"

definition unreachable :: "(string \<Rightarrow> bool) \<Rightarrow> (string \<times> string \<times> u16) list \<Rightarrow> string list" where
  "unreachable reach targets =
     map fst (filter (\<lambda>(_, address, port). \<not> reach (address @ '':'' @ show_nat (unat port))) targets)"

definition remove_nodes :: "string list \<Rightarrow> app_state \<Rightarrow> app_state" where
  "remove_nodes to_remove st = st\<lparr>nodes := fold hm_remove to_remove (nodes st)\<rparr>"

definition health_check_nodes :: "(node_info hash_map \<Rightarrow> node_info hash_map) \<Rightarrow> (string \<Rightarrow> bool) \<Rightarrow> app_state \<Rightarrow> app_state" where
  "health_check_nodes ord reach st =
     (let node_addresses = health_targets ord st
      in if node_addresses = [] then st else remove_nodes (unreachable reach node_addresses) st)"

section \<open>Registration\<close>

definition is_ipv4_documentation :: "u8 \<Rightarrow> u8 \<Rightarrow> u8 \<Rightarrow> bool" where
  "is_ipv4_documentation a b c \<longleftrightarrow>
     (a = 192 \<and> b = 0 \<and> c = 2) \<or> (a = 198 \<and> b = 51 \<and> c = 100) \<or> (a = 203 \<and> b = 0 \<and> c = 113)"

text \<open>The classes of the standard library: private, loopback, link-local, multicast, unspecified, broadcast.\<close>

fun is_public_ip :: "ip_addr \<Rightarrow> bool" where
  "is_public_ip (V4 a b c d) \<longleftrightarrow>
     \<not> (a = 10 \<or> a = 172 \<and> 16 \<le> b \<and> b \<le> 31 \<or> a = 192 \<and> b = 168
      \<or> a = 127
      \<or> a = 169 \<and> b = 254
      \<or> 224 \<le> a \<and> a \<le> 239
      \<or> a = 0 \<and> b = 0 \<and> c = 0 \<and> d = 0
      \<or> a = 255 \<and> b = 255 \<and> c = 255 \<and> d = 255
      \<or> is_ipv4_documentation a b c)"
| "is_public_ip (V6 gs) \<longleftrightarrow>
     \<not> (gs = [0, 0, 0, 0, 0, 0, 0, 1]
      \<or> and (gs ! 0) 0xfe00 = 0xfc00
      \<or> and (gs ! 0) 0xff00 = 0xff00
      \<or> gs = [0, 0, 0, 0, 0, 0, 0, 0]
      \<or> and (gs ! 0) 0xffc0 = 0xfe80
      \<or> and (gs ! 0) 0xffc0 = 0xfec0
      \<or> gs ! 0 = 0x2001 \<and> gs ! 1 = 0x0db8)"

text \<open>\<open>forwarded\<close> is the value of the header \<open>x-forwarded-for\<close>, if it is there and readable.\<close>

definition client_ip :: "string option \<Rightarrow> ip_addr \<Rightarrow> string" where
  "client_ip forwarded addr =
     (case forwarded of Some v \<Rightarrow> trim (hd (split_on (CHR '','') v)) | None \<Rightarrow> show_ip addr)"

definition refused :: "app_state \<Rightarrow> string \<Rightarrow> string \<Rightarrow> u16 \<Rightarrow> app_state \<times> register_response" where
  "refused st message address port =
     (st, \<lparr>rs_status = 400, rs_success = False, rs_message = message, rs_node_count = length (nodes st),
        rs_address = address, rs_port = port\<rparr>)"

definition insert_node :: "int \<Rightarrow> string \<Rightarrow> register_request \<Rightarrow> app_state \<Rightarrow> app_state" where
  "insert_node now node_address req st =
     (let node_id = node_address @ '':'' @ show_nat (unat (rq_port req));
          (first_seen, uptime_hours) = (case hm_get (nodes st) node_id of
             Some existing \<Rightarrow>
               (ni_first_seen existing, f64_div (f64_of_int (i64 (now - ni_first_seen existing))) (Fin 3600))
           | None \<Rightarrow> (now, Fin 0))
      in st\<lparr>nodes := hm_insert node_id \<lparr>ni_address = node_address, ni_port = rq_port req, ni_version = rq_version req,
           ni_height = rq_height req, ni_last_seen = now, ni_first_seen = first_seen, ni_uptime_hours = uptime_hours\<rparr>
           (nodes st)\<rparr>)"

definition register_node :: "string option \<Rightarrow> ip_addr \<Rightarrow> int \<Rightarrow> register_request \<Rightarrow> app_state \<Rightarrow> app_state \<times> register_response" where
  "register_node forwarded addr now req st =
     (let observed = client_ip forwarded addr;
          node_address = (case rq_address req of Some a \<Rightarrow> a | None \<Rightarrow> observed)
      in if node_address \<noteq> observed
         then refused st ''Provided IP does not match observed client IP'' node_address (rq_port req)
         else
           (case parse_ip node_address of
              None \<Rightarrow> refused st ''Invalid node IP address'' node_address (rq_port req)
            | Some node_ip \<Rightarrow>
                if rq_port req = 0 then refused st ''Invalid node port'' node_address (rq_port req)
                else if \<not> is_public_ip node_ip
                  then refused st ''Node IP is not publicly reachable'' node_address (rq_port req)
                else
                  let st' = insert_node now node_address req st;
                      node_id = node_address @ '':'' @ show_nat (unat (rq_port req))
                  in (st', \<lparr>rs_status = 200, rs_success = True,
                        rs_message = ''Node '' @ node_id @ '' registered successfully and is reachable'',
                        rs_node_count = length (nodes st'), rs_address = node_address, rs_port = rq_port req\<rparr>)))"

section \<open>Lists and statistics\<close>

text \<open>The score: 40% height, 30% uptime up to a week, 30% how recently the node was seen.\<close>

definition node_score :: "f64 \<Rightarrow> int \<Rightarrow> node_info \<Rightarrow> f64" where
  "node_score max_height now n =
     (let height_score = f64_mul (f64_div (f64_of_int (uint (ni_height n))) (f64_max max_height (Fin 1))) (f64_round (4 / 10));
          uptime_score = f64_mul (f64_div (f64_min (ni_uptime_hours n) (Fin 168)) (Fin 168)) (f64_round (3 / 10));
          recency = f64_mul (f64_div (f64_max (f64_sub (Fin 300) (f64_of_int (i64 (now - ni_last_seen n)))) (Fin 0)) (Fin 300))
            (f64_round (3 / 10))
      in f64_add (f64_add height_score uptime_score) recency)"

text \<open>\<open>.max().unwrap_or(1) as f64\<close>\<close>

definition max_height_of :: "node_info list \<Rightarrow> f64" where
  "max_height_of ns = f64_of_int (uint (if ns = [] then 1 else fold max (map ni_height ns) 0))"

definition get_nodes :: "(node_info hash_map \<Rightarrow> node_info hash_map) \<Rightarrow> int \<Rightarrow> nat option \<Rightarrow> u64 option \<Rightarrow> app_state
    \<Rightarrow> node_info list \<times> nat" where
  "get_nodes ord now limit min_height st =
     (let all = map snd (ord (nodes st));
          node_list = (case min_height of Some h \<Rightarrow> filter (\<lambda>n. ni_height n \<ge> h) all | None \<Rightarrow> all);
          sorted = sort_desc (node_score (max_height_of node_list) now) node_list;
          answer = (case limit of Some l \<Rightarrow> take l sorted | None \<Rightarrow> sorted)
      in (answer, length answer))"

definition dns_stats :: "(node_info hash_map \<Rightarrow> node_info hash_map) \<Rightarrow> app_state \<Rightarrow> nat \<times> u64 \<times> u64 \<times> nat hash_map" where
  "dns_stats ord st =
     (let (versions, max_height, total_height) = fold (\<lambda>(_, node) (versions, max_height, total_height).
            (hm_insert (ni_version node) (get_or 0 versions (ni_version node) + 1) versions,
             max max_height (ni_height node), total_height + ni_height node)) (ord (nodes st)) ([], 0, 0 :: u64);
          node_count = length (nodes st);
          avg_height = (if node_count > 0 then total_height div of_nat node_count else 0)
      in (node_count, max_height, avg_height, versions))"

section \<open>Every entry is sound\<close>

definition node_ok :: "string \<Rightarrow> node_info \<Rightarrow> bool" where
  "node_ok k n \<longleftrightarrow> k = ni_address n @ '':'' @ show_nat (unat (ni_port n)) \<and> ni_port n \<noteq> 0 \<and>
     (\<exists>ip. parse_ip (ni_address n) = Some ip \<and> is_public_ip ip) \<and> fin_le (2 ^ 70) (ni_uptime_hours n)"

definition registry_ok :: "app_state \<Rightarrow> bool" where
  "registry_ok st \<longleftrightarrow> hm_wf (nodes st) \<and> (\<forall>k n. hm_get (nodes st) k = Some n \<longrightarrow> node_ok k n)"

inductive dns_step :: "app_state \<Rightarrow> app_state \<Rightarrow> bool" where
  register: "register_node forwarded addr now req st = (st', response) \<Longrightarrow> dns_step st st'"
| cleanup: "dns_step st (cleanup_stale_nodes now st)"
| health: "dns_step st (remove_nodes ids st)"

lemma i64_bounded: "\<bar>i64 n\<bar> \<le> 2 ^ 64"
  using is_i64_i64[of n] by (simp add: is_i64_def abs_le_iff)

lemma uptime_bounded: "fin_le (2 ^ 70) (f64_div (f64_of_int (i64 n)) (Fin 3600))"
  using fin_div[OF fin_of_int[OF i64_bounded], of "Fin 3600" 3600 n] by (rule fin_mono) auto

lemma insert_node_ok:
  assumes "registry_ok st" "parse_ip a = Some ip" "is_public_ip ip" "rq_port req \<noteq> 0"
  shows "registry_ok (insert_node now a req st)"
  using assms uptime_bounded
  by (auto simp: registry_ok_def insert_node_def Let_def node_ok_def fin_le_def split: option.splits if_splits)

lemma register_node_cases:
  assumes "register_node forwarded addr now req st = (st', response)"
  obtains "st' = st" "\<not> rs_success response" "rs_status response = 400"
  | ip where "st' = insert_node now (client_ip forwarded addr) req st" "parse_ip (client_ip forwarded addr) = Some ip"
      "is_public_ip ip" "rq_port req \<noteq> 0" "rs_success response" "rs_status response = 200"
      "rs_address response = client_ip forwarded addr" "rs_port response = rq_port req"
  using assms by (auto simp: register_node_def refused_def Let_def split: if_splits option.splits)

lemma filter_get:
  assumes "hm_wf m" "hm_get (filter P m) k = Some v"
  shows "hm_get m k = Some v"
proof -
  have "hm_wf (filter P m)" using assms(1) by (simp add: hm_wf_def distinct_map_filter)
  then show ?thesis using assms by (auto simp: hm_entry_iff[symmetric])
qed

lemma fold_remove:
  "hm_wf m \<Longrightarrow> hm_wf (fold hm_remove ks m)" "hm_get (fold hm_remove ks m) k = (if k \<in> set ks then None else hm_get m k)"
  by (induction ks arbitrary: m) auto

lemma dns_step_ok: "dns_step st st' \<Longrightarrow> registry_ok st \<Longrightarrow> registry_ok st'"
proof (induction rule: dns_step.induct)
  case (register forwarded addr now req st st' response)
  from register(1) show ?case
  proof (cases rule: register_node_cases)
    case (2 ip)
    then show ?thesis using insert_node_ok register(2) by simp
  qed (use register(2) in simp)
next
  case (cleanup st now)
  then show ?case
    by (auto simp: registry_ok_def cleanup_stale_nodes_def hm_wf_def distinct_map_filter dest: filter_get[rotated, unfolded hm_wf_def])
next
  case (health st ids)
  then show ?case by (auto simp: registry_ok_def remove_nodes_def fold_remove split: if_splits)
qed

lemma app_new_ok: "registry_ok (app_new age)"
  by (simp add: app_new_def registry_ok_def)

lemma reachable_registry_ok: "dns_step\<^sup>*\<^sup>* (app_new age) st \<Longrightarrow> registry_ok st"
  by (induction rule: rtranclp_induct) (auto intro: app_new_ok dns_step_ok)

text \<open>
  C21. Whatever clients send, every entry of the registry stands under its own \<open>address:port\<close>, once, with a
  port that is not 0 and an address that parses and is public.
\<close>

theorem registry_sound:
  assumes "dns_step\<^sup>*\<^sup>* (app_new age) st"
  shows "distinct (hm_keys (nodes st)) \<and> (\<forall>k n. hm_get (nodes st) k = Some n \<longrightarrow>
    k = ni_address n @ '':'' @ show_nat (unat (ni_port n)) \<and> ni_port n \<noteq> 0 \<and>
    (\<exists>ip. parse_ip (ni_address n) = Some ip \<and> is_public_ip ip))"
  using reachable_registry_ok[OF assms] unfolding registry_ok_def node_ok_def hm_wf_def hm_keys_def by blast

section \<open>Lists are the best nodes\<close>

lemma height_bounded: "\<bar>uint (h :: u64)\<bar> \<le> 2 ^ 64"
  using uint_lt2p[of h] by simp

lemma at_least_one:
  assumes "fin_le b x"
  shows "\<exists>s. f64_max x (Fin 1) = Fin s \<and> 1 \<le> \<bar>s\<bar>"
  using assms by (auto simp: fin_le_def f64_max_def)

lemma score_finite:
  assumes "fin_le (2 ^ 70) (ni_uptime_hours n)" "fin_le b max_height"
  shows "fin_le (2 ^ 82) (node_score max_height now n)"
proof -
  have c: "fin_le (2 ^ 2) (f64_round (4 / 10))" "fin_le (2 ^ 2) (f64_round (3 / 10))"
    using fin_round[of "4 / 10" 0] fin_round[of "3 / 10" 0] by simp_all
  obtain s where s: "f64_max max_height (Fin 1) = Fin s" "1 \<le> \<bar>s\<bar>" using at_least_one[OF assms(2)] by blast
  have h: "fin_le (2 ^ 66) (f64_of_int (uint (ni_height n)))" using fin_of_int[OF height_bounded[of "ni_height n"]] by simp
  have "fin_le (2 ^ 72) (f64_mul (f64_div (f64_of_int (uint (ni_height n))) (f64_max max_height (Fin 1))) (f64_round (4 / 10)))"
    using fin_mul[OF fin_div[OF h s] c(1)] by simp
  then have 1: "fin_le (2 ^ 76) (f64_mul (f64_div (f64_of_int (uint (ni_height n))) (f64_max max_height (Fin 1))) (f64_round (4 / 10)))"
    by (rule fin_mono) simp
  have k: "fin_le (2 ^ 70) (Fin 168)" "fin_le (2 ^ 66) (Fin 300)" "fin_le (2 ^ 69) (Fin 0)" by (simp_all add: fin_le_def)
  have 2: "fin_le (2 ^ 76) (f64_mul (f64_div (f64_min (ni_uptime_hours n) (Fin 168)) (Fin 168)) (f64_round (3 / 10)))"
    using fin_mul[OF fin_div[OF fin_min_max(1)[OF assms(1) k(1)], of "Fin 168" 168] c(2)] by simp
  have t: "fin_le (2 ^ 66) (f64_of_int (i64 (now - ni_last_seen n)))" using fin_of_int[OF i64_bounded] by simp
  have "fin_le (2 ^ 69) (f64_sub (Fin 300) (f64_of_int (i64 (now - ni_last_seen n))))" using fin_sub[OF k(2) t] by simp
  from fin_div[OF fin_min_max(2)[OF this k(3)], of "Fin 300" 300]
  have q: "fin_le (2 ^ 71) (f64_div (f64_max (f64_sub (Fin 300) (f64_of_int (i64 (now - ni_last_seen n)))) (Fin 0)) (Fin 300))" by simp
  have "fin_le (2 ^ 75) (f64_mul (f64_div (f64_max (f64_sub (Fin 300) (f64_of_int (i64 (now - ni_last_seen n)))) (Fin 0)) (Fin 300))
      (f64_round (3 / 10)))"
    using fin_mul[OF q c(2)] by simp
  then have 3: "fin_le (2 ^ 79) (f64_mul (f64_div (f64_max (f64_sub (Fin 300) (f64_of_int (i64 (now - ni_last_seen n)))) (Fin 0)) (Fin 300))
      (f64_round (3 / 10)))" by (rule fin_mono) simp
  have "fin_le (2 ^ 79) (f64_add (f64_mul (f64_div (f64_of_int (uint (ni_height n))) (f64_max max_height (Fin 1))) (f64_round (4 / 10)))
      (f64_mul (f64_div (f64_min (ni_uptime_hours n) (Fin 168)) (Fin 168)) (f64_round (3 / 10))))" using fin_add[OF 1 2] by simp
  from fin_add[OF this 3] show ?thesis by (simp add: node_score_def Let_def)
qed

lemma mset_insert_desc: "mset (insert_desc f x ys) = add_mset x (mset ys)"
  by (induction ys) auto

lemma mset_sort_desc: "mset (sort_desc f xs) = mset xs"
  by (induction xs) (simp_all add: sort_desc_def mset_insert_desc)

definition eligible_nodes :: "u64 option \<Rightarrow> app_state \<Rightarrow> node_info multiset" where
  "eligible_nodes min_height st = filter_mset (\<lambda>n. case min_height of Some h \<Rightarrow> ni_height n \<ge> h | None \<Rightarrow> True) (mset (map snd (nodes st)))"

lemma max_height_of_mset:
  assumes "mset xs = mset ys"
  shows "max_height_of xs = max_height_of ys"
proof -
  have "fold max (map ni_height zs) 0 = Max (insert 0 (ni_height ` set zs))" for zs
    using Max.set_eq_fold[of 0 "map ni_height zs"] by simp
  moreover have "set xs = set ys" using assms by (metis set_mset_mset)
  ultimately have "fold max (map ni_height xs) 0 = fold max (map ni_height ys) 0" by metis
  then show ?thesis using \<open>set xs = set ys\<close> by (auto simp: max_height_of_def)
qed

lemma listed_best:
  assumes "dns_step\<^sup>*\<^sup>* (app_new age) st" "arranges ord" "get_nodes ord now limit min_height st = (answer, n)"
  shows "\<exists>rest. mset (answer @ rest) = eligible_nodes min_height st \<and>
    sorted_wrt (\<lambda>a b. f64_le (node_score (max_height_of (answer @ rest)) now b) (node_score (max_height_of (answer @ rest)) now a))
      (answer @ rest) \<and>
    n = length answer \<and> (case limit of Some l \<Rightarrow> n = min l (size (eligible_nodes min_height st)) | None \<Rightarrow> rest = [])"
proof -
  define ns where "ns = (case min_height of Some h \<Rightarrow> filter (\<lambda>n. ni_height n \<ge> h) (map snd (ord (nodes st))) | None \<Rightarrow> map snd (ord (nodes st)))"
  define score where "score = node_score (max_height_of ns) now"
  define l where "l = (case limit of Some l \<Rightarrow> l | None \<Rightarrow> length ns)"
  have r: "registry_ok st" by (rule reachable_registry_ok[OF assms(1)])
  have m: "mset ns = eligible_nodes min_height st"
    using assms(2) by (auto simp: ns_def eligible_nodes_def mset_filter split: option.splits)
  have len: "length (sort_desc score ns) = length ns" using mset_sort_desc by (metis size_mset)
  have mh: "fin_le (2 ^ 66) (max_height_of ns)" using fin_of_int[OF height_bounded] by (simp add: max_height_of_def)
  have "fin_le (2 ^ 82) (score x)" if "x \<in> set ns" for x
  proof -
    have "x \<in> snd ` set (nodes st)" using that assms(2) by (auto simp: ns_def split: option.splits)
    then obtain k where "hm_get (nodes st) k = Some x" using r by (auto simp: registry_ok_def hm_entry_iff)
    then have "fin_le (2 ^ 70) (ni_uptime_hours x)" using r unfolding registry_ok_def node_ok_def by blast
    then show ?thesis unfolding score_def using mh by (rule score_finite)
  qed
  then have srt: "sorted_wrt (\<lambda>a b. f64_le (score b) (score a)) (sort_desc score ns)"
    by (intro conjunct1[OF sorted_sort_desc[of ns "2 ^ 82" score]]) (rule ballI)
  have "get_nodes ord now limit min_height st = (take l (sort_desc score ns), length (take l (sort_desc score ns)))"
    unfolding get_nodes_def Let_def ns_def[symmetric] score_def[symmetric] l_def using len by (cases limit) simp_all
  then have a: "answer = take l (sort_desc score ns)" "n = length answer" using assms(3) by simp_all
  show ?thesis
  proof (intro exI conjI)
    show "mset (answer @ drop l (sort_desc score ns)) = eligible_nodes min_height st"
      unfolding a(1) append_take_drop_id by (simp add: mset_sort_desc m)
    have "max_height_of (sort_desc score ns) = max_height_of ns" by (intro max_height_of_mset mset_sort_desc)
    then show "sorted_wrt (\<lambda>a b. f64_le (node_score (max_height_of (answer @ drop l (sort_desc score ns))) now b)
        (node_score (max_height_of (answer @ drop l (sort_desc score ns))) now a)) (answer @ drop l (sort_desc score ns))"
      unfolding a(1) append_take_drop_id using srt by (simp add: score_def)
    show "case limit of Some l \<Rightarrow> n = min l (size (eligible_nodes min_height st)) | None \<Rightarrow> drop l (sort_desc score ns) = []"
      using a len by (simp add: l_def m[symmetric] min.commute split: option.splits)
  qed (rule a(2))
qed

text \<open>
  A list of nodes is the best part of the registered nodes that are high enough: together with the nodes
  left out it is those nodes in descending order of the score, none is missing unless the limit is
  reached, and every score is a finite number.
\<close>

theorem best_nodes_listed:
  assumes "dns_step\<^sup>*\<^sup>* (app_new age) st" "arranges ord" "get_nodes ord now limit min_height st = (answer, n)"
  shows "\<exists>rest. mset (answer @ rest) = eligible_nodes min_height st \<and>
    sorted_wrt (\<lambda>a b. f64_le (node_score (max_height_of (answer @ rest)) now b) (node_score (max_height_of (answer @ rest)) now a))
      (answer @ rest) \<and>
    n = length answer \<and> (case limit of Some l \<Rightarrow> n = min l (size (eligible_nodes min_height st)) | None \<Rightarrow> rest = [])"
  using assms by (rule listed_best)

section \<open>Registering and expiring\<close>

text \<open>
  A registration that is answered with success is in the registry with the given data, whatever was there
  before, keeps the time of the first registration, and changes no other entry; a refused one changes nothing.
\<close>

theorem registration_effect:
  assumes "register_node forwarded addr now req st = (st', response)"
  shows "(\<not> rs_success response \<and> rs_status response = 400 \<and> st' = st) \<or>
    (rs_success response \<and> rs_status response = 200 \<and> max_age st' = max_age st \<and>
     (\<exists>n. nodes st' = hm_insert (rs_address response @ '':'' @ show_nat (unat (rq_port req))) n (nodes st) \<and>
       ni_address n = rs_address response \<and> ni_port n = rq_port req \<and> ni_version n = rq_version req \<and> ni_height n = rq_height req \<and>
       ni_last_seen n = now \<and>
       ni_first_seen n = (case hm_get (nodes st) (rs_address response @ '':'' @ show_nat (unat (rq_port req))) of
         Some old \<Rightarrow> ni_first_seen old | None \<Rightarrow> now)))"
  using assms
proof (cases rule: register_node_cases)
  case (2 ip)
  then show ?thesis by (auto simp: insert_node_def Let_def split: option.splits)
qed simp

text \<open>A node that registers again before it is old survives the clean-up; one that does not is removed.\<close>

lemma cleanup_keeps:
  assumes "hm_wf (nodes st)"
  shows "hm_get (nodes (cleanup_stale_nodes now st)) k =
    (case hm_get (nodes st) k of
       Some n \<Rightarrow> if i64 (now - ni_last_seen n) < sint (max_age st) then Some n else None
     | None \<Rightarrow> None)"
proof -
  let ?m = "filter (\<lambda>(_, node). i64 (now - ni_last_seen node) < sint (max_age st)) (nodes st)"
  have w: "hm_wf ?m" using assms by (simp add: hm_wf_def distinct_map_filter)
  have eq: "hm_get ?m k = Some n \<longleftrightarrow> hm_get (nodes st) k = Some n \<and> i64 (now - ni_last_seen n) < sint (max_age st)" for n
    using assms w by (auto simp: hm_entry_iff[symmetric])
  have e: "nodes (cleanup_stale_nodes now st) = ?m" by (simp add: cleanup_stale_nodes_def Let_def)
  show ?thesis
  proof (cases "hm_get (nodes st) k")
    case None
    then have "hm_get ?m k \<noteq> Some x" for x using eq[of x] by simp
    then have "hm_get ?m k = None" by (metis not_None_eq)
    then show ?thesis unfolding e using None by simp
  next
    case (Some n)
    then have "hm_get ?m k \<noteq> Some x" if "x \<noteq> n" for x using eq[of x] that by simp
    then show ?thesis unfolding e using Some eq[of n] by (cases "hm_get ?m k") (simp_all, metis)
  qed
qed

text \<open>
  The header is taken on trust: any client registers any public address, with any height, and a height
  of \<open>2^64 - 1\<close> puts it before all others.
\<close>

theorem forwarded_registration:
  assumes "parse_ip a = Some ip" "is_public_ip ip" "trim a = a" "CHR '','' \<notin> set a" "port \<noteq> 0"
  shows "\<exists>st'. register_node (Some a) addr now \<lparr>rq_address = None, rq_port = port, rq_version = v, rq_height = h\<rparr> st =
      (st', \<lparr>rs_status = 200, rs_success = True,
        rs_message = ''Node '' @ (a @ '':'' @ show_nat (unat port)) @ '' registered successfully and is reachable'',
        rs_node_count = length (nodes st'), rs_address = a, rs_port = port\<rparr>) \<and>
    (\<exists>n. hm_get (nodes st') (a @ '':'' @ show_nat (unat port)) = Some n \<and> ni_height n = h)"
proof -
  have "split_on (CHR '','') s = [s]" if "CHR '','' \<notin> set s" for s
    using that by (induction s) auto
  then have "client_ip (Some a) addr = a" using assms(3,4) by (simp add: client_ip_def)
  then show ?thesis using assms(1,2,5) by (auto simp: register_node_def Let_def insert_node_def split: option.splits)
qed

text \<open>An IPv4 address written as an IPv6 one is not looked at: the private address \<open>10.0.0.1\<close> passes as public.\<close>

lemma mapped_private_is_public:
  "parse_ip ''::ffff:10.0.0.1'' = Some (V6 [0, 0, 0, 0, 0, 0xffff, 0x0a00, 1])" "is_public_ip (V6 [0, 0, 0, 0, 0, 0xffff, 0x0a00, 1])"
  by code_simp+

section \<open>An instance\<close>

definition sample_request :: register_request where
  "sample_request = \<lparr>rq_address = None, rq_port = 8335, rq_version = ''1'', rq_height = 7\<rparr>"

definition sample_registered :: app_state where
  "sample_registered = fst (register_node None (V4 8 8 8 8) 100 sample_request (app_new 3600))"

lemma sample_registration: "register_node None (V4 8 8 8 8) 100 sample_request (app_new 3600) =
    (sample_registered, snd (register_node None (V4 8 8 8 8) 100 sample_request (app_new 3600)))"
  by (simp add: sample_registered_def)

lemma sample_registry: "dns_step\<^sup>*\<^sup>* (app_new 3600) sample_registered"
  using dns_step.register[OF sample_registration] by blast

lemma sample_nodes: "nodes sample_registered = [(''8.8.8.8:8335'', \<lparr>ni_address = ''8.8.8.8'', ni_port = 8335, ni_version = ''1'',
    ni_height = 7, ni_last_seen = 100, ni_first_seen = 100, ni_uptime_hours = Fin 0\<rparr>)]"
  by code_simp

theorem registry_sound_witness:
  "dns_step\<^sup>*\<^sup>* (app_new 3600) sample_registered \<and> distinct (hm_keys (nodes sample_registered)) \<and> nodes sample_registered \<noteq> []"
  using registry_sound[OF sample_registry] sample_registry sample_nodes by simp

theorem best_nodes_listed_witness:
  "\<exists>answer. get_nodes id 200 (Some 5) None sample_registered = (answer, 1) \<and> map ni_address answer = [''8.8.8.8'']"
proof -
  obtain answer n where g: "get_nodes id 200 (Some 5) None sample_registered = (answer, n)" by fastforce
  have "arranges id" by (simp add: arranges_def)
  from best_nodes_listed[OF sample_registry this g] obtain rest where
    r: "mset (answer @ rest) = eligible_nodes None sample_registered" "n = length answer" "n = min 5 (size (eligible_nodes None sample_registered))"
    by auto
  have e: "eligible_nodes None sample_registered = {#snd (hd (nodes sample_registered))#}"
    by (simp add: eligible_nodes_def sample_nodes)
  have "answer = [snd (hd (nodes sample_registered))]" using r(1,2,3) e by (cases answer) auto
  then show ?thesis using g r e by (simp add: sample_nodes)
qed

theorem registration_effect_witness:
  "rs_success (snd (register_node None (V4 8 8 8 8) 100 sample_request (app_new 3600))) \<and>
   (\<exists>n. nodes sample_registered = hm_insert ''8.8.8.8:8335'' n [] \<and> ni_height n = 7)"
proof -
  have s: "rs_success (snd (register_node None (V4 8 8 8 8) 100 sample_request (app_new 3600)))"
    "rs_address (snd (register_node None (V4 8 8 8 8) 100 sample_request (app_new 3600))) = ''8.8.8.8''" by code_simp+
  have "show_nat (unat (8335 :: u16)) = ''8335''" by code_simp
  then show ?thesis using registration_effect[OF sample_registration] s by (auto simp: sample_request_def app_new_def)
qed

theorem forwarded_registration_witness:
  "\<exists>n. hm_get (nodes (fst (register_node (Some ''8.8.4.4'') (V4 1 2 3 4) 100 \<lparr>rq_address = None, rq_port = 8335, rq_version = ''1'', rq_height = - 1\<rparr>
     (app_new 3600)))) (''8.8.4.4'' @ '':'' @ show_nat (unat (8335 :: u16))) = Some n \<and> ni_height n = - 1"
proof -
  have "parse_ip ''8.8.4.4'' = Some (V4 8 8 4 4)" "is_public_ip (V4 8 8 4 4)" "trim ''8.8.4.4'' = ''8.8.4.4''" by code_simp+
  from forwarded_registration[OF this, of 8335 "V4 1 2 3 4" 100 "''1''" "- 1" "app_new 3600"] show ?thesis by auto
qed

end
