(* ===== verification/Mempool.thy ===== *)
theory Mempool
  imports Hash_Map Sample_Chain
begin

text \<open>
  The node's pool of pending transactions: \<open>MempoolState\<close> with its limits (\<open>node/src/lib.rs\<close>), the
  three ways in (the peer-to-peer handler \<open>set_on_tx\<close> of \<open>p2p/service.rs\<close>, and \<open>POST /tx\<close> and
  \<open>POST /tx/relay\<close> of \<open>server/mod.rs\<close>) and the ways out (a block that confirms, eviction, expiry).
  \<^const>\<open>None\<close> is a panic: of \<open>U256\<close> addition on overflow, or of \<open>as_u64\<close> on a value beyond 64 bits.
  A panic under the pool's lock poisons it, so that no later state of the pool exists. The clock is
  the argument \<open>now\<close>; log output is left out.
\<close>

section \<open>State and limits\<close>

record mempool_state =
  pending :: "transaction list"
  seen_tx :: "int hash_map"

definition mempool_default :: mempool_state where
  "mempool_default = \<lparr>pending = [], seen_tx = []\<rparr>"

definition MAX_MEMPOOL_SIZE :: nat where
  "MAX_MEMPOOL_SIZE = 10000"

definition MAX_MEMPOOL_BYTES :: nat where
  "MAX_MEMPOOL_BYTES = 300000000"

definition MEMPOOL_EXPIRY_TIME :: int where
  "MEMPOOL_EXPIRY_TIME = 86400"

text \<open>\<open>U256::as_u64\<close> panics on a value beyond 64 bits.\<close>

definition u256_as_u64 :: "u256 \<Rightarrow> u64 option" where
  "u256_as_u64 x = (if unat x < 2 ^ 64 then Some (ucast x) else None)"

definition unexpired :: "int \<Rightarrow> transaction list \<Rightarrow> transaction list" where
  "unexpired now txs = filter (\<lambda>tx. i64 (now - tx_timestamp tx) \<le> MEMPOOL_EXPIRY_TIME) txs"

text \<open>The sort key of an eviction: an estimate of the fee per byte, each input counted as one coin.\<close>

definition fee_rate :: "'v prims \<Rightarrow> transaction \<Rightarrow> u64 option" where
  "fee_rate P tx =
     (let tx_size = (of_nat (max (blob_len P (enc_tx P tx)) 1) :: u64) in
      Option.bind (u256_sum (map (\<lambda>_. 1000000000000000000) (inputs tx))) (\<lambda>input_sum.
      Option.bind (u256_sum (map out_amount (outputs tx))) (\<lambda>output_sum.
      Option.bind (if input_sum > output_sum then u256_as_u64 (input_sum - output_sum) else Some 0) (\<lambda>fee.
      Some (fee div tx_size)))))"

text \<open>\<open>sort_by_cached_key\<close>: every key is computed once, then a stable sort.\<close>

definition sort_by_fee :: "'v prims \<Rightarrow> transaction list \<Rightarrow> transaction list option" where
  "sort_by_fee P txs = map_option (\<lambda>ks. map snd (sort_key fst (zip ks txs))) (those (map (fee_rate P) txs))"

text \<open>The loop that drops transactions while the rest is too large: how many it drops.\<close>

fun evict_bytes :: "nat \<Rightarrow> nat list \<Rightarrow> nat" where
  "evict_bytes remaining [] = 0"
| "evict_bytes remaining (s # sizes) =
     (if remaining > MAX_MEMPOOL_BYTES then Suc (evict_bytes (remaining - s) sizes) else 0)"

definition evict_count :: "nat list \<Rightarrow> nat" where
  "evict_count sizes =
     (let total_bytes = sum_list sizes;
          count_excess = length sizes - MAX_MEMPOOL_SIZE
      in if total_bytes > MAX_MEMPOOL_BYTES
         then count_excess + evict_bytes (fold (\<lambda>s r. r - s) (take count_excess sizes) total_bytes)
                (drop count_excess sizes)
         else count_excess)"

definition enforce_mempool_limit :: "'v prims \<Rightarrow> int \<Rightarrow> mempool_state \<Rightarrow> mempool_state option" where
  "enforce_mempool_limit P now m =
     (let kept = unexpired now (pending m);
          needs_count_eviction = length kept > MAX_MEMPOOL_SIZE;
          possibly_over_bytes = length kept > MAX_MEMPOOL_BYTES div 10240
      in if \<not> needs_count_eviction \<and> \<not> possibly_over_bytes then Some (m\<lparr>pending := kept\<rparr>)
         else map_option (\<lambda>txs.
           let remove_count = evict_count (map (\<lambda>tx. blob_len P (enc_tx P tx)) txs)
           in m\<lparr>pending := drop remove_count txs,
                seen_tx := fold hm_remove (map txid (take remove_count txs)) (seen_tx m)\<rparr>)
           (sort_by_fee P kept))"

section \<open>Ways in\<close>

text \<open>The text under which an input is compared with those of pending transactions.\<close>

definition outpoint_text :: "transaction_input \<Rightarrow> string" where
  "outpoint_text inp = in_txid inp @ '':'' @ show_nat (unat (in_vout inp))"

definition has_conflict :: "transaction \<Rightarrow> transaction list \<Rightarrow> bool" where
  "has_conflict tx txs =
     (let tx_utxos = map outpoint_text (inputs tx)
      in list_ex (\<lambda>p. list_ex (\<lambda>inp. outpoint_text inp \<in> set tx_utxos) (inputs p)) txs)"

definition record_tx :: "int \<Rightarrow> transaction \<Rightarrow> mempool_state \<Rightarrow> mempool_state" where
  "record_tx now tx m = m\<lparr>seen_tx := hm_insert (txid tx) now (seen_tx m), pending := pending m @ [tx]\<rparr>"

text \<open>
  The peer-to-peer handler holds the lock twice: for a first look at \<open>seen_tx\<close>, and, once the
  signatures are verified, for \<open>on_tx_record\<close>, which looks again. Between the two other handlers may
  run. The result says whether the transaction is relayed.
\<close>

definition on_tx_record :: "'v prims \<Rightarrow> int \<Rightarrow> transaction \<Rightarrow> mempool_state \<Rightarrow> (mempool_state \<times> bool) option" where
  "on_tx_record P now tx m =
     (if hm_get (seen_tx m) (txid tx) \<noteq> None then Some (m, False)
      else if has_conflict tx (pending m) then Some (m, False)
      else map_option (\<lambda>m'. (m', True)) (enforce_mempool_limit P now (record_tx now tx m)))"

definition on_tx :: "'v prims \<Rightarrow> int \<Rightarrow> transaction \<Rightarrow> mempool_state \<Rightarrow> (mempool_state \<times> bool) option" where
  "on_tx P now tx m =
     (if hm_get (seen_tx m) (txid tx) \<noteq> None then Some (m, False)
      else (case verify_signatures P tx of
              Ok True \<Rightarrow> on_tx_record P now tx m
            | Ok False \<Rightarrow> Some (m, False)
            | Err e \<Rightarrow> Some (m, False)))"

text \<open>The sum of the stored outputs that a transaction spends; inputs without a record count nothing.\<close>

definition stored_amount :: "'v prims \<Rightarrow> 'v db \<Rightarrow> transaction_input \<Rightarrow> u256 option" where
  "stored_amount P d inp =
     Option.bind (db_get d (utxo_key (in_txid inp) (unat (in_vout inp)))) (\<lambda>blob.
     map_option u_amount (dec_utxo P blob))"

definition tx_fee :: "'v prims \<Rightarrow> 'v db \<Rightarrow> transaction \<Rightarrow> u256 option" where
  "tx_fee P d tx =
     Option.bind (u256_sum (List.map_filter (stored_amount P d) (inputs tx))) (\<lambda>input_sum.
     Option.bind (u256_sum (map out_amount (outputs tx))) (\<lambda>output_sum.
     Some (if input_sum \<ge> output_sum then input_sum - output_sum else 0)))"

datatype tx_reply = BadBincode | BadSignature | LowFee | Duplicate | DoubleSpend | Queued | Relayed

definition post_tx :: "'v prims \<Rightarrow> int \<Rightarrow> 'v db \<Rightarrow> 'v \<Rightarrow> mempool_state \<Rightarrow> (mempool_state \<times> tx_reply) option" where
  "post_tx P now d body m =
     (case dec_tx P body of
        None \<Rightarrow> Some (m, BadBincode)
      | Some tx \<Rightarrow>
          (case verify_signatures P tx of
             Ok True \<Rightarrow>
               Option.bind (tx_fee P d tx) (\<lambda>fee.
               if fee < calculate_min_fee (blob_len P (enc_tx P tx)) then Some (m, LowFee)
               else if hm_get (seen_tx m) (txid tx) \<noteq> None then Some (m, Duplicate)
               else if has_conflict tx (pending m) then Some (m, DoubleSpend)
               else Some (record_tx now tx m, Queued))
           | _ \<Rightarrow> Some (m, BadSignature)))"

text \<open>The same request on the public server, as it is written there.\<close>

definition public_post_tx :: "'v prims \<Rightarrow> int \<Rightarrow> 'v db \<Rightarrow> 'v \<Rightarrow> mempool_state \<Rightarrow> (mempool_state \<times> tx_reply) option" where
  "public_post_tx P now d body m =
     (case dec_tx P body of
        None \<Rightarrow> Some (m, BadBincode)
      | Some tx \<Rightarrow>
          if \<not> (case verify_signatures P tx of Ok b \<Rightarrow> b | Err e \<Rightarrow> False) then Some (m, BadSignature)
          else
            Option.bind (u256_sum (List.map_filter (stored_amount P d) (inputs tx))) (\<lambda>input_sum.
            Option.bind (u256_sum (map out_amount (outputs tx))) (\<lambda>output_sum.
            let fee = (if input_sum \<ge> output_sum then input_sum - output_sum else 0)
            in if fee < calculate_min_fee (blob_len P (enc_tx P tx)) then Some (m, LowFee)
               else if hm_get (seen_tx m) (txid tx) \<noteq> None then Some (m, Duplicate)
               else
                 let tx_utxos = map outpoint_text (inputs tx)
                 in if list_ex (\<lambda>p. list_ex (\<lambda>inp. outpoint_text inp \<in> set tx_utxos) (inputs p)) (pending m)
                    then Some (m, DoubleSpend)
                    else Some (m\<lparr>seen_tx := hm_insert (txid tx) now (seen_tx m),
                           pending := pending m @ [tx]\<rparr>, Queued))))"

definition relay_tx :: "'v prims \<Rightarrow> int \<Rightarrow> 'v db \<Rightarrow> 'v \<Rightarrow> mempool_state \<Rightarrow> (mempool_state \<times> tx_reply) option" where
  "relay_tx P now d body m =
     (case dec_tx P body of
        None \<Rightarrow> Some (m, BadBincode)
      | Some tx \<Rightarrow>
          if \<not> (case verify_signatures P tx of Ok b \<Rightarrow> b | Err e \<Rightarrow> False) then Some (m, BadSignature)
          else Option.bind (tx_fee P d tx) (\<lambda>fee.
            if fee \<ge> calculate_min_fee (blob_len P (enc_tx P tx)) then
              (if hm_get (seen_tx m) (txid tx) \<noteq> None then Some (m, Duplicate)
               else Some (record_tx now tx m, Relayed))
            else Some (m, Relayed)))"

section \<open>Ways out\<close>

definition remove_confirmed :: "block \<Rightarrow> mempool_state \<Rightarrow> mempool_state" where
  "remove_confirmed b m =
     (let block_txids = map txid (transactions b)
      in m\<lparr>pending := filter (\<lambda>tx. txid tx \<notin> set block_txids) (pending m)\<rparr>)"

definition cleanup_seen :: "int \<Rightarrow> mempool_state \<Rightarrow> mempool_state" where
  "cleanup_seen now m = m\<lparr>seen_tx := filter (\<lambda>(_, ts). i64 (now - ts) < 3600) (seen_tx m)\<rparr>"

section \<open>The pool as it is reported to miners\<close>

definition utxo_amounts :: "'v prims \<Rightarrow> 'v db \<Rightarrow> transaction list \<Rightarrow> string \<rightharpoonup> u256" where
  "utxo_amounts P d txs =
     (let input_keys = concat (map (\<lambda>tx. map (\<lambda>inp. utxo_key (in_txid inp) (unat (in_vout inp))) (inputs tx)) txs)
      in (\<lambda>k. if k \<in> set input_keys
              then Option.bind (db_get d k) (\<lambda>blob. map_option u_amount (dec_utxo P blob)) else None))"

definition add_fee :: "(string \<rightharpoonup> u256) \<Rightarrow> transaction \<Rightarrow> u256 option \<Rightarrow> u256 option" where
  "add_fee amounts tx acc =
     Option.bind acc (\<lambda>total_fees.
     Option.bind (u256_sum (List.map_filter (\<lambda>inp. amounts (utxo_key (in_txid inp) (unat (in_vout inp)))) (inputs tx))) (\<lambda>input_sum.
     Option.bind (u256_sum (map out_amount (outputs tx))) (\<lambda>output_sum.
     if input_sum \<ge> output_sum then u256_add total_fees (input_sum - output_sum) else Some total_fees)))"

definition get_mempool :: "'v prims \<Rightarrow> 'v db \<Rightarrow> mempool_state \<Rightarrow> (nat \<times> transaction list \<times> u256) option" where
  "get_mempool P d m =
     (let txs = pending m
      in map_option (\<lambda>total_fees. (length txs, txs, total_fees))
           (fold (add_fee (utxo_amounts P d txs)) txs (Some 0)))"

section \<open>Eviction\<close>

lemmas mempool_limits = MAX_MEMPOOL_SIZE_def MAX_MEMPOOL_BYTES_def MEMPOOL_EXPIRY_TIME_def

lemma those_None: "those xs = None \<longleftrightarrow> None \<in> set xs"
  by (induction xs) (auto split: option.splits)

lemma those_Some: "those xs = Some ys \<longleftrightarrow> xs = map Some ys"
  by (induction xs arbitrary: ys) (auto split: option.splits simp: Cons_eq_map_conv)

lemma sort_by_fee_None: "sort_by_fee P txs = None \<longleftrightarrow> (\<exists>tx\<in>set txs. fee_rate P tx = None)"
  by (simp add: sort_by_fee_def those_None image_iff) metis

lemma zip_pairs_sort: "mset (map snd (sort_key fst (zip ks xs))) = mset (map snd (zip ks xs))"
  by (simp only: mset_map mset_sort)

text \<open>The order of an eviction: a permutation with ascending estimated fee rates.\<close>

lemma sort_by_fee_Some:
  assumes "sort_by_fee P txs = Some out"
  shows "mset out = mset txs" "sorted (map (\<lambda>tx. the (fee_rate P tx)) out)" "length out = length txs"
proof -
  obtain ks where ks: "map (fee_rate P) txs = map Some ks" "out = map snd (sort_key fst (zip ks txs))"
    using assms by (auto simp: sort_by_fee_def those_Some)
  have l: "length ks = length txs" using ks(1) by (metis length_map)
  then show m: "mset out = mset txs" unfolding ks(2) zip_pairs_sort by simp
  then show "length out = length txs" by (metis size_mset)
  have "fst p = the (fee_rate P (snd p))" if "p \<in> set (zip ks txs)" for p
    using that ks(1) l by (auto simp: in_set_zip) (metis nth_map option.sel)
  then have "map (\<lambda>tx. the (fee_rate P tx)) out = map fst (sort_key fst (zip ks txs))"
    unfolding ks(2) map_map comp_def by (intro map_cong) auto
  then show "sorted (map (\<lambda>tx. the (fee_rate P tx)) out)" by simp
qed

lemma fold_minus: "fold (\<lambda>s r. r - s) xs (t :: nat) = t - sum_list xs"
  by (induction xs arbitrary: t) auto

lemma evict_bytes_enough:
  "remaining = sum_list sizes \<Longrightarrow> sum_list (drop (evict_bytes remaining sizes) sizes) \<le> MAX_MEMPOOL_BYTES"
  by (induction remaining sizes rule: evict_bytes.induct) auto

lemma evict_count_enough:
  "length sizes - MAX_MEMPOOL_SIZE \<le> evict_count sizes \<and>
   sum_list (drop (evict_count sizes) sizes) \<le> MAX_MEMPOOL_BYTES"
proof -
  let ?c = "length sizes - MAX_MEMPOOL_SIZE"
  have s: "sum_list sizes = sum_list (take ?c sizes) + sum_list (drop ?c sizes)"
    by (metis append_take_drop_id sum_list_append)
  then have "fold (\<lambda>s r. r - s) (take ?c sizes) (sum_list sizes) = sum_list (drop ?c sizes)"
    by (simp only: fold_minus)
  then show ?thesis
    using s evict_bytes_enough[of "sum_list (drop ?c sizes)" "drop ?c sizes"]
    by (auto simp: evict_count_def Let_def add.commute)
qed

lemma hm_get_removes: "hm_get (fold hm_remove ks m) k = (if k \<in> set ks then None else hm_get m k)"
  by (induction ks arbitrary: m) auto

lemma hm_wf_removes: "hm_wf m \<Longrightarrow> hm_wf (fold hm_remove ks m)"
  by (induction ks arbitrary: m) auto

lemma enforce_cases:
  assumes "enforce_mempool_limit P now m = Some m'"
  obtains "length (unexpired now (pending m)) \<le> MAX_MEMPOOL_SIZE" "m' = m\<lparr>pending := unexpired now (pending m)\<rparr>"
  | txs n where "MAX_MEMPOOL_SIZE < length (unexpired now (pending m))"
      "sort_by_fee P (unexpired now (pending m)) = Some txs"
      "n = evict_count (map (\<lambda>tx. blob_len P (enc_tx P tx)) txs)"
      "m' = m\<lparr>pending := drop n txs, seen_tx := fold hm_remove (map txid (take n txs)) (seen_tx m)\<rparr>"
  using assms
  by (auto simp: enforce_mempool_limit_def Let_def mempool_limits split: if_splits)

lemma enforce_None:
  "enforce_mempool_limit P now m = None \<longleftrightarrow>
   MAX_MEMPOOL_SIZE < length (unexpired now (pending m)) \<and> (\<exists>tx\<in>set (unexpired now (pending m)). fee_rate P tx = None)"
  by (auto simp: enforce_mempool_limit_def Let_def mempool_limits sort_by_fee_None)

lemma sorted_split:
  assumes "sorted (map f xs)" "a \<in> set (take n xs)" "b \<in> set (drop n xs)"
  shows "f a \<le> f b"
proof -
  have "sorted (map f (take n xs) @ map f (drop n xs))"
    using assms(1) by (metis append_take_drop_id map_append)
  then show ?thesis using assms(2,3) by (auto simp: sorted_append)
qed

text \<open>
  C12. What enforcing the limits does: at most 10000 transactions stay; with at most that many unexpired
  ones nothing else is dropped, whatever their size; otherwise those dropped have the lowest
  estimated fee rates, are forgotten as seen, and what stays is at most 300 MB.
\<close>

theorem mempool_eviction:
  assumes "enforce_mempool_limit P now m = Some m'"
  shows "length (pending m') \<le> 10000 \<and>
    (\<exists>evicted. mset evicted + mset (pending m') = mset (unexpired now (pending m)) \<and>
       (length (unexpired now (pending m)) \<le> 10000 \<longrightarrow> evicted = []) \<and>
       (\<forall>e\<in>set evicted. hm_get (seen_tx m') (txid e) = None \<and>
          (\<forall>k\<in>set (pending m'). the (fee_rate P e) \<le> the (fee_rate P k)))) \<and>
    (10000 < length (unexpired now (pending m)) \<longrightarrow>
       sum_list (map (\<lambda>tx. blob_len P (enc_tx P tx)) (pending m')) \<le> 300000000)"
  using assms
proof (cases rule: enforce_cases)
  case (2 txs n)
  note s = sort_by_fee_Some[OF 2(2)]
  have c: "length txs - 10000 \<le> n" "sum_list (map (\<lambda>tx. blob_len P (enc_tx P tx)) (drop n txs)) \<le> 300000000"
    using evict_count_enough[of "map (\<lambda>tx. blob_len P (enc_tx P tx)) txs"] 2(3)
    by (simp_all add: mempool_limits drop_map)
  have "mset (take n txs) + mset (drop n txs) = mset (unexpired now (pending m))"
    using s(1) by (metis append_take_drop_id mset_append)
  moreover have "hm_get (seen_tx m') (txid e) = None" if "e \<in> set (take n txs)" for e
    using 2(4) that by (simp add: hm_get_removes)
  ultimately show ?thesis
    using 2(1,4) c sorted_split[OF s(2)] by (auto simp: mempool_limits intro!: exI[of _ "take n txs"])
qed (auto simp: mempool_limits)

text \<open>A pool that holds one transaction many times, for the examples.\<close>

definition crowd :: "nat \<Rightarrow> transaction \<Rightarrow> mempool_state" where
  "crowd n tx = \<lparr>pending = replicate n tx, seen_tx = [(txid tx, 0)]\<rparr>"

lemma crowd_simps [simp]: "pending (crowd n tx) = replicate n tx" "seen_tx (crowd n tx) = [(txid tx, 0)]"
  by (simp_all add: crowd_def)

lemma unexpired_crowd: "tx_timestamp tx = 0 \<Longrightarrow> unexpired 0 (replicate n tx) = replicate n tx"
  by (simp add: unexpired_def mempool_limits i64_def)

theorem mempool_eviction_witness:
  "\<exists>m'. enforce_mempool_limit ref_prims 0 (crowd 10001 (sample_coinbase ''c0'' 1)) = Some m' \<and> length (pending m') \<le> 10000"
proof -
  let ?tx = "sample_coinbase ''c0'' 1"
  have t: "unexpired 0 (pending (crowd 10001 ?tx)) = replicate 10001 ?tx"
    unfolding crowd_simps by (rule unexpired_crowd) (simp add: sample_coinbase_def)
  have "fee_rate ref_prims ?tx \<noteq> None"
    by (simp add: fee_rate_def Let_def u256_sum_def u256_add_def)
  then have "enforce_mempool_limit ref_prims 0 (crowd 10001 ?tx) \<noteq> None"
    unfolding enforce_None t by simp
  then show ?thesis using mempool_eviction by (metis not_Some_eq)
qed

text \<open>
  A panic of the eviction. The estimate counts every input as \<open>10^18\<close> and narrows the difference to
  64 bits: as soon as the pool is over its limit and holds a transaction with enough inputs (19 and
  small outputs will do), enforcing the limit panics under the pool's lock.
\<close>

theorem eviction_panics:
  assumes "10000 < length (unexpired now (pending m))" "tx \<in> set (unexpired now (pending m))"
    and "2 ^ 64 + (\<Sum>out\<leftarrow>outputs tx. unat (out_amount out)) \<le> 10 ^ 18 * length (inputs tx)"
  shows "enforce_mempool_limit P now m = None"
proof -
  have "fee_rate P tx = None"
  proof (cases "u256_sum (map (\<lambda>_. 1000000000000000000) (inputs tx))")
    case (Some i)
    then have i: "10 ^ 18 * length (inputs tx) = unat i"
      by (simp add: u256_sum_Some sum_list_triv comp_def mult.commute)
    show ?thesis
    proof (cases "u256_sum (map out_amount (outputs tx))")
      case (Some out)
      then have "2 ^ 64 + unat out \<le> unat i" using assms(3) i by (simp add: u256_sum_Some comp_def)
      moreover from this have "unat (i - out) = unat i - unat out" "out < i"
        by (auto simp: unat_sub word_le_nat_alt word_less_nat_alt)
      ultimately have "u256_as_u64 (i - out) = None" "out < i" by (auto simp: u256_as_u64_def)
      then show ?thesis using Some \<open>u256_sum (map (\<lambda>_. _) _) = Some i\<close> by (simp add: fee_rate_def Let_def)
    qed (simp add: fee_rate_def Let_def Some)
  qed (simp add: fee_rate_def Let_def)
  then show ?thesis using assms(1,2) by (auto simp: enforce_None mempool_limits)
qed

definition wide_tx :: "nat \<Rightarrow> transaction" where
  "wide_tx n = \<lparr>txid = ''ww'', inputs = map (\<lambda>i. \<lparr>in_txid = ''aa'', in_vout = of_nat i, in_pubkey = '''',
     in_signature = None\<rparr>) [0..<n], outputs = [], tx_timestamp = 0\<rparr>"

theorem eviction_panics_witness: "enforce_mempool_limit ref_prims 0 (crowd 10001 (wide_tx 19)) = None"
proof (rule eviction_panics)
  have t: "unexpired 0 (pending (crowd 10001 (wide_tx 19))) = replicate 10001 (wide_tx 19)"
    unfolding crowd_simps by (rule unexpired_crowd) (simp add: wide_tx_def)
  show "10000 < length (unexpired 0 (pending (crowd 10001 (wide_tx 19))))" unfolding t by simp
  show "wide_tx 19 \<in> set (unexpired 0 (pending (crowd 10001 (wide_tx 19))))" unfolding t by simp
  show "2 ^ 64 + (\<Sum>out\<leftarrow>outputs (wide_tx 19). unat (out_amount out)) \<le> 10 ^ 18 * length (inputs (wide_tx 19))"
    by (simp add: wide_tx_def)
qed

section \<open>The pool as a state machine\<close>

text \<open>
  One step is one critical section under the pool's lock, with any arguments: \<open>on_tx_record\<close> for a
  transaction whose signatures were verified at some earlier time, a request of a client, the relay
  request of another node (only if \<open>relay\<close>), a confirmed block, the periodic clean-up.
\<close>

inductive mempool_step :: "'v prims \<Rightarrow> bool \<Rightarrow> mempool_state \<Rightarrow> mempool_state \<Rightarrow> bool" for P relay where
  peer: "verify_signatures P tx = Ok True \<Longrightarrow> on_tx_record P now tx m = Some (m', r) \<Longrightarrow> mempool_step P relay m m'"
| client: "post_tx P now d body m = Some (m', r) \<Longrightarrow> mempool_step P relay m m'"
| public_client: "public_post_tx P now d body m = Some (m', r) \<Longrightarrow> mempool_step P relay m m'"
| relayed: "relay \<Longrightarrow> relay_tx P now d body m = Some (m', r) \<Longrightarrow> mempool_step P relay m m'"
| confirmed: "mempool_step P relay m (remove_confirmed b m)"
| cleaned: "mempool_step P relay m (cleanup_seen now m)"

inductive mempool_reachable :: "'v prims \<Rightarrow> bool \<Rightarrow> mempool_state \<Rightarrow> bool" for P relay where
  empty_pool: "mempool_reachable P relay mempool_default"
| pool_moves: "mempool_reachable P relay m \<Longrightarrow> mempool_step P relay m m' \<Longrightarrow> mempool_reachable P relay m'"

inductive_cases mempool_stepE: "mempool_step P relay m m'"

text \<open>The pending transactions that spend an output.\<close>

definition spenders :: "transaction list \<Rightarrow> string \<Rightarrow> u32 \<Rightarrow> transaction list" where
  "spenders txs t v = filter (\<lambda>tx. \<exists>inp\<in>set (inputs tx). in_txid inp = t \<and> in_vout inp = v) txs"

definition pool_inv :: "'v prims \<Rightarrow> bool \<Rightarrow> mempool_state \<Rightarrow> bool" where
  "pool_inv P relay m \<longleftrightarrow> (\<forall>tx\<in>set (pending m). verify_signatures P tx = Ok True) \<and> hm_wf (seen_tx m) \<and>
     (\<not> relay \<longrightarrow> (\<forall>t v. length (spenders (pending m) t v) \<le> 1))"

text \<open>The order of the pool does not matter, and fewer transactions conflict less.\<close>

lemma spenders_sub: "mset txs' \<subseteq># mset txs \<Longrightarrow> length (spenders txs' t v) \<le> length (spenders txs t v)"
  unfolding spenders_def size_mset[symmetric] mset_filter
  by (intro size_mset_mono multiset_filter_mono)

lemma pool_inv_sub:
  assumes "pool_inv P relay m" "mset (pending m') \<subseteq># mset (pending m)" "hm_wf (seen_tx m')"
  shows "pool_inv P relay m'"
proof -
  have "set (pending m') \<subseteq> set (pending m)" using assms(2) by (metis set_mset_mono set_mset_mset)
  then show ?thesis
    using assms(1,3) spenders_sub[OF assms(2)] unfolding pool_inv_def by (meson le_trans subsetD)
qed

lemma mset_drop_sub: "mset (drop n xs) \<subseteq># mset xs"
proof -
  have "mset (take n xs) + mset (drop n xs) = mset xs" by (metis append_take_drop_id mset_append)
  then show ?thesis by (metis mset_subset_eq_add_right)
qed

lemma enforce_sub:
  assumes "enforce_mempool_limit P now m = Some m'" "hm_wf (seen_tx m)"
  shows "mset (pending m') \<subseteq># mset (pending m)" "hm_wf (seen_tx m')"
proof -
  have u: "mset (unexpired now (pending m)) \<subseteq># mset (pending m)" by (simp add: unexpired_def)
  show "mset (pending m') \<subseteq># mset (pending m)"
    using assms(1)
  proof (cases rule: enforce_cases)
    case (2 txs n)
    have "mset (drop n txs) \<subseteq># mset (unexpired now (pending m))"
      unfolding sort_by_fee_Some(1)[OF 2(2), symmetric] by (rule mset_drop_sub)
    then show ?thesis using u 2(4) by (auto intro: subset_mset.trans)
  qed (use u in simp)
  show "hm_wf (seen_tx m')" using assms by (auto elim!: enforce_cases simp: hm_wf_removes)
qed

lemma no_conflict_spenders:
  assumes "\<not> has_conflict tx txs" "inp \<in> set (inputs tx)"
  shows "spenders txs (in_txid inp) (in_vout inp) = []"
  using assms
  by (fastforce simp: has_conflict_def Let_def list_ex_iff spenders_def filter_empty_conv outpoint_text_def)

lemma record_inv:
  assumes "pool_inv P relay m" "verify_signatures P tx = Ok True" "relay \<or> \<not> has_conflict tx (pending m)"
  shows "pool_inv P relay (record_tx now tx m)"
proof -
  have "length (spenders (pending m @ [tx]) t v) \<le> 1" if "\<not> relay" for t v
    using that assms(1,3) no_conflict_spenders[of tx "pending m"]
    by (cases "\<exists>inp\<in>set (inputs tx). in_txid inp = t \<and> in_vout inp = v")
      (auto simp: pool_inv_def spenders_def)
  then show ?thesis using assms(1,2) by (auto simp: pool_inv_def record_tx_def)
qed

lemma public_post_tx_same: "public_post_tx P now d body m = post_tx P now d body m"
  unfolding public_post_tx_def post_tx_def tx_fee_def has_conflict_def record_tx_def Let_def
  by (auto simp: bind_assoc split: option.splits result.splits bool.splits)

lemma on_tx_inv:
  assumes "on_tx_record P now tx m = Some (m', r)" "verify_signatures P tx = Ok True" "pool_inv P relay m"
  shows "pool_inv P relay m'"
proof (cases "m' = m")
  case False
  then have c: "\<not> has_conflict tx (pending m)" "enforce_mempool_limit P now (record_tx now tx m) = Some m'"
    using assms(1) by (auto simp: on_tx_record_def split: if_splits)
  have i: "pool_inv P relay (record_tx now tx m)" using record_inv assms(2,3) c(1) by blast
  then show ?thesis using enforce_sub[OF c(2)] pool_inv_sub[OF i] by (auto simp: pool_inv_def)
qed (use assms in simp)

lemma post_tx_inv: "post_tx P now d body m = Some (m', r) \<Longrightarrow> pool_inv P relay m \<Longrightarrow> pool_inv P relay m'"
  by (auto simp: post_tx_def bind_eq_Some_conv intro: record_inv split: option.splits result.splits bool.splits if_splits)

lemma relay_tx_inv: "relay_tx P now d body m = Some (m', r) \<Longrightarrow> pool_inv P True m \<Longrightarrow> pool_inv P True m'"
  by (auto simp: relay_tx_def bind_eq_Some_conv intro!: record_inv split: option.splits result.splits bool.splits if_splits)

lemma retained_inv:
  assumes "pool_inv P relay m"
  shows "pool_inv P relay (remove_confirmed b m)" "pool_inv P relay (cleanup_seen now m)"
proof -
  have w: "hm_wf (seen_tx m)" using assms by (simp add: pool_inv_def)
  show "pool_inv P relay (remove_confirmed b m)"
    by (rule pool_inv_sub[OF assms]) (simp_all add: remove_confirmed_def Let_def w)
  show "pool_inv P relay (cleanup_seen now m)"
    by (rule pool_inv_sub[OF assms]) (use w in \<open>simp_all add: cleanup_seen_def hm_wf_def distinct_map_filter\<close>)
qed

lemma mempool_step_inv: "mempool_step P relay m m' \<Longrightarrow> pool_inv P relay m \<Longrightarrow> pool_inv P relay m'"
  by (erule mempool_stepE)
    (auto simp: public_post_tx_same intro: on_tx_inv post_tx_inv relay_tx_inv retained_inv)

lemma mempool_reachable_inv: "mempool_reachable P relay m \<Longrightarrow> pool_inv P relay m"
proof (induction rule: mempool_reachable.induct)
  case empty_pool
  show ?case by (simp add: pool_inv_def mempool_default_def spenders_def)
qed (use mempool_step_inv in blast)

text \<open>
  However the handlers interleave, every pending transaction has valid signatures; and without
  relay requests no output is spent by two pending transactions.
\<close>

theorem mempool_invariant:
  assumes "mempool_reachable P relay m"
  shows "(\<forall>tx\<in>set (pending m). verify_signatures P tx = Ok True) \<and>
    (\<not> relay \<longrightarrow> (\<forall>t v. length (spenders (pending m) t v) \<le> 1))"
  using mempool_reachable_inv[OF assms] by (simp add: pool_inv_def)

lemma sample_fee: "tx_fee ref_prims (bc_db sample_chain) (sample_spend t ''aa'' 900000000000000000) = Some 100000000000000000"
  by (simp add: tx_fee_def stored_amount_def sample_db ref_selectors sample_utxo_simps u256_sum_single map_filter_simps)

lemma sample_decode: "dec_tx ref_prims (STx tx) = Some tx"
  by (simp add: ref_selectors)

lemma sample_spend_verifies: "verify_signatures ref_prims (sample_spend t f a) = Ok True"
  using verify_signed[OF ref_prims_ok(4,3) sample_key_wf] by (simp add: sample_spend_def)

lemma sample_post:
  "post_tx ref_prims now (bc_db sample_chain) (STx (sample_spend t ''aa'' 900000000000000000)) m =
     (let tx = sample_spend t ''aa'' 900000000000000000 in
      if hm_get (seen_tx m) t \<noteq> None then Some (m, Duplicate)
      else if has_conflict tx (pending m) then Some (m, DoubleSpend)
      else Some (record_tx now tx m, Queued))"
  "relay_tx ref_prims now (bc_db sample_chain) (STx (sample_spend t ''aa'' 900000000000000000)) m =
     (if hm_get (seen_tx m) t \<noteq> None then Some (m, Duplicate)
      else Some (record_tx now (sample_spend t ''aa'' 900000000000000000) m, Relayed))"
  by (simp_all add: post_tx_def relay_tx_def sample_decode sample_spend_verifies sample_fee Let_def
      ref_selectors sample_min_fee del: sample_spend_simps(2,3))

theorem mempool_invariant_witness:
  "\<exists>m. mempool_reachable ref_prims False m \<and> length (pending m) = 1 \<and> length (spenders (pending m) ''aa'' 0) \<le> 1"
proof -
  let ?tx = "sample_spend ''b1'' ''aa'' 900000000000000000"
  have "post_tx ref_prims 0 (bc_db sample_chain) (STx ?tx) mempool_default =
      Some (record_tx 0 ?tx mempool_default, Queued)"
    by (simp only: sample_post) (simp add: mempool_default_def has_conflict_def Let_def)
  from mempool_reachable.pool_moves[OF empty_pool mempool_step.client[OF this]]
  have r: "mempool_reachable ref_prims False (record_tx 0 ?tx mempool_default)" .
  moreover have "length (pending (record_tx 0 ?tx mempool_default)) = 1"
    by (simp add: record_tx_def mempool_default_def)
  ultimately show ?thesis using mempool_invariant[OF r] by blast
qed

text \<open>
  \<open>POST /tx/relay\<close> does not look for conflicts: after a client queued a transaction, another one
  that spends the same output and is refused from clients and peers enters through a relay request.
\<close>

theorem relay_admits_conflict:
  "\<exists>m m'. mempool_reachable ref_prims True m' \<and>
     post_tx ref_prims 0 (bc_db sample_chain) (STx (sample_spend ''b2'' ''aa'' 900000000000000000)) m = Some (m, DoubleSpend) \<and>
     relay_tx ref_prims 0 (bc_db sample_chain) (STx (sample_spend ''b2'' ''aa'' 900000000000000000)) m = Some (m', Relayed) \<and>
     length (spenders (pending m') ''aa'' 0) = 2"
proof -
  let ?a = "sample_spend ''b1'' ''aa'' 900000000000000000" and ?b = "sample_spend ''b2'' ''aa'' 900000000000000000"
  let ?m = "record_tx 0 ?a mempool_default"
  have 1: "post_tx ref_prims 0 (bc_db sample_chain) (STx ?a) mempool_default = Some (?m, Queued)"
    by (simp only: sample_post) (simp add: mempool_default_def has_conflict_def Let_def)
  have 2: "post_tx ref_prims 0 (bc_db sample_chain) (STx ?b) ?m = Some (?m, DoubleSpend)"
    "relay_tx ref_prims 0 (bc_db sample_chain) (STx ?b) ?m = Some (record_tx 0 ?b ?m, Relayed)"
    by (simp_all only: sample_post) (simp_all add: mempool_default_def record_tx_def has_conflict_def outpoint_text_def Let_def hm_get_def)
  have "mempool_reachable ref_prims True ?m"
    using mempool_reachable.pool_moves[OF empty_pool mempool_step.client[OF 1]] .
  then have "mempool_reachable ref_prims True (record_tx 0 ?b ?m)"
    by (rule mempool_reachable.pool_moves) (rule mempool_step.relayed[OF TrueI 2(2)])
  moreover have "length (spenders (pending (record_tx 0 ?b ?m)) ''aa'' 0) = 2"
    by (simp add: record_tx_def mempool_default_def spenders_def)
  ultimately show ?thesis using 2 by blast
qed

end
