(* ===== verification/Reorg.thy ===== *)
theory Reorg
  imports Conservation
begin

text \<open>
  Chain reorganisation (\<open>core/src/blockchain/mod.rs\<close>, lines 1147 to 1518 and 1568 to 1580). The
  \<open>while\<close> loops that follow \<open>previous_hash\<close> end only if the stored blocks have no cycle of parents;
  they are partial functions whose value \<^const>\<open>None\<close> means that the loop does not end, and
  \<open>reorganize_terminates\<close> shows when they do.
\<close>

section \<open>Work, height and walks\<close>

definition calculate_chain_work :: "'v prims \<Rightarrow> 'v blockchain \<Rightarrow> string \<Rightarrow> (chain_error, u64) result" where
  "calculate_chain_work P bc hash =
     bind_res (load_block P bc hash) (\<lambda>r.
     case r of None \<Rightarrow> Err BlockNotFound | Some block \<Rightarrow> Ok (index (header block) + 1))"

definition get_block_height :: "'v prims \<Rightarrow> 'v blockchain \<Rightarrow> string \<Rightarrow> (chain_error, u64 option) result" where
  "get_block_height P bc hash =
     bind_res (load_block P bc hash) (\<lambda>r.
     case r of None \<Rightarrow> Ok None | Some block \<Rightarrow> Ok (Some (index (header block))))"

definition count_blocks :: "'v blockchain \<Rightarrow> nat" where
  "count_blocks bc = length (filter (\<lambda>(key, _). starts_with ''b:'' key) (db_iterator (bc_db bc)))"

text \<open>The first loop of \<open>find_common_ancestor\<close>: the hashes from a block down to height 0.\<close>

partial_function (option) collect_ancestors ::
    "'v prims \<Rightarrow> 'v blockchain \<Rightarrow> string \<Rightarrow> (chain_error, string list) result option" where
  "collect_ancestors P bc current =
     (case load_block P bc current of
        Err e \<Rightarrow> Some (Err e)
      | Ok None \<Rightarrow> Some (Ok [])
      | Ok (Some block) \<Rightarrow>
          if index (header block) = 0 then Some (Ok [current])
          else Option.bind (collect_ancestors P bc (previous_hash (header block))) (\<lambda>r.
               Some (bind_res r (\<lambda>hs. Ok (current # hs)))))"

text \<open>The second loop: the first block of the other chain that is among them.\<close>

partial_function (option) first_common ::
    "'v prims \<Rightarrow> 'v blockchain \<Rightarrow> string list \<Rightarrow> string \<Rightarrow> (chain_error, string option) result option" where
  "first_common P bc blocks_a current =
     (case load_block P bc current of
        Err e \<Rightarrow> Some (Err e)
      | Ok None \<Rightarrow> Some (Ok None)
      | Ok (Some block) \<Rightarrow>
          if current \<in> set blocks_a then Some (Ok (Some current))
          else if index (header block) = 0 then Some (Ok None)
          else first_common P bc blocks_a (previous_hash (header block)))"

definition find_common_ancestor ::
    "'v prims \<Rightarrow> 'v blockchain \<Rightarrow> string \<Rightarrow> string \<Rightarrow> (chain_error, string option) result option" where
  "find_common_ancestor P bc hash_a hash_b =
     Option.bind (collect_ancestors P bc hash_a) (\<lambda>r.
     case r of Err e \<Rightarrow> Some (Err e) | Ok blocks_a \<Rightarrow> first_common P bc blocks_a hash_b)"

text \<open>The loops that collect the blocks to roll back and to apply.\<close>

partial_function (option) collect_until ::
    "'v prims \<Rightarrow> 'v blockchain \<Rightarrow> string \<Rightarrow> string \<Rightarrow> (chain_error, block list) result option" where
  "collect_until P bc ancestor current =
     (if current = ancestor then Some (Ok [])
      else
        (case load_block P bc current of
           Err e \<Rightarrow> Some (Err e)
         | Ok None \<Rightarrow> Some (Err BlockNotFound)
         | Ok (Some block) \<Rightarrow>
             Option.bind (collect_until P bc ancestor (previous_hash (header block))) (\<lambda>r.
             Some (bind_res r (\<lambda>bs. Ok (block # bs))))))"

section \<open>Rollback and replay\<close>

definition restore_input :: "'v prims \<Rightarrow> 'v blockchain \<Rightarrow> transaction_input \<Rightarrow> (chain_error, 'v write_op list) result" where
  "restore_input P bc inp =
     bind_res (load_tx P bc (in_txid inp)) (\<lambda>r.
     case r of
       None \<Rightarrow> Err SpentTxMissing
     | Some spent_tx \<Rightarrow>
         if unat (in_vout inp) < length (outputs spent_tx)
         then let out = outputs spent_tx ! unat (in_vout inp) in
              Ok [Put (utxo_key (in_txid inp) (unat (in_vout inp)))
                (enc_utxo P \<lparr>u_txid = in_txid inp, u_vout = in_vout inp, u_to = out_to out,
                   u_amount = out_amount out\<rparr>)]
         else Ok [])"

definition rollback_tx :: "'v prims \<Rightarrow> 'v blockchain \<Rightarrow> transaction \<Rightarrow> (chain_error, 'v write_op list) result" where
  "rollback_tx P bc tx =
     bind_res (if inputs tx \<noteq> [] then concat_res (restore_input P bc) (inputs tx) else Ok []) (\<lambda>restored.
     Ok (map (\<lambda>i. Delete (utxo_key (txid tx) i)) [0..<length (outputs tx)]
       @ restored @ [Delete (tx_key (txid tx))]))"

definition rollback_block :: "'v prims \<Rightarrow> 'v blockchain \<Rightarrow> block \<Rightarrow> (chain_error, 'v write_op list) result" where
  "rollback_block P bc b =
     bind_res (concat_res (rollback_tx P bc) (rev (transactions b))) (\<lambda>ops.
     Ok (ops @ [Delete (block_key (block_hash b)), Delete (index_key (unat (index (header b))))]))"

definition rollback_blocks :: "'v prims \<Rightarrow> 'v blockchain \<Rightarrow> block list
    \<Rightarrow> 'v blockchain \<times> (chain_error, unit) result" where
  "rollback_blocks P bc blocks =
     (case concat_res (rollback_block P bc) blocks of
        Err e \<Rightarrow> (bc, Err e)
      | Ok ops \<Rightarrow> (bc\<lparr>bc_db := put_batch (bc_db bc) ops\<rparr>, Ok ()))"

definition replay_tx :: "'v prims \<Rightarrow> transaction \<Rightarrow> 'v write_op list" where
  "replay_tx P tx =
     put_utxos P (created_utxos id tx) @
     (if inputs tx \<noteq> []
      then map (\<lambda>inp. Delete (utxo_key (in_txid inp) (unat (in_vout inp)))) (inputs tx) else [])"

definition replay_block :: "'v prims \<Rightarrow> block \<Rightarrow> 'v write_op list" where
  "replay_block P b =
     concat (map (replay_tx P) (transactions b)) @
     [Put (index_key (unat (index (header b)))) (as_bytes P (block_hash b))]"

definition replay_blocks :: "'v prims \<Rightarrow> 'v blockchain \<Rightarrow> block list \<Rightarrow> 'v blockchain" where
  "replay_blocks P bc blocks = fold (\<lambda>b bc. bc\<lparr>bc_db := put_batch (bc_db bc) (replay_block P b)\<rparr>) blocks bc"

section \<open>Reorganisation\<close>

text \<open>The safety step that recovers a stale tip: the tip and its header afterwards.\<close>

definition refresh_tip :: "'v prims \<Rightarrow> 'v blockchain \<Rightarrow> string \<Rightarrow> block_header
    \<Rightarrow> 'v blockchain \<times> (chain_error, string \<times> block_header) result" where
  "refresh_tip P bc current_tip current_header =
     (let block_count = (of_nat (count_blocks bc) :: u64) in
      if block_count > 100 \<and> index current_header + 1 < block_count div 2
      then
        (case recover_tip P bc of
           (bc, Err e) \<Rightarrow> (bc, Err e)
         | (bc, Ok _) \<Rightarrow>
             (bc, bind_res (ok_or TipHeaderMissing (chain_tip bc)) (\<lambda>tip.
                  bind_res (load_header P bc tip) (\<lambda>h.
                  bind_res (ok_or TipHeaderMissing h) (\<lambda>hdr. Ok (tip, hdr))))))
      else (bc, Ok (current_tip, current_header)))"

text \<open>The checks between the ancestor and the collection of blocks.\<close>

definition check_reorg :: "'v prims \<Rightarrow> 'v blockchain \<Rightarrow> block_header \<Rightarrow> string \<Rightarrow> (chain_error, unit) result" where
  "check_reorg P bc current_header ancestor =
     bind_res (load_header P bc ancestor) (\<lambda>h.
     bind_res (ok_or TipHeaderMissing h) (\<lambda>ancestor_header.
     let current_height = index current_header;
         fork_point_height = index ancestor_header;
         reorg_depth = current_height - fork_point_height
     in case validate_reorg_depth current_height fork_point_height (max_reorg_depth bc) of
          Err _ \<Rightarrow> Err ReorgDepth
        | Ok _ \<Rightarrow> ensure ReorgCheckpoint (fst (check_reorg_against_checkpoints reorg_depth current_height))))"

text \<open>From the collection of blocks on.\<close>

definition switch_chain :: "'v prims \<Rightarrow> 'v blockchain \<Rightarrow> string \<Rightarrow> block list \<Rightarrow> block list
    \<Rightarrow> 'v blockchain \<times> (chain_error, bool) result" where
  "switch_chain P bc new_block_hash rollback apply_rev =
     (let apply_list = rev apply_rev in
      case rollback_blocks P bc rollback of
        (bc, Err e) \<Rightarrow> (bc, Err e)
      | (bc, Ok _) \<Rightarrow>
          let bc = replay_blocks P bc apply_list
          in (bc\<lparr>bc_db := put_batch (bc_db bc) [Put tip_key (as_bytes P new_block_hash)],
                chain_tip := Some new_block_hash,
                bc_difficulty := (if apply_list = [] then bc_difficulty bc
                                  else difficulty (header (last apply_list)))\<rparr>, Ok True))"

text \<open>From the ancestor to the end, and from the comparison of work on.\<close>

definition reorg_from :: "'v prims \<Rightarrow> 'v blockchain \<Rightarrow> string \<Rightarrow> block_header \<Rightarrow> string \<Rightarrow> string
    \<Rightarrow> ('v blockchain \<times> (chain_error, bool) result) option" where
  "reorg_from P bc current_tip current_header new_block_hash ancestor =
     (case check_reorg P bc current_header ancestor of
        Err e \<Rightarrow> Some (bc, Err e)
      | Ok _ \<Rightarrow>
          Option.bind (collect_until P bc ancestor current_tip) (\<lambda>r.
          case r of
            Err e \<Rightarrow> Some (bc, Err e)
          | Ok rollback \<Rightarrow>
              Option.bind (collect_until P bc ancestor new_block_hash) (\<lambda>r.
              case r of
                Err e \<Rightarrow> Some (bc, Err e)
              | Ok apply_rev \<Rightarrow> Some (switch_chain P bc new_block_hash rollback apply_rev))))"

definition reorg_to :: "'v prims \<Rightarrow> 'v blockchain \<Rightarrow> string \<Rightarrow> block_header \<Rightarrow> string
    \<Rightarrow> ('v blockchain \<times> (chain_error, bool) result) option" where
  "reorg_to P bc current_tip current_header new_block_hash =
     (case bind_res (calculate_chain_work P bc current_tip) (\<lambda>current_work.
           bind_res (calculate_chain_work P bc new_block_hash) (\<lambda>new_work.
           Ok (current_work \<ge> new_work))) of
        Err e \<Rightarrow> Some (bc, Err e)
      | Ok keep \<Rightarrow>
          if keep then Some (bc, Ok False)
          else
            Option.bind (find_common_ancestor P bc current_tip new_block_hash) (\<lambda>a.
            case a of
              Err e \<Rightarrow> Some (bc, Err e)
            | Ok None \<Rightarrow> Some (bc, Err NoCommonAncestor)
            | Ok (Some ancestor) \<Rightarrow> reorg_from P bc current_tip current_header new_block_hash ancestor))"

definition reorganize_if_needed :: "'v prims \<Rightarrow> 'v blockchain \<Rightarrow> string
    \<Rightarrow> ('v blockchain \<times> (chain_error, bool) result) option" where
  "reorganize_if_needed P bc new_block_hash =
     (case chain_tip bc of
        None \<Rightarrow> Some (bc, Ok False)
      | Some current_tip \<Rightarrow>
          (case bind_res (load_header P bc current_tip) (ok_or TipHeaderMissing) of
             Err e \<Rightarrow> Some (bc, Err e)
           | Ok current_header \<Rightarrow>
               (case refresh_tip P bc current_tip current_header of
                  (bc, Err e) \<Rightarrow> Some (bc, Err e)
                | (bc, Ok (current_tip, current_header)) \<Rightarrow>
                    reorg_to P bc current_tip current_header new_block_hash)))"

definition reset_chain :: "'v blockchain \<Rightarrow> 'v blockchain" where
  "reset_chain bc =
     (let keys_to_delete = map fst (filter (\<lambda>(key, _). starts_with ''b:'' key \<or> starts_with ''t:'' key \<or>
            starts_with ''u:'' key \<or> starts_with ''i:'' key) (db_iterator (bc_db bc)))
      in bc\<lparr>bc_db := put_batch (bc_db bc) (Delete tip_key # map Delete keys_to_delete),
           chain_tip := None, bc_difficulty := POW_LIMIT_BITS\<rparr>)"

section \<open>Termination\<close>

text \<open>The parents of the stored blocks form no cycle: a rank decreases from each to its parent.\<close>

definition ranked :: "'v prims \<Rightarrow> 'v blockchain \<Rightarrow> (string \<Rightarrow> nat) \<Rightarrow> bool" where
  "ranked P bc r \<longleftrightarrow> (\<forall>h b. load_block P bc h = Ok (Some b) \<longrightarrow> r (previous_hash (header b)) < r h)"

lemma load_block_cong: "db_get (bc_db bc) (block_key h) = db_get (bc_db bc') (block_key h) \<Longrightarrow> load_block P bc h = load_block P bc' h"
  by (simp add: load_block_def)

lemma collect_ancestors_terminates:
  "ranked P bc r \<Longrightarrow> \<exists>x. collect_ancestors P bc h = Some x"
proof (induction "r h" arbitrary: h rule: less_induct)
  case less
  show ?case
  proof (cases "\<exists>b. load_block P bc h = Ok (Some b)")
    case True
    then obtain b where b: "load_block P bc h = Ok (Some b)" by auto
    then have "r (previous_hash (header b)) < r h" using less.prems by (auto simp: ranked_def)
    then obtain x where "collect_ancestors P bc (previous_hash (header b)) = Some x" using less by blast
    then show ?thesis using b by (subst collect_ancestors.simps) simp
  qed (subst collect_ancestors.simps, auto split: result.splits option.splits)
qed

lemma first_common_terminates:
  "ranked P bc r \<Longrightarrow> \<exists>x. first_common P bc hs h = Some x"
proof (induction "r h" arbitrary: h rule: less_induct)
  case less
  show ?case
  proof (cases "\<exists>b. load_block P bc h = Ok (Some b)")
    case True
    then obtain b where b: "load_block P bc h = Ok (Some b)" by auto
    then have "r (previous_hash (header b)) < r h" using less.prems by (auto simp: ranked_def)
    then obtain x where "first_common P bc hs (previous_hash (header b)) = Some x" using less by blast
    then show ?thesis using b by (subst first_common.simps) simp
  qed (subst first_common.simps, auto split: result.splits option.splits)
qed

lemma collect_until_terminates:
  "ranked P bc r \<Longrightarrow> \<exists>x. collect_until P bc a h = Some x"
proof (induction "r h" arbitrary: h rule: less_induct)
  case less
  show ?case
  proof (cases "\<exists>b. load_block P bc h = Ok (Some b)")
    case True
    then obtain b where b: "load_block P bc h = Ok (Some b)" by auto
    then have "r (previous_hash (header b)) < r h" using less.prems by (auto simp: ranked_def)
    then obtain x where "collect_until P bc a (previous_hash (header b)) = Some x" using less by blast
    then show ?thesis using b by (subst collect_until.simps) simp
  qed (subst collect_until.simps, auto split: result.splits option.splits)
qed

lemma recover_tip_state:
  assumes "recover_tip P bc = (bc', r)"
  shows "bc' = bc \<or> (\<exists>h hash. highest_block P (db_iterator (bc_db bc)) None = Some (h, hash) \<and>
    bc' = bc\<lparr>bc_db := db_put tip_key (as_bytes P hash) (bc_db bc), chain_tip := Some hash\<rparr>)"
  using assms by (auto simp: recover_tip_def split: option.splits)

lemma refresh_tip_state:
  assumes "refresh_tip P bc t h = (bc', r)"
  shows "bc' = bc \<or> (\<exists>r. recover_tip P bc = (bc', r))"
  using assms by (auto simp: refresh_tip_def Let_def split: if_splits prod.splits result.splits)

lemma recover_tip_load: "recover_tip P bc = (bc', r) \<Longrightarrow> load_block P bc' h = load_block P bc h"
  using recover_tip_state[of P bc bc' r] by (auto simp: load_block_def)

text \<open>
  C8. \<open>reorganize_if_needed\<close> always returns, whatever block it is asked to switch to, if the parents
  of the stored blocks form no cycle.
\<close>

theorem reorganize_terminates:
  assumes "ranked P bc r"
  shows "\<exists>res. reorganize_if_needed P bc h = Some res"
proof -
  have rk: "ranked P bc' r" if "refresh_tip P bc t hd = (bc', x)" for t hd bc' x
    using refresh_tip_state[OF that] assms recover_tip_load[of P bc bc'] by (auto simp: ranked_def)
  note t = collect_ancestors_terminates first_common_terminates collect_until_terminates
  have 1: "\<exists>x. find_common_ancestor P bc' a b = Some x" if w: "ranked P bc' r" for bc' a b
  proof -
    obtain x where "collect_ancestors P bc' a = Some x" using t(1)[OF w] by metis
    then show ?thesis using t(2)[OF w] by (cases x) (auto simp: find_common_ancestor_def)
  qed
  have 2: "\<exists>x. reorg_from P bc' a b c d = Some x" if w: "ranked P bc' r" for bc' a b c d
  proof -
    obtain x y where "collect_until P bc' d a = Some x" "collect_until P bc' d c = Some y" using t(3)[OF w] by metis
    then show ?thesis by (cases x; cases y) (auto simp: reorg_from_def split: result.splits)
  qed
  have 3: "\<exists>x. reorg_to P bc' a b c = Some x" if w: "ranked P bc' r" for bc' a b c
  proof -
    obtain x where "find_common_ancestor P bc' a c = Some x" using 1[OF w] by metis
    then show ?thesis using 2[OF w] by (auto simp: reorg_to_def split: result.splits option.splits)
  qed
  show ?thesis
    by (auto simp: reorganize_if_needed_def split: option.splits result.splits prod.splits dest!: rk intro: 3[unfolded split_paired_Ex])
qed


section \<open>When the chain is switched\<close>

lemma switch_chain_cases:
  "(\<exists>e. switch_chain P bc h rb ap = (bc, Err e)) \<or> (\<exists>b. switch_chain P bc h rb ap = (b, Ok True))"
  by (auto simp: switch_chain_def rollback_blocks_def Let_def split: result.splits)

lemma reorg_from_unchanged:
  assumes "reorg_from P bc t hdr h a = Some (bc', r)" "r \<noteq> Ok True"
  shows "bc' = bc"
  using assms switch_chain_cases[of P bc h]
  by (cases "collect_until P bc a t"; cases "collect_until P bc a h")
    (auto simp: reorg_from_def split: result.splits, metis prod.inject)

lemma reorg_to_unchanged:
  assumes "reorg_to P bc t hdr h = Some (bc', r)" "r \<noteq> Ok True"
  shows "bc' = bc"
  using assms reorg_from_unchanged[of P bc t hdr h _ bc' r]
  by (cases "find_common_ancestor P bc t h") (auto simp: reorg_to_def split: result.splits if_splits option.splits)

lemma reorg_from_True:
  assumes "reorg_from P bc t hdr h a = Some (bc', Ok True)"
  obtains rb ap where "check_reorg P bc hdr a = Ok ()" "collect_until P bc a t = Some (Ok rb)"
    "collect_until P bc a h = Some (Ok ap)" "switch_chain P bc h rb ap = (bc', Ok True)"
  using assms
  by (cases "collect_until P bc a t"; cases "collect_until P bc a h") (auto simp: reorg_from_def split: result.splits)

lemma reorg_to_True:
  assumes "reorg_to P bc t hdr h = Some (bc', Ok True)"
  obtains tb nb as a where "load_block P bc t = Ok (Some tb)" "load_block P bc h = Ok (Some nb)"
    "index (header tb) + 1 < index (header nb) + 1" "collect_ancestors P bc t = Some (Ok as)"
    "first_common P bc as h = Some (Ok (Some a))" "reorg_from P bc t hdr h a = Some (bc', Ok True)"
proof -
  from assms obtain cw nw where w: "calculate_chain_work P bc t = Ok cw" "calculate_chain_work P bc h = Ok nw"
    "\<not> cw \<ge> nw"
    by (auto simp: reorg_to_def res_simps split: result.splits if_splits)
  from assms w obtain a where a: "find_common_ancestor P bc t h = Some (Ok (Some a))"
    "reorg_from P bc t hdr h a = Some (bc', Ok True)"
    by (cases "find_common_ancestor P bc t h") (auto simp: reorg_to_def split: result.splits option.splits)
  from a(1) obtain as where "collect_ancestors P bc t = Some (Ok as)" "first_common P bc as h = Some (Ok (Some a))"
    by (cases "collect_ancestors P bc t") (auto simp: find_common_ancestor_def split: result.splits)
  moreover from w obtain tb nb where "load_block P bc t = Ok (Some tb)" "load_block P bc h = Ok (Some nb)"
    "index (header tb) + 1 < index (header nb) + 1"
    by (auto simp: calculate_chain_work_def res_simps split: option.splits)
  ultimately show thesis using a(2) that by blast
qed

lemma reorganize_True:
  assumes "reorganize_if_needed P bc h = Some (bc', Ok True)"
  obtains t hdr bc1 r where "bc1 = bc \<or> recover_tip P bc = (bc1, r)" "chain_tip bc1 = Some t"
    "load_header P bc1 t = Ok (Some hdr)" "reorg_to P bc1 t hdr h = Some (bc', Ok True)"
proof -
  from assms obtain t0 h0 where 0: "chain_tip bc = Some t0" "load_header P bc t0 = Ok (Some h0)"
    by (auto simp: reorganize_if_needed_def res_simps split: option.splits result.splits)
  from assms 0 obtain bc1 t hdr where 1: "refresh_tip P bc t0 h0 = (bc1, Ok (t, hdr))"
    "reorg_to P bc1 t hdr h = Some (bc', Ok True)"
    by (auto simp: reorganize_if_needed_def split: result.splits prod.splits)
  have "(bc1 = bc \<and> t = t0 \<and> hdr = h0) \<or>
      (\<exists>r. recover_tip P bc = (bc1, r)) \<and> chain_tip bc1 = Some t \<and> load_header P bc1 t = Ok (Some hdr)"
    using 1(1) by (auto simp: refresh_tip_def Let_def res_simps split: if_splits prod.splits result.splits)
  then show thesis using that 0 1(2) by blast
qed

lemma reorganize_not_True:
  assumes "reorganize_if_needed P bc h = Some (bc', r)" "r \<noteq> Ok True"
  shows "bc' = bc \<or> (\<exists>r. recover_tip P bc = (bc', r))"
proof (cases "chain_tip bc")
  case (Some t0)
  show ?thesis
  proof (cases "bind_res (load_header P bc t0) (ok_or TipHeaderMissing)")
    case (Ok h0)
    obtain bc1 x where x: "refresh_tip P bc t0 h0 = (bc1, x)" by (cases "refresh_tip P bc t0 h0")
    have "bc' = bc1"
      using assms Some Ok x reorg_to_unchanged[OF _ assms(2), of P bc1 _ _ h bc']
      by (cases x) (auto simp: reorganize_if_needed_def split: prod.splits)
    then show ?thesis using refresh_tip_state[OF x] by auto
  qed (use assms Some in \<open>auto simp: reorganize_if_needed_def\<close>)
qed (use assms in \<open>auto simp: reorganize_if_needed_def\<close>)

text \<open>
  The hashes on the way from a block down to an ancestor, following the stored parents; the ancestor
  itself is not among them.
\<close>

fun descends :: "'v prims \<Rightarrow> 'v blockchain \<Rightarrow> string \<Rightarrow> string list \<Rightarrow> string \<Rightarrow> bool" where
  "descends P bc h [] a \<longleftrightarrow> h = a"
| "descends P bc h (x # xs) a \<longleftrightarrow> x = h \<and>
     (case load_block P bc h of Ok (Some b) \<Rightarrow> descends P bc (previous_hash (header b)) xs a | _ \<Rightarrow> False)"

definition fork_point :: "'v prims \<Rightarrow> 'v blockchain \<Rightarrow> string \<Rightarrow> string \<Rightarrow> string \<Rightarrow> bool" where
  "fork_point P bc tip h a \<longleftrightarrow>
     (\<exists>xs ys. descends P bc tip xs a \<and> descends P bc h ys a \<and> set xs \<inter> set ys = {})"

lemma descends_cong: "(\<And>x. load_block P bc1 x = load_block P bc x) \<Longrightarrow> descends P bc1 h xs a = descends P bc h xs a"
  by (induction xs arbitrary: h) (auto split: result.splits option.splits)

lemma collect_ancestors_descends:
  assumes "collect_ancestors P bc h = Some (Ok hs)" "a \<in> set hs"
  shows "\<exists>xs. descends P bc h xs a \<and> set xs \<subseteq> set hs"
  using assms
proof (induction hs arbitrary: h)
  case (Cons x hs)
  from Cons.prems(1) obtain b where b: "load_block P bc h = Ok (Some b)" "x = h"
    "index (header b) = 0 \<and> hs = [] \<or> collect_ancestors P bc (previous_hash (header b)) = Some (Ok hs)"
    by (subst (asm) collect_ancestors.simps) (auto simp: bind_eq_Some_conv res_simps split: result.splits option.splits if_splits)
  show ?case
  proof (cases "a = h")
    case True
    then show ?thesis by (intro exI[of _ "[]"]) simp
  next
    case False
    then obtain xs where "descends P bc (previous_hash (header b)) xs a" "set xs \<subseteq> set hs"
      using Cons.IH[of "previous_hash (header b)"] Cons.prems(2) b by auto
    then show ?thesis using b by (intro exI[of _ "h # xs"]) auto
  qed
qed simp

lemmas first_common_induct =
  first_common.raw_induct[of "\<lambda>(((P, bc), hs), h) r. Q P bc hs h r" for Q, unfolded split_conv, case_names step]

lemma first_common_descends:
  assumes "first_common P bc hs h = Some r"
  shows "\<forall>a. r = Ok (Some a) \<longrightarrow> a \<in> set hs \<and> (\<exists>ys. descends P bc h ys a \<and> set ys \<inter> set hs = {})"
  using assms
proof (induction rule: first_common_induct[rotated, consumes 1, case_names step])
  case (step f P bc hs h r)
  show ?case
  proof (intro allI impI)
    fix a assume r: "r = Ok (Some a)"
    show "a \<in> set hs \<and> (\<exists>ys. descends P bc h ys a \<and> set ys \<inter> set hs = {})"
    proof (cases "h \<in> set hs")
      case True
      then have "a = h" using step(2) r by (auto split: result.splits option.splits)
      then show ?thesis using True by (auto intro: exI[of _ "[]"])
    next
      case False
      then obtain b where b: "load_block P bc h = Ok (Some b)" "f P bc hs (previous_hash (header b)) = Some r"
        using step(2) r by (auto split: result.splits option.splits if_splits)
      from step(1)[OF b(2)] r obtain ys where "a \<in> set hs" "descends P bc (previous_hash (header b)) ys a"
        "set ys \<inter> set hs = {}" by blast
      then show ?thesis using b(1) False by (intro conjI exI[of _ "h # ys"]) auto
    qed
  qed
qed

lemma common_is_fork_point:
  assumes "collect_ancestors P bc t = Some (Ok hs)" "first_common P bc hs h = Some (Ok (Some a))"
  shows "fork_point P bc t h a"
proof -
  from first_common_descends[OF assms(2)] obtain ys where
    1: "a \<in> set hs" "descends P bc h ys a" "set ys \<inter> set hs = {}" by auto
  from collect_ancestors_descends[OF assms(1) 1(1)] obtain xs where "descends P bc t xs a" "set xs \<subseteq> set hs" by auto
  then show ?thesis using 1 unfolding fork_point_def by blast
qed


section \<open>Rolling back an inserted block\<close>

lemma batch_view_last:
  assumes "\<And>op. op \<in> set ops \<Longrightarrow> op_key op = k \<Longrightarrow> op = x" "x \<in> set ops" "op_key x = k"
  shows "batch_view ops m k = op_view x m k"
  using assms
proof (induction ops arbitrary: m)
  case (Cons y ops)
  show ?case
  proof (cases "x \<in> set ops")
    case True
    have "batch_view ops (op_view y m) k = op_view x (op_view y m) k"
      using Cons.IH[OF _ True] Cons.prems(1,3) by simp
    then show ?thesis using Cons.prems(3) by (cases x) auto
  next
    case False
    then have "x = y" using Cons.prems(2) by simp
    moreover have "k \<notin> op_key ` set ops" using Cons.prems(1) False list.set_intros(2)[of _ ops y] by blast
    ultimately show ?thesis by (simp add: batch_view_untouched)
  qed
qed simp

text \<open>The record that rollback rebuilds for an input is the one the database had.\<close>

definition restorable :: "'v prims \<Rightarrow> 'v blockchain \<Rightarrow> 'v db \<Rightarrow> transaction_input \<Rightarrow> bool" where
  "restorable P bc d inp \<longleftrightarrow>
     (case load_tx P bc (in_txid inp) of
        Ok (Some tx) \<Rightarrow> unat (in_vout inp) < length (outputs tx) \<and>
          db_get d (input_key inp) = Some (enc_utxo P \<lparr>u_txid = in_txid inp, u_vout = in_vout inp,
            u_to = out_to (outputs tx ! unat (in_vout inp)), u_amount = out_amount (outputs tx ! unat (in_vout inp))\<rparr>)
      | _ \<Rightarrow> False)"

lemma restore_input_eq:
  "restorable P bc d inp \<Longrightarrow> restore_input P bc inp = Ok [Put (input_key inp) (the (db_get d (input_key inp)))]"
  by (auto simp: restorable_def restore_input_def input_key_def Let_def split: result.splits option.splits)

lemma restorable_stored: "restorable P bc d inp \<Longrightarrow> db_get d (input_key inp) \<noteq> None"
  by (auto simp: restorable_def split: result.splits option.splits)

definition rollback_ops :: "'v db \<Rightarrow> transaction \<Rightarrow> 'v write_op list" where
  "rollback_ops d tx = map (\<lambda>i. Delete (utxo_key (txid tx) i)) [0..<length (outputs tx)]
     @ map (\<lambda>inp. Put (input_key inp) (the (db_get d (input_key inp)))) (inputs tx) @ [Delete (tx_key (txid tx))]"

lemma rollback_ops_mem:
  "op \<in> set (rollback_ops d tx) \<longleftrightarrow> (\<exists>i<length (outputs tx). op = Delete (utxo_key (txid tx) i)) \<or>
     (\<exists>inp\<in>set (inputs tx). op = Put (input_key inp) (the (db_get d (input_key inp)))) \<or>
     op = Delete (tx_key (txid tx))"
  by (auto simp: rollback_ops_def)

lemma rollback_tx_eq:
  assumes "\<forall>inp\<in>set (inputs tx). restorable P bc d inp"
  shows "rollback_tx P bc tx = Ok (rollback_ops d tx)"
proof -
  have "concat_res (restore_input P bc) (inputs tx) =
      Ok (concat (map (\<lambda>inp. [Put (input_key inp) (the (db_get d (input_key inp)))]) (inputs tx)))"
    using assms by (intro concat_res_Ok) (simp add: restore_input_eq)
  moreover have "concat (map (\<lambda>x. [f x]) xs) = map f xs" for f :: "transaction_input \<Rightarrow> 'a write_op" and xs
    by (induction xs) auto
  ultimately show ?thesis by (simp add: rollback_tx_def rollback_ops_def)
qed

lemma rollback_block_eq:
  assumes "\<forall>tx\<in>set (transactions b). \<forall>inp\<in>set (inputs tx). restorable P bc d inp"
  shows "rollback_block P bc b = Ok (concat (map (rollback_ops d) (rev (transactions b))) @
    [Delete (block_key (block_hash b)), Delete (index_key (unat (index (header b))))])"
proof -
  have "concat_res (rollback_tx P bc) (rev (transactions b)) = Ok (concat (map (rollback_ops d) (rev (transactions b))))"
    using assms by (intro concat_res_Ok) (simp add: rollback_tx_eq)
  then show ?thesis by (simp add: rollback_block_def)
qed

lemma created_keys_eq: "map fst (created_utxos norm tx) = map (utxo_key (txid tx)) [0..<length (outputs tx)]"
  by (rule nth_equalityI) (simp_all add: created_utxos_def nth_enumerate_eq)

lemma created_mem:
  "k \<in> set (created_keys_of txs) \<longleftrightarrow> (\<exists>tx\<in>set txs. \<exists>i<length (outputs tx). k = utxo_key (txid tx) i)"
proof -
  have "created_keys_of txs = concat (map (\<lambda>tx. map (utxo_key (txid tx)) [0..<length (outputs tx)]) txs)"
    by (simp add: created_keys_of_def comp_def created_keys_eq)
  then show ?thesis by (fastforce simp: image_iff)
qed

lemma spent_mem: "k \<in> set (spent_keys txs) \<longleftrightarrow> (\<exists>tx\<in>set txs. \<exists>inp\<in>set (inputs tx). k = input_key inp)"
  by (auto simp: spent_keys_def)

text \<open>The unspent outputs a batch of an accepted block can touch.\<close>

lemma batch_utxo_keys:
  assumes "codec_ok P" "block_batch P bc b = Ok ops" "plain_spends b" "starts_with ''u:'' k" "k \<in> op_key ` set ops"
  shows "k \<in> set (created_keys_of (transactions b)) \<union> set (spent_keys (tl (transactions b)))"
proof -
  from assms(2) obtain cb rest acc where 2: "transactions b = cb # rest"
    "fold_res (process_tx P (bc_db bc)) rest (add_outputs P cb \<lparr>batch = [], total_fees = 0, block_utxos = Map.empty\<rparr>) = Ok acc"
    "ops = batch acc @ [Put (block_key (block_hash b)) (enc_block P b),
       Put (index_key (unat (index (header b)))) (as_bytes P (block_hash b)),
       Put tip_key (as_bytes P (block_hash b))]" by (rule block_batch_Ok)
  let ?acc0 = "add_outputs P cb \<lparr>batch = [], total_fees = 0, block_utxos = Map.empty\<rparr>"
  note a0 = add_outputs_balance[OF assms(1), of cb "\<lparr>batch = [], total_fees = 0, block_utxos = Map.empty\<rparr>"]
  have b0: "balanced P (bc_db bc) (output_total cb) ?acc0" by (simp add: balanced_def a0)
  have "set (spent_keys rest) \<inter> (dom (block_utxos ?acc0) \<union> set (created_keys_of rest)) = {}"
    using assms(3) 2(1) unfolding a0 by (auto simp: plain_spends_def created_keys_of_def)
  note 3 = process_txs_balance[OF 2(2) assms(1) b0 this]
  have "op_key ` set xs = set (put_keys xs) \<union> set (delete_keys xs)" for xs :: "'a write_op list"
    by (induction xs rule: put_keys.induct) auto
  then have "k \<in> set (put_keys ops) \<union> set (delete_keys ops)" using assms(5) by simp
  moreover have "set (put_keys ops) \<subseteq> set (created_keys_of (cb # rest)) \<union> {k. \<not> starts_with ''u:'' k}"
    using 3 2(3) a0 by (auto simp: created_keys_of_def)
  moreover have "delete_keys ops = spent_keys rest" using 3 2(3) a0 by simp
  ultimately show ?thesis using 2(1) assms(4) by auto
qed

text \<open>
  C9. Rolling a block back undoes its insertion on the unspent outputs, under three conditions: the
  block spends no output twice and none that it creates (\<open>plain_spends\<close>), the outputs it creates were
  not stored before, and for each output it spends the record that rollback rebuilds from the stored
  transaction is the one the database had (\<open>restorable\<close>). Then every \<open>u:\<close> record is again what it was
  before the block.
\<close>

theorem rollback_undoes_insert:
  assumes "codec_ok P" "validate_and_insert_block P now bc b = (bc', Ok ())"
    and "db_get (bc_db bc) (block_key (block_hash b)) = None" "plain_spends b"
    and fresh: "\<forall>k\<in>set (created_keys_of (transactions b)). db_get (bc_db bc) k = None"
    and rest: "\<forall>tx\<in>set (tl (transactions b)). \<forall>inp\<in>set (inputs tx). restorable P bc' (bc_db bc) inp"
    and k: "starts_with ''u:'' k"
  shows "\<exists>bc''. rollback_blocks P bc' [b] = (bc'', Ok ()) \<and> db_get (bc_db bc'') k = db_get (bc_db bc) k"
proof -
  let ?d = "bc_db bc" and ?txs = "transactions b"
  obtain bc1 ops where 1: "settle_tip P bc b = (bc1, Ok ())" "block_batch P bc1 b = Ok ops"
    "bc' = bc1\<lparr>bc_db := put_batch (bc_db bc1) ops, chain_tip := Some (block_hash b),
       bc_difficulty := difficulty (header b)\<rparr>"
    using insert_Ok[OF assms(2,3)] by metis
  obtain cb tail where tx: "?txs = cb # tail" "inputs cb = []" using block_batch_Ok[OF 1(2)] by metis
  have rb: "rollback_block P bc' b = Ok (concat (map (rollback_ops ?d) (rev ?txs)) @
      [Delete (block_key (block_hash b)), Delete (index_key (unat (index (header b))))])"
    (is "_ = Ok ?ops") using rest tx by (intro rollback_block_eq) auto
  have in_ops: "op \<in> set ?ops \<and> op_key op = k \<longleftrightarrow>
      (op = Delete k \<and> k \<in> set (created_keys_of ?txs)) \<or>
      (op = Put k (the (db_get ?d k)) \<and> k \<in> set (spent_keys (tl ?txs)))" for op
  proof -
    have "op \<in> set ?ops \<and> op_key op = k \<longleftrightarrow> (\<exists>tx\<in>set ?txs. op \<in> set (rollback_ops ?d tx)) \<and> op_key op = k"
      using k by auto
    also have "\<dots> \<longleftrightarrow> (op = Delete k \<and> k \<in> set (created_keys_of ?txs)) \<or>
        (op = Put k (the (db_get ?d k)) \<and> k \<in> set (spent_keys ?txs))"
      unfolding created_mem spent_mem rollback_ops_mem using k by (cases op) auto
    also have "spent_keys ?txs = spent_keys (tl ?txs)" using tx by (simp add: spent_keys_def)
    finally show ?thesis .
  qed
  have "db_get (bc_db bc') k = db_get ?d k" if "k \<notin> set (created_keys_of ?txs) \<union> set (spent_keys (tl ?txs))"
  proof -
    have "k \<noteq> tip_key" using k by (metis key_prefix(5))
    moreover have "k \<notin> op_key ` set ops" using that batch_utxo_keys[OF assms(1) 1(2) assms(4) k] by blast
    ultimately show ?thesis using settle_tip_other(1)[OF 1(1), of k] 1(3) by (simp add: batch_view_untouched)
  qed
  moreover have "batch_view ?ops m k = None" if c: "k \<in> set (created_keys_of ?txs)" for m
  proof -
    have "k \<notin> set (spent_keys (tl ?txs))" using c assms(4) by (auto simp: plain_spends_def)
    then have "batch_view ?ops m k = op_view (Delete k) m k"
      by (intro batch_view_last) (use in_ops c in blast, use in_ops[of "Delete k"] c in blast, simp)
    then show ?thesis by simp
  qed
  moreover have "batch_view ?ops m k = db_get ?d k" if c: "k \<in> set (spent_keys (tl ?txs))" for m
  proof -
    have "k \<notin> set (created_keys_of ?txs)" using c assms(4) by (auto simp: plain_spends_def)
    then have "batch_view ?ops m k = op_view (Put k (the (db_get ?d k))) m k"
      by (intro batch_view_last) (use in_ops c in blast, use in_ops[of "Put k (the (db_get ?d k))"] c in blast, simp)
    moreover have "db_get ?d k \<noteq> None"
      using c rest restorable_stored unfolding spent_mem by blast
    ultimately show ?thesis by auto
  qed
  moreover have "batch_view ?ops m k = m k" if "k \<notin> set (created_keys_of ?txs) \<union> set (spent_keys (tl ?txs))" for m
    using in_ops that by (intro batch_view_untouched) blast
  ultimately have "batch_view ?ops (db_get (bc_db bc')) k = db_get ?d k"
    using fresh by (cases "k \<in> set (created_keys_of ?txs) \<union> set (spent_keys (tl ?txs))") auto
  then show ?thesis using rb by (simp add: rollback_blocks_def)
qed

theorem rollback_undoes_insert_witness:
  "\<exists>bc' bc''. validate_and_insert_block ref_prims 2000 sample_chain spend_block = (bc', Ok ()) \<and>
    db_get (bc_db bc') (utxo_key ''aa'' 0) = None \<and> rollback_blocks ref_prims bc' [spend_block] = (bc'', Ok ()) \<and>
    db_get (bc_db bc'') (utxo_key ''aa'' 0) = Some (SUtxo sample_utxo)"
proof -
  obtain bc' where 1: "validate_and_insert_block ref_prims 2000 sample_chain spend_block = (bc', Ok ())"
    "db_get (bc_db bc') (utxo_key ''aa'' 0) = None" "db_get (bc_db bc') (tx_key ''aa'') = Some (STx sample_funding)"
    using spend_accepted by blast
  have 2: "db_get (bc_db sample_chain) (block_key (block_hash spend_block)) = None"
    unfolding spend_block_def by (rule sample_not_stored)
  have 3: "plain_spends spend_block"
    by (simp add: plain_spends_def spend_block_def spent_keys_def created_keys_of_def input_key_def sample_created)
  have 4: "\<forall>k\<in>set (created_keys_of (transactions spend_block)). db_get (bc_db sample_chain) k = None"
    by (simp add: spend_block_def created_keys_of_def sample_created sample_db_more)
  have l: "load_tx ref_prims bc' ''aa'' = Ok (Some sample_funding)" by (simp add: load_tx_def 1(3) ref_selectors)
  have 5: "\<forall>tx\<in>set (tl (transactions spend_block)). \<forall>inp\<in>set (inputs tx). restorable ref_prims bc' (bc_db sample_chain) inp"
    by (simp add: spend_block_def restorable_def l input_key_def sample_db ref_selectors sample_utxo_def)
      (simp add: sample_funding_def)
  from rollback_undoes_insert[OF _ 1(1) 2 3 4 5, of "utxo_key ''aa'' 0"] 1 sample_db(3) show ?thesis by auto
qed

section \<open>A fork block that mints\<close>

definition mint_block :: block where
  "mint_block = sample_block 1 [sample_coinbase ''c0'' 1000000000000000000000000000000]"

definition mint_hash :: string where
  "mint_hash = block_hash mint_block"

lemma length_db_put: "length (db_put k v d) \<le> Suc (length d)"
  by (induction k v d rule: db_put.induct) auto

lemma length_put_batch: "length (put_batch d ops) \<le> length d + length ops"
proof (induction ops arbitrary: d)
  case (Cons x ops)
  have "length (apply_op x d) \<le> Suc (length d)"
    by (cases x) (auto simp: length_db_put db_delete_def intro: le_SucI length_filter_le)
  then show ?case using Cons.IH[of "apply_op x d"] by (simp add: put_batch_def)
qed (simp add: put_batch_def)

lemma count_blocks_le: "count_blocks bc \<le> length (bc_db bc)"
  by (simp add: count_blocks_def db_iterator_def)

text \<open>The state after the fork block is stored.\<close>

definition mint_fork :: "stored blockchain" where
  "mint_fork = fst (validate_fork_block ref_prims 2000 sample_chain mint_block)"

lemma mint_fork_eq:
  "validate_fork_block ref_prims 2000 sample_chain mint_block = (mint_fork, Ok ())"
  "mint_fork = sample_chain\<lparr>bc_db := put_batch (bc_db sample_chain)
     [Put (block_key mint_hash) (SBlock mint_block),
      Put (tx_key ''c0'') (STx (sample_coinbase ''c0'' 1000000000000000000000000000000))]\<rparr>"
proof -
  have "check_header ref_prims sample_chain mint_block = Ok ()"
    unfolding mint_block_def by (rule sample_check_header) simp_all
  moreover have "check_context ref_prims 2000 sample_chain mint_block = Ok ()"
    unfolding mint_block_def by (rule sample_check_context) simp
  ultimately have e: "validate_fork_block ref_prims 2000 sample_chain mint_block =
     (sample_chain\<lparr>bc_db := put_batch (bc_db sample_chain) [Put (block_key mint_hash) (SBlock mint_block),
      Put (tx_key ''c0'') (STx (sample_coinbase ''c0'' 1000000000000000000000000000000))]\<rparr>, Ok ())"
    by (simp add: validate_fork_block_def ref_selectors mint_hash_def) (simp add: mint_block_def)
  then show "validate_fork_block ref_prims 2000 sample_chain mint_block = (mint_fork, Ok ())"
    "mint_fork = sample_chain\<lparr>bc_db := put_batch (bc_db sample_chain)
     [Put (block_key mint_hash) (SBlock mint_block),
      Put (tx_key ''c0'') (STx (sample_coinbase ''c0'' 1000000000000000000000000000000))]\<rparr>"
    by (simp_all add: mint_fork_def)
qed

lemma mint_hash_not_g: "mint_hash \<noteq> ''g''" "''g'' \<noteq> mint_hash"
proof -
  have "length mint_hash = 64" unfolding mint_hash_def mint_block_def sample_block_hash by simp
  moreover have "length ''g'' \<noteq> 64" by simp
  ultimately show "mint_hash \<noteq> ''g''" "''g'' \<noteq> mint_hash" by metis+
qed

lemma mint_load:
  "load_block ref_prims mint_fork mint_hash = Ok (Some mint_block)"
  "load_block ref_prims mint_fork ''g'' = Ok (Some sample_genesis)"
  "load_header ref_prims mint_fork ''g'' = Ok (Some (header sample_genesis))"
  "h \<noteq> ''g'' \<Longrightarrow> h \<noteq> mint_hash \<Longrightarrow> load_block ref_prims mint_fork h = Ok None"
  by (auto simp: mint_fork_eq(2) load_block_def load_header_def sample_db ref_selectors mint_hash_not_g)

lemma mint_header: "index (header mint_block) = 1" "previous_hash (header mint_block) = ''g''"
  "index (header sample_genesis) = 0" "previous_hash (header sample_genesis) = ''''"
  by (simp_all add: mint_block_def sample_genesis_def)

lemma mint_ancestor: "find_common_ancestor ref_prims mint_fork ''g'' mint_hash = Some (Ok (Some ''g''))"
proof -
  have "collect_ancestors ref_prims mint_fork ''g'' = Some (Ok [''g''])"
    by (subst collect_ancestors.simps) (simp add: mint_load mint_header)
  moreover have "first_common ref_prims mint_fork [''g''] ''g'' = Some (Ok (Some ''g''))"
    by (subst first_common.simps) (simp add: mint_load)
  then have "first_common ref_prims mint_fork [''g''] mint_hash = Some (Ok (Some ''g''))"
    by (subst first_common.simps) (simp add: mint_load mint_header mint_hash_not_g)
  ultimately show ?thesis by (simp add: find_common_ancestor_def)
qed

lemma mint_collect:
  "collect_until ref_prims mint_fork ''g'' ''g'' = Some (Ok [])"
  "collect_until ref_prims mint_fork ''g'' mint_hash = Some (Ok [mint_block])"
proof -
  show g: "collect_until ref_prims mint_fork ''g'' ''g'' = Some (Ok [])"
    by (subst collect_until.simps) simp
  show "collect_until ref_prims mint_fork ''g'' mint_hash = Some (Ok [mint_block])"
    by (subst collect_until.simps) (simp add: mint_load mint_header mint_hash_not_g g)
qed

lemma mint_refresh: "refresh_tip ref_prims mint_fork ''g'' hdr = (mint_fork, Ok (''g'', hdr))"
proof -
  have "length (bc_db sample_chain) = 5" by (simp add: sample_chain_def)
  then have "length (bc_db mint_fork) \<le> 7"
    using length_put_batch[of "bc_db sample_chain"] unfolding mint_fork_eq(2)
    by (auto intro: order_trans[OF length_put_batch])
  then have "count_blocks mint_fork \<le> 7" using count_blocks_le order_trans by blast
  then have "\<not> (of_nat (count_blocks mint_fork) :: u64) > 100"
    by (simp add: word_less_nat_alt unat_of_nat_eq)
  then show ?thesis by (simp add: refresh_tip_def)
qed

lemma mint_reorg:
  "\<exists>bc'. reorganize_if_needed ref_prims mint_fork mint_hash = Some (bc', Ok True) \<and>
    db_get (bc_db bc') (utxo_key ''c0'' 0) = Some (SUtxo \<lparr>u_txid = ''c0'', u_vout = 0, u_to = ''0xab'',
      u_amount = 1000000000000000000000000000000\<rparr>) \<and> db_wf (bc_db bc')"
proof -
  have wf: "db_wf (bc_db mint_fork)" by (simp add: mint_fork_eq(2) sample_db)
  have tip: "chain_tip mint_fork = Some ''g''" by (simp add: mint_fork_eq(2) sample_db)
  have "check_reorg ref_prims mint_fork (header sample_genesis) ''g'' = Ok ()"
    by (simp add: check_reorg_def mint_load Let_def check_reorg_allowed validate_reorg_depth_def sat_sub_def)
  then have "reorg_from ref_prims mint_fork ''g'' (header sample_genesis) mint_hash ''g'' =
      Some (switch_chain ref_prims mint_fork mint_hash [] [mint_block])"
    by (simp add: reorg_from_def mint_collect)
  moreover have "\<not> (2::u64) \<le> 1" by (simp add: word_le_nat_alt)
  ultimately have r: "reorganize_if_needed ref_prims mint_fork mint_hash =
      Some (switch_chain ref_prims mint_fork mint_hash [] [mint_block])"
    by (simp add: reorganize_if_needed_def tip mint_load mint_refresh reorg_to_def calculate_chain_work_def
        mint_header mint_ancestor)
  show ?thesis unfolding r
    by (simp add: switch_chain_def rollback_blocks_def replay_blocks_def replay_block_def Let_def wf)
      (simp add: mint_block_def replay_tx_def sample_created put_utxos_def ref_selectors)
qed

text \<open>
  C40. Transactions of a fork block are checked neither when it is stored nor when the chain is
  switched to it: a block whose coinbase exceeds the reward by far, which insertion refuses,
  becomes the tip through \<open>validate_fork_block\<close> and \<open>reorganize_if_needed\<close>, and its output is
  unspent in the database.
\<close>

theorem fork_block_mints:
  "(\<exists>bc'. validate_and_insert_block ref_prims 2000 sample_chain mint_block = (bc', Err InvalidCoinbaseReward)) \<and>
   (\<exists>bc1 bc2. validate_fork_block ref_prims 2000 sample_chain mint_block = (bc1, Ok ()) \<and>
     reorganize_if_needed ref_prims bc1 (block_hash mint_block) = Some (bc2, Ok True) \<and>
     utxo_total ref_prims (bc_db sample_chain) < 10 ^ 19 \<and> 10 ^ 30 \<le> utxo_total ref_prims (bc_db bc2))"
proof
  have b: "block_batch ref_prims sample_chain mint_block = Err InvalidCoinbaseReward"
    unfolding mint_block_def by (simp add: block_batch_sample add_outputs_def u256_add_def)
  have s: "db_get (bc_db sample_chain) (block_key (block_hash mint_block)) = None"
    unfolding mint_block_def by (rule sample_not_stored)
  show "\<exists>bc'. validate_and_insert_block ref_prims 2000 sample_chain mint_block = (bc', Err InvalidCoinbaseReward)"
    unfolding validate_and_insert_block_def s
    using b sample_check_header[of 1] sample_settle[of 1] sample_check_context[of 1] by (simp add: mint_block_def)
  obtain bc2 where 1: "reorganize_if_needed ref_prims mint_fork mint_hash = Some (bc2, Ok True)"
    "db_get (bc_db bc2) (utxo_key ''c0'' 0) = Some (SUtxo \<lparr>u_txid = ''c0'', u_vout = 0, u_to = ''0xab'',
      u_amount = 1000000000000000000000000000000\<rparr>)" "db_wf (bc_db bc2)" using mint_reorg by blast
  have "10 ^ 30 \<le> utxo_total ref_prims (bc_db bc2)"
    using utxo_total_ge[of "bc_db bc2" "[utxo_key ''c0'' 0]" ref_prims] 1(2,3)
    by (simp add: weight_at_def utxo_value_def ref_selectors)
  then show "\<exists>bc1 bc2. validate_fork_block ref_prims 2000 sample_chain mint_block = (bc1, Ok ()) \<and>
     reorganize_if_needed ref_prims bc1 (block_hash mint_block) = Some (bc2, Ok True) \<and>
     utxo_total ref_prims (bc_db sample_chain) < 10 ^ 19 \<and> 10 ^ 30 \<le> utxo_total ref_prims (bc_db bc2)"
    using 1(1) mint_fork_eq(1) by (auto simp: mint_hash_def sample_total)
qed

theorem reorganize_terminates_witness:
  "\<exists>res. reorganize_if_needed ref_prims mint_fork ''g'' = Some res"
proof (rule reorganize_terminates[where r = "\<lambda>h. if h = mint_hash then 2 else if h = ''g'' then 1 else 0"])
  have n: "[] \<noteq> mint_hash" unfolding mint_hash_def mint_block_def sample_block_hash by (simp add: pad_def)
  have "h = ''g'' \<and> b = sample_genesis \<or> h = mint_hash \<and> b = mint_block"
    if "load_block ref_prims mint_fork h = Ok (Some b)" for h b
    using that mint_load mint_hash_not_g by (cases "h = ''g''"; cases "h = mint_hash") auto
  then show "ranked ref_prims mint_fork (\<lambda>h. if h = mint_hash then 2 else if h = ''g'' then 1 else 0)"
    unfolding ranked_def using n mint_header mint_hash_not_g by fastforce
qed


end
