(* ===== verification/Reachability.thy ===== *)
theory Reachability
  imports Reorg
begin

text \<open>
  The blockchain as a state machine: a step is one call of a method that changes the state, with
  any arguments, any clock and any outcome, or a restart of the process. The invariant says that
  the database stays a database, that every \<open>b:\<close> record holds a block under its own hash, and that
  the tip in memory, the tip on disk and the block they name agree.
\<close>

inductive chain_step :: "'v prims \<Rightarrow> 'v blockchain \<Rightarrow> 'v blockchain \<Rightarrow> bool" for P where
  genesis: "create_genesis P now bc address = (bc', r) \<Longrightarrow> chain_step P bc bc'"
| insert_block: "validate_and_insert_block P now bc b = (bc', r) \<Longrightarrow> chain_step P bc bc'"
| fork_block: "validate_fork_block P now bc b = (bc', r) \<Longrightarrow> chain_step P bc bc'"
| reorganize: "reorganize_if_needed P bc h = Some (bc', r) \<Longrightarrow> chain_step P bc bc'"
| recover: "recover_tip P bc = (bc', r) \<Longrightarrow> chain_step P bc bc'"
| reset: "chain_step P bc (reset_chain bc)"
| restart: "blockchain_new P (bc_db bc) = Ok bc' \<Longrightarrow> chain_step P bc bc'"

inductive chain_reachable :: "'v prims \<Rightarrow> 'v blockchain \<Rightarrow> bool" for P where
  start: "blockchain_new P [] = Ok bc \<Longrightarrow> chain_reachable P bc"
| step: "chain_reachable P bc \<Longrightarrow> chain_step P bc bc' \<Longrightarrow> chain_reachable P bc'"

inductive_cases chain_stepE: "chain_step P bc bc'"

section \<open>The invariant\<close>

definition own_hash :: "'v prims \<Rightarrow> (string \<rightharpoonup> 'v) \<Rightarrow> bool" where
  "own_hash P m \<longleftrightarrow> (\<forall>h v. m (block_key h) = Some v \<longrightarrow> (\<exists>b. dec_block P v = Some b \<and> block_hash b = h \<and>
     compute_header_hash P (header b) = h))"

definition tip_synced :: "'v prims \<Rightarrow> 'v blockchain \<Rightarrow> bool" where
  "tip_synced P bc \<longleftrightarrow> db_get (bc_db bc) tip_key = map_option (as_bytes P) (chain_tip bc) \<and>
     (\<forall>h. chain_tip bc = Some h \<longrightarrow> db_get (bc_db bc) (block_key h) \<noteq> None)"

definition chain_inv :: "'v prims \<Rightarrow> 'v blockchain \<Rightarrow> bool" where
  "chain_inv P bc \<longleftrightarrow> db_wf (bc_db bc) \<and> own_hash P (db_get (bc_db bc)) \<and> tip_synced P bc"

definition own_op :: "'v prims \<Rightarrow> 'v write_op \<Rightarrow> bool" where
  "own_op P op \<longleftrightarrow> (\<forall>h v. op = Put (block_key h) v \<longrightarrow> (\<exists>b. dec_block P v = Some b \<and> block_hash b = h \<and>
     compute_header_hash P (header b) = h))"

lemma own_op_simps [simp]:
  "own_op P (Delete k)" "own_op P (Put (utxo_key t i) v)" "own_op P (Put (tx_key t) v)"
  "own_op P (Put (index_key n) v)" "own_op P (Put tip_key v)"
  "codec_ok P \<Longrightarrow> compute_header_hash P (header b) = block_hash b \<Longrightarrow>
     own_op P (Put (block_key (block_hash b)) (enc_block P b))"
  by (auto simp: own_op_def)

lemma own_op_ledger: "is_ledger_key (op_key op) \<Longrightarrow> own_op P op"
  by (auto simp: own_op_def is_ledger_key_def)

lemma own_hash_batch: "own_hash P m \<Longrightarrow> (\<And>op. op \<in> set ops \<Longrightarrow> own_op P op) \<Longrightarrow> own_hash P (batch_view ops m)"
proof (induction ops arbitrary: m)
  case (Cons x ops)
  have "own_op P x" using Cons.prems(2) by simp
  then have "own_hash P (op_view x m)" using Cons.prems(1)
    by (cases x) (auto simp: own_hash_def own_op_def)
  then show ?case using Cons by simp
qed simp

lemma own_hash_tip [simp]: "own_hash P (m(tip_key := v)) = own_hash P m"
  by (simp add: own_hash_def)

lemma load_own:
  assumes "own_hash P (db_get (bc_db bc))" "load_block P bc h = Ok (Some b)"
  shows "block_hash b = h" "compute_header_hash P (header b) = h"
  using assms by (auto simp: own_hash_def load_block_def split: option.splits) (metis option.inject)+

section \<open>Every operation keeps it\<close>

lemma highest_block_mem:
  assumes "highest_block P es best = Some (h, hash)"
  shows "best = Some (h, hash) \<or> (\<exists>v. (block_key hash, v) \<in> set es)"
  using assms
proof (induction P es best rule: highest_block.induct)
  case (2 P key v rest best)
  let ?b = "if starts_with ''b:'' key then (case dec_block P v of None \<Rightarrow> best
      | Some b \<Rightarrow> let h = index (header b) in (case best of None \<Rightarrow> Some (h, drop 2 key)
          | Some (h0, _) \<Rightarrow> if h > h0 then Some (h, drop 2 key) else best)) else best"
  have "?b = best \<or> (starts_with ''b:'' key \<and> (\<exists>x. ?b = Some (x, drop 2 key)))"
    by (auto simp: Let_def split: option.splits)
  moreover have "starts_with ''b:'' key \<Longrightarrow> key = block_key (drop 2 key)"
    unfolding starts_with_def block_key_def
    using append_take_drop_id[of 2 key] by (simp only: list.size length_Cons numeral_2_eq_2 One_nat_def) simp
  ultimately show ?case using 2 by auto
qed simp

lemma recover_tip_inv: "recover_tip P bc = (bc', r) \<Longrightarrow> chain_inv P bc \<Longrightarrow> chain_inv P bc'"
proof -
  assume r: "recover_tip P bc = (bc', r)" and i: "chain_inv P bc"
  have "db_get (bc_db bc) (block_key hash) \<noteq> None"
    if "highest_block P (db_iterator (bc_db bc)) None = Some (h, hash)" for h hash
    using highest_block_mem[OF that] db_iterator_iff[of "bc_db bc"] i by (auto simp: chain_inv_def)
  then show "chain_inv P bc'"
    using recover_tip_state[OF r] i by (auto simp: chain_inv_def tip_synced_def db_wf_put)
qed

lemma settle_tip_inv: "settle_tip P bc b = (bc', r) \<Longrightarrow> chain_inv P bc \<Longrightarrow> chain_inv P bc'"
  using recover_tip_inv[of P bc]
  by (auto simp: settle_tip_def split: if_splits option.splits result.splits prod.splits)

lemma block_batch_own:
  assumes "codec_ok P" "block_batch P bc b = Ok ops" "op \<in> set ops" "compute_header_hash P (header b) = block_hash b"
  shows "own_op P op"
proof -
  from assms(2) obtain cb rest acc where 1: "fold_res (process_tx P (bc_db bc)) rest
       (add_outputs P cb \<lparr>batch = [], total_fees = 0, block_utxos = Map.empty\<rparr>) = Ok acc"
    "ops = batch acc @ [Put (block_key (block_hash b)) (enc_block P b),
       Put (index_key (unat (index (header b)))) (as_bytes P (block_hash b)),
       Put tip_key (as_bytes P (block_hash b))]" by (rule block_batch_Ok)
  have "is_ledger_key (op_key op)" if "op \<in> set (batch acc)"
    using process_txs_keys[OF 1(1), of "op_key op"] add_outputs_keys that by fastforce
  then show ?thesis using assms(1,3,4) 1(2) own_op_ledger by auto
qed

lemma header_hash_checked: "check_header P bc b = Ok () \<Longrightarrow> compute_header_hash P (header b) = block_hash b"
  by (auto simp: check_header_def res_simps Let_def)

lemma insert_inv:
  assumes "codec_ok P" "validate_and_insert_block P now bc b = (bc', r)" "chain_inv P bc"
  shows "chain_inv P bc'"
proof (cases r)
  case (Err e)
  then show ?thesis using insert_Err[of P now bc b bc' e] settle_tip_inv assms(2,3) by blast
next
  case (Ok u)
  show ?thesis
  proof (cases "db_get (bc_db bc) (block_key (block_hash b))")
    case None
    obtain bc1 ops where 1: "settle_tip P bc b = (bc1, Ok ())" "block_batch P bc1 b = Ok ops"
      "compute_header_hash P (header b) = block_hash b"
      "bc' = bc1\<lparr>bc_db := put_batch (bc_db bc1) ops, chain_tip := Some (block_hash b),
         bc_difficulty := difficulty (header b)\<rparr>"
      using insert_Ok[OF assms(2)[unfolded Ok] None] header_hash_checked by metis
    have i: "chain_inv P bc1" using settle_tip_inv[OF 1(1) assms(3)] .
    have "batch_view ops m (block_key (block_hash b)) = Some (enc_block P b)"
      "batch_view ops m tip_key = Some (as_bytes P (block_hash b))" for m
      by (auto intro: block_batch_Ok[OF 1(2)])
    then show ?thesis
      using i own_hash_batch[OF _ block_batch_own[OF assms(1) 1(2) _ 1(3)], of "db_get (bc_db bc1)"] 1(4)
      by (auto simp: chain_inv_def tip_synced_def)
  qed (use assms in \<open>auto simp: validate_and_insert_block_def\<close>)
qed

lemma fork_inv:
  assumes "codec_ok P" "validate_fork_block P now bc b = (bc', r)" "chain_inv P bc"
  shows "chain_inv P bc'"
proof (cases "bc' = bc")
  case False
  let ?ops = "Put (block_key (block_hash b)) (enc_block P b)
      # map (\<lambda>tx. Put (tx_key (txid tx)) (enc_tx P tx)) (transactions b)"
  have e: "bc' = bc\<lparr>bc_db := put_batch (bc_db bc) ?ops\<rparr>" and h: "compute_header_hash P (header b) = block_hash b"
    using assms(2) False header_hash_checked[of P bc b]
    by (auto simp: validate_fork_block_def res_simps split: result.splits if_splits)
  have t: "batch_view (map (\<lambda>tx. Put (tx_key (txid tx)) (enc_tx P tx)) txs) m k = m k"
    if "\<And>t. k \<noteq> tx_key t" for txs m k
    using that by (intro batch_view_untouched) (metis (no_types, lifting) imageE list.set_map op_key.simps(1))
  have "own_hash P (batch_view ?ops (db_get (bc_db bc)))"
    using assms(1,3) h by (intro own_hash_batch) (auto simp: chain_inv_def)
  then show ?thesis using assms(3) e
    by (auto simp: chain_inv_def tip_synced_def t)
qed (use assms in simp)

section \<open>Reorganisation keeps it\<close>

lemma concat_res_mem:
  assumes "concat_res f xs = Ok ys" "y \<in> set ys"
  shows "\<exists>x\<in>set xs. \<exists>zs. f x = Ok zs \<and> y \<in> set zs"
  using assms by (induction xs arbitrary: ys) (auto simp: res_simps)

lemma restore_input_ops:
  "restore_input P bc inp = Ok ops \<Longrightarrow> op \<in> set ops \<Longrightarrow> starts_with ''u:'' (op_key op)"
  by (auto simp: restore_input_def res_simps Let_def split: option.splits if_splits)

lemma rollback_tx_ops:
  assumes "rollback_tx P bc tx = Ok ops" "op \<in> set ops"
  shows "is_ledger_key (op_key op)"
proof -
  obtain restored where 1: "(if inputs tx \<noteq> [] then concat_res (restore_input P bc) (inputs tx) else Ok []) = Ok restored"
    "ops = map (\<lambda>i. Delete (utxo_key (txid tx) i)) [0..<length (outputs tx)] @ restored @ [Delete (tx_key (txid tx))]"
    using assms(1) by (auto simp: rollback_tx_def res_simps)
  have "is_ledger_key (op_key op)" if o: "op \<in> set restored"
  proof -
    obtain inp zs where "restore_input P bc inp = Ok zs" "op \<in> set zs"
      using 1(1) o concat_res_mem[of "restore_input P bc" "inputs tx" restored op] by (auto split: if_splits)
    then show ?thesis using restore_input_ops unfolding is_ledger_key_def by blast
  qed
  then show ?thesis using assms(2) 1(2) by (auto simp: is_ledger_key_def)
qed

lemma rollback_block_ops:
  assumes "rollback_block P bc b = Ok ops" "op \<in> set ops"
  shows "is_ledger_key (op_key op) \<or> op = Delete (block_key (block_hash b)) \<or>
    op = Delete (index_key (unat (index (header b))))"
  using assms concat_res_mem[of "rollback_tx P bc" "rev (transactions b)"] rollback_tx_ops
  by (fastforce simp: rollback_block_def res_simps)

lemma rollback_blocks_ops:
  assumes "concat_res (rollback_block P bc) bs = Ok ops" "op \<in> set ops"
  shows "own_op P op" "op_key op = block_key h \<Longrightarrow> h \<in> block_hash ` set bs" "op_key op \<noteq> tip_key"
proof -
  obtain b zs where "b \<in> set bs" "rollback_block P bc b = Ok zs" "op \<in> set zs"
    using concat_res_mem[OF assms] by auto
  note b = this(1) rollback_block_ops[OF this(2,3)]
  show "own_op P op" using b own_op_ledger by auto
  show "op_key op = block_key h \<Longrightarrow> h \<in> block_hash ` set bs" using b by (auto simp: is_ledger_key_def)
  show "op_key op \<noteq> tip_key" using b by (auto simp: is_ledger_key_def)
qed

lemma replay_block_ops:
  "op \<in> set (replay_block P b) \<Longrightarrow> starts_with ''u:'' (op_key op) \<or>
     op = Put (index_key (unat (index (header b)))) (as_bytes P (block_hash b))"
  by (auto simp: replay_block_def replay_tx_def put_utxos_def created_utxos_def split: if_splits)

lemma replay_blocks_other:
  "(\<And>n. k \<noteq> index_key n) \<Longrightarrow> \<not> starts_with ''u:'' k \<Longrightarrow> db_get (bc_db (replay_blocks P bc bs)) k = db_get (bc_db bc) k"
proof (induction bs arbitrary: bc)
  case (Cons b bs)
  have "k \<notin> op_key ` set (replay_block P b)" using Cons.prems replay_block_ops by fastforce
  then show ?case using Cons by (simp add: replay_blocks_def batch_view_untouched)
qed (simp add: replay_blocks_def)

lemma replay_blocks_inv:
  "db_wf (bc_db bc) \<Longrightarrow> own_hash P (db_get (bc_db bc)) \<Longrightarrow>
   db_wf (bc_db (replay_blocks P bc bs)) \<and> own_hash P (db_get (bc_db (replay_blocks P bc bs)))"
proof (induction bs arbitrary: bc)
  case (Cons b bs)
  have "own_hash P (batch_view (replay_block P b) (db_get (bc_db bc)))"
    using Cons.prems(2)
  proof (rule own_hash_batch)
    fix op assume "op \<in> set (replay_block P b)"
    then show "own_op P op" using replay_block_ops own_op_ledger by (fastforce simp: is_ledger_key_def)
  qed
  then show ?case using Cons by (simp add: replay_blocks_def)
qed (simp add: replay_blocks_def)

lemma first_common_mem:
  assumes "first_common P bc as h = Some (Ok (Some a))"
  shows "a \<in> set as"
proof -
  have "\<forall>a. r = Ok (Some a) \<longrightarrow> a \<in> set as" if "first_common P bc as h = Some r" for r
    using first_common.raw_induct[where Pa = "\<lambda>(((P, bc), as), h) r. \<forall>a. r = Ok (Some a) \<longrightarrow> a \<in> set as", OF _ that]
    by (fastforce split: result.splits option.splits if_splits)
  then show ?thesis using assms by blast
qed

lemma first_common_self:
  assumes "first_common P bc as h = Some (Ok (Some a))" "h \<in> set as"
  shows "a = h"
  using assms by (subst (asm) first_common.simps) (auto split: result.splits option.splits)

text \<open>The blocks rolled back lie between the tip and the fork point.\<close>

lemma collect_until_path:
  assumes "collect_ancestors P bc c = Some (Ok as)" "collect_until P bc a c = Some (Ok bs)" "a \<in> set as"
    and "own_hash P (db_get (bc_db bc))"
  shows "block_hash ` set bs \<subseteq> set as - {a}"
  using assms(1-3)
proof (induction as arbitrary: c bs)
  case (Cons x as)
  show ?case
  proof (cases "c = a")
    case True
    then show ?thesis using Cons.prems(2) by (subst (asm) collect_until.simps) simp
  next
    case False
    obtain b where b: "load_block P bc c = Ok (Some b)"
      using Cons.prems(1) by (subst (asm) collect_ancestors.simps) (auto split: result.splits option.splits)
    obtain bs' where bs: "collect_until P bc a (previous_hash (header b)) = Some (Ok bs')" "bs = b # bs'"
      using Cons.prems(2) False b
      by (subst (asm) collect_until.simps) (auto simp: Option.bind_eq_Some_conv res_simps)
    have x: "x = c \<and> (index (header b) = 0 \<and> as = [] \<or>
        collect_ancestors P bc (previous_hash (header b)) = Some (Ok as))"
      using Cons.prems(1) b
      by (subst (asm) collect_ancestors.simps) (auto simp: Option.bind_eq_Some_conv res_simps split: if_splits)
    then have "collect_ancestors P bc (previous_hash (header b)) = Some (Ok as)" "a \<in> set as"
      using Cons.prems(3) False by auto
    from Cons.IH[OF this(1) bs(1) this(2)] show ?thesis
      using bs(2) x False load_own[OF assms(4) b] by auto
  qed
qed simp

lemma reorganize_inv:
  assumes "reorganize_if_needed P bc h = Some (bc', r)" "chain_inv P bc"
  shows "chain_inv P bc'"
proof (cases "r = Ok True")
  case False
  then show ?thesis using reorganize_not_True[OF assms(1) False] recover_tip_inv assms(2) by blast
next
  case True
  from assms(1)[unfolded True] obtain t hdr bc1 r1 where 1: "bc1 = bc \<or> recover_tip P bc = (bc1, r1)"
    "reorg_to P bc1 t hdr h = Some (bc', Ok True)" by (rule reorganize_True)
  have i: "chain_inv P bc1" using 1(1) recover_tip_inv assms(2) by blast
  then have o1: "own_hash P (db_get (bc_db bc1))" "db_wf (bc_db bc1)" by (simp_all add: chain_inv_def)
  from 1(2) obtain nb as a where 2: "load_block P bc1 h = Ok (Some nb)"
    "collect_ancestors P bc1 t = Some (Ok as)" "first_common P bc1 as h = Some (Ok (Some a))"
    "reorg_from P bc1 t hdr h a = Some (bc', Ok True)" by (rule reorg_to_True)
  from 2(4) obtain rb ap where 3: "collect_until P bc1 a t = Some (Ok rb)" "switch_chain P bc1 h rb ap = (bc', Ok True)"
    by (rule reorg_from_True)
  obtain ops where ops: "concat_res (rollback_block P bc1) rb = Ok ops"
    using 3(2) by (auto simp: switch_chain_def rollback_blocks_def Let_def split: result.splits)
  let ?bc2 = "bc1\<lparr>bc_db := put_batch (bc_db bc1) ops\<rparr>"
  have bc': "bc' = (replay_blocks P ?bc2 (rev ap))\<lparr>bc_db := put_batch (bc_db (replay_blocks P ?bc2 (rev ap)))
      [Put tip_key (as_bytes P h)], chain_tip := Some h,
      bc_difficulty := bc_difficulty bc'\<rparr>"
    using 3(2) ops by (auto simp: switch_chain_def rollback_blocks_def Let_def)
  have "h \<notin> block_hash ` set rb"
    using collect_until_path[OF 2(2) 3(1) first_common_mem[OF 2(3)] o1(1)] first_common_self[OF 2(3)] by auto
  then have "block_key h \<notin> op_key ` set ops" using rollback_blocks_ops(2)[OF ops] by auto
  moreover have "db_get (bc_db bc1) (block_key h) \<noteq> None" using 2(1) by (auto simp: load_block_def split: option.splits)
  ultimately have "db_get (bc_db ?bc2) (block_key h) \<noteq> None" by (simp add: batch_view_untouched)
  then have st: "db_get (bc_db (replay_blocks P ?bc2 (rev ap))) (block_key h) \<noteq> None"
    by (simp add: replay_blocks_other)
  have "own_hash P (db_get (bc_db ?bc2))" "db_wf (bc_db ?bc2)"
    using own_hash_batch[OF o1(1) rollback_blocks_ops(1)[OF ops]] o1(2) by simp_all
  from replay_blocks_inv[OF this(2,1), of "rev ap"] st show ?thesis
    by (subst bc') (simp add: chain_inv_def tip_synced_def)
qed

section \<open>Genesis, reset and restart\<close>

lemma put_batch_deletes: "put_batch d (map Delete ks) = filter (\<lambda>p. fst p \<notin> set ks) d"
  by (induction ks arbitrary: d) (simp_all add: put_batch_def db_delete_def conj_commute)

definition is_chain_key :: "string \<Rightarrow> bool" where
  "is_chain_key k \<longleftrightarrow> starts_with ''b:'' k \<or> starts_with ''t:'' k \<or> starts_with ''u:'' k \<or> starts_with ''i:'' k \<or> k = tip_key"

lemma reset_db: "bc_db (reset_chain bc) = filter (\<lambda>p. \<not> is_chain_key (fst p)) (bc_db bc)"
proof -
  let ?ks = "map fst (filter (\<lambda>(key, _). starts_with ''b:'' key \<or> starts_with ''t:'' key \<or>
            starts_with ''u:'' key \<or> starts_with ''i:'' key) (db_iterator (bc_db bc)))"
  have "bc_db (reset_chain bc) = filter (\<lambda>p. fst p \<notin> set (tip_key # ?ks)) (bc_db bc)"
    unfolding put_batch_deletes[symmetric] by (simp add: reset_chain_def Let_def del: map_map)
  also have "\<dots> = filter (\<lambda>p. \<not> is_chain_key (fst p)) (bc_db bc)"
    by (rule filter_cong) (force simp: is_chain_key_def db_iterator_def)+
  finally show ?thesis .
qed

lemma reset_get: "db_get (bc_db (reset_chain bc)) k = (if is_chain_key k then None else db_get (bc_db bc) k)"
proof -
  have "map_of (filter (\<lambda>p. \<not> is_chain_key (fst p)) d) k = (if is_chain_key k then None else map_of d k)"
    for d :: "'a db" by (induction d) auto
  then show ?thesis by (simp add: reset_db db_get_def)
qed

lemma reset_inv: "chain_inv P bc \<Longrightarrow> chain_inv P (reset_chain bc)"
proof -
  assume i: "chain_inv P bc"
  have "db_wf (bc_db (reset_chain bc))"
    using i by (simp add: reset_chain_def Let_def chain_inv_def)
  then show ?thesis using i
    by (auto simp: chain_inv_def own_hash_def tip_synced_def reset_get is_chain_key_def)
      (simp add: reset_chain_def Let_def)+
qed

lemma genesis_inv:
  assumes "codec_ok P" "create_genesis P now bc address = (bc', r)" "chain_inv P bc"
  shows "chain_inv P bc'"
proof (cases "chain_tip bc = None")
  case True
  have u: "own_op P op" "op_key op \<noteq> tip_key" "op_key op \<noteq> block_key h"
    if "op \<in> set (put_utxos P (created_utxos f tx))" for op f tx h
    using that by (auto simp: put_utxos_def created_utxos_def)
  have v: "batch_view (put_utxos P (created_utxos f tx)) m (block_key h) = m (block_key h)" for f tx m h
    using u(3) by (intro batch_view_untouched) (metis imageE)
  have own: "own_hash P (batch_view ops (db_get (bc_db bc)))" if "\<And>op. op \<in> set ops \<Longrightarrow> own_op P op" for ops
    using assms(3) that by (intro own_hash_batch) (simp_all add: chain_inv_def)
  obtain b cb where b: "bc' = bc\<lparr>bc_db := put_batch (bc_db bc)
      ([Put (block_key (block_hash b)) (enc_block P b), Put (tx_key (txid cb)) (enc_tx P cb)]
        @ put_utxos P (created_utxos id cb)
        @ [Put (index_key 0) (as_bytes P (block_hash b)), Put tip_key (as_bytes P (block_hash b))]),
      chain_tip := Some (block_hash b)\<rparr>" (is "bc' = bc\<lparr>bc_db := put_batch (bc_db bc) ?ops, chain_tip := _\<rparr>")
    and hb: "compute_header_hash P (header b) = block_hash b"
    using assms(2) True unfolding create_genesis_def Let_def by (metis block.select_convs(1,3) prod.inject)
  have "own_hash P (batch_view ?ops (db_get (bc_db bc)))"
    using assms(1) u(1) hb by (intro own) auto
  then show ?thesis using b assms(3) by (simp add: chain_inv_def tip_synced_def v)
qed (use assms in \<open>auto simp: create_genesis_def\<close>)

lemma restart_inv:
  assumes "codec_ok P" "blockchain_new P (bc_db bc) = Ok bc'" "chain_inv P bc"
  shows "chain_inv P bc' \<and> chain_tip bc' = chain_tip bc \<and> bc_db bc' = bc_db bc"
proof -
  have "bc_db bc' = bc_db bc" using assms(2) by (auto simp: blockchain_new_def res_simps)
  moreover have "chain_tip bc' = chain_tip bc"
    using assms by (cases "chain_tip bc") (auto simp: blockchain_new_def res_simps chain_inv_def tip_synced_def)
  ultimately show ?thesis using assms(3) by (simp add: chain_inv_def tip_synced_def)
qed

section \<open>Reachable states\<close>

lemma step_inv: "chain_step P bc bc' \<Longrightarrow> codec_ok P \<Longrightarrow> chain_inv P bc \<Longrightarrow> chain_inv P bc'"
  by (erule chain_stepE)
    (auto intro: genesis_inv insert_inv fork_inv reorganize_inv recover_tip_inv reset_inv dest: restart_inv)

lemma reachable_inv: "chain_reachable P bc \<Longrightarrow> codec_ok P \<Longrightarrow> chain_inv P bc"
proof (induction rule: chain_reachable.induct)
  case (start bc)
  then show ?case by (auto simp: blockchain_new_def chain_inv_def own_hash_def tip_synced_def db_get_def)
next
  case (step bc bc')
  then show ?case using step_inv by blast
qed

text \<open>
  C4. After any sequence of operations, with any outcome, from an empty database: the block that
  the tip names is stored, every stored block lies under the hash of its own header, and reopening
  the database succeeds and finds the same tip.
\<close>

theorem reachable_tip_consistent:
  assumes "codec_ok P" "chain_reachable P bc"
  shows "(\<forall>h. chain_tip bc = Some h \<longrightarrow> (\<exists>b. load_block P bc h = Ok (Some b))) \<and>
    (\<forall>h b. load_block P bc h = Ok (Some b) \<longrightarrow> block_hash b = h \<and> compute_header_hash P (header b) = h) \<and>
    (\<exists>bc'. blockchain_new P (bc_db bc) = Ok bc' \<and> chain_tip bc' = chain_tip bc)"
proof (intro conjI)
  have i: "chain_inv P bc" using reachable_inv assms by blast
  show "\<forall>h. chain_tip bc = Some h \<longrightarrow> (\<exists>b. load_block P bc h = Ok (Some b))"
    using i by (fastforce simp: chain_inv_def tip_synced_def own_hash_def load_block_def)
  show "\<forall>h b. load_block P bc h = Ok (Some b) \<longrightarrow> block_hash b = h \<and> compute_header_hash P (header b) = h"
    using load_own i by (auto simp: chain_inv_def)
  have "\<exists>bc'. blockchain_new P (bc_db bc) = Ok bc'"
    using i assms(1) by (cases "chain_tip bc") (auto simp: blockchain_new_def chain_inv_def tip_synced_def)
  then show "\<exists>bc'. blockchain_new P (bc_db bc) = Ok bc' \<and> chain_tip bc' = chain_tip bc"
    using restart_inv[OF assms(1) _ i] by blast
qed

theorem reachable_tip_consistent_witness:
  "\<exists>bc h b. chain_reachable ref_prims bc \<and> chain_tip bc = Some h \<and> load_block ref_prims bc h = Ok (Some b)"
proof -
  obtain bc0 where 0: "blockchain_new ref_prims [] = Ok bc0" "chain_tip bc0 = None"
    by (simp add: blockchain_new_def db_get_def)
  obtain bc1 r where 1: "create_genesis ref_prims 0 bc0 ''0xab'' = (bc1, r)"
    by (cases "create_genesis ref_prims 0 bc0 ''0xab''")
  have r: "chain_reachable ref_prims bc1"
    using chain_reachable.start[OF 0(1)] chain_step.genesis[OF 1] chain_reachable.step by blast
  obtain h where "chain_tip bc1 = Some h" using 1 0(2) by (auto simp: create_genesis_def Let_def)
  with reachable_tip_consistent[OF _ r] r show ?thesis by auto
qed

text \<open>
  \<open>reset_chain\<close> leaves no block, transaction, unspent output, height or tip record, and a chain
  reopened from it is empty.
\<close>

theorem reset_chain_empties:
  "db_get (bc_db (reset_chain bc)) (block_key h) = None \<and> db_get (bc_db (reset_chain bc)) (tx_key t) = None \<and>
   db_get (bc_db (reset_chain bc)) (utxo_key t i) = None \<and> db_get (bc_db (reset_chain bc)) (index_key n) = None \<and>
   db_get (bc_db (reset_chain bc)) tip_key = None \<and> chain_tip (reset_chain bc) = None \<and>
   count_blocks (reset_chain bc) = 0"
proof -
  have "count_blocks (reset_chain bc) = 0"
    by (auto simp: count_blocks_def db_iterator_def reset_db is_chain_key_def filter_empty_conv)
  moreover have "starts_with ''i:'' (index_key n)" by (simp add: starts_with_def index_key_def)
  moreover have "chain_tip (reset_chain bc) = None" by (simp add: reset_chain_def Let_def)
  ultimately show ?thesis by (simp add: reset_get is_chain_key_def)
qed

end
