(* ===== verification/Node.thy ===== *)
theory Node
  imports Mempool Reachability
begin

text \<open>
  The node around the chain: the in-memory state of \<open>node/src/lib.rs\<close>, the sequential block
  processor, the orphan pool and the answers to peers of \<open>node/src/p2p/service.rs\<close>, and the
  submission of mined blocks of \<open>node/src/server/mod.rs\<close>. A handler runs as a whole; the clock \<open>now\<close>
  stands still during it. \<^const>\<open>None\<close> is a handler that does not return, because a walk along
  parent links of \<open>reorganize_if_needed\<close> does not end. The order in which the orphan pool is
  iterated is \<open>ord\<close>. Log output and the channels to the peers are left out; what is requested from
  peers is collected in \<open>requested\<close>.
\<close>

section \<open>State\<close>

record chain_state =
  blockchain_mem :: "block list"
  orphan_blocks :: "(block \<times> int) hash_map"
  recently_mined_blocks :: "int hash_map"

record 'v node =
  nd_bc :: "'v blockchain"
  nd_chain :: chain_state
  nd_mempool :: mempool_state
  my_height :: u64
  mining_active :: bool
  cancel_flag :: bool
  requested :: "string list"

definition chain_state_default :: chain_state where
  "chain_state_default = \<lparr>blockchain_mem = [], orphan_blocks = [], recently_mined_blocks = []\<rparr>"

definition MAX_ORPHAN_BLOCKS :: nat where
  "MAX_ORPHAN_BLOCKS = 100"

definition MAX_MEMORY_BLOCKS :: nat where
  "MAX_MEMORY_BLOCKS = 500"

definition ORPHAN_TIMEOUT :: int where
  "ORPHAN_TIMEOUT = 1800"

definition enforce_memory_limit :: "chain_state \<Rightarrow> chain_state" where
  "enforce_memory_limit c =
     (if length (blockchain_mem c) > MAX_MEMORY_BLOCKS
      then let excess = length (blockchain_mem c) - MAX_MEMORY_BLOCKS
           in c\<lparr>blockchain_mem := drop excess (blockchain_mem c)\<rparr>
      else c)"

definition push_block :: "block \<Rightarrow> chain_state \<Rightarrow> chain_state" where
  "push_block b c = enforce_memory_limit (c\<lparr>blockchain_mem := blockchain_mem c @ [b]\<rparr>)"

section \<open>Start\<close>

text \<open>
  \<open>main\<close> opens the database, recovers the tip from the stored blocks whatever it was, and starts
  with empty pools and the height of the tip.
\<close>

definition tip_height :: "'v prims \<Rightarrow> 'v blockchain \<Rightarrow> u64" where
  "tip_height P bc =
     (case chain_tip bc of
        None \<Rightarrow> 0
      | Some tip_hash \<Rightarrow> (case load_header P bc tip_hash of Ok (Some hdr) \<Rightarrow> index hdr | _ \<Rightarrow> 0))"

definition node_start :: "'v prims \<Rightarrow> 'v db \<Rightarrow> (chain_error, 'v node) result" where
  "node_start P d =
     bind_res (blockchain_new P d) (\<lambda>bc.
     let bc' = (if count_blocks bc = 0 then bc else fst (recover_tip P bc))
     in Ok \<lparr>nd_bc = bc', nd_chain = chain_state_default, nd_mempool = mempool_default,
          my_height = tip_height P bc', mining_active = False, cancel_flag = False, requested = []\<rparr>)"

section \<open>Orphan blocks\<close>

text \<open>
  One orphan of \<open>process_orphan_blocks\<close>: retried when its parent is stored; the flag is
  \<open>processed_any\<close>.
\<close>

definition try_orphan :: "'v prims \<Rightarrow> int \<Rightarrow> string \<times> block \<Rightarrow> 'v node \<times> bool \<Rightarrow> ('v node \<times> bool) option" where
  "try_orphan P now = (\<lambda>(hash, b) (nd, processed_any).
     (case load_block P (nd_bc nd) (previous_hash (header b)) of
        Ok (Some _) \<Rightarrow>
          (case validate_and_insert_block P now (nd_bc nd) b of
             (bc, Ok _) \<Rightarrow>
               let chain = push_block b (nd_chain nd);
                   chain = chain\<lparr>orphan_blocks := hm_remove hash (orphan_blocks chain)\<rparr>
               in map_option (\<lambda>(bc', _). (nd\<lparr>nd_bc := bc', nd_chain := chain, my_height := index (header b),
                      nd_mempool := remove_confirmed b (nd_mempool nd)\<rparr>, True))
                    (reorganize_if_needed P bc hash)
           | (bc, Err e) \<Rightarrow> Some (nd\<lparr>nd_bc := bc\<rparr>, processed_any))
      | _ \<Rightarrow> Some (nd, processed_any)))"

fun try_orphans :: "'v prims \<Rightarrow> int \<Rightarrow> (string \<times> block) list \<Rightarrow> 'v node \<times> bool \<Rightarrow> ('v node \<times> bool) option" where
  "try_orphans P now [] st = Some st"
| "try_orphans P now (o1 # os) st = Option.bind (try_orphan P now o1 st) (try_orphans P now os)"

definition orphan_pass :: "'v prims \<Rightarrow> ((string \<times> block \<times> int) list \<Rightarrow> (string \<times> block \<times> int) list) \<Rightarrow> int
    \<Rightarrow> 'v node \<Rightarrow> ('v node \<times> bool) option" where
  "orphan_pass P ord now nd =
     (let orphans_to_try = map (\<lambda>(hash, b, _). (hash, b)) (ord (hm_entries (orphan_blocks (nd_chain nd))))
      in try_orphans P now orphans_to_try (nd, False))"

text \<open>The loop, with the number of iterations that are left of \<open>max_iterations\<close>.\<close>

fun orphan_loop :: "'v prims \<Rightarrow> ((string \<times> block \<times> int) list \<Rightarrow> (string \<times> block \<times> int) list) \<Rightarrow> int
    \<Rightarrow> nat \<Rightarrow> 'v node \<Rightarrow> 'v node option" where
  "orphan_loop P ord now 0 nd = Some nd"
| "orphan_loop P ord now (Suc n) nd =
     (case orphan_pass P ord now nd of
        None \<Rightarrow> None
      | Some (nd', processed_any) \<Rightarrow> if processed_any then orphan_loop P ord now n nd' else Some nd')"

definition process_orphan_blocks :: "'v prims \<Rightarrow> ((string \<times> block \<times> int) list \<Rightarrow> (string \<times> block \<times> int) list) \<Rightarrow> int
    \<Rightarrow> 'v node \<Rightarrow> 'v node option" where
  "process_orphan_blocks P ord now nd =
     map_option (\<lambda>nd'. nd'\<lparr>nd_chain := (nd_chain nd')\<lparr>orphan_blocks :=
         filter (\<lambda>(_, _, timestamp). \<not> i64 (now - timestamp) > 3600) (orphan_blocks (nd_chain nd'))\<rparr>\<rparr>)
       (orphan_loop P ord now 100 nd)"

text \<open>Making room in the orphan pool: a stable sort by descending height, the first quarter goes.\<close>

definition evict_orphans :: "((string \<times> block \<times> int) list \<Rightarrow> (string \<times> block \<times> int) list)
    \<Rightarrow> (block \<times> int) hash_map \<Rightarrow> (block \<times> int) hash_map" where
  "evict_orphans ord orphans =
     (if length orphans \<ge> MAX_ORPHAN_BLOCKS
      then
        let orphan_vec = map (\<lambda>(h, b, ts). (h, index (header b), ts)) (ord (hm_entries orphans));
            orphan_vec = rev (sort_key (\<lambda>(_, i, _). i) (rev orphan_vec));
            remove_count = max (MAX_ORPHAN_BLOCKS div 4) 1
        in fold (\<lambda>(hash, _, _). hm_remove hash) (take remove_count orphan_vec) orphans
      else orphans)"

definition store_orphan :: "((string \<times> block \<times> int) list \<Rightarrow> (string \<times> block \<times> int) list) \<Rightarrow> int \<Rightarrow> u64
    \<Rightarrow> block \<Rightarrow> chain_state \<Rightarrow> chain_state" where
  "store_orphan ord now current_height b c =
     (let near = filter (\<lambda>(_, ob, _). index (header ob) \<le> current_height + 1000) (orphan_blocks c);
          room = evict_orphans ord near;
          fresh = filter (\<lambda>(_, _, timestamp). i64 (now - timestamp) < ORPHAN_TIMEOUT) room
      in c\<lparr>orphan_blocks := hm_insert (block_hash b) (b, now) fresh\<rparr>)"

section \<open>The block processor\<close>

text \<open>
  Whether mining is cancelled. \<open>busy\<close> says that \<open>try_lock\<close> on the chain fails.
\<close>

definition should_cancel :: "'v prims \<Rightarrow> bool \<Rightarrow> 'v blockchain \<Rightarrow> block \<Rightarrow> bool" where
  "should_cancel P busy bc b =
     (let current_tip_height = (if busy then None else
            (case chain_tip bc of
               None \<Rightarrow> None
             | Some tip_hash \<Rightarrow>
                 (case load_header P bc tip_hash of Ok (Some h) \<Rightarrow> Some (index h) | _ \<Rightarrow> None)))
      in case current_tip_height of Some tip_h \<Rightarrow> index (header b) \<ge> tip_h | None \<Rightarrow> True)"

definition next_height :: "'v prims \<Rightarrow> 'v blockchain \<Rightarrow> u64" where
  "next_height P bc =
     (case chain_tip bc of
        None \<Rightarrow> 0
      | Some tip_hash \<Rightarrow> (case load_header P bc tip_hash of Ok (Some h) \<Rightarrow> index h + 1 | _ \<Rightarrow> 0))"

text \<open>The branch of an inserted block; the chain \<open>bc\<close> already holds it.\<close>

definition on_inserted :: "'v prims \<Rightarrow> ((string \<times> block \<times> int) list \<Rightarrow> (string \<times> block \<times> int) list) \<Rightarrow> int
    \<Rightarrow> 'v blockchain \<Rightarrow> block \<Rightarrow> 'v node \<Rightarrow> 'v node option" where
  "on_inserted P ord now bc b nd =
     Option.bind (reorganize_if_needed P bc (block_hash b)) (\<lambda>(bc', _).
     process_orphan_blocks P ord now
       (nd\<lparr>nd_bc := bc', nd_chain := push_block b (nd_chain nd), my_height := index (header b),
          nd_mempool := remove_confirmed b (nd_mempool nd)\<rparr>))"

text \<open>The branch of a fork block: its parent is stored, but is not the tip.\<close>

definition on_fork :: "'v prims \<Rightarrow> int \<Rightarrow> block \<Rightarrow> 'v node \<Rightarrow> 'v node option" where
  "on_fork P now b nd =
     (case validate_fork_block P now (nd_bc nd) b of
        (bc, Ok _) \<Rightarrow>
          map_option (\<lambda>(bc', r).
            case r of
              Ok True \<Rightarrow> nd\<lparr>nd_bc := bc', nd_chain := push_block b (nd_chain nd), my_height := index (header b)\<rparr>
            | Ok False \<Rightarrow> nd\<lparr>nd_bc := bc'\<rparr>
            | Err e \<Rightarrow> nd\<lparr>nd_bc := bc'\<rparr>)
            (reorganize_if_needed P bc (block_hash b))
      | (bc, Err e) \<Rightarrow> Some (nd\<lparr>nd_bc := bc\<rparr>))"

text \<open>The branch of a block whose parent is missing.\<close>

definition on_orphan :: "'v prims \<Rightarrow> ((string \<times> block \<times> int) list \<Rightarrow> (string \<times> block \<times> int) list) \<Rightarrow> int
    \<Rightarrow> block \<Rightarrow> 'v node \<Rightarrow> 'v node option" where
  "on_orphan P ord now b nd =
     (let current_height = next_height P (nd_bc nd) in
      if index (header b) > current_height + 1000 then Some nd
      else
        map_option (\<lambda>nd'. nd'\<lparr>requested := requested nd' @ [previous_hash (header b)]\<rparr>)
          (process_orphan_blocks P ord now
            (nd\<lparr>nd_chain := store_orphan ord now current_height b (nd_chain nd)\<rparr>)))"

text \<open>
  The processor tells the branches apart by searching the text of the error. The text quotes parts of
  the block, such as the hash of its parent or the identifier of a transaction: \<open>carried\<close> is all that
  follows the fixed beginning of the two messages searched for, and the whole of any other message.
\<close>

fun contains :: "string \<Rightarrow> string \<Rightarrow> bool" where
  "contains needle [] = (needle = [])"
| "contains needle (c # cs) = (starts_with needle (c # cs) \<or> contains needle cs)"

definition error_msg :: "chain_error \<Rightarrow> string \<Rightarrow> string" where
  "error_msg e carried =
     (case e of
        PrevMissing \<Rightarrow> ''previous header not found: ''
      | ForkDetected \<Rightarrow> ''fork detected: prev ''
      | _ \<Rightarrow> '''') @ carried"

definition process_block :: "'v prims \<Rightarrow> ((string \<times> block \<times> int) list \<Rightarrow> (string \<times> block \<times> int) list) \<Rightarrow> int
    \<Rightarrow> bool \<Rightarrow> string \<Rightarrow> block \<Rightarrow> 'v node \<Rightarrow> 'v node option" where
  "process_block P ord now busy carried b nd =
     (if hm_get (recently_mined_blocks (nd_chain nd)) (block_hash b) \<noteq> None then Some nd
      else
        let nd1 = (if mining_active nd \<and> should_cancel P busy (nd_bc nd) b then nd\<lparr>cancel_flag := True\<rparr> else nd)
        in if db_get (bc_db (nd_bc nd1)) (block_key (block_hash b)) \<noteq> None then Some nd1
           else (case validate_and_insert_block P now (nd_bc nd1) b of
                   (bc, Ok _) \<Rightarrow> on_inserted P ord now bc b nd1
                 | (bc, Err e) \<Rightarrow>
                     let error_msg = error_msg e carried in
                     if contains ''previous header not found'' error_msg \<or> contains ''fork detected'' error_msg
                     then if contains ''fork detected'' error_msg then on_fork P now b (nd1\<lparr>nd_bc := bc\<rparr>)
                          else on_orphan P ord now b (nd1\<lparr>nd_bc := bc\<rparr>)
                     else Some (nd1\<lparr>nd_bc := bc\<rparr>)))"

section \<open>Mined blocks\<close>

definition submit_block :: "'v prims \<Rightarrow> int \<Rightarrow> block \<Rightarrow> 'v node \<Rightarrow> 'v node \<times> (chain_error, string \<times> u64) result" where
  "submit_block P now b nd =
     (case validate_and_insert_block P now (nd_bc nd) b of
        (bc, Ok _) \<Rightarrow>
          let chain = push_block b (nd_chain nd);
              mined = hm_insert (block_hash b) now (recently_mined_blocks chain)
          in (nd\<lparr>nd_bc := bc,
                nd_chain := chain\<lparr>recently_mined_blocks := filter (\<lambda>(_, timestamp). i64 (now - timestamp) < 300) mined\<rparr>,
                nd_mempool := remove_confirmed b (nd_mempool nd), my_height := index (header b)\<rparr>,
              Ok (block_hash b, index (header b)))
      | (bc, Err e) \<Rightarrow> (nd\<lparr>nd_bc := bc\<rparr>, Err e))"

section \<open>Answers to peers\<close>

text \<open>\<open>set_check_block_exists\<close>; a contended lock counts as absent.\<close>

definition check_block_exists :: "bool \<Rightarrow> 'v blockchain \<Rightarrow> string \<Rightarrow> bool" where
  "check_block_exists busy bc hash_hex = (if busy then False else db_get (bc_db bc) (block_key hash_hex) \<noteq> None)"

text \<open>\<open>set_on_get_chain_locator\<close>: the loop may run forever over blocks whose names are not hexadecimal.\<close>

partial_function (option) locator_loop :: "'v prims \<Rightarrow> 'v blockchain \<Rightarrow> bytes list \<Rightarrow> string \<Rightarrow> bytes list option" where
  "locator_loop P bc locator hash =
     (let locator' = (case hex_decode P hash of Some bs \<Rightarrow> locator @ [bs] | None \<Rightarrow> locator) in
      if length locator' \<ge> 10 then Some locator'
      else (case load_header P bc hash of
              Ok (Some hdr) \<Rightarrow> if index hdr > 0 then locator_loop P bc locator' (previous_hash hdr) else Some locator'
            | _ \<Rightarrow> Some locator'))"

definition chain_locator :: "'v prims \<Rightarrow> 'v blockchain \<Rightarrow> bytes list option" where
  "chain_locator P bc = (case chain_tip bc of None \<Rightarrow> Some [] | Some hash \<Rightarrow> locator_loop P bc [] hash)"

text \<open>\<open>set_on_headers\<close>: whether the peer is kept.\<close>

definition on_headers :: "'v prims \<Rightarrow> 'v blockchain \<Rightarrow> block_header list \<Rightarrow> bool" where
  "on_headers P bc headers =
     (case headers of
        [] \<Rightarrow> False
      | first_header # _ \<Rightarrow>
          if index first_header = 0
          then (case db_get (bc_db bc) (index_key 0) of
                  Some our_genesis_hash \<Rightarrow>
                    from_utf8 P our_genesis_hash = Some (compute_header_hash P first_header)
                | None \<Rightarrow> True)
          else True)"

fun start_index :: "'v prims \<Rightarrow> 'v blockchain \<Rightarrow> bytes list \<Rightarrow> u64" where
  "start_index P bc [] = 0"
| "start_index P bc (loc_bytes # rest) =
     (case load_header P bc (hex_encode P loc_bytes) of
        Ok (Some hdr) \<Rightarrow> index hdr + 1
      | _ \<Rightarrow> start_index P bc rest)"

text \<open>The header that the height record \<open>i:n\<close> names, if there is one.\<close>

definition header_at :: "'v prims \<Rightarrow> 'v blockchain \<Rightarrow> 'v \<Rightarrow> block_header option" where
  "header_at P bc hash_bytes =
     Option.bind (from_utf8 P hash_bytes) (\<lambda>hash.
     case load_header P bc hash of Ok (Some hdr) \<Rightarrow> Some hdr | _ \<Rightarrow> None)"

partial_function (option) headers_loop :: "'v prims \<Rightarrow> 'v blockchain \<Rightarrow> block_header list \<Rightarrow> u64 \<Rightarrow> block_header list option" where
  "headers_loop P bc headers i =
     (if length headers < 200
      then (case db_get (bc_db bc) (index_key (unat i)) of
              Some hash_bytes \<Rightarrow>
                headers_loop P bc
                  (headers @ (case header_at P bc hash_bytes of Some hdr \<Rightarrow> [hdr] | None \<Rightarrow> [])) (i + 1)
            | None \<Rightarrow> Some headers)
      else Some headers)"

definition on_getheaders :: "'v prims \<Rightarrow> 'v blockchain \<Rightarrow> bytes list \<Rightarrow> block_header list option" where
  "on_getheaders P bc locator_hashes = headers_loop P bc [] (start_index P bc locator_hashes)"

text \<open>\<open>set_on_getdata\<close> for blocks: what is sent, in order.\<close>

definition on_getdata :: "'v prims \<Rightarrow> 'v blockchain \<Rightarrow> bytes list \<Rightarrow> block list" where
  "on_getdata P bc hashes =
     List.map_filter (\<lambda>hash_bytes. case load_block P bc (hex_encode P hash_bytes) of
        Ok (Some b) \<Rightarrow> Some b | _ \<Rightarrow> None) hashes"

section \<open>The chain inside the node\<close>

text \<open>
  Every handler calls only operations of the chain, so the chain inside a node is always a state of
  the chain's own state machine.
\<close>

lemma chain_moves:
  assumes "chain_reachable P bc"
  shows "validate_and_insert_block P now bc b = (bc', r) \<Longrightarrow> chain_reachable P bc'"
    "validate_fork_block P now bc b = (bc', r') \<Longrightarrow> chain_reachable P bc'"
    "reorganize_if_needed P bc h = Some (bc', r'') \<Longrightarrow> chain_reachable P bc'"
    "recover_tip P bc = (bc', r') \<Longrightarrow> chain_reachable P bc'"
    "blockchain_new P (bc_db bc) = Ok bc' \<Longrightarrow> chain_reachable P bc'"
  using assms by (auto intro: chain_reachable.step chain_step.intros)

text \<open>What a step does to the parts of a node that every handler keeps in order.\<close>

definition orphans_ok :: "chain_state \<Rightarrow> bool" where
  "orphans_ok c \<longleftrightarrow> length (blockchain_mem c) \<le> MAX_MEMORY_BLOCKS \<and> hm_wf (orphan_blocks c) \<and>
     length (orphan_blocks c) \<le> MAX_ORPHAN_BLOCKS"

definition node_inv :: "'v prims \<Rightarrow> bool \<Rightarrow> 'v node \<Rightarrow> bool" where
  "node_inv P relay nd \<longleftrightarrow> chain_reachable P (nd_bc nd) \<and> orphans_ok (nd_chain nd) \<and>
     mempool_reachable P relay (nd_mempool nd)"

lemmas node_limits = MAX_ORPHAN_BLOCKS_def MAX_MEMORY_BLOCKS_def ORPHAN_TIMEOUT_def

lemma push_block_simps [simp]:
  "orphan_blocks (push_block b c) = orphan_blocks c"
  "length (blockchain_mem (push_block b c)) = min (Suc (length (blockchain_mem c))) MAX_MEMORY_BLOCKS"
  by (auto simp: push_block_def enforce_memory_limit_def Let_def)

lemma confirmed_reachable: "mempool_reachable P relay m \<Longrightarrow> mempool_reachable P relay (remove_confirmed b m)"
  by (rule mempool_reachable.pool_moves[OF _ mempool_step.confirmed])

lemma hm_filter_ok: "hm_wf m \<Longrightarrow> hm_wf (filter f m)"
  by (simp add: hm_wf_def distinct_map_filter)

lemma hm_removes_filter: "fold hm_remove ks m = filter (\<lambda>p. fst p \<notin> set ks) m"
  by (induction ks arbitrary: m) (simp_all add: hm_remove_def conj_commute)

lemma hm_remove_le: "length (hm_remove k m) \<le> length m"
  by (simp add: hm_remove_def)

lemma hm_insert_le: "length (hm_insert k v m) \<le> Suc (length m)"
  by (induction k v m rule: hm_insert.induct) auto

lemma evict_orphans_room:
  assumes "arranges ord" "length m \<le> MAX_ORPHAN_BLOCKS"
  shows "length (evict_orphans ord m) < MAX_ORPHAN_BLOCKS" "hm_wf m \<Longrightarrow> hm_wf (evict_orphans ord m)"
proof -
  let ?vec = "rev (sort_key (\<lambda>(_, i, _). i) (rev (map (\<lambda>(h, b, ts). (h, index (header b), ts)) (ord (hm_entries m)))))"
  let ?ks = "map fst (take 25 ?vec)"
  have e: "fold (\<lambda>(hash, _, _). hm_remove hash) (take 25 ?vec) m = filter (\<lambda>p. fst p \<notin> set ?ks) m"
    unfolding hm_removes_filter[symmetric] fold_map by (rule fold_cong) auto
  have "length (filter (\<lambda>p. fst p \<notin> set ?ks) m) < 100" if full: "100 \<le> length m"
  proof -
    obtain p ps where p: "?vec = p # ps"
      using full assms(1) by (cases ?vec) (auto simp: hm_entries_def dest: arg_cong[where f = mset])
    then have "p \<in> set ?vec" by (metis list.set_intros(1))
    then obtain q where q: "q \<in> set m" "fst q = fst p" using assms(1) by (auto simp: hm_entries_def)
    have "fst p \<in> set ?ks" unfolding p by (simp add: numeral_eq_Suc)
    then have "length (filter (\<lambda>p. fst p \<notin> set ?ks) m) < length m"
      using q by (intro length_filter_less[of q]) auto
    then show ?thesis using assms(2) by (simp add: node_limits)
  qed
  then show "length (evict_orphans ord m) < MAX_ORPHAN_BLOCKS"
    unfolding evict_orphans_def Let_def node_limits using e by (simp add: not_le)
  show "hm_wf m \<Longrightarrow> hm_wf (evict_orphans ord m)"
    unfolding evict_orphans_def Let_def node_limits using e by (simp add: hm_filter_ok)
qed

lemma store_orphan_ok:
  assumes "arranges ord" "orphans_ok c"
  shows "orphans_ok (store_orphan ord now h b c)"
proof -
  let ?near = "filter (\<lambda>(_, ob, _). index (header ob) \<le> h + 1000) (orphan_blocks c)"
  let ?fresh = "filter (\<lambda>(_, _, timestamp). i64 (now - timestamp) < ORPHAN_TIMEOUT) (evict_orphans ord ?near)"
  have n: "length ?near \<le> MAX_ORPHAN_BLOCKS" "hm_wf ?near"
    using assms(2) by (auto simp: orphans_ok_def hm_filter_ok intro: le_trans[OF length_filter_le])
  have "length ?fresh < MAX_ORPHAN_BLOCKS"
    using evict_orphans_room(1)[OF assms(1) n(1)] le_less_trans[OF length_filter_le] by blast
  then show ?thesis
    using assms(2) evict_orphans_room(2)[OF assms(1) n] hm_insert_le[of "block_hash b" "(b, now)" ?fresh]
    by (simp add: store_orphan_def Let_def orphans_ok_def hm_filter_ok)
qed

section \<open>Every handler keeps the node in order\<close>

lemma try_orphan_inv:
  assumes "try_orphan P now x (nd, p) = Some (nd', p')" "node_inv P relay nd"
  shows "node_inv P relay nd'"
proof -
  obtain hash b where x: "x = (hash, b)" by (cases x)
  obtain bc r where v: "validate_and_insert_block P now (nd_bc nd) b = (bc, r)"
    by (cases "validate_and_insert_block P now (nd_bc nd) b")
  have c: "chain_reachable P (nd_bc nd)" using assms(2) by (simp add: node_inv_def)
  note v' = chain_moves(1)[OF c v]
  show ?thesis
    using assms x v v' chain_moves(3)[OF v']
    by (auto simp: try_orphan_def Let_def node_inv_def orphans_ok_def confirmed_reachable
        split: result.splits option.splits intro: le_trans[OF hm_remove_le])
qed

lemma try_orphans_inv:
  "try_orphans P now xs (nd, p) = Some (nd', p') \<Longrightarrow> node_inv P relay nd \<Longrightarrow> node_inv P relay nd'"
proof (induction xs arbitrary: nd p)
  case (Cons x xs)
  from Cons.prems(1) obtain nd1 p1 where "try_orphan P now x (nd, p) = Some (nd1, p1)"
    "try_orphans P now xs (nd1, p1) = Some (nd', p')" by (auto simp: bind_eq_Some_conv)
  then show ?case using Cons.IH try_orphan_inv Cons.prems(2) by blast
qed simp

lemma orphan_loop_inv:
  "orphan_loop P ord now n nd = Some nd' \<Longrightarrow> node_inv P relay nd \<Longrightarrow> node_inv P relay nd'"
  by (induction n arbitrary: nd)
    (auto simp: orphan_pass_def Let_def split: option.splits if_splits dest: try_orphans_inv)

lemma process_orphans_inv:
  "process_orphan_blocks P ord now nd = Some nd' \<Longrightarrow> node_inv P relay nd \<Longrightarrow> node_inv P relay nd'"
  using orphan_loop_inv[of P ord now 100 nd _ relay]
  by (fastforce simp: process_orphan_blocks_def node_inv_def orphans_ok_def hm_filter_ok
      intro: le_trans[OF length_filter_le])

lemma on_inserted_inv:
  assumes "on_inserted P ord now bc b nd = Some nd'" "node_inv P relay nd" "chain_reachable P bc"
  shows "node_inv P relay nd'"
proof -
  obtain bc' r where 1: "reorganize_if_needed P bc (block_hash b) = Some (bc', r)"
    "process_orphan_blocks P ord now (nd\<lparr>nd_bc := bc', nd_chain := push_block b (nd_chain nd),
       my_height := index (header b), nd_mempool := remove_confirmed b (nd_mempool nd)\<rparr>) = Some nd'"
    using assms(1) by (auto simp: on_inserted_def bind_eq_Some_conv)
  show ?thesis
    by (rule process_orphans_inv[OF 1(2)])
      (use chain_moves(3)[OF assms(3) 1(1)] assms(2) in \<open>simp add: node_inv_def orphans_ok_def confirmed_reachable\<close>)
qed

lemma on_fork_inv:
  assumes "on_fork P now b nd = Some nd'" "node_inv P relay nd"
  shows "node_inv P relay nd'"
proof -
  obtain bc r where f: "validate_fork_block P now (nd_bc nd) b = (bc, r)"
    by (cases "validate_fork_block P now (nd_bc nd) b")
  have c: "chain_reachable P bc" using chain_moves(2)[OF _ f] assms(2) by (simp add: node_inv_def)
  have "\<exists>bc'. chain_reachable P bc' \<and> (nd' = nd\<lparr>nd_bc := bc'\<rparr> \<or>
      nd' = nd\<lparr>nd_bc := bc', nd_chain := push_block b (nd_chain nd), my_height := index (header b)\<rparr>)"
  proof (cases r)
    case (Ok u)
    then obtain bc' r' where "reorganize_if_needed P bc (block_hash b) = Some (bc', r')"
      "nd' = (case r' of
              Ok True \<Rightarrow> nd\<lparr>nd_bc := bc', nd_chain := push_block b (nd_chain nd), my_height := index (header b)\<rparr>
            | Ok False \<Rightarrow> nd\<lparr>nd_bc := bc'\<rparr> | Err e \<Rightarrow> nd\<lparr>nd_bc := bc'\<rparr>)"
      using assms(1) f by (auto simp: on_fork_def)
    then show ?thesis using chain_moves(3)[OF c] by (cases r') (auto split: bool.splits)
  qed (use assms(1) f c in \<open>auto simp: on_fork_def\<close>)
  then show ?thesis using assms(2) by (auto simp: node_inv_def orphans_ok_def)
qed

lemma on_orphan_inv:
  assumes "arranges ord" "on_orphan P ord now b nd = Some nd'" "node_inv P relay nd"
  shows "node_inv P relay nd'"
proof (cases "nd' = nd")
  case False
  let ?nd = "nd\<lparr>nd_chain := store_orphan ord now (next_height P (nd_bc nd)) b (nd_chain nd)\<rparr>"
  obtain nd1 where 1: "process_orphan_blocks P ord now ?nd = Some nd1"
    "nd' = nd1\<lparr>requested := requested nd1 @ [previous_hash (header b)]\<rparr>"
    using assms(2) False by (auto simp: on_orphan_def Let_def split: if_splits)
  have "node_inv P relay ?nd" using assms(3) store_orphan_ok[OF assms(1)] by (simp add: node_inv_def)
  from process_orphans_inv[OF 1(1) this] show ?thesis by (simp add: 1(2) node_inv_def)
qed (use assms in simp)

text \<open>The processor once a block is neither mined here nor stored.\<close>

definition cancelled :: "'v prims \<Rightarrow> bool \<Rightarrow> block \<Rightarrow> 'v node \<Rightarrow> 'v node" where
  "cancelled P busy b nd =
     (if mining_active nd \<and> should_cancel P busy (nd_bc nd) b then nd\<lparr>cancel_flag := True\<rparr> else nd)"

lemma cancelled_simps [simp]:
  "nd_bc (cancelled P busy b nd) = nd_bc nd" "nd_chain (cancelled P busy b nd) = nd_chain nd"
  "nd_mempool (cancelled P busy b nd) = nd_mempool nd"
  by (simp_all add: cancelled_def)

lemma process_block_eq:
  assumes "validate_and_insert_block P now (nd_bc nd) b = (bc, r)"
  shows "process_block P ord now busy carried b nd =
    (let nd1 = cancelled P busy b nd in
     if hm_get (recently_mined_blocks (nd_chain nd)) (block_hash b) \<noteq> None then Some nd
     else if db_get (bc_db (nd_bc nd)) (block_key (block_hash b)) \<noteq> None then Some nd1
     else (case r of
       Ok _ \<Rightarrow> on_inserted P ord now bc b nd1
     | Err e \<Rightarrow>
         if contains ''fork detected'' (error_msg e carried) then on_fork P now b (nd1\<lparr>nd_bc := bc\<rparr>)
         else if contains ''previous header not found'' (error_msg e carried)
         then on_orphan P ord now b (nd1\<lparr>nd_bc := bc\<rparr>)
         else Some (nd1\<lparr>nd_bc := bc\<rparr>)))"
  unfolding process_block_def Let_def cancelled_def[symmetric] cancelled_simps assms
  by (cases r) auto

lemma process_block_inv:
  assumes "arranges ord" "process_block P ord now busy carried b nd = Some nd'" "node_inv P relay nd"
  shows "node_inv P relay nd'"
proof -
  obtain bc r where v: "validate_and_insert_block P now (nd_bc nd) b = (bc, r)"
    by (cases "validate_and_insert_block P now (nd_bc nd) b")
  have c: "chain_reachable P bc" using chain_moves(1)[OF _ v] assms(3) by (simp add: node_inv_def)
  have i: "node_inv P relay (cancelled P busy b nd)" "node_inv P relay ((cancelled P busy b nd)\<lparr>nd_bc := bc\<rparr>)"
    using assms(3) c by (simp_all add: node_inv_def)
  note h = on_inserted_inv[OF _ i(1) c] on_fork_inv[OF _ i(2)] on_orphan_inv[OF assms(1) _ i(2)]
  show ?thesis
    using assms(2) unfolding process_block_eq[OF v] Let_def
    using assms(3) by (cases r) (auto simp: h i split: if_splits)
qed

lemma submit_block_inv:
  assumes "submit_block P now b nd = (nd', r)" "node_inv P relay nd"
  shows "node_inv P relay nd'"
proof -
  obtain bc r' where v: "validate_and_insert_block P now (nd_bc nd) b = (bc, r')"
    by (cases "validate_and_insert_block P now (nd_bc nd) b")
  have "chain_reachable P bc" using chain_moves(1)[OF _ v] assms(2) by (simp add: node_inv_def)
  then show ?thesis using assms v
    by (auto simp: submit_block_def Let_def node_inv_def orphans_ok_def confirmed_reachable split: result.splits)
qed

section \<open>Reachable nodes\<close>

text \<open>
  A step is one block from a peer, one mined block, one step of the pool of transactions, or the
  miner's own change of its two flags; a restart keeps the database only.
\<close>

inductive node_step :: "'v prims \<Rightarrow> bool \<Rightarrow> 'v node \<Rightarrow> 'v node \<Rightarrow> bool" for P relay where
  block_arrives: "arranges ord \<Longrightarrow> process_block P ord now busy carried b nd = Some nd' \<Longrightarrow> node_step P relay nd nd'"
| block_mined: "submit_block P now b nd = (nd', r) \<Longrightarrow> node_step P relay nd nd'"
| pool_step: "mempool_step P relay (nd_mempool nd) m \<Longrightarrow> node_step P relay nd (nd\<lparr>nd_mempool := m\<rparr>)"
| miner_flags: "node_step P relay nd (nd\<lparr>mining_active := active, cancel_flag := cancel\<rparr>)"
| node_restart: "node_start P (bc_db (nd_bc nd)) = Ok nd' \<Longrightarrow> node_step P relay nd nd'"

inductive node_reachable :: "'v prims \<Rightarrow> bool \<Rightarrow> 'v node \<Rightarrow> bool" for P relay where
  node_starts: "node_start P [] = Ok nd \<Longrightarrow> node_reachable P relay nd"
| node_moves: "node_reachable P relay nd \<Longrightarrow> node_step P relay nd nd' \<Longrightarrow> node_reachable P relay nd'"

inductive_cases node_stepE: "node_step P relay nd nd'"

lemma node_start_inv:
  assumes "node_start P d = Ok nd" "\<And>bc. blockchain_new P d = Ok bc \<Longrightarrow> chain_reachable P bc"
  shows "node_inv P relay nd"
proof -
  obtain bc where bc: "blockchain_new P d = Ok bc"
    "nd = \<lparr>nd_bc = (if count_blocks bc = 0 then bc else fst (recover_tip P bc)), nd_chain = chain_state_default,
       nd_mempool = mempool_default, my_height = my_height nd, mining_active = False, cancel_flag = False, requested = []\<rparr>"
    using assms(1) by (auto simp: node_start_def res_simps Let_def)
  have "chain_reachable P (fst (recover_tip P bc))"
    using chain_moves(4)[OF assms(2)[OF bc(1)]] by (metis prod.collapse)
  then have "node_inv P relay \<lparr>nd_bc = (if count_blocks bc = 0 then bc else fst (recover_tip P bc)),
       nd_chain = chain_state_default, nd_mempool = mempool_default, my_height = my_height nd,
       mining_active = False, cancel_flag = False, requested = []\<rparr>"
    using assms(2)[OF bc(1)]
    by (simp add: node_inv_def orphans_ok_def chain_state_default_def mempool_reachable.empty_pool)
  then show ?thesis using bc(2) by simp
qed

lemma node_step_inv: "node_step P relay nd nd' \<Longrightarrow> node_inv P relay nd \<Longrightarrow> node_inv P relay nd'"
proof (induction rule: node_step.induct)
  case (pool_step nd m)
  then show ?case using mempool_reachable.pool_moves by (auto simp: node_inv_def)
next
  case (node_restart nd nd')
  then show ?case using chain_moves(5) by (intro node_start_inv) (auto simp: node_inv_def)
next
  case (miner_flags nd active cancel)
  then show ?case by (simp add: node_inv_def)
qed (auto intro: process_block_inv submit_block_inv)

lemma node_reachable_inv: "node_reachable P relay nd \<Longrightarrow> node_inv P relay nd"
proof (induction rule: node_reachable.induct)
  case (node_starts nd)
  then show ?case using chain_reachable.start by (intro node_start_inv) auto
qed (use node_step_inv in blast)

lemma inv_tip_stored:
  assumes "chain_inv P bc" "chain_tip bc = Some h"
  obtains b where "load_block P bc h = Ok (Some b)" "load_header P bc h = Ok (Some (header b))"
    "compute_header_hash P (header b) = h"
proof -
  obtain v where v: "db_get (bc_db bc) (block_key h) = Some v"
    using assms by (auto simp: chain_inv_def tip_synced_def)
  then obtain b where "dec_block P v = Some b" "compute_header_hash P (header b) = h"
    using assms(1) by (fastforce simp: chain_inv_def own_hash_def)
  then show thesis using v that[of b] by (simp add: load_block_def load_header_def)
qed

text \<open>
  C10. In every state a node can reach, with any traffic and any number of restarts: the orphan pool
  holds at most 100 blocks and the memory at most 500, the tip names a stored block and is the hash
  of its header, every pending transaction is signed, and unless relay requests are served no output
  is spent by two pending transactions.
\<close>

theorem node_invariant:
  assumes "codec_ok P" "node_reachable P relay nd"
  shows "length (orphan_blocks (nd_chain nd)) \<le> 100 \<and> length (blockchain_mem (nd_chain nd)) \<le> 500 \<and>
    (\<forall>h. chain_tip (nd_bc nd) = Some h \<longrightarrow>
       (\<exists>b. load_block P (nd_bc nd) h = Ok (Some b) \<and> compute_header_hash P (header b) = h)) \<and>
    (\<forall>tx\<in>set (pending (nd_mempool nd)). verify_signatures P tx = Ok True) \<and>
    (\<not> relay \<longrightarrow> (\<forall>t v. length (spenders (pending (nd_mempool nd)) t v) \<le> 1))"
proof -
  have i: "node_inv P relay nd" using node_reachable_inv[OF assms(2)] .
  then have "chain_inv P (nd_bc nd)" using reachable_inv assms(1) by (auto simp: node_inv_def)
  moreover have "pool_inv P relay (nd_mempool nd)" using mempool_reachable_inv i by (auto simp: node_inv_def)
  ultimately show ?thesis
    using i by (auto simp: node_inv_def orphans_ok_def pool_inv_def node_limits elim: inv_tip_stored)
qed

section \<open>Orphans are settled\<close>

text \<open>In a reachable chain the tip's header is there, so a refused block leaves everything as it was.\<close>

lemma refused_unchanged:
  assumes "codec_ok P" "chain_reachable P bc" "validate_and_insert_block P now bc b = (bc', Err e)"
  shows "bc' = bc"
proof -
  have i: "chain_inv P bc" using reachable_inv assms(1,2) by blast
  have "load_header P bc tip \<noteq> Ok None" if "chain_tip bc = Some tip" for tip
    using inv_tip_stored[OF i that] by (metis option.distinct(1) result.inject(1))
  then show ?thesis using insert_Err[OF assms(3)] settle_tip_state by metis
qed

text \<open>What keeps an orphan in the pool: its parent is missing, or it is refused.\<close>

definition stuck :: "'v prims \<Rightarrow> int \<Rightarrow> 'v blockchain \<Rightarrow> block \<Rightarrow> bool" where
  "stuck P now bc b \<longleftrightarrow> (\<forall>p. load_block P bc (previous_hash (header b)) \<noteq> Ok (Some p)) \<or>
     (\<exists>e. validate_and_insert_block P now bc b = (bc, Err e))"

lemma try_orphan_flag: "try_orphan P now x (nd, True) = Some (nd', p) \<Longrightarrow> p"
  by (cases x) (auto simp: try_orphan_def Let_def split: result.splits option.splits prod.splits)

lemma try_orphans_flag: "try_orphans P now xs (nd, True) = Some (nd', p) \<Longrightarrow> p"
proof (induction xs arbitrary: nd)
  case (Cons x xs)
  then show ?case using try_orphan_flag by (fastforce simp: bind_eq_Some_conv)
qed simp

lemma try_orphan_idle:
  assumes "codec_ok P" "chain_reachable P (nd_bc nd)" "try_orphan P now (h, b) (nd, False) = Some (nd', False)"
  shows "nd' = nd" "stuck P now (nd_bc nd) b"
proof -
  obtain bc r where v: "validate_and_insert_block P now (nd_bc nd) b = (bc, r)"
    by (cases "validate_and_insert_block P now (nd_bc nd) b")
  have "nd' = nd \<and> stuck P now (nd_bc nd) b"
  proof (cases "\<exists>p. load_block P (nd_bc nd) (previous_hash (header b)) = Ok (Some p)")
    case True
    then obtain e where e: "r = Err e" "nd' = nd\<lparr>nd_bc := bc\<rparr>"
      using assms(3) v by (cases r) (auto simp: try_orphan_def Let_def)
    with refused_unchanged[OF assms(1,2)] v show ?thesis by (auto simp: stuck_def)
  next
    case False
    then show ?thesis using assms(3) by (auto simp: try_orphan_def stuck_def split: result.splits option.splits)
  qed
  then show "nd' = nd" "stuck P now (nd_bc nd) b" by simp_all
qed

lemma try_orphans_idle:
  assumes "codec_ok P" "chain_reachable P (nd_bc nd)" "try_orphans P now xs (nd, False) = Some (nd', False)"
  shows "nd' = nd \<and> (\<forall>(h, b)\<in>set xs. stuck P now (nd_bc nd) b)"
  using assms(3)
proof (induction xs)
  case (Cons x xs)
  obtain h b where x: "x = (h, b)" by (cases x)
  obtain nd1 p1 where 1: "try_orphan P now (h, b) (nd, False) = Some (nd1, p1)" "try_orphans P now xs (nd1, p1) = Some (nd', False)"
    using Cons.prems x by (auto simp: bind_eq_Some_conv)
  then have "\<not> p1" using try_orphans_flag[of P now xs nd1 nd' False] by auto
  then show ?case using try_orphan_idle[OF assms(1,2)] Cons.IH 1 x by auto
qed simp

text \<open>A pass that inserts something takes it out of the pool.\<close>

lemma try_orphan_removes:
  assumes "try_orphan P now (h, b) (nd, p) = Some (nd', p')"
  shows "orphan_blocks (nd_chain nd') = orphan_blocks (nd_chain nd) \<and> p' = p \<or>
    orphan_blocks (nd_chain nd') = hm_remove h (orphan_blocks (nd_chain nd)) \<and> p'"
  using assms
  by (cases "validate_and_insert_block P now (nd_bc nd) b")
    (auto simp: try_orphan_def Let_def split: result.splits option.splits)

lemma try_orphans_removes:
  assumes "try_orphans P now xs (nd, p) = Some (nd', p')"
  shows "\<exists>R. orphan_blocks (nd_chain nd') = filter (\<lambda>q. fst q \<notin> R) (orphan_blocks (nd_chain nd)) \<and>
    (p' \<longrightarrow> p \<or> (\<exists>x\<in>set xs. fst x \<in> R))"
  using assms
proof (induction xs arbitrary: nd p)
  case Nil
  then show ?case by (intro exI[of _ "{}"]) simp
next
  case (Cons x xs)
  obtain h b where x: "x = (h, b)" by (cases x)
  obtain nd1 p1 where 1: "try_orphan P now (h, b) (nd, p) = Some (nd1, p1)" "try_orphans P now xs (nd1, p1) = Some (nd', p')"
    using Cons.prems x by (auto simp: bind_eq_Some_conv)
  obtain R where R: "orphan_blocks (nd_chain nd') = filter (\<lambda>q. fst q \<notin> R) (orphan_blocks (nd_chain nd1))"
    "p' \<longrightarrow> p1 \<or> (\<exists>x\<in>set xs. fst x \<in> R)" using Cons.IH[OF 1(2)] by blast
  from try_orphan_removes[OF 1(1)] show ?case
  proof
    assume "orphan_blocks (nd_chain nd1) = orphan_blocks (nd_chain nd) \<and> p1 = p"
    then show ?thesis using R by (intro exI[of _ R]) auto
  next
    assume "orphan_blocks (nd_chain nd1) = hm_remove h (orphan_blocks (nd_chain nd)) \<and> p1"
    then show ?thesis using R(1) x by (intro exI[of _ "insert h R"]) (auto simp: hm_remove_def conj_commute)
  qed
qed

lemma orphan_pass_shrinks:
  assumes "arranges ord" "orphan_pass P ord now nd = Some (nd', True)"
  shows "length (orphan_blocks (nd_chain nd')) < length (orphan_blocks (nd_chain nd))"
proof -
  let ?xs = "map (\<lambda>(hash, b, _). (hash, b)) (ord (hm_entries (orphan_blocks (nd_chain nd))))"
  obtain R x where R: "orphan_blocks (nd_chain nd') = filter (\<lambda>q. fst q \<notin> R) (orphan_blocks (nd_chain nd))"
    "x \<in> set ?xs" "fst x \<in> R"
    using try_orphans_removes[of P now ?xs nd False nd' True] assms(2) unfolding orphan_pass_def Let_def by blast
  then obtain q where "q \<in> set (orphan_blocks (nd_chain nd))" "fst q \<in> R"
    using assms(1) by (auto simp: hm_entries_def)
  then show ?thesis unfolding R(1) by (intro length_filter_less[of q]) auto
qed

text \<open>The bound of 100 iterations is never what ends the loop.\<close>

lemma orphan_loop_ends:
  assumes "arranges ord" "length (orphan_blocks (nd_chain nd)) \<le> n" "orphan_loop P ord now n nd = Some nd'"
    and "node_inv P relay nd"
  shows "orphan_blocks (nd_chain nd') = [] \<or> (\<exists>nd1. node_inv P relay nd1 \<and> orphan_pass P ord now nd1 = Some (nd', False))"
  using assms(2-)
proof (induction n arbitrary: nd)
  case (Suc n)
  obtain nd1 p where 1: "orphan_pass P ord now nd = Some (nd1, p)"
    using Suc.prems(2) by (auto split: option.splits)
  show ?case
  proof (cases p)
    case True
    have "node_inv P relay nd1" using 1 Suc.prems(3) try_orphans_inv by (auto simp: orphan_pass_def Let_def)
    moreover have "length (orphan_blocks (nd_chain nd1)) \<le> n"
      using orphan_pass_shrinks[OF assms(1)] 1 True Suc.prems(1) by fastforce
    ultimately show ?thesis using Suc.IH Suc.prems(2) 1 True by auto
  qed (use 1 Suc.prems in auto)
qed simp

lemma process_orphans_settle:
  assumes "codec_ok P" "arranges ord" "node_inv P relay nd" "process_orphan_blocks P ord now nd = Some nd'"
    and "(h, b, ts) \<in> set (orphan_blocks (nd_chain nd'))"
  shows "stuck P now (nd_bc nd') b"
proof -
  obtain nd1 where 1: "orphan_loop P ord now 100 nd = Some nd1" "nd_bc nd' = nd_bc nd1"
    "set (orphan_blocks (nd_chain nd')) \<subseteq> set (orphan_blocks (nd_chain nd1))"
    using assms(4) by (auto simp: process_orphan_blocks_def)
  have "length (orphan_blocks (nd_chain nd)) \<le> 100"
    using assms(3) by (simp add: node_inv_def orphans_ok_def node_limits)
  from orphan_loop_ends[OF assms(2) this 1(1) assms(3)] obtain nd2 where 2: "node_inv P relay nd2"
    "orphan_pass P ord now nd2 = Some (nd1, False)" using 1(3) assms(5) by auto
  have "chain_reachable P (nd_bc nd2)" using 2(1) by (simp add: node_inv_def)
  from try_orphans_idle[OF assms(1) this] 2(2) have "nd1 = nd2"
    "\<forall>(h, b)\<in>set (map (\<lambda>(hash, b, _). (hash, b)) (ord (hm_entries (orphan_blocks (nd_chain nd2))))). stuck P now (nd_bc nd2) b"
    by (auto simp: orphan_pass_def Let_def)
  then show ?thesis using 1(2,3) assms(2,5) by (auto simp: hm_entries_def)
qed

text \<open>
  C11. After the processor has handled a block that it inserted, or kept as an orphan, no orphan is left
  that could be inserted: each one that remains lacks its parent or is refused by validation as it
  stands. The bound on the iterations never cuts the work short.
\<close>

theorem orphans_settled:
  assumes "codec_ok P" "arranges ord" "node_reachable P relay nd"
    and "process_block P ord now busy carried b nd = Some nd'"
    and "hm_get (recently_mined_blocks (nd_chain nd)) (block_hash b) = None"
    and "db_get (bc_db (nd_bc nd)) (block_key (block_hash b)) = None"
    and "validate_and_insert_block P now (nd_bc nd) b = (bc, r)"
    and "r = Ok () \<or> r = Err PrevMissing \<and> \<not> contains ''fork detected'' (error_msg PrevMissing carried) \<and>
      index (header b) \<le> next_height P (nd_bc nd) + 1000"
    and "(h, ob, ts) \<in> set (orphan_blocks (nd_chain nd'))"
  shows "(\<forall>p. load_block P (nd_bc nd') (previous_hash (header ob)) \<noteq> Ok (Some p)) \<or>
    (\<exists>e. validate_and_insert_block P now (nd_bc nd') ob = (nd_bc nd', Err e))"
proof -
  let ?nd = "cancelled P busy b nd"
  have i: "node_inv P relay nd" using node_reachable_inv[OF assms(3)] .
  have c: "chain_reachable P (nd_bc nd)" using i by (simp add: node_inv_def)
  note eq = process_block_eq[OF assms(7), of ord busy carried]
  have prev: "contains ''previous header not found'' (error_msg PrevMissing carried)"
    by (simp add: error_msg_def starts_with_def)
  have "stuck P now (nd_bc nd') ob"
  proof (cases r)
    case (Ok u)
    then obtain bc' r' where 1: "reorganize_if_needed P bc (block_hash b) = Some (bc', r')"
      "process_orphan_blocks P ord now (?nd\<lparr>nd_bc := bc', nd_chain := push_block b (nd_chain ?nd),
       my_height := index (header b), nd_mempool := remove_confirmed b (nd_mempool ?nd)\<rparr>) = Some nd'"
      using assms(4-6) eq by (auto simp: Let_def on_inserted_def bind_eq_Some_conv)
    have "chain_reachable P bc'" using chain_moves(1)[OF c assms(7)] chain_moves(3)[OF _ 1(1)] by blast
    then have "node_inv P relay (?nd\<lparr>nd_bc := bc', nd_chain := push_block b (nd_chain ?nd),
       my_height := index (header b), nd_mempool := remove_confirmed b (nd_mempool ?nd)\<rparr>)"
      using i by (simp add: node_inv_def orphans_ok_def confirmed_reachable)
    from process_orphans_settle[OF assms(1,2) this 1(2) assms(9)] show ?thesis .
  next
    case (Err e)
    then have e: "e = PrevMissing" "\<not> contains ''fork detected'' (error_msg PrevMissing carried)" "index (header b) \<le> next_height P (nd_bc nd) + 1000" "bc = nd_bc nd"
      using assms(8) refused_unchanged[OF assms(1) c] assms(7) by auto
    then have far: "\<not> next_height P (nd_bc nd) + 1000 < index (header b)" by (simp add: not_less)
    let ?nd1 = "?nd\<lparr>nd_bc := bc, nd_chain := store_orphan ord now (next_height P bc) b (nd_chain ?nd)\<rparr>"
    obtain nd1 where 1: "process_orphan_blocks P ord now ?nd1 = Some nd1" "nd_bc nd' = nd_bc nd1" "nd_chain nd' = nd_chain nd1"
      using assms(4-6) eq Err e(1,2,4) far prev by (auto simp: Let_def on_orphan_def)
    have "node_inv P relay ?nd1" using i e(4) store_orphan_ok[OF assms(2)] by (simp add: node_inv_def)
    from process_orphans_settle[OF assms(1,2) this 1(1), of h ob ts] show ?thesis using 1(2,3) assms(9) by simp
  qed
  then show ?thesis by (simp add: stuck_def)
qed

section \<open>Answers to peers\<close>

text \<open>The name of a stored block is the hexadecimal text of 32 bytes.\<close>

lemma stored_name:
  assumes "hex_ok P" "chain_inv P bc" "load_header P bc h = Ok (Some hdr)"
  obtains bs where "hex_decode P h = Some bs" "hex_encode P bs = h"
proof -
  obtain v where "db_get (bc_db bc) (block_key h) = Some v"
    using assms(3) by (auto simp: load_header_def split: option.splits)
  then obtain b :: block where "compute_header_hash P (header b) = h"
    using assms(2) by (fastforce simp: chain_inv_def own_hash_def)
  then have "h = hex_of (blake3_hash P (serialize_header P (header b)))"
    using assms(1) by (simp add: compute_header_hash_def to_hex_def)
  then show thesis using that assms(1) by simp
qed

lemma locator_loop_ends:
  assumes "hex_ok P" "chain_inv P bc" "length loc < 10"
  shows "\<exists>l. locator_loop P bc loc h = Some (loc @ l) \<and> length (loc @ l) \<le> 10 \<and>
    (\<forall>hdr. load_header P bc h = Ok (Some hdr) \<longrightarrow> l \<noteq> [] \<and> hex_encode P (hd l) = h)"
  using assms(3)
proof (induction "10 - length loc" arbitrary: loc h rule: less_induct)
  case less
  show ?case
  proof (cases "\<exists>hdr. load_header P bc h = Ok (Some hdr)")
    case False
    then have "locator_loop P bc loc h = Some (loc @ (case hex_decode P h of Some bs \<Rightarrow> [bs] | None \<Rightarrow> []))"
      by (subst locator_loop.simps) (auto simp: Let_def split: option.splits result.splits)
    then show ?thesis using less.prems False
      by (intro exI[of _ "case hex_decode P h of Some bs \<Rightarrow> [bs] | None \<Rightarrow> []"]) (auto split: option.splits)
  next
    case True
    then obtain hdr where hdr: "load_header P bc h = Ok (Some hdr)" by blast
    obtain bs where bs: "hex_decode P h = Some bs" "hex_encode P bs = h" using stored_name[OF assms(1,2) hdr] .
    have step: "locator_loop P bc loc h = (if length (loc @ [bs]) \<ge> 10 then Some (loc @ [bs])
        else if index hdr > 0 then locator_loop P bc (loc @ [bs]) (previous_hash hdr) else Some (loc @ [bs]))"
      by (subst locator_loop.simps) (simp add: bs(1) hdr Let_def)
    show ?thesis
    proof (cases "length (loc @ [bs]) < 10 \<and> index hdr > 0")
      case True
      have "10 - length (loc @ [bs]) < 10 - length loc" using less.prems by simp
      from less.hyps[OF this, of "previous_hash hdr"] True obtain l where
        "locator_loop P bc (loc @ [bs]) (previous_hash hdr) = Some ((loc @ [bs]) @ l)" "length ((loc @ [bs]) @ l) \<le> 10"
        by blast
      then show ?thesis using step True bs(2) by (intro exI[of _ "bs # l"]) auto
    next
      case False
      then show ?thesis using step bs(2) less.prems by (intro exI[of _ "[bs]"]) auto
    qed
  qed
qed

text \<open>
  C13. Synchronisation resumes where it stopped. In every reachable state the chain locator is built, has
  at most ten entries, and starts with the tip; and a peer that has this tip answers the request
  from the height right above it.
\<close>

theorem sync_resumes_at_tip:
  assumes "codec_ok P" "hex_ok P" "node_reachable P relay nd"
  shows "\<exists>l. chain_locator P (nd_bc nd) = Some l \<and> length l \<le> 10 \<and>
    (\<forall>h hdr peer. chain_tip (nd_bc nd) = Some h \<and> load_header P peer h = Ok (Some hdr) \<longrightarrow>
       start_index P peer l = index hdr + 1)"
proof -
  have i: "chain_inv P (nd_bc nd)"
    using node_reachable_inv[OF assms(3)] reachable_inv assms(1) by (auto simp: node_inv_def)
  show ?thesis
  proof (cases "chain_tip (nd_bc nd)")
    case (Some h)
    obtain b :: block where b: "load_header P (nd_bc nd) h = Ok (Some (header b))"
      using inv_tip_stored[OF i Some] by metis
    obtain l where l: "locator_loop P (nd_bc nd) [] h = Some l" "length l \<le> 10" "l \<noteq> []" "hex_encode P (hd l) = h"
      using locator_loop_ends[OF assms(2) i, of "[]" h] b by auto
    have "start_index P peer l = index hdr + 1" if "load_header P peer h = Ok (Some hdr)" for hdr peer
      using that l(3,4) by (cases l) auto
    then show ?thesis using l Some by (auto simp: chain_locator_def)
  qed (simp add: chain_locator_def)
qed

text \<open>The answer to a request for headers.\<close>

definition headers_from :: "'v prims \<Rightarrow> 'v blockchain \<Rightarrow> nat \<Rightarrow> nat \<Rightarrow> block_header list" where
  "headers_from P bc s n =
     List.map_filter (\<lambda>k. Option.bind (db_get (bc_db bc) (index_key k)) (header_at P bc)) [s..<s + n]"

lemma headers_from_simps:
  "headers_from P bc s 0 = []"
  "headers_from P bc s (Suc n) =
     (case Option.bind (db_get (bc_db bc) (index_key s)) (header_at P bc) of None \<Rightarrow> [] | Some h \<Rightarrow> [h])
     @ headers_from P bc (Suc s) n"
  by (simp_all add: headers_from_def map_filter_simps upt_conv_Cons del: upt_Suc split: option.splits)

lemma headers_loop_ends:
  assumes "unat i + m < 2 ^ 64" "db_get (bc_db bc) (index_key (unat i + m)) = None" "length acc \<le> 200"
  shows "\<exists>n. headers_loop P bc acc i = Some (acc @ headers_from P bc (unat i) n) \<and>
    length (acc @ headers_from P bc (unat i) n) \<le> 200 \<and>
    (\<forall>k. unat i \<le> k \<and> k < unat i + n \<longrightarrow> db_get (bc_db bc) (index_key k) \<noteq> None) \<and>
    (length (acc @ headers_from P bc (unat i) n) = 200 \<or> db_get (bc_db bc) (index_key (unat i + n)) = None)"
  using assms
proof (induction m arbitrary: i acc)
  case 0
  then show ?case by (intro exI[of _ 0]) (subst headers_loop.simps, auto simp: headers_from_simps)
next
  case (Suc m)
  show ?case
  proof (cases "length acc < 200 \<and> db_get (bc_db bc) (index_key (unat i)) \<noteq> None")
    case False
    then show ?thesis using Suc.prems(3)
      by (intro exI[of _ 0]) (subst headers_loop.simps, auto simp: headers_from_simps)
  next
    case True
    then obtain v where v: "db_get (bc_db bc) (index_key (unat i)) = Some v" by blast
    let ?x = "case header_at P bc v of Some hdr \<Rightarrow> [hdr] | None \<Rightarrow> []"
    have u: "unat (i + 1) = Suc (unat i)" using Suc.prems(1) by (simp add: unat_word_ariths)
    have step: "headers_loop P bc acc i = headers_loop P bc (acc @ ?x) (i + 1)"
      by (subst headers_loop.simps) (simp add: True v)
    have "length (acc @ ?x) \<le> 200" using True by (auto split: option.splits)
    moreover have "unat (i + 1) + m < 2 ^ 64" "db_get (bc_db bc) (index_key (unat (i + 1) + m)) = None"
      using Suc.prems(1,2) u by simp_all
    ultimately obtain n where n:
      "headers_loop P bc (acc @ ?x) (i + 1) = Some ((acc @ ?x) @ headers_from P bc (unat (i + 1)) n)"
      "length ((acc @ ?x) @ headers_from P bc (unat (i + 1)) n) \<le> 200"
      "\<forall>k. unat (i + 1) \<le> k \<and> k < unat (i + 1) + n \<longrightarrow> db_get (bc_db bc) (index_key k) \<noteq> None"
      "length ((acc @ ?x) @ headers_from P bc (unat (i + 1)) n) = 200 \<or>
        db_get (bc_db bc) (index_key (unat (i + 1) + n)) = None"
      using Suc.IH by blast
    have e: "acc @ headers_from P bc (unat i) (Suc n) = (acc @ ?x) @ headers_from P bc (unat (i + 1)) n"
      by (simp add: headers_from_simps(2) u v split: option.splits)
    have "db_get (bc_db bc) (index_key k) \<noteq> None" if "unat i \<le> k" "k < unat i + Suc n" for k
      using n(3) u v that by (cases "k = unat i") auto
    then show ?thesis
      using n step u by (intro exI[of _ "Suc n"]) (simp only: e, simp)
  qed
qed

text \<open>
  A request for headers is answered, with at most 200 headers: those that the height records name,
  from the height the locator determines upwards without a gap, until 200 are found or the records
  end. The height records have to end somewhere.
\<close>

theorem headers_answered:
  assumes "start_index P bc locator = s" "unat s \<le> gap" "gap < 2 ^ 64"
    and "db_get (bc_db bc) (index_key gap) = None"
  shows "\<exists>n. on_getheaders P bc locator = Some (headers_from P bc (unat s) n) \<and>
    length (headers_from P bc (unat s) n) \<le> 200 \<and>
    (\<forall>k. unat s \<le> k \<and> k < unat s + n \<longrightarrow> db_get (bc_db bc) (index_key k) \<noteq> None) \<and>
    (length (headers_from P bc (unat s) n) = 200 \<or> db_get (bc_db bc) (index_key (unat s + n)) = None)"
  using headers_loop_ends[of s "gap - unat s" bc "[]" P] assms by (simp add: on_getheaders_def)

theorem headers_answered_witness:
  "\<exists>n. on_getheaders ref_prims sample_chain [] = Some (headers_from ref_prims sample_chain 0 n)"
proof -
  have "db_get (bc_db sample_chain) (index_key 1) = None" by (simp add: sample_chain_def db_get_def)
  then show ?thesis using headers_answered[of ref_prims sample_chain "[]" 0 1] by auto
qed

section \<open>A restart\<close>

text \<open>The recovered tip is a stored block of the greatest height.\<close>

lemma highest_block_max:
  assumes "highest_block P es best = r"
  shows "(\<forall>h k. best = Some (h, k) \<longrightarrow> (\<exists>h' k'. r = Some (h', k') \<and> h \<le> h')) \<and>
    (\<forall>h v b. (block_key h, v) \<in> set es \<and> dec_block P v = Some b \<longrightarrow> (\<exists>h' k'. r = Some (h', k') \<and> index (header b) \<le> h')) \<and>
    (r = best \<or> (\<exists>k v b. r = Some (index (header b), k) \<and> (block_key k, v) \<in> set es \<and> dec_block P v = Some b))"
  using assms
proof (induction P es best rule: highest_block.induct)
  case (2 P key v rest best)
  define bb where "bb = (if starts_with ''b:'' key then (case dec_block P v of None \<Rightarrow> best
      | Some b \<Rightarrow> let h = index (header b) in (case best of None \<Rightarrow> Some (h, drop 2 key)
          | Some (h0, _) \<Rightarrow> if h > h0 then Some (h, drop 2 key) else best)) else best)"
  have r: "highest_block P rest bb = r" using 2(2) by (simp only: highest_block.simps bb_def)
  note IH = 2(1)[folded bb_def, OF r]
  have k: "starts_with ''b:'' key \<Longrightarrow> key = block_key (drop 2 key)"
    unfolding starts_with_def block_key_def
    using append_take_drop_id[of 2 key] by (simp only: list.size length_Cons numeral_2_eq_2 One_nat_def) simp
  have b1: "\<exists>h' k'. bb = Some (h', k') \<and> h \<le> h'" if "best = Some (h, k')" for h k'
    using that by (auto simp: bb_def Let_def split: option.splits)
  have b2: "\<exists>h' k'. bb = Some (h', k') \<and> index (header b) \<le> h'" if "key = block_key h" "dec_block P v = Some b" for h b
    using that by (auto simp: bb_def Let_def not_less split: option.splits)
  have b3: "bb = best \<or> (\<exists>b. bb = Some (index (header b), drop 2 key) \<and> dec_block P v = Some b \<and> starts_with ''b:'' key)"
    by (auto simp: bb_def Let_def split: option.splits)
  have up: "\<exists>h' k'. r = Some (h', k') \<and> h \<le> h'" if ex: "\<exists>h' k'. bb = Some (h', k') \<and> h \<le> h'" for h
  proof -
    obtain h1 k1 where "bb = Some (h1, k1)" "h \<le> h1" using ex by blast
    then show ?thesis using IH[THEN conjunct1, rule_format, of h1 k1] by (auto intro: order_trans)
  qed
  have "\<exists>h' k'. r = Some (h', k') \<and> index (header b) \<le> h'"
    if "(block_key h, v') \<in> set ((key, v) # rest)" "dec_block P v' = Some b" for h v' b
    using that IH up[OF b2, of h b] by auto
  moreover have "r = best \<or> (\<exists>k v' b. r = Some (index (header b), k) \<and> (block_key k, v') \<in> set ((key, v) # rest) \<and> dec_block P v' = Some b)"
  proof (cases "r = bb")
    case True
    then show ?thesis using b3 k by (metis list.set_intros(1))
  next
    case False
    then obtain k' v' b where "r = Some (index (header b), k')" "(block_key k', v') \<in> set rest" "dec_block P v' = Some b"
      using IH by blast
    then show ?thesis by (intro disjI2 exI[of _ k'] exI[of _ v'] exI[of _ b]) simp
  qed
  ultimately show ?case using up[OF b1] by blast
qed auto

lemma fork_stores:
  assumes "validate_fork_block P now bc b = (bc', Ok ())"
  shows "db_get (bc_db bc') (block_key (block_hash b)) = Some (enc_block P b)"
    "h \<noteq> block_hash b \<Longrightarrow> db_get (bc_db bc') (block_key h) = db_get (bc_db bc) (block_key h)"
    "db_get (bc_db bc') (utxo_key t i) = db_get (bc_db bc) (utxo_key t i)"
    "db_get (bc_db bc') tip_key = db_get (bc_db bc) tip_key"
    "db_wf (bc_db bc) \<Longrightarrow> db_wf (bc_db bc')"
proof -
  have e: "bc' = bc\<lparr>bc_db := put_batch (bc_db bc) (Put (block_key (block_hash b)) (enc_block P b)
      # map (\<lambda>tx. Put (tx_key (txid tx)) (enc_tx P tx)) (transactions b))\<rparr>"
    using assms by (auto simp: validate_fork_block_def split: result.splits)
  have t: "batch_view (map (\<lambda>tx. Put (tx_key (txid tx)) (enc_tx P tx)) txs) m k = m k"
    if "\<And>t. k \<noteq> tx_key t" for txs m k
    using that by (intro batch_view_untouched) (metis (no_types, lifting) imageE list.set_map op_key.simps(1))
  show "db_get (bc_db bc') (block_key (block_hash b)) = Some (enc_block P b)"
    "h \<noteq> block_hash b \<Longrightarrow> db_get (bc_db bc') (block_key h) = db_get (bc_db bc) (block_key h)"
    "db_get (bc_db bc') (utxo_key t i) = db_get (bc_db bc) (utxo_key t i)"
    "db_get (bc_db bc') tip_key = db_get (bc_db bc) tip_key"
    "db_wf (bc_db bc) \<Longrightarrow> db_wf (bc_db bc')"
    by (simp_all add: e t)
qed

lemma count_blocks_pos:
  assumes "db_wf (bc_db bc)" "db_get (bc_db bc) (block_key h) \<noteq> None"
  shows "count_blocks bc \<noteq> 0"
proof -
  obtain v where "(block_key h, v) \<in> set (db_iterator (bc_db bc))"
    using assms by (auto simp: db_iterator_iff)
  moreover have "starts_with ''b:'' (block_key h)" by simp
  ultimately show ?thesis unfolding count_blocks_def length_0_conv filter_empty_conv by fastforce
qed

text \<open>
  At start the highest stored block becomes the tip, whether or not it belongs to the chain whose
  outputs are stored. A fork block that is higher than every stored block and that no reorganization
  adopted (it may have been refused for its depth) is the tip after a restart, over the unspent
  outputs of the other chain.
\<close>

theorem restart_adopts_fork:
  assumes "codec_ok P" "db_wf (bc_db bc)" "validate_fork_block P now bc b = (bc', Ok ())"
    and "\<forall>h v b0. db_get (bc_db bc) (block_key h) = Some v \<and> dec_block P v = Some b0 \<longrightarrow>
      index (header b0) < index (header b)"
    and "node_start P (bc_db bc') = Ok nd"
  shows "chain_tip (nd_bc nd) = Some (block_hash b) \<and>
    (\<forall>t i. db_get (bc_db (nd_bc nd)) (utxo_key t i) = db_get (bc_db bc) (utxo_key t i))"
proof -
  note f = fork_stores[OF assms(3)]
  have wf: "db_wf (bc_db bc')" using f(5) assms(2) .
  obtain bc1 where 1: "blockchain_new P (bc_db bc') = Ok bc1"
    "nd_bc nd = (if count_blocks bc1 = 0 then bc1 else fst (recover_tip P bc1))"
    using assms(5) by (auto simp: node_start_def res_simps Let_def)
  have d: "bc_db bc1 = bc_db bc'" using 1(1) by (auto simp: blockchain_new_def res_simps)
  have nd: "nd_bc nd = fst (recover_tip P bc1)"
    using 1(2) count_blocks_pos[of bc1 "block_hash b"] wf f(1) by (simp add: d)
  let ?es = "db_iterator (bc_db bc')"
  note it = db_iterator_iff[OF wf]
  note m = highest_block_max[of P ?es None, OF refl]
  have "(block_key (block_hash b), enc_block P b) \<in> set ?es \<and> dec_block P (enc_block P b) = Some b"
    using f(1) it assms(1) by simp
  then obtain h k where r: "highest_block P ?es None = Some (h, k)" "index (header b) \<le> h"
    using m by blast
  obtain v bk where v: "h = index (header bk)" "db_get (bc_db bc') (block_key k) = Some v" "dec_block P v = Some bk"
    using m r(1) it by auto
  have "k = block_hash b" using f(2)[of k] assms(4) v r(2) by (metis leD)
  then show ?thesis using nd r(1) d f(3) by (simp add: recover_tip_def)
qed

theorem restart_adopts_fork_witness:
  "\<exists>nd. node_start ref_prims (bc_db mint_fork) = Ok nd \<and> chain_tip (nd_bc nd) = Some (block_hash mint_block) \<and>
    db_get (bc_db (nd_bc nd)) (utxo_key ''aa'' 0) = Some (SUtxo sample_utxo)"
proof -
  have "db_get (bc_db mint_fork) tip_key = Some (SText ''g'')"
    using fork_stores(4)[OF mint_fork_eq(1)] by (simp add: sample_chain_def db_get_def)
  then obtain nd where nd: "node_start ref_prims (bc_db mint_fork) = Ok nd"
    by (simp add: node_start_def blockchain_new_def ref_selectors Let_def)
  have "index (header b0) < index (header mint_block)"
    if "db_get (bc_db sample_chain) (block_key h) = Some v \<and> dec_block ref_prims v = Some b0" for h v b0
    using that sample_db(2,4) by (cases "h = ''g''") (auto simp: ref_selectors sample_genesis_def mint_block_def)
  then have "chain_tip (nd_bc nd) = Some (block_hash mint_block) \<and>
      (\<forall>t i. db_get (bc_db (nd_bc nd)) (utxo_key t i) = db_get (bc_db sample_chain) (utxo_key t i))"
    using restart_adopts_fork[OF ref_prims_ok(1) sample_db(1) mint_fork_eq(1) _ nd] by blast
  then show ?thesis using nd sample_db(3) by auto
qed

section \<open>A node with one orphan\<close>

text \<open>A fresh node that receives a block of height 1 first: the block waits for its parent.\<close>

definition fresh_chain :: "stored blockchain" where
  "fresh_chain = \<lparr>bc_db = [], chain_tip = None, bc_difficulty = POW_LIMIT_BITS, block_interval = 60,
     max_reorg_depth = 100, max_future_block_time = 7200, enable_deep_reorg_alerts = True\<rparr>"

definition fresh_node :: "stored node" where
  "fresh_node = \<lparr>nd_bc = fresh_chain, nd_chain = chain_state_default, nd_mempool = mempool_default,
     my_height = 0, mining_active = False, cancel_flag = False, requested = []\<rparr>"

definition early_block :: block where
  "early_block = sample_block 1 []"

definition waiting_node :: "stored node" where
  "waiting_node = fresh_node\<lparr>nd_chain := chain_state_default\<lparr>orphan_blocks := [(block_hash early_block, early_block, 2000)]\<rparr>,
     requested := [''g'']\<rparr>"

lemma fresh_start: "node_start ref_prims [] = Ok fresh_node"
  by (simp add: node_start_def blockchain_new_def db_get_def count_blocks_def db_iterator_def tip_height_def
      fresh_node_def fresh_chain_def)

lemma fresh_reachable: "node_reachable ref_prims relay fresh_node"
  using node_reachable.node_starts[OF fresh_start] .

lemma early_refused: "validate_and_insert_block ref_prims 2000 fresh_chain early_block = (fresh_chain, Err PrevMissing)"
proof -
  have "calculate_adjusted_difficulty ref_prims fresh_chain 1 = Ok POW_LIMIT_BITS"
    by (simp add: calculate_adjusted_difficulty_def RETARGET_WINDOW_def fresh_chain_def)
  moreover have "is_valid_pow ref_prims (block_hash early_block) POW_LIMIT_BITS = Ok True"
    unfolding early_block_def sample_block_hash by (rule sample_pow) simp
  moreover have "validate_against_checkpoints 1 h" for h by (auto simp: validate_against_checkpoints_iff)
  ultimately have "check_header ref_prims fresh_chain early_block = Err PrevMissing"
    by (simp add: check_header_def early_block_def Let_def fresh_chain_def db_get_def)
  then show ?thesis by (simp add: validate_and_insert_block_def fresh_chain_def db_get_def)
qed

lemma early_text:
  "\<not> contains ''fork detected'' (error_msg PrevMissing ''g'')"
  "contains ''previous header not found'' (error_msg PrevMissing ''g'')"
  by (simp_all add: error_msg_def starts_with_def)

lemma early_waits: "process_block ref_prims (\<lambda>xs. xs) 2000 False ''g'' early_block fresh_node = Some waiting_node"
proof -
  have s: "store_orphan (\<lambda>xs. xs) 2000 0 early_block chain_state_default =
      chain_state_default\<lparr>orphan_blocks := [(block_hash early_block, early_block, 2000)]\<rparr>"
    by (simp add: store_orphan_def evict_orphans_def node_limits chain_state_default_def Let_def)
  have l: "load_block ref_prims fresh_chain h = Ok None" for h
    by (simp add: load_block_def fresh_chain_def db_get_def)
  let ?nd = "fresh_node\<lparr>nd_chain := chain_state_default\<lparr>orphan_blocks := [(block_hash early_block, early_block, 2000)]\<rparr>\<rparr>"
  have "orphan_loop ref_prims (\<lambda>xs. xs) 2000 (Suc 99) ?nd = Some ?nd"
    unfolding orphan_loop.simps(2)
    by (simp add: orphan_pass_def try_orphan_def hm_entries_def fresh_node_def l del: orphan_loop.simps)
  then have po: "process_orphan_blocks ref_prims (\<lambda>xs. xs) 2000 ?nd = Some ?nd"
    by (simp add: process_orphan_blocks_def fresh_node_def i64_def del: orphan_loop.simps)
  have v: "validate_and_insert_block ref_prims 2000 (nd_bc fresh_node) early_block = (fresh_chain, Err PrevMissing)"
    using early_refused by (simp add: fresh_node_def)
  have fresh: "cancelled ref_prims False early_block fresh_node = fresh_node"
    "fresh_node\<lparr>nd_bc := fresh_chain\<rparr> = fresh_node" "nd_chain fresh_node = chain_state_default"
    "nd_bc fresh_node = fresh_chain" "next_height ref_prims fresh_chain = 0" "db_get (bc_db fresh_chain) k = None"
    "hm_get (recently_mined_blocks chain_state_default) h = None" for k h
    by (simp_all add: cancelled_def fresh_node_def next_height_def fresh_chain_def db_get_def chain_state_default_def)
  have "index (header early_block) = 1" "previous_hash (header early_block) = ''g''"
    by (simp_all add: early_block_def)
  then show ?thesis
    unfolding process_block_eq[OF v] Let_def fresh on_orphan_def s po
    by (simp add: waiting_node_def early_text) (simp add: fresh_node_def)
qed

lemma waiting_reachable: "node_reachable ref_prims relay waiting_node"
  using node_reachable.node_moves[OF fresh_reachable node_step.block_arrives[OF arranges_id early_waits]] .

theorem node_invariant_witness:
  "node_reachable ref_prims False waiting_node \<and> length (orphan_blocks (nd_chain waiting_node)) = 1 \<and>
   length (orphan_blocks (nd_chain waiting_node)) \<le> 100"
  using node_invariant[OF ref_prims_ok(1) waiting_reachable[of False]] waiting_reachable[of False]
  by (simp add: waiting_node_def)

theorem orphans_settled_witness:
  "process_block ref_prims (\<lambda>xs. xs) 2000 False ''g'' early_block fresh_node = Some waiting_node \<and>
   ((\<forall>p. load_block ref_prims (nd_bc waiting_node) ''g'' \<noteq> Ok (Some p)) \<or>
    (\<exists>e. validate_and_insert_block ref_prims 2000 (nd_bc waiting_node) early_block = (nd_bc waiting_node, Err e)))"
proof -
  have v: "validate_and_insert_block ref_prims 2000 (nd_bc fresh_node) early_block = (fresh_chain, Err PrevMissing)"
    using early_refused by (simp add: fresh_node_def)
  have "index (header early_block) \<le> next_height ref_prims (nd_bc fresh_node) + 1000"
    by (simp add: early_block_def fresh_node_def fresh_chain_def next_height_def)
  moreover have "hm_get (recently_mined_blocks (nd_chain fresh_node)) h = None"
    "db_get (bc_db (nd_bc fresh_node)) k = None" for h k
    by (simp_all add: fresh_node_def chain_state_default_def fresh_chain_def db_get_def)
  moreover have "(block_hash early_block, early_block, 2000) \<in> set (orphan_blocks (nd_chain waiting_node))"
    by (simp add: waiting_node_def)
  moreover have "previous_hash (header early_block) = ''g''" by (simp add: early_block_def)
  ultimately have "(\<forall>p. load_block ref_prims (nd_bc waiting_node) ''g'' \<noteq> Ok (Some p)) \<or>
    (\<exists>e. validate_and_insert_block ref_prims 2000 (nd_bc waiting_node) early_block = (nd_bc waiting_node, Err e))"
    using orphans_settled[OF ref_prims_ok(1) arranges_id fresh_reachable[of False] early_waits _ _ v,
      of "block_hash early_block" early_block 2000] early_text(1) by simp
  then show ?thesis using early_waits by blast
qed

theorem sync_resumes_at_tip_witness:
  "\<exists>l. chain_locator ref_prims (nd_bc waiting_node) = Some l \<and> length l \<le> 10"
  using sync_resumes_at_tip[OF ref_prims_ok(1,3) waiting_reachable[of False]] by blast

end
