(* ===== verification/Peers.thy ===== *)
theory Peers
  imports Node
begin

text \<open>
  The peer manager of \<open>node/src/p2p/manager.rs\<close> with the messages of \<open>messages.rs\<close>: the network's
  identity, who may connect, the handshake, and the handling of every message, whose callbacks are
  the functions of theory \<open>Node\<close> that \<open>register_handlers\<close> installs. A message that is put into the
  channel of a peer is appended to \<open>outbox\<close>. Blocks and transactions are handed on as events.
  An \<open>Instant\<close> is a number of milliseconds; \<open>elapsed\<close> never is negative. What the standard library
  makes of an address text (\<open>SocketAddr\<close>: its IP as text, whether that is a loopback address, and the
  port) is the argument \<open>sock\<close>; about it nothing is assumed. A connection is tested, entered and
  registered in three steps, between which anything may happen, since the code takes its locks anew
  for each of them; the handling of a message is one step.
\<close>

section \<open>Network identity\<close>

definition MAINNET_NETWORK_ID :: string where
  "MAINNET_NETWORK_ID = ''Astram-mainnet''"

definition TESTNET_NETWORK_ID :: string where
  "TESTNET_NETWORK_ID = ''Astram-testnet''"

definition MAINNET_CHAIN_ID :: u64 where
  "MAINNET_CHAIN_ID = 1"

definition TESTNET_CHAIN_ID :: u64 where
  "TESTNET_CHAIN_ID = 8888"

definition MAINNET_NETWORK_MAGIC :: u32 where
  "MAINNET_NETWORK_MAGIC = 0xA57A0001"

definition TESTNET_NETWORK_MAGIC :: u32 where
  "TESTNET_NETWORK_MAGIC = 0xA57A22B8"

definition PROTOCOL_VERSION :: u32 where
  "PROTOCOL_VERSION = 1"

definition parse_network_magic :: "string \<Rightarrow> u32 option" where
  "parse_network_magic value =
     (let trimmed = trim value in
      if trimmed = [] then None
      else
        (case (case strip_prefix ''0x'' trimmed of Some h \<Rightarrow> Some h | None \<Rightarrow> strip_prefix ''0X'' trimmed) of
           Some h \<Rightarrow> map_option of_nat (from_str_radix 32 16 h)
         | None \<Rightarrow>
             (case (if length trimmed = 8 \<and> list_all (\<lambda>c. hex_val c \<noteq> None) trimmed
                    then from_str_radix 32 16 trimmed else None) of
                Some n \<Rightarrow> Some (of_nat n)
              | None \<Rightarrow> map_option of_nat (from_str_radix 32 10 trimmed))))"

text \<open>
  The identity of the network. \<open>debug\<close> is a debug build, \<open>env\<close> the environment; a release build is
  always on the main network.
\<close>

definition on_testnet :: "(string \<rightharpoonup> string) \<Rightarrow> bool" where
  "on_testnet env \<longleftrightarrow>
     to_lowercase (case env ''ASTRAM_NETWORK'' of Some v \<Rightarrow> v | None \<Rightarrow> ''mainnet'') = ''testnet''"

definition resolve_network_id :: "bool \<Rightarrow> (string \<rightharpoonup> string) \<Rightarrow> string" where
  "resolve_network_id debug env =
     (if debug
      then
        (case env ''ASTRAM_NETWORK_ID'' of
           Some value \<Rightarrow>
             if trim value \<noteq> [] then trim value
             else if on_testnet env then TESTNET_NETWORK_ID else MAINNET_NETWORK_ID
         | None \<Rightarrow> if on_testnet env then TESTNET_NETWORK_ID else MAINNET_NETWORK_ID)
      else MAINNET_NETWORK_ID)"

definition resolve_chain_id :: "bool \<Rightarrow> (string \<rightharpoonup> string) \<Rightarrow> u64" where
  "resolve_chain_id debug env =
     (if debug
      then
        (case Option.bind (env ''ASTRAM_CHAIN_ID'') (\<lambda>value. from_str_radix 64 10 (trim value)) of
           Some parsed \<Rightarrow> of_nat parsed
         | None \<Rightarrow> if on_testnet env then TESTNET_CHAIN_ID else MAINNET_CHAIN_ID)
      else MAINNET_CHAIN_ID)"

definition resolve_network_magic :: "bool \<Rightarrow> (string \<rightharpoonup> string) \<Rightarrow> u32" where
  "resolve_network_magic debug env =
     (if debug
      then
        (case Option.bind (env ''ASTRAM_NETWORK_MAGIC'') parse_network_magic of
           Some parsed \<Rightarrow> parsed
         | None \<Rightarrow> if on_testnet env then TESTNET_NETWORK_MAGIC else MAINNET_NETWORK_MAGIC)
      else MAINNET_NETWORK_MAGIC)"

section \<open>Messages and state\<close>

record handshake_info =
  protocol_version :: u32
  software_version :: string
  supported_features :: "string list"
  network_id :: string
  chain_id :: u64
  network_magic :: u32
  hs_height :: u64
  listening_port :: "16 word"

datatype inventory_type = InvError | InvTransaction | InvBlock

datatype p2p_message =
    Handshake handshake_info
  | HandshakeAck handshake_info
  | Version string u64
  | VerAck
  | GetHeaders "bytes list" "bytes option"
  | Headers "block_header list"
  | Inv inventory_type "bytes list"
  | GetData inventory_type "bytes list"
  | BlockMsg block
  | TxMsg transaction
  | Ping u64
  | Pong u64

record peer_manager =
  peers :: "unit hash_map"
  outbox :: "(string \<times> p2p_message) list"
  peer_heights :: "u64 hash_map"
  peer_handshakes :: "handshake_info hash_map"
  peer_ips :: "string list hash_map"
  pm_height :: u64
  my_listening_port :: "16 word"
  my_bind_addr :: string
  my_public_ip :: "string option"
  is_syncing :: bool
  pending_header_requests :: "nat hash_map"
  sync_blacklist :: "nat hash_map"
  last_block_received_at :: u64

definition manager_new :: peer_manager where
  "manager_new = \<lparr>peers = [], outbox = [], peer_heights = [], peer_handshakes = [], peer_ips = [],
     pm_height = 0, my_listening_port = 8335, my_bind_addr = ''0.0.0.0'', my_public_ip = None,
     is_syncing = False, pending_header_requests = [], sync_blacklist = [], last_block_received_at = 0\<rparr>"

record net_identity =
  my_network_id :: string
  my_chain_id :: u64
  my_network_magic :: u32
  my_software_version :: string

definition connected :: "string \<Rightarrow> peer_manager \<Rightarrow> bool" where
  "connected p m \<longleftrightarrow> hm_get (peers m) p \<noteq> None"

text \<open>\<open>if let Some(tx) = self.peers.lock().get(&peer_id) { tx.send(msg) }\<close>\<close>

definition send_to_peer :: "string \<Rightarrow> p2p_message \<Rightarrow> peer_manager \<Rightarrow> peer_manager" where
  "send_to_peer p msg m = (if connected p m then m\<lparr>outbox := outbox m @ [(p, msg)]\<rparr> else m)"

definition disconnect_peer :: "string \<Rightarrow> peer_manager \<Rightarrow> peer_manager" where
  "disconnect_peer p m =
     m\<lparr>peers := hm_remove p (peers m), peer_heights := hm_remove p (peer_heights m),
       peer_handshakes := hm_remove p (peer_handshakes m)\<rparr>"

section \<open>Who may connect\<close>

definition MAX_PEERS_PER_IP :: nat where "MAX_PEERS_PER_IP = 3"

definition MAX_PEERS_PER_SUBNET_24 :: nat where "MAX_PEERS_PER_SUBNET_24 = 2"

definition MAX_PEERS_PER_SUBNET_16 :: nat where "MAX_PEERS_PER_SUBNET_16 = 4"

definition MAX_INV_PER_MESSAGE :: nat where "MAX_INV_PER_MESSAGE = 50000"

definition peer_ip_of :: "string \<Rightarrow> string" where
  "peer_ip_of peer_id = takeWhile (\<lambda>c. c \<noteq> CHR '':'') peer_id"

definition get_subnet_prefixes :: "string \<Rightarrow> (string \<times> string) option" where
  "get_subnet_prefixes ip =
     (case split_on (CHR ''.'') ip of
        a # b # c # _ \<Rightarrow> Some (a @ ''.'' @ b @ ''.'' @ c, a @ ''.'' @ b)
      | _ \<Rightarrow> None)"

definition subnet_24_count :: "string \<Rightarrow> string list \<Rightarrow> nat" where
  "subnet_24_count s ips = length (filter (\<lambda>ip. map_option fst (get_subnet_prefixes ip) = Some s) ips)"

definition subnet_16_count :: "string \<Rightarrow> string list \<Rightarrow> nat" where
  "subnet_16_count s ips = length (filter (\<lambda>ip. map_option snd (get_subnet_prefixes ip) = Some s) ips)"

definition check_subnet_diversity :: "string \<Rightarrow> peer_manager \<Rightarrow> bool" where
  "check_subnet_diversity ip m =
     (case get_subnet_prefixes ip of
        None \<Rightarrow> True
      | Some (subnet_24, subnet_16) \<Rightarrow>
          if subnet_24_count subnet_24 (hm_keys (peer_ips m)) \<ge> MAX_PEERS_PER_SUBNET_24 then False
          else if subnet_16_count subnet_16 (hm_keys (peer_ips m)) \<ge> MAX_PEERS_PER_SUBNET_16 then False
          else True)"

definition get_subnet_diversity_stats :: "peer_manager \<Rightarrow> nat \<times> nat" where
  "get_subnet_diversity_stats m =
     (let ps = List.map_filter get_subnet_prefixes (hm_keys (peer_ips m))
      in (length (remdups (map fst ps)), length (remdups (map snd ps))))"

definition my_handshake :: "net_identity \<Rightarrow> peer_manager \<Rightarrow> handshake_info" where
  "my_handshake net m = \<lparr>protocol_version = PROTOCOL_VERSION, software_version = my_software_version net,
     supported_features = [''blocks'', ''transactions'', ''headers''], network_id = my_network_id net,
     chain_id = my_chain_id net, network_magic = my_network_magic net, hs_height = pm_height m,
     listening_port = my_listening_port m\<rparr>"

text \<open>
  What \<open>spawn_peer_loop\<close> does up to the start of the two tasks: the sender is entered under one lock,
  the address under another, and then the handshake is sent.
\<close>

definition enter_peer :: "string \<Rightarrow> peer_manager \<Rightarrow> peer_manager" where
  "enter_peer peer_id m = m\<lparr>peers := hm_insert peer_id () (peers m)\<rparr>"

definition register_peer :: "net_identity \<Rightarrow> string \<Rightarrow> peer_manager \<Rightarrow> peer_manager" where
  "register_peer net peer_id m =
     (let peer_ip = peer_ip_of peer_id;
          m2 = m\<lparr>peer_ips := hm_insert peer_ip (get_or [] (peer_ips m) peer_ip @ [peer_id]) (peer_ips m)\<rparr>
      in send_to_peer peer_id (Handshake (my_handshake net m2)) m2)"

definition spawn_peer_loop :: "net_identity \<Rightarrow> string \<Rightarrow> peer_manager \<Rightarrow> peer_manager" where
  "spawn_peer_loop net peer_id m =
     (if connected peer_id m then m else register_peer net peer_id (enter_peer peer_id m))"

text \<open>The test of an incoming connection, made under one lock, and the whole of \<open>handle_incoming\<close>.\<close>

definition admits :: "string \<Rightarrow> peer_manager \<Rightarrow> bool" where
  "admits peer_id m =
     (let peer_ip = peer_ip_of peer_id;
          peer_count = length (get_or [] (peer_ips m) peer_ip)
      in if peer_count \<ge> MAX_PEERS_PER_IP then False else check_subnet_diversity peer_ip m)"

definition handle_incoming :: "net_identity \<Rightarrow> string \<Rightarrow> peer_manager \<Rightarrow> peer_manager" where
  "handle_incoming net peer_id m = (if admits peer_id m then spawn_peer_loop net peer_id m else m)"

text \<open>The end of a connection: what happens when the first of the two tasks ends.\<close>

definition peer_closed :: "string \<Rightarrow> peer_manager \<Rightarrow> peer_manager" where
  "peer_closed peer_id m =
     (let m1 = disconnect_peer peer_id m; peer_ip = peer_ip_of peer_id
      in case hm_get (peer_ips m1) peer_ip of
           None \<Rightarrow> m1
         | Some peer_list \<Rightarrow>
             let rest = filter (\<lambda>i. i \<noteq> peer_id) peer_list
             in if rest = [] then m1\<lparr>peer_ips := hm_remove peer_ip (peer_ips m1)\<rparr>
                else m1\<lparr>peer_ips := hm_insert peer_ip rest (peer_ips m1)\<rparr>)"

section \<open>Self-connections and outbound connections\<close>

definition is_self_connection :: "(string \<Rightarrow> (string \<times> bool \<times> 16 word) option) \<Rightarrow> peer_manager
    \<Rightarrow> string \<Rightarrow> 16 word \<Rightarrow> bool" where
  "is_self_connection sock m peer_id peer_listening_port =
     (if peer_listening_port \<noteq> my_listening_port m then False
      else
        (case sock peer_id of
           None \<Rightarrow> False
         | Some (peer_ip, loopback, _) \<Rightarrow>
             if my_public_ip m = Some peer_ip then True
             else
               let is_wildcard_bind = (my_bind_addr m = ''0.0.0.0'' \<or> my_bind_addr m = ''::'')
               in if \<not> is_wildcard_bind \<and> my_bind_addr m \<noteq> [] \<and> peer_ip = my_bind_addr m then True
                  else loopback))"

definition rsplit_colon :: "string \<Rightarrow> (string \<times> string) option" where
  "rsplit_colon s =
     (let r = rev s; after = takeWhile (\<lambda>c. c \<noteq> CHR '':'') r; rest = dropWhile (\<lambda>c. c \<noteq> CHR '':'') r
      in case rest of [] \<Rightarrow> None | _ # before \<Rightarrow> Some (rev before, rev after))"

definition trim_brackets :: "string \<Rightarrow> string" where
  "trim_brackets s = (let b = (\<lambda>c. c = CHR ''['' \<or> c = CHR '']'') in rev (dropWhile b (rev (dropWhile b s))))"

definition local_text :: "peer_manager \<Rightarrow> string \<Rightarrow> bool" where
  "local_text m addr =
     (case rsplit_colon addr of
        None \<Rightarrow> False
      | Some (host, port_str) \<Rightarrow>
          (case from_str_radix 16 10 port_str of
             None \<Rightarrow> False
           | Some port \<Rightarrow>
               (of_nat port :: 16 word) = my_listening_port m \<and>
               (let host_trimmed = trim_brackets (trim host)
                in to_lowercase host_trimmed = ''localhost'' \<or> host_trimmed = ''127.0.0.1'' \<or> host_trimmed = ''::1'')))"

definition own_socket :: "(string \<Rightarrow> (string \<times> bool \<times> 16 word) option) \<Rightarrow> peer_manager \<Rightarrow> string \<Rightarrow> bool" where
  "own_socket sock m addr =
     (case sock addr of
        None \<Rightarrow> False
      | Some (peer_ip, loopback, port) \<Rightarrow>
          port = my_listening_port m \<and>
          (loopback \<or> my_public_ip m = Some peer_ip \<or>
           (let is_wildcard_bind = (my_bind_addr m = ''0.0.0.0'' \<or> my_bind_addr m = ''::'')
            in \<not> is_wildcard_bind \<and> my_bind_addr m \<noteq> [] \<and> peer_ip = my_bind_addr m)))"

text \<open>The tests of \<open>connect_peer\<close>, and the whole; \<open>reached\<close> says that the TCP connection succeeds.\<close>

definition may_connect :: "(string \<Rightarrow> (string \<times> bool \<times> 16 word) option) \<Rightarrow> peer_manager \<Rightarrow> string \<Rightarrow> bool" where
  "may_connect sock m addr =
     (if local_text m addr then False else if own_socket sock m addr then False else \<not> connected addr m)"

definition connect_peer :: "(string \<Rightarrow> (string \<times> bool \<times> 16 word) option) \<Rightarrow> net_identity \<Rightarrow> bool \<Rightarrow> string
    \<Rightarrow> peer_manager \<Rightarrow> peer_manager" where
  "connect_peer sock net reached addr m =
     (if \<not> may_connect sock m addr then m else if \<not> reached then m else spawn_peer_loop net addr m)"

section \<open>Messages\<close>

datatype node_event = NoEvent | BlockIn block | TxIn transaction

definition compatible :: "net_identity \<Rightarrow> handshake_info \<Rightarrow> bool" where
  "compatible net info \<longleftrightarrow> protocol_version info = PROTOCOL_VERSION \<and> network_magic info = my_network_magic net \<and>
     network_id info = my_network_id net \<and> chain_id info = my_chain_id net"

text \<open>A request for headers from the node's own locator; the locator is built only for a connected peer.\<close>

definition ask_headers :: "'v prims \<Rightarrow> 'v blockchain \<Rightarrow> string \<Rightarrow> peer_manager \<Rightarrow> peer_manager option" where
  "ask_headers P bc p m =
     (if connected p m
      then map_option (\<lambda>locator. send_to_peer p (GetHeaders locator None) m) (chain_locator P bc)
      else Some m)"

definition store_handshake :: "string \<Rightarrow> handshake_info \<Rightarrow> peer_manager \<Rightarrow> peer_manager" where
  "store_handshake p info m =
     m\<lparr>peer_heights := hm_insert p (hs_height info) (peer_heights m),
       peer_handshakes := hm_insert p info (peer_handshakes m)\<rparr>"

definition on_handshake :: "'v prims \<Rightarrow> (string \<Rightarrow> (string \<times> bool \<times> 16 word) option) \<Rightarrow> net_identity
    \<Rightarrow> 'v blockchain \<Rightarrow> string \<Rightarrow> handshake_info \<Rightarrow> peer_manager \<Rightarrow> peer_manager option" where
  "on_handshake P sock net bc p info m =
     (if \<not> compatible net info then Some (disconnect_peer p m)
      else if is_self_connection sock m p (listening_port info) then Some (disconnect_peer p m)
      else
        let m1 = store_handshake p info m
        in ask_headers P bc p (send_to_peer p (HandshakeAck (my_handshake net m1)) m1))"

definition on_handshake_ack :: "(string \<Rightarrow> (string \<times> bool \<times> 16 word) option) \<Rightarrow> net_identity
    \<Rightarrow> string \<Rightarrow> handshake_info \<Rightarrow> peer_manager \<Rightarrow> peer_manager" where
  "on_handshake_ack sock net p info m =
     (if \<not> compatible net info then disconnect_peer p m
      else if is_self_connection sock m p (listening_port info) then disconnect_peer p m
      else store_handshake p info m)"

definition on_version :: "'v prims \<Rightarrow> 'v blockchain \<Rightarrow> string \<Rightarrow> u64 \<Rightarrow> peer_manager \<Rightarrow> peer_manager option" where
  "on_version P bc p height m =
     (let prev_height = get_or 0 (peer_heights m) p;
          m1 = (if prev_height > 0 \<and> height = 0 then m
                else m\<lparr>peer_heights := hm_insert p height (peer_heights m)\<rparr>)
      in ask_headers P bc p (send_to_peer p VerAck m1))"

text \<open>The blocks of an answer that are not stored yet.\<close>

definition wanted :: "'v prims \<Rightarrow> (string \<Rightarrow> bool) \<Rightarrow> block_header list \<Rightarrow> bytes list" where
  "wanted P known headers =
     List.map_filter (\<lambda>hdr. let hash_hex = compute_header_hash P hdr
       in if known hash_hex then None else hex_decode P hash_hex) headers"

definition on_headers_msg :: "'v prims \<Rightarrow> (string \<Rightarrow> bool) \<Rightarrow> 'v blockchain \<Rightarrow> string \<Rightarrow> block_header list
    \<Rightarrow> peer_manager \<Rightarrow> peer_manager" where
  "on_headers_msg P busy bc p headers m =
     (let m1 = m\<lparr>pending_header_requests := hm_remove p (pending_header_requests m)\<rparr> in
      if headers = [] then m1
      else if \<not> on_headers P bc headers then disconnect_peer p m1
      else
        let reported_height = index (last headers) + 1;
            current = get_or 0 (peer_heights m1) p;
            m2 = (if reported_height > current
                  then m1\<lparr>peer_heights := hm_insert p reported_height (peer_heights m1)\<rparr> else m1);
            hashes = wanted P (\<lambda>h. check_block_exists (busy h) bc h) headers
        in if hashes \<noteq> [] then send_to_peer p (GetData InvBlock hashes) m2 else m2)"

definition on_inv :: "string \<Rightarrow> inventory_type \<Rightarrow> bytes list \<Rightarrow> peer_manager \<Rightarrow> peer_manager" where
  "on_inv p object_type hashes m =
     (if length hashes > MAX_INV_PER_MESSAGE then m
      else if is_syncing m then m
      else send_to_peer p (GetData object_type hashes) m)"

definition on_getdata_msg :: "'v prims \<Rightarrow> 'v blockchain \<Rightarrow> string \<Rightarrow> inventory_type \<Rightarrow> bytes list
    \<Rightarrow> peer_manager \<Rightarrow> peer_manager" where
  "on_getdata_msg P bc p object_type hashes m =
     (if length hashes > MAX_INV_PER_MESSAGE then m
      else
        (case object_type of
           InvBlock \<Rightarrow> fold (\<lambda>b. send_to_peer p (BlockMsg b)) (on_getdata P bc hashes) m
         | InvTransaction \<Rightarrow> m
         | InvError \<Rightarrow> m))"

text \<open>
  \<open>handle_message\<close>. \<open>busy\<close> says for which hash the attempt to lock the chain fails; \<^const>\<open>None\<close> is a
  callback that does not return, or the panic of slicing an identifier shorter than eight bytes.
\<close>

definition handle_message :: "'v prims \<Rightarrow> (string \<Rightarrow> (string \<times> bool \<times> 16 word) option) \<Rightarrow> net_identity
    \<Rightarrow> u64 \<Rightarrow> (string \<Rightarrow> bool) \<Rightarrow> 'v blockchain \<Rightarrow> string \<Rightarrow> p2p_message \<Rightarrow> peer_manager
    \<Rightarrow> (peer_manager \<times> node_event) option" where
  "handle_message P sock net now_secs busy bc p msg m =
     (case msg of
        Handshake info \<Rightarrow> map_option (\<lambda>m'. (m', NoEvent)) (on_handshake P sock net bc p info m)
      | HandshakeAck info \<Rightarrow> Some (on_handshake_ack sock net p info m, NoEvent)
      | Version version height \<Rightarrow> map_option (\<lambda>m'. (m', NoEvent)) (on_version P bc p height m)
      | VerAck \<Rightarrow> Some (m, NoEvent)
      | GetHeaders locator_hashes stop_hash \<Rightarrow>
          map_option (\<lambda>headers. (send_to_peer p (Headers headers) m, NoEvent)) (on_getheaders P bc locator_hashes)
      | Headers headers \<Rightarrow> Some (on_headers_msg P busy bc p headers m, NoEvent)
      | Inv object_type hashes \<Rightarrow> Some (on_inv p object_type hashes m, NoEvent)
      | GetData object_type hashes \<Rightarrow> Some (on_getdata_msg P bc p object_type hashes m, NoEvent)
      | BlockMsg block \<Rightarrow> Some (m\<lparr>last_block_received_at := now_secs\<rparr>, BlockIn block)
      | TxMsg tx \<Rightarrow> if length (txid tx) < 8 then None else Some (m, TxIn tx)
      | Ping n \<Rightarrow> Some (send_to_peer p (Pong n) m, NoEvent)
      | Pong n \<Rightarrow> Some (m, NoEvent))"

text \<open>
  The frame around a message: four bytes of magic, big-endian, and a payload that must not be empty.
  \<^const>\<open>None\<close> ends the connection.
\<close>

definition read_frame :: "u32 \<Rightarrow> bytes \<Rightarrow> bytes option" where
  "read_frame magic frame =
     (if length frame < 4 then None
      else if be_value (take 4 frame) \<noteq> unat magic then None
      else if drop 4 frame = [] then None
      else Some (drop 4 frame))"

definition write_frame :: "u32 \<Rightarrow> bytes \<Rightarrow> bytes" where
  "write_frame magic payload = rev (to_le_bytes 4 (unat magic)) @ payload"

section \<open>Broadcasts and requests\<close>

definition broadcast :: "(string list \<Rightarrow> string list) \<Rightarrow> p2p_message \<Rightarrow> peer_manager \<Rightarrow> peer_manager" where
  "broadcast ord msg m = m\<lparr>outbox := outbox m @ map (\<lambda>p. (p, msg)) (ord (hm_keys (peers m)))\<rparr>"

definition broadcast_inv :: "(string list \<Rightarrow> string list) \<Rightarrow> inventory_type \<Rightarrow> bytes list \<Rightarrow> peer_manager \<Rightarrow> peer_manager" where
  "broadcast_inv ord object_type hashes = broadcast ord (Inv object_type hashes)"

definition broadcast_block :: "(string list \<Rightarrow> string list) \<Rightarrow> block \<Rightarrow> peer_manager \<Rightarrow> peer_manager" where
  "broadcast_block ord b = broadcast ord (BlockMsg b)"

definition broadcast_tx :: "(string list \<Rightarrow> string list) \<Rightarrow> transaction \<Rightarrow> peer_manager \<Rightarrow> peer_manager" where
  "broadcast_tx ord tx = broadcast ord (TxMsg tx)"

definition broadcast_ping :: "(string list \<Rightarrow> string list) \<Rightarrow> u64 \<Rightarrow> peer_manager \<Rightarrow> peer_manager" where
  "broadcast_ping ord n = broadcast ord (Ping n)"

definition request_block_by_hash :: "'v prims \<Rightarrow> (string list \<Rightarrow> string list) \<Rightarrow> string \<Rightarrow> peer_manager \<Rightarrow> peer_manager" where
  "request_block_by_hash P ord hash m =
     (case hex_decode P hash of
        Some hash_bytes \<Rightarrow> broadcast ord (GetData InvBlock [hash_bytes]) m
      | None \<Rightarrow> m)"

definition request_headers_from_peers :: "(string list \<Rightarrow> string list) \<Rightarrow> nat \<Rightarrow> bytes list \<Rightarrow> bytes option
    \<Rightarrow> peer_manager \<Rightarrow> peer_manager" where
  "request_headers_from_peers ord now locator_hashes stop_hash m =
     (let m1 = m\<lparr>pending_header_requests :=
            fold (\<lambda>p pend. if hm_get pend p = None then hm_insert p now pend else pend)
              (ord (hm_keys (peers m))) (pending_header_requests m)\<rparr>
      in broadcast ord (GetHeaders locator_hashes stop_hash) m1)"

definition request_headers_from_peer :: "nat \<Rightarrow> string \<Rightarrow> bytes list \<Rightarrow> bytes option \<Rightarrow> peer_manager \<Rightarrow> peer_manager" where
  "request_headers_from_peer now p locator_hashes stop_hash m =
     (if connected p m
      then send_to_peer p (GetHeaders locator_hashes stop_hash)
             (m\<lparr>pending_header_requests := hm_insert p now (pending_header_requests m)\<rparr>)
      else m)"

definition take_timed_out_header_peers :: "nat \<Rightarrow> nat \<Rightarrow> peer_manager \<Rightarrow> peer_manager \<times> string list" where
  "take_timed_out_header_peers timeout now m =
     (let timed_out = map fst (filter (\<lambda>(_, t). now - t \<ge> timeout) (pending_header_requests m))
      in (m\<lparr>pending_header_requests := fold hm_remove timed_out (pending_header_requests m)\<rparr>, timed_out))"

section \<open>Choice of a peer for synchronisation\<close>

definition get_last_block_received_secs_ago :: "u64 \<Rightarrow> peer_manager \<Rightarrow> u64" where
  "get_last_block_received_secs_ago now m =
     (if last_block_received_at m = 0 then - 1 else sat_sub now (last_block_received_at m))"

definition ban_sync_peer :: "nat \<Rightarrow> string \<Rightarrow> peer_manager \<Rightarrow> peer_manager" where
  "ban_sync_peer now p m = m\<lparr>sync_blacklist := hm_insert p now (sync_blacklist m)\<rparr>"

definition is_sync_banned :: "nat \<Rightarrow> nat \<Rightarrow> string \<Rightarrow> peer_manager \<Rightarrow> bool" where
  "is_sync_banned ban_duration now p m =
     (case hm_get (sync_blacklist m) p of Some t \<Rightarrow> now - t < ban_duration | None \<Rightarrow> False)"

definition cleanup_sync_bans :: "nat \<Rightarrow> nat \<Rightarrow> peer_manager \<Rightarrow> peer_manager" where
  "cleanup_sync_bans ban_duration now m =
     m\<lparr>sync_blacklist := filter (\<lambda>(_, t). now - t < ban_duration) (sync_blacklist m)\<rparr>"

text \<open>\<open>max_by_key\<close>: the last of the greatest.\<close>

fun max_by_height :: "(string \<times> u64) list \<Rightarrow> (string \<times> u64) option" where
  "max_by_height [] = None"
| "max_by_height (x # xs) = Some (fold (\<lambda>y best. if snd y \<ge> snd best then y else best) xs x)"

definition eligible :: "nat \<Rightarrow> nat \<Rightarrow> peer_manager \<Rightarrow> string \<Rightarrow> bool" where
  "eligible ban_duration now m p \<longleftrightarrow> connected p m \<and>
     (case hm_get (sync_blacklist m) p of None \<Rightarrow> True | Some t \<Rightarrow> now - t \<ge> ban_duration)"

definition get_best_sync_peer :: "((string \<times> u64) list \<Rightarrow> (string \<times> u64) list) \<Rightarrow> nat \<Rightarrow> nat
    \<Rightarrow> peer_manager \<Rightarrow> (string \<times> u64) option" where
  "get_best_sync_peer ord ban_duration now m =
     max_by_height (filter (\<lambda>(p, _). eligible ban_duration now m p) (ord (hm_entries (peer_heights m))))"

definition get_peer_heights :: "peer_manager \<Rightarrow> u64 hash_map" where
  "get_peer_heights m = filter (\<lambda>(p, _). connected p m) (peer_heights m)"

definition get_connected_peer_count :: "peer_manager \<Rightarrow> nat" where
  "get_connected_peer_count m = length (peers m)"

text \<open>\<open>contended\<close>: one of the locks is held elsewhere.\<close>

definition try_get_status_snapshot :: "bool \<Rightarrow> peer_manager \<Rightarrow> (u64 hash_map \<times> u64 \<times> nat \<times> nat) option" where
  "try_get_status_snapshot contended m =
     (if contended then None
      else Some (filter (\<lambda>(p, _). connected p m) (peer_heights m), pm_height m, get_subnet_diversity_stats m))"

definition set_syncing :: "bool \<Rightarrow> peer_manager \<Rightarrow> peer_manager" where
  "set_syncing b m = m\<lparr>is_syncing := b\<rparr>"

section \<open>The manager as a state machine\<close>

text \<open>
  A step of a connected node: one message of a peer, the end of a connection, one request or
  broadcast of the node, or a change of the node's own settings.
\<close>

inductive peers_step :: "'v prims \<Rightarrow> (string \<Rightarrow> (string \<times> bool \<times> 16 word) option) \<Rightarrow> net_identity
    \<Rightarrow> peer_manager \<Rightarrow> peer_manager \<Rightarrow> bool" for P sock net where
  message: "handle_message P sock net now_secs busy bc p msg m = Some (m', ev) \<Longrightarrow> peers_step P sock net m m'"
| closes: "peers_step P sock net m (peer_closed p m)"
| broadcasts: "peers_step P sock net m (broadcast ord msg m)"
| asks_all: "peers_step P sock net m (request_headers_from_peers ord now loc stop m)"
| asks_one: "peers_step P sock net m (request_headers_from_peer now p loc stop m)"
| asks_block: "peers_step P sock net m (request_block_by_hash P ord h m)"
| times_out: "take_timed_out_header_peers timeout now m = (m', ps) \<Longrightarrow> peers_step P sock net m m'"
| bans: "peers_step P sock net m (ban_sync_peer now p m)"
| unbans: "peers_step P sock net m (cleanup_sync_bans d now m)"
| syncs: "peers_step P sock net m (set_syncing b m)"
| settings: "peers_step P sock net m
    (m\<lparr>pm_height := h, my_listening_port := port, my_bind_addr := addr, my_public_ip := ip\<rparr>)"

text \<open>
  The states of the manager with the connections in flight: \<open>adm\<close> are tested and not yet entered,
  \<open>half\<close> are entered and not yet registered. A connection in \<open>adm\<close> may be given up (it is a duplicate,
  or it breaks). \<open>c\<close> bounds the incoming connections in flight at a time; \<open>out\<close> says whether the node
  opens connections itself: those are not limited.
\<close>

inductive peers_states :: "'v prims \<Rightarrow> (string \<Rightarrow> (string \<times> bool \<times> 16 word) option) \<Rightarrow> net_identity \<Rightarrow> bool
    \<Rightarrow> nat \<Rightarrow> peer_manager \<Rightarrow> string list \<Rightarrow> string list \<Rightarrow> bool" for P sock net out c where
  no_peers: "peers_states P sock net out c manager_new [] []"
| admitted: "peers_states P sock net out c m adm half \<Longrightarrow> admits p m \<Longrightarrow> length adm + length half < c \<Longrightarrow>
    peers_states P sock net out c m (p # adm) half"
| connecting: "peers_states P sock net out c m adm half \<Longrightarrow> out \<Longrightarrow> may_connect sock m addr \<Longrightarrow>
    peers_states P sock net out c m (addr # adm) half"
| given_up: "peers_states P sock net out c m adm half \<Longrightarrow> p \<in> set adm \<Longrightarrow>
    peers_states P sock net out c m (remove1 p adm) half"
| entered: "peers_states P sock net out c m adm half \<Longrightarrow> p \<in> set adm \<Longrightarrow>
    peers_states P sock net out c (enter_peer p m) (remove1 p adm) (p # half)"
| registered: "peers_states P sock net out c m adm half \<Longrightarrow> p \<in> set half \<Longrightarrow>
    peers_states P sock net out c (register_peer net p m) adm (remove1 p half)"
| peers_move: "peers_states P sock net out c m adm half \<Longrightarrow> peers_step P sock net m m' \<Longrightarrow>
    peers_states P sock net out c m' adm half"

definition peers_reachable :: "'v prims \<Rightarrow> (string \<Rightarrow> (string \<times> bool \<times> 16 word) option) \<Rightarrow> net_identity \<Rightarrow> bool
    \<Rightarrow> peer_manager \<Rightarrow> bool" where
  "peers_reachable P sock net out m \<longleftrightarrow> (\<exists>c adm half. peers_states P sock net out c m adm half)"

lemma reachable_move: "peers_reachable P sock net out m \<Longrightarrow> peers_step P sock net m m' \<Longrightarrow> peers_reachable P sock net out m'"
  unfolding peers_reachable_def using peers_move by blast

text \<open>A connection whose three steps follow one another is what \<open>handle_incoming\<close> and \<open>connect_peer\<close> do.\<close>

lemma spawn_states:
  assumes "peers_states P sock net out c m (p # adm) half"
  shows "peers_states P sock net out c (spawn_peer_loop net p m) adm half"
proof (cases "connected p m")
  case True
  then show ?thesis using given_up[OF assms, of p] by (simp add: spawn_peer_loop_def)
next
  case False
  have "peers_states P sock net out c (enter_peer p m) adm (p # half)" using entered[OF assms, of p] by simp
  from registered[OF this, of p] False show ?thesis by (simp add: spawn_peer_loop_def)
qed

lemma incoming_states:
  assumes "peers_states P sock net out c m adm half" "length adm + length half < c"
  shows "peers_states P sock net out c (handle_incoming net p m) adm half"
  using assms(1) spawn_states[OF admitted[OF assms(1) _ assms(2)]] by (simp add: handle_incoming_def)

lemma connect_states:
  assumes "peers_states P sock net out c m adm half" "out"
  shows "peers_states P sock net out c (connect_peer sock net reached addr m) adm half"
  using assms(1) spawn_states[OF connecting[OF assms]] by (simp add: connect_peer_def)

text \<open>The invariant: what is in flight counts like what is registered.\<close>

definition ips_ok :: "string list \<Rightarrow> peer_manager \<Rightarrow> bool" where
  "ips_ok half m \<longleftrightarrow> hm_wf (peers m) \<and> hm_wf (peer_ips m) \<and>
     (\<forall>p. connected p m \<longrightarrow> p \<in> set (get_or [] (peer_ips m) (peer_ip_of p)) \<or> p \<in> set half)"

definition at_ip :: "string \<Rightarrow> string list \<Rightarrow> nat" where
  "at_ip ip ps = length (filter (\<lambda>p. peer_ip_of p = ip) ps)"

definition limits_ok :: "nat \<Rightarrow> string list \<Rightarrow> peer_manager \<Rightarrow> bool" where
  "limits_ok c fl m \<longleftrightarrow> length fl \<le> c \<and>
     (\<forall>ip. length (get_or [] (peer_ips m) ip) + at_ip ip fl \<le> 2 + c) \<and>
     (\<forall>s. subnet_24_count s (hm_keys (peer_ips m)) + subnet_24_count s (map peer_ip_of fl) \<le> 1 + c) \<and>
     (\<forall>s. subnet_16_count s (hm_keys (peer_ips m)) + subnet_16_count s (map peer_ip_of fl) \<le> 3 + c)"

definition handshakes_ok :: "net_identity \<Rightarrow> peer_manager \<Rightarrow> bool" where
  "handshakes_ok net m \<longleftrightarrow> (\<forall>p info. hm_get (peer_handshakes m) p = Some info \<longrightarrow> compatible net info)"

definition peers_inv :: "net_identity \<Rightarrow> bool \<Rightarrow> nat \<Rightarrow> string list \<Rightarrow> string list \<Rightarrow> peer_manager \<Rightarrow> bool" where
  "peers_inv net out c adm half m \<longleftrightarrow> ips_ok half m \<and> handshakes_ok net m \<and> (out \<or> limits_ok c (adm @ half) m)"

lemmas peers_inv_defs = peers_inv_def ips_ok_def limits_ok_def handshakes_ok_def

text \<open>Most operations leave the connections alone.\<close>

lemma peers_inv_same:
  assumes "peers_inv net out c adm half m" "peers m' = peers m" "peer_ips m' = peer_ips m" "peer_handshakes m' = peer_handshakes m"
  shows "peers_inv net out c adm half m'"
  using assms by (simp add: peers_inv_defs connected_def)

lemma send_simps [simp]:
  "peers (send_to_peer p msg m) = peers m" "peer_ips (send_to_peer p msg m) = peer_ips m"
  "peer_handshakes (send_to_peer p msg m) = peer_handshakes m" "connected q (send_to_peer p msg m) = connected q m"
  "peer_heights (send_to_peer p msg m) = peer_heights m"
  by (simp_all add: send_to_peer_def connected_def)

lemma disconnect_inv: "peers_inv net out c adm half m \<Longrightarrow> peers_inv net out c adm half (disconnect_peer p m)"
  by (simp add: peers_inv_defs disconnect_peer_def connected_def)

lemma ask_headers_same:
  assumes "ask_headers P bc p m = Some m'"
  shows "peers m' = peers m" "peer_ips m' = peer_ips m" "peer_handshakes m' = peer_handshakes m"
  using assms by (auto simp: ask_headers_def split: if_splits)

lemma store_handshake_inv: "peers_inv net out c adm half m \<Longrightarrow> compatible net info \<Longrightarrow> peers_inv net out c adm half (store_handshake p info m)"
  by (simp add: peers_inv_defs store_handshake_def connected_def)

lemma on_handshake_inv:
  assumes "on_handshake P sock net bc p info m = Some m'" "peers_inv net out c adm half m"
  shows "peers_inv net out c adm half m'"
proof (cases "compatible net info \<and> \<not> is_self_connection sock m p (listening_port info)")
  case True
  then have a: "ask_headers P bc p (send_to_peer p (HandshakeAck (my_handshake net (store_handshake p info m)))
      (store_handshake p info m)) = Some m'"
    using assms(1) by (simp add: on_handshake_def Let_def)
  show ?thesis
    by (rule peers_inv_same[OF store_handshake_inv[OF assms(2), of info p]])
      (use True ask_headers_same[OF a] in simp_all)
qed (use assms disconnect_inv in \<open>auto simp: on_handshake_def Let_def split: if_splits\<close>)

lemma on_headers_msg_inv: "peers_inv net out c adm half m \<Longrightarrow> peers_inv net out c adm half (on_headers_msg P busy bc p headers m)"
proof -
  assume i: "peers_inv net out c adm half m"
  let ?m1 = "m\<lparr>pending_header_requests := hm_remove p (pending_header_requests m)\<rparr>"
  have i1: "peers_inv net out c adm half ?m1" by (rule peers_inv_same[OF i]) simp_all
  have "peers_inv net out c adm half (on_headers_msg P busy bc p headers m) \<or>
      on_headers_msg P busy bc p headers m = disconnect_peer p ?m1"
    by (rule disjCI) (rule peers_inv_same[OF i1], auto simp: on_headers_msg_def Let_def split: if_splits)
  then show ?thesis using disconnect_inv[OF i1] by metis
qed

lemma sends_same:
  "peers (fold (\<lambda>b. send_to_peer p (BlockMsg b)) bs m) = peers m"
  "peer_ips (fold (\<lambda>b. send_to_peer p (BlockMsg b)) bs m) = peer_ips m"
  "peer_handshakes (fold (\<lambda>b. send_to_peer p (BlockMsg b)) bs m) = peer_handshakes m"
  by (induction bs arbitrary: m) simp_all

lemma handle_message_inv:
  assumes "handle_message P sock net now_secs busy bc p msg m = Some (m', ev)" "peers_inv net out c adm half m"
  shows "peers_inv net out c adm half m'"
proof (cases msg)
  case (Handshake info)
  then show ?thesis using assms on_handshake_inv by (auto simp: handle_message_def)
next
  case (HandshakeAck info)
  then show ?thesis using assms disconnect_inv store_handshake_inv
    by (auto simp: handle_message_def on_handshake_ack_def)
next
  case (Version v height)
  then obtain m1 where "ask_headers P bc p m1 = Some m'" "peers m1 = peers m" "peer_ips m1 = peer_ips m"
    "peer_handshakes m1 = peer_handshakes m"
    using assms(1) by (auto simp: handle_message_def on_version_def Let_def split: if_splits)
  then show ?thesis using ask_headers_same[of P bc p m1 m'] by (intro peers_inv_same[OF assms(2)]) simp_all
next
  case (Headers headers)
  then show ?thesis using assms on_headers_msg_inv by (auto simp: handle_message_def)
next
  case (GetData t hashes)
  then show ?thesis using assms
    by (intro peers_inv_same[OF assms(2)])
      (auto simp: handle_message_def on_getdata_msg_def sends_same split: inventory_type.splits if_splits)
qed (use assms in \<open>auto simp: handle_message_def on_inv_def intro!: peers_inv_same[OF assms(2)] split: if_splits\<close>)

lemma hm_keys_insert_eq: "hm_keys (hm_insert k v m) = (if k \<in> set (hm_keys m) then hm_keys m else hm_keys m @ [k])"
  unfolding hm_keys_def by (induction k v m rule: hm_insert.induct) auto

lemma hm_keys_remove: "hm_keys (hm_remove k m) = filter (\<lambda>x. x \<noteq> k) (hm_keys m)"
  by (simp add: hm_keys_def hm_remove_def filter_map comp_def)

lemma get_or_remove [simp]: "get_or d (hm_remove k m) x = (if x = k then d else get_or d m x)"
  by (simp add: get_or_def)

lemma subnet_count_append:
  "subnet_24_count s (ips @ [ip]) = subnet_24_count s ips + (if map_option fst (get_subnet_prefixes ip) = Some s then 1 else 0)"
  "subnet_16_count s (ips @ [ip]) = subnet_16_count s ips + (if map_option snd (get_subnet_prefixes ip) = Some s then 1 else 0)"
  by (simp_all add: subnet_24_count_def subnet_16_count_def)

lemma subnet_count_filter:
  "subnet_24_count s (filter f ips) \<le> subnet_24_count s ips" "subnet_16_count s (filter f ips) \<le> subnet_16_count s ips"
  by (induction ips) (auto simp: subnet_24_count_def subnet_16_count_def)

lemma subnet_count_remove1:
  assumes "p \<in> set ps"
  shows "subnet_24_count s (map peer_ip_of ps) = subnet_24_count s (map peer_ip_of (remove1 p ps)) +
      (if map_option fst (get_subnet_prefixes (peer_ip_of p)) = Some s then 1 else 0)"
    "subnet_16_count s (map peer_ip_of ps) = subnet_16_count s (map peer_ip_of (remove1 p ps)) +
      (if map_option snd (get_subnet_prefixes (peer_ip_of p)) = Some s then 1 else 0)"
    "at_ip ip ps = at_ip ip (remove1 p ps) + (if peer_ip_of p = ip then 1 else 0)"
    "length ps = Suc (length (remove1 p ps))"
  using assms by (induction ps) (auto simp: subnet_24_count_def subnet_16_count_def at_ip_def)

lemma count_append [simp]:
  "at_ip ip (xs @ ys) = at_ip ip xs + at_ip ip ys" "at_ip ip [] = 0"
  "at_ip ip (p # xs) = at_ip ip xs + (if peer_ip_of p = ip then 1 else 0)"
  "subnet_24_count s (xs @ ys) = subnet_24_count s xs + subnet_24_count s ys"
  "subnet_16_count s (xs @ ys) = subnet_16_count s xs + subnet_16_count s ys"
  "subnet_24_count s [] = 0" "subnet_16_count s [] = 0"
  "subnet_24_count s (q # xs) = subnet_24_count s xs + (if map_option fst (get_subnet_prefixes q) = Some s then 1 else 0)"
  "subnet_16_count s (q # xs) = subnet_16_count s xs + (if map_option snd (get_subnet_prefixes q) = Some s then 1 else 0)"
  by (simp_all add: at_ip_def subnet_24_count_def subnet_16_count_def)

lemma count_le:
  "at_ip ip ps \<le> length ps" "subnet_24_count s ps \<le> length ps" "subnet_16_count s ps \<le> length ps"
  by (simp_all add: at_ip_def subnet_24_count_def subnet_16_count_def)

text \<open>A connection that passes the test finds room, and the others in flight are fewer than \<open>c\<close>.\<close>

lemma admitted_inv:
  assumes "peers_inv net out c adm half m" "admits p m" "length adm + length half < c"
  shows "peers_inv net out c (p # adm) half m"
proof -
  let ?ip = "peer_ip_of p"
  have n: "length (get_or [] (peer_ips m) ?ip) \<le> 2" "check_subnet_diversity ?ip m"
    using assms(2) by (auto simp: admits_def Let_def MAX_PEERS_PER_IP_def split: if_splits)
  have c24: "subnet_24_count s (hm_keys (peer_ips m)) \<le> 1"
    if "map_option fst (get_subnet_prefixes ?ip) = Some s" for s
    using n(2) that by (auto simp: check_subnet_diversity_def MAX_PEERS_PER_SUBNET_24_def split: option.splits if_splits)
  have c16: "subnet_16_count s (hm_keys (peer_ips m)) \<le> 3"
    if "map_option snd (get_subnet_prefixes ?ip) = Some s" for s
    using n(2) that by (auto simp: check_subnet_diversity_def MAX_PEERS_PER_SUBNET_16_def split: option.splits if_splits)
  have le: "at_ip ip (adm @ half) < c" "subnet_24_count s (map peer_ip_of (adm @ half)) < c"
    "subnet_16_count s (map peer_ip_of (adm @ half)) < c" for ip s
    using assms(3) count_le(1)[of ip "adm @ half"] count_le(2,3)[of s "map peer_ip_of (adm @ half)"] by simp_all
  have "limits_ok c ((p # adm) @ half) m" if l: "limits_ok c (adm @ half) m"
    unfolding limits_ok_def
  proof (intro conjI allI)
    show "length ((p # adm) @ half) \<le> c" using assms(3) by simp
    show "length (get_or [] (peer_ips m) ip) + at_ip ip ((p # adm) @ half) \<le> 2 + c" for ip
      using l n(1) le(1)[of ip] by (auto simp: limits_ok_def)
    show "subnet_24_count s (hm_keys (peer_ips m)) + subnet_24_count s (map peer_ip_of ((p # adm) @ half)) \<le> 1 + c" for s
      using l c24[of s] le(2)[of s] unfolding limits_ok_def by (cases "map_option fst (get_subnet_prefixes ?ip) = Some s") auto
    show "subnet_16_count s (hm_keys (peer_ips m)) + subnet_16_count s (map peer_ip_of ((p # adm) @ half)) \<le> 3 + c" for s
      using l c16[of s] le(3)[of s] unfolding limits_ok_def by (cases "map_option snd (get_subnet_prefixes ?ip) = Some s") auto
  qed
  then show ?thesis using assms(1) by (auto simp: peers_inv_def)
qed

lemma given_up_inv:
  assumes "peers_inv net out c adm half m" "p \<in> set adm"
  shows "peers_inv net out c (remove1 p adm) half m"
proof -
  have "limits_ok c (remove1 p adm @ half) m" if l: "limits_ok c (adm @ half) m"
    using l unfolding limits_ok_def
    by (simp add: subnet_count_remove1[OF assms(2)]) (meson add_leD1 le_trans add_le_mono le_add1 le_refl)
  then show ?thesis using assms(1) by (auto simp: peers_inv_def)
qed

lemma entered_inv:
  assumes "peers_inv net out c adm half m" "p \<in> set adm"
  shows "peers_inv net out c (remove1 p adm) (p # half) (enter_peer p m)"
proof -
  have "limits_ok c (remove1 p adm @ p # half) (enter_peer p m)" if l: "limits_ok c (adm @ half) m"
    using l by (simp add: limits_ok_def enter_peer_def subnet_count_remove1[OF assms(2)] add.assoc add.commute add.left_commute)
  then show ?thesis using assms(1)
    by (auto simp: peers_inv_def ips_ok_def handshakes_ok_def enter_peer_def connected_def)
qed

lemma registered_inv:
  assumes "peers_inv net out c adm half m" "p \<in> set half"
  shows "peers_inv net out c adm (remove1 p half) (register_peer net p m)"
proof -
  let ?ip = "peer_ip_of p"
  have e: "peer_ips (register_peer net p m) = hm_insert ?ip (get_or [] (peer_ips m) ?ip @ [p]) (peer_ips m)"
    "peers (register_peer net p m) = peers m" "peer_handshakes (register_peer net p m) = peer_handshakes m"
    by (simp_all add: register_peer_def Let_def)
  have "q \<in> set (get_or [] (peer_ips (register_peer net p m)) (peer_ip_of q)) \<or> q \<in> set (remove1 p half)"
    if "connected q m" for q
    using assms(1) that unfolding peers_inv_def ips_ok_def e by (cases "q = p") auto
  then have "ips_ok (remove1 p half) (register_peer net p m)"
    using assms(1) by (simp add: peers_inv_def ips_ok_def connected_def e)
  moreover have "limits_ok c (adm @ remove1 p half) (register_peer net p m)" if l: "limits_ok c (adm @ half) m"
    using l unfolding limits_ok_def e hm_keys_insert_eq
    by (auto simp: subnet_count_remove1[OF assms(2)] subnet_count_append split: if_splits)
  ultimately show ?thesis using assms(1) by (auto simp: peers_inv_def handshakes_ok_def e)
qed

lemma closed_inv:
  assumes "peers_inv net out c adm half m"
  shows "peers_inv net out c adm half (peer_closed p m)"
proof (cases "hm_get (peer_ips m) (peer_ip_of p)")
  case None
  then have "peer_closed p m = disconnect_peer p m" by (simp add: peer_closed_def Let_def disconnect_peer_def)
  then show ?thesis using disconnect_inv[OF assms] by simp
next
  case (Some ids)
  let ?ip = "peer_ip_of p" and ?rest = "filter (\<lambda>i. i \<noteq> p) ids"
  let ?ips = "if ?rest = [] then hm_remove ?ip (peer_ips m) else hm_insert ?ip ?rest (peer_ips m)"
  have e: "peers (peer_closed p m) = hm_remove p (peers m)" "peer_ips (peer_closed p m) = ?ips"
    "peer_handshakes (peer_closed p m) = hm_remove p (peer_handshakes m)"
    using Some by (auto simp: peer_closed_def Let_def disconnect_peer_def)
  have g: "get_or [] ?ips ip = (if ip = ?ip then ?rest else get_or [] (peer_ips m) ip)" for ip by auto
  have k: "hm_keys ?ips = (if ?rest = [] then filter (\<lambda>x. x \<noteq> ?ip) (hm_keys (peer_ips m)) else hm_keys (peer_ips m))"
    using Some by (auto simp: hm_keys_remove hm_keys_insert_eq hm_keys_iff)
  have ids: "get_or [] (peer_ips m) ?ip = ids" using Some by (simp add: get_or_def)
  have "ips_ok half (peer_closed p m)"
    using assms ids unfolding peers_inv_def ips_ok_def connected_def e g by (auto split: if_splits)
  moreover have "handshakes_ok net (peer_closed p m)"
    using assms by (auto simp: peers_inv_def handshakes_ok_def e)
  moreover have "limits_ok c (adm @ half) (peer_closed p m)" if "limits_ok c (adm @ half) m"
  proof -
    have "length (get_or [] ?ips ip) \<le> length (get_or [] (peer_ips m) ip)" for ip using ids by (simp add: g)
    moreover have "subnet_24_count s (hm_keys ?ips) \<le> subnet_24_count s (hm_keys (peer_ips m))"
      "subnet_16_count s (hm_keys ?ips) \<le> subnet_16_count s (hm_keys (peer_ips m))" for s
      by (simp_all only: k subnet_count_filter le_refl split: if_split) simp_all
    ultimately show ?thesis using that unfolding limits_ok_def e(2) by (meson add_le_mono1 le_trans)
  qed
  ultimately show ?thesis using assms by (auto simp: peers_inv_def)
qed

lemma peers_step_inv: "peers_step P sock net m m' \<Longrightarrow> peers_inv net out c adm half m \<Longrightarrow> peers_inv net out c adm half m'"
proof (induction rule: peers_step.induct)
  case (message now_secs busy bc p msg m m' ev)
  then show ?case using handle_message_inv by blast
next
  case (closes m p)
  then show ?case by (rule closed_inv)
qed (auto elim!: peers_inv_same
    simp: broadcast_def request_headers_from_peers_def request_headers_from_peer_def request_block_by_hash_def
      take_timed_out_header_peers_def ban_sync_peer_def cleanup_sync_bans_def set_syncing_def Let_def
    split: option.splits)

lemma peers_states_inv: "peers_states P sock net out c m adm half \<Longrightarrow> peers_inv net out c adm half m"
proof (induction rule: peers_states.induct)
  case no_peers
  show ?case by (simp add: peers_inv_defs manager_new_def connected_def hm_keys_def)
next
  case (connecting m adm half addr)
  then show ?case by (simp add: peers_inv_def)
qed (blast intro: admitted_inv given_up_inv entered_inv registered_inv peers_step_inv)+

lemma distinct_length_le: "distinct xs \<Longrightarrow> set xs \<subseteq> set ys \<Longrightarrow> length xs \<le> length ys"
  by (metis card_mono distinct_card finite_set card_length le_trans)

text \<open>
  C17. Protection against eclipse attacks. However peers connect, talk and leave, every stored handshake
  is of this protocol and network. If the node opens no connections itself and at most \<open>c\<close> incoming
  connections are in flight at a time (tested and not yet registered), it has at most \<open>2 + c\<close>
  connections from one address, from at most \<open>1 + c\<close> addresses of a /24 network and at most \<open>3 + c\<close> of a
  /16 network: the intended limits of three, two and four hold when connections arrive one by one, and
  each further one in flight can exceed them by one (\<open>race_exceeds_limit\<close>).
\<close>

theorem peers_limited:
  assumes "peers_states P sock net out c m adm half"
  shows "(\<forall>p info. hm_get (peer_handshakes m) p = Some info \<longrightarrow> compatible net info) \<and>
    (\<not> out \<longrightarrow>
      (\<forall>ip. length (filter (\<lambda>p. peer_ip_of p = ip) (hm_keys (peers m))) \<le> 2 + c) \<and>
      (\<forall>s. subnet_24_count s (remdups (map peer_ip_of (hm_keys (peers m)))) \<le> 1 + c) \<and>
      (\<forall>s. subnet_16_count s (remdups (map peer_ip_of (hm_keys (peers m)))) \<le> 3 + c))"
proof -
  have i: "peers_inv net out c adm half m" using peers_states_inv[OF assms] .
  then have ips: "ips_ok half m" by (simp add: peers_inv_def)
  have mem: "p \<in> set (get_or [] (peer_ips m) (peer_ip_of p) @ half)"
    "peer_ip_of p \<in> set (hm_keys (peer_ips m) @ map peer_ip_of half)"
    if "p \<in> set (hm_keys (peers m))" for p
  proof -
    show *: "p \<in> set (get_or [] (peer_ips m) (peer_ip_of p) @ half)"
      using that ips by (auto simp: ips_ok_def connected_def hm_keys_iff)
    then show "peer_ip_of p \<in> set (hm_keys (peer_ips m) @ map peer_ip_of half)"
      by (cases "hm_get (peer_ips m) (peer_ip_of p)") (auto simp: hm_keys_iff get_or_def)
  qed
  have d: "distinct (hm_keys (peers m))" using ips by (simp add: ips_ok_def hm_wf_def hm_keys_def)
  have per_ip: "length (filter (\<lambda>p. peer_ip_of p = ip) (hm_keys (peers m))) \<le>
      length (get_or [] (peer_ips m) ip) + at_ip ip half" for ip
    using d mem(1) distinct_length_le[of "filter (\<lambda>p. peer_ip_of p = ip) (hm_keys (peers m))"
      "get_or [] (peer_ips m) ip @ filter (\<lambda>p. peer_ip_of p = ip) half"] by (fastforce simp: at_ip_def)
  have sub: "length (filter f (remdups (map peer_ip_of (hm_keys (peers m))))) \<le>
      length (filter f (hm_keys (peer_ips m))) + length (filter f (map peer_ip_of half))" for f
  proof -
    have "length (filter f (remdups (map peer_ip_of (hm_keys (peers m))))) \<le>
        length (filter f (hm_keys (peer_ips m) @ map peer_ip_of half))"
      using mem(2) by (intro distinct_length_le) auto
    then show ?thesis by simp
  qed
  have "(\<forall>ip. length (filter (\<lambda>p. peer_ip_of p = ip) (hm_keys (peers m))) \<le> 2 + c) \<and>
      (\<forall>s. subnet_24_count s (remdups (map peer_ip_of (hm_keys (peers m)))) \<le> 1 + c) \<and>
      (\<forall>s. subnet_16_count s (remdups (map peer_ip_of (hm_keys (peers m)))) \<le> 3 + c)" if "\<not> out"
  proof -
    have l: "limits_ok c (adm @ half) m" using that i by (simp add: peers_inv_def)
    have "length (get_or [] (peer_ips m) ip) + at_ip ip half \<le> 2 + c"
      "subnet_24_count s (hm_keys (peer_ips m)) + subnet_24_count s (map peer_ip_of half) \<le> 1 + c"
      "subnet_16_count s (hm_keys (peer_ips m)) + subnet_16_count s (map peer_ip_of half) \<le> 3 + c" for ip s
    proof -
      have "length (get_or [] (peer_ips m) ip) + (at_ip ip adm + at_ip ip half) \<le> 2 + c"
        "subnet_24_count s (hm_keys (peer_ips m)) + (subnet_24_count s (map peer_ip_of adm) + subnet_24_count s (map peer_ip_of half)) \<le> 1 + c"
        "subnet_16_count s (hm_keys (peer_ips m)) + (subnet_16_count s (map peer_ip_of adm) + subnet_16_count s (map peer_ip_of half)) \<le> 3 + c"
        using l by (simp_all add: limits_ok_def)
      then show "length (get_or [] (peer_ips m) ip) + at_ip ip half \<le> 2 + c"
        "subnet_24_count s (hm_keys (peer_ips m)) + subnet_24_count s (map peer_ip_of half) \<le> 1 + c"
        "subnet_16_count s (hm_keys (peer_ips m)) + subnet_16_count s (map peer_ip_of half) \<le> 3 + c" by linarith+
    qed
    then show ?thesis
      using per_ip sub unfolding subnet_24_count_def subnet_16_count_def by (meson le_trans)
  qed
  then show ?thesis using i by (auto simp: peers_inv_def handshakes_ok_def)
qed

text \<open>A node on the main network with one peer that has shaken hands.\<close>

definition mainnet :: net_identity where
  "mainnet = \<lparr>my_network_id = MAINNET_NETWORK_ID, my_chain_id = MAINNET_CHAIN_ID,
     my_network_magic = MAINNET_NETWORK_MAGIC, my_software_version = ''0.1.0''\<rparr>"

definition sample_peer :: string where
  "sample_peer = ''10.0.0.1:5000''"

lemmas connect_eval = handle_incoming_def admits_def spawn_peer_loop_def enter_peer_def register_peer_def
  manager_new_def Let_def check_subnet_diversity_def get_subnet_prefixes_def hm_keys_def connected_def
  send_to_peer_def peer_ip_of_def get_or_def hm_get_def
  MAX_PEERS_PER_IP_def MAX_PEERS_PER_SUBNET_24_def MAX_PEERS_PER_SUBNET_16_def

theorem peers_limited_witness:
  "\<exists>m. peers_states ref_prims (\<lambda>_. None) mainnet False 1 m [] [] \<and> length (hm_keys (peers m)) = 1 \<and>
     length (filter (\<lambda>p. peer_ip_of p = ''10.0.0.1'') (hm_keys (peers m))) \<le> 3"
proof -
  let ?m = "handle_incoming mainnet sample_peer manager_new"
  have r: "peers_states ref_prims (\<lambda>_. None) mainnet False 1 ?m [] []"
    by (rule incoming_states[OF no_peers]) simp
  have "hm_keys (peers ?m) = [sample_peer]" by (simp add: connect_eval sample_peer_def)
  then show ?thesis using peers_limited[OF r] r by (intro exI[of _ ?m]) simp
qed

text \<open>
  The test and the registration are under different acquisitions of the lock: with two connections
  in flight a fourth one from the same address is taken in.
\<close>

lemma race_exceeds_limit:
  "\<exists>m. peers_states P sock net False 2 m [] [] \<and>
     length (filter (\<lambda>p. peer_ip_of p = ''10.0.0.1'') (hm_keys (peers m))) = 4"
proof -
  let ?m = "handle_incoming net ''10.0.0.1:2'' (handle_incoming net ''10.0.0.1:1'' manager_new)"
  have m: "peers_states P sock net False 2 ?m [] []"
    by (intro incoming_states no_peers) simp_all
  have a: "admits ''10.0.0.1:3'' ?m" "admits ''10.0.0.1:4'' ?m" by (simp_all add: connect_eval)
  have "peers_states P sock net False 2 ?m [''10.0.0.1:4'', ''10.0.0.1:3''] []"
    using admitted[OF admitted[OF m a(1)] a(2)] by simp
  note fin = spawn_states[OF spawn_states[OF this]]
  show ?thesis by (rule exI, rule conjI, rule fin) (simp add: connect_eval)
qed

text \<open>
  The address of an IPv6 peer is cut at its first colon, so IPv6 peers whose addresses begin with the
  same group count as one address, and the limits on networks do not apply to them.
\<close>

lemma ipv6_peers_share_address:
  "peer_ip_of ''[2001:db8::1]:8335'' = peer_ip_of ''[2001:41d0::7]:9000''"
  "get_subnet_prefixes (peer_ip_of ''[2001:db8::1]:8335'') = None"
  by (simp_all add: peer_ip_of_def get_subnet_prefixes_def)

lemma be_value_magic: "be_value (rev (to_le_bytes 4 (unat (magic :: u32)))) = unat magic"
proof -
  have "[0..<4] ! (3 - i) = 3 - i" for i :: nat by (subst nth_upt) auto
  then have "rev (to_le_bytes 4 (unat magic)) = map (\<lambda>i. of_nat (unat magic div 256 ^ (4 - 1 - i)) :: u8) [0..<4]"
    by (intro nth_equalityI) (simp_all add: to_le_bytes_def rev_nth)
  moreover have "unat magic < 256 ^ 4" using unsigned_less[of magic] by simp
  ultimately show ?thesis by (simp only: be_value_digits mod_less)
qed

lemma be_value_inj: "length xs = length ys \<Longrightarrow> be_value xs = be_value ys \<Longrightarrow> xs = ys"
proof (induction xs ys rule: list_induct2)
  case (Cons x xs y ys)
  let ?B = "256 ^ length ys"
  have lt: "be_value xs < ?B" "be_value ys < ?B" using be_value_lt[of xs] be_value_lt[of ys] Cons.hyps by simp_all
  have e: "unat x * ?B + be_value xs = unat y * ?B + be_value ys" using Cons by (simp add: be_value_Cons)
  have "(unat x * ?B + be_value xs) div ?B = unat x" "(unat y * ?B + be_value ys) div ?B = unat y"
    using lt by simp_all
  then have "x = y" using e by (metis word_unat_eq_iff)
  then show ?case using e Cons.IH by simp
qed simp

text \<open>
  C18. Frames: what is written is read back by a node of the same network, every frame that is read was
  written that way, and a frame of a network with another magic number ends the connection.
\<close>

theorem frame_roundtrip:
  "(payload \<noteq> [] \<longrightarrow> read_frame magic (write_frame magic payload) = Some payload) \<and>
   (read_frame magic frame = Some payload \<longrightarrow> frame = write_frame magic payload) \<and>
   (magic' \<noteq> magic \<longrightarrow> read_frame magic' (write_frame magic payload) = None)"
proof (intro conjI impI)
  assume "read_frame magic frame = Some payload"
  then have f: "4 \<le> length frame" "be_value (take 4 frame) = unat magic" "payload = drop 4 frame"
    by (auto simp: read_frame_def split: if_splits)
  then have "take 4 frame = rev (to_le_bytes 4 (unat magic))" by (intro be_value_inj) (simp_all add: be_value_magic)
  then show "frame = write_frame magic payload" using f(3) by (metis append_take_drop_id write_frame_def)
next
  assume "magic' \<noteq> magic"
  then have "unat magic' \<noteq> unat magic" using word_unat_eq_iff by blast
  then show "read_frame magic' (write_frame magic payload) = None"
    by (simp add: read_frame_def write_frame_def be_value_magic)
qed (simp add: read_frame_def write_frame_def be_value_magic)

theorem frame_roundtrip_witness:
  "read_frame MAINNET_NETWORK_MAGIC (write_frame MAINNET_NETWORK_MAGIC [7]) = Some [7] \<and>
   read_frame TESTNET_NETWORK_MAGIC (write_frame MAINNET_NETWORK_MAGIC [7]) = None"
  using frame_roundtrip[of "[7]" MAINNET_NETWORK_MAGIC "[]" TESTNET_NETWORK_MAGIC]
  by (simp add: MAINNET_NETWORK_MAGIC_def TESTNET_NETWORK_MAGIC_def)

section \<open>A round of synchronisation\<close>

lemma stored_header:
  assumes "chain_inv P bc" "load_header P bc h = Ok (Some hdr)"
  shows "compute_header_hash P hdr = h" "\<exists>b. load_block P bc h = Ok (Some b) \<and> header b = hdr"
proof -
  obtain v b where v: "db_get (bc_db bc) (block_key h) = Some v" "dec_block P v = Some b" "hdr = header b"
    using assms(2) by (auto simp: load_header_def split: option.splits)
  show "compute_header_hash P hdr = h" using assms(1) v by (fastforce simp: chain_inv_def own_hash_def)
  show "\<exists>b. load_block P bc h = Ok (Some b) \<and> header b = hdr" using v by (auto simp: load_block_def)
qed

text \<open>The headers a peer answers with are those of blocks it has stored.\<close>

lemma header_at_loaded:
  assumes "header_at P bc v = Some hdr"
  shows "\<exists>h. load_header P bc h = Ok (Some hdr)"
proof -
  obtain h where "from_utf8 P v = Some h" "(case load_header P bc h of Ok (Some hdr) \<Rightarrow> Some hdr | _ \<Rightarrow> None) = Some hdr"
    using assms by (auto simp: header_at_def bind_eq_Some_conv)
  then show ?thesis by (cases "load_header P bc h") (auto split: option.splits)
qed

lemmas headers_loop_rule =
  headers_loop.raw_induct[of "\<lambda>(((P, bc), acc), i) hs. Q P bc acc i hs" for Q, simplified, case_names loop]

lemma headers_loop_stored:
  assumes "headers_loop P bc acc i = Some hs"
  shows "set hs \<subseteq> set acc \<union> {hdr. \<exists>h. load_header P bc h = Ok (Some hdr)}"
proof (rule headers_loop_rule[OF _ assms], goal_cases)
  case (1 rec P bc acc i hs)
  then show ?case by (fastforce split: if_splits option.splits dest: header_at_loaded)
qed

lemma hex_of_hash:
  assumes "hex_ok P"
  shows "\<exists>bs. hex_decode P (compute_header_hash P hdr) = Some bs \<and> hex_encode P bs = compute_header_hash P hdr"
  using assms by (simp add: compute_header_hash_def to_hex_def)

lemma getdata_delivers:
  assumes "hex_ok P" "\<And>hdr. hdr \<in> set hs \<Longrightarrow> \<exists>b. load_block P bc (compute_header_hash P hdr) = Ok (Some b) \<and> header b = hdr"
  shows "map header (on_getdata P bc (wanted P known hs)) = filter (\<lambda>hdr. \<not> known (compute_header_hash P hdr)) hs"
  using assms(2)
proof (induction hs)
  case (Cons hdr hs)
  obtain b where b: "load_block P bc (compute_header_hash P hdr) = Ok (Some b)" "header b = hdr"
    using Cons.prems by force
  obtain bs where bs: "hex_decode P (compute_header_hash P hdr) = Some bs" "hex_encode P bs = compute_header_hash P hdr"
    using hex_of_hash[OF assms(1)] by blast
  have "map header (on_getdata P bc (wanted P known hs)) = filter (\<lambda>hdr. \<not> known (compute_header_hash P hdr)) hs"
    using Cons by simp
  then show ?case using b bs by (simp add: wanted_def on_getdata_def map_filter_simps Let_def)
qed (simp add: wanted_def on_getdata_def map_filter_simps)

text \<open>
  C14. A round of synchronisation with a node whose chain is in any reachable state delivers what is missing: of the
  headers it answers a locator with, the asking node requests exactly those it does not have, and
  the answer to that request is the blocks of these headers, each of them, in the same order.
\<close>

theorem sync_round_delivers:
  assumes "codec_ok P" "hex_ok P" "chain_reachable P bc" and "on_getheaders P bc locator = Some hs"
  shows "map header (on_getdata P bc (wanted P known hs)) = filter (\<lambda>hdr. \<not> known (compute_header_hash P hdr)) hs"
proof -
  have "\<exists>h. load_header P bc h = Ok (Some hdr)" if "hdr \<in> set hs" for hdr
    using headers_loop_stored assms(4) that by (fastforce simp: on_getheaders_def)
  then show ?thesis using stored_header[OF reachable_inv[OF assms(3,1)]] by (intro getdata_delivers[OF assms(2)]) metis
qed

theorem sync_round_delivers_witness:
  "\<exists>bc hdr. chain_reachable ref_prims bc \<and> on_getheaders ref_prims bc [] = Some [hdr] \<and>
     map header (on_getdata ref_prims bc (wanted ref_prims (\<lambda>_. False) [hdr])) = [hdr]"
proof -
  obtain bc hash where 1: "create_genesis ref_prims 0 fresh_chain ''0xab'' = (bc, Ok hash)"
    by (simp add: create_genesis_def fresh_chain_def Let_def)
  have r: "chain_reachable ref_prims bc"
    using node_reachable_inv[OF fresh_reachable] chain_step.genesis[OF 1] chain_reachable.step
    by (fastforce simp: node_inv_def fresh_node_def)
  have tip: "chain_tip bc = Some hash" using 1 by (auto simp: create_genesis_def Let_def fresh_chain_def)
  have i: "chain_inv ref_prims bc" using reachable_inv[OF r] by simp
  then obtain v b where v: "db_get (bc_db bc) (block_key hash) = Some v" "dec_block ref_prims v = Some b"
    using tip by (fastforce simp: chain_inv_def tip_synced_def own_hash_def)
  have u: "batch_view (put_utxos ref_prims (created_utxos f tx)) m (index_key n) = m (index_key n)" for f tx m n
    by (rule batch_view_untouched) (auto simp: put_utxos_def created_utxos_def)
  have e: "db_get [] k = None" for k by (simp add: db_get_def)
  have d: "db_get (bc_db bc) (index_key n) = (if n = 0 then Some (as_bytes ref_prims hash) else None)" for n
    using 1 e by (auto simp: create_genesis_def Let_def fresh_chain_def u)
  have utf: "from_utf8 ref_prims (as_bytes ref_prims s) = Some s" for s
    using ref_prims_ok(1) unfolding codec_ok_def by blast
  have a: "header_at ref_prims bc (as_bytes ref_prims hash) = Some (header b)"
    using v by (simp add: header_at_def load_header_def utf)
  have "headers_loop ref_prims bc [header b] 1 = Some [header b]" by (subst headers_loop.simps) (simp add: d)
  then have h: "on_getheaders ref_prims bc [] = Some [header b]"
    unfolding on_getheaders_def start_index.simps by (subst headers_loop.simps) (simp add: d a)
  show ?thesis using sync_round_delivers[OF ref_prims_ok(1,3) r h, of "\<lambda>_. False"] r h by auto
qed

end
