(* ===== verification/Sync.thy ===== *)
theory Sync
  imports Peers
begin

text \<open>
  The synchronisation loop \<open>start_block_sync\<close> and the peer maintenance of \<open>node/src/p2p/service.rs\<close>.
  The local variables of the loop are a record; one turn of the loop is \<open>sync_tick\<close>, which runs at
  one moment: \<open>now\<close> is the \<open>Instant\<close> in milliseconds, \<open>secs\<close> the wall clock. Instants count from a
  moment more than ten seconds before the start. The last component of a turn's result is how long
  the loop then sleeps. The order in which the hash map lists the heights is the argument \<open>ordh\<close>, the
  order of the peers \<open>ord\<close>. What the loop relies on of the peer manager is the interface
  \<open>sync_source\<close>.
\<close>

section \<open>Model\<close>

definition BAN_DURATION :: nat where "BAN_DURATION = 600000"

definition PEER_STALL_SECS :: nat where "PEER_STALL_SECS = 30"

definition SYNC_LOG_INTERVAL :: u64 where "SYNC_LOG_INTERVAL = 100"

definition HEIGHT_REFRESH_INTERVAL :: nat where "HEIGHT_REFRESH_INTERVAL = 10000"

definition GETHEADERS_COOLDOWN :: nat where "GETHEADERS_COOLDOWN = 2000"

record sync_state =
  last_syncing_state :: bool
  last_height_refresh :: nat
  last_logged_height :: u64
  sync_peer :: "string option"
  last_progress_height :: u64
  last_progress_time :: nat
  last_getheaders_sent :: nat

definition sync_start :: "nat \<Rightarrow> peer_manager \<Rightarrow> peer_manager \<times> sync_state" where
  "sync_start now m =
     (set_syncing True m,
      \<lparr>last_syncing_state = True, last_height_refresh = now, last_logged_height = 0, sync_peer = None,
       last_progress_height = 0, last_progress_time = now, last_getheaders_sent = now - 10000\<rparr>)"

definition tip_locator :: "'v prims \<Rightarrow> 'v blockchain \<Rightarrow> bytes list" where
  "tip_locator P bc =
     (case Option.bind (chain_tip bc) (hex_decode P) of Some b \<Rightarrow> [b] | None \<Rightarrow> [])"

text \<open>Step 3 of a turn: the current peer, if it is still of use.\<close>

definition kept_target :: "(string \<Rightarrow> bool) \<Rightarrow> (string \<Rightarrow> u64) \<Rightarrow> u64 \<Rightarrow> string option \<Rightarrow> string option" where
  "kept_target banned height_of height current =
     (case current of
        Some peer \<Rightarrow>
          let peer_height = height_of peer;
              still_valid = (\<not> banned peer \<and> peer_height > height)
          in if still_valid then Some peer else None
      | None \<Rightarrow> None)"

text \<open>Step 5: the request, at most every two seconds.\<close>

definition sync_request :: "'v prims \<Rightarrow> nat \<Rightarrow> 'v blockchain \<Rightarrow> u64 \<Rightarrow> string \<Rightarrow> peer_manager \<Rightarrow> sync_state
    \<Rightarrow> peer_manager \<times> sync_state \<times> nat" where
  "sync_request P now bc height target_peer m s =
     (let s1 = (if height = 0 \<or> sat_sub height (last_logged_height s) \<ge> SYNC_LOG_INTERVAL
                then s\<lparr>last_logged_height := height\<rparr> else s)
      in if now - last_getheaders_sent s1 \<ge> GETHEADERS_COOLDOWN
         then (request_headers_from_peer now target_peer (tip_locator P bc) None m,
               s1\<lparr>last_getheaders_sent := now\<rparr>, 1000)
         else (m, s1, 1000))"

text \<open>Steps 4 and 5: a peer that makes no progress for 30 seconds is banned, unless blocks still arrive.\<close>

definition sync_from :: "'v prims \<Rightarrow> nat \<Rightarrow> u64 \<Rightarrow> 'v blockchain \<Rightarrow> u64 \<Rightarrow> string \<Rightarrow> peer_manager \<Rightarrow> sync_state
    \<Rightarrow> peer_manager \<times> sync_state \<times> nat" where
  "sync_from P now secs bc height target_peer m s =
     (if height > last_progress_height s
      then sync_request P now bc height target_peer m
             (s\<lparr>last_progress_height := height, last_progress_time := now\<rparr>)
      else if (now - last_progress_time s) div 1000 \<ge> PEER_STALL_SECS
      then
        let secs_since_block = get_last_block_received_secs_ago secs m
        in if unat secs_since_block < PEER_STALL_SECS
           then sync_request P now bc height target_peer m (s\<lparr>last_progress_time := now\<rparr>)
           else (ban_sync_peer now target_peer m, s\<lparr>sync_peer := None, last_progress_time := now\<rparr>, 100)
      else sync_request P now bc height target_peer m s)"

definition sync_tick :: "'v prims \<Rightarrow> ((string \<times> u64) list \<Rightarrow> (string \<times> u64) list) \<Rightarrow> (string list \<Rightarrow> string list)
    \<Rightarrow> nat \<Rightarrow> u64 \<Rightarrow> 'v blockchain \<Rightarrow> peer_manager \<times> sync_state \<Rightarrow> peer_manager \<times> sync_state \<times> nat" where
  "sync_tick P ordh ord now secs bc = (\<lambda>(m0, s0).
     let m = cleanup_sync_bans BAN_DURATION now m0;
         height = next_height P bc;
         best = get_best_sync_peer ordh BAN_DURATION now m;
         max_available_height = (case best of Some (_, h) \<Rightarrow> h | None \<Rightarrow> 0)
     in if height < max_available_height
        then
          let (m, s) = (if \<not> last_syncing_state s0
                then (set_syncing True m, s0\<lparr>last_syncing_state := True\<rparr>) else (m, s0))
          in case kept_target (\<lambda>p. is_sync_banned BAN_DURATION now p m) (get_or 0 (get_peer_heights m))
                 height (sync_peer s) of
               Some target_peer \<Rightarrow> sync_from P now secs bc height target_peer m s
             | None \<Rightarrow>
                 (case best of
                    Some (target_peer, h) \<Rightarrow>
                      sync_from P now secs bc height target_peer m
                        (s\<lparr>last_progress_height := height, last_progress_time := now, sync_peer := Some target_peer\<rparr>)
                  | None \<Rightarrow> (m, s, 2000))
        else
          let (m, s) = (if last_syncing_state s0
                then (set_syncing False m, s0\<lparr>last_syncing_state := False, sync_peer := None,
                        last_height_refresh := now - HEIGHT_REFRESH_INTERVAL\<rparr>) else (m, s0))
          in if now - last_height_refresh s \<ge> HEIGHT_REFRESH_INTERVAL
             then (request_headers_from_peers ord now (tip_locator P bc) None m, s\<lparr>last_height_refresh := now\<rparr>, 1000)
             else (m, s, 1000))"

text \<open>
  The maintenance of peers: the heartbeat, the connections opened at the start, and the attempts to
  reconnect when fewer than half of the wanted peers are connected. \<open>reached\<close> says which addresses
  answer; \<open>saved\<close> are the addresses of \<open>load_saved_peers\<close>, \<open>dns\<close> those of the seed, \<open>ordp\<close> is the order
  of the set.
\<close>

definition MAX_OUTBOUND :: nat where "MAX_OUTBOUND = 8"

definition heartbeat :: "(string list \<Rightarrow> string list) \<Rightarrow> u64 \<Rightarrow> peer_manager \<Rightarrow> peer_manager" where
  "heartbeat ord secs m = (if get_connected_peer_count m > 0 then broadcast_ping ord secs m else m)"

definition connect_all :: "(string \<Rightarrow> (string \<times> bool \<times> 16 word) option) \<Rightarrow> net_identity \<Rightarrow> (string \<Rightarrow> bool)
    \<Rightarrow> string list \<Rightarrow> peer_manager \<Rightarrow> peer_manager" where
  "connect_all sock net reached addrs m = fold (\<lambda>a. connect_peer sock net (reached a) a) addrs m"

definition connect_initial_peers :: "(string \<Rightarrow> (string \<times> bool \<times> 16 word) option) \<Rightarrow> net_identity \<Rightarrow> (string \<Rightarrow> bool)
    \<Rightarrow> (string list \<Rightarrow> string list) \<Rightarrow> string list \<Rightarrow> string list \<Rightarrow> peer_manager \<Rightarrow> peer_manager" where
  "connect_initial_peers sock net reached ordp dns saved m =
     connect_all sock net reached (take MAX_OUTBOUND (ordp (remdups (dns @ saved)))) m"

definition reconnect :: "(string \<Rightarrow> (string \<times> bool \<times> 16 word) option) \<Rightarrow> net_identity \<Rightarrow> (string \<Rightarrow> bool)
    \<Rightarrow> string list \<Rightarrow> peer_manager \<Rightarrow> peer_manager" where
  "reconnect sock net reached saved m =
     (if get_connected_peer_count m < MAX_OUTBOUND div 2
      then connect_all sock net reached (take MAX_OUTBOUND saved) m else m)"

section \<open>What the loop needs of the peer manager\<close>

text \<open>
  The interface: the best peer is one of the peers that may be used and no other one is higher;
  a peer that is not online has no height; a ban lasts for its duration.
\<close>

locale sync_source =
  fixes wf :: "'m \<Rightarrow> bool"
    and online :: "'m \<Rightarrow> string \<Rightarrow> bool"
    and banned :: "nat \<Rightarrow> 'm \<Rightarrow> string \<Rightarrow> bool"
    and height_of :: "'m \<Rightarrow> string \<Rightarrow> u64"
    and best :: "nat \<Rightarrow> 'm \<Rightarrow> (string \<times> u64) option"
    and ban :: "nat \<Rightarrow> string \<Rightarrow> 'm \<Rightarrow> 'm"
    and duration :: nat
  assumes best_usable: "wf m \<Longrightarrow> best now m = Some (p, h) \<Longrightarrow> online m p \<and> \<not> banned now m p \<and> height_of m p = h"
    and best_highest: "wf m \<Longrightarrow> online m q \<Longrightarrow> \<not> banned now m q \<Longrightarrow> height_of m q \<noteq> 0 \<Longrightarrow>
      \<exists>p h. best now m = Some (p, h) \<and> height_of m q \<le> h"
    and offline_height: "\<not> online m p \<Longrightarrow> height_of m p = 0"
    and ban_lasts: "banned now' (ban now p m) p \<longleftrightarrow> now' - now < duration"
begin

lemma kept_usable:
  assumes "kept_target (banned now m) (height_of m) height current = Some p"
  shows "current = Some p" "online m p \<and> \<not> banned now m p \<and> height < height_of m p"
proof -
  show c: "current = Some p" using assms by (auto simp: kept_target_def Let_def split: option.splits if_splits)
  have "\<not> banned now m p" "height < height_of m p"
    using assms c by (auto simp: kept_target_def Let_def split: if_splits)
  then show "online m p \<and> \<not> banned now m p \<and> height < height_of m p" using offline_height[of m p] by (cases "online m p") auto
qed

lemma ahead_iff:
  assumes "wf m"
  shows "(height < (case best now m of Some (_, h) \<Rightarrow> h | None \<Rightarrow> 0)) \<longleftrightarrow>
    (\<exists>p. online m p \<and> \<not> banned now m p \<and> height < height_of m p)" (is "?l \<longleftrightarrow> ?r")
proof
  assume ?l
  then obtain p h where "best now m = Some (p, h)" "height < h" by (auto split: option.splits)
  then show ?r using best_usable[OF assms] by auto
next
  assume ?r
  then obtain q where q: "online m q" "\<not> banned now m q" "height < height_of m q" by auto
  then have "height_of m q \<noteq> 0" by auto
  then show ?l using best_highest[OF assms q(1,2)] q(3) by fastforce
qed

lemma target_usable:
  assumes "wf m" "height < (case best now m of Some (_, h) \<Rightarrow> h | None \<Rightarrow> 0)"
    and "(case kept_target (banned now m) (height_of m) height current of
      Some p \<Rightarrow> Some p | None \<Rightarrow> map_option fst (best now m)) = Some p"
  shows "online m p \<and> \<not> banned now m p \<and> height < height_of m p"
proof (cases "kept_target (banned now m) (height_of m) height current")
  case None
  then obtain h where "best now m = Some (p, h)" "height < h" using assms(2,3) by (auto split: option.splits)
  then show ?thesis using best_usable[OF assms(1)] by auto
qed (use assms(3) kept_usable in auto)

end

text \<open>The peer manager provides it, for every order in which the hash map lists its entries.\<close>

lemma max_fold:
  fixes ys :: "(string \<times> u64) list"
  defines "step \<equiv> \<lambda>y best. if snd y \<ge> snd best then y else best"
  shows "fold step ys x \<in> insert x (set ys) \<and> (\<forall>z\<in>insert x (set ys). snd z \<le> snd (fold step ys x))"
proof (induction ys arbitrary: x)
  case (Cons y ys)
  have "snd x \<le> snd (step y x)" "snd y \<le> snd (step y x)" "step y x \<in> {x, y}" by (auto simp: step_def)
  then show ?case using Cons[of "step y x"] by (auto intro: order_trans)
qed simp

lemma max_by_height_spec:
  "max_by_height xs = Some r \<Longrightarrow> r \<in> set xs \<and> (\<forall>z\<in>set xs. snd z \<le> snd r)"
  "xs \<noteq> [] \<Longrightarrow> max_by_height xs \<noteq> None"
proof -
  show "max_by_height xs = Some r \<Longrightarrow> r \<in> set xs \<and> (\<forall>z\<in>set xs. snd z \<le> snd r)"
    by (cases xs) (use max_fold in auto)
  show "xs \<noteq> [] \<Longrightarrow> max_by_height xs \<noteq> None" by (cases xs) simp_all
qed

definition manager_height :: "peer_manager \<Rightarrow> string \<Rightarrow> u64" where
  "manager_height m p = get_or 0 (get_peer_heights m) p"

lemma map_of_filter_key: "map_of (filter (\<lambda>(k, _). Q k) m) k = (if Q k then map_of m k else None)"
  by (induction m) auto

lemma manager_height_eq: "manager_height m p = (if connected p m then get_or 0 (peer_heights m) p else 0)"
  by (simp add: manager_height_def get_peer_heights_def get_or_def hm_get_def map_of_filter_key)

text \<open>A source is the manager together with the order in which its hash map lists the heights.\<close>

interpretation pm: sync_source
  "\<lambda>(ordh, m). arranges ordh \<and> hm_wf (peer_heights m)"
  "\<lambda>(ordh, m) p. connected p m"
  "\<lambda>now (ordh, m) p. is_sync_banned BAN_DURATION now p m"
  "\<lambda>(ordh, m). manager_height m"
  "\<lambda>now (ordh, m). get_best_sync_peer ordh BAN_DURATION now m"
  "\<lambda>now p (ordh, m). (ordh, ban_sync_peer now p m)"
  BAN_DURATION
proof (unfold_locales, goal_cases)
  case (1 src now p h)
  obtain ordh m where src: "src = (ordh, m)" by (cases src)
  have "(p, h) \<in> set (peer_heights m)" "eligible BAN_DURATION now m p"
    using 1 max_by_height_spec(1) by (fastforce simp: src get_best_sync_peer_def hm_entries_def)+
  then show ?case using 1
    by (auto simp: src manager_height_eq eligible_def is_sync_banned_def hm_entry_iff get_or_def split: option.splits)
next
  case (2 src q now)
  obtain ordh m where src: "src = (ordh, m)" by (cases src)
  let ?xs = "filter (\<lambda>(p, _). eligible BAN_DURATION now m p) (ordh (hm_entries (peer_heights m)))"
  have q: "(q, manager_height m q) \<in> set ?xs"
    using 2 by (auto simp: src hm_entries_def eligible_def is_sync_banned_def hm_entry_iff get_or_def manager_height_eq
        split: option.splits)
  then obtain r where "max_by_height ?xs = Some r" using max_by_height_spec(2)[of ?xs] by fastforce
  then show ?case using max_by_height_spec(1)[of ?xs r] q
    by (cases r) (auto simp: src get_best_sync_peer_def)
next
  case (3 src p)
  then show ?case by (cases src) (simp add: manager_height_eq)
next
  case (4 now' now p src)
  then show ?case by (cases src) (simp add: is_sync_banned_def ban_sync_peer_def)
qed

section \<open>A turn of the loop\<close>

definition tables_ok :: "peer_manager \<Rightarrow> bool" where
  "tables_ok m \<longleftrightarrow> hm_wf (peer_heights m) \<and> hm_wf (sync_blacklist m)"

lemma tables_same: "tables_ok m \<Longrightarrow> peer_heights m' = peer_heights m \<Longrightarrow> sync_blacklist m' = sync_blacklist m \<Longrightarrow> tables_ok m'"
  by (simp add: tables_ok_def)

lemma send_tables [simp]: "sync_blacklist (send_to_peer p msg m) = sync_blacklist m" "tables_ok (send_to_peer p msg m) = tables_ok m"
  by (simp_all add: send_to_peer_def tables_ok_def)

lemma sends_tables [simp]:
  "tables_ok (fold (\<lambda>b. send_to_peer p (BlockMsg b)) bs m) = tables_ok m"
  "sync_blacklist (fold (\<lambda>b. send_to_peer p (BlockMsg b)) bs m) = sync_blacklist m"
  by (induction bs arbitrary: m) simp_all

text \<open>Connections and messages leave the bans alone.\<close>

lemma disconnect_tables [simp]:
  "sync_blacklist (disconnect_peer p m) = sync_blacklist m" "tables_ok m \<Longrightarrow> tables_ok (disconnect_peer p m)"
  by (simp_all add: disconnect_peer_def tables_ok_def)

lemma store_handshake_tables [simp]:
  "sync_blacklist (store_handshake p info m) = sync_blacklist m" "tables_ok m \<Longrightarrow> tables_ok (store_handshake p info m)"
  by (simp_all add: store_handshake_def tables_ok_def)

lemma ask_headers_tables:
  assumes "ask_headers P bc p m = Some m'"
  shows "sync_blacklist m' = sync_blacklist m" "tables_ok m' = tables_ok m"
  using assms by (auto simp: ask_headers_def split: if_splits)

lemma message_tables:
  assumes "handle_message P sock net now_secs busy bc p msg m = Some (m', ev)"
  shows "sync_blacklist m' = sync_blacklist m" "tables_ok m \<Longrightarrow> tables_ok m'"
proof -
  have "sync_blacklist m' = sync_blacklist m \<and> (tables_ok m \<longrightarrow> tables_ok m')"
  proof (cases msg)
    case (Handshake info)
    then show ?thesis using assms
      by (auto simp: handle_message_def on_handshake_def Let_def ask_headers_tables split: if_splits)
  next
    case (Version v height)
    then show ?thesis using assms
      by (auto simp: handle_message_def on_version_def Let_def ask_headers_tables)
        (auto simp: tables_ok_def split: if_splits)
  next
    case (Headers headers)
    have "sync_blacklist (on_headers_msg P busy bc p headers m) = sync_blacklist m"
      by (simp add: on_headers_msg_def Let_def)
    moreover have "hm_wf (peer_heights (on_headers_msg P busy bc p headers m))" if "hm_wf (peer_heights m)"
      using that by (simp add: on_headers_msg_def Let_def disconnect_peer_def)
    ultimately show ?thesis using assms Headers by (auto simp: handle_message_def tables_ok_def)
  qed (use assms in \<open>auto simp: handle_message_def on_handshake_ack_def on_inv_def on_getdata_msg_def
      elim: tables_same split: inventory_type.splits if_splits\<close>)
  then show "sync_blacklist m' = sync_blacklist m" "tables_ok m \<Longrightarrow> tables_ok m'" by auto
qed

lemma closed_tables: "sync_blacklist (peer_closed p m) = sync_blacklist m" "tables_ok m \<Longrightarrow> tables_ok (peer_closed p m)"
proof -
  have "sync_blacklist (peer_closed p m) = sync_blacklist m \<and> peer_heights (peer_closed p m) = hm_remove p (peer_heights m)"
    by (simp add: peer_closed_def Let_def disconnect_peer_def split: option.splits)
  then show "sync_blacklist (peer_closed p m) = sync_blacklist m" "tables_ok m \<Longrightarrow> tables_ok (peer_closed p m)"
    by (simp_all add: tables_ok_def)
qed

lemma hm_wf_filter: "hm_wf m \<Longrightarrow> hm_wf (filter f m)"
  by (simp add: hm_wf_def distinct_map_filter)

lemma entered_tables:
  "sync_blacklist (enter_peer p m) = sync_blacklist m" "tables_ok (enter_peer p m) = tables_ok m"
  "sync_blacklist (register_peer net p m) = sync_blacklist m" "tables_ok (register_peer net p m) = tables_ok m"
  by (simp_all add: enter_peer_def register_peer_def Let_def tables_ok_def send_to_peer_def)

lemma broadcast_tables: "sync_blacklist (broadcast ord msg m) = sync_blacklist m" "tables_ok (broadcast ord msg m) = tables_ok m"
  by (simp_all add: broadcast_def tables_ok_def)

lemma peers_step_tables: "peers_step P sock net m m' \<Longrightarrow> tables_ok m \<Longrightarrow> tables_ok m'"
proof (induction rule: peers_step.induct)
  case (message now_secs busy bc p msg m m' ev)
  then show ?case using message_tables(2) by blast
next
  case (closes m p)
  then show ?case by (simp add: closed_tables)
qed (auto simp: broadcast_def request_headers_from_peers_def
    request_headers_from_peer_def request_block_by_hash_def take_timed_out_header_peers_def ban_sync_peer_def
    cleanup_sync_bans_def set_syncing_def Let_def tables_ok_def hm_wf_filter send_to_peer_def split: option.splits)

lemma peers_states_tables: "peers_states P sock net out c m adm half \<Longrightarrow> tables_ok m"
  by (induction rule: peers_states.induct)
    (simp_all add: entered_tables peers_step_tables, simp add: manager_new_def tables_ok_def)

lemma peers_reachable_tables: "peers_reachable P sock net out m \<Longrightarrow> tables_ok m"
  unfolding peers_reachable_def using peers_states_tables by blast

lemma cleanup_tables: "tables_ok m \<Longrightarrow> tables_ok (cleanup_sync_bans d now m)"
  by (simp add: tables_ok_def cleanup_sync_bans_def hm_wf_filter)

lemma hm_get_filter:
  "hm_wf m \<Longrightarrow> hm_get (filter (\<lambda>(_, t). Q t) m) p =
     (case hm_get m p of Some t \<Rightarrow> if Q t then Some t else None | None \<Rightarrow> None)"
proof (induction m)
  case (Cons e m)
  obtain k t where e: "e = (k, t)" by (cases e)
  have "hm_get m k = None" using Cons.prems by (auto simp: e hm_wf_def hm_get_def map_of_eq_None_iff)
  then show ?case using Cons by (auto simp: e hm_wf_def hm_get_def)
qed simp

lemma cleanup_get:
  "tables_ok m \<Longrightarrow> hm_get (sync_blacklist (cleanup_sync_bans d now m)) p =
     (case hm_get (sync_blacklist m) p of Some t \<Rightarrow> if now - t < d then Some t else None | None \<Rightarrow> None)"
  using hm_get_filter[of "sync_blacklist m" "\<lambda>t. now - t < d"] by (simp add: tables_ok_def cleanup_sync_bans_def)

text \<open>Removing the expired bans changes neither who is banned nor who is connected at which height.\<close>

lemma cleanup_view:
  assumes "tables_ok m"
  shows "is_sync_banned d now p (cleanup_sync_bans d now m) = is_sync_banned d now p m"
    "manager_height (cleanup_sync_bans d now m) p = manager_height m p" "connected p (cleanup_sync_bans d now m) = connected p m"
    "outbox (cleanup_sync_bans d now m) = outbox m"
proof -
  show "is_sync_banned d now p (cleanup_sync_bans d now m) = is_sync_banned d now p m"
    by (simp add: is_sync_banned_def cleanup_get[OF assms] split: option.splits)
qed (simp_all add: cleanup_sync_bans_def manager_height_def get_peer_heights_def connected_def)

lemma set_syncing_view:
  "is_sync_banned d now p (set_syncing b m) = is_sync_banned d now p m" "manager_height (set_syncing b m) p = manager_height m p"
  "connected p (set_syncing b m) = connected p m" "outbox (set_syncing b m) = outbox m"
  "sync_blacklist (set_syncing b m) = sync_blacklist m" "tables_ok (set_syncing b m) = tables_ok m"
  "get_best_sync_peer ordh d now (set_syncing b m) = get_best_sync_peer ordh d now m"
  "get_peer_heights (set_syncing b m) = get_peer_heights m"
  by (simp_all add: set_syncing_def is_sync_banned_def manager_height_def get_peer_heights_def connected_def
      tables_ok_def get_best_sync_peer_def eligible_def)

lemma sync_request_outcome:
  assumes "sync_request P now bc height p m s = (m', s', d)"
  shows "sync_peer s' = sync_peer s" "last_syncing_state s' = last_syncing_state s"
    "sync_blacklist m' = sync_blacklist m" "tables_ok m' = tables_ok m" "is_syncing m' = is_syncing m"
    "connected p m \<Longrightarrow> last_getheaders_sent s + 2000 \<le> now \<Longrightarrow> outbox m' = outbox m @ [(p, GetHeaders (tip_locator P bc) None)]"
  using assms
  by (auto simp: sync_request_def request_headers_from_peer_def send_to_peer_def connected_def tables_ok_def
      GETHEADERS_COOLDOWN_def Let_def split: if_splits)

lemma sync_from_outcome:
  assumes "sync_from P now secs bc height p m s = (m', s', d)"
  shows "(\<exists>s1. sync_request P now bc height p m s1 = (m', s', d) \<and> sync_peer s1 = sync_peer s \<and>
        last_syncing_state s1 = last_syncing_state s \<and> last_getheaders_sent s1 = last_getheaders_sent s) \<or>
    (m' = ban_sync_peer now p m \<and> sync_peer s' = None \<and> last_syncing_state s' = last_syncing_state s \<and>
     height \<le> last_progress_height s \<and> last_progress_time s + 30000 \<le> now)"
proof -
  have asks: ?thesis if "sync_request P now bc height p m s1 = (m', s', d)" "sync_peer s1 = sync_peer s"
      "last_syncing_state s1 = last_syncing_state s" "last_getheaders_sent s1 = last_getheaders_sent s" for s1
    using that by blast
  show ?thesis
  proof (cases "height > last_progress_height s \<or> (now - last_progress_time s) div 1000 < 30 \<or>
      unat (get_last_block_received_secs_ago secs m) < 30")
    case True
    define s1 where "s1 = (if height > last_progress_height s
        then s\<lparr>last_progress_height := height, last_progress_time := now\<rparr>
        else if (now - last_progress_time s) div 1000 < 30 then s else s\<lparr>last_progress_time := now\<rparr>)"
    have "sync_from P now secs bc height p m s = sync_request P now bc height p m s1"
      using True by (auto simp: sync_from_def PEER_STALL_SECS_def s1_def Let_def)
    then show ?thesis using assms by (intro asks[of s1]) (simp_all add: s1_def)
  next
    case False
    then show ?thesis using assms by (auto simp: sync_from_def PEER_STALL_SECS_def Let_def)
  qed
qed

lemma sync_from_keeps:
  assumes "sync_from P now secs bc height p m s = (m', s', d)"
  shows "last_syncing_state s' = last_syncing_state s" "is_syncing m' = is_syncing m"
    "tables_ok m \<Longrightarrow> tables_ok m'" "sync_peer s' \<in> {None, sync_peer s}"
    "q \<noteq> p \<Longrightarrow> hm_get (sync_blacklist m') q = hm_get (sync_blacklist m) q"
  using sync_from_outcome[OF assms] sync_request_outcome(1-5)[of P now bc height p m _ m' s' d]
  by (force simp: ban_sync_peer_def tables_ok_def)+

text \<open>
  A turn in which some usable peer is ahead works on a usable peer that is ahead, too: the current
  one, or the best.
\<close>

lemma sync_tick_cases:
  assumes "sync_tick P ordh ord now secs bc (m, s) = (m', s', d)" "tables_ok m" "arranges ordh"
    and "connected q m" "\<not> is_sync_banned BAN_DURATION now q m" "next_height P bc < manager_height m q"
  obtains p m1 s1 where "sync_from P now secs bc (next_height P bc) p m1 s1 = (m', s', d)"
    "connected p m" "\<not> is_sync_banned BAN_DURATION now p m" "next_height P bc < manager_height m p"
    "sync_peer s1 = Some p" "last_syncing_state s1" "last_getheaders_sent s1 = last_getheaders_sent s"
    "connected p m1" "outbox m1 = outbox m"
    "sync_peer s = Some p \<and> last_progress_time s1 = last_progress_time s \<or> last_progress_time s1 = now"
    "sync_blacklist m1 = sync_blacklist (cleanup_sync_bans BAN_DURATION now m)" "tables_ok m1"
    "is_syncing m1 = (is_syncing m \<or> \<not> last_syncing_state s)"
proof -
  let ?h = "next_height P bc" and ?c = "cleanup_sync_bans BAN_DURATION now m"
  let ?best = "get_best_sync_peer ordh BAN_DURATION now ?c"
  define m1 where "m1 = (if last_syncing_state s then ?c else set_syncing True ?c)"
  define s1 where "s1 = (if last_syncing_state s then s else s\<lparr>last_syncing_state := True\<rparr>)"
  have s1: "last_syncing_state s1" "sync_peer s1 = sync_peer s" "last_getheaders_sent s1 = last_getheaders_sent s"
    "last_progress_time s1 = last_progress_time s" by (simp_all add: s1_def)
  note view = cleanup_view[OF assms(2)] set_syncing_view
  have m1: "connected p m1 = connected p m" "outbox m1 = outbox m" "is_sync_banned BAN_DURATION now p m1 = is_sync_banned BAN_DURATION now p m"
    "manager_height m1 p = manager_height m p" "sync_blacklist m1 = sync_blacklist ?c" for p
    by (simp_all add: m1_def view)
  have t1: "tables_ok m1" "is_syncing m1 = (is_syncing m \<or> \<not> last_syncing_state s)"
    using cleanup_tables[OF assms(2)] by (simp_all add: m1_def view) (simp add: set_syncing_def cleanup_sync_bans_def)
  define kept where "kept = kept_target (\<lambda>p. is_sync_banned BAN_DURATION now p m1) (manager_height m1) ?h (sync_peer s)"
  have wf: "arranges ordh \<and> hm_wf (peer_heights m1)"
    using assms(2,3) cleanup_tables[OF assms(2)] by (auto simp: m1_def tables_ok_def set_syncing_def)
  have best1: "get_best_sync_peer ordh BAN_DURATION now m1 = ?best" by (simp add: m1_def view)
  have ahead: "?h < (case ?best of Some (_, h) \<Rightarrow> h | None \<Rightarrow> 0)"
    using pm.ahead_iff[of "(ordh, m1)" ?h now] wf assms(4-6) by (auto simp: best1 m1)
  obtain p where p: "(case kept of Some p \<Rightarrow> Some p | None \<Rightarrow> map_option fst ?best) = Some p"
    using ahead by (cases kept) (auto split: option.splits)
  have usable: "connected p m" "\<not> is_sync_banned BAN_DURATION now p m" "?h < manager_height m p"
    using pm.target_usable[of "(ordh, m1)" ?h now "sync_peer s" p] wf ahead p
    unfolding prod.case best1 kept_def m1 by blast+
  have run: "(m', s', d) = (case kept of Some t \<Rightarrow> sync_from P now secs bc ?h t m1 s1
      | None \<Rightarrow> (case ?best of Some (t, h) \<Rightarrow> sync_from P now secs bc ?h t m1
          (s1\<lparr>last_progress_height := ?h, last_progress_time := now, sync_peer := Some t\<rparr>) | None \<Rightarrow> (m1, s1, 2000)))"
  proof (cases "last_syncing_state s")
    case True
    then have e: "m1 = ?c" "s1 = s" by (simp_all add: m1_def s1_def)
    show ?thesis unfolding kept_def e manager_height_def[abs_def] using assms(1) ahead True by (simp add: sync_tick_def Let_def)
  next
    case False
    then have e: "m1 = set_syncing True ?c" "s1 = s\<lparr>last_syncing_state := True\<rparr>" by (simp_all add: m1_def s1_def)
    show ?thesis unfolding kept_def e manager_height_def[abs_def] using assms(1) ahead False by (simp add: sync_tick_def Let_def)
  qed
  show thesis
  proof (cases kept)
    case None
    then obtain h where "?best = Some (p, h)" using p by auto
    then show thesis using that[of p m1 "s1\<lparr>last_progress_height := ?h, last_progress_time := now, sync_peer := Some p\<rparr>"]
        run None usable s1 m1 t1 by simp
  next
    case (Some t)
    then have "sync_peer s = Some p" using p by (auto simp: kept_def kept_target_def Let_def split: option.splits if_splits)
    then show thesis using that[of p m1 s1] run Some p usable s1 m1 t1 by simp
  qed
qed

text \<open>A turn in which no usable peer is ahead.\<close>

lemma sync_tick_idle:
  assumes "sync_tick P ordh ord now secs bc (m, s) = (m', s', d)" "tables_ok m" "arranges ordh"
    and "\<nexists>q. connected q m \<and> \<not> is_sync_banned BAN_DURATION now q m \<and> next_height P bc < manager_height m q"
  shows "sync_blacklist m' = sync_blacklist (cleanup_sync_bans BAN_DURATION now m)" "tables_ok m'"
    "sync_peer s' \<in> {None, sync_peer s}" "\<not> last_syncing_state s'" "is_syncing m' = (is_syncing m \<and> \<not> last_syncing_state s)"
proof -
  let ?c = "cleanup_sync_bans BAN_DURATION now m"
  define m1 where "m1 = (if last_syncing_state s then set_syncing False ?c else ?c)"
  define s1 where "s1 = (if last_syncing_state s then s\<lparr>last_syncing_state := False, sync_peer := None,
      last_height_refresh := now - HEIGHT_REFRESH_INTERVAL\<rparr> else s)"
  have "\<not> next_height P bc < (case get_best_sync_peer ordh BAN_DURATION now ?c of Some (_, h) \<Rightarrow> h | None \<Rightarrow> 0)"
    using pm.ahead_iff[of "(ordh, ?c)" "next_height P bc" now] assms(3,4) cleanup_tables[OF assms(2)]
    by (simp add: cleanup_view[OF assms(2)] tables_ok_def)
  then have r: "(m', s', d) = (if now - last_height_refresh s1 \<ge> HEIGHT_REFRESH_INTERVAL
      then (request_headers_from_peers ord now (tip_locator P bc) None m1, s1\<lparr>last_height_refresh := now\<rparr>, 1000)
      else (m1, s1, 1000))"
    unfolding assms(1)[symmetric] by (cases "last_syncing_state s") (simp_all add: sync_tick_def Let_def m1_def s1_def)
  have q: "sync_blacklist (request_headers_from_peers ord now l st m1) = sync_blacklist m1"
    "peer_heights (request_headers_from_peers ord now l st m1) = peer_heights m1"
    "is_syncing (request_headers_from_peers ord now l st m1) = is_syncing m1" for l st
    by (simp_all add: request_headers_from_peers_def broadcast_def Let_def)
  have m': "sync_blacklist m' = sync_blacklist m1" "peer_heights m' = peer_heights m1" "is_syncing m' = is_syncing m1"
    "sync_peer s' = sync_peer s1" "last_syncing_state s' = last_syncing_state s1"
    using r q by (auto split: if_splits)
  have t: "tables_ok m1" using cleanup_tables[OF assms(2)] by (simp add: m1_def set_syncing_view)
  show "sync_blacklist m' = sync_blacklist ?c" "tables_ok m'" "sync_peer s' \<in> {None, sync_peer s}"
    "\<not> last_syncing_state s'"
    using m' t by (auto simp: tables_same[OF t] m1_def s1_def set_syncing_view)
  show "is_syncing m' = (is_syncing m \<and> \<not> last_syncing_state s)"
    using m' by (simp add: m1_def set_syncing_def cleanup_sync_bans_def)
qed

text \<open>
  C15. The loop makes progress. When some connected peer that is not banned reports more blocks than the
  node has, and the last request is two seconds old, a turn of the loop picks such a peer and either
  asks it for the headers that follow the tip, or bans it for having brought no progress for at least
  30 seconds.
\<close>

theorem sync_tick_asks:
  assumes "peers_reachable P sock net out m" "arranges ordh"
    and "connected q m" "\<not> is_sync_banned BAN_DURATION now q m" "next_height P bc < get_or 0 (peer_heights m) q"
    and "last_getheaders_sent s + 2000 \<le> now"
    and "sync_tick P ordh ord now secs bc (m, s) = (m', s', d)"
  shows "\<exists>p. connected p m \<and> \<not> is_sync_banned BAN_DURATION now p m \<and> next_height P bc < get_or 0 (peer_heights m) p \<and>
    (outbox m' = outbox m @ [(p, GetHeaders (tip_locator P bc) None)] \<and> sync_peer s' = Some p \<or>
     sync_peer s = Some p \<and> last_progress_time s + 30000 \<le> now \<and>
       is_sync_banned BAN_DURATION now p m' \<and> sync_peer s' = None)"
proof -
  have "next_height P bc < manager_height m q" using assms(3,5) by (simp add: manager_height_eq)
  then obtain p m1 s1 where run: "sync_from P now secs bc (next_height P bc) p m1 s1 = (m', s', d)"
    and p: "connected p m" "\<not> is_sync_banned BAN_DURATION now p m" "next_height P bc < manager_height m p"
    and s1: "sync_peer s1 = Some p" "last_getheaders_sent s1 = last_getheaders_sent s"
      "sync_peer s = Some p \<and> last_progress_time s1 = last_progress_time s \<or> last_progress_time s1 = now"
    and m1: "connected p m1" "outbox m1 = outbox m"
    using sync_tick_cases[OF assms(7) peers_reachable_tables[OF assms(1)] assms(2-4)] by metis
  have "outbox m' = outbox m @ [(p, GetHeaders (tip_locator P bc) None)] \<and> sync_peer s' = Some p \<or>
      sync_peer s = Some p \<and> last_progress_time s + 30000 \<le> now \<and>
        is_sync_banned BAN_DURATION now p m' \<and> sync_peer s' = None"
    using sync_from_outcome[OF run]
  proof (elim disjE exE conjE)
    fix s2
    assume "sync_request P now bc (next_height P bc) p m1 s2 = (m', s', d)" "sync_peer s2 = sync_peer s1"
      "last_getheaders_sent s2 = last_getheaders_sent s1"
    then show ?thesis using sync_request_outcome(1,6)[of P now bc _ p m1 s2 m' s' d] m1 s1 assms(6) by simp
  qed (use s1 in \<open>auto simp: is_sync_banned_def ban_sync_peer_def BAN_DURATION_def\<close>)
  then show ?thesis using p by (auto simp: manager_height_eq)
qed

text \<open>
  While the flags of the loop and of the manager agree, which they do from the start on, the node is
  marked as synchronising after a turn exactly when some usable peer is ahead; the flags agree again.
\<close>

theorem sync_flag_exact:
  assumes "peers_reachable P sock net out m" "arranges ordh" "is_syncing m = last_syncing_state s"
    and "sync_tick P ordh ord now secs bc (m, s) = (m', s', d)"
  shows "is_syncing m' = last_syncing_state s' \<and> (is_syncing m' \<longleftrightarrow>
    (\<exists>q. connected q m \<and> \<not> is_sync_banned BAN_DURATION now q m \<and> next_height P bc < get_or 0 (peer_heights m) q))"
proof -
  let ?ahead = "\<lambda>q. connected q m \<and> \<not> is_sync_banned BAN_DURATION now q m \<and> next_height P bc < manager_height m q"
  have t: "tables_ok m" using peers_reachable_tables assms(1) .
  have "is_syncing m' = last_syncing_state s' \<and> (is_syncing m' \<longleftrightarrow> (\<exists>q. ?ahead q))"
  proof (cases "\<exists>q. ?ahead q")
    case True
    then obtain q where q: "connected q m" "\<not> is_sync_banned BAN_DURATION now q m" "next_height P bc < manager_height m q"
      by blast
    obtain p m1 s1 where "sync_from P now secs bc (next_height P bc) p m1 s1 = (m', s', d)" "last_syncing_state s1"
      "is_syncing m1 = (is_syncing m \<or> \<not> last_syncing_state s)"
      using sync_tick_cases[OF assms(4) t assms(2) q] by metis
    then have "is_syncing m'" "last_syncing_state s'"
      using sync_from_keeps(1,2)[of P now secs bc "next_height P bc" p m1 s1 m' s' d] assms(3) by auto
    then show ?thesis using True by simp
  next
    case False
    then show ?thesis using sync_tick_idle(4,5)[OF assms(4) t assms(2)] assms(3) by auto
  qed
  then show ?thesis by (auto simp: manager_height_eq)
qed

section \<open>A banned peer is left alone\<close>

text \<open>
  Turns of the loop at later and later moments, with messages and connections in between; what
  \<open>handle_incoming\<close> and \<open>connect_peer\<close> change is entering and registering a peer.
\<close>

inductive sync_run :: "'v prims \<Rightarrow> (string \<Rightarrow> (string \<times> bool \<times> 16 word) option) \<Rightarrow> net_identity
    \<Rightarrow> nat \<times> peer_manager \<times> sync_state \<Rightarrow> nat \<times> peer_manager \<times> sync_state \<Rightarrow> bool" for P sock net x where
  run_start: "sync_run P sock net x x"
| run_tick: "sync_run P sock net x (now, m, s) \<Longrightarrow> now \<le> now' \<Longrightarrow> arranges ordh \<Longrightarrow>
    sync_tick P ordh ord now' secs bc (m, s) = (m', s', d) \<Longrightarrow> sync_run P sock net x (now', m', s')"
| run_message: "sync_run P sock net x (now, m, s) \<Longrightarrow>
    handle_message P sock net secs busy bc p msg m = Some (m', ev) \<Longrightarrow> sync_run P sock net x (now, m', s)"
| run_enter: "sync_run P sock net x (now, m, s) \<Longrightarrow> sync_run P sock net x (now, enter_peer p m, s)"
| run_register: "sync_run P sock net x (now, m, s) \<Longrightarrow> sync_run P sock net x (now, register_peer net p m, s)"
| run_close: "sync_run P sock net x (now, m, s) \<Longrightarrow> sync_run P sock net x (now, peer_closed p m, s)"
| run_broadcast: "sync_run P sock net x (now, m, s) \<Longrightarrow> sync_run P sock net x (now, broadcast ord msg m, s)"

definition avoids :: "string \<Rightarrow> nat \<Rightarrow> peer_manager \<Rightarrow> sync_state \<Rightarrow> bool" where
  "avoids p t m s \<longleftrightarrow> tables_ok m \<and> hm_get (sync_blacklist m) p = Some t \<and> sync_peer s \<noteq> Some p"

lemma tick_avoids:
  assumes "sync_tick P ordh ord now secs bc (m, s) = (m', s', d)" "arranges ordh" "avoids p t m s" "now - t < BAN_DURATION"
  shows "avoids p t m' s'"
proof -
  let ?ahead = "\<lambda>q. connected q m \<and> \<not> is_sync_banned BAN_DURATION now q m \<and> next_height P bc < manager_height m q"
  have t: "tables_ok m" "hm_get (sync_blacklist m) p = Some t" "sync_peer s \<noteq> Some p" using assms(3) by (auto simp: avoids_def)
  have c: "hm_get (sync_blacklist (cleanup_sync_bans BAN_DURATION now m)) p = Some t"
    using cleanup_get[OF t(1)] t(2) assms(4) by simp
  have b: "is_sync_banned BAN_DURATION now p m" using t(2) assms(4) by (simp add: is_sync_banned_def)
  show ?thesis
  proof (cases "\<exists>q. ?ahead q")
    case True
    then obtain q where q: "connected q m" "\<not> is_sync_banned BAN_DURATION now q m" "next_height P bc < manager_height m q"
      by blast
    obtain p' m1 s1 where r: "sync_from P now secs bc (next_height P bc) p' m1 s1 = (m', s', d)"
      and p': "\<not> is_sync_banned BAN_DURATION now p' m" "sync_peer s1 = Some p'" "tables_ok m1"
        "sync_blacklist m1 = sync_blacklist (cleanup_sync_bans BAN_DURATION now m)"
      using sync_tick_cases[OF assms(1) t(1) assms(2) q] by metis
    have "p' \<noteq> p" using b p'(1) by auto
    then show ?thesis using sync_from_keeps(3-5)[OF r] p' c by (auto simp: avoids_def)
  next
    case False
    then show ?thesis using sync_tick_idle(1-3)[OF assms(1) t(1) assms(2)] c t(3) by (auto simp: avoids_def)
  qed
qed

lemma tick_bans:
  assumes "sync_tick P ordh ord t secs bc (m, s) = (m1, s1, d)" "tables_ok m" "arranges ordh"
    and "\<not> is_sync_banned BAN_DURATION t p m" "is_sync_banned BAN_DURATION t p m1"
  shows "avoids p t m1 s1"
proof -
  let ?c = "cleanup_sync_bans BAN_DURATION t m"
  let ?ahead = "\<lambda>q. connected q m \<and> \<not> is_sync_banned BAN_DURATION t q m \<and> next_height P bc < manager_height m q"
  have same: False if "hm_get (sync_blacklist m1) p = hm_get (sync_blacklist ?c) p"
    using that assms(4,5) cleanup_view(1)[OF assms(2), of BAN_DURATION t p] by (simp add: is_sync_banned_def)
  then obtain q where q: "connected q m" "\<not> is_sync_banned BAN_DURATION t q m" "next_height P bc < manager_height m q"
    using sync_tick_idle(1)[OF assms(1-3)] by metis
  obtain p' m2 s2 where r: "sync_from P t secs bc (next_height P bc) p' m2 s2 = (m1, s1, d)"
    and m2: "sync_blacklist m2 = sync_blacklist ?c" "tables_ok m2"
    using sync_tick_cases[OF assms(1-3) q] by metis
  have "p' = p" using sync_from_keeps(5)[OF r] same m2(1) by metis
  moreover have "\<not> (\<exists>s3. sync_request P t bc (next_height P bc) p' m2 s3 = (m1, s1, d))"
    using same m2(1) sync_request_outcome(3) by metis
  ultimately show ?thesis using sync_from_outcome[OF r] m2(2) by (auto simp: avoids_def ban_sync_peer_def tables_ok_def)
qed

lemma run_avoids:
  assumes "sync_run P sock net x y" "x = (t, m, s)" "y = (now, m', s')" "avoids p t m s"
  shows "t \<le> now \<and> (now - t < BAN_DURATION \<longrightarrow> avoids p t m' s')"
  using assms
proof (induction arbitrary: now m' s' rule: sync_run.induct)
  case (run_tick now1 m1 s1 now2 ordh ord secs bc m2 s2 d)
  then show ?case using tick_avoids[of P ordh ord now2 secs bc m1 s1 m2 s2 d p t] by auto
qed (auto simp: avoids_def message_tables entered_tables closed_tables broadcast_tables)

text \<open>
  C16. A peer that is banned for a stall is left alone for ten minutes: whatever happens in between, it stays
  banned and the loop does not choose it again.
\<close>

theorem stalled_peer_avoided:
  assumes "peers_reachable P sock net out m" "arranges ordh"
    and "sync_tick P ordh ord t secs bc (m, s) = (m1, s1, d)"
    and "\<not> is_sync_banned BAN_DURATION t p m" "is_sync_banned BAN_DURATION t p m1"
    and "sync_run P sock net (t, m1, s1) (now, m', s')" "now < t + 600000"
  shows "sync_peer s' \<noteq> Some p \<and> is_sync_banned BAN_DURATION now p m'"
proof -
  have "avoids p t m1 s1" using tick_bans[OF assms(3) peers_reachable_tables[OF assms(1)] assms(2,4,5)] .
  then have "avoids p t m' s'" "t \<le> now" using run_avoids[OF assms(6) refl refl] assms(7) by (auto simp: BAN_DURATION_def)
  then show ?thesis using assms(7) by (auto simp: avoids_def is_sync_banned_def BAN_DURATION_def)
qed

section \<open>Instances\<close>

text \<open>A node with one peer that is five blocks ahead and has brought nothing for 40 seconds.\<close>

definition sample_manager :: peer_manager where
  "sample_manager = store_handshake sample_peer ((my_handshake mainnet manager_new)\<lparr>hs_height := 5\<rparr>)
     (handle_incoming mainnet sample_peer manager_new)"

definition sample_sync :: sync_state where
  "sample_sync = \<lparr>last_syncing_state = True, last_height_refresh = 0, last_logged_height = 0,
     sync_peer = Some sample_peer, last_progress_height = 0, last_progress_time = 0, last_getheaders_sent = 0\<rparr>"

lemma sample_manager_reachable: "peers_reachable ref_prims (\<lambda>_. None) mainnet False sample_manager"
proof -
  have "peers_states ref_prims (\<lambda>_. None) mainnet False 1 (handle_incoming mainnet sample_peer manager_new) [] []"
    by (rule incoming_states[OF no_peers]) simp
  then have "peers_reachable ref_prims (\<lambda>_. None) mainnet False (handle_incoming mainnet sample_peer manager_new)"
    unfolding peers_reachable_def by blast
  moreover have "handle_message ref_prims (\<lambda>_. None) mainnet 0 (\<lambda>_. False) fresh_chain sample_peer
      (HandshakeAck ((my_handshake mainnet manager_new)\<lparr>hs_height := 5\<rparr>)) (handle_incoming mainnet sample_peer manager_new)
      = Some (sample_manager, NoEvent)"
    by (simp add: handle_message_def on_handshake_ack_def compatible_def my_handshake_def is_self_connection_def sample_manager_def)
  ultimately show ?thesis using peers_step.message reachable_move by metis
qed

lemma sample_manager_view:
  "connected sample_peer sample_manager" "peer_heights sample_manager = [(sample_peer, 5)]" "sync_blacklist sample_manager = []"
  "last_block_received_at sample_manager = 0"
  by (simp_all add: sample_manager_def store_handshake_def connect_eval sample_peer_def my_handshake_def)

lemma sample_tick:
  "sync_tick ref_prims (\<lambda>xs. xs) (\<lambda>xs. xs) 40000 0 fresh_chain (sample_manager, sample_sync) =
     (ban_sync_peer 40000 sample_peer (cleanup_sync_bans BAN_DURATION 40000 sample_manager),
      sample_sync\<lparr>sync_peer := None, last_progress_time := 40000\<rparr>, 100)"
proof -
  let ?c = "cleanup_sync_bans BAN_DURATION 40000 sample_manager"
  have t: "tables_ok sample_manager" using peers_reachable_tables[OF sample_manager_reachable] .
  have h: "next_height ref_prims fresh_chain = 0" by (simp add: next_height_def fresh_chain_def)
  have b: "get_best_sync_peer (\<lambda>xs. xs) BAN_DURATION 40000 ?c = Some (sample_peer, 5)"
    using sample_manager_view by (simp add: get_best_sync_peer_def cleanup_sync_bans_def hm_entries_def eligible_def connected_def)
  have k: "kept_target (\<lambda>p. is_sync_banned BAN_DURATION 40000 p ?c) (get_or 0 (get_peer_heights ?c)) 0 (Some sample_peer) = Some sample_peer"
    using sample_manager_view
    by (simp add: kept_target_def cleanup_sync_bans_def is_sync_banned_def get_peer_heights_def get_or_def connected_def hm_get_def)
  have r: "get_last_block_received_secs_ago 0 ?c = - 1"
    using sample_manager_view by (simp add: get_last_block_received_secs_ago_def cleanup_sync_bans_def)
  have "\<not> unat (- 1 :: u64) < 30" by code_simp
  then show ?thesis
    by (simp add: sync_tick_def h b sample_sync_def k sync_from_def r PEER_STALL_SECS_def)
qed

theorem sync_tick_asks_witness:
  "\<exists>m' s' d. sync_tick ref_prims (\<lambda>xs. xs) (\<lambda>xs. xs) 40000 0 fresh_chain (sample_manager, sample_sync) = (m', s', d) \<and>
    (\<exists>p. connected p sample_manager \<and>
      (outbox m' = outbox sample_manager @ [(p, GetHeaders (tip_locator ref_prims fresh_chain) None)] \<and> sync_peer s' = Some p \<or>
       is_sync_banned BAN_DURATION 40000 p m' \<and> sync_peer s' = None))"
proof -
  have "connected sample_peer sample_manager" "\<not> is_sync_banned BAN_DURATION 40000 sample_peer sample_manager"
    "next_height ref_prims fresh_chain < get_or 0 (peer_heights sample_manager) sample_peer"
    "last_getheaders_sent sample_sync + 2000 \<le> 40000"
    using sample_manager_view by (simp_all add: is_sync_banned_def next_height_def fresh_chain_def sample_sync_def get_or_def hm_get_def)
  from sync_tick_asks[OF sample_manager_reachable _ this sample_tick] sample_tick show ?thesis
    by (auto simp: arranges_def)
qed

theorem sync_flag_exact_witness:
  "\<exists>m' s' d. sync_tick ref_prims (\<lambda>xs. xs) (\<lambda>xs. xs) 40000 0 fresh_chain (set_syncing True sample_manager, sample_sync) = (m', s', d) \<and>
    is_syncing m' = last_syncing_state s'"
proof -
  obtain m' s' d where t: "sync_tick ref_prims (\<lambda>xs. xs) (\<lambda>xs. xs) 40000 0 fresh_chain
      (set_syncing True sample_manager, sample_sync) = (m', s', d)" by (metis prod_cases3)
  have "peers_reachable ref_prims (\<lambda>_. None) mainnet False (set_syncing True sample_manager)"
    by (rule reachable_move[OF sample_manager_reachable peers_step.syncs])
  from sync_flag_exact[OF this _ _ t] t show ?thesis by (auto simp: arranges_def set_syncing_def sample_sync_def)
qed

theorem stalled_peer_avoided_witness:
  "\<exists>m' s'. sync_run ref_prims (\<lambda>_. None) mainnet (40000, fst (sync_tick ref_prims (\<lambda>xs. xs) (\<lambda>xs. xs) 40000 0 fresh_chain
      (sample_manager, sample_sync)), sample_sync\<lparr>sync_peer := None, last_progress_time := 40000\<rparr>) (40000, m', s') \<and>
    sync_peer s' \<noteq> Some sample_peer \<and> is_sync_banned BAN_DURATION 40000 sample_peer m'"
proof -
  let ?m = "ban_sync_peer 40000 sample_peer (cleanup_sync_bans BAN_DURATION 40000 sample_manager)"
  have b: "\<not> is_sync_banned BAN_DURATION 40000 sample_peer sample_manager" "is_sync_banned BAN_DURATION 40000 sample_peer ?m"
    using sample_manager_view by (simp_all add: is_sync_banned_def ban_sync_peer_def BAN_DURATION_def)
  have a: "arranges (\<lambda>xs :: (string \<times> u64) list. xs)" by (simp add: arranges_def)
  let ?x = "(40000, ?m, sample_sync\<lparr>sync_peer := None, last_progress_time := 40000\<rparr>)"
  have r: "sync_run ref_prims (\<lambda>_. None) mainnet ?x ?x" by (rule run_start)
  have "sync_peer (snd (snd ?x)) \<noteq> Some sample_peer \<and> is_sync_banned BAN_DURATION 40000 sample_peer (fst (snd ?x))"
    using stalled_peer_avoided[OF sample_manager_reachable a sample_tick b r] by simp
  then show ?thesis unfolding sample_tick fst_conv snd_conv using r by (intro exI conjI) auto
qed

text \<open>
  The loop's locator holds the tip alone. A peer that does not know the tip answers from height 0, and
  a node that has all those blocks asks for nothing: a node on a fork more than 200 blocks high does not
  learn of the other branch this way.
\<close>

lemma unknown_tip_learns_nothing:
  assumes "load_header P server (hex_encode P tip) = Ok None" "on_getheaders P server [tip] = Some hs"
    and "\<And>hdr. hdr \<in> set hs \<Longrightarrow> known (compute_header_hash P hdr)"
  shows "start_index P server [tip] = 0" "wanted P known hs = []"
  using assms by (auto simp: wanted_def map_filter_def)

end
