(* ===== verification/Discovery.thy ===== *)
theory Discovery
  imports Dns Sync
begin

text \<open>
  How a node is configured, announces itself and finds peers (\<open>node/src/main.rs\<close>, with the DNS client of
  \<open>p2p/manager.rs\<close>): the settings file, registration with the DNS server, the choice of the best nodes of
  its answer by height, uptime and measured latency, the fallback to configured and saved peers, the
  connections, and the wait for the chain at start-up. The text of the settings file, answers of the
  server (\<^const>\<open>None\<close> when the request fails), measured latencies, the address of the own machine and the
  expansion of paths by the crate \<open>shellexpand\<close> are arguments. It is the release build: network
  parameters in the file are ignored.
\<close>

section \<open>Settings\<close>

record node_settings =
  data_dir :: string
  p2p_bind_addr :: string
  p2p_port :: u16
  http_bind_addr :: string
  http_port :: u16
  public_rpc_port :: u16
  eth_rpc_bind_addr :: string
  eth_rpc_port :: u16
  dns_server_url :: string
  bootstrap_peers :: "string list"

definition default_settings :: "string \<Rightarrow> node_settings" where
  "default_settings dir = \<lparr>data_dir = dir, p2p_bind_addr = ''0.0.0.0'', p2p_port = 8335, http_bind_addr = ''127.0.0.1'',
     http_port = 19533, public_rpc_port = 18533, eth_rpc_bind_addr = ''127.0.0.1'', eth_rpc_port = 8545,
     dns_server_url = ''http://161.33.19.183:8053'', bootstrap_peers = []\<rparr>"

definition split_once :: "char \<Rightarrow> string \<Rightarrow> (string \<times> string) option" where
  "split_once c s = (if c \<in> set s then Some (takeWhile (\<lambda>x. x \<noteq> c) s, tl (dropWhile (\<lambda>x. x \<noteq> c) s)) else None)"

definition parse_port :: "u16 \<Rightarrow> string \<Rightarrow> u16" where
  "parse_port old value = (case from_str_radix 16 10 value of Some n \<Rightarrow> of_nat n | None \<Rightarrow> old)"

definition set_setting :: "(string \<Rightarrow> string) \<Rightarrow> string \<Rightarrow> string \<Rightarrow> node_settings \<Rightarrow> node_settings" where
  "set_setting expand key value s =
     (if key = ''DATA_DIR'' then s\<lparr>data_dir := expand value\<rparr>
      else if key = ''P2P_BIND_ADDR'' then s\<lparr>p2p_bind_addr := value\<rparr>
      else if key = ''P2P_PORT'' then s\<lparr>p2p_port := parse_port (p2p_port s) value\<rparr>
      else if key = ''HTTP_BIND_ADDR'' then s\<lparr>http_bind_addr := value\<rparr>
      else if key = ''HTTP_PORT'' then s\<lparr>http_port := parse_port (http_port s) value\<rparr>
      else if key = ''PUBLIC_RPC_PORT'' then s\<lparr>public_rpc_port := parse_port (public_rpc_port s) value\<rparr>
      else if key = ''ETH_RPC_BIND_ADDR'' then s\<lparr>eth_rpc_bind_addr := value\<rparr>
      else if key = ''ETH_RPC_PORT'' then s\<lparr>eth_rpc_port := parse_port (eth_rpc_port s) value\<rparr>
      else if key = ''DNS_SERVER_URL'' then s\<lparr>dns_server_url := value\<rparr>
      else if key = ''BOOTSTRAP_PEERS''
        then s\<lparr>bootstrap_peers := filter (\<lambda>e. e \<noteq> []) (map trim (split_on (CHR '','') value))\<rparr>
      else s)"

definition load_line :: "(string \<Rightarrow> string) \<Rightarrow> string \<Rightarrow> node_settings \<Rightarrow> node_settings" where
  "load_line expand raw_line s =
     (let line = trim raw_line
      in if line = [] \<or> starts_with ''#'' line then s
         else (case split_once (CHR ''='') line of
                 Some (key, value) \<Rightarrow> set_setting expand (trim key) (trim value) s
               | None \<Rightarrow> s))"

definition load_node_settings :: "(string \<Rightarrow> string) \<Rightarrow> string \<Rightarrow> string option \<Rightarrow> node_settings" where
  "load_node_settings expand dir contents =
     (let settings = (case contents of
             Some text \<Rightarrow> fold (load_line expand) (split_on (CHR 0x0A) text) (default_settings dir)
           | None \<Rightarrow> default_settings dir)
      in settings\<lparr>data_dir := expand (data_dir settings)\<rparr>)"

section \<open>Registration\<close>

definition register_payload :: "string \<Rightarrow> node_settings \<Rightarrow> u64 \<Rightarrow> register_request" where
  "register_payload version settings height =
     \<lparr>rq_address = None, rq_port = p2p_port settings, rq_version = version, rq_height = height\<rparr>"

definition register_answer :: "register_response option \<Rightarrow> string option" where
  "register_answer answer =
     (case answer of
        Some r \<Rightarrow> if 200 \<le> rs_status r \<and> rs_status r < 300 then Some (rs_address r) else None
      | None \<Rightarrow> None)"

text \<open>The manager's own client sends its current height.\<close>

definition manager_payload :: "string \<Rightarrow> u16 \<Rightarrow> peer_manager \<Rightarrow> register_request" where
  "manager_payload version my_port m =
     \<lparr>rq_address = None, rq_port = my_port, rq_version = version, rq_height = pm_height m\<rparr>"

definition fetch_peers_from_dns :: "(nat \<times> node_info list) option \<Rightarrow> string list option" where
  "fetch_peers_from_dns answer =
     map_option (\<lambda>(status, ns). if 200 \<le> status \<and> status < 300
       then map (\<lambda>n. ni_address n @ '':'' @ show_nat (unat (ni_port n))) ns else []) answer"

text \<open>The start of the services ends the process (\<^const>\<open>None\<close>) when the registration fails.\<close>

definition announce :: "register_response option \<Rightarrow> peer_manager \<Rightarrow> peer_manager option" where
  "announce answer m = map_option (\<lambda>a. m\<lparr>my_public_ip := Some a\<rparr>) (register_answer answer)"

definition reannounce :: "register_response option \<Rightarrow> peer_manager \<Rightarrow> peer_manager" where
  "reannounce answer m = (case register_answer answer of Some a \<Rightarrow> m\<lparr>my_public_ip := Some a\<rparr> | None \<Rightarrow> m)"

section \<open>The best nodes\<close>

record scored_peer =
  sp_address :: string
  sp_height :: u64
  sp_uptime_hours :: f64
  sp_latency_ms :: u64
  sp_score :: f64

definition node_id :: "node_info \<Rightarrow> string" where
  "node_id n = ni_address n @ '':'' @ show_nat (unat (ni_port n))"

definition is_candidate :: "string option \<Rightarrow> u16 \<Rightarrow> node_info \<Rightarrow> bool" where
  "is_candidate my_address my_port node \<longleftrightarrow>
     (case my_address of
        Some ip \<Rightarrow> node_id node \<noteq> ip @ '':'' @ show_nat (unat my_port)
      | None \<Rightarrow> True) \<and>
     ni_address node \<notin> {''127.0.0.1'', ''localhost'', ''::1''}"

definition test_addr :: "string \<Rightarrow> string option \<Rightarrow> node_info \<Rightarrow> string" where
  "test_addr localhost_ip my_address node =
     (if my_address = Some (ni_address node) then localhost_ip @ '':'' @ show_nat (unat (ni_port node)) else node_id node)"

definition probe :: "string \<Rightarrow> (string \<Rightarrow> u64 option) \<Rightarrow> string option \<Rightarrow> node_info list \<Rightarrow> scored_peer list" where
  "probe localhost_ip latency my_address candidates = List.map_filter (\<lambda>node.
     map_option (\<lambda>ms. \<lparr>sp_address = node_id node, sp_height = ni_height node, sp_uptime_hours = ni_uptime_hours node,
       sp_latency_ms = ms, sp_score = Fin 0\<rparr>) (latency (test_addr localhost_ip my_address node))) candidates"

definition peer_score :: "f64 \<Rightarrow> f64 \<Rightarrow> f64 \<Rightarrow> scored_peer \<Rightarrow> f64" where
  "peer_score max_height min_latency max_latency peer =
     (let height_score = f64_mul (f64_div (f64_of_int (uint (sp_height peer))) (f64_max max_height (Fin 1))) (f64_round (3 / 10));
          uptime_score = f64_mul (f64_div (f64_min (sp_uptime_hours peer) (Fin 168)) (Fin 168)) (f64_round (2 / 10));
          latency_normalized =
            (if f64_lt min_latency max_latency
             then f64_sub (Fin 1) (f64_div (f64_sub (f64_of_int (uint (sp_latency_ms peer))) min_latency) (f64_sub max_latency min_latency))
             else Fin 1);
          latency_score = f64_mul latency_normalized (Fin (1 / 2))
      in f64_add (f64_add height_score uptime_score) latency_score)"

definition score_peers :: "scored_peer list \<Rightarrow> scored_peer list" where
  "score_peers ps =
     (let max_height = f64_of_int (uint (fold max (map sp_height ps) 0));
          min_latency = f64_of_int (uint (fold min (map sp_latency_ms ps) (- 1)));
          max_latency = f64_of_int (uint (fold max (map sp_latency_ms ps) 0))
      in map (\<lambda>p. p\<lparr>sp_score := peer_score max_height min_latency max_latency p\<rparr>) ps)"

definition fetch_best_nodes_from_dns :: "string \<Rightarrow> (string \<Rightarrow> u64 option) \<Rightarrow> string option \<Rightarrow> u16 \<Rightarrow> nat
    \<Rightarrow> node_info list option \<Rightarrow> string list option" where
  "fetch_best_nodes_from_dns localhost_ip latency my_address my_port limit answer =
     map_option (\<lambda>ns.
       let candidates = filter (is_candidate my_address my_port) ns;
           scored_peers = probe localhost_ip latency my_address candidates
       in if scored_peers = [] then take limit (map node_id candidates)
          else map sp_address (take limit (sort_desc sp_score (score_peers scored_peers)))) answer"

section \<open>Fallback and connections\<close>

definition normalize_peer :: "u16 \<Rightarrow> string \<Rightarrow> string" where
  "normalize_peer my_port trimmed =
     (if CHR '':'' \<in> set trimmed then trimmed else trimmed @ '':'' @ show_nat (unat my_port))"

text \<open>The loop over one of the two lists: the targets so far, and whether the limit was reached.\<close>

fun add_targets :: "string option \<Rightarrow> nat \<Rightarrow> string list \<Rightarrow> string list \<Rightarrow> string list \<times> bool" where
  "add_targets my_id limit [] targets = (targets, False)"
| "add_targets my_id limit (a # as) targets =
     (if a = [] \<or> my_id = Some a then add_targets my_id limit as targets
      else let targets' = (if a \<in> set targets then targets else targets @ [a])
           in if length targets' \<ge> limit then (targets', True) else add_targets my_id limit as targets')"

definition build_fallback_peer_targets :: "node_settings \<Rightarrow> string list \<Rightarrow> string option \<Rightarrow> u16 \<Rightarrow> nat \<Rightarrow> string list" where
  "build_fallback_peer_targets settings saved public_ip my_port limit =
     (let my_public_id = map_option (\<lambda>ip. ip @ '':'' @ show_nat (unat my_port)) public_ip;
          boot = map (\<lambda>t. if t = [] then [] else normalize_peer my_port t) (map trim (bootstrap_peers settings));
          (targets, full) = add_targets my_public_id limit boot []
      in if full then targets else fst (add_targets my_public_id limit (map trim saved) targets))"

definition connection_addr :: "string \<Rightarrow> string option \<Rightarrow> string \<Rightarrow> string" where
  "connection_addr localhost_ip public_ip addr =
     (case (public_ip, split_once (CHR '':'') addr) of
        (Some my_ip, Some (peer_ip, peer_port)) \<Rightarrow> if peer_ip = my_ip then localhost_ip @ '':'' @ peer_port else addr
      | _ \<Rightarrow> addr)"

definition discovery_targets :: "node_settings \<Rightarrow> string list \<Rightarrow> string option \<Rightarrow> string list \<Rightarrow> string list" where
  "discovery_targets settings saved public_ip found =
     (if found = [] then build_fallback_peer_targets settings saved public_ip (p2p_port settings) 10 else found)"

text \<open>The first round falls back on an error too; a later one (\<open>refresh\<close>) skips its turn.\<close>

definition discovery_round :: "bool \<Rightarrow> (string \<Rightarrow> (string \<times> bool \<times> 16 word) option) \<Rightarrow> net_identity \<Rightarrow> (string \<Rightarrow> bool) \<Rightarrow> string
    \<Rightarrow> (string \<Rightarrow> u64 option) \<Rightarrow> node_settings \<Rightarrow> string list \<Rightarrow> node_info list option \<Rightarrow> peer_manager \<Rightarrow> peer_manager" where
  "discovery_round refresh sock net reached localhost_ip latency settings saved answer m =
     (case fetch_best_nodes_from_dns localhost_ip latency (my_public_ip m) (p2p_port settings) 10 answer of
        None \<Rightarrow> if refresh then m
          else connect_all sock net reached (map (connection_addr localhost_ip (my_public_ip m))
                 (discovery_targets settings saved (my_public_ip m) [])) m
      | Some found \<Rightarrow> connect_all sock net reached (map (connection_addr localhost_ip (my_public_ip m))
          (discovery_targets settings saved (my_public_ip m) found)) m)"

section \<open>Waiting for the chain\<close>

datatype wait = Skipped | UpToDate | Wait u64 | Complete u64 | HandOff

definition startup_sync :: "'v prims \<Rightarrow> ((string \<times> u64) list \<Rightarrow> (string \<times> u64) list) \<Rightarrow> nat \<Rightarrow> 'v blockchain \<Rightarrow> peer_manager \<Rightarrow> wait" where
  "startup_sync P ord now bc m =
     (if get_peer_heights m = [] then Skipped
      else
        let initial_height = tip_height P bc;
            target = (case get_best_sync_peer ord BAN_DURATION now m of Some (_, h) \<Rightarrow> h | None \<Rightarrow> 0)
        in if initial_height \<ge> target then UpToDate else Wait target)"

text \<open>One poll of the loop, with the target of the start.\<close>

definition startup_poll :: "'v prims \<Rightarrow> ((string \<times> u64) list \<Rightarrow> (string \<times> u64) list) \<Rightarrow> nat \<Rightarrow> u64 \<Rightarrow> 'v blockchain \<Rightarrow> peer_manager \<Rightarrow> wait" where
  "startup_poll P ord now target bc m =
     (let current = (case Option.bind (chain_tip bc) (\<lambda>h. case load_header P bc h of Ok hdr \<Rightarrow> hdr | Err _ \<Rightarrow> None) of
            Some hdr \<Rightarrow> index hdr + 1 | None \<Rightarrow> 0);
          best = get_best_sync_peer ord BAN_DURATION now m;
          current_target = (case best of Some (_, h) \<Rightarrow> h | None \<Rightarrow> target)
      in if current \<ge> current_target then Complete current
         else if get_connected_peer_count m = 0 then HandOff
         else if best = None then HandOff
         else Wait target)"

section \<open>What is chosen\<close>

lemma set_sort_desc: "set (sort_desc f xs) = set xs"
  using mset_sort_desc[of f xs] by (metis set_mset_mset)

lemma length_sort_desc: "length (sort_desc f xs) = length xs"
  using mset_sort_desc[of f xs] by (metis size_mset)

lemma score_addresses: "sp_address ` set (score_peers ps) = sp_address ` set ps" "length (score_peers ps) = length ps"
  by (auto simp: score_peers_def Let_def image_image)

lemma probe_addresses:
  "sp_address ` set (probe lh latency me ns) = node_id ` {n \<in> set ns. latency (test_addr lh me n) \<noteq> None}"
proof -
  have "set (probe lh latency me ns) = {p. \<exists>n\<in>set ns. map_option (\<lambda>ms. \<lparr>sp_address = node_id n, sp_height = ni_height n,
      sp_uptime_hours = ni_uptime_hours n, sp_latency_ms = ms, sp_score = Fin 0\<rparr>) (latency (test_addr lh me n)) = Some p}"
    by (force simp: probe_def List.map_filter_def image_iff)
  then show ?thesis by (fastforce simp: image_iff)
qed

lemma probe_length: "length (probe lh latency me ns) \<le> length ns"
  by (simp add: probe_def List.map_filter_def)

lemma candidateD:
  assumes "is_candidate me port n"
  shows "ni_address n \<notin> {''127.0.0.1'', ''localhost'', ''::1''} \<and> (\<forall>ip. me = Some ip \<longrightarrow> node_id n \<noteq> ip @ '':'' @ show_nat (unat port))"
  using assms by (auto simp: is_candidate_def)

text \<open>
  The chosen targets are nodes of the answer, at most \<open>limit\<close>, never the node itself nor the own machine;
  and if any candidate answered the probe, then only nodes that did.
\<close>

theorem discovered_targets_sound:
  assumes "fetch_best_nodes_from_dns lh latency me port limit (Some ns) = Some targets"
  shows "length targets \<le> limit \<and>
    (\<forall>t\<in>set targets. \<exists>n\<in>set ns. t = node_id n \<and> ni_address n \<notin> {''127.0.0.1'', ''localhost'', ''::1''} \<and>
      (\<forall>ip. me = Some ip \<longrightarrow> t \<noteq> ip @ '':'' @ show_nat (unat port)) \<and>
      (latency (test_addr lh me n) \<noteq> None \<or> (\<forall>c\<in>set ns. is_candidate me port c \<longrightarrow> latency (test_addr lh me c) = None)))"
proof -
  let ?cs = "filter (is_candidate me port) ns"
  let ?ps = "probe lh latency me ?cs"
  show ?thesis
  proof (cases "?ps = []")
    case True
    then have t: "targets = take limit (map node_id ?cs)" using assms by (simp add: fetch_best_nodes_from_dns_def Let_def)
    have none: "\<forall>c\<in>set ?cs. latency (test_addr lh me c) = None" using probe_addresses[of lh latency me ?cs] True by auto
    have "set targets \<subseteq> node_id ` set ?cs" unfolding t using set_take_subset[of limit "map node_id ?cs"] by simp
    then have "\<forall>t\<in>set targets. \<exists>n\<in>set ns. t = node_id n \<and> is_candidate me port n" by auto
    moreover have "length targets \<le> limit" unfolding t by simp
    moreover have "\<forall>c\<in>set ns. is_candidate me port c \<longrightarrow> latency (test_addr lh me c) = None" using none by auto
    ultimately show ?thesis using candidateD[of me port] by metis
  next
    case False
    let ?s = "sort_desc sp_score (score_peers ?ps)"
    have t: "targets = map sp_address (take limit ?s)" using assms False by (simp add: fetch_best_nodes_from_dns_def Let_def)
    have "set targets \<subseteq> sp_address ` set ?s" unfolding t by (auto dest: in_set_takeD)
    also have "\<dots> = node_id ` {n \<in> set ?cs. latency (test_addr lh me n) \<noteq> None}"
      by (simp add: set_sort_desc score_addresses probe_addresses)
    finally have "\<forall>t\<in>set targets. \<exists>n\<in>set ns. t = node_id n \<and> is_candidate me port n \<and> latency (test_addr lh me n) \<noteq> None" by fastforce
    moreover have "length targets \<le> limit" unfolding t by simp
    ultimately show ?thesis using candidateD[of me port] by metis
  qed
qed

section \<open>A small network finds itself\<close>

lemma public_not_local:
  assumes "parse_ip a = Some ip" "is_public_ip ip"
  shows "a \<notin> {''127.0.0.1'', ''localhost'', ''::1''}"
proof -
  have "parse_ip ''127.0.0.1'' = Some (V4 127 0 0 1)" "parse_ip ''localhost'' = None" "parse_ip ''::1'' = Some (V6 [0, 0, 0, 0, 0, 0, 0, 1])"
    by code_simp+
  then show ?thesis using assms by auto
qed

lemma all_reachable:
  assumes "\<forall>c\<in>set ns. is_candidate me port c \<longrightarrow> latency (test_addr lh me c) \<noteq> None" "length ns \<le> limit"
  shows "\<exists>targets. fetch_best_nodes_from_dns lh latency me port limit (Some ns) = Some targets \<and>
    set targets = node_id ` {n \<in> set ns. is_candidate me port n}"
proof -
  let ?cs = "filter (is_candidate me port) ns"
  let ?ps = "probe lh latency me ?cs"
  have a: "sp_address ` set ?ps = node_id ` set ?cs" using assms(1) by (auto simp: probe_addresses)
  have l: "length ?ps \<le> limit" "length ?cs \<le> limit"
    using probe_length[of lh latency me ?cs] length_filter_le[of "is_candidate me port" ns] assms(2) by linarith+
  show ?thesis
  proof (cases "?ps = []")
    case True
    then show ?thesis using a l by (auto simp: fetch_best_nodes_from_dns_def Let_def)
  next
    case False
    then show ?thesis using a l by (auto simp: fetch_best_nodes_from_dns_def Let_def length_sort_desc score_addresses set_sort_desc)
  qed
qed

text \<open>
  C22. Server and nodes together: while at most \<open>limit\<close> nodes are registered and all of them can be reached, a
  node that asks the server is given exactly the other registered nodes, whatever registrations, clean-ups
  and health checks came before.
\<close>

theorem small_network_discovered:
  assumes "dns_step\<^sup>*\<^sup>* (app_new age) st" "arranges ord" "length (nodes st) \<le> limit"
    and "get_nodes ord now (Some (limit * 3)) None st = (answer, n)"
    and "\<And>k x. hm_get (nodes st) k = Some x \<Longrightarrow> k \<noteq> my_ip @ '':'' @ show_nat (unat port) \<Longrightarrow>
      latency (test_addr lh (Some my_ip) x) \<noteq> None"
  shows "\<exists>targets. fetch_best_nodes_from_dns lh latency (Some my_ip) port limit (Some answer) = Some targets \<and>
    set targets = set (hm_keys (nodes st)) - {my_ip @ '':'' @ show_nat (unat port)}"
proof -
  let ?me = "my_ip @ '':'' @ show_nat (unat port)"
  have r: "registry_ok st" by (rule reachable_registry_ok[OF assms(1)])
  obtain rest where rest: "mset (answer @ rest) = eligible_nodes None st" "n = length answer"
    "n = min (limit * 3) (size (eligible_nodes None st))"
    using listed_best[OF assms(1,2,4)] by auto
  have e: "eligible_nodes None st = mset (map snd (nodes st))" by (simp add: eligible_nodes_def)
  have "length answer = length (nodes st)" using rest(2,3) assms(3) e by simp
  moreover have "length (answer @ rest) = length (nodes st)" using rest(1) e by (metis length_map size_mset)
  ultimately have "rest = []" by simp
  then have m: "mset answer = mset (map snd (nodes st))" using rest(1) e by simp
  have set_eq: "set answer = snd ` set (nodes st)" using mset_eq_setD[OF m] by simp
  have key: "x \<in> set answer \<longleftrightarrow> (\<exists>k. hm_get (nodes st) k = Some x)" for x
  proof -
    have "(k, x) \<in> set (nodes st) \<longleftrightarrow> hm_get (nodes st) k = Some x" for k using r by (auto simp: registry_ok_def hm_entry_iff)
    moreover have "x \<in> snd ` set (nodes st) \<longleftrightarrow> (\<exists>k. (k, x) \<in> set (nodes st))" by force
    ultimately show ?thesis unfolding set_eq by blast
  qed
  have ok: "node_id x = k \<and> (is_candidate (Some my_ip) port x \<longleftrightarrow> k \<noteq> ?me)" if "hm_get (nodes st) k = Some x" for k x
  proof -
    have "node_ok k x" using r that unfolding registry_ok_def by blast
    then obtain ip where "k = node_id x" "parse_ip (ni_address x) = Some ip" "is_public_ip ip"
      unfolding node_ok_def node_id_def by blast
    then show ?thesis using public_not_local[of "ni_address x" ip] by (auto simp: is_candidate_def)
  qed
  have len: "length answer \<le> limit" using \<open>length answer = length (nodes st)\<close> assms(3) by simp
  have "\<forall>c\<in>set answer. is_candidate (Some my_ip) port c \<longrightarrow> latency (test_addr lh (Some my_ip) c) \<noteq> None"
    using assms(5) ok key by blast
  from all_reachable[OF this len] obtain targets where
    t: "fetch_best_nodes_from_dns lh latency (Some my_ip) port limit (Some answer) = Some targets"
    "set targets = node_id ` {x \<in> set answer. is_candidate (Some my_ip) port x}" by blast
  have "set targets = set (hm_keys (nodes st)) - {?me}"
    unfolding t(2) using ok key by (auto simp: hm_keys_iff image_iff) blast+
  then show ?thesis using t(1) by blast
qed

section \<open>Fallback\<close>

lemma add_targets_keep: "set ts \<subseteq> set (fst (add_targets my_id limit as ts))"
  by (induction my_id limit as ts rule: add_targets.induct) (auto simp: Let_def)

lemma add_targets_full: "snd (add_targets my_id limit as ts) \<Longrightarrow> limit \<le> length (fst (add_targets my_id limit as ts))"
  by (induction my_id limit as ts rule: add_targets.induct) (auto simp: Let_def split: if_splits)

lemma add_targets_sound:
  assumes "distinct ts" "length ts < limit" "[] \<notin> set ts" "my_id \<notin> Some ` set ts"
  shows "distinct (fst (add_targets my_id limit as ts)) \<and> length (fst (add_targets my_id limit as ts)) \<le> limit \<and>
    [] \<notin> set (fst (add_targets my_id limit as ts)) \<and> my_id \<notin> Some ` set (fst (add_targets my_id limit as ts)) \<and>
    set (fst (add_targets my_id limit as ts)) \<subseteq> set ts \<union> set as \<and>
    (\<not> snd (add_targets my_id limit as ts) \<longrightarrow> length (fst (add_targets my_id limit as ts)) < limit \<and>
      (\<forall>a\<in>set as. a \<noteq> [] \<and> my_id \<noteq> Some a \<longrightarrow> a \<in> set (fst (add_targets my_id limit as ts))))"
  using assms
proof (induction my_id limit as ts rule: add_targets.induct)
  case (2 my_id limit a as ts)
  define ts' where "ts' = (if a \<in> set ts then ts else ts @ [a])"
  show ?case
  proof (cases "a = [] \<or> my_id = Some a")
    case True
    then show ?thesis using 2 by auto
  next
    case False
    have t: "distinct ts'" "[] \<notin> set ts'" "my_id \<notin> Some ` set ts'" "length ts' \<le> limit" "set ts' = insert a (set ts)"
      using False "2.prems" by (auto simp: ts'_def)
    show ?thesis
    proof (cases "length ts' \<ge> limit")
      case True
      then show ?thesis using False t by (auto simp: ts'_def[symmetric])
    next
      case less: False
      have e: "add_targets my_id limit (a # as) ts = add_targets my_id limit as ts'" using False less by (auto simp: ts'_def)
      show ?thesis unfolding e using "2.IH"(2)[OF False ts'_def] less t add_targets_keep[of ts' my_id limit as] by auto
    qed
  qed
qed auto

definition own_id :: "string option \<Rightarrow> u16 \<Rightarrow> string option" where
  "own_id public_ip port = map_option (\<lambda>ip. ip @ '':'' @ show_nat (unat port)) public_ip"

definition configured_peers :: "u16 \<Rightarrow> node_settings \<Rightarrow> string set" where
  "configured_peers port settings = {normalize_peer port (trim e) | e. e \<in> set (bootstrap_peers settings) \<and> trim e \<noteq> []}"

lemma normalized_not_empty: "t \<noteq> [] \<Longrightarrow> normalize_peer port t \<noteq> []"
  by (simp add: normalize_peer_def)

lemma configured_list:
  "set (map (\<lambda>t. if t = [] then [] else normalize_peer port t) (map trim (bootstrap_peers settings))) - {[]} =
    configured_peers port settings"
  by (auto simp: configured_peers_def normalized_not_empty)

text \<open>
  The fallback targets are distinct, not empty, not the node itself, within the limit, taken from the
  configured and the saved peers; and every such peer but the node itself is among them unless the limit is
  reached.
\<close>

theorem fallback_targets_sound:
  assumes "0 < limit" "targets = build_fallback_peer_targets settings saved public_ip port limit"
  shows "distinct targets \<and> length targets \<le> limit \<and>
    set targets \<subseteq> (configured_peers port settings \<union> trim ` set saved) - {a. a = [] \<or> own_id public_ip port = Some a} \<and>
    (length targets < limit \<longrightarrow>
      set targets = (configured_peers port settings \<union> trim ` set saved) - {a. a = [] \<or> own_id public_ip port = Some a})"
proof -
  let ?me = "own_id public_ip port"
  let ?boot = "map (\<lambda>t. if t = [] then [] else normalize_peer port t) (map trim (bootstrap_peers settings))"
  obtain ts full where a: "add_targets ?me limit ?boot [] = (ts, full)" by force
  have 1: "distinct ts \<and> length ts \<le> limit \<and> [] \<notin> set ts \<and> ?me \<notin> Some ` set ts \<and> set ts \<subseteq> set ?boot \<and>
    (\<not> full \<longrightarrow> length ts < limit \<and> (\<forall>a\<in>set ?boot. a \<noteq> [] \<and> ?me \<noteq> Some a \<longrightarrow> a \<in> set ts))"
    using add_targets_sound[of "[]" limit ?me ?boot] assms(1) unfolding a by simp
  note boot = configured_list[of port settings]
  show ?thesis
  proof (cases full)
    case True
    have t: "targets = ts" using assms(2) a True by (simp add: build_fallback_peer_targets_def Let_def own_id_def)
    have "\<not> length ts < limit" using add_targets_full[of ?me limit ?boot "[]"] a True by simp
    moreover have "set ts \<subseteq> configured_peers port settings" unfolding boot[symmetric] using 1 by blast
    ultimately show ?thesis unfolding t using 1 by blast
  next
    case False
    let ?r = "add_targets ?me limit (map trim saved) ts"
    have t: "targets = fst ?r" using assms(2) a False by (simp add: build_fallback_peer_targets_def Let_def own_id_def)
    have b: "set ts = configured_peers port settings - {a. a = [] \<or> ?me = Some a}" unfolding boot[symmetric] using 1 False by blast
    have 2: "distinct (fst ?r) \<and> length (fst ?r) \<le> limit \<and> [] \<notin> set (fst ?r) \<and> ?me \<notin> Some ` set (fst ?r) \<and>
      set (fst ?r) \<subseteq> set ts \<union> set (map trim saved) \<and>
      (\<not> snd ?r \<longrightarrow> (\<forall>a\<in>set (map trim saved). a \<noteq> [] \<and> ?me \<noteq> Some a \<longrightarrow> a \<in> set (fst ?r)))"
      using add_targets_sound[of ts limit ?me "map trim saved"] 1 False by blast
    have k: "set ts \<subseteq> set (fst ?r)" by (rule add_targets_keep)
    have f: "length (fst ?r) < limit \<longrightarrow> \<not> snd ?r" using add_targets_full[of ?me limit "map trim saved" ts] by linarith
    have sub: "set (fst ?r) \<subseteq> (configured_peers port settings \<union> trim ` set saved) - {a. a = [] \<or> ?me = Some a}"
      using 2 b by auto
    have "length (fst ?r) < limit \<longrightarrow>
        (configured_peers port settings \<union> trim ` set saved) - {a. a = [] \<or> ?me = Some a} \<subseteq> set (fst ?r)"
      using 2 b k f by auto
    then show ?thesis unfolding t using 2 sub by blast
  qed
qed


section \<open>The end of the wait\<close>

text \<open>
  The loop counts blocks where the peers count heights: with the tip one below the best peer, the wait
  already ends, and reports the height it does not have yet.
\<close>

lemma startup_sync_one_short:
  assumes "chain_tip bc = Some h" "load_header P bc h = Ok (Some hdr)" "unat (index hdr) + 1 < 2 ^ 64"
    "get_best_sync_peer ord BAN_DURATION now m = Some (p, index hdr + 1)"
  shows "startup_poll P ord now target bc m = Complete (index hdr + 1)" "index hdr < index hdr + 1"
proof -
  show "startup_poll P ord now target bc m = Complete (index hdr + 1)"
    by (simp add: startup_poll_def assms)
  show "index hdr < index hdr + 1"
    using assms(3) by (simp add: word_less_nat_alt unat_word_ariths)
qed

text \<open>Otherwise it ends only at the best peer's height, or without anyone to ask.\<close>

lemma startup_poll_waits:
  assumes "chain_tip bc = Some h" "load_header P bc h = Ok (Some hdr)"
    "get_best_sync_peer ord BAN_DURATION now m = Some (p, best)" "index hdr + 1 < best" "get_connected_peer_count m \<noteq> 0"
  shows "startup_poll P ord now target bc m = Wait target"
  using assms by (simp add: startup_poll_def Let_def not_le)

section \<open>Examples\<close>

theorem discovered_targets_sound_witness:
  "\<exists>targets. fetch_best_nodes_from_dns ''127.0.0.1'' (\<lambda>_. Some 5) (Some ''1.1.1.1'') 8335 10
    (Some [snd (hd (nodes sample_registered))]) = Some targets \<and> length targets \<le> 10"
proof -
  obtain targets where t: "fetch_best_nodes_from_dns ''127.0.0.1'' (\<lambda>_. Some 5) (Some ''1.1.1.1'') 8335 10
    (Some [snd (hd (nodes sample_registered))]) = Some targets" by (simp add: fetch_best_nodes_from_dns_def)
  show ?thesis using discovered_targets_sound[OF t] t by blast
qed

theorem small_network_discovered_witness:
  "\<exists>answer n targets. get_nodes id 200 (Some (10 * 3)) None sample_registered = (answer, n) \<and>
    fetch_best_nodes_from_dns ''127.0.0.1'' (\<lambda>_. Some 5) (Some ''1.1.1.1'') 8335 10 (Some answer) = Some targets \<and>
    set targets = {''8.8.8.8:8335''}"
proof -
  obtain answer n where g: "get_nodes id 200 (Some (10 * 3)) None sample_registered = (answer, n)" by fastforce
  have a: "arranges id" by (simp add: arranges_def)
  have l: "length (nodes sample_registered) \<le> 10" by (simp add: sample_nodes)
  have u: "unat (8335 :: u16) = 8335" by simp
  have "\<exists>targets. fetch_best_nodes_from_dns ''127.0.0.1'' (\<lambda>_. Some 5) (Some ''1.1.1.1'') 8335 10 (Some answer) = Some targets \<and>
    set targets = set (hm_keys (nodes sample_registered)) - {''1.1.1.1'' @ '':'' @ show_nat (unat (8335 :: u16))}"
    by (rule small_network_discovered[OF sample_registry a l g]) simp
  then show ?thesis using g by (auto simp: sample_nodes hm_keys_def)
qed

theorem fallback_targets_sound_witness:
  "build_fallback_peer_targets ((default_settings ''d'')\<lparr>bootstrap_peers := ['' 9.9.9.9 '']\<rparr>) [''1.1.1.1:8335'', ''8.8.8.8:80''] (Some ''1.1.1.1'') 8335 10
     = [''9.9.9.9:8335'', ''8.8.8.8:80''] \<and> distinct [''9.9.9.9:8335'', ''8.8.8.8:80'']"
proof -
  have b: "[''9.9.9.9:8335'', ''8.8.8.8:80''] = build_fallback_peer_targets ((default_settings ''d'')\<lparr>bootstrap_peers := ['' 9.9.9.9 '']\<rparr>)
      [''1.1.1.1:8335'', ''8.8.8.8:80''] (Some ''1.1.1.1'') 8335 10" by code_simp
  show ?thesis using fallback_targets_sound[OF _ b] b by simp
qed

end
