(* ===== verification/Miner.thy ===== *)
theory Miner
  imports Cuda_Miner Pool Discovery
begin

text \<open>
  The miner process \<open>miner/src/main.rs\<close>: its settings, its status, one round of solo mining against a node,
  and the stratum session with a pool as a step function on lines received and results of the search.
  The file of settings, the wallet file (parsed as JSON), the answers of the node and the measured hash rate
  are arguments. The dashboard's page and the sockets are left out. \<^const>\<open>None\<close> is a search that never
  ends or, in a solo round, the overflow of the reward, which panics.
\<close>

section \<open>Status and settings\<close>

record miner_status =
  mn_mode :: string
  mn_hashrate_mhs :: f64
  mn_miner_address :: string
  mn_worker_name :: string
  mn_started_at :: int
  mn_uptime_secs :: u64
  mn_pool_connected :: bool
  mn_pool_url :: string
  mn_pool_diff :: u32
  mn_shares_accepted :: u64
  mn_shares_rejected :: u64
  mn_current_height :: u64
  mn_blocks_found :: u64

definition miner_status_new :: "int \<Rightarrow> string \<Rightarrow> string \<Rightarrow> string \<Rightarrow> string \<Rightarrow> miner_status" where
  "miner_status_new now mode miner_address worker_name pool_url =
     \<lparr>mn_mode = mode, mn_hashrate_mhs = Fin 0, mn_miner_address = miner_address, mn_worker_name = worker_name,
      mn_started_at = now, mn_uptime_secs = 0, mn_pool_connected = False, mn_pool_url = pool_url, mn_pool_diff = 0,
      mn_shares_accepted = 0, mn_shares_rejected = 0, mn_current_height = 0, mn_blocks_found = 0\<rparr>"

definition refresh_uptime :: "int \<Rightarrow> miner_status \<Rightarrow> miner_status" where
  "refresh_uptime now s = s\<lparr>mn_uptime_secs := of_int (max (i64 (now - mn_started_at s)) 0)\<rparr>"

datatype mining_mode = SoloMode | PoolMode

record miner_settings =
  mc_mode :: mining_mode
  mc_node_rpc_url :: string
  mc_pool_host :: string
  mc_pool_port :: u16
  mc_worker_name :: string
  mc_miner_address :: string
  mc_status_port :: u16

datatype settings_error = WalletUnreadable | WalletInvalid | NoAddress

definition miner_defaults :: "string \<Rightarrow> miner_settings" where
  "miner_defaults url =
     \<lparr>mc_mode = SoloMode, mc_node_rpc_url = url, mc_pool_host = ''127.0.0.1'', mc_pool_port = 3333,
      mc_worker_name = ''worker1'', mc_miner_address = [], mc_status_port = 8090\<rparr>"

definition miner_setting :: "string \<Rightarrow> string \<Rightarrow> miner_settings \<Rightarrow> miner_settings" where
  "miner_setting key value s =
     (if key = ''MINING_MODE'' then s\<lparr>mc_mode := (if to_lowercase value = ''pool'' then PoolMode else SoloMode)\<rparr>
      else if key = ''NODE_RPC_URL'' then s\<lparr>mc_node_rpc_url := value\<rparr>
      else if key = ''POOL_HOST'' then s\<lparr>mc_pool_host := value\<rparr>
      else if key = ''POOL_PORT'' then s\<lparr>mc_pool_port := parse_port (mc_pool_port s) value\<rparr>
      else if key = ''WORKER_NAME'' then s\<lparr>mc_worker_name := value\<rparr>
      else if key = ''STATUS_PORT'' then s\<lparr>mc_status_port := parse_port (mc_status_port s) value\<rparr>
      else s)"

definition miner_line :: "string \<Rightarrow> miner_settings \<Rightarrow> miner_settings" where
  "miner_line raw_line s =
     (let line = trim raw_line
      in if line = [] \<or> starts_with ''#'' line then s
         else (case split_once (CHR ''='') line of
                 Some (key, value) \<Rightarrow> miner_setting (trim key) (trim value) s
               | None \<Rightarrow> s))"

text \<open>The wallet file is unreadable, no JSON, or a JSON value.\<close>

definition miner_settings_load :: "string \<Rightarrow> string option \<Rightarrow> json option option \<Rightarrow> (settings_error, miner_settings) result" where
  "miner_settings_load url contents wallet_file =
     (let s = (case contents of Some text \<Rightarrow> fold miner_line (split_on (CHR 0x0A) text) (miner_defaults url) | None \<Rightarrow> miner_defaults url)
      in case wallet_file of
           None \<Rightarrow> Err WalletUnreadable
         | Some None \<Rightarrow> Err WalletInvalid
         | Some (Some wallet) \<Rightarrow>
             bind_res (ok_or NoAddress (as_str_json (json_index wallet ''address''))) (\<lambda>a. Ok (s\<lparr>mc_miner_address := a\<rparr>)))"

definition pool_leading_zeros_to_target :: "u32 \<Rightarrow> bytes" where
  "pool_leading_zeros_to_target n =
     (let zeros = unat (min n 63)
      in if zeros = 0 then replicate 32 255
         else let bit_pos = 256 - zeros * 4; byte_idx = 31 - bit_pos div 8; bit_in_byte = bit_pos mod 8
              in (replicate 32 0)[byte_idx := push_bit bit_in_byte 1])"

section \<open>The node's answers\<close>

record chain_view =
  cv_height :: u64
  cv_difficulty :: u32
  cv_tip_hash :: string

definition miner_fetch_status :: "json option \<Rightarrow> chain_view option" where
  "miner_fetch_status answer = map_option (\<lambda>v.
     let bc = json_get ''blockchain'' v
     in \<lparr>cv_height = unwrap_or 0 (member_u64 bc ''height''),
         cv_difficulty = ucast (unwrap_or 1 (member_u64 bc ''difficulty'')),
         cv_tip_hash = unwrap_or ''none'' (Option.bind (Option.bind bc (json_get ''chain_tip'')) as_str_json)\<rparr>) answer"

definition miner_fetch_mempool :: "u256_text \<Rightarrow> (transaction list \<times> string) option \<Rightarrow> (transaction list \<times> u256) option" where
  "miner_fetch_mempool T answer = map_option (\<lambda>(txs, fees). (txs, unwrap_or 0 (parse_u256 T fees))) answer"

definition miner_submit_block :: "json option \<Rightarrow> bool" where
  "miner_submit_block answer =
     (case answer of Some v \<Rightarrow> Option.bind (json_get ''status'' v) as_str_json = Some ''ok'' | None \<Rightarrow> False)"

section \<open>Solo mining\<close>

record solo_env =
  so_now :: int
  so_status :: "json option"
  so_mempool :: "(transaction list \<times> string) option"
  so_gpu :: gpu_env
  so_rate :: f64
  so_submit :: "block \<Rightarrow> json option"

text \<open>One round of the loop: the new status and cache, and the block that was handed to the node.\<close>

definition solo_round :: "'v prims \<Rightarrow> field_codec \<Rightarrow> u256_text \<Rightarrow> miner_settings \<Rightarrow> solo_env \<Rightarrow> miner_status \<times> dag_cache
    \<Rightarrow> (miner_status \<times> dag_cache \<times> block option) option" where
  "solo_round P F T S E sc =
     (let (st, cache) = sc in
      case miner_fetch_status (so_status E) of
        None \<Rightarrow> Some (st\<lparr>mn_hashrate_mhs := Fin 0\<rparr>, cache, None)
      | Some chain \<Rightarrow>
          let (mempool_txs, fees) = (case miner_fetch_mempool T (so_mempool E) of Some r \<Rightarrow> r | None \<Rightarrow> ([], 0));
              next_height = cv_height chain + 1;
              prev_hash = (if cv_tip_hash chain = ''none'' then replicate 64 CHR ''0'' else cv_tip_hash chain)
          in Option.bind (u256_add (calculate_block_reward next_height) fees) (\<lambda>reward.
             let st = st\<lparr>mn_current_height := next_height\<rparr>
             in map_option (\<lambda>(cache, mine_result).
                  let st = st\<lparr>mn_hashrate_mhs := f64_div (so_rate E) (Fin 1000000)\<rparr>
                  in case mine_result of
                       Ok block \<Rightarrow>
                         (if miner_submit_block (so_submit E block) then st\<lparr>mn_blocks_found := mn_blocks_found st + 1\<rparr> else st,
                          cache, Some block)
                     | Err _ \<Rightarrow> (st, cache, None))
                (mine_block_with_coinbase_cuda P F (so_gpu E) (so_now E) next_height prev_hash (cv_difficulty chain)
                   mempool_txs (mc_miner_address S) reward cache)))"

section \<open>Pool mining\<close>

record stratum_job =
  sj_job_id :: string
  sj_height :: u64
  sj_prev_hash :: string
  sj_merkle_root :: string
  sj_timestamp :: int
  sj_difficulty :: u32

record mining_task =
  tk_header :: block_header
  tk_target :: bytes

record stratum_state =
  ss_job :: "stratum_job option"
  ss_pool_diff :: u32
  ss_pool_target :: bytes
  ss_task :: "mining_task option"
  ss_status :: miner_status

definition worker_login :: "miner_settings \<Rightarrow> string" where
  "worker_login S = mc_miner_address S @ ''.'' @ mc_worker_name S"

definition stratum_login :: "string \<Rightarrow> miner_settings \<Rightarrow> json list" where
  "stratum_login version S =
     [JObj [(''id'', JInt 1), (''method'', JStr ''mining.subscribe''), (''params'', JArr [JStr (''Astram-miner/'' @ version)])],
      JObj [(''id'', JInt 2), (''method'', JStr ''mining.authorize''), (''params'', JArr [JStr (worker_login S), JStr ''x''])]]"

definition stratum_init :: "miner_status \<Rightarrow> stratum_state" where
  "stratum_init st = \<lparr>ss_job = None, ss_pool_diff = 1, ss_pool_target = pool_leading_zeros_to_target 1, ss_task = None, ss_status = st\<rparr>"

definition job_header :: "stratum_job \<Rightarrow> u64 \<Rightarrow> block_header" where
  "job_header j n = \<lparr>index = sj_height j, previous_hash = sj_prev_hash j, merkle_root = sj_merkle_root j,
     timestamp = sj_timestamp j, nonce = n, difficulty = sj_difficulty j\<rparr>"

definition param_at :: "nat \<Rightarrow> json list \<Rightarrow> (json \<Rightarrow> 'a option) \<Rightarrow> 'a option" where
  "param_at i params conv = (if i < length params then conv (params ! i) else None)"

definition on_set_difficulty :: "json \<Rightarrow> stratum_state \<Rightarrow> stratum_state" where
  "on_set_difficulty msg ss =
     (case Option.bind (Option.bind (json_get ''params'' msg) as_array) (\<lambda>a. param_at 0 a as_u64) of
        Some d \<Rightarrow> ss\<lparr>ss_pool_diff := ucast d, ss_pool_target := pool_leading_zeros_to_target (ucast d),
                    ss_status := (ss_status ss)\<lparr>mn_pool_diff := ucast d\<rparr>\<rparr>
      | None \<Rightarrow> ss)"

text \<open>The search under way is cancelled and waited for; what it found is dropped.\<close>

definition on_notify :: "json \<Rightarrow> stratum_state \<Rightarrow> stratum_state" where
  "on_notify msg ss =
     (case Option.bind (json_get ''params'' msg) as_array of
        None \<Rightarrow> ss
      | Some params \<Rightarrow>
          let job = \<lparr>sj_job_id = unwrap_or [] (param_at 0 params as_str_json),
                sj_height = unwrap_or 0 (param_at 1 params as_u64),
                sj_prev_hash = unwrap_or [] (param_at 2 params as_str_json),
                sj_merkle_root = unwrap_or [] (param_at 3 params as_str_json),
                sj_timestamp = unwrap_or 0 (param_at 4 params as_i64),
                sj_difficulty = ucast (unwrap_or 1 (param_at 5 params as_u64))\<rparr>
          in ss\<lparr>ss_job := Some job, ss_task := Some \<lparr>tk_header = job_header job 0, tk_target = ss_pool_target ss\<rparr>,
               ss_status := (ss_status ss)\<lparr>mn_current_height := sj_height job\<rparr>\<rparr>)"

definition on_reply :: "json \<Rightarrow> miner_status \<Rightarrow> miner_status" where
  "on_reply msg st =
     (let result_ok = unwrap_or False (Option.bind (json_get ''result'' msg) as_bool);
          has_error = (case json_get ''error'' msg of Some e \<Rightarrow> e \<noteq> JNull | None \<Rightarrow> False)
      in if result_ok
         then let block_found = unwrap_or False (Option.bind (json_get ''block_found'' msg) as_bool);
                  st = st\<lparr>mn_shares_accepted := mn_shares_accepted st + 1\<rparr>
              in if block_found then st\<lparr>mn_blocks_found := mn_blocks_found st + 1\<rparr> else st
         else if has_error then st\<lparr>mn_shares_rejected := mn_shares_rejected st + 1\<rparr>
         else st)"

definition on_line :: "json \<Rightarrow> stratum_state \<Rightarrow> stratum_state" where
  "on_line msg ss =
     (let meth = unwrap_or [] (Option.bind (json_get ''method'' msg) as_str_json)
      in if meth = ''mining.set_difficulty'' then on_set_difficulty msg ss
         else if meth = ''mining.notify'' then on_notify msg ss
         else if json_get ''method'' msg = None then ss\<lparr>ss_status := on_reply msg (ss_status ss)\<rparr>
         else ss)"

text \<open>\<open>format!("0x{:016x}", nonce)\<close>\<close>

definition show_nonce :: "u64 \<Rightarrow> string" where
  "show_nonce n = ''0x'' @ map (\<lambda>i. hex_digit (unat n div 16 ^ (15 - i) mod 16)) [0..<16]"

definition submit_line :: "miner_settings \<Rightarrow> stratum_job \<Rightarrow> u64 \<Rightarrow> json" where
  "submit_line S job n =
     JObj [(''id'', JInt 3), (''method'', JStr ''mining.submit''),
       (''params'', JArr [JStr (worker_login S), JStr (sj_job_id job), JStr (show_nonce n)])]"

text \<open>The end of a search: a hash that no longer meets the difficulty is dropped, another is submitted; both times the search goes on.\<close>

definition on_mined :: "miner_settings \<Rightarrow> (mine_error, u64 \<times> string) result \<Rightarrow> stratum_state \<Rightarrow> stratum_state \<times> json list" where
  "on_mined S r ss =
     (let ss = ss\<lparr>ss_task := None\<rparr> in
      case ss_job ss of
        None \<Rightarrow> (ss, [])
      | Some job \<Rightarrow>
          (case r of
             Err _ \<Rightarrow> (ss, [])
           | Ok (n, hash) \<Rightarrow>
               let next = ss\<lparr>ss_task := Some \<lparr>tk_header = job_header job (n + 1), tk_target = ss_pool_target ss\<rparr>\<rparr>
               in if \<not> starts_with (replicate (unat (ss_pool_diff ss)) CHR ''0'') hash then (next, [])
                  else (next, [submit_line S job n])))"

datatype stratum_event = Received "json option" | Mined "(mine_error, u64 \<times> string) result" | TaskPanic

definition stratum_step :: "miner_settings \<Rightarrow> f64 \<Rightarrow> stratum_event \<Rightarrow> stratum_state \<Rightarrow> stratum_state \<times> json list" where
  "stratum_step S rate ev ss =
     (let ss = ss\<lparr>ss_status := (ss_status ss)\<lparr>mn_hashrate_mhs := f64_div rate (Fin 1000000)\<rparr>\<rparr>
      in case ev of
           Received (Some msg) \<Rightarrow> (on_line msg ss, [])
         | Received None \<Rightarrow> (ss, [])
         | Mined r \<Rightarrow> on_mined S r ss
         | TaskPanic \<Rightarrow> (ss\<lparr>ss_task := None\<rparr>, []))"

text \<open>Connecting, the failure to connect, and the end of a session in the outer loop.\<close>

definition pool_connecting :: "miner_status \<Rightarrow> miner_status" where
  "pool_connecting st = st\<lparr>mn_pool_connected := False, mn_hashrate_mhs := Fin 0\<rparr>"

definition pool_session_start :: "miner_status \<Rightarrow> stratum_state" where
  "pool_session_start st = stratum_init ((pool_connecting st)\<lparr>mn_pool_connected := True\<rparr>)"

definition pool_session_end :: "stratum_state \<Rightarrow> miner_status" where
  "pool_session_end ss = (ss_status ss)\<lparr>mn_pool_connected := False\<rparr>"

section \<open>Targets and nonces\<close>

lemma be_value_update:
  "i < length xs \<Longrightarrow> xs ! i = 0 \<Longrightarrow> be_value (xs[i := b]) = be_value xs + unat b * 256 ^ (length xs - 1 - i)"
proof (induction xs arbitrary: i)
  case (Cons x xs)
  then show ?case by (cases i) (auto simp: be_value_Cons)
qed simp

lemma be_value_replicate: "be_value (replicate k 0) = 0"
  by (induction k) (simp_all add: be_value_Cons be_value_def)

lemma unat_bit: "k < 8 \<Longrightarrow> unat (2 ^ k :: u8) = 2 ^ k"
proof -
  assume "k < 8"
  then consider "k = 0" | "k = 1" | "k = 2" | "k = 3" | "k = 4" | "k = 5" | "k = 6" | "k = 7" by linarith
  then show ?thesis by cases simp_all
qed

text \<open>The target of \<open>n\<close> leading zeros is the matching power of 16.\<close>

lemma pool_target_value:
  assumes "0 < unat n" "unat n \<le> 63"
  shows "be_value (pool_leading_zeros_to_target n) = 16 ^ (64 - unat n)" "length (pool_leading_zeros_to_target n) = 32"
proof -
  let ?z = "unat n" and ?p = "256 - unat n * 4"
  have z: "unat (min n 63) = ?z" using assms by (simp add: min_def word_le_nat_alt)
  have t: "pool_leading_zeros_to_target n = (replicate 32 0)[31 - ?p div 8 := push_bit (?p mod 8) 1]"
    using assms by (simp add: pool_leading_zeros_to_target_def z Let_def)
  have p: "?p div 8 \<le> 31" using assms by simp
  have "be_value (pool_leading_zeros_to_target n) = 2 ^ (?p mod 8) * 256 ^ (?p div 8)"
    unfolding t using p be_value_update[of "31 - ?p div 8" "replicate 32 0" "push_bit (?p mod 8) 1"]
    by (simp add: be_value_replicate unat_bit)
  also have "\<dots> = 2 ^ (?p mod 8) * (2 ^ 8) ^ (?p div 8)" by simp
  also have "\<dots> = 2 ^ ?p" by (simp only: power_mult[symmetric] power_add[symmetric] mod_mult_div_eq[of ?p 8, simplified mult.commute] add.commute)
  also have "\<dots> = (2 ^ 4) ^ (64 - ?z)" by (simp only: power_mult[symmetric]) (simp add: diff_mult_distrib2 mult.commute)
  finally show "be_value (pool_leading_zeros_to_target n) = 16 ^ (64 - unat n)" by simp
  show "length (pool_leading_zeros_to_target n) = 32" unfolding t by simp
qed

text \<open>
  Up to 63 zeros, a hash below the miner's target is exactly a hash whose text starts with that many zero
  digits, the test of the pool.
\<close>

lemma target_is_prefix:
  assumes "length bs = 32" "0 < unat n" "unat n \<le> 63"
  shows "hash_meets_target bs (pool_leading_zeros_to_target n) \<longleftrightarrow> starts_with (replicate (unat n) CHR ''0'') (hex_of bs)"
proof -
  have "hash_meets_target bs (pool_leading_zeros_to_target n) \<longleftrightarrow> be_value bs < 16 ^ (64 - unat n)"
    using meets_target_iff[of bs "pool_leading_zeros_to_target n"] assms pool_target_value[OF assms(2,3)]
    by (simp add: hash_meets_target_def)
  then show ?thesis using zero_prefix_iff[of "unat n" bs] assms by simp
qed

lemma mined_prefix:
  assumes "length bs = 32" "unat n \<le> 63" "hash_meets_target bs (pool_leading_zeros_to_target n)"
  shows "starts_with (replicate (unat n) CHR ''0'') (hex_of bs)"
  using assms target_is_prefix[of bs n] by (cases "unat n = 0") auto

lemma radix_digits_value:
  assumes "\<forall>d\<in>set ds. d < 16" "foldl (\<lambda>a d. 16 * a + d) acc ds < 2 ^ 64"
  shows "radix_digits 16 acc (map hex_digit ds) = Some (foldl (\<lambda>a d. 16 * a + d) acc ds)"
  using assms
proof (induction ds arbitrary: acc)
  case (Cons d ds)
  have le: "a \<le> foldl (\<lambda>a d. 16 * a + d) a xs" for a :: nat and xs
  proof (induction xs arbitrary: a)
    case (Cons x xs)
    show ?case using Cons[of "16 * a + x"] by simp
  qed simp
  have "acc * 16 + d < 2 ^ 64" using le[of "16 * acc + d" ds] Cons.prems(2) by (simp add: mult.commute)
  then show ?case using Cons hex_val_digit[of d] by (simp add: mult.commute)
qed simp

lemma hex_digits_value:
  "foldl (\<lambda>a d. 16 * a + d) acc (map (\<lambda>i. x div 16 ^ (k - 1 - i) mod 16) [0..<k]) = acc * 16 ^ k + (x :: nat) mod 16 ^ (k :: nat)"
proof (induction k arbitrary: x acc)
  case (Suc k)
  have e: "map (\<lambda>i. x div 16 ^ (Suc k - 1 - i) mod 16) [0..<Suc k] =
      map (\<lambda>i. (x div 16) div 16 ^ (k - 1 - i) mod 16) [0..<k] @ [x mod 16]"
  proof -
    have "x div 16 ^ (k - i) mod 16 = (x div 16) div 16 ^ (k - 1 - i) mod 16" if "i < k" for i
    proof -
      have "k - i = Suc (k - 1 - i)" using that by simp
      then show ?thesis by (simp only: power_Suc div_mult2_eq)
    qed
    then show ?thesis by simp
  qed
  show ?case unfolding e foldl_append Suc.IH by (simp add: mod_mult2_eq algebra_simps)
qed simp

lemma unat_bound: "unat (n :: u64) < 2 ^ 64"
  using unsigned_less[of n] by simp

text \<open>The pool reads back every nonce the miner writes.\<close>

lemma nonce_read_back: "parse_nonce (show_nonce n) = Some n"
proof -
  let ?ds = "map (\<lambda>i. unat n div 16 ^ (16 - 1 - i) mod 16) [0..<16]"
  have n: "unat n < 16 ^ 16" using unat_bound[of n] by simp
  have v: "foldl (\<lambda>a d. 16 * a + d) 0 ?ds = unat n" unfolding hex_digits_value using n by simp
  have m: "map hex_digit ?ds = map (\<lambda>i. hex_digit (unat n div 16 ^ (15 - i) mod 16)) [0..<16]" by simp
  have r: "radix_digits 16 0 (map (\<lambda>i. hex_digit (unat n div 16 ^ (15 - i) mod 16)) [0..<16]) = Some (unat n)"
    unfolding m[symmetric] by (subst radix_digits_value) (use v n in auto)
  have "hex_digit d \<noteq> CHR ''+''" if "d < 16" for d
    using that by (drule_tac less_16_cases, elim disjE, drule_tac less_10_cases) (auto simp: hex_digit_def)
  then have "u64_from_str_radix 16 (map (\<lambda>i. hex_digit (unat n div 16 ^ (15 - i) mod 16)) [0..<16]) = Some n"
    using r by (simp add: u64_from_str_radix_def upt_conv_Cons Let_def)
  then show ?thesis unfolding parse_nonce_def show_nonce_def by (simp only: strip_prefix_append option.case)
qed

section \<open>From the pool's job to the accepted share\<close>

lemma as_u64_u32 [simp]: "as_u64 (JInt (uint (d :: u32))) = Some (ucast d)"
proof -
  have "uint d < 2 ^ 64" using uint_lt2p[of d] by simp
  moreover have "(of_int (uint d) :: u64) = ucast d" by simp
  ultimately show ?thesis unfolding as_u64.simps by simp
qed

lemma ucast_u32 [simp]: "ucast (ucast (d :: u32) :: u64) = d"
  by (rule bit_word_eqI) (simp add: bit_ucast_iff)

definition hear :: "miner_settings \<Rightarrow> f64 \<Rightarrow> json list \<Rightarrow> stratum_state \<Rightarrow> stratum_state" where
  "hear S rate ls ss = fold (\<lambda>l ss. fst (stratum_step S rate (Received (Some l)) ss)) ls ss"

definition template_job :: "mining_template \<Rightarrow> stratum_job" where
  "template_job t = \<lparr>sj_job_id = mt_job_id t, sj_height = mt_height t, sj_prev_hash = mt_prev_hash t,
     sj_merkle_root = mt_merkle_root t, sj_timestamp = mt_timestamp t, sj_difficulty = mt_difficulty t\<rparr>"

lemma template_job_header: "job_header (template_job t) n = build_header_for_nonce t n"
  by (simp add: job_header_def template_job_def build_header_for_nonce_def)

lemma hear_difficulty:
  "\<exists>st. fst (stratum_step S rate (Received (Some (diff_msg d))) ss) =
    ss\<lparr>ss_pool_diff := d, ss_pool_target := pool_leading_zeros_to_target d, ss_status := st\<rparr>"
  by (simp add: stratum_step_def on_line_def diff_msg_def on_set_difficulty_def unwrap_or_def param_at_def Let_def
      del: as_u64.simps) (metis (no_types))

lemma hear_notify:
  assumes "- (2 ^ 63) \<le> mt_timestamp t" "mt_timestamp t < 2 ^ 63"
  shows "\<exists>st. fst (stratum_step S rate (Received (Some (build_notify t))) ss) =
    ss\<lparr>ss_job := Some (template_job t), ss_task := Some \<lparr>tk_header = build_header_for_nonce t 0, tk_target = ss_pool_target ss\<rparr>,
       ss_status := st\<rparr>"
proof -
  have "on_notify (build_notify t) ss' = ss'\<lparr>ss_job := Some (template_job t),
      ss_task := Some \<lparr>tk_header = build_header_for_nonce t 0, tk_target = ss_pool_target ss'\<rparr>,
      ss_status := (ss_status ss')\<lparr>mn_current_height := mt_height t\<rparr>\<rparr>" for ss'
    using assms by (simp add: on_notify_def build_notify_def param_at_def unwrap_or_def Let_def template_job_header[symmetric] template_job_def
        del: as_u64.simps)
  moreover have "on_line (build_notify t) ss' = on_notify (build_notify t) ss'" for ss'
    by (simp add: on_line_def build_notify_def unwrap_or_def)
  ultimately show ?thesis by (simp add: stratum_step_def Let_def) (metis (no_types))
qed

text \<open>
  The miner works on a template at a difficulty, and the pool expects its shares: the template is in
  the store and the session has that difficulty.
\<close>

definition working :: "mining_template \<Rightarrow> u32 \<Rightarrow> stratum_state \<Rightarrow> bool" where
  "working t d ss \<longleftrightarrow> ss_job ss = Some (template_job t) \<and> ss_pool_diff ss = d \<and>
     ss_pool_target ss = pool_leading_zeros_to_target d \<and>
     (\<forall>tk. ss_task ss = Some tk \<longrightarrow>
        (\<exists>k. tk = \<lparr>tk_header = build_header_for_nonce t k, tk_target = pool_leading_zeros_to_target d\<rparr>))"

definition expects :: "mining_template \<Rightarrow> u32 \<Rightarrow> pool \<Rightarrow> conn \<Rightarrow> bool" where
  "expects t d p c \<longleftrightarrow> hm_get (p_templates p) (mt_job_id t) = Some t \<and>
     (\<exists>s. c_session c = Some s \<and> is_authorized s \<and> s_difficulty s = d)"

lemma job_heard:
  assumes "c_session c = Some s" "is_authorized s" "on_job R e t p c = (p', c', sent)"
    and "- (2 ^ 63) \<le> mt_timestamp t" "mt_timestamp t < 2 ^ 63"
  shows "\<exists>d\<le>mt_pool_diff t. expects t d p' c' \<and> working t d (hear S rate sent ss) \<and>
    ss_task (hear S rate sent ss) =
      Some \<lparr>tk_header = build_header_for_nonce t 0, tk_target = pool_leading_zeros_to_target d\<rparr>"
proof -
  obtain s' where s': "c_session c' = Some s'" "is_authorized s'" "s_difficulty s' \<le> mt_pool_diff t"
    "hm_get (p_templates p') (mt_job_id t) = Some t" "sent = [diff_msg (s_difficulty s'), build_notify t]"
    using assms(1-3) by (auto simp: on_job_def Let_def is_authorized_def apply_vardiff_def split: if_splits option.splits)
  obtain st1 where 1: "fst (stratum_step S rate (Received (Some (diff_msg (s_difficulty s')))) ss) =
      ss\<lparr>ss_pool_diff := s_difficulty s', ss_pool_target := pool_leading_zeros_to_target (s_difficulty s'), ss_status := st1\<rparr>"
    (is "_ = ?ss1") using hear_difficulty by blast
  obtain st2 where "fst (stratum_step S rate (Received (Some (build_notify t))) ?ss1) =
      ?ss1\<lparr>ss_job := Some (template_job t), ss_task := Some \<lparr>tk_header = build_header_for_nonce t 0, tk_target = ss_pool_target ?ss1\<rparr>,
       ss_status := st2\<rparr>" using hear_notify[OF assms(4,5)] by blast
  then show ?thesis using s' 1 by (intro exI[of _ "s_difficulty s'"]) (auto simp: hear_def expects_def working_def)
qed

text \<open>The replies of the pool to submitted shares leave the work as it is.\<close>

lemma replies_keep_work:
  assumes "working t d ss"
  shows "working t d (fst (stratum_step S rate (Received (Some (response rid result error))) ss))"
proof -
  have "\<exists>st. on_line (response rid result error) ss' = ss'\<lparr>ss_status := st\<rparr>" for ss'
    by (auto simp: on_line_def response_def unwrap_or_def on_reply_def Let_def split: option.splits intro: exI[of _ "ss_status ss'"])
  note kept = this
  let ?s0 = "ss\<lparr>ss_status := (ss_status ss)\<lparr>mn_hashrate_mhs := f64_div rate (Fin 1000000)\<rparr>\<rparr>"
  obtain st where "on_line (response rid result error) ?s0 = ?s0\<lparr>ss_status := st\<rparr>" using kept by blast
  then show ?thesis using assms by (simp add: stratum_step_def working_def Let_def)
qed

lemma share_judged:
  assumes "digest_ok P" "hex_ok P" "starts_with (replicate (unat d) CHR ''0'') (compute_header_hash P h)"
  shows "validate_share P h d bits =
    Ok (if is_valid_pow P (compute_header_hash P h) bits = Ok True then FoundBlock (compute_header_hash P h)
        else AcceptedShare (compute_header_hash P h))"
proof -
  obtain bs where bs: "hash_hex_to_u256 P (compute_header_hash P h) = Ok (from_big_endian bs)"
    "\<And>bits. is_valid_pow P (compute_header_hash P h) bits = Ok (compact_to_target bits \<noteq> 0 \<and> from_big_endian bs < compact_to_target bits)"
    using header_hash_bytes[OF assms(1,2), of h] by metis
  show ?thesis using assms(3) by (simp add: validate_share_def Let_def compact_bits_to_u256_eq bs)
qed

lemma initial_difficulty_le: "unat (initial_pool_difficulty bits) \<le> 63"
proof -
  let ?l = "leading_zero_nibbles (to_big_endian (compact_to_target bits))"
  have "unat ?l \<le> 64" using leading_zero_nibbles_le[of "to_big_endian (compact_to_target bits)"] by simp
  then show ?thesis by (auto simp: initial_pool_difficulty_def compact_bits_to_u256_eq Let_def max_def unat_sat_sub)
qed

lemma share_submitted:
  assumes "digest_ok (pr_prims R)" "hex_ok (pr_prims R)" "fields_ok (pr_prims R) F" "batch_sane G"
    and "template_sound R t" "d \<le> mt_pool_diff t"
    and "working t d ss1" "expects t d p2 c2" "ss_task ss1 = Some tk"
    and "mine_header_cuda (pr_prims R) F G (tk_header tk) (Some (tk_target tk)) cache = Some (cache', Ok (n, h))"
  shows "\<exists>ss2 line s2. stratum_step S rate (Mined (Ok (n, h))) ss1 = (ss2, [line]) \<and> working t d ss2 \<and> ss_task ss2 \<noteq> None \<and>
    c_session c2 = Some s2 \<and> handle_request R e2 line p2 c2 =
      (if is_valid_pow (pr_prims R) (compute_header_hash_str (pr_prims R) t n) (mt_difficulty t) = Ok True
       then (case e_submit e2 of
               Ok _ \<Rightarrow> submit_block_ok R e2 (JInt 3) (mt_job_id t) t (compute_header_hash_str (pr_prims R) t n) s2 p2 c2
             | Err msg \<Rightarrow> Some (submit_block_err e2 (JInt 3) msg s2 p2 c2))
       else Some (submit_share R e2 (JInt 3) (mt_job_id t) s2 p2 c2))"
proof -
  let ?P = "pr_prims R"
  obtain k where tk: "tk = \<lparr>tk_header = build_header_for_nonce t k, tk_target = pool_leading_zeros_to_target d\<rparr>"
    and job: "ss_job ss1 = Some (template_job t)" "ss_pool_diff ss1 = d" "ss_pool_target ss1 = pool_leading_zeros_to_target d"
    using assms(7,9) by (auto simp: working_def)
  obtain s2 where s2: "c_session c2 = Some s2" "is_authorized s2" "s_difficulty s2 = d"
    "hm_get (p_templates p2) (mt_job_id t) = Some t" using assms(8) by (auto simp: expects_def)
  have d: "unat d \<le> 63"
    using assms(6) initial_difficulty_le[of "mt_difficulty t"] assms(5) by (simp add: template_sound_def word_le_nat_alt)
  have hd: "(build_header_for_nonce t k)\<lparr>nonce := n\<rparr> = build_header_for_nonce t n" by (simp add: build_header_for_nonce_def)
  have m: "h = compute_header_hash ?P (build_header_for_nonce t n)"
    "hash_meets_target (nonce_hash ?P (build_header_for_nonce t k) n) (pool_leading_zeros_to_target d)"
    using mined_header[OF assms(3,4,10)] by (simp_all add: tk hd)
  have "length (nonce_hash ?P (build_header_for_nonce t k) n) = 32" using assms(1) by (simp add: nonce_hash_def blake3_hash_def)
  moreover have "hex_of (nonce_hash ?P (build_header_for_nonce t k) n) = h"
    using assms(2) nonce_hash_hex[of ?P "build_header_for_nonce t k" n] unfolding hd m(1) hex_ok_def by metis
  ultimately have z: "starts_with (replicate (unat d) CHR ''0'') h" using mined_prefix[OF _ d m(2)] by metis
  have ls: "\<exists>ss2. stratum_step S rate (Mined (Ok (n, h))) ss1 = (ss2, [submit_line S (template_job t) n]) \<and>
      working t d ss2 \<and> ss_task ss2 \<noteq> None"
    using job z by (auto simp: stratum_step_def on_mined_def working_def template_job_header Let_def)
  have r: "handle_request R e2 (submit_line S (template_job t) n) p2 c2 = judge_nonce R e2 (JInt 3) (mt_job_id t) n s2 p2 c2"
    using s2(1,2) nonce_read_back[of n]
    by (simp add: handle_request_def submit_line_def unwrap_or_def on_submit_def param_str_def template_job_def Let_def)
  have "judge_nonce R e2 (JInt 3) (mt_job_id t) n s2 p2 c2 =
      (if is_valid_pow ?P (compute_header_hash_str ?P t n) (mt_difficulty t) = Ok True
       then (case e_submit e2 of
               Ok _ \<Rightarrow> submit_block_ok R e2 (JInt 3) (mt_job_id t) t (compute_header_hash_str ?P t n) s2 p2 c2
             | Err msg \<Rightarrow> Some (submit_block_err e2 (JInt 3) msg s2 p2 c2))
       else Some (submit_share R e2 (JInt 3) (mt_job_id t) s2 p2 c2))"
    using share_judged[OF assms(1,2) z[unfolded m(1)], of "mt_difficulty t"] s2(3,4)
    by (simp add: judge_nonce_def compute_header_hash_str_def template_block_def split: result.splits)
  then show ?thesis using ls r s2(1) by metis
qed

text \<open>
  C25. Pool, miner and GPU together. When the pool has sent a worker a job, the worker works on it and the
  pool expects its shares, at one difficulty that is at most the template's. As long as the worker has
  got no other job or difficulty (and the pool still has the template and that difficulty for it): whatever
  nonce its search returns is submitted in one line, the pool never refuses it - it is counted as a
  share or, when it meets the network's target, handed to the node as a block -, and the worker goes on
  with the same job. The claim does not cover a share in flight when the pool changes the difficulty or
  drops the template.
\<close>

theorem mined_share_accepted:
  assumes "digest_ok (pr_prims R)" "hex_ok (pr_prims R)" "fields_ok (pr_prims R) F" "batch_sane G"
    and "template_sound R t" "- (2 ^ 63) \<le> mt_timestamp t" "mt_timestamp t < 2 ^ 63"
    and "c_session c = Some s" "is_authorized s" "on_job R e t p c = (p', c', sent)"
  shows "\<exists>d\<le>mt_pool_diff t. expects t d p' c' \<and> working t d (hear S rate sent ss) \<and> ss_task (hear S rate sent ss) \<noteq> None \<and>
    (\<forall>ss1 tk cache cache' n h p2 c2 e2.
       working t d ss1 \<longrightarrow> expects t d p2 c2 \<longrightarrow> ss_task ss1 = Some tk \<longrightarrow>
       mine_header_cuda (pr_prims R) F G (tk_header tk) (Some (tk_target tk)) cache = Some (cache', Ok (n, h)) \<longrightarrow>
       (\<exists>ss2 line s2. stratum_step S rate (Mined (Ok (n, h))) ss1 = (ss2, [line]) \<and> working t d ss2 \<and> ss_task ss2 \<noteq> None \<and>
          c_session c2 = Some s2 \<and>
          handle_request R e2 line p2 c2 =
            (if is_valid_pow (pr_prims R) (compute_header_hash_str (pr_prims R) t n) (mt_difficulty t) = Ok True
             then (case e_submit e2 of
                     Ok _ \<Rightarrow> submit_block_ok R e2 (JInt 3) (mt_job_id t) t (compute_header_hash_str (pr_prims R) t n) s2 p2 c2
                   | Err msg \<Rightarrow> Some (submit_block_err e2 (JInt 3) msg s2 p2 c2))
             else Some (submit_share R e2 (JInt 3) (mt_job_id t) s2 p2 c2))))"
proof -
  obtain d where d: "d \<le> mt_pool_diff t" "expects t d p' c'" "working t d (hear S rate sent ss)"
    "ss_task (hear S rate sent ss) \<noteq> None"
    using job_heard[OF assms(8,9,10,6,7), of S rate ss] by auto
  show ?thesis
    by (intro exI[of _ d] conjI allI impI d, rule share_submitted[OF assms(1-5) d(1)])
qed

text \<open>A reply without error counts as an accepted share, that to the login too.\<close>

lemma login_counted: "mn_shares_accepted (ss_status (on_line (reply_true rid) ss)) = mn_shares_accepted (ss_status ss) + 1"
  by (simp add: on_line_def reply_true_def response_def unwrap_or_def on_reply_def Let_def)

section \<open>The solo miner and the node\<close>

lemma solo_round_block:
  assumes "solo_round P F T S E (st, cache) = Some (st', cache', Some b)"
  obtains chain txs fees reward where "miner_fetch_status (so_status E) = Some chain"
    "(txs, fees) = (case miner_fetch_mempool T (so_mempool E) of Some r \<Rightarrow> r | None \<Rightarrow> ([], 0))"
    "u256_add (calculate_block_reward (cv_height chain + 1)) fees = Some reward"
    "mine_block_with_coinbase_cuda P F (so_gpu E) (so_now E) (cv_height chain + 1)
      (if cv_tip_hash chain = ''none'' then replicate 64 CHR ''0'' else cv_tip_hash chain) (cv_difficulty chain)
      txs (mc_miner_address S) reward cache = Some (cache', Ok b)"
proof (cases "miner_fetch_status (so_status E)")
  case None
  then show thesis using assms by (simp add: solo_round_def)
next
  case (Some chain)
  let ?prev = "if cv_tip_hash chain = ''none'' then replicate 64 CHR ''0'' else cv_tip_hash chain"
  obtain txs fees where f: "(txs, fees) = (case miner_fetch_mempool T (so_mempool E) of Some r \<Rightarrow> r | None \<Rightarrow> ([], 0))"
    by (metis surj_pair)
  obtain reward where r: "u256_add (calculate_block_reward (cv_height chain + 1)) fees = Some reward"
    using assms Some by (auto simp: solo_round_def Let_def f[symmetric] bind_eq_Some_conv)
  let ?mine = "mine_block_with_coinbase_cuda P F (so_gpu E) (so_now E) (cv_height chain + 1) ?prev (cv_difficulty chain)
      txs (mc_miner_address S) reward cache"
  obtain c res where c: "?mine = Some (c, res)"
    using assms Some r by (cases ?mine) (auto simp: solo_round_def Let_def f[symmetric])
  have "res = Ok b \<and> c = cache'"
    using assms Some r c by (cases res) (auto simp: solo_round_def Let_def f[symmetric] split: if_splits)
  then show thesis using that[OF Some f r] c by blast
qed

text \<open>
  A block a solo round hands to the node extends the tip the node reported, pays the miner the reward and the
  fees the node reported, and passes the node's tests of hash, proof of work, difficulty, parent and Merkle
  root, provided the node expects for it the difficulty it reported and still has the parent.
\<close>

theorem solo_block_passes:
  assumes "fields_ok P F" "hex_ok P" "digest_ok P" "batch_sane (so_gpu E)"
    and "solo_round P F T S E (st, cache) = Some (st', cache', Some b)"
    and "miner_fetch_status (so_status E) = Some chain"
    and "calculate_adjusted_difficulty P bc (cv_height chain + 1) = Ok (cv_difficulty chain)"
    and "validate_against_checkpoints (cv_height chain + 1) (block_hash b)"
    and "db_get (bc_db bc) (block_key (previous_hash (header b))) \<noteq> None"
  shows "check_header P bc b = Ok () \<and> index (header b) = cv_height chain + 1 \<and>
    compute_merkle_root P (map txid (transactions b)) = merkle_root (header b) \<and>
    (cv_tip_hash chain \<noteq> ''none'' \<longrightarrow> previous_hash (header b) = cv_tip_hash chain) \<and>
    (\<exists>fees reward. u256_add (calculate_block_reward (cv_height chain + 1)) fees = Some reward \<and>
      hd (transactions b) = with_hashes P (coinbase P (so_now E) (mc_miner_address S) reward))"
proof -
  obtain txs fees reward where m: "u256_add (calculate_block_reward (cv_height chain + 1)) fees = Some reward"
    "mine_block_with_coinbase_cuda P F (so_gpu E) (so_now E) (cv_height chain + 1)
      (if cv_tip_hash chain = ''none'' then replicate 64 CHR ''0'' else cv_tip_hash chain) (cv_difficulty chain)
      txs (mc_miner_address S) reward cache = Some (cache', Ok b)"
    using solo_round_block[OF assms(5)] assms(6) by (metis option.inject)
  note b = mined_block[OF assms(1-4) m(2)]
  have "check_header P bc b = Ok ()"
    using b assms(7-9) by (simp add: check_header_def Let_def ensure_def)
  then show ?thesis using b m(1) by auto
qed

text \<open>
  The round takes the difficulty of the tip, not the one of the next block: whenever the two differ, the node
  refuses the block.
\<close>

theorem solo_block_refused_at_retarget:
  assumes "fields_ok P F" "hex_ok P" "digest_ok P" "batch_sane (so_gpu E)"
    and "solo_round P F T S E (st, cache) = Some (st', cache', Some b)"
    and "miner_fetch_status (so_status E) = Some chain" "cv_height chain + 1 \<noteq> 0"
    and "calculate_adjusted_difficulty P bc (cv_height chain + 1) = Ok expected" "expected \<noteq> cv_difficulty chain"
    and "validate_against_checkpoints (cv_height chain + 1) (block_hash b)"
  shows "check_header P bc b = Err DifficultyMismatch"
proof -
  obtain txs fees reward where m: "mine_block_with_coinbase_cuda P F (so_gpu E) (so_now E) (cv_height chain + 1)
      (if cv_tip_hash chain = ''none'' then replicate 64 CHR ''0'' else cv_tip_hash chain) (cv_difficulty chain)
      txs (mc_miner_address S) reward cache = Some (cache', Ok b)"
    using solo_round_block[OF assms(5)] assms(6) by (metis option.inject)
  show ?thesis
    using mined_block[OF assms(1-4) m] assms(7-10) by (simp add: check_header_def Let_def ensure_def word_neq_0_conv)
qed

section \<open>Examples\<close>

text \<open>A world in which every hash is zero, so that every search succeeds.\<close>

definition zero_prims :: "stored prims" where
  "zero_prims = wire_prims\<lparr>blake3 := (\<lambda>_. replicate 32 0)\<rparr>"

lemma zero_same:
  "sha256 zero_prims = sha256 wire_prims" "blake3 zero_prims = (\<lambda>_. replicate 32 0)" "hex_encode zero_prims = hex_encode wire_prims"
  "hex_decode zero_prims = hex_decode wire_prims" "enc_header zero_prims = enc_header wire_prims"
  by (simp_all add: zero_prims_def)

lemma zero_ok: "fields_ok zero_prims wire_fields" "hex_ok zero_prims" "digest_ok zero_prims"
proof -
  show "fields_ok zero_prims wire_fields" using wire_ok(1) unfolding fields_ok_def zero_same .
  show "hex_ok zero_prims" using wire_ok(2) unfolding hex_ok_def zero_same .
  show "digest_ok zero_prims" using wire_ok(3) unfolding digest_ok_def zero_same by simp
qed

lemma zero_nonce_hash: "nonce_hash zero_prims h n = replicate 32 0"
  by (simp add: nonce_hash_def blake3_hash_def zero_same)

lemma zero_meets:
  assumes "length t = 32" "0 < be_value t"
  shows "hash_meets_target (replicate 32 0) t" "replicate 32 0 \<noteq> t"
proof -
  show "hash_meets_target (replicate 32 0) t" using meets_target_iff[of "replicate 32 0" t] assms by (simp add: hash_meets_target_def be_value_replicate)
  show "replicate 32 0 \<noteq> t" using assms(2) be_value_replicate[of 32] by auto
qed

lemma zero_root_length: "length (compute_merkle_root zero_prims [x]) = 64"
  using zero_ok(2) by (simp add: compute_merkle_root_def merkle_loop.simps to_hex_def merkle_leaf_length)

lemma zero_mines:
  assumes "length prev \<le> 64"
  shows "\<exists>cache' b. mine_block_with_coinbase_cuda zero_prims wire_fields sample_gpu now i prev POW_LIMIT_BITS [] addr reward cache =
    Some (cache', Ok b)"
proof -
  let ?cb = "with_hashes zero_prims (coinbase zero_prims now addr reward)" and ?t = "compact_bits_to_target_bytes POW_LIMIT_BITS"
  let ?b = "batch_size (ge_batch_size sample_gpu)"
  let ?h = "\<lparr>index = i, previous_hash = prev, merkle_root = compute_merkle_root zero_prims [txid ?cb], timestamp = now,
      nonce = 0, difficulty = POW_LIMIT_BITS\<rparr>"
  have t: "length ?t = 32" "0 < be_value ?t"
    by (simp_all add: target_bytes be_value_to_big_endian unat_compact_to_target POW_LIMIT_BITS_def compact_value_def)
  have f: "header_fits wire_fields ?h"
    using assms by (simp add: header_fits_def header_prefix_def header_suffix_def wire_fields_def byte_string_def zero_root_length)
  obtain n bs where l: "block_loop zero_prims sample_gpu (launch_args_of wire_fields ?h ?b ?t) ?b ?t POW_LIMIT_BITS 0 0 = Some (Ok (n, bs))"
    using block_loop_ends[OF zero_ok(1) sample_gpu_ok f zero_ok(3) t(1), of 0 POW_LIMIT_BITS 0 0] zero_meets[OF t]
    unfolding zero_nonce_hash by blast
  obtain dag cache' where c: "get_or_generate_dag zero_prims (get_epoch i) cache = (dag, cache')"
    by (cases "get_or_generate_dag zero_prims (get_epoch i) cache")
  show ?thesis
    using l sample_gpu_ok(1) layout_checked[OF zero_ok(1)] c
    by (simp add: mine_block_with_coinbase_cuda_def gpu_ready_def Let_def)
qed

definition sample_status :: json where
  "sample_status = JObj [(''blockchain'', JObj [(''height'', JInt 0), (''difficulty'', JInt (uint POW_LIMIT_BITS)), (''chain_tip'', JStr ''g'')])]"

definition sample_solo :: solo_env where
  "sample_solo = \<lparr>so_now = 0, so_status = Some sample_status, so_mempool = None, so_gpu = sample_gpu, so_rate = Fin 0, so_submit = (\<lambda>_. None)\<rparr>"

lemma sample_view: "miner_fetch_status (so_status sample_solo) = Some \<lparr>cv_height = 0, cv_difficulty = POW_LIMIT_BITS, cv_tip_hash = ''g''\<rparr>"
  by (simp add: miner_fetch_status_def sample_solo_def sample_status_def member_u64_def unwrap_or_def del: as_u64.simps) (simp add: as_u64.simps)

lemma sample_solo_round:
  "\<exists>st' cache' b. solo_round zero_prims wire_fields ref_text (miner_defaults []) sample_solo (st, cache) = Some (st', cache', Some b) \<and>
    previous_hash (header b) = ''g''"
proof -
  obtain cache' b where m: "mine_block_with_coinbase_cuda zero_prims wire_fields sample_gpu 0 1 ''g'' POW_LIMIT_BITS [] []
      (calculate_block_reward 1) cache = Some (cache', Ok b)" using zero_mines[of "''g''" 0 1 "[]" "calculate_block_reward 1" cache] by auto
  have "u256_add (calculate_block_reward 1) 0 = Some (calculate_block_reward 1)" by (simp add: u256_add_def unat_block_reward)
  then have "\<exists>st'. solo_round zero_prims wire_fields ref_text (miner_defaults []) sample_solo (st, cache) = Some (st', cache', Some b)"
    using m sample_view by (simp add: solo_round_def Let_def miner_fetch_mempool_def sample_solo_def miner_defaults_def)
  then show ?thesis using mined_block[OF zero_ok sample_gpu_ok(2) m] by blast
qed

lemma sample_expected: "calculate_adjusted_difficulty zero_prims bc 1 = Ok (bc_difficulty bc)"
  by (simp add: calculate_adjusted_difficulty_def RETARGET_WINDOW_def)

lemma sample_checkpoint: "validate_against_checkpoints 1 h"
  by (simp add: validate_against_checkpoints_def get_checkpoints_def)

theorem solo_block_passes_witness:
  "\<exists>st' cache' b. solo_round zero_prims wire_fields ref_text (miner_defaults []) sample_solo (miner_status_new 0 [] [] [] [], dag_cache_init) =
      Some (st', cache', Some b) \<and> check_header zero_prims sample_chain b = Ok ()"
proof -
  obtain st' cache' b where r: "solo_round zero_prims wire_fields ref_text (miner_defaults []) sample_solo
      (miner_status_new 0 [] [] [] [], dag_cache_init) = Some (st', cache', Some b)" "previous_hash (header b) = ''g''"
    using sample_solo_round by blast
  have g: "batch_sane (so_gpu sample_solo)" by (simp add: sample_solo_def sample_gpu_ok(2))
  have d: "calculate_adjusted_difficulty zero_prims sample_chain (cv_height \<lparr>cv_height = 0, cv_difficulty = POW_LIMIT_BITS, cv_tip_hash = ''g''\<rparr> + 1) =
      Ok (cv_difficulty \<lparr>cv_height = 0, cv_difficulty = POW_LIMIT_BITS, cv_tip_hash = ''g''\<rparr>)"
    using sample_expected[of sample_chain] by (simp add: sample_chain_def)
  have p: "db_get (bc_db sample_chain) (block_key (previous_hash (header b))) \<noteq> None" using r(2) sample_db by simp
  have c: "validate_against_checkpoints (cv_height \<lparr>cv_height = 0, cv_difficulty = POW_LIMIT_BITS, cv_tip_hash = ''g''\<rparr> + 1) (block_hash b)"
    using sample_checkpoint by simp
  show ?thesis using solo_block_passes[OF zero_ok g r(1) sample_view d c p] r(1) by blast
qed

theorem solo_block_refused_at_retarget_witness:
  "\<exists>st' cache' b. solo_round zero_prims wire_fields ref_text (miner_defaults []) sample_solo (miner_status_new 0 [] [] [] [], dag_cache_init) =
      Some (st', cache', Some b) \<and> check_header zero_prims (sample_chain\<lparr>bc_difficulty := 5\<rparr>) b = Err DifficultyMismatch"
proof -
  obtain st' cache' b where r: "solo_round zero_prims wire_fields ref_text (miner_defaults []) sample_solo
      (miner_status_new 0 [] [] [] [], dag_cache_init) = Some (st', cache', Some b)"
    using sample_solo_round by blast
  have g: "batch_sane (so_gpu sample_solo)" by (simp add: sample_solo_def sample_gpu_ok(2))
  show ?thesis
    using solo_block_refused_at_retarget[OF zero_ok g r sample_view, of "sample_chain\<lparr>bc_difficulty := 5\<rparr>" 5] r
      sample_expected[of "sample_chain\<lparr>bc_difficulty := 5\<rparr>"] sample_checkpoint by (simp add: POW_LIMIT_BITS_def)
qed

definition zero_params :: "stored pool_params" where
  "zero_params = sample_params\<lparr>pr_prims := zero_prims\<rparr>"

definition zero_template :: mining_template where
  "zero_template =
     (let cb = with_hashes zero_prims (coinbase zero_prims 0 ''pool'' (calculate_block_reward 1))
      in sample_template\<lparr>mt_merkle_root := compute_merkle_root zero_prims [txid cb], mt_transactions := [cb]\<rparr>)"

lemma zero_template_sound: "template_sound zero_params zero_template"
  by (auto simp: template_sound_def zero_template_def zero_params_def sample_params_def sample_template_def Let_def)

lemma pool_target_positive:
  assumes "unat d \<le> 63"
  shows "length (pool_leading_zeros_to_target d) = 32" "0 < be_value (pool_leading_zeros_to_target d)"
proof (atomize (full), cases "unat d = 0")
  case True
  then have "d = 0" by (simp add: unat_eq_0)
  then have "pool_leading_zeros_to_target d = replicate (Suc 31) 255" by (simp add: pool_leading_zeros_to_target_def)
  then show "length (pool_leading_zeros_to_target d) = 32 \<and> 0 < be_value (pool_leading_zeros_to_target d)"
    by (simp only: replicate_Suc be_value_Cons length_Cons length_replicate) simp
next
  case False
  then show "length (pool_leading_zeros_to_target d) = 32 \<and> 0 < be_value (pool_leading_zeros_to_target d)"
    using pool_target_value[of d] assms by simp
qed

theorem mined_share_accepted_witness:
  "\<exists>p' c' sent tk cache' n h ss2 line.
    on_job zero_params sample_env zero_template sample_pool sample_conn = (p', c', sent) \<and>
    ss_task (hear (miner_defaults []) (Fin 0) sent (stratum_init (miner_status_new 0 [] [] [] []))) = Some tk \<and>
    mine_header_cuda zero_prims wire_fields sample_gpu (tk_header tk) (Some (tk_target tk)) dag_cache_init = Some (cache', Ok (n, h)) \<and>
    stratum_step (miner_defaults []) (Fin 0) (Mined (Ok (n, h))) (hear (miner_defaults []) (Fin 0) sent (stratum_init (miner_status_new 0 [] [] [] []))) =
      (ss2, [line])"
proof -
  let ?S = "miner_defaults []" and ?ss = "stratum_init (miner_status_new 0 [] [] [] [])"
  obtain p' c' sent where j: "on_job zero_params sample_env zero_template sample_pool sample_conn = (p', c', sent)"
    by (cases "on_job zero_params sample_env zero_template sample_pool sample_conn")
  have c: "c_session sample_conn = Some sample_session" by (simp add: sample_conn_def)
  have ts: "- (2 ^ 63) \<le> mt_timestamp zero_template" "mt_timestamp zero_template < 2 ^ 63"
    by (simp_all add: zero_template_def sample_template_def Let_def)
  have P: "pr_prims zero_params = zero_prims" by (simp add: zero_params_def)
  show ?thesis
    using mined_share_accepted[of zero_params wire_fields sample_gpu zero_template, unfolded P, OF zero_ok(3,2,1) sample_gpu_ok(2)
      zero_template_sound ts c sample_session_simps(2) j, of ?S "Fin 0" ?ss]
  proof (elim exE conjE, goal_cases)
    case d: (1 d)
    from d(3,4) obtain tk k where tk: "ss_task (hear ?S (Fin 0) sent ?ss) = Some tk"
      "tk = \<lparr>tk_header = build_header_for_nonce zero_template k, tk_target = pool_leading_zeros_to_target d\<rparr>"
      by (auto simp: working_def)
    have "unat d \<le> 63"
      using d(1) initial_difficulty_le[of "mt_difficulty zero_template"] zero_template_sound by (simp add: template_sound_def word_le_nat_alt)
    note t = pool_target_positive[OF this]
    have f: "header_fits wire_fields (build_header_for_nonce zero_template k)"
      by (simp add: header_fits_def header_prefix_def header_suffix_def wire_fields_def byte_string_def build_header_for_nonce_def
          zero_template_def sample_template_def Let_def zero_root_length)
    obtain cache' n h where m: "mine_header_cuda zero_prims wire_fields sample_gpu (tk_header tk) (Some (tk_target tk)) dag_cache_init =
        Some (cache', Ok (n, h))"
      using header_search_ends[OF zero_ok(1) sample_gpu_ok f zero_ok(3) t(1), of 0 dag_cache_init] zero_meets[OF t]
      by (auto simp: zero_nonce_hash tk(2))
    from d(5)[rule_format, OF d(3,2) tk(1) m] obtain ss2 line where
      "stratum_step ?S (Fin 0) (Mined (Ok (n, h))) (hear ?S (Fin 0) sent ?ss) = (ss2, [line])" by blast
    then show ?case using j tk(1) m by (intro exI conjI)
  qed
qed

end
