(* ===== verification/Pages.thy ===== *)
theory Pages
  imports Miner Queries Explorer "HOL-Library.Countable"
begin

text \<open>
  The two HTTP servers of a node, \<open>node/src/server/mod.rs\<close>: every page, the order of the routes, and the
  requests as steps of the node. A page is its status code with a JSON value; \<^const>\<open>None\<close> is a handler that
  panics. A query that panics inside \<open>spawn_blocking\<close> panics the handler where the code calls \<open>expect\<close>, and
  gives the default where it calls \<open>unwrap_or\<close>. Base64, hexadecimal text, \<open>bincode\<close> of vectors and the texts of errors are the
  record \<open>http_codec\<close>; the clock, the mining statistics and the state of locks are arguments. A panic leaves the
  node as it was; that a panic under a lock poisons the lock, so that later requests that take it panic as well,
  is not modelled: what is proved of a request holds as long as no handler has panicked under a lock.
\<close>

section \<open>Values of pages\<close>

record 'v http_codec =
  hc_b64 :: "'v \<Rightarrow> string"
  hc_unb64 :: "string \<Rightarrow> 'v option"
  hc_enc_blocks :: "block list \<Rightarrow> 'v"
  hc_dec_blocks :: "'v \<Rightarrow> block list option"
  hc_enc_txs :: "transaction list \<Rightarrow> 'v"
  hc_dec_txs :: "'v \<Rightarrow> transaction list option"
  hc_hex :: "'v \<Rightarrow> string"
  hc_unhex :: "string \<Rightarrow> 'v option"
  hc_error :: "chain_error \<Rightarrow> string"
  hc_b64_error :: string
  hc_hex_error :: string
  hc_bincode_error :: string

text \<open>Decoding gives back what was encoded, and hexadecimal text has two digits for a byte.\<close>

definition hex_text :: "string \<Rightarrow> bool" where
  "hex_text s \<longleftrightarrow> list_all (\<lambda>c. hex_val c \<noteq> None) s \<and> even (length s)"

definition http_codec_ok :: "'v http_codec \<Rightarrow> bool" where
  "http_codec_ok X \<longleftrightarrow> (\<forall>v. hc_unb64 X (hc_b64 X v) = Some v) \<and> (\<forall>bs. hc_dec_blocks X (hc_enc_blocks X bs) = Some bs) \<and>
     (\<forall>txs. hc_dec_txs X (hc_enc_txs X txs) = Some txs) \<and> (\<forall>v. hc_unhex X (hc_hex X v) = Some v \<and> hex_text (hc_hex X v))"

type_synonym page = "nat \<times> json"

definition jnat :: "nat \<Rightarrow> json" where
  "jnat n = JInt (int n)"

definition jword :: "'a::len word \<Rightarrow> json" where
  "jword w = JInt (uint w)"

text \<open>A number that is not finite becomes \<open>null\<close>.\<close>

definition jfloat :: "f64 \<Rightarrow> json" where
  "jfloat x = (case x of Fin _ \<Rightarrow> JFloat x | _ \<Rightarrow> JNull)"

text \<open>\<open>format!("0x{:x}", n)\<close>, which is also how a \<open>U256\<close> is serialized.\<close>

definition jhex :: "u256_text \<Rightarrow> u256 \<Rightarrow> json" where
  "jhex T n = JStr (''0x'' @ to_hex_str T n)"

definition jopt :: "('a \<Rightarrow> json) \<Rightarrow> 'a option \<Rightarrow> json" where
  "jopt f x = (case x of None \<Rightarrow> JNull | Some a \<Rightarrow> f a)"

text \<open>\<open>format!("0x{:08x}", n)\<close>\<close>

definition show_magic :: "u32 \<Rightarrow> string" where
  "show_magic n = ''0x'' @ map (\<lambda>i. hex_digit (unat n div 16 ^ (7 - i) mod 16)) [0..<8]"

text \<open>\<open>match\<close> on a query, and \<open>unwrap_or\<close>.\<close>

definition answered :: "(chain_error, 'a) result \<Rightarrow> ('a \<Rightarrow> page) \<Rightarrow> (chain_error \<Rightarrow> page) \<Rightarrow> page option" where
  "answered r f g = (case r of Ok x \<Rightarrow> Some (f x) | Err e \<Rightarrow> if e = Panic then None else Some (g e))"

definition or_default :: "'a \<Rightarrow> (chain_error, 'a) result \<Rightarrow> 'a option" where
  "or_default d r = (case r of Ok x \<Rightarrow> Some x | Err e \<Rightarrow> if e = Panic then None else Some d)"

text \<open>The value of a parameter of the query; of repeated ones the last counts.\<close>

type_synonym query = "(string \<times> string) list"

definition query_get :: "string \<Rightarrow> query \<Rightarrow> string option" where
  "query_get k q = map_of (rev q) k"

definition query_u64 :: "string \<Rightarrow> query \<Rightarrow> u64 option" where
  "query_u64 k q = Option.bind (query_get k q) (\<lambda>s. map_option of_nat (from_str_radix 64 10 s))"

section \<open>Blocks and counts\<close>

definition blocks_text :: "'v http_codec \<Rightarrow> block list \<Rightarrow> json" where
  "blocks_text X bs = JStr (hc_b64 X (hc_enc_blocks X bs))"

definition chain_memory_page :: "'v http_codec \<Rightarrow> 'v node \<Rightarrow> page" where
  "chain_memory_page X nd =
     (let blocks = blockchain_mem (nd_chain nd)
      in (200, JObj [(''blockchain'', blocks_text X blocks), (''count'', jnat (length blocks)), (''source'', JStr ''memory'')]))"

definition fetch_error_text :: "'v http_codec \<Rightarrow> chain_error \<Rightarrow> json" where
  "fetch_error_text X e = JStr (''Failed to fetch blockchain from DB: '' @ hc_error X e)"

definition chain_db_page :: "'v prims \<Rightarrow> 'v http_codec \<Rightarrow> 'v blockchain \<Rightarrow> page option" where
  "chain_db_page P X bc = answered (get_all_blocks P bc)
     (\<lambda>all_blocks. (200, JObj [(''blockchain'', blocks_text X all_blocks), (''count'', jnat (length all_blocks)),
        (''source'', JStr ''database'')]))
     (\<lambda>e. (200, JObj [(''error'', fetch_error_text X e), (''count'', JInt 0), (''source'', JStr ''database'')]))"

definition chain_range_page :: "'v prims \<Rightarrow> 'v http_codec \<Rightarrow> query \<Rightarrow> 'v blockchain \<Rightarrow> page option" where
  "chain_range_page P X params bc =
     (let from_height = unwrap_or 0 (query_u64 ''from'' params);
          to_height = query_u64 ''to'' params
      in answered (get_blocks_range P bc from_height to_height)
           (\<lambda>blocks. (200, JObj [(''blockchain'', blocks_text X blocks), (''count'', jnat (length blocks)),
              (''from'', jword from_height), (''to'', jopt jword to_height), (''source'', JStr ''database'')]))
           (\<lambda>e. (200, JObj [(''error'', fetch_error_text X e), (''count'', JInt 0)])))"

definition debug_counts_page :: "'v prims \<Rightarrow> 'v node \<Rightarrow> page option" where
  "debug_counts_page P nd =
     (let memory_count = length (blockchain_mem (nd_chain nd))
      in map_option (\<lambda>db_count. (200, JObj [(''memory'', jnat memory_count), (''database'', jnat db_count),
           (''match'', JBool (memory_count = db_count))]))
         (or_default 0 (case get_all_blocks P (nd_bc nd) of Ok bs \<Rightarrow> Ok (length bs) | Err e \<Rightarrow> Err e)))"

definition chain_page :: "'v http_codec \<Rightarrow> 'v node \<Rightarrow> page" where
  "chain_page X nd = (200, JObj [(''blockchain'', blocks_text X (blockchain_mem (nd_chain nd)))])"

text \<open>The index of the tip plus one, 0 without a readable tip.\<close>

definition tip_count :: "'v prims \<Rightarrow> 'v blockchain \<Rightarrow> u64" where
  "tip_count P bc =
     (case chain_tip bc of
        None \<Rightarrow> 0
      | Some tip_hash \<Rightarrow> (case load_header P bc tip_hash of Ok (Some hdr) \<Rightarrow> index hdr + 1 | _ \<Rightarrow> 0))"

definition health_page :: "'v prims \<Rightarrow> int \<Rightarrow> 'v blockchain \<Rightarrow> page" where
  "health_page P now bc =
     (200, JObj [(''status'', JStr ''ok''), (''height'', jword (tip_count P bc)), (''timestamp'', JInt now)])"

definition counts_page :: "'v prims \<Rightarrow> u256_text \<Rightarrow> 'v blockchain \<Rightarrow> page" where
  "counts_page P T bc =
     (let blocks = tip_count P bc;
          (transactions, volume) = unwrap_or (0, 0)
            (map_option (\<lambda>vol. (count_transactions bc, vol)) (or_default 0 (calculate_total_volume P bc)))
      in (200, JObj [(''blocks'', jword blocks), (''transactions'', jnat transactions), (''total_volume'', jhex T volume)]))"

section \<open>Status\<close>

record status_env =
  se_contended :: bool
  se_version :: string
  se_uptime :: u64
  se_time :: string
  se_hashrate :: f64
  se_blocks_mined :: u64
  se_miner_address :: string
  se_stats :: validation_stats

definition snapshot_or_default :: "bool \<Rightarrow> peer_manager \<Rightarrow> u64 hash_map \<times> u64 \<times> nat \<times> nat" where
  "snapshot_or_default contended m = unwrap_or ([], 0, 0, 0) (try_get_status_snapshot contended m)"

definition genesis_text :: "'v prims \<Rightarrow> 'v blockchain \<Rightarrow> string" where
  "genesis_text P bc = unwrap_or ''none'' (Option.bind (db_get (bc_db bc) (index_key 0)) (from_utf8 P))"

definition network_json :: "net_identity \<Rightarrow> u64 hash_map \<Rightarrow> nat \<Rightarrow> nat \<Rightarrow> json" where
  "network_json N heights subnet_24 subnet_16 =
     JObj [(''network_id'', JStr (my_network_id N)), (''chain_id'', jword (my_chain_id N)),
       (''network_magic'', JStr (show_magic (my_network_magic N))), (''connected_peers'', jnat (length heights)),
       (''peer_heights'', JObj (map (\<lambda>(p, h). (p, jword h)) heights)),
       (''subnet_diversity'', JObj [(''unique_24_subnets'', jnat subnet_24), (''unique_16_subnets'', jnat subnet_16)])]"

definition security_json :: "validation_stats \<Rightarrow> json" where
  "security_json s =
     (let stats = get_stats s
      in JObj [(''validation_failures_total'', jword (sum_list (map snd stats))),
           (''validation_failures'', JArr (map (\<lambda>(name, count). JArr [JStr name, jword count]) (filter (\<lambda>(_, count). count > 0) stats)))])"

definition status_page :: "'v prims \<Rightarrow> u256_text \<Rightarrow> net_identity \<Rightarrow> status_env \<Rightarrow> peer_manager \<Rightarrow> 'v node \<Rightarrow> page option" where
  "status_page P T N E m nd =
     (let (heights, manager_height, subnet_24, subnet_16) = snapshot_or_default (se_contended E) m;
          bc = nd_bc nd;
          tip = unwrap_or ''none'' (chain_tip bc);
          height = tip_height P bc;
          diff = bc_difficulty bc
      in Option.bind (or_default diff (calculate_adjusted_difficulty P bc (height + 1))) (\<lambda>next_diff.
         let wallet_balance = unwrap_or 0 (or_default 0 (get_address_balance_from_db P bc (se_miner_address E)))
         in Some (200, JObj
              [(''node'', JObj [(''version'', JStr (se_version E)), (''uptime_seconds'', jword (se_uptime E))]),
               (''blockchain'', JObj [(''height'', jword height), (''memory_blocks'', jnat (length (blockchain_mem (nd_chain nd)))),
                  (''chain_tip'', JStr tip), (''genesis_hash'', JStr (genesis_text P bc)), (''my_height'', jword manager_height),
                  (''difficulty'', jword diff), (''next_difficulty'', jword next_diff)]),
               (''mempool'', JObj [(''pending_transactions'', jnat (length (pending (nd_mempool nd)))),
                  (''seen_transactions'', jnat (length (seen_tx (nd_mempool nd)))),
                  (''max_size'', jnat MAX_MEMPOOL_SIZE), (''max_bytes'', jnat MAX_MEMPOOL_BYTES)]),
               (''network'', network_json N heights subnet_24 subnet_16),
               (''mining'', JObj [(''active'', JBool (mining_active nd)), (''hashrate'', jfloat (se_hashrate E)),
                  (''difficulty'', jword diff), (''blocks_mined'', jword (se_blocks_mined E))]),
               (''wallet'', JObj [(''address'', JStr (se_miner_address E)), (''balance'', jhex T wallet_balance)]),
               (''security'', security_json (se_stats E)),
               (''timestamp'', JStr (se_time E))])))"

text \<open>On the public server: without wallet, uptime, limits and the difficulty of the next block.\<close>

definition public_status_page :: "'v prims \<Rightarrow> net_identity \<Rightarrow> status_env \<Rightarrow> peer_manager \<Rightarrow> 'v node \<Rightarrow> page" where
  "public_status_page P N E m nd =
     (let (heights, _, subnet_24, subnet_16) = snapshot_or_default (se_contended E) m;
          bc = nd_bc nd;
          tip = unwrap_or ''none'' (chain_tip bc);
          height = tip_height P bc;
          diff = bc_difficulty bc
      in (200, JObj
           [(''node'', JObj [(''version'', JStr (se_version E))]),
            (''blockchain'', JObj [(''height'', jword height), (''memory_blocks'', jnat (length (blockchain_mem (nd_chain nd)))),
               (''chain_tip'', JStr tip), (''difficulty'', jword diff)]),
            (''mempool'', JObj [(''pending_transactions'', jnat (length (pending (nd_mempool nd)))),
               (''seen_transactions'', jnat (length (seen_tx (nd_mempool nd))))]),
            (''network'', network_json N heights subnet_24 subnet_16),
            (''mining'', JObj [(''active'', JBool (mining_active nd)), (''hashrate'', jfloat (se_hashrate E)), (''difficulty'', jword diff)]),
            (''security'', security_json (se_stats E)),
            (''timestamp'', JStr (se_time E))]))"

text \<open>The second page of the same path.\<close>

definition short_status_page :: "'v node \<Rightarrow> page" where
  "short_status_page nd =
     (let blocks = blockchain_mem (nd_chain nd);
          height = (if blocks = [] then 0 else index (header (last blocks)))
      in (200, JObj [(''height'', jword height), (''pending'', jnat (length (pending (nd_mempool nd))))]))"

section \<open>Addresses and transactions\<close>

definition balance_page :: "'v prims \<Rightarrow> u256_text \<Rightarrow> string \<Rightarrow> 'v blockchain \<Rightarrow> page option" where
  "balance_page P T address bc = answered (get_address_balance_from_db P bc address)
     (\<lambda>bal. (200, JObj [(''address'', JStr address), (''balance'', jhex T bal)]))
     (\<lambda>_. (200, JObj [(''address'', JStr address), (''balance'', JInt 0)]))"

text \<open>\<open>amount.0\<close>: the limbs of a \<open>U256\<close>, the lowest first.\<close>

definition to_limbs :: "u256 \<Rightarrow> u64 list" where
  "to_limbs n = map (\<lambda>i. of_nat (unat n div 2 ^ (64 * i))) [0..<4]"

definition utxo_json :: "utxo \<Rightarrow> json" where
  "utxo_json u = JObj [(''txid'', JStr (u_txid u)), (''vout'', jword (u_vout u)), (''to'', JStr (u_to u)),
     (''amount'', JArr (map jword (to_limbs (u_amount u))))]"

definition utxos_page :: "'v prims \<Rightarrow> string \<Rightarrow> 'v blockchain \<Rightarrow> page option" where
  "utxos_page P address bc = answered (get_utxos P bc address)
     (\<lambda>list. (200, JArr (map utxo_json list))) (\<lambda>_. (200, JArr []))"

definition address_info_page :: "'v prims \<Rightarrow> u256_text \<Rightarrow> string \<Rightarrow> 'v blockchain \<Rightarrow> page option" where
  "address_info_page P T addr bc =
     (let address = to_lowercase addr in
      Option.bind (or_default 0 (get_address_balance_from_db P bc address)) (\<lambda>balance.
      Option.bind (or_default 0 (get_address_received_from_db P bc address)) (\<lambda>received.
      Option.bind (or_default 0 (get_address_sent_from_db P bc address)) (\<lambda>sent.
      Option.bind (or_default 0 (get_address_transaction_count_from_db P bc address)) (\<lambda>tx_count.
      Some (200, JObj [(''address'', JStr address), (''balance'', jhex T balance), (''received'', jhex T received),
        (''sent'', jhex T sent), (''transaction_count'', jnat tx_count)]))))))"

definition entry_json :: "u256_text \<Rightarrow> tx_entry \<Rightarrow> json" where
  "entry_json T e = JObj [(''txid'', JStr (e_txid e)), (''block_height'', jword (e_height e)), (''timestamp'', JInt (e_timestamp e)),
     (''direction'', JStr (e_direction e)), (''amount'', JStr (to_dec_str T (e_amount e))), (''counterpart'', JStr (e_counterpart e))]"

definition address_transactions_page :: "'v prims \<Rightarrow> u256_text \<Rightarrow> string \<Rightarrow> nat option \<Rightarrow> 'v blockchain \<Rightarrow> page option" where
  "address_transactions_page P T addr limit bc =
     (let address = to_lowercase addr
      in answered (get_address_transactions_from_db P bc address limit)
           (\<lambda>txs. (200, JObj [(''address'', JStr address), (''transactions'', JArr (map (entry_json T) txs))]))
           (\<lambda>_. (200, JObj [(''address'', JStr address), (''transactions'', JArr [])])))"

definition tx_page :: "'v prims \<Rightarrow> 'v http_codec \<Rightarrow> string \<Rightarrow> 'v blockchain \<Rightarrow> page option" where
  "tx_page P X tid bc = answered (get_transaction P bc tid)
     (\<lambda>found. case found of
        Some (tx, height) \<Rightarrow> (200, JObj [(''txid'', JStr tid), (''block_height'', jnat height),
          (''transaction'', JStr (hc_b64 X (enc_tx P tx))), (''encoding'', JStr ''bincode+base64'')])
      | None \<Rightarrow> (404, JObj [(''error'', JStr ''tx not found'')]))
     (\<lambda>e. (500, JObj [(''error'', JStr (''db error: '' @ hc_error X e))]))"

section \<open>The pool of transactions and mined blocks\<close>

definition mempool_page :: "'v prims \<Rightarrow> u256_text \<Rightarrow> 'v http_codec \<Rightarrow> 'v node \<Rightarrow> page option" where
  "mempool_page P T X nd = map_option (\<lambda>(count, txs, total_fees).
     (200, JObj [(''count'', jnat count), (''transactions_b64'', JStr (hc_b64 X (hc_enc_txs X txs))), (''total_fees'', jhex T total_fees)]))
     (get_mempool P (bc_db (nd_bc nd)) (nd_mempool nd))"

definition error_json :: "string \<Rightarrow> json" where
  "error_json msg = JObj [(''status'', JStr ''error''), (''message'', JStr msg)]"

text \<open>What \<open>POST /tx\<close> answers; the argument \<open>conflict\<close> is the message of a double spend.\<close>

definition low_fee_text :: "'v prims \<Rightarrow> u256_text \<Rightarrow> 'v db \<Rightarrow> 'v \<Rightarrow> string" where
  "low_fee_text P T d body =
     (case dec_tx P body of
        Some tx \<Rightarrow> ''fee too low: got '' @ to_dec_str T (unwrap_or 0 (tx_fee P d tx)) @ '' ram, need '' @
          to_dec_str T (calculate_min_fee (blob_len P (enc_tx P tx))) @ '' ram''
      | None \<Rightarrow> [])"

definition post_tx_reply :: "'v prims \<Rightarrow> u256_text \<Rightarrow> 'v db \<Rightarrow> 'v \<Rightarrow> string \<Rightarrow> tx_reply \<Rightarrow> page" where
  "post_tx_reply P T d body conflict r =
     (case r of
        BadBincode \<Rightarrow> (400, error_json ''invalid bincode'')
      | BadSignature \<Rightarrow> (400, error_json ''invalid signature'')
      | LowFee \<Rightarrow> (400, error_json (low_fee_text P T d body))
      | Duplicate \<Rightarrow> (200, JObj [(''status'', JStr ''duplicate'')])
      | DoubleSpend \<Rightarrow> (400, error_json conflict)
      | _ \<Rightarrow> (200, JObj [(''status'', JStr ''ok''), (''message'', JStr ''tx queued'')]))"

definition conflict_text :: "'v prims \<Rightarrow> 'v \<Rightarrow> mempool_state \<Rightarrow> string" where
  "conflict_text P body m =
     (case dec_tx P body of
        Some tx \<Rightarrow> (case find (\<lambda>op. op \<in> set (map outpoint_text (inputs tx))) (concat (map (\<lambda>p. map outpoint_text (inputs p)) (pending m))) of
            Some op \<Rightarrow> ''Double-spend: UTXO '' @ op @ '' already used in mempool''
          | None \<Rightarrow> [])
      | None \<Rightarrow> [])"

definition relay_tx_reply :: "tx_reply \<Rightarrow> page" where
  "relay_tx_reply r =
     (let status = (\<lambda>s. JObj [(''status'', JStr s)])
      in case r of
           BadBincode \<Rightarrow> (400, status ''error'')
         | BadSignature \<Rightarrow> (200, status ''invalid_signature'')
         | Duplicate \<Rightarrow> (200, status ''duplicate'')
         | _ \<Rightarrow> (200, status ''ok''))"

text \<open>A pool operation as a request: the new node and the page.\<close>

definition tx_request :: "(mempool_state \<times> tx_reply) option \<Rightarrow> (tx_reply \<Rightarrow> page) \<Rightarrow> 'v node \<Rightarrow> 'v node \<times> page option" where
  "tx_request result reply nd =
     (case result of
        Some (m, r) \<Rightarrow> (nd\<lparr>nd_mempool := m\<rparr>, Some (reply r))
      | None \<Rightarrow> (nd, None))"

definition post_tx_page :: "'v prims \<Rightarrow> u256_text \<Rightarrow> int \<Rightarrow> 'v \<Rightarrow> 'v node \<Rightarrow> 'v node \<times> page option" where
  "post_tx_page P T now body nd =
     (let d = bc_db (nd_bc nd)
      in tx_request (post_tx P now d body (nd_mempool nd)) (post_tx_reply P T d body (conflict_text P body (nd_mempool nd))) nd)"

definition public_post_tx_page :: "'v prims \<Rightarrow> u256_text \<Rightarrow> int \<Rightarrow> 'v \<Rightarrow> 'v node \<Rightarrow> 'v node \<times> page option" where
  "public_post_tx_page P T now body nd =
     (let d = bc_db (nd_bc nd)
      in tx_request (public_post_tx P now d body (nd_mempool nd)) (post_tx_reply P T d body ''double-spend detected'') nd)"

definition relay_tx_page :: "'v prims \<Rightarrow> int \<Rightarrow> 'v \<Rightarrow> 'v node \<Rightarrow> 'v node \<times> page option" where
  "relay_tx_page P now body nd = tx_request (relay_tx P now (bc_db (nd_bc nd)) body (nd_mempool nd)) relay_tx_reply nd"

definition submit_page :: "'v prims \<Rightarrow> 'v http_codec \<Rightarrow> int \<Rightarrow> string \<Rightarrow> 'v node \<Rightarrow> 'v node \<times> page option" where
  "submit_page P X now block_b64 nd =
     (case hc_unb64 X block_b64 of
        None \<Rightarrow> (nd, Some (400, error_json (''invalid base64: '' @ hc_b64_error X)))
      | Some bytes \<Rightarrow>
          (case dec_block P bytes of
             None \<Rightarrow> (nd, Some (400, error_json (''invalid block bincode: '' @ hc_bincode_error X)))
           | Some block \<Rightarrow>
               (case submit_block P now block nd of
                  (nd', Ok (hash, height)) \<Rightarrow>
                    (nd', Some (200, JObj [(''status'', JStr ''ok''), (''hash'', JStr hash), (''height'', jword height)]))
                | (nd', Err e) \<Rightarrow>
                    (nd', if e = Panic then None else Some (400, error_json (''block rejected: '' @ hc_error X e))))))"

section \<open>The public pages\<close>

text \<open>The pages the public server repeats, as they are written there.\<close>

definition public_health_page :: "'v prims \<Rightarrow> int \<Rightarrow> 'v blockchain \<Rightarrow> page" where
  "public_health_page P now bc =
     (let height = (case chain_tip bc of
             Some tip_hash \<Rightarrow> (case load_header P bc tip_hash of Ok (Some hdr) \<Rightarrow> index hdr + 1 | _ \<Rightarrow> 0)
           | None \<Rightarrow> 0)
      in (200, JObj [(''status'', JStr ''ok''), (''height'', jword height), (''timestamp'', JInt now)]))"

definition public_counts_page :: "'v prims \<Rightarrow> u256_text \<Rightarrow> 'v blockchain \<Rightarrow> page" where
  "public_counts_page P T bc =
     (let blocks = unwrap_or 0 (map_option (\<lambda>h. index h + 1)
            (Option.bind (chain_tip bc) (\<lambda>tip_hash. case load_header P bc tip_hash of Ok h \<Rightarrow> h | Err _ \<Rightarrow> None)));
          (transactions, volume) = (case or_default 0 (calculate_total_volume P bc) of
              Some vol \<Rightarrow> (count_transactions bc, vol)
            | None \<Rightarrow> (0, 0))
      in (200, JObj [(''blocks'', jword blocks), (''transactions'', jnat transactions), (''total_volume'', jhex T volume)]))"

definition public_tx_page :: "'v prims \<Rightarrow> 'v http_codec \<Rightarrow> string \<Rightarrow> 'v blockchain \<Rightarrow> page option" where
  "public_tx_page P X tid bc =
     (case get_transaction P bc tid of
        Ok (Some (tx, height)) \<Rightarrow> Some (200, JObj [(''txid'', JStr tid), (''block_height'', jnat height),
          (''transaction'', JStr (hc_b64 X (enc_tx P tx))), (''encoding'', JStr ''bincode+base64'')])
      | Ok None \<Rightarrow> Some (404, JObj [(''error'', JStr ''tx not found'')])
      | Err e \<Rightarrow> if e = Panic then None else Some (500, JObj [(''error'', JStr (''db error: '' @ hc_error X e))]))"

definition public_balance_page :: "'v prims \<Rightarrow> u256_text \<Rightarrow> string \<Rightarrow> 'v blockchain \<Rightarrow> page option" where
  "public_balance_page P T address bc =
     (case get_address_balance_from_db P bc address of
        Ok bal \<Rightarrow> Some (200, JObj [(''address'', JStr address), (''balance'', jhex T bal)])
      | Err e \<Rightarrow> if e = Panic then None else Some (200, JObj [(''address'', JStr address), (''balance'', JInt 0)]))"

definition public_utxos_page :: "'v prims \<Rightarrow> string \<Rightarrow> 'v blockchain \<Rightarrow> page option" where
  "public_utxos_page P address bc =
     (case get_utxos P bc address of
        Ok list \<Rightarrow> Some (200, JArr (map utxo_json list))
      | Err e \<Rightarrow> if e = Panic then None else Some (200, JArr []))"

definition public_info_page :: "'v prims \<Rightarrow> u256_text \<Rightarrow> string \<Rightarrow> 'v blockchain \<Rightarrow> page option" where
  "public_info_page P T addr bc =
     (let address = to_lowercase addr;
          result = Option.bind (or_default 0 (get_address_balance_from_db P bc address)) (\<lambda>balance.
             Option.bind (or_default 0 (get_address_received_from_db P bc address)) (\<lambda>received.
             Option.bind (or_default 0 (get_address_sent_from_db P bc address)) (\<lambda>sent.
             map_option (\<lambda>tx_count. (balance, received, sent, tx_count))
               (or_default 0 (get_address_transaction_count_from_db P bc address)))))
      in map_option (\<lambda>(balance, received, sent, tx_count).
           (200, JObj [(''address'', JStr address), (''balance'', jhex T balance), (''received'', jhex T received),
             (''sent'', jhex T sent), (''transaction_count'', jnat tx_count)])) result)"

definition public_transactions_page :: "'v prims \<Rightarrow> u256_text \<Rightarrow> string \<Rightarrow> nat option \<Rightarrow> 'v blockchain \<Rightarrow> page option" where
  "public_transactions_page P T addr limit bc =
     (let address = to_lowercase addr
      in case get_address_transactions_from_db P bc address limit of
           Ok txs \<Rightarrow> Some (200, JObj [(''address'', JStr address), (''transactions'', JArr (map (entry_json T) txs))])
         | Err e \<Rightarrow> if e = Panic then None else Some (200, JObj [(''address'', JStr address), (''transactions'', JArr [])]))"

definition public_range_page :: "'v prims \<Rightarrow> 'v http_codec \<Rightarrow> query \<Rightarrow> 'v blockchain \<Rightarrow> page option" where
  "public_range_page P X params bc =
     (let from_height = unwrap_or 0 (query_u64 ''from'' params); to_height = query_u64 ''to'' params
      in case get_blocks_range P bc from_height to_height of
           Ok blocks \<Rightarrow> Some (200, JObj [(''blockchain'', blocks_text X blocks), (''count'', jnat (length blocks)),
             (''from'', jword from_height), (''to'', jopt jword to_height), (''source'', JStr ''database'')])
         | Err e \<Rightarrow> if e = Panic then None else Some (200, JObj [(''error'', fetch_error_text X e), (''count'', JInt 0)]))"

section \<open>Routes\<close>

datatype http_method = HttpGet | HttpPost | HttpOther

text \<open>
  The path as its segments, without a trailing slash. The body is read as bytes by one route and as JSON by
  another.
\<close>

record 'v http_request =
  hr_method :: http_method
  hr_path :: "string list"
  hr_query :: query
  hr_body :: 'v
  hr_json :: "json option"

datatype route = Dashboard | ChainDb | ChainMemory | ChainRange | ChainDefault | Counts | Status | DebugCounts | Health | PostTx | RelayTx
  | MempoolRoute | SubmitBlock string | ShortStatus | Balance string | AddressInfo string | AddressTransactions string "nat option"
  | Utxos string | Tx string

text \<open>\<open>warp::path\<close> matches the first segment and leaves the rest; \<open>warp::path!\<close> matches the whole path.\<close>

definition on_prefix :: "http_method \<Rightarrow> string \<Rightarrow> route \<Rightarrow> 'v http_request \<Rightarrow> route option" where
  "on_prefix m seg r q = (if hr_method q = m \<and> hr_path q \<noteq> [] \<and> hd (hr_path q) = seg then Some r else None)"

definition on_path :: "http_method \<Rightarrow> string list \<Rightarrow> route \<Rightarrow> 'v http_request \<Rightarrow> route option" where
  "on_path m segs r q = (if hr_method q = m \<and> hr_path q = segs then Some r else None)"

definition on_address :: "string \<Rightarrow> (string \<Rightarrow> route option) \<Rightarrow> 'v http_request \<Rightarrow> route option" where
  "on_address seg r q =
     (case hr_path q of
        [a, address, s] \<Rightarrow> if hr_method q = HttpGet \<and> a = ''address'' \<and> s = seg then r address else None
      | _ \<Rightarrow> None)"

definition route_tx :: "'v http_request \<Rightarrow> route option" where
  "route_tx q = (case hr_path q of [t, tid] \<Rightarrow> if hr_method q = HttpGet \<and> t = ''tx'' then Some (Tx tid) else None | _ \<Rightarrow> None)"

text \<open>The optional parameter \<open>limit\<close>: at most once and a number, else the route rejects the request.\<close>

definition limit_query :: "query \<Rightarrow> nat option option" where
  "limit_query q =
     (case filter (\<lambda>(k, _). k = ''limit'') q of
        [] \<Rightarrow> Some None
      | [(_, v)] \<Rightarrow> map_option Some (from_str_radix 64 10 v)
      | _ \<Rightarrow> None)"

definition on_transactions :: "'v http_request \<Rightarrow> route option" where
  "on_transactions q = on_address ''transactions'' (\<lambda>a. map_option (AddressTransactions a) (limit_query (hr_query q))) q"

text \<open>The body of a submission is an object with the text \<open>block_b64\<close>.\<close>

definition route_submit :: "'v http_request \<Rightarrow> route option" where
  "route_submit q =
     (if hr_method q = HttpPost \<and> hr_path q = [''mining'', ''submit'']
      then map_option SubmitBlock (Option.bind (Option.bind (hr_json q) (json_get ''block_b64'')) as_str_json) else None)"

definition internal_routes :: "('v http_request \<Rightarrow> route option) list" where
  "internal_routes =
     [on_path HttpGet [] Dashboard, on_path HttpGet [''blockchain'', ''db''] ChainDb, on_path HttpGet [''blockchain'', ''memory''] ChainMemory,
      on_path HttpGet [''blockchain'', ''range''] ChainRange, on_prefix HttpGet ''blockchain'' ChainDefault, on_prefix HttpGet ''counts'' Counts,
      on_prefix HttpGet ''status'' Status, on_path HttpGet [''debug'', ''block-counts''] DebugCounts, on_path HttpGet [''health''] Health,
      on_prefix HttpPost ''tx'' PostTx, on_path HttpPost [''tx'', ''relay''] RelayTx, on_prefix HttpGet ''mempool'' MempoolRoute, route_submit,
      on_prefix HttpGet ''status'' ShortStatus, on_address ''balance'' (\<lambda>a. Some (Balance a)), on_address ''info'' (\<lambda>a. Some (AddressInfo a)),
      on_transactions, on_address ''utxos'' (\<lambda>a. Some (Utxos a)), route_tx]"

definition public_routes :: "('v http_request \<Rightarrow> route option) list" where
  "public_routes =
     [on_path HttpGet [''health''] Health, on_prefix HttpGet ''status'' Status, on_prefix HttpGet ''counts'' Counts,
      on_path HttpGet [''blockchain'', ''range''] ChainRange, on_address ''balance'' (\<lambda>a. Some (Balance a)),
      on_address ''info'' (\<lambda>a. Some (AddressInfo a)), on_transactions, on_address ''utxos'' (\<lambda>a. Some (Utxos a)), route_tx,
      on_prefix HttpPost ''tx'' PostTx]"

text \<open>\<open>or\<close>: the first route that does not reject the request.\<close>

fun first_route :: "('v http_request \<Rightarrow> route option) list \<Rightarrow> 'v http_request \<Rightarrow> route option" where
  "first_route [] q = None"
| "first_route (f # fs) q = (case f q of Some r \<Rightarrow> Some r | None \<Rightarrow> first_route fs q)"

section \<open>The servers\<close>

datatype http_reply = Page nat json | DashboardPage | NoRoute | HandlerPanic

definition as_reply :: "page option \<Rightarrow> http_reply" where
  "as_reply p = (case p of Some (code, body) \<Rightarrow> Page code body | None \<Rightarrow> HandlerPanic)"

record 'v server =
  sv_prims :: "'v prims"
  sv_text :: u256_text
  sv_codec :: "'v http_codec"
  sv_net :: net_identity

definition reading :: "'v node \<Rightarrow> page option \<Rightarrow> 'v node \<times> http_reply" where
  "reading nd p = (nd, as_reply p)"

definition writing :: "'v node \<times> page option \<Rightarrow> 'v node \<times> http_reply" where
  "writing r = (fst r, as_reply (snd r))"

definition run_server :: "'v server \<Rightarrow> status_env \<Rightarrow> peer_manager \<Rightarrow> int \<Rightarrow> 'v http_request \<Rightarrow> 'v node \<Rightarrow> 'v node \<times> http_reply" where
  "run_server S E m now q nd =
     (let P = sv_prims S; T = sv_text S; X = sv_codec S; bc = nd_bc nd
      in case first_route internal_routes q of
           None \<Rightarrow> (nd, NoRoute)
         | Some r \<Rightarrow>
             (case r of
                Dashboard \<Rightarrow> (nd, DashboardPage)
              | ChainDb \<Rightarrow> reading nd (chain_db_page P X bc)
              | ChainMemory \<Rightarrow> reading nd (Some (chain_memory_page X nd))
              | ChainRange \<Rightarrow> reading nd (chain_range_page P X (hr_query q) bc)
              | ChainDefault \<Rightarrow> reading nd (Some (chain_page X nd))
              | Counts \<Rightarrow> reading nd (Some (counts_page P T bc))
              | Status \<Rightarrow> reading nd (status_page P T (sv_net S) E m nd)
              | DebugCounts \<Rightarrow> reading nd (debug_counts_page P nd)
              | Health \<Rightarrow> reading nd (Some (health_page P now bc))
              | PostTx \<Rightarrow> writing (post_tx_page P T now (hr_body q) nd)
              | RelayTx \<Rightarrow> writing (relay_tx_page P now (hr_body q) nd)
              | MempoolRoute \<Rightarrow> reading nd (mempool_page P T X nd)
              | SubmitBlock b \<Rightarrow> writing (submit_page P X now b nd)
              | ShortStatus \<Rightarrow> reading nd (Some (short_status_page nd))
              | Balance a \<Rightarrow> reading nd (balance_page P T a bc)
              | AddressInfo a \<Rightarrow> reading nd (address_info_page P T a bc)
              | AddressTransactions a limit \<Rightarrow> reading nd (address_transactions_page P T a limit bc)
              | Utxos a \<Rightarrow> reading nd (utxos_page P a bc)
              | Tx tid \<Rightarrow> reading nd (tx_page P X tid bc)))"

definition run_public_server :: "'v server \<Rightarrow> status_env \<Rightarrow> peer_manager \<Rightarrow> int \<Rightarrow> 'v http_request \<Rightarrow> 'v node \<Rightarrow> 'v node \<times> http_reply" where
  "run_public_server S E m now q nd =
     (let P = sv_prims S; T = sv_text S; X = sv_codec S; bc = nd_bc nd
      in case first_route public_routes q of
           Some Health \<Rightarrow> reading nd (Some (public_health_page P now bc))
         | Some Status \<Rightarrow> reading nd (Some (public_status_page P (sv_net S) E m nd))
         | Some Counts \<Rightarrow> reading nd (Some (public_counts_page P T bc))
         | Some ChainRange \<Rightarrow> reading nd (public_range_page P X (hr_query q) bc)
         | Some (Balance a) \<Rightarrow> reading nd (public_balance_page P T a bc)
         | Some (AddressInfo a) \<Rightarrow> reading nd (public_info_page P T a bc)
         | Some (AddressTransactions a limit) \<Rightarrow> reading nd (public_transactions_page P T a limit bc)
         | Some (Utxos a) \<Rightarrow> reading nd (public_utxos_page P a bc)
         | Some (Tx tid) \<Rightarrow> reading nd (public_tx_page P X tid bc)
         | Some PostTx \<Rightarrow> writing (public_post_tx_page P T now (hr_body q) nd)
         | _ \<Rightarrow> (nd, NoRoute))"

section \<open>Requests are steps of the node\<close>

lemma first_route_from: "first_route fs q = Some r \<Longrightarrow> \<exists>f\<in>set fs. f q = Some r"
  by (induction fs) (auto split: option.splits)

lemma route_iff:
  "on_path m segs r q = Some r' \<longleftrightarrow> r' = r \<and> hr_method q = m \<and> hr_path q = segs"
  "on_prefix m seg r q = Some r' \<longleftrightarrow> r' = r \<and> hr_method q = m \<and> (\<exists>rest. hr_path q = seg # rest)"
  "on_address seg f q = Some r' \<longleftrightarrow> hr_method q = HttpGet \<and> (\<exists>a. hr_path q = [''address'', a, seg] \<and> f a = Some r')"
  "route_tx q = Some r' \<longleftrightarrow> hr_method q = HttpGet \<and> (\<exists>t. hr_path q = [''tx'', t] \<and> r' = Tx t)"
  by (auto simp: on_path_def on_prefix_def on_address_def route_tx_def neq_Nil_conv split: list.splits if_splits)

lemma submit_iff: "route_submit q = Some r' \<longleftrightarrow> hr_method q = HttpPost \<and> hr_path q = [''mining'', ''submit''] \<and>
    (\<exists>b. r' = SubmitBlock b \<and> Option.bind (Option.bind (hr_json q) (json_get ''block_b64'')) as_str_json = Some b)"
  by (auto simp: route_submit_def split: if_splits)

lemma transactions_iff: "on_transactions q = Some r' \<longleftrightarrow> hr_method q = HttpGet \<and>
    (\<exists>a l. hr_path q = [''address'', a, ''transactions''] \<and> limit_query (hr_query q) = Some l \<and> r' = AddressTransactions a l)"
  by (auto simp: on_transactions_def route_iff)

lemmas route_iffs = route_iff submit_iff transactions_iff

lemma rejects: "hr_method q \<noteq> m \<Longrightarrow> on_path m segs r q = None" "hr_method q \<noteq> m \<Longrightarrow> on_prefix m seg r q = None"
    "hr_path q \<noteq> segs \<Longrightarrow> on_path m segs r q = None" "hr_path q = s # rest \<Longrightarrow> s \<noteq> seg \<Longrightarrow> on_prefix m seg r q = None"
    "hr_method q \<noteq> HttpGet \<Longrightarrow> on_address sg f q = None" "hr_method q \<noteq> HttpGet \<Longrightarrow> on_transactions q = None"
    "hr_method q \<noteq> HttpGet \<Longrightarrow> route_tx q = None"
  by (auto simp: on_path_def on_prefix_def on_address_def on_transactions_def route_tx_def split: list.splits)

text \<open>
  \<open>POST /tx\<close> is listed before \<open>POST /tx/relay\<close> and matches every path that starts with \<open>tx\<close>; likewise the
  first page of \<open>/status\<close> hides the second.
\<close>

lemma post_tx_routed:
  assumes "hr_method q = HttpPost" "hr_path q = ''tx'' # rest"
  shows "first_route internal_routes q = Some PostTx" "first_route public_routes q = Some PostTx"
  using assms by (simp_all add: internal_routes_def public_routes_def rejects on_prefix_def)

lemma status_routed:
  assumes "hr_method q = HttpGet" "hr_path q = ''status'' # rest"
  shows "first_route internal_routes q = Some Status"
  using assms by (simp add: internal_routes_def rejects on_prefix_def)

lemma shadowed_routes: "first_route internal_routes q \<noteq> Some RelayTx" "first_route internal_routes q \<noteq> Some ShortStatus"
proof -
  show "first_route internal_routes q \<noteq> Some RelayTx"
  proof
    assume r: "first_route internal_routes q = Some RelayTx"
    then have "hr_method q = HttpPost \<and> hr_path q = ''tx'' # [''relay'']"
      using first_route_from[OF r] by (auto simp: internal_routes_def route_iffs)
    then show False using post_tx_routed(1)[of q "[''relay'']"] r by simp
  qed
  show "first_route internal_routes q \<noteq> Some ShortStatus"
  proof
    assume r: "first_route internal_routes q = Some ShortStatus"
    then have "hr_method q = HttpGet \<and> (\<exists>rest. hr_path q = ''status'' # rest)"
      using first_route_from[OF r] by (auto simp: internal_routes_def route_iffs)
    then show False using status_routed[of q] r by auto
  qed
qed

lemma tx_request_step:
  assumes "\<And>m r. result = Some (m, r) \<Longrightarrow> mempool_step P relay (nd_mempool nd) m" "node_reachable P relay nd"
  shows "node_reachable P relay (fst (writing (tx_request result reply nd)))"
  using assms by (auto simp: tx_request_def writing_def split: option.splits intro: node_moves pool_step)

lemma submit_page_step:
  assumes "node_reachable P relay nd"
  shows "node_reachable P relay (fst (writing (submit_page P X now b nd)))"
proof -
  have "node_reachable P relay (fst (submit_block P now blk nd))" for blk
    by (rule node_moves[OF assms block_mined[of P now blk nd _ "snd (submit_block P now blk nd)"]]) simp
  then show ?thesis using assms by (auto simp: submit_page_def writing_def split: option.splits prod.splits result.splits) (metis fst_conv)+
qed

text \<open>
  C33. Whatever is requested from the two servers, the node stays in a state that is reachable without the relay
  of transactions, so its pending transactions never conflict (\<open>node_invariant\<close>); and the public server
  leaves the chain, the blocks in memory and the orphans as they are.
\<close>

theorem servers_preserve:
  assumes "node_reachable (sv_prims S) False nd"
  shows "node_reachable (sv_prims S) False (fst (run_server S E m now q nd)) \<and>
    node_reachable (sv_prims S) False (fst (run_public_server S E m now q nd)) \<and>
    nd_bc (fst (run_public_server S E m now q nd)) = nd_bc nd \<and> nd_chain (fst (run_public_server S E m now q nd)) = nd_chain nd"
proof (intro conjI)
  show "node_reachable (sv_prims S) False (fst (run_server S E m now q nd))"
    using assms shadowed_routes(1)[of q] tx_request_step[OF mempool_step.client assms] submit_page_step[OF assms]
    by (auto simp: run_server_def reading_def post_tx_page_def Let_def split: option.splits route.splits)
  show "node_reachable (sv_prims S) False (fst (run_public_server S E m now q nd))"
    using assms tx_request_step[OF mempool_step.public_client assms]
    by (auto simp: run_public_server_def reading_def public_post_tx_page_def Let_def split: option.splits route.splits)
  show "nd_bc (fst (run_public_server S E m now q nd)) = nd_bc nd" "nd_chain (fst (run_public_server S E m now q nd)) = nd_chain nd"
    by (simp_all add: run_public_server_def reading_def writing_def public_post_tx_page_def tx_request_def Let_def
        split: option.splits route.splits prod.splits)
qed

text \<open>The pages that both servers have are the same on both, for every chain.\<close>

theorem public_pages_agree:
  "public_health_page P now bc = health_page P now bc \<and> public_counts_page P T bc = counts_page P T bc \<and>
   public_range_page P X params bc = chain_range_page P X params bc \<and> public_balance_page P T a bc = balance_page P T a bc \<and>
   public_info_page P T a bc = address_info_page P T a bc \<and>
   public_transactions_page P T a limit bc = address_transactions_page P T a limit bc \<and>
   public_utxos_page P a bc = utxos_page P a bc \<and> public_tx_page P X tid bc = tx_page P X tid bc"
proof (intro conjI)
  show "public_health_page P now bc = health_page P now bc"
    by (simp add: public_health_page_def health_page_def tip_count_def)
  show "public_counts_page P T bc = counts_page P T bc"
    by (simp add: public_counts_page_def counts_page_def tip_count_def unwrap_or_def Let_def split: option.splits result.splits)
  show "public_info_page P T a bc = address_info_page P T a bc"
    by (simp add: public_info_page_def address_info_page_def Let_def map_option_bind comp_def
        option.map_comp bind_map_option map_conv_bind_option)
qed (simp_all add: public_range_page_def chain_range_page_def public_balance_page_def balance_page_def public_transactions_page_def
    address_transactions_page_def public_utxos_page_def utxos_page_def public_tx_page_def tx_page_def answered_def Let_def
    split: result.splits option.splits)

section \<open>Who reads the pages\<close>

lemma as_u64_jword [simp]: "as_u64 (jword (w :: u64)) = Some w" "as_u64 (jword (d :: u32)) = Some (ucast d)"
  unfolding jword_def by (rule as_u64_nat, rule as_u64_u32)

text \<open>The page of the status, as the miner and the pool read it.\<close>

lemma status_read:
  assumes "status_page P T N E m nd = Some (c, v)"
  obtains next_diff where "or_default (bc_difficulty (nd_bc nd)) (calculate_adjusted_difficulty P (nd_bc nd) (tip_height P (nd_bc nd) + 1)) = Some next_diff"
    "c = 200"
    "miner_fetch_status (Some v) = Some \<lparr>cv_height = tip_height P (nd_bc nd), cv_difficulty = bc_difficulty (nd_bc nd),
       cv_tip_hash = unwrap_or ''none'' (chain_tip (nd_bc nd))\<rparr>"
    "read_status v = \<lparr>cs_height = tip_height P (nd_bc nd), cs_difficulty = bc_difficulty (nd_bc nd), cs_next_difficulty = next_diff,
       cs_tip_hash = unwrap_or ''none'' (chain_tip (nd_bc nd))\<rparr>"
proof -
  obtain next_diff where n: "or_default (bc_difficulty (nd_bc nd)) (calculate_adjusted_difficulty P (nd_bc nd) (tip_height P (nd_bc nd) + 1)) = Some next_diff"
    using assms by (auto simp: status_page_def Let_def bind_eq_Some_conv split: prod.splits)
  obtain nj mb g mh rest where v: "c = 200" "v = JObj ((''node'', nj) # (''blockchain'', JObj [(''height'', jword (tip_height P (nd_bc nd))), (''memory_blocks'', mb),
      (''chain_tip'', JStr (unwrap_or ''none'' (chain_tip (nd_bc nd)))), (''genesis_hash'', g), (''my_height'', mh),
      (''difficulty'', jword (bc_difficulty (nd_bc nd))), (''next_difficulty'', jword next_diff)]) # rest)"
    using assms n by (auto simp: status_page_def Let_def split: prod.splits)
  show thesis
    by (rule that[OF n v(1)]) (simp_all add: v(2) miner_fetch_status_def read_status_def member_u64_def unwrap_or_def or_else_def Let_def)
qed

lemma stored_parent:
  assumes "load_block P bc h = Ok (Some b)"
  shows "load_header P bc h = Ok (Some (header b))" "db_get (bc_db bc) (block_key h) \<noteq> None"
  using assms by (auto simp: load_block_def load_header_def split: option.splits)

text \<open>The template the pool makes of the page, and the block of a nonce.\<close>

lemma template_of_status:
  assumes "status_page P T N E m nd = Some (c, v)" "chain_tip (nd_bc nd) = Some tip" "tip \<noteq> ''none''"
    and "load_block P (nd_bc nd) tip = Ok (Some prev)"
    and "calculate_adjusted_difficulty P (nd_bc nd) (index (header prev) + 1) = Ok bits"
    and "build_template P T now \<lparr>na_status = Some v, na_mempool = mp\<rparr> addr job pend = Some t"
  shows "mt_height t = index (header prev) + 1" "mt_prev_hash t = tip" "mt_difficulty t = bits" "mt_timestamp t = now"
    "\<exists>txs. mt_transactions t = with_hashes P (coinbase P now addr (calculate_block_reward (mt_height t))) # txs"
    "mt_merkle_root t = compute_merkle_root P (map txid (mt_transactions t))"
proof -
  have h: "tip_height P (nd_bc nd) = index (header prev)" using assms(2) stored_parent(1)[OF assms(4)] by (simp add: tip_height_def)
  obtain next_diff where n: "or_default (bc_difficulty (nd_bc nd)) (calculate_adjusted_difficulty P (nd_bc nd) (tip_height P (nd_bc nd) + 1)) = Some next_diff"
    and r: "read_status v = \<lparr>cs_height = tip_height P (nd_bc nd), cs_difficulty = bc_difficulty (nd_bc nd), cs_next_difficulty = next_diff,
       cs_tip_hash = unwrap_or ''none'' (chain_tip (nd_bc nd))\<rparr>"
    using status_read[OF assms(1)] by blast
  have b: "next_diff = bits" using n assms(5) h by (simp add: or_default_def)
  have t: "Some t = build_template P T now \<lparr>na_status = Some v, na_mempool = mp\<rparr> addr job pend" using assms(6) by simp
  show "mt_height t = index (header prev) + 1" "mt_prev_hash t = tip" "mt_difficulty t = bits" "mt_timestamp t = now"
    "\<exists>txs. mt_transactions t = with_hashes P (coinbase P now addr (calculate_block_reward (mt_height t))) # txs"
    "mt_merkle_root t = compute_merkle_root P (map txid (mt_transactions t))"
    using t assms(2,3) by (simp_all add: build_template_def fetch_status_def r h b unwrap_or_def Let_def)
qed

lemma limbs_sum:
  assumes "n < (2::nat) ^ 256"
  shows "n mod 2 ^ 64 + 2 ^ 64 * (n div 2 ^ 64 mod 2 ^ 64) + 2 ^ 128 * (n div 2 ^ 128 mod 2 ^ 64) + 2 ^ 192 * (n div 2 ^ 192 mod 2 ^ 64) = n"
proof -
  have split: "n div 2 ^ k = n div 2 ^ k mod 2 ^ 64 + 2 ^ 64 * (n div 2 ^ (k + 64))" for k
  proof -
    have "n div 2 ^ (k + 64) = n div 2 ^ k div 2 ^ 64" by (simp only: power_add div_mult2_eq)
    then show ?thesis by (metis mod_mult_div_eq)
  qed
  have e: "n div 2 ^ 256 = 0" using assms by simp
  have 0: "n = n mod 2 ^ 64 + 2 ^ 64 * (n div 2 ^ 64)" by simp
  have 1: "n div 2 ^ 64 = n div 2 ^ 64 mod 2 ^ 64 + 2 ^ 64 * (n div 2 ^ 128)" using split[of 64] by simp
  have 2: "n div 2 ^ 128 = n div 2 ^ 128 mod 2 ^ 64 + 2 ^ 64 * (n div 2 ^ 192)" using split[of 128] by simp
  have 3: "n div 2 ^ 192 = n div 2 ^ 192 mod 2 ^ 64" using split[of 192] e by simp
  have sum: "r0 + 2 ^ 64 * r1 + 2 ^ 128 * r2 + 2 ^ 192 * r3 = n"
    if "n = r0 + 2 ^ 64 * q1" "q1 = r1 + 2 ^ 64 * q2" "q2 = r2 + 2 ^ 64 * q3" "q3 = r3" for r0 r1 r2 r3 q1 q2 q3 :: nat
    using that by simp
  show ?thesis by (rule sum[OF 0 1 2 3])
qed

lemma limbs_roundtrip: "from_limbs (to_limbs n) = n"
proof -
  have l: "unat (to_limbs n ! i) = unat n div 2 ^ (64 * i) mod 2 ^ 64" if "i < 4" for i
    using that by (simp add: to_limbs_def unat_of_nat)
  show ?thesis
    unfolding from_limbs_def using l[of 0] l[of 1] l[of 2] l[of 3] limbs_sum[OF unat_u256_lt[of n]] by simp
qed

lemma as_u64_limbs: "List.map_filter as_u64 (map jword ws) = (ws :: u64 list)"
  by (induction ws) (simp_all add: List.map_filter_simps)

lemma utxo_json_amount: "parse_utxo_amount T (utxo_json u) = u_amount u"
proof -
  have "length (to_limbs (u_amount u)) = 4" by (simp add: to_limbs_def)
  then show ?thesis
    by (simp add: parse_utxo_amount_def utxo_json_def json_index_def limbs_of_def as_u64_limbs limbs_roundtrip Let_def)
qed

definition spendable :: "string \<Rightarrow> utxo \<Rightarrow> transaction_input \<times> u256" where
  "spendable address u = (\<lparr>in_txid = u_txid u, in_vout = u_vout u, in_pubkey = address, in_signature = None\<rparr>, u_amount u)"

lemma utxo_json_members: "json_index (utxo_json u) ''txid'' = JStr (u_txid u)" "json_index (utxo_json u) ''vout'' = jword (u_vout u)"
  by (simp_all add: utxo_json_def json_index_def)

lemma utxo_input_json: "utxo_input T address (utxo_json u) = (if u_amount u > 0 then Some (spendable address u) else None)"
  by (simp add: utxo_input_def utxo_json_amount utxo_json_members spendable_def Let_def)

text \<open>
  The pool reads from the page of unspent outputs exactly the outputs of the address in the node's database,
  with their amounts, except for those of amount 0.
\<close>

theorem utxos_page_read:
  assumes "get_utxos P bc address = Ok us"
  shows "\<exists>js. utxos_page P address bc = Some (200, JArr js) \<and>
    fetch_utxos T address (Some js) = Ok (map (spendable address) (filter (\<lambda>u. u_amount u > 0) us))"
proof -
  have "List.map_filter (utxo_input T address) (map utxo_json us) = map (spendable address) (filter (\<lambda>u. u_amount u > 0) us)"
    by (induction us) (simp_all add: List.map_filter_simps utxo_input_json)
  then show ?thesis using assms by (simp add: utxos_page_def answered_def fetch_utxos_def)
qed

text \<open>The explorer reads from the page of a range the blocks of that range.\<close>

theorem range_page_read:
  assumes "http_codec_ok X" "get_blocks_range P bc from_height to_height = Ok blocks"
    and "query_u64 ''from'' params = Some from_height" "query_u64 ''to'' params = to_height"
  shows "\<exists>v. chain_range_page P X params bc = Some (200, v) \<and>
    fetch_blocks_range P C now (\<lambda>s. Option.bind (hc_unb64 X s) (hc_dec_blocks X)) (Some v) =
      (case extract_transactions P C now blocks Map.empty of
         Ok e \<Rightarrow> Ok (map (block_info_of C now) blocks, e) | Err _ \<Rightarrow> Err FetchPanic)"
  using assms
  by (auto simp: chain_range_page_def answered_def fetch_blocks_range_def fetched_def blocks_text_def http_codec_ok_def unwrap_or_def Let_def)

definition empty_acc :: "'v tx_acc" where
  "empty_acc = \<lparr>batch = [], total_fees = 0, block_utxos = Map.empty\<rparr>"

text \<open>What a template leaves open: its nonce, its time and its transactions.\<close>

definition nonce_ok :: "'v prims \<Rightarrow> mining_template \<Rightarrow> u64 \<Rightarrow> bool" where
  "nonce_ok P t n \<longleftrightarrow> is_valid_pow P (compute_header_hash_str P t n) (mt_difficulty t) = Ok True \<and>
     validate_against_checkpoints (mt_height t) (compute_header_hash_str P t n)"

definition time_ok :: "'v prims \<Rightarrow> int \<Rightarrow> 'v blockchain \<Rightarrow> mining_template \<Rightarrow> u64 \<Rightarrow> bool" where
  "time_ok P now bc t n \<longleftrightarrow> mt_timestamp t \<le> i64 (now + max_future_block_time bc) \<and>
     validate_median_time_past P bc (template_block P t n) = Ok ()"

definition txs_ok :: "'v prims \<Rightarrow> 'v blockchain \<Rightarrow> mining_template \<Rightarrow> bool" where
  "txs_ok P bc t \<longleftrightarrow> (\<exists>acc. fold_res (process_tx P (bc_db bc)) (tl (mt_transactions t)) (add_outputs P (hd (mt_transactions t)) empty_acc) = Ok acc \<and>
     unat (calculate_block_reward (mt_height t)) + unat (total_fees acc) < 2 ^ 256)"

lemma coinbase_first:
  assumes "mt_transactions t = with_hashes P (coinbase P now addr (calculate_block_reward (mt_height t))) # txs" "txs_ok P bc t"
  shows "\<exists>ops. block_batch P bc (template_block P t n) = Ok ops"
proof -
  let ?cb = "with_hashes P (coinbase P now addr (calculate_block_reward (mt_height t)))"
  have cb: "inputs ?cb = []" "map out_amount (outputs ?cb) = [calculate_block_reward (mt_height t)]"
    by (simp_all add: with_hashes_def coinbase_def)
  obtain acc where acc: "fold_res (process_tx P (bc_db bc)) txs (add_outputs P ?cb empty_acc) = Ok acc"
    "unat (calculate_block_reward (mt_height t)) + unat (total_fees acc) < 2 ^ 256"
    using assms by (auto simp: txs_ok_def)
  have "process_coinbase P ?cb empty_acc = Ok (add_outputs P ?cb empty_acc)"
    by (simp add: process_coinbase_def check_signed_def verify_signatures_def cb(1))
  moreover have "\<exists>r. u256_add (calculate_block_reward (mt_height t)) (total_fees acc) = Some r \<and> calculate_block_reward (mt_height t) \<le> r"
    using acc(2) by (auto simp: u256_add_def word_le_nat_alt unat_word_ariths)
  ultimately show ?thesis
    using acc(1) cb by (auto simp: block_batch_def template_block_def assms(1) build_header_for_nonce_def get_block_reward_eq
        empty_acc_def[symmetric] u256_sum_single not_less)
qed

text \<open>
  C32. Node, pool and node again: the pool asks the node for its status and makes a template of the answer; the block
  that is submitted over HTTP is answered with success and becomes the node's tip, if the node's chain is still
  the one of the status page, the nonce meets the target and the checkpoints (\<open>nonce_ok\<close>), the node accepts
  the template's time by its clock and the median of the last blocks (\<open>time_ok\<close>) and the template's
  transactions (\<open>txs_ok\<close>), the retarget is not one that the progression test refuses, and the block is
  not stored already. A template with a transaction that has become invalid, or a late clock, is not covered.
\<close>

theorem pool_block_becomes_tip:
  assumes "codec_ok (sv_prims S)" "http_codec_ok (sv_codec S)" "status_page (sv_prims S) T N E m nd = Some (c, v)"
    and "chain_tip (nd_bc nd) = Some tip" "tip \<noteq> ''none''" "load_block (sv_prims S) (nd_bc nd) tip = Ok (Some prev)" "index (header prev) + 1 \<noteq> 0"
    and "calculate_adjusted_difficulty (sv_prims S) (nd_bc nd) (index (header prev) + 1) = Ok bits" "\<not> too_aggressive (difficulty (header prev)) bits"
    and "build_template (sv_prims S) T now \<lparr>na_status = Some v, na_mempool = mp\<rparr> addr job pend = Some t"
    and "nonce_ok (sv_prims S) t n" "time_ok (sv_prims S) later (nd_bc nd) t n" "txs_ok (sv_prims S) (nd_bc nd) t"
    and "db_get (bc_db (nd_bc nd)) (block_key (compute_header_hash_str (sv_prims S) t n)) = None"
    and "hr_method q = HttpPost" "hr_path q = [''mining'', ''submit'']"
    and "hr_json q = Some (JObj [(''block_b64'', JStr (hc_b64 (sv_codec S) (enc_block (sv_prims S) (template_block (sv_prims S) t n))))])"
  shows "\<exists>nd'. run_server S E' m' later q nd = (nd', Page 200 (JObj [(''status'', JStr ''ok''),
      (''hash'', JStr (compute_header_hash_str (sv_prims S) t n)), (''height'', jword (mt_height t))])) \<and>
    chain_tip (nd_bc nd') = Some (compute_header_hash_str (sv_prims S) t n)"
proof -
  let ?P = "sv_prims S" and ?bc = "nd_bc nd" and ?b = "template_block (sv_prims S) t n"
  note t = template_of_status[OF assms(3-6,8,10)]
  have hdr: "index (header ?b) = mt_height t" "previous_hash (header ?b) = tip" "difficulty (header ?b) = bits" "timestamp (header ?b) = mt_timestamp t"
    "merkle_root (header ?b) = mt_merkle_root t" "transactions ?b = mt_transactions t" "block_hash ?b = compute_header_hash_str ?P t n"
    "compute_header_hash ?P (header ?b) = compute_header_hash_str ?P t n"
    by (simp_all add: template_block_def build_header_for_nonce_def compute_header_hash_str_def t)
  have pos: "0 < mt_height t" using t(1) assms(7) by (simp add: word_gt_0)
  have 1: "check_header ?P ?bc ?b = Ok ()"
    using assms(8,11) pos t(1,3) stored_parent(2)[OF assms(6)] by (simp add: check_header_def hdr nonce_ok_def Let_def ensure_def)
  have 2: "settle_tip ?P ?bc ?b = (?bc, Ok ())"
    using assms(4) stored_parent(1)[OF assms(6)] by (simp add: settle_tip_def hdr ensure_def)
  have "check_progression ?P ?bc ?b = Ok ()"
    using assms(6,9) by (auto simp: check_progression_def hdr ensure_def load_block_def split: option.splits)
  then have 3: "check_context ?P later ?bc ?b = Ok ()"
    using assms(12) t(6) by (simp add: check_context_def hdr time_ok_def ensure_def Let_def)
  obtain ops where 4: "block_batch ?P ?bc ?b = Ok ops" using t(5) coinbase_first[OF _ assms(13)] by blast
  have ins: "validate_and_insert_block ?P later ?bc ?b =
      (?bc\<lparr>bc_db := put_batch (bc_db ?bc) ops, chain_tip := Some (compute_header_hash_str ?P t n), bc_difficulty := bits\<rparr>, Ok ())"
    using assms(14) 1 2 3 4 by (simp add: validate_and_insert_block_def hdr)
  have dec: "hc_unb64 (sv_codec S) (hc_b64 (sv_codec S) (enc_block ?P ?b)) = Some (enc_block ?P ?b)" using assms(2) by (simp add: http_codec_ok_def)
  have "first_route internal_routes q = Some (SubmitBlock (hc_b64 (sv_codec S) (enc_block ?P ?b)))"
    using assms(15-17) by (simp add: internal_routes_def rejects route_submit_def)
  then show ?thesis
    using assms(1) by (simp add: run_server_def submit_page_def dec submit_block_def ins hdr writing_def as_reply_def Let_def)
qed

section \<open>Examples\<close>

text \<open>A codec for the examples: the values are countable, so numbers of letters can stand for them.\<close>

instance word :: (len) countable
  by (rule countable_classI[of unat]) (metis word_unat_eq_iff)

instance transaction_input_ext :: (countable) countable
  by (rule countable_classI[of "\<lambda>r. to_nat (in_txid r, in_vout r, in_pubkey r, in_signature r, transaction_input.more r)"]) simp

instance transaction_output_ext :: (countable) countable
  by (rule countable_classI[of "\<lambda>r. to_nat (out_to r, out_amount r, transaction_output.more r)"]) simp

instance transaction_ext :: (countable) countable
  by (rule countable_classI[of "\<lambda>r. to_nat (txid r, inputs r, outputs r, tx_timestamp r, transaction.more r)"]) simp

instance utxo_ext :: (countable) countable
  by (rule countable_classI[of "\<lambda>r. to_nat (u_txid r, u_vout r, u_to r, u_amount r, utxo.more r)"]) simp

instance block_header_ext :: (countable) countable
  by (rule countable_classI[of "\<lambda>r. to_nat (index r, previous_hash r, merkle_root r, timestamp r, nonce r, difficulty r, block_header.more r)"]) simp

instance block_ext :: (countable) countable
  by (rule countable_classI[of "\<lambda>r. to_nat (header r, transactions r, block_hash r, block.more r)"]) simp

instance stored :: countable
  by countable_datatype

definition tally :: "'a::countable \<Rightarrow> string" where
  "tally x = replicate (to_nat x) CHR ''a''"

definition untally :: "string \<Rightarrow> 'a::countable" where
  "untally s = from_nat (length s)"

lemma untally_tally [simp]: "untally (tally x) = x"
  by (simp add: untally_def tally_def)

definition ref_http :: "stored http_codec" where
  "ref_http = \<lparr>hc_b64 = tally, hc_unb64 = Some \<circ> untally, hc_enc_blocks = SText \<circ> tally,
     hc_dec_blocks = (\<lambda>v. case v of SText s \<Rightarrow> Some (untally s) | _ \<Rightarrow> None), hc_enc_txs = SText \<circ> tally,
     hc_dec_txs = (\<lambda>v. case v of SText s \<Rightarrow> Some (untally s) | _ \<Rightarrow> None),
     hc_hex = (\<lambda>v. tally v @ tally v), hc_unhex = (\<lambda>s. Some (untally (take (length s div 2) s))),
     hc_error = (\<lambda>_. []), hc_b64_error = [], hc_hex_error = [], hc_bincode_error = []\<rparr>"

lemma ref_http_ok: "http_codec_ok ref_http"
  by (simp add: http_codec_ok_def ref_http_def hex_text_def) (simp add: tally_def list_all_iff hex_val_def)

definition sample_net :: net_identity where
  "sample_net = \<lparr>my_network_id = ''Astram-testnet'', my_chain_id = 8888, my_network_magic = 1, my_software_version = []\<rparr>"

definition sample_server :: "stored server" where
  "sample_server = \<lparr>sv_prims = ref_prims, sv_text = ref_text, sv_codec = ref_http, sv_net = sample_net\<rparr>"

definition sample_node :: "stored node" where
  "sample_node = \<lparr>nd_bc = sample_chain, nd_chain = chain_state_default, nd_mempool = mempool_default,
     my_height = 0, mining_active = False, cancel_flag = False, requested = []\<rparr>"

definition sample_status_env :: status_env where
  "sample_status_env = \<lparr>se_contended = False, se_version = ''1'', se_uptime = 0, se_time = [], se_hashrate = Fin 0, se_blocks_mined = 0,
     se_miner_address = sample_address, se_stats = stats_new\<rparr>"

lemma sample_adjusted: "calculate_adjusted_difficulty ref_prims sample_chain 1 = Ok POW_LIMIT_BITS"
  by (simp add: calculate_adjusted_difficulty_def RETARGET_WINDOW_def sample_chain_def)

lemma sample_status: "\<exists>v. status_page ref_prims ref_text sample_net sample_status_env manager_new sample_node = Some (200, v)"
proof -
  have "tip_height ref_prims sample_chain = 0" using sample_load(2) by (simp add: tip_height_def sample_chain_def sample_genesis_def)
  then show ?thesis
    by (simp add: status_page_def sample_node_def sample_adjusted or_default_def Let_def split: prod.splits)
qed

lemma sample_template_of:
  assumes "status_page ref_prims ref_text sample_net sample_status_env manager_new sample_node = Some (200, v)"
  obtains t where "build_template ref_prims ref_text 2000 \<lparr>na_status = Some v, na_mempool = None\<rparr> ''0xab'' ''j'' [] = Some t"
    "template_block ref_prims t 0 = sample_block 1 (mt_transactions t)" "tl (mt_transactions t) = []" "mt_difficulty t = POW_LIMIT_BITS" "mt_height t = 1"
proof -
  obtain t where t: "build_template ref_prims ref_text 2000 \<lparr>na_status = Some v, na_mempool = None\<rparr> ''0xab'' ''j'' [] = Some t"
    by (auto simp: build_template_def fetch_status_def Let_def)
  have i: "index (header sample_genesis) = 0" by (simp add: sample_genesis_def)
  have bc: "nd_bc sample_node = sample_chain" "chain_tip sample_chain = Some ''g''" by (simp_all add: sample_node_def sample_chain_def)
  note f = template_of_status[OF assms, of "''g''" sample_genesis POW_LIMIT_BITS 2000 None "''0xab''" "''j''" "[]" t, unfolded bc i,
      OF _ _ sample_load(1) _ t, simplified, OF sample_adjusted]
  have "tl (mt_transactions t) = []" using t by (auto simp: build_template_def fetch_status_def fetch_mempool_def Let_def)
  moreover have "template_block ref_prims t 0 = sample_block 1 (mt_transactions t)"
    using f by (simp add: template_block_def sample_block_def build_header_for_nonce_def compute_header_hash_str_def Let_def)
  ultimately show thesis using that t f(1,3) by blast
qed

theorem pool_block_becomes_tip_witness:
  "\<exists>v t q nd'. status_page ref_prims ref_text sample_net sample_status_env manager_new sample_node = Some (200, v) \<and>
    build_template ref_prims ref_text 2000 \<lparr>na_status = Some v, na_mempool = None\<rparr> ''0xab'' ''j'' [] = Some t \<and>
    fst (run_server sample_server sample_status_env manager_new 2000 q sample_node) = nd' \<and>
    chain_tip (nd_bc nd') = Some (compute_header_hash_str ref_prims t 0)"
proof -
  obtain v where v: "status_page ref_prims ref_text sample_net sample_status_env manager_new sample_node = Some (200, v)"
    using sample_status by blast
  obtain t where t: "build_template ref_prims ref_text 2000 \<lparr>na_status = Some v, na_mempool = None\<rparr> ''0xab'' ''j'' [] = Some t"
    "template_block ref_prims t 0 = sample_block 1 (mt_transactions t)" "tl (mt_transactions t) = []" "mt_difficulty t = POW_LIMIT_BITS" "mt_height t = 1"
    using sample_template_of[OF v] by blast
  let ?q = "\<lparr>hr_method = HttpPost, hr_path = [''mining'', ''submit''], hr_query = [], hr_body = SText [],
    hr_json = Some (JObj [(''block_b64'', JStr (hc_b64 ref_http (enc_block ref_prims (template_block ref_prims t 0))))])\<rparr>"
  have S: "sv_prims sample_server = ref_prims" "sv_codec sample_server = ref_http" by (simp_all add: sample_server_def)
  have bc: "nd_bc sample_node = sample_chain" "chain_tip sample_chain = Some ''g''" "index (header sample_genesis) = 0"
    "difficulty (header sample_genesis) = POW_LIMIT_BITS"
    by (simp_all add: sample_node_def sample_chain_def sample_genesis_def)
  have h: "compute_header_hash_str ref_prims t 0 = block_hash (sample_block 1 (mt_transactions t))"
    unfolding t(2)[symmetric] by (simp add: template_block_def)
  have n: "nonce_ok ref_prims t 0"
    using sample_check_header[of 1 "mt_transactions t"] unfolding nonce_ok_def h t(4,5)
    by (auto simp: check_header_def ensure_def Let_def res_simps split: if_splits)
  have c: "check_context ref_prims 2000 sample_chain (sample_block 1 (mt_transactions t)) = Ok ()" by (rule sample_check_context) simp
  have "mt_timestamp t = 2000" using t(1) by (auto simp: build_template_def fetch_status_def Let_def)
  then have k: "time_ok ref_prims 2000 sample_chain t 0"
    using c unfolding time_ok_def t(2) by (auto simp: check_context_def ensure_def Let_def res_simps split: if_splits)
  have x: "txs_ok ref_prims sample_chain t"
    using unat_u256_lt[of "calculate_block_reward (mt_height t)"] by (simp add: txs_ok_def t(3) add_outputs_def empty_acc_def)
  have a: "\<not> too_aggressive POW_LIMIT_BITS POW_LIMIT_BITS"
    using pow_limit_nonzero by (simp add: too_aggressive_def pow_limit_target_def)
  have s: "db_get (bc_db sample_chain) (block_key (compute_header_hash_str ref_prims t 0)) = None" unfolding h by (rule sample_not_stored)
  have d: "calculate_adjusted_difficulty ref_prims sample_chain (0 + 1) = Ok POW_LIMIT_BITS" by (simp add: sample_adjusted)
  have "\<exists>nd'. run_server sample_server sample_status_env manager_new 2000 ?q sample_node = (nd', Page 200 (JObj [(''status'', JStr ''ok''),
      (''hash'', JStr (compute_header_hash_str ref_prims t 0)), (''height'', jword (mt_height t))])) \<and>
    chain_tip (nd_bc nd') = Some (compute_header_hash_str ref_prims t 0)"
    by (rule pool_block_becomes_tip[of sample_server _ _ _ _ sample_node _ _ "''g''" sample_genesis POW_LIMIT_BITS, unfolded S bc, OF ref_prims_ok(1) ref_http_ok v refl _ sample_load(1) _ d a t(1) n k x s]) simp_all
  then show ?thesis using v t(1) by (metis fst_conv)
qed

theorem servers_preserve_witness:
  "node_reachable ref_prims False (fst (run_server sample_server sample_status_env manager_new 0
      \<lparr>hr_method = HttpPost, hr_path = [''tx'', ''relay''], hr_query = [], hr_body = STx sample_tx, hr_json = None\<rparr> fresh_node))"
  using servers_preserve[of sample_server fresh_node] fresh_reachable by (simp add: sample_server_def)

theorem utxos_page_read_witness:
  "\<exists>js. utxos_page ref_prims sample_address sample_chain = Some (200, JArr js) \<and>
    fetch_utxos ref_text sample_address (Some js) = Ok [spendable sample_address sample_utxo]"
proof -
  have "get_utxos ref_prims sample_chain sample_address = Ok [sample_utxo]"
    by (simp add: get_utxos_def db_iterator_def sample_chain_def ref_selectors) (simp add: sample_utxo_def)
  from utxos_page_read[OF this, of ref_text] show ?thesis by (simp add: sample_utxo_def)
qed

theorem range_page_read_witness:
  "\<exists>v bs. chain_range_page ref_prims ref_http [(''from'', show_nat 0)] sample_chain = Some (200, v) \<and> get_blocks_range ref_prims sample_chain 0 None = Ok bs \<and>
    fetch_blocks_range ref_prims ref_ex_codec 0 (\<lambda>s. Option.bind (hc_unb64 ref_http s) (hc_dec_blocks ref_http)) (Some v) =
      (case extract_transactions ref_prims ref_ex_codec 0 bs Map.empty of
         Ok e \<Rightarrow> Ok (map (block_info_of ref_ex_codec 0) bs, e) | Err _ \<Rightarrow> Err FetchPanic)"
proof -
  have "block_at ref_prims sample_chain 0 = Some (Ok (Some sample_genesis))" "block_at ref_prims sample_chain 1 = None"
    by (simp_all add: block_at_def sample_chain_def db_get_def index_key_def block_key_def tip_key_def tx_key_def utxo_key_def ref_selectors load_block_def)
  then have g: "get_blocks_range ref_prims sample_chain 0 None = Ok [sample_genesis]"
    by (simp add: get_blocks_range_def blocks_range_loop.simps[of ref_prims sample_chain None 0]
        blocks_range_loop.simps[of ref_prims sample_chain None "Suc 0"])
  have "query_u64 ''from'' [(''from'', show_nat 0)] = Some 0" "query_u64 ''to'' [(''from'', show_nat 0)] = None"
    using parse_show_nat[of 0 64] by (simp_all add: query_u64_def query_get_def)
  from range_page_read[OF ref_http_ok g this, of ref_ex_codec 0] g show ?thesis by blast
qed

end
