(* ===== verification/Utxo_Keys.thy ===== *)
theory Utxo_Keys
  imports Reachability
begin

text \<open>
  The records of unspent outputs: each stands under the key of the output it describes. The index of an output
  is stored in 32 bits, so this holds as long as no transaction has more than \<open>2\<^sup>3\<^sup>2\<close> outputs. The invariant
  is kept by every operation of the chain; what the node reports to wallets and pools rests on it.
\<close>

definition utxo_slot :: "utxo \<Rightarrow> string" where
  "utxo_slot u = utxo_key (u_txid u) (unat (u_vout u))"

definition utxos_keyed :: "'v prims \<Rightarrow> 'v db \<Rightarrow> bool" where
  "utxos_keyed P d \<longleftrightarrow> (\<forall>(k, v) \<in> set d. starts_with ''u:'' k \<longrightarrow> (\<forall>u. dec_utxo P v = Some u \<longrightarrow> k = utxo_slot u))"

definition small_block :: "block \<Rightarrow> bool" where
  "small_block b \<longleftrightarrow> (\<forall>tx\<in>set (transactions b). length (outputs tx) \<le> 2 ^ 32)"

section \<open>Writes that keep it\<close>

definition fits :: "'v prims \<Rightarrow> string \<Rightarrow> 'v \<Rightarrow> bool" where
  "fits P k v \<longleftrightarrow> (starts_with ''u:'' k \<longrightarrow> (\<forall>u. dec_utxo P v = Some u \<longrightarrow> k = utxo_slot u)) \<and>
     (starts_with ''b:'' k \<longrightarrow> (\<forall>b. dec_block P v = Some b \<longrightarrow> small_block b))"

definition all_fit :: "'v prims \<Rightarrow> (string \<rightharpoonup> 'v) \<Rightarrow> bool" where
  "all_fit P m \<longleftrightarrow> (\<forall>k v. m k = Some v \<longrightarrow> fits P k v)"

definition op_fits :: "'v prims \<Rightarrow> 'v write_op \<Rightarrow> bool" where
  "op_fits P op \<longleftrightarrow> (case op of Put k v \<Rightarrow> fits P k v | Delete k \<Rightarrow> True)"

lemma op_fits_simps [simp]:
  "op_fits P (Delete k)" "op_fits P (Put (tx_key t) v)" "op_fits P (Put (index_key n) v)" "op_fits P (Put tip_key v)"
  by (simp_all add: op_fits_def fits_def)

lemma fits_block: "codec_ok P \<Longrightarrow> small_block b \<Longrightarrow> op_fits P (Put (block_key h) (enc_block P b))"
  by (simp add: op_fits_def fits_def)

lemma fits_utxo: "codec_ok P \<Longrightarrow> op_fits P (Put (utxo_slot u) (enc_utxo P u))"
  by (simp add: op_fits_def fits_def utxo_slot_def)

lemma all_fit_batch: "all_fit P m \<Longrightarrow> (\<And>op. op \<in> set ops \<Longrightarrow> op_fits P op) \<Longrightarrow> all_fit P (batch_view ops m)"
proof (induction ops arbitrary: m)
  case (Cons op ops)
  have "op_fits P op" using Cons.prems(2) by simp
  then have "all_fit P (op_view op m)" using Cons.prems(1) by (cases op) (auto simp: all_fit_def op_fits_def)
  then show ?case using Cons by simp
qed simp

lemma created_fit:
  assumes "codec_ok P" "length (outputs tx) \<le> 2 ^ 32" "op \<in> set (put_utxos P (created_utxos f tx))"
  shows "op_fits P op"
proof -
  obtain v out where v: "(v, out) \<in> set (enumerate 0 (outputs tx))" "op = Put (utxo_key (txid tx) v)
      (enc_utxo P \<lparr>u_txid = txid tx, u_vout = of_nat v, u_to = f (out_to out), u_amount = out_amount out\<rparr>)"
    using assms(3) by (auto simp: put_utxos_def created_utxos_def)
  have "v < 2 ^ 32" using v(1) assms(2) by (auto simp: in_set_enumerate_eq)
  then have "unat (of_nat v :: u32) = v" by (simp add: unat_of_nat)
  then show ?thesis using fits_utxo[OF assms(1)] v(2) by (metis utxo_slot_def utxo.select_convs(1,2))
qed

section \<open>Operations that keep it\<close>

lemma inputs_fit:
  assumes "fold_res (process_input P d) inps (used, s, acc) = Ok (used', s', acc')" "\<forall>op\<in>set (batch acc). op_fits P op"
  shows "\<forall>op\<in>set (batch acc'). op_fits P op"
  using assms
proof (induction inps arbitrary: used s acc)
  case (Cons inp inps)
  obtain u1 s1 a1 where 1: "process_input P d inp (used, s, acc) = Ok (u1, s1, a1)"
    "fold_res (process_input P d) inps (u1, s1, a1) = Ok (used', s', acc')" using Cons.prems(1) by (auto simp: res_simps)
  from 1(1) obtain u where "find_utxo P d (utxo_key (in_txid inp) (unat (in_vout inp))) acc = Ok (u, a1)" by (rule process_input_find)
  then have "\<forall>op\<in>set (batch a1). op_fits P op" using Cons.prems(2) by (auto simp: find_utxo_def res_simps split: option.splits)
  then show ?case using Cons.IH[OF 1(2)] by blast
qed simp

lemma outputs_fit:
  assumes "codec_ok P" "length (outputs tx) \<le> 2 ^ 32" "\<forall>op\<in>set (batch acc). op_fits P op"
  shows "\<forall>op\<in>set (batch (add_outputs P tx acc)). op_fits P op"
  using assms created_fit[OF assms(1,2)] by (auto simp: add_outputs_def)

lemma txs_fit:
  assumes "codec_ok P" "fold_res (process_tx P d) txs acc = Ok acc'" "\<forall>tx\<in>set txs. length (outputs tx) \<le> 2 ^ 32"
    and "\<forall>op\<in>set (batch acc). op_fits P op"
  shows "\<forall>op\<in>set (batch acc'). op_fits P op"
  using assms(2-4)
proof (induction txs arbitrary: acc)
  case (Cons tx txs)
  obtain a1 where 1: "process_tx P d tx acc = Ok a1" "fold_res (process_tx P d) txs a1 = Ok acc'" using Cons.prems(1) by (auto simp: res_simps)
  from 1(1) obtain used s acc1 fee where "fold_res (process_input P d) (inputs tx) ([], 0, acc) = Ok (used, s, acc1)"
    "a1 = add_outputs P tx (acc1\<lparr>total_fees := total_fees acc1 + fee\<rparr>)" by (rule process_tx_Ok)
  then have "\<forall>op\<in>set (batch a1). op_fits P op"
    using outputs_fit[OF assms(1), of tx "acc1\<lparr>total_fees := total_fees acc1 + fee\<rparr>"] inputs_fit[OF _ Cons.prems(3)] Cons.prems(2) by auto
  then show ?case using Cons.IH[OF 1(2)] Cons.prems(2) by simp
qed simp

lemma block_batch_fits:
  assumes "codec_ok P" "block_batch P bc b = Ok ops" "small_block b" "op \<in> set ops"
  shows "op_fits P op"
proof -
  from assms(2) obtain cb rest acc where 1: "transactions b = cb # rest" "fold_res (process_tx P (bc_db bc)) rest
       (add_outputs P cb \<lparr>batch = [], total_fees = 0, block_utxos = Map.empty\<rparr>) = Ok acc"
    "ops = batch acc @ [Put (block_key (block_hash b)) (enc_block P b),
       Put (index_key (unat (index (header b)))) (as_bytes P (block_hash b)), Put tip_key (as_bytes P (block_hash b))]" by (rule block_batch_Ok)
  have "\<forall>op\<in>set (batch acc). op_fits P op"
    using assms(3) 1(1) by (intro txs_fit[OF assms(1) 1(2)] outputs_fit[OF assms(1)]) (auto simp: small_block_def)
  then show ?thesis using assms(4) 1(3) fits_block[OF assms(1,3)] by auto
qed

definition chain_fits :: "'v prims \<Rightarrow> 'v blockchain \<Rightarrow> bool" where
  "chain_fits P bc \<longleftrightarrow> all_fit P (db_get (bc_db bc))"

lemma fits_tip: "all_fit P m \<Longrightarrow> all_fit P (m(tip_key \<mapsto> v))"
  using op_fits_simps(4)[of P v] by (auto simp: all_fit_def op_fits_def)

lemma recover_fits: "recover_tip P bc = (bc', r) \<Longrightarrow> chain_fits P bc \<Longrightarrow> chain_fits P bc'"
  using recover_tip_state[of P bc bc' r] by (auto simp: chain_fits_def fits_tip)

lemma settle_fits: "settle_tip P bc b = (bc', r) \<Longrightarrow> chain_fits P bc \<Longrightarrow> chain_fits P bc'"
  using settle_tip_state[of P bc b bc' r] by (auto simp: chain_fits_def fits_tip)

lemma insert_fits:
  assumes "codec_ok P" "validate_and_insert_block P now bc b = (bc', r)" "small_block b" "chain_fits P bc"
  shows "chain_fits P bc'"
proof (cases r)
  case (Err e)
  then show ?thesis using insert_Err[of P now bc b bc' e] settle_fits assms(2,4) by blast
next
  case (Ok u)
  show ?thesis
  proof (cases "db_get (bc_db bc) (block_key (block_hash b))")
    case None
    from assms(2)[unfolded Ok] None obtain bc1 ops where 1: "settle_tip P bc b = (bc1, Ok ())" "block_batch P bc1 b = Ok ops"
      "bc' = bc1\<lparr>bc_db := put_batch (bc_db bc1) ops, chain_tip := Some (block_hash b), bc_difficulty := difficulty (header b)\<rparr>"
      by (rule insert_Ok)
    then show ?thesis
      using all_fit_batch[OF _ block_batch_fits[OF assms(1) 1(2) assms(3)]] settle_fits[OF 1(1) assms(4)] by (simp add: chain_fits_def)
  qed (use assms in \<open>auto simp: validate_and_insert_block_def\<close>)
qed

lemma fork_fits:
  assumes "codec_ok P" "validate_fork_block P now bc b = (bc', r)" "small_block b" "chain_fits P bc"
  shows "chain_fits P bc'"
proof (cases "bc' = bc")
  case False
  then have "bc' = bc\<lparr>bc_db := put_batch (bc_db bc) (Put (block_key (block_hash b)) (enc_block P b)
      # map (\<lambda>tx. Put (tx_key (txid tx)) (enc_tx P tx)) (transactions b))\<rparr>"
    using assms(2) by (auto simp: validate_fork_block_def res_simps split: result.splits if_splits)
  moreover have "all_fit P (batch_view (Put (block_key (block_hash b)) (enc_block P b)
      # map (\<lambda>tx. Put (tx_key (txid tx)) (enc_tx P tx)) (transactions b)) (db_get (bc_db bc)))"
    using assms(4) fits_block[OF assms(1,3)] by (intro all_fit_batch) (auto simp: chain_fits_def)
  ultimately show ?thesis by (simp add: chain_fits_def)
qed (use assms in simp)

lemma stored_small: "chain_fits P bc \<Longrightarrow> load_block P bc h = Ok (Some b) \<Longrightarrow> small_block b"
  by (auto simp: chain_fits_def all_fit_def fits_def load_block_def split: option.splits)

lemma collected_small:
  assumes "chain_fits P bc" "collect_until P bc a c = Some (Ok bs)"
  shows "\<forall>b\<in>set bs. small_block b"
proof -
  have "chain_fits P bc \<longrightarrow> (\<forall>bs. r = Ok bs \<longrightarrow> (\<forall>b\<in>set bs. small_block b))" if "collect_until P bc a c = Some r" for r
    using collect_until.raw_induct[where Pa = "\<lambda>(((P, bc), a), c) r. chain_fits P bc \<longrightarrow> (\<forall>bs. r = Ok bs \<longrightarrow> (\<forall>b\<in>set bs. small_block b))", OF _ that]
    by (fastforce simp: bind_eq_Some_conv res_simps intro: stored_small split: result.splits option.splits if_splits)
  then show ?thesis using assms by blast
qed

lemma rollback_fits:
  assumes "codec_ok P" "concat_res (rollback_block P bc) bs = Ok ops" "op \<in> set ops"
  shows "op_fits P op"
proof -
  have inp: "op_fits P op" if r: "restore_input P bc inp = Ok zs" "op \<in> set zs" for inp zs op
  proof -
    obtain a n where "zs = [] \<or> zs = [Put (utxo_key (in_txid inp) (unat (in_vout inp)))
        (enc_utxo P \<lparr>u_txid = in_txid inp, u_vout = in_vout inp, u_to = a, u_amount = n\<rparr>)]"
      using r(1) by (auto simp: restore_input_def res_simps Let_def split: option.splits if_splits)
    then show ?thesis using r(2) fits_utxo[OF assms(1)] by (auto simp: utxo_slot_def) (metis utxo.select_convs(1,2))
  qed
  have tx: "op_fits P op" if r: "rollback_tx P bc tx = Ok zs" "op \<in> set zs" for tx zs op
  proof -
    obtain restored where 1: "(if inputs tx \<noteq> [] then concat_res (restore_input P bc) (inputs tx) else Ok []) = Ok restored"
      "zs = map (\<lambda>i. Delete (utxo_key (txid tx) i)) [0..<length (outputs tx)] @ restored @ [Delete (tx_key (txid tx))]"
      using r(1) by (auto simp: rollback_tx_def res_simps)
    have "op_fits P x" if "x \<in> set restored" for x
      using 1(1) that inp concat_res_mem[of "restore_input P bc" "inputs tx" restored x] by (auto split: if_splits)
    then show ?thesis using r(2) 1(2) by auto
  qed
  obtain b zs where b: "rollback_block P bc b = Ok zs" "op \<in> set zs" using concat_res_mem[OF assms(2,3)] by auto
  then obtain txops where "concat_res (rollback_tx P bc) (rev (transactions b)) = Ok txops"
    "zs = txops @ [Delete (block_key (block_hash b)), Delete (index_key (unat (index (header b))))]"
    by (auto simp: rollback_block_def res_simps)
  then show ?thesis using b(2) tx concat_res_mem[of "rollback_tx P bc"] by fastforce
qed

lemma replay_fits:
  assumes "codec_ok P" "\<forall>b\<in>set bs. small_block b" "chain_fits P bc"
  shows "chain_fits P (replay_blocks P bc bs)"
  using assms(2,3)
proof (induction bs arbitrary: bc)
  case (Cons b bs)
  have "op_fits P op" if "op \<in> set (replay_block P b)" for op
    using that created_fit[OF assms(1), of _ op id] Cons.prems(1)
    by (auto simp: replay_block_def replay_tx_def small_block_def split: if_splits)
  then have "chain_fits P (bc\<lparr>bc_db := put_batch (bc_db bc) (replay_block P b)\<rparr>)"
    using all_fit_batch[of P "db_get (bc_db bc)" "replay_block P b"] Cons.prems(2) by (simp add: chain_fits_def)
  then show ?case using Cons by (simp add: replay_blocks_def)
qed (simp add: replay_blocks_def)

lemma reorganize_fits:
  assumes "codec_ok P" "reorganize_if_needed P bc h = Some (bc', r)" "chain_fits P bc"
  shows "chain_fits P bc'"
proof (cases "r = Ok True")
  case False
  then show ?thesis using reorganize_not_True[OF assms(2) False] recover_fits assms(3) by blast
next
  case True
  from assms(2)[unfolded True] obtain t hdr bc1 r1 where 1: "bc1 = bc \<or> recover_tip P bc = (bc1, r1)"
    "reorg_to P bc1 t hdr h = Some (bc', Ok True)" by (rule reorganize_True)
  have f: "chain_fits P bc1" using 1(1) recover_fits assms(3) by blast
  from 1(2) obtain a where "reorg_from P bc1 t hdr h a = Some (bc', Ok True)" by (rule reorg_to_True)
  then obtain rb ap where 2: "collect_until P bc1 a h = Some (Ok ap)" "switch_chain P bc1 h rb ap = (bc', Ok True)" by (rule reorg_from_True)
  obtain ops where ops: "concat_res (rollback_block P bc1) rb = Ok ops"
    using 2(2) by (auto simp: switch_chain_def rollback_blocks_def Let_def split: result.splits)
  let ?bc2 = "bc1\<lparr>bc_db := put_batch (bc_db bc1) ops\<rparr>"
  have "chain_fits P ?bc2" using all_fit_batch[OF _ rollback_fits[OF assms(1) ops]] f by (simp add: chain_fits_def)
  then have "chain_fits P (replay_blocks P ?bc2 (rev ap))" using replay_fits[OF assms(1)] collected_small[OF f 2(1)] by simp
  moreover have "db_get (bc_db bc') = (db_get (bc_db (replay_blocks P ?bc2 (rev ap))))(tip_key \<mapsto> as_bytes P h)"
    using 2(2) ops by (auto simp: switch_chain_def rollback_blocks_def Let_def)
  ultimately show ?thesis by (simp add: chain_fits_def fits_tip)
qed

lemma genesis_fits:
  assumes "codec_ok P" "create_genesis P now bc address = (bc', r)" "chain_fits P bc"
  shows "chain_fits P bc'"
proof (cases "chain_tip bc = None")
  case True
  obtain b cb where b: "bc' = bc\<lparr>bc_db := put_batch (bc_db bc)
      ([Put (block_key (block_hash b)) (enc_block P b), Put (tx_key (txid cb)) (enc_tx P cb)]
        @ put_utxos P (created_utxos id cb) @ [Put (index_key 0) (as_bytes P (block_hash b)), Put tip_key (as_bytes P (block_hash b))]),
      chain_tip := Some (block_hash b)\<rparr>" "transactions b = [cb]" "cb = coinbase P now address 50"
    using assms(2) True unfolding create_genesis_def Let_def by (metis block.select_convs(2,3) prod.inject)
  have "length (outputs cb) \<le> 2 ^ 32" "small_block b" using b(2,3) by (simp_all add: small_block_def coinbase_def with_hashes_def)
  then show ?thesis
    using assms(3) b(1) created_fit[OF assms(1), of cb _ id] fits_block[OF assms(1), of b]
    by (auto simp: chain_fits_def simp del: batch_view_append batch_view_Cons intro!: all_fit_batch)
qed (use assms in \<open>auto simp: create_genesis_def\<close>)

section \<open>Reachable states\<close>

text \<open>The chain as in \<^const>\<open>chain_reachable\<close>, with blocks whose transactions have at most \<open>2\<^sup>3\<^sup>2\<close> outputs.\<close>

inductive small_reachable :: "'v prims \<Rightarrow> 'v blockchain \<Rightarrow> bool" for P where
  small_start: "blockchain_new P [] = Ok bc \<Longrightarrow> small_reachable P bc"
| small_genesis: "small_reachable P bc \<Longrightarrow> create_genesis P now bc address = (bc', r) \<Longrightarrow> small_reachable P bc'"
| small_insert: "small_reachable P bc \<Longrightarrow> small_block b \<Longrightarrow> validate_and_insert_block P now bc b = (bc', r) \<Longrightarrow> small_reachable P bc'"
| small_fork: "small_reachable P bc \<Longrightarrow> small_block b \<Longrightarrow> validate_fork_block P now bc b = (bc', r) \<Longrightarrow> small_reachable P bc'"
| small_reorganize: "small_reachable P bc \<Longrightarrow> reorganize_if_needed P bc h = Some (bc', r) \<Longrightarrow> small_reachable P bc'"
| small_recover: "small_reachable P bc \<Longrightarrow> recover_tip P bc = (bc', r) \<Longrightarrow> small_reachable P bc'"
| small_reset: "small_reachable P bc \<Longrightarrow> small_reachable P (reset_chain bc)"
| small_restart: "small_reachable P bc \<Longrightarrow> blockchain_new P (bc_db bc) = Ok bc' \<Longrightarrow> small_reachable P bc'"

lemma small_is_reachable: "small_reachable P bc \<Longrightarrow> chain_reachable P bc"
  by (induction rule: small_reachable.induct) (blast intro: chain_reachable.intros chain_step.intros)+

lemma small_fits: "small_reachable P bc \<Longrightarrow> codec_ok P \<Longrightarrow> chain_fits P bc"
proof (induction rule: small_reachable.induct)
  case (small_start bc)
  then show ?case by (auto simp: blockchain_new_def chain_fits_def all_fit_def db_get_def)
next
  case (small_reset bc)
  then show ?case by (simp add: chain_fits_def all_fit_def reset_get)
next
  case (small_restart bc bc')
  then have "bc_db bc' = bc_db bc" by (auto simp: blockchain_new_def res_simps)
  then show ?case using small_restart by (simp add: chain_fits_def)
qed (blast intro: genesis_fits insert_fits fork_fits reorganize_fits recover_fits)+

text \<open>
  In every reachable state of the chain each record of an unspent output stands under the key of the output it
  describes, through insertions, reorganizations and restarts.
\<close>

theorem reachable_utxos_keyed:
  assumes "codec_ok P" "small_reachable P bc"
  shows "utxos_keyed P (bc_db bc) \<and> db_wf (bc_db bc)"
proof -
  have wf: "db_wf (bc_db bc)" using reachable_inv[OF small_is_reachable[OF assms(2)] assms(1)] by (simp add: chain_inv_def)
  have "fits P k v" if "(k, v) \<in> set (bc_db bc)" for k v
    using small_fits[OF assms(2,1)] that db_wf_distinct[OF wf] by (simp add: chain_fits_def all_fit_def db_get_def)
  then show ?thesis using wf by (auto simp: utxos_keyed_def fits_def)
qed

theorem reachable_utxos_keyed_witness:
  "\<exists>bc k v. small_reachable ref_prims bc \<and> utxos_keyed ref_prims (bc_db bc) \<and> (k, v) \<in> set (bc_db bc) \<and> starts_with ''u:'' k"
proof -
  obtain bc0 where 0: "blockchain_new ref_prims [] = Ok bc0" "chain_tip bc0 = None" by (simp add: blockchain_new_def db_get_def)
  obtain bc1 r where 1: "create_genesis ref_prims 0 bc0 ''0xab'' = (bc1, r)" by (cases "create_genesis ref_prims 0 bc0 ''0xab''")
  have s: "small_reachable ref_prims bc1" using small_genesis[OF small_start[OF 0(1)] 1] .
  let ?t = "txid (coinbase ref_prims 0 ''0xab'' 50)"
  have "db_get (bc_db bc1) (utxo_key ?t 0) \<noteq> None"
    using 1 0(2) by (auto simp: create_genesis_def Let_def put_utxos_def created_utxos_def coinbase_def with_hashes_def)
  then obtain v where "(utxo_key ?t 0, v) \<in> set (bc_db bc1)" by (auto simp: db_get_def dest: map_of_SomeD)
  then show ?thesis using s reachable_utxos_keyed[OF ref_prims_ok(1) s] by (metis key_prefix(1))
qed

end
