(* ===== verification/Wallet.thy ===== *)
theory Wallet
  imports Pages Utxo_Keys
begin

text \<open>
  The command line wallet: \<open>wallet-cli/src/wallet.rs\<close> (keys and addresses), \<open>wallet-cli/src/commands.rs\<close>
  and \<open>main.rs\<close> (the commands), and \<open>config/src/config.rs\<close>. The word lists of BIP39 are the record \<open>bip39\<close>;
  files are a map from paths to what their text parses to, and the answers of the node are arguments.
  \<^const>\<open>None\<close> is a panic. What is only printed is left out.
\<close>

section \<open>Keys and addresses\<close>

record bip39 =
  bip_from_entropy :: "bytes \<Rightarrow> string"
  bip_seed :: "string \<Rightarrow> bytes option"

text \<open>A phrase made of 32 bytes of entropy parses, and a seed has 64 bytes.\<close>

definition bip39_ok :: "bip39 \<Rightarrow> bool" where
  "bip39_ok B \<longleftrightarrow> (\<forall>e. length e = 32 \<longrightarrow> bip_seed B (bip_from_entropy B e) \<noteq> None) \<and>
     (\<forall>s seed. bip_seed B s = Some seed \<longrightarrow> length seed = 64)"

record cli_wallet =
  w_signing_key :: bytes
  w_verifying_key :: bytes
  w_address :: string
  w_mnemonic :: "string option"

definition address_from_public :: "'v prims \<Rightarrow> bytes \<Rightarrow> string" where
  "address_from_public P pubkey_bytes = ''0x'' @ hex_encode P (take 20 (sha256 P pubkey_bytes))"

definition wallet_of_secret :: "'v prims \<Rightarrow> string option \<Rightarrow> bytes \<Rightarrow> cli_wallet" where
  "wallet_of_secret P phrase secret =
     \<lparr>w_signing_key = secret, w_verifying_key = ed_public P secret, w_address = address_from_public P (ed_public P secret),
      w_mnemonic = phrase\<rparr>"

definition from_mnemonic_str :: "bip39 \<Rightarrow> 'v prims \<Rightarrow> string \<Rightarrow> cli_wallet option" where
  "from_mnemonic_str B P s = map_option (\<lambda>seed. wallet_of_secret P (Some s) (take 32 seed)) (bip_seed B s)"

definition wallet_new :: "bip39 \<Rightarrow> 'v prims \<Rightarrow> bytes \<Rightarrow> cli_wallet option" where
  "wallet_new B P entropy = from_mnemonic_str B P (bip_from_entropy B entropy)"

definition wallet_secret_hex :: "'v prims \<Rightarrow> cli_wallet \<Rightarrow> string" where
  "wallet_secret_hex P w = hex_encode P (w_signing_key w)"

definition wallet_public_hex :: "'v prims \<Rightarrow> cli_wallet \<Rightarrow> string" where
  "wallet_public_hex P w = hex_encode P (w_verifying_key w)"

definition wallet_from_hex :: "'v prims \<Rightarrow> string \<Rightarrow> cli_wallet option" where
  "wallet_from_hex P s =
     Option.bind (hex_decode P s) (\<lambda>bytes. if length bytes \<noteq> 32 then None else Some (wallet_of_secret P None bytes))"

definition upper_char :: "char \<Rightarrow> char" where
  "upper_char c = (if CHR ''a'' \<le> c \<and> c \<le> CHR ''z'' then char_of (of_char c - (32 :: nat)) else c)"

text \<open>The letters of the address, raised where the hash has a digit of at least 8; a hash that is too short panics.\<close>

fun checksum_chars :: "string \<Rightarrow> string \<Rightarrow> string option" where
  "checksum_chars hash [] = Some []"
| "checksum_chars hash (c # cs) =
     (if is_ascii_digit c then map_option ((#) c) (checksum_chars (tl hash) cs)
      else case hash of
             [] \<Rightarrow> None
           | h # hs \<Rightarrow> map_option ((#) (if h \<ge> CHR ''8'' then upper_char c else c)) (checksum_chars hs cs))"

definition to_checksum_address :: "'v prims \<Rightarrow> string \<Rightarrow> string option" where
  "to_checksum_address P address =
     (let a = to_lowercase (trim_0x address);
          hash = hex_encode P (sha256 P (map (\<lambda>c. of_nat (of_char c)) a))
      in map_option (\<lambda>s. ''0x'' @ s) (checksum_chars hash a))"

definition checksummed_address :: "'v prims \<Rightarrow> cli_wallet \<Rightarrow> string option" where
  "checksummed_address P w = to_checksum_address P (w_address w)"

section \<open>Amounts\<close>

definition asrm_to_ram :: "f64 \<Rightarrow> u256" where
  "asrm_to_ram asrm = of_nat (f64_to_u128 (f64_mul asrm (f64_of_int (10 ^ 18))))"

definition ram_to_asrm :: "u256 \<Rightarrow> f64" where
  "ram_to_asrm ram = f64_div (f64_of_int (int (unat ram mod 2 ^ 128))) (f64_of_int (10 ^ 18))"

section \<open>Files and configuration\<close>

text \<open>A file that is there has a text that is JSON or not.\<close>

type_synonym files = "string \<rightharpoonup> json option"

record cli_env =
  ce_windows :: bool
  ce_home :: string
  ce_data_dir :: "string option"
  ce_expand :: "string \<Rightarrow> string"
  ce_writable :: "string \<Rightarrow> bool"

definition path_join :: "cli_env \<Rightarrow> string \<Rightarrow> string \<Rightarrow> string" where
  "path_join E a b =
     (let sep = (if ce_windows E then CHR 0x5C else CHR ''/'')
      in if a = [] \<or> last a = sep then a @ b else a @ [sep] @ b)"

definition write_file :: "cli_env \<Rightarrow> string \<Rightarrow> json \<Rightarrow> files \<Rightarrow> files option" where
  "write_file E path j fs = (if ce_writable E path then Some (fs(path \<mapsto> Some j)) else None)"

record cli_config =
  cf_wallet_path :: string
  cf_node_rpc_url :: string

definition default_wallet_path :: "cli_env \<Rightarrow> string" where
  "default_wallet_path E =
     (if ce_windows E
      then path_join E (path_join E (unwrap_or (ce_home E) (ce_data_dir E)) ''Astram'') ''wallet.json''
      else path_join E (path_join E (ce_home E) ''.Astram'') ''wallet.json'')"

definition config_default :: "cli_env \<Rightarrow> cli_config" where
  "config_default E = \<lparr>cf_wallet_path = default_wallet_path E, cf_node_rpc_url = ''http://127.0.0.1:19533''\<rparr>"

definition default_path :: "cli_env \<Rightarrow> string" where
  "default_path E = path_join E (ce_home E) ''.Astram/config.json''"

definition wallet_path_resolved :: "cli_env \<Rightarrow> cli_config \<Rightarrow> string" where
  "wallet_path_resolved E cfg = ce_expand E (cf_wallet_path cfg)"

definition member_str :: "json \<Rightarrow> string \<Rightarrow> string option" where
  "member_str j k = Option.bind (json_get k j) as_str_json"

definition config_json :: "cli_config \<Rightarrow> json" where
  "config_json cfg = JObj [(''wallet_path'', JStr (cf_wallet_path cfg)), (''node_rpc_url'', JStr (cf_node_rpc_url cfg))]"

definition parse_config :: "json \<Rightarrow> cli_config option" where
  "parse_config j =
     Option.bind (member_str j ''wallet_path'') (\<lambda>p. map_option (\<lambda>u. \<lparr>cf_wallet_path = p, cf_node_rpc_url = u\<rparr>) (member_str j ''node_rpc_url''))"

definition config_save :: "cli_env \<Rightarrow> cli_config \<Rightarrow> files \<Rightarrow> files option" where
  "config_save E cfg fs = write_file E (default_path E) (config_json cfg) fs"

definition config_load :: "cli_env \<Rightarrow> files \<Rightarrow> (cli_config \<times> files) option" where
  "config_load E fs =
     (case fs (default_path E) of
        None \<Rightarrow> map_option (\<lambda>fs'. (config_default E, fs')) (config_save E (config_default E) fs)
      | Some text \<Rightarrow> map_option (\<lambda>cfg. (cfg, fs)) (Option.bind text parse_config))"

definition set_value :: "cli_env \<Rightarrow> string \<Rightarrow> string \<Rightarrow> cli_config \<Rightarrow> files \<Rightarrow> files option" where
  "set_value E key value cfg fs =
     (if key = ''wallet_path'' then config_save E (cfg\<lparr>cf_wallet_path := value\<rparr>) fs
      else if key = ''node_rpc_url'' then config_save E (cfg\<lparr>cf_node_rpc_url := value\<rparr>) fs
      else Some fs)"

definition init_default :: "cli_env \<Rightarrow> files \<Rightarrow> files option" where
  "init_default E fs = config_save E (config_default E) fs"

section \<open>The wallet file\<close>

record wallet_json =
  wj_secret_key :: string
  wj_address :: string
  wj_mnemonic :: "string option"

definition show_wallet_json :: "wallet_json \<Rightarrow> json" where
  "show_wallet_json w = JObj ([(''secret_key'', JStr (wj_secret_key w)), (''address'', JStr (wj_address w))] @
     (case wj_mnemonic w of Some m \<Rightarrow> [(''mnemonic'', JStr m)] | None \<Rightarrow> []))"

text \<open>An optional member may be absent or \<open>null\<close>.\<close>

definition member_opt_str :: "json \<Rightarrow> string \<Rightarrow> string option option" where
  "member_opt_str j k =
     (case json_get k j of
        None \<Rightarrow> Some None
      | Some v \<Rightarrow> if v = JNull then Some None else map_option Some (as_str_json v))"

definition parse_wallet_json :: "json \<Rightarrow> wallet_json option" where
  "parse_wallet_json j =
     Option.bind (member_str j ''secret_key'') (\<lambda>s. Option.bind (member_str j ''address'') (\<lambda>a.
     map_option (\<lambda>m. \<lparr>wj_secret_key = s, wj_address = a, wj_mnemonic = m\<rparr>) (member_opt_str j ''mnemonic'')))"

definition save_wallet_json :: "'v prims \<Rightarrow> cli_env \<Rightarrow> cli_wallet \<Rightarrow> string \<Rightarrow> files \<Rightarrow> files option" where
  "save_wallet_json P E w path fs =
     write_file E path (show_wallet_json \<lparr>wj_secret_key = wallet_secret_hex P w, wj_address = w_address w, wj_mnemonic = w_mnemonic w\<rparr>) fs"

text \<open>A stored address that does not belong to the key is corrected, if the file can be written.\<close>

definition load_wallet_at :: "'v prims \<Rightarrow> cli_env \<Rightarrow> string \<Rightarrow> files \<Rightarrow> (cli_wallet \<times> files) option" where
  "load_wallet_at P E path fs =
     Option.bind (Option.bind (Option.bind (fs path) (\<lambda>text. text)) parse_wallet_json) (\<lambda>j.
     map_option (\<lambda>w.
       (w, if wj_address j \<noteq> w_address w
           then unwrap_or fs (write_file E path (show_wallet_json (j\<lparr>wj_address := w_address w\<rparr>)) fs)
           else fs))
       (wallet_from_hex P (wj_secret_key j)))"

definition load_wallet :: "'v prims \<Rightarrow> cli_env \<Rightarrow> files \<Rightarrow> (cli_wallet \<times> files) option" where
  "load_wallet P E fs = Option.bind (config_load E fs) (\<lambda>(cfg, fs). load_wallet_at P E (wallet_path_resolved E cfg) fs)"

definition keep_wallet :: "'v prims \<Rightarrow> cli_env \<Rightarrow> cli_wallet option \<Rightarrow> files \<Rightarrow> files option" where
  "keep_wallet P E wallet fs =
     Option.bind wallet (\<lambda>w.
     Option.bind (checksummed_address P w) (\<lambda>_.
     Option.bind (config_load E fs) (\<lambda>(cfg, fs). save_wallet_json P E w (wallet_path_resolved E cfg) fs)))"

definition generate_wallet :: "bip39 \<Rightarrow> 'v prims \<Rightarrow> cli_env \<Rightarrow> bytes \<Rightarrow> files \<Rightarrow> files option" where
  "generate_wallet B P E entropy fs = keep_wallet P E (wallet_new B P entropy) fs"

definition generate_eth_wallet :: "bip39 \<Rightarrow> 'v prims \<Rightarrow> cli_env \<Rightarrow> bytes \<Rightarrow> files \<Rightarrow> files option" where
  "generate_eth_wallet B P E entropy fs = generate_wallet B P E entropy fs"

definition import_wallet :: "bip39 \<Rightarrow> 'v prims \<Rightarrow> cli_env \<Rightarrow> string \<Rightarrow> files \<Rightarrow> files option" where
  "import_wallet B P E phrase fs = keep_wallet P E (from_mnemonic_str B P phrase) fs"

section \<open>The node's answers\<close>

text \<open>An answer fails, is no JSON, or is a JSON value.\<close>

type_synonym web = "string \<Rightarrow> json option option"

definition text_amount :: "u256_text \<Rightarrow> string \<Rightarrow> u256" where
  "text_amount T s =
     (case strip_prefix ''0x'' s of
        Some h \<Rightarrow> unwrap_or 0 (from_hex_str T h)
      | None \<Rightarrow> unwrap_or 0 (from_dec_str T s))"

definition number_amount :: "json \<Rightarrow> u256" where
  "number_amount v = unwrap_or 0 (map_option ucast (as_u64 v))"

definition read_balance :: "u256_text \<Rightarrow> json \<Rightarrow> u256" where
  "read_balance T j =
     (case as_str_json (json_index j ''balance'') of
        Some s \<Rightarrow> text_amount T s
      | None \<Rightarrow> number_amount (json_index j ''balance''))"

definition limbs_amount :: "json list \<Rightarrow> u256" where
  "limbs_amount arr = (let parts = List.map_filter as_u64 arr in if length parts = 4 then from_limbs parts else 0)"

definition read_utxo_amount :: "u256_text \<Rightarrow> json \<Rightarrow> u256" where
  "read_utxo_amount T u =
     (case as_array (json_index u ''amount_raw'') of
        Some arr \<Rightarrow> limbs_amount arr
      | None \<Rightarrow>
     (case as_array (json_index u ''amount'') of
        Some arr \<Rightarrow> limbs_amount arr
      | None \<Rightarrow>
     (case as_str_json (json_index u ''amount'') of
        Some s \<Rightarrow> text_amount T s
      | None \<Rightarrow> number_amount (json_index u ''amount''))))"

definition wallet_input :: "u256_text \<Rightarrow> string \<Rightarrow> json \<Rightarrow> (transaction_input \<times> u256) option" where
  "wallet_input T address u =
     Option.bind (as_str_json (json_index u ''txid'')) (\<lambda>tid.
     Option.bind (as_u64 (json_index u ''vout'')) (\<lambda>vout.
     Some (\<lparr>in_txid = tid, in_vout = ucast vout, in_pubkey = address, in_signature = None\<rparr>, read_utxo_amount T u)))"

section \<open>Sending\<close>

datatype send_error = QueryFailed | UtxosUnreadable | NothingToSpend | AmountNotCovered | FeeNotCovered | SignatureWrong | SignatureUnreadable
  | FeeUnsettled | SendPanic

definition select_inputs :: "u256 \<Rightarrow> selection \<Rightarrow> (send_error, selection) result" where
  "select_inputs goal = (\<lambda>(sel, isum, rest). case gather goal sel isum rest of Ok s \<Rightarrow> Ok s | Err _ \<Rightarrow> Err SendPanic)"

definition candidate_tx :: "'v prims \<Rightarrow> int \<Rightarrow> wallet_keypair \<Rightarrow> string \<Rightarrow> string \<Rightarrow> u256 \<Rightarrow> transaction_input list \<Rightarrow> u256
    \<Rightarrow> (send_error, transaction) result" where
  "candidate_tx P now kp address to amount sel change =
     (let outs = \<lparr>out_to = to, out_amount = amount\<rparr> # (if change > 0 then [\<lparr>out_to = address, out_amount = change\<rparr>] else []);
          signed = sign_tx P \<lparr>txid = '''', inputs = sel, outputs = outs, tx_timestamp = now\<rparr> kp
      in case verify_signatures P signed of
           Ok True \<Rightarrow> Ok (with_hashes P signed)
         | Ok False \<Rightarrow> Err SignatureWrong
         | Err _ \<Rightarrow> Err SignatureUnreadable)"

text \<open>The rounds that are left of the loop \<open>for _ in 0..16\<close>.\<close>

fun send_loop :: "'v prims \<Rightarrow> (nat \<Rightarrow> int) \<Rightarrow> wallet_keypair \<Rightarrow> string \<Rightarrow> string \<Rightarrow> u256 \<Rightarrow> nat \<Rightarrow> u256 \<Rightarrow> selection
    \<Rightarrow> (send_error, transaction) result" where
  "send_loop P now kp address to amount 0 fee st = Err FeeUnsettled"
| "send_loop P now kp address to amount (Suc k) fee st =
     bind_res (ok_or SendPanic (u256_add amount fee)) (\<lambda>goal.
     bind_res (select_inputs goal st) (\<lambda>(sel, isum, rest).
     if isum < goal then Err FeeNotCovered
     else
       bind_res (candidate_tx P (now k) kp address to amount sel (isum - amount - fee)) (\<lambda>tx.
       let candidate_fee = calculate_default_fee (blob_len P (enc_tx P tx))
       in if candidate_fee > fee then send_loop P now kp address to amount k candidate_fee (sel, isum, rest)
          else Ok tx)))"

definition build_tx :: "'v prims \<Rightarrow> (nat \<Rightarrow> int) \<Rightarrow> cli_wallet \<Rightarrow> string \<Rightarrow> u256 \<Rightarrow> input_pool \<Rightarrow> (send_error, transaction) result" where
  "build_tx P now w to amount pool =
     bind_res (select_inputs amount ([], 0, pool)) (\<lambda>(sel, isum, rest).
     if isum < amount then Err AmountNotCovered
     else case from_secret_hex P (wallet_secret_hex P w) of
            Err _ \<Rightarrow> Err SendPanic
          | Ok kp \<Rightarrow> send_loop P now kp (w_address w) to amount 16 0 (sel, isum, rest))"

definition create_tx :: "'v prims \<Rightarrow> u256_text \<Rightarrow> (nat \<Rightarrow> int) \<Rightarrow> cli_wallet \<Rightarrow> string \<Rightarrow> u256 \<Rightarrow> json option option
    \<Rightarrow> (send_error, transaction) result" where
  "create_tx P T now w to amount answer =
     bind_res (ok_or QueryFailed answer) (\<lambda>text.
     bind_res (ok_or UtxosUnreadable (Option.bind text as_array)) (\<lambda>utxos.
     if utxos = [] then Err NothingToSpend
     else bind_res (ok_or SendPanic (those (map (wallet_input T (w_address w)) utxos))) (build_tx P now w to amount)))"

section \<open>Commands\<close>

text \<open>The entropy that \<open>generate\<close> draws is an argument of the command.\<close>

datatype cli_command = Generate bytes | GenerateEth bytes | Import string | BalanceOf "string option" | Send string f64
  | ConfigView | ConfigSet string string | ConfigInit

datatype 'v cli_outcome = Quiet | ShownBalance f64 | QueryError | Posted string 'v | SendFailed send_error

definition address_url :: "cli_config \<Rightarrow> string \<Rightarrow> string \<Rightarrow> string" where
  "address_url cfg address page = cf_node_rpc_url cfg @ ''/address/'' @ address @ ''/'' @ page"

definition balance_command :: "u256_text \<Rightarrow> cli_env \<Rightarrow> web \<Rightarrow> string \<Rightarrow> files \<Rightarrow> (files \<times> 'v cli_outcome) option" where
  "balance_command T E net address fs =
     Option.bind (config_load E fs) (\<lambda>(cfg, fs).
     case net (address_url cfg address ''balance'') of
       None \<Rightarrow> Some (fs, QueryError)
     | Some None \<Rightarrow> None
     | Some (Some j) \<Rightarrow> Some (fs, ShownBalance (ram_to_asrm (read_balance T j))))"

definition send_transaction :: "'v prims \<Rightarrow> u256_text \<Rightarrow> cli_env \<Rightarrow> web \<Rightarrow> (nat \<Rightarrow> int) \<Rightarrow> string \<Rightarrow> u256 \<Rightarrow> files
    \<Rightarrow> (files \<times> 'v cli_outcome) option" where
  "send_transaction P T E net now to amount_ram fs =
     Option.bind (config_load E fs) (\<lambda>(cfg, fs).
     Option.bind (load_wallet P E fs) (\<lambda>(w, fs).
     case create_tx P T now w to amount_ram (net (address_url cfg (w_address w) ''utxos'')) of
       Ok tx \<Rightarrow> Some (fs, Posted (cf_node_rpc_url cfg @ ''/tx'') (enc_tx P tx))
     | Err e \<Rightarrow> if e = SendPanic then None else Some (fs, SendFailed e)))"

definition run_command :: "bip39 \<Rightarrow> 'v prims \<Rightarrow> u256_text \<Rightarrow> cli_env \<Rightarrow> web \<Rightarrow> (nat \<Rightarrow> int) \<Rightarrow> cli_command \<Rightarrow> files
    \<Rightarrow> (files \<times> 'v cli_outcome) option" where
  "run_command B P T E net now cmd fs =
     (let quiet = map_option (\<lambda>fs. (fs, Quiet))
      in case cmd of
           Generate entropy \<Rightarrow> quiet (generate_wallet B P E entropy fs)
         | GenerateEth entropy \<Rightarrow> quiet (generate_eth_wallet B P E entropy fs)
         | Import phrase \<Rightarrow> quiet (import_wallet B P E phrase fs)
         | BalanceOf (Some address) \<Rightarrow> balance_command T E net address fs
         | BalanceOf None \<Rightarrow> Option.bind (load_wallet P E fs) (\<lambda>(w, fs). balance_command T E net (w_address w) fs)
         | Send to asrm \<Rightarrow> send_transaction P T E net now to (asrm_to_ram asrm) fs
         | ConfigView \<Rightarrow> quiet (map_option snd (config_load E fs))
         | ConfigSet key value \<Rightarrow> quiet (Option.bind (config_load E fs) (\<lambda>(cfg, fs). set_value E key value cfg fs))
         | ConfigInit \<Rightarrow> quiet (init_default E fs))"

section \<open>The wallet file keeps the key\<close>

lemma member_str_simps [simp]:
  "member_str (JObj ((k, v) # ms)) k' = (if k' = k then as_str_json v else member_str (JObj ms) k')"
  "member_str (JObj []) k' = None"
  by (simp_all add: member_str_def)

lemma wallet_json_roundtrip: "parse_wallet_json (show_wallet_json j) = Some j"
  by (cases "wj_mnemonic j") (simp_all add: parse_wallet_json_def show_wallet_json_def member_opt_str_def)

lemma config_json_roundtrip: "parse_config (config_json cfg) = Some cfg"
  by (simp add: parse_config_def config_json_def)

definition wallet_wf :: "'v prims \<Rightarrow> cli_wallet \<Rightarrow> bool" where
  "wallet_wf P w \<longleftrightarrow> length (w_signing_key w) = 32 \<and> w = wallet_of_secret P (w_mnemonic w) (w_signing_key w)"

lemma wallet_of_secret_wf: "length s = 32 \<Longrightarrow> wallet_wf P (wallet_of_secret P m s)"
  by (simp add: wallet_wf_def wallet_of_secret_def)

lemma from_hex_back:
  assumes "hex_ok P" "wallet_wf P w"
  shows "wallet_from_hex P (wallet_secret_hex P w) = Some (w\<lparr>w_mnemonic := None\<rparr>)"
proof -
  have w: "w = wallet_of_secret P (w_mnemonic w) (w_signing_key w)" "length (w_signing_key w) = 32" using assms(2) by (simp_all add: wallet_wf_def)
  have "wallet_of_secret P None (w_signing_key w) = w\<lparr>w_mnemonic := None\<rparr>" by (subst (2) w(1)) (simp add: wallet_of_secret_def)
  then show ?thesis using assms(1) w(2) by (simp add: wallet_from_hex_def wallet_secret_hex_def)
qed

lemma config_load_again:
  assumes "config_load E fs = Some (cfg, fs')"
  shows "config_load E fs' = Some (cfg, fs')"
  using assms
  by (auto simp: config_load_def config_save_def write_file_def config_json_roundtrip split: option.splits if_splits)

text \<open>What an import leaves in the files.\<close>

lemma imported_file:
  assumes "bip39_ok B" "import_wallet B P E phrase fs = Some fs'" "config_load E fs = Some (cfg, fs0)" "wallet_path_resolved E cfg \<noteq> default_path E"
  obtains w where "from_mnemonic_str B P phrase = Some w" "wallet_wf P w" "config_load E fs' = Some (cfg, fs')"
    "fs' (wallet_path_resolved E cfg) =
       Some (Some (show_wallet_json \<lparr>wj_secret_key = wallet_secret_hex P w, wj_address = w_address w, wj_mnemonic = w_mnemonic w\<rparr>))"
proof -
  let ?p = "wallet_path_resolved E cfg"
  obtain w where w: "from_mnemonic_str B P phrase = Some w"
    and fs': "write_file E ?p (show_wallet_json \<lparr>wj_secret_key = wallet_secret_hex P w, wj_address = w_address w, wj_mnemonic = w_mnemonic w\<rparr>) fs0 = Some fs'"
    using assms(2,3) by (auto simp: import_wallet_def keep_wallet_def save_wallet_json_def bind_eq_Some_conv)
  have wf: "wallet_wf P w"
    using w assms(1) by (auto simp: from_mnemonic_str_def bip39_ok_def intro!: wallet_of_secret_wf)
  have "fs' (default_path E) = fs0 (default_path E)" using fs' assms(4) by (auto simp: write_file_def split: if_splits)
  moreover have "fs0 (default_path E) \<noteq> None"
    using assms(3) by (auto simp: config_load_def config_save_def write_file_def split: option.splits if_splits)
  ultimately have "config_load E fs' = Some (cfg, fs')"
    using config_load_again[OF assms(3)] by (auto simp: config_load_def split: option.splits)
  then show thesis using that[OF w wf] fs' by (auto simp: write_file_def split: if_splits)
qed

text \<open>
  An imported wallet is saved and loaded again: the next command works with the key of the recovery phrase
  and its address, and only the phrase is not loaded.
\<close>

theorem imported_wallet_loaded:
  assumes "hex_ok P" "bip39_ok B" "import_wallet B P E phrase fs = Some fs'"
    and "config_load E fs = Some (cfg, fs0)" "wallet_path_resolved E cfg \<noteq> default_path E"
  shows "\<exists>w. from_mnemonic_str B P phrase = Some w \<and> wallet_wf P w \<and> load_wallet P E fs' = Some (w\<lparr>w_mnemonic := None\<rparr>, fs')"
proof -
  obtain w where w: "from_mnemonic_str B P phrase = Some w" "wallet_wf P w" "config_load E fs' = Some (cfg, fs')"
    "fs' (wallet_path_resolved E cfg) =
       Some (Some (show_wallet_json \<lparr>wj_secret_key = wallet_secret_hex P w, wj_address = w_address w, wj_mnemonic = w_mnemonic w\<rparr>))"
    by (rule imported_file[OF assms(2-5)])
  have "load_wallet P E fs' = Some (w\<lparr>w_mnemonic := None\<rparr>, fs')"
    using w(3,4) from_hex_back[OF assms(1) w(2)] by (simp add: load_wallet_def load_wallet_at_def wallet_json_roundtrip)
  then show ?thesis using w(1,2) by blast
qed

section \<open>Checksummed addresses and balances\<close>

lemma lower_upper: "lower_char (upper_char c) = lower_char c"
proof (cases "CHR ''a'' \<le> c \<and> c \<le> CHR ''z''")
  case True
  then have r: "97 \<le> (of_char c :: nat)" "(of_char c :: nat) \<le> 122" by (simp_all add: less_eq_char_def)
  then have "of_char (char_of (of_char c - 32 :: nat) :: char) = (of_char c - 32 :: nat)" by simp
  moreover have "\<not> (CHR ''A'' \<le> c \<and> c \<le> CHR ''Z'')" using r by (simp add: less_eq_char_def)
  ultimately show ?thesis using r True by (auto simp: upper_char_def lower_char_def less_eq_char_def)
qed (auto simp: upper_char_def)

lemma checksum_lower:
  "length a \<le> length hash \<Longrightarrow> \<exists>s. checksum_chars hash a = Some s \<and> to_lowercase s = to_lowercase a"
proof (induction hash a rule: checksum_chars.induct)
  case (2 hash c cs)
  obtain h hs where h: "hash = h # hs" using 2(3) by (cases hash) auto
  have "\<exists>s. checksum_chars hs cs = Some s \<and> to_lowercase s = to_lowercase cs" using 2 h by (cases "is_ascii_digit c") auto
  then show ?case by (auto simp: h to_lowercase_def lower_upper)
qed (simp add: to_lowercase_def)

lemma hex_digit_lower: "n < 16 \<Longrightarrow> lower_char (hex_digit n) = hex_digit n \<and> hex_digit n \<noteq> CHR ''x''"
  using less_16_cases[of n] less_10_cases[of n] by (auto simp: hex_digit_def lower_char_def less_eq_char_def)

lemma hex_of_lower: "to_lowercase (hex_of bs) = hex_of bs" "CHR ''x'' \<notin> set (hex_of bs)"
proof -
  have n: "unat b div 16 < 16" "unat b mod 16 < 16" for b :: "8 word" using unat_u8_lt[of b] by auto
  have d: "lower_char (hex_digit (unat b div 16)) = hex_digit (unat b div 16)" "hex_digit (unat b div 16) \<noteq> CHR ''x''"
    "lower_char (hex_digit (unat b mod 16)) = hex_digit (unat b mod 16)" "hex_digit (unat b mod 16) \<noteq> CHR ''x''" for b :: "8 word"
    using hex_digit_lower[OF n(1)[of b]] hex_digit_lower[OF n(2)[of b]] by simp_all
  show "to_lowercase (hex_of bs) = hex_of bs" by (induction bs) (simp_all add: to_lowercase_def d)
  show "CHR ''x'' \<notin> set (hex_of bs)" by (induction bs) (use d(2,4) in \<open>simp_all, metis\<close>)
qed

lemma checksummed_wallet:
  assumes "hex_ok P" "digest_ok P" "wallet_wf P w"
  shows "\<exists>s. checksummed_address P w = Some s \<and> to_lowercase s = w_address w"
proof -
  obtain bs where a: "w_address w = ''0x'' @ hex_of bs" "length bs = 20"
  proof -
    have "w_address w = address_from_public P (ed_public P (w_signing_key w))"
      using assms(3) unfolding wallet_wf_def by (metis cli_wallet.select_convs(3) wallet_of_secret_def)
    then show thesis using that assms(1,2) by (simp add: address_from_public_def)
  qed
  have "strip_prefix ''0x'' (hex_of bs) = None"
    using hex_of_lower(2)[of bs] by (auto simp: strip_prefix_def starts_with_def take_Suc_conv_app_nth numeral_2_eq_2 dest: in_set_takeD)
      (metis in_set_takeD list.set_intros(1,2))
  then have t: "trim_0x (w_address w) = hex_of bs"
    unfolding a(1) by (subst trim_0x.simps) (simp add: strip_prefix_append[of "''0x''", simplified] trim_0x.simps[of "hex_of bs"])
  let ?hash = "hex_encode P (sha256 P (map (\<lambda>c. of_nat (of_char c)) (hex_of bs)))"
  have "length (hex_of bs) \<le> length ?hash" using assms(1,2) a(2) by simp
  then obtain s where "checksum_chars ?hash (hex_of bs) = Some s" "to_lowercase s = hex_of bs"
    using checksum_lower[of "hex_of bs" ?hash] hex_of_lower(1)[of bs] by auto
  moreover have "to_lowercase (''0x'' @ s) = ''0x'' @ to_lowercase s" by (simp add: to_lowercase_def lower_char_def less_eq_char_def)
  ultimately show ?thesis
    unfolding checksummed_address_def to_checksum_address_def t hex_of_lower(1) Let_def using a(1) by auto
qed

text \<open>
  The address with the checksum differs from the wallet's address in the case of letters only, and computing
  it never panics.
\<close>

theorem checksum_same_address:
  assumes "hex_ok P" "digest_ok P" "wallet_wf P w"
  shows "\<exists>s. checksummed_address P w = Some s \<and> to_lowercase s = w_address w"
  using assms by (rule checksummed_wallet)

text \<open>The wallet reads the balance of the node's page without loss.\<close>

theorem balance_read:
  assumes "text_ok T" "get_address_balance_from_db P bc a = Ok b"
  shows "\<exists>page. balance_page P T a bc = Some (200, page) \<and> read_balance T page = b"
proof -
  have "strip_prefix ''0x'' (''0x'' @ to_hex_str T b) = Some (to_hex_str T b)" by (rule strip_prefix_append)
  then show ?thesis using assms
    by (simp add: balance_page_def answered_def read_balance_def json_index_def jhex_def text_amount_def text_ok_def unwrap_or_def)
qed

text \<open>
  The pages of balance and outputs compare addresses letter by letter. Where the node keeps lower-case
  addresses, asking for an address in the checksummed spelling reports nothing.
\<close>

theorem checksummed_query_empty:
  assumes "\<forall>u\<in>set (owned P (\<lambda>_. True) (bc_db bc)). to_lowercase (u_to u) = u_to u" "to_lowercase s \<noteq> s"
  shows "get_address_balance_from_db P bc s = Ok 0 \<and> (\<forall>us. get_utxos P bc s = Ok us \<longrightarrow> us = [])"
proof -
  have "owned P (\<lambda>t. t = s) (bc_db bc) = []"
    using assms by (auto simp: owned_def filter_empty_conv)
  then show ?thesis using balance_iff[of P bc s 0] get_utxos_Ok[of P bc s] by (auto simp: amounts_def)
qed

section \<open>Sending is the pool's payout\<close>

text \<open>The wallet and the pool build transactions by two copies of the same loop; these are the same errors.\<close>

fun send_err :: "payout_error \<Rightarrow> send_error" where
  "send_err payout_error.FetchFailed = QueryFailed"
| "send_err NoUtxos = NothingToSpend"
| "send_err BalanceTooSmall = AmountNotCovered"
| "send_err CannotCoverFee = FeeNotCovered"
| "send_err NoFeeConvergence = FeeUnsettled"
| "send_err PayoutPanic = SendPanic"

definition as_sent :: "(payout_error, 'a) result \<Rightarrow> (send_error, 'a) result" where
  "as_sent r = (case r of Ok x \<Rightarrow> Ok x | Err e \<Rightarrow> Err (send_err e))"

lemma as_sent_simps [simp]: "as_sent (Ok y) = Ok y" "as_sent (Err e) = Err (send_err e)"
  "as_sent (bind_res r f) = bind_res (as_sent r) (\<lambda>z. as_sent (f z))" "as_sent (ok_or e x) = ok_or (send_err e) x"
  "as_sent (if b then r1 else r2) = (if b then as_sent r1 else as_sent r2)"
  by (auto simp: as_sent_def ok_or_def split: result.splits option.splits)

lemma gather_err: "gather goal sel s pool = Err e \<Longrightarrow> e = PayoutPanic"
  by (induction goal sel s pool rule: gather.induct) (auto simp: bind_res_Err_iff ok_or_def split: if_splits option.splits)

lemma select_inputs_eq: "select_inputs goal (sel, s, rest) = as_sent (gather goal sel s rest)"
  using gather_err[of goal sel s rest] by (auto simp: select_inputs_def as_sent_def split: result.splits)

lemma candidate_eq:
  assumes "ed25519_ok P" "hex_ok P" "keypair_wf P kp"
  shows "candidate_tx P now kp address to amount sel change = Ok (payout_tx P now kp address to amount sel change)"
  using verify_signed[OF assms] by (simp add: candidate_tx_def payout_tx_def Let_def)

lemma send_loop_eq:
  assumes "ed25519_ok P" "hex_ok P" "keypair_wf P kp"
  shows "send_loop P now kp address to amount k fee (sel, s, rest) = as_sent (fee_loop P now kp address to amount k fee (sel, s, rest))"
proof (induction k arbitrary: fee sel s rest)
  case (Suc k)
  show ?case
    unfolding send_loop.simps fee_loop.simps as_sent_simps(3,4) select_inputs_eq send_err.simps
  proof (intro arg_cong2[where f = bind_res] ext refl)
    fix goal and x :: selection
    obtain sel' s' rest' where x: "x = (sel', s', rest')" by (cases x)
    show "(case x of (sel, isum, rest) \<Rightarrow> if isum < goal then Err FeeNotCovered
          else bind_res (candidate_tx P (now k) kp address to amount sel (isum - amount - fee)) (\<lambda>tx.
            let candidate_fee = calculate_default_fee (blob_len P (enc_tx P tx))
            in if fee < candidate_fee then send_loop P now kp address to amount k candidate_fee (sel, isum, rest) else Ok tx)) =
        as_sent (case x of (sel, isum, rest) \<Rightarrow> if isum < goal then Err CannotCoverFee
          else let change = isum - amount - fee; tx = payout_tx P (now k) kp address to amount sel change;
                   new_fee = calculate_default_fee (blob_len P (enc_tx P tx))
               in if new_fee \<le> fee then Ok tx else fee_loop P now kp address to amount k new_fee (sel, isum, rest))"
      by (auto simp: x candidate_eq[OF assms] Suc.IH Let_def not_le)
  qed
qed simp

definition wallet_key :: "cli_wallet \<Rightarrow> wallet_keypair" where
  "wallet_key w = \<lparr>signing_key = w_signing_key w, verifying_key = w_verifying_key w\<rparr>"

lemma wallet_key_wf:
  assumes "wallet_wf P w"
  shows "keypair_wf P (wallet_key w)" "keypair_address P (wallet_key w) = w_address w"
proof -
  have w: "length (w_signing_key w) = 32" "w = wallet_of_secret P (w_mnemonic w) (w_signing_key w)" using assms by (simp_all add: wallet_wf_def)
  have "w_verifying_key w = ed_public P (w_signing_key w)" "w_address w = address_from_public P (ed_public P (w_signing_key w))"
    by (subst w(2), simp add: wallet_of_secret_def)+
  then show "keypair_wf P (wallet_key w)" "keypair_address P (wallet_key w) = w_address w"
    using w(1) by (simp_all add: keypair_wf_def wallet_key_def keypair_address_def address_from_public_key_def address_from_public_def Let_def)
qed

lemma secret_key_back:
  assumes "hex_ok P" "wallet_wf P w"
  shows "from_secret_hex P (wallet_secret_hex P w) = Ok (wallet_key w)"
  using assms(1) wallet_key_wf(1)[OF assms(2)]
  by (simp add: from_secret_hex_def wallet_secret_hex_def wallet_key_def keypair_wf_def)

text \<open>For the same spendable outputs the wallet builds the transaction the pool would build with the same key.\<close>

lemma build_tx_eq:
  assumes "ed25519_ok P" "hex_ok P" "wallet_wf P w" "pool \<noteq> []"
  shows "build_tx P now w to amount pool = as_sent (build_payout_tx P now (wallet_key w) (w_address w) to amount (Ok pool))"
  using assms(4) by (auto simp: build_tx_def build_payout_tx_def select_inputs_eq secret_key_back[OF assms(2,3)]
      send_loop_eq[OF assms(1,2) wallet_key_wf(1)[OF assms(3)]] intro!: arg_cong2[where f = bind_res] split: prod.splits)

section \<open>What is sent is accepted\<close>

lemma keyed_Cons:
  "utxos_keyed P ((k, v) # d) \<longleftrightarrow> (starts_with ''u:'' k \<longrightarrow> (\<forall>u. dec_utxo P v = Some u \<longrightarrow> k = utxo_slot u)) \<and> utxos_keyed P d"
  by (auto simp: utxos_keyed_def)

lemma owned_cases:
  obtains "owned P own ((k, v) # d) = owned P own d"
  | u where "starts_with ''u:'' k" "dec_utxo P v = Some u" "owned P own ((k, v) # d) = u # owned P own d"
  by (cases "starts_with ''u:'' k"; cases "dec_utxo P v"; cases "own (u_to (the (dec_utxo P v)))") auto

lemma owned_slots_sub: "utxos_keyed P d \<Longrightarrow> set (map utxo_slot (owned P own d)) \<subseteq> set (map fst d)"
proof (induction d)
  case (Cons e d)
  obtain k v where e: "e = (k, v)" by (cases e)
  have d: "utxos_keyed P d" "starts_with ''u:'' k \<Longrightarrow> dec_utxo P v = Some u \<Longrightarrow> k = utxo_slot u" for u
    using Cons.prems unfolding e keyed_Cons by blast+
  show ?case unfolding e using Cons.IH[OF d(1)] d(2) by (cases rule: owned_cases[of P own k v d]) auto
qed simp

lemma owned_slots_distinct: "utxos_keyed P d \<Longrightarrow> distinct (map fst d) \<Longrightarrow> distinct (map utxo_slot (owned P own d))"
proof (induction d)
  case (Cons e d)
  obtain k v where e: "e = (k, v)" by (cases e)
  have d: "utxos_keyed P d" "starts_with ''u:'' k \<Longrightarrow> dec_utxo P v = Some u \<Longrightarrow> k = utxo_slot u" for u
    using Cons.prems(1) unfolding e keyed_Cons by blast+
  have "k \<notin> set (map utxo_slot (owned P own d))" "distinct (map utxo_slot (owned P own d))"
    using owned_slots_sub[OF d(1), of own] Cons.IH[OF d(1)] Cons.prems(2) e by auto
  then show ?case unfolding e using d(2) by (cases rule: owned_cases[of P own k v d]) auto
qed simp

lemma owned_stored:
  assumes "db_wf d" "utxos_keyed P d" "u \<in> set (owned P own d)"
  obtains v where "db_get d (utxo_slot u) = Some v" "dec_utxo P v = Some u"
proof -
  obtain k v where "(k, v) \<in> set d" "starts_with ''u:'' k" "dec_utxo P v = Some u"
    using assms(3) by (auto simp: owned_def List.map_filter_def split: if_splits)
  moreover from this have "k = utxo_slot u" using assms(2) by (auto simp: utxos_keyed_def)
  ultimately show thesis using that db_wf_distinct[OF assms(1)] by (simp add: db_get_def map_of_eq_Some_iff)
qed

text \<open>The inputs of a transaction of the wallet.\<close>

definition signed_input :: "string \<Rightarrow> string \<Rightarrow> utxo \<Rightarrow> transaction_input" where
  "signed_input pk_hex sig u = \<lparr>in_txid = u_txid u, in_vout = u_vout u, in_pubkey = pk_hex, in_signature = Some sig\<rparr>"

lemma payout_inputs: "\<exists>sig. inputs (payout_tx P t kp a to amount (map (fst \<circ> spendable a') us) change) = map (signed_input (public_hex P kp) sig) us"
  by (simp add: payout_tx_def with_hashes_def sign_tx_def spendable_def signed_input_def comp_def Let_def)

lemma stored_amounts:
  assumes "\<And>u. u \<in> set us \<Longrightarrow> \<exists>v. db_get d (utxo_slot u) = Some v \<and> dec_utxo P v = Some u"
  shows "List.map_filter (stored_amount P d) (map (signed_input pk sig) us) = map u_amount us"
  using assms
proof (induction us)
  case (Cons u us)
  obtain v where "db_get d (utxo_slot u) = Some v" "dec_utxo P v = Some u" using Cons.prems by auto
  then have "stored_amount P d (signed_input pk sig u) = Some (u_amount u)"
    by (simp add: stored_amount_def signed_input_def utxo_slot_def)
  then show ?case using Cons by (simp add: List.map_filter_simps)
qed (simp add: List.map_filter_simps)

lemma process_signed_inputs:
  assumes "\<And>u. u \<in> set us \<Longrightarrow> \<exists>v. db_get d (utxo_slot u) = Some v \<and> dec_utxo P v = Some u"
    and "\<And>u. u \<in> set us \<Longrightarrow> u_to u = address" "address_from_pubkey_hex P pk = Ok address"
    and "distinct (map utxo_slot us)" "set (map utxo_slot us) \<inter> set used = {}" "\<And>u. u \<in> set us \<Longrightarrow> block_utxos acc (utxo_slot u) = None"
    and "unat s + sum_list (map (unat \<circ> u_amount) us) < 2 ^ 256"
  shows "\<exists>used' s' b. fold_res (process_input P d) (map (signed_input pk sig) us) (used, s, acc) = Ok (used', s', acc\<lparr>batch := b\<rparr>) \<and>
    unat s' = unat s + sum_list (map (unat \<circ> u_amount) us)"
  using assms
proof (induction us arbitrary: used s acc)
  case Nil
  have "\<exists>b. acc = acc\<lparr>batch := b\<rparr>" by (rule exI[of _ "batch acc"]) simp
  then show ?case by simp
next
  case (Cons u us)
  let ?acc = "acc\<lparr>batch := batch acc @ [Delete (utxo_slot u)]\<rparr>"
  obtain v where v: "db_get d (utxo_slot u) = Some v" "dec_utxo P v = Some u" using Cons.prems(1) by auto
  obtain s1 where s1: "u256_add s (u_amount u) = Some s1" "unat s1 = unat s + unat (u_amount u)"
    using Cons.prems(7) by (auto simp: u256_add_def unat_word_ariths)
  have "process_input P d (signed_input pk sig u) (used, s, acc) = Ok (utxo_slot u # used, s1, ?acc)"
    using Cons.prems(2,3,5,6) v s1(1)
    by (simp add: process_input_def signed_input_def utxo_slot_def[symmetric] find_utxo_def Let_def)
  moreover have "\<exists>used' s' b. fold_res (process_input P d) (map (signed_input pk sig) us) (utxo_slot u # used, s1, ?acc) =
      Ok (used', s', ?acc\<lparr>batch := b\<rparr>) \<and> unat s' = unat s1 + sum_list (map (unat \<circ> u_amount) us)"
    using Cons.prems s1(2) by (intro Cons.IH) auto
  ultimately show ?case using s1(2) by (auto simp: add.assoc comp_def intro!: exI)
qed

lemma wallet_reads_utxo: "wallet_input T a (utxo_json u) = Some (spendable a u)"
proof -
  have "length (to_limbs (u_amount u)) = 4" by (simp add: to_limbs_def)
  then have "read_utxo_amount T (utxo_json u) = u_amount u"
    by (simp add: read_utxo_amount_def utxo_json_def json_index_def limbs_amount_def as_u64_limbs limbs_roundtrip Let_def)
  then show ?thesis by (simp add: wallet_input_def utxo_json_members spendable_def)
qed

lemma created_from_page:
  assumes "utxos_page P a bc = Some (c, page)" "create_tx P T now w to amount (Some (Some page)) = Ok tx" "a = w_address w"
  obtains us where "get_utxos P bc a = Ok us" "us \<noteq> []" "build_tx P now w to amount (map (spendable a) us) = Ok tx"
proof -
  have those: "those (map (wallet_input T a) (map utxo_json us)) = Some (map (spendable a) us)" for us
    by (simp add: those_Some wallet_reads_utxo)
  obtain us where "get_utxos P bc a = Ok us" "page = JArr (map utxo_json us)"
    using assms by (auto simp: utxos_page_def answered_def create_tx_def ok_or_def split: result.splits if_splits)
  then show thesis using that assms(2,3) those by (auto simp: create_tx_def ok_or_def split: if_splits)
qed

text \<open>What the wallet makes of the outputs the node lists for it.\<close>

lemma created_pays:
  assumes "ed25519_ok P" "hex_ok P" "wallet_wf P w" "0 < amount" "us \<noteq> []"
    and "build_tx P now w to amount (map (spendable (w_address w)) us) = Ok tx"
  obtains n t change fee sig where
    "tx = payout_tx P t (wallet_key w) (w_address w) to amount (map (fst \<circ> spendable (w_address w)) (take n us)) change"
    "inputs tx = map (signed_input (public_hex P (wallet_key w)) sig) (take n us)"
    "sum_list (map (unat \<circ> u_amount) (take n us)) = unat amount + unat change + unat fee"
    "unat amount + unat change + unat fee < 2 ^ 256" "calculate_default_fee (blob_len P (enc_tx P tx)) \<le> fee"
proof -
  let ?a = "w_address w" and ?pool = "map (spendable (w_address w)) us"
  have "build_payout_tx P now (wallet_key w) ?a to amount (Ok ?pool) = Ok tx"
    using assms(6) build_tx_eq[OF assms(1-3)] assms(5) by (auto simp: as_sent_def split: result.splits)
  from build_pays[OF this assms(4)] obtain n t change fee where
    p: "tx = payout_tx P t (wallet_key w) ?a to amount (map fst (take n ?pool)) change"
      "sum_list (map (unat \<circ> snd) (take n ?pool)) = unat amount + unat change + unat fee"
      "unat amount + unat change + unat fee < 2 ^ 256" "calculate_default_fee (blob_len P (enc_tx P tx)) \<le> fee"
    by (auto simp: pays_def)
  have tx: "tx = payout_tx P t (wallet_key w) ?a to amount (map (fst \<circ> spendable ?a) (take n us)) change" using p(1) by (simp add: take_map)
  obtain sig where "inputs tx = map (signed_input (public_hex P (wallet_key w)) sig) (take n us)"
    using payout_inputs[of P t "wallet_key w" ?a to amount ?a "take n us" change] tx by blast
  moreover have "sum_list (map (unat \<circ> u_amount) (take n us)) = unat amount + unat change + unat fee"
    using p(2) by (simp add: take_map comp_def spendable_def)
  ultimately show thesis using that tx p(3,4) by blast
qed

text \<open>
  A signed transaction whose inputs are distinct stored outputs of one address, and whose outputs leave a fee.
\<close>

definition pays_from :: "'v prims \<Rightarrow> 'v db \<Rightarrow> string \<Rightarrow> string \<Rightarrow> utxo list \<Rightarrow> u256 \<Rightarrow> u256 \<Rightarrow> transaction \<Rightarrow> bool" where
  "pays_from P d address pk us paid fee tx \<longleftrightarrow>
     verify_signatures P tx = Ok True \<and> (\<exists>sig. inputs tx = map (signed_input pk sig) us) \<and>
     (\<forall>u\<in>set us. u_to u = address \<and> (\<exists>v. db_get d (utxo_slot u) = Some v \<and> dec_utxo P v = Some u)) \<and> distinct (map utxo_slot us) \<and>
     u256_sum (map out_amount (outputs tx)) = Some paid \<and>
     sum_list (map (unat \<circ> u_amount) us) = unat paid + unat fee \<and> unat paid + unat fee < 2 ^ 256 \<and>
     calculate_min_fee (blob_len P (enc_tx P tx)) \<le> fee"

lemma u256_sum_fits:
  assumes "sum_list (map unat xs) = n" "n < 2 ^ 256"
  shows "\<exists>s. u256_sum xs = Some s \<and> unat s = n"
  using assms by (intro exI[of _ "of_nat n"]) (simp add: u256_sum_Some unat_of_nat)

lemma fee_left:
  assumes "unat s = unat paid + unat (fee :: u256)"
  shows "paid \<le> s" "s - paid = fee"
proof -
  show "paid \<le> s" using assms by (simp add: word_le_nat_alt)
  then show "s - paid = fee" using assms by (intro word_unat_eq_iff[THEN iffD2]) (simp add: unat_sub)
qed

lemma paid_answered:
  assumes "codec_ok P" "pays_from P d address pk us paid fee tx"
  shows "post_tx P later d (enc_tx P tx) m = Some
    (if hm_get (seen_tx m) (txid tx) \<noteq> None then (m, Duplicate)
     else if has_conflict tx (pending m) then (m, DoubleSpend)
     else (record_tx later tx m, Queued))"
proof -
  obtain sig where inp: "inputs tx = map (signed_input pk sig) us" using assms(2) by (auto simp: pays_from_def)
  obtain s where s: "u256_sum (map u_amount us) = Some s" "unat s = unat paid + unat fee"
    using u256_sum_fits[of "map u_amount us"] assms(2) by (auto simp: pays_from_def comp_def)
  have "List.map_filter (stored_amount P d) (inputs tx) = map u_amount us"
    unfolding inp by (rule stored_amounts) (use assms(2) in \<open>auto simp: pays_from_def\<close>)
  then have "tx_fee P d tx = Some fee" using s fee_left[OF s(2)] assms(2) by (simp add: tx_fee_def pays_from_def)
  then show ?thesis using assms by (simp add: post_tx_def pays_from_def not_less)
qed

lemma paid_processed:
  assumes "pays_from P d address pk us paid fee tx" "address_from_pubkey_hex P pk = Ok address"
  shows "\<exists>acc. process_tx P d tx empty_acc = Ok acc"
proof -
  obtain sig where inp: "inputs tx = map (signed_input pk sig) us" using assms(1) by (auto simp: pays_from_def)
  obtain used' s' b where i: "fold_res (process_input P d) (inputs tx) ([], 0, empty_acc) = Ok (used', s', empty_acc\<lparr>batch := b\<rparr>)"
    "unat s' = unat paid + unat fee"
    using process_signed_inputs[of us d P address pk "[]" empty_acc 0 sig] assms by (auto simp: inp pays_from_def empty_acc_def)
  then have "process_tx P d tx empty_acc = Ok (add_outputs P tx (empty_acc\<lparr>batch := b, total_fees := fee\<rparr>))"
    using fee_left[OF i(2)] assms(1)
    by (simp add: process_tx_def check_signed_def ensure_def u256_sub_def u256_add_def empty_acc_def pays_from_def not_less)
  then show ?thesis by blast
qed

lemma created_pays_from:
  assumes "ed25519_ok P" "hex_ok P" "wallet_wf P w" "0 < amount" "us \<noteq> []" "blob_len P (enc_tx P tx) < 2 ^ 64"
    and "build_tx P now w to amount (map (spendable (w_address w)) us) = Ok tx"
    and "db_wf d" "utxos_keyed P d" "us = owned P (\<lambda>x. x = w_address w) d"
  shows "hd (outputs tx) = \<lparr>out_to = to, out_amount = amount\<rparr> \<and>
    (\<exists>n paid fee. pays_from P d (w_address w) (public_hex P (wallet_key w)) (take n us) paid fee tx)"
proof -
  obtain n t change fee sig where tx: "tx = payout_tx P t (wallet_key w) (w_address w) to amount (map (fst \<circ> spendable (w_address w)) (take n us)) change"
    and inp: "inputs tx = map (signed_input (public_hex P (wallet_key w)) sig) (take n us)"
    and sums: "sum_list (map (unat \<circ> u_amount) (take n us)) = unat amount + unat change + unat fee"
      "unat amount + unat change + unat fee < 2 ^ 256" "calculate_default_fee (blob_len P (enc_tx P tx)) \<le> fee"
    by (rule created_pays[OF assms(1-5,7)])
  have out: "outputs tx = \<lparr>out_to = to, out_amount = amount\<rparr> # (if change > 0 then [\<lparr>out_to = w_address w, out_amount = change\<rparr>] else [])"
    by (simp add: tx)
  obtain paid where paid: "u256_sum (map out_amount (outputs tx)) = Some paid" "unat paid = unat amount + unat change"
  proof -
    have "sum_list (map unat (map out_amount (outputs tx))) = unat amount + unat change" by (simp add: out word_gt_0)
    from u256_sum_fits[OF this] show thesis using that sums(2) by auto
  qed
  have st: "u_to u = w_address w" "\<exists>v. db_get d (utxo_slot u) = Some v \<and> dec_utxo P v = Some u" if "u \<in> set (take n us)" for u
  proof -
    have u: "u \<in> set (owned P (\<lambda>x. x = w_address w) d)" using in_set_takeD[OF that] assms(10) by simp
    then show "u_to u = w_address w" by (auto simp: owned_def)
    show "\<exists>v. db_get d (utxo_slot u) = Some v \<and> dec_utxo P v = Some u" using owned_stored[OF assms(8,9) u] by blast
  qed
  have "distinct (map utxo_slot us)" unfolding assms(10) by (rule owned_slots_distinct[OF assms(9) db_wf_distinct[OF assms(8)]])
  then have dist: "distinct (map utxo_slot (take n us))" by (simp add: take_map[symmetric])
  have min: "calculate_min_fee (blob_len P (enc_tx P tx)) \<le> fee" using min_fee_le_default[OF assms(6)] sums(3) by (rule order_trans)
  have signed: "verify_signatures P tx = Ok True" unfolding tx by (rule payout_tx_signed[OF assms(1,2) wallet_key_wf(1)[OF assms(3)]])
  have "pays_from P d (w_address w) (public_hex P (wallet_key w)) (take n us) paid fee tx"
    unfolding pays_from_def using signed inp st dist paid sums min by (intro conjI ballI) auto
  then show ?thesis using out by (intro conjI exI) simp_all
qed

text \<open>
  C31. Wallet and node together: the wallet asks the node for the unspent outputs of its address and builds a
  transaction of the answer. The node that is sent it answers in one of three ways: it has seen it, a
  pending transaction spends one of its outputs, or it queues it; and while the outputs are unspent, a
  block may carry it. (The wallet does not know of pending transactions: a second transaction made before
  the first is in a block spends the same output and is not queued, \<open>second_send_conflicts\<close>.)
\<close>

theorem sent_tx_accepted:
  assumes "codec_ok P" "ed25519_ok P" "hex_ok P" "wallet_wf P w" "0 < amount" "db_wf (bc_db bc)" "utxos_keyed P (bc_db bc)"
    and "utxos_page P (w_address w) bc = Some (c, page)" "create_tx P T now w to amount (Some (Some page)) = Ok tx"
    and "blob_len P (enc_tx P tx) < 2 ^ 64"
  shows "hd (outputs tx) = \<lparr>out_to = to, out_amount = amount\<rparr> \<and>
    post_tx P later (bc_db bc) (enc_tx P tx) m = Some
      (if hm_get (seen_tx m) (txid tx) \<noteq> None then (m, Duplicate)
       else if has_conflict tx (pending m) then (m, DoubleSpend)
       else (record_tx later tx m, Queued)) \<and>
    (\<exists>acc. process_tx P (bc_db bc) tx empty_acc = Ok acc)"
proof -
  obtain us where us: "get_utxos P bc (w_address w) = Ok us" "us \<noteq> []" "build_tx P now w to amount (map (spendable (w_address w)) us) = Ok tx"
    using created_from_page[OF assms(8,9)] by blast
  obtain n paid fee where p: "pays_from P (bc_db bc) (w_address w) (public_hex P (wallet_key w)) (take n us) paid fee tx"
    and h: "hd (outputs tx) = \<lparr>out_to = to, out_amount = amount\<rparr>"
    using created_pays_from[OF assms(2-5) us(2) assms(10) us(3) assms(6,7) get_utxos_Ok[OF us(1)]] by blast
  have "address_from_pubkey_hex P (public_hex P (wallet_key w)) = Ok (w_address w)"
    using address_of_own_key[OF assms(2,3) wallet_key_wf(1)[OF assms(4)]] wallet_key_wf(2)[OF assms(4)] by simp
  from paid_processed[OF p this] show ?thesis using h paid_answered[OF assms(1) p] by simp
qed

lemma created_spends_first:
  assumes "ed25519_ok P" "hex_ok P" "wallet_wf P w" "0 < amount" "us \<noteq> []"
    and "build_tx P now w to amount (map (spendable (w_address w)) us) = Ok tx"
  shows "\<exists>sig. signed_input (public_hex P (wallet_key w)) sig (hd us) \<in> set (inputs tx)"
proof -
  obtain n sig and change fee :: u256 where "inputs tx = map (signed_input (public_hex P (wallet_key w)) sig) (take n us)"
    "sum_list (map (unat \<circ> u_amount) (take n us)) = unat amount + unat change + unat fee"
    by (rule created_pays[OF assms]) (rule that; assumption)
  moreover have "unat amount > 0" using assms(4) by (simp add: word_less_nat_alt)
  ultimately show ?thesis using assms(5) by (cases n; cases us) auto
qed

lemma second_send_conflicts:
  assumes "ed25519_ok P" "hex_ok P" "wallet_wf P w" "utxos_page P (w_address w) bc = Some (c, page)"
    and "0 < amount" "create_tx P T now w to amount (Some (Some page)) = Ok tx" "tx \<in> set (pending m)"
    and "0 < amount2" "create_tx P T now2 w to2 amount2 (Some (Some page)) = Ok tx2"
  shows "has_conflict tx2 (pending m)"
proof -
  obtain us where us: "get_utxos P bc (w_address w) = Ok us" "us \<noteq> []" "build_tx P now w to amount (map (spendable (w_address w)) us) = Ok tx"
    using created_from_page[OF assms(4,6)] by blast
  obtain us2 where us2: "get_utxos P bc (w_address w) = Ok us2" "build_tx P now2 w to2 amount2 (map (spendable (w_address w)) us2) = Ok tx2"
    using created_from_page[OF assms(4,9)] by blast
  have e: "us2 = us" using us(1) us2(1) by simp
  obtain sig where 1: "signed_input (public_hex P (wallet_key w)) sig (hd us) \<in> set (inputs tx)"
    using created_spends_first[OF assms(1-3,5) us(2,3)] by blast
  obtain sig2 where 2: "signed_input (public_hex P (wallet_key w)) sig2 (hd us) \<in> set (inputs tx2)"
    using created_spends_first[OF assms(1-3,8) us(2) us2(2)[unfolded e]] by blast
  have "outpoint_text (signed_input pk s u) = outpoint_text (signed_input pk s' u)" for pk s s' u
    by (simp add: outpoint_text_def signed_input_def)
  then have "outpoint_text (signed_input (public_hex P (wallet_key w)) sig (hd us)) \<in> set (map outpoint_text (inputs tx2))"
    using 2 by (metis image_eqI list.set_map)
  then show ?thesis using 1 assms(7) unfolding has_conflict_def Let_def list_ex_iff by blast
qed

section \<open>Examples\<close>

definition sample_bip39 :: bip39 where
  "sample_bip39 = \<lparr>bip_from_entropy = (\<lambda>_. ''abandon''), bip_seed = (\<lambda>_. Some (replicate 64 7))\<rparr>"

definition sample_cli_env :: cli_env where
  "sample_cli_env = \<lparr>ce_windows = False, ce_home = ''/home/a'', ce_data_dir = None, ce_expand = (\<lambda>p. p), ce_writable = (\<lambda>_. True)\<rparr>"

lemma sample_import:
  obtains fs' where "import_wallet sample_bip39 ref_prims sample_cli_env ''abandon'' Map.empty = Some fs'"
    "config_load sample_cli_env Map.empty = Some (config_default sample_cli_env,
       [default_path sample_cli_env \<mapsto> Some (config_json (config_default sample_cli_env))])"
    "wallet_path_resolved sample_cli_env (config_default sample_cli_env) \<noteq> default_path sample_cli_env"
    "bip39_ok sample_bip39"
    "from_mnemonic_str sample_bip39 ref_prims ''abandon'' = Some (wallet_of_secret ref_prims (Some ''abandon'') (replicate 32 7))"
proof -
  have c: "config_load sample_cli_env Map.empty = Some (config_default sample_cli_env,
      [default_path sample_cli_env \<mapsto> Some (config_json (config_default sample_cli_env))])"
    by (simp add: config_load_def config_save_def write_file_def sample_cli_env_def)
  have p: "wallet_path_resolved sample_cli_env (config_default sample_cli_env) \<noteq> default_path sample_cli_env"
    by (simp add: wallet_path_resolved_def config_default_def default_wallet_path_def default_path_def path_join_def sample_cli_env_def Let_def)
  have b: "bip39_ok sample_bip39" by (simp add: bip39_ok_def sample_bip39_def)
  have w: "from_mnemonic_str sample_bip39 ref_prims ''abandon'' = Some (wallet_of_secret ref_prims (Some ''abandon'') (replicate 32 7))"
    by (simp add: from_mnemonic_str_def sample_bip39_def)
  have "wallet_wf ref_prims (wallet_of_secret ref_prims (Some ''abandon'') (replicate 32 7))" by (rule wallet_of_secret_wf) simp
  then obtain s where "checksummed_address ref_prims (wallet_of_secret ref_prims (Some ''abandon'') (replicate 32 7)) = Some s"
    using checksummed_wallet[OF ref_prims_ok(3,2)] by blast
  then obtain fs' where i: "import_wallet sample_bip39 ref_prims sample_cli_env ''abandon'' Map.empty = Some fs'"
    using c w by (simp add: import_wallet_def keep_wallet_def save_wallet_json_def write_file_def) (simp add: sample_cli_env_def)
  show thesis by (rule that[OF i c p b w])
qed

theorem imported_wallet_loaded_witness:
  "\<exists>fs' w. import_wallet sample_bip39 ref_prims sample_cli_env ''abandon'' Map.empty = Some fs' \<and>
    load_wallet ref_prims sample_cli_env fs' = Some (w, fs') \<and> w_signing_key w = replicate 32 7"
proof -
  obtain fs' where i: "import_wallet sample_bip39 ref_prims sample_cli_env ''abandon'' Map.empty = Some fs'"
    and c: "config_load sample_cli_env Map.empty = Some (config_default sample_cli_env,
       [default_path sample_cli_env \<mapsto> Some (config_json (config_default sample_cli_env))])"
    and p: "wallet_path_resolved sample_cli_env (config_default sample_cli_env) \<noteq> default_path sample_cli_env"
    and b: "bip39_ok sample_bip39"
    and w: "from_mnemonic_str sample_bip39 ref_prims ''abandon'' = Some (wallet_of_secret ref_prims (Some ''abandon'') (replicate 32 7))"
    by (rule sample_import)
  from imported_wallet_loaded[OF ref_prims_ok(3) b i c p] w i show ?thesis by (auto simp: wallet_of_secret_def)
qed

theorem checksum_same_address_witness:
  "\<exists>s. checksummed_address ref_prims (wallet_of_secret ref_prims None (replicate 32 7)) = Some s"
  using checksum_same_address[OF ref_prims_ok(3,2) wallet_of_secret_wf[of "replicate 32 7" ref_prims None]] by auto

theorem balance_read_witness:
  "\<exists>page. balance_page ref_prims ref_text sample_address sample_chain = Some (200, page) \<and> read_balance ref_text page = 1000000000000000000"
proof -
  have "get_address_balance_from_db ref_prims sample_chain sample_address = Ok 1000000000000000000"
    unfolding balance_iff by (simp add: sample_chain_def ref_selectors sample_utxo_def)
  from balance_read[OF ref_text_ok this] show ?thesis .
qed

theorem checksummed_query_empty_witness:
  "get_address_balance_from_db ref_prims (sample_chain\<lparr>bc_db := []\<rparr>) ''0xAB'' = Ok 0"
proof -
  have "to_lowercase ''0xAB'' \<noteq> ''0xAB''" by code_simp
  then show ?thesis using checksummed_query_empty[of ref_prims "sample_chain\<lparr>bc_db := []\<rparr>" "''0xAB''"] by simp
qed

definition sample_wallet :: cli_wallet where
  "sample_wallet = wallet_of_secret ref_prims None (signing_key sample_key)"

lemma sample_wallet_wf: "wallet_wf ref_prims sample_wallet" "w_address sample_wallet = sample_address"
proof -
  have "length (signing_key sample_key) = 32" using sample_key_wf by (simp add: keypair_wf_def)
  then show "wallet_wf ref_prims sample_wallet" unfolding sample_wallet_def by (rule wallet_of_secret_wf)
  show "w_address sample_wallet = sample_address"
    using sample_key_wf by (simp add: sample_wallet_def wallet_of_secret_def sample_address_def keypair_address_def address_from_public_def
        address_from_public_key_def keypair_wf_def Let_def)
qed

lemma sample_keyed: "utxos_keyed ref_prims (bc_db sample_chain)"
  by (simp add: utxos_keyed_def sample_chain_def utxo_slot_def ref_selectors key_prefix) (simp add: sample_utxo_def)

lemma sample_sent:
  "\<exists>page tx. utxos_page ref_prims sample_address sample_chain = Some (200, page) \<and>
    create_tx ref_prims ref_text (\<lambda>_. 0) sample_wallet ''x'' 1000 (Some (Some page)) = Ok tx"
proof -
  let ?pool = "[spendable sample_address sample_utxo]"
  have u: "get_utxos ref_prims sample_chain sample_address = Ok [sample_utxo]"
    by (simp add: get_utxos_def db_iterator_def sample_chain_def ref_selectors) (simp add: sample_utxo_def)
  have "calculate_default_fee (Suc 0) = 100300000000000"
    by (simp add: calculate_default_fee_def BASE_MIN_FEE_def DEFAULT_WALLET_FEE_NAT_PER_BYTE_def)
  then have l: "\<exists>tx. fee_loop ref_prims (\<lambda>_. 0) (wallet_key sample_wallet) sample_address ''x'' 1000 (Suc (Suc k)) 0
      ([fst (hd ?pool)], 1000000000000000000, []) = Ok tx" for k
    by (simp add: u256_add_def ref_selectors Let_def)
  have "\<exists>tx. build_payout_tx ref_prims (\<lambda>_. 0) (wallet_key sample_wallet) sample_address ''x'' 1000 (Ok ?pool) = Ok tx"
    using l[of 14] by (simp add: build_payout_tx_def spendable_def u256_add_def sample_utxo_def del: fee_loop.simps)
  then have "\<exists>tx. build_tx ref_prims (\<lambda>_. 0) sample_wallet ''x'' 1000 ?pool = Ok tx"
    using build_tx_eq[OF ref_prims_ok(4,3) sample_wallet_wf(1), of ?pool "\<lambda>_. 0" "''x''" 1000] sample_wallet_wf(2) by auto
  then show ?thesis
    by (auto simp: utxos_page_def u answered_def create_tx_def wallet_reads_utxo sample_wallet_wf(2) ok_or_def)
qed

theorem sent_tx_accepted_witness:
  "\<exists>page tx. utxos_page ref_prims sample_address sample_chain = Some (200, page) \<and>
    create_tx ref_prims ref_text (\<lambda>_. 0) sample_wallet ''x'' 1000 (Some (Some page)) = Ok tx \<and>
    post_tx ref_prims 0 (bc_db sample_chain) (enc_tx ref_prims tx) mempool_default = Some (record_tx 0 tx mempool_default, Queued)"
proof -
  obtain page tx where p: "utxos_page ref_prims sample_address sample_chain = Some (200, page)"
    "create_tx ref_prims ref_text (\<lambda>_. 0) sample_wallet ''x'' 1000 (Some (Some page)) = Ok tx"
    using sample_sent by blast
  have "hm_get (seen_tx mempool_default) (txid tx) = None \<and> \<not> has_conflict tx (pending mempool_default)"
    by (simp add: mempool_default_def has_conflict_def)
  then show ?thesis
    using sent_tx_accepted[OF ref_prims_ok(1,4,3) sample_wallet_wf(1) _ sample_db(1) sample_keyed _ p(2), where c = 200 and m = mempool_default and later = 0] p
    by (auto simp: sample_wallet_wf(2) ref_selectors)
qed

end
