(* ===== verification/Pool_Server.thy ===== *)
theory Pool_Server
  imports Wallet
begin

text \<open>
  The rest of \<open>astram-stratum/src/main.rs\<close>: the settings of the pool and its start, how it reads the node's
  pages, the \<open>getblocktemplate\<close> server and the statistics server; and the wallet file that pool, node and
  command line wallet share. Environment variables are a map, files those of \<open>Wallet\<close>.
\<close>

section \<open>Numbers in settings\<close>

text \<open>\<open>str::parse::<f64>\<close>\<close>

definition sign_of :: "string \<Rightarrow> bool \<times> string" where
  "sign_of s =
     (case s of
        [] \<Rightarrow> (False, [])
      | c # cs \<Rightarrow> if c = CHR ''-'' then (True, cs) else if c = CHR ''+'' then (False, cs) else (False, s))"

definition digits_value :: "string \<Rightarrow> nat" where
  "digits_value s = fold (\<lambda>c n. n * 10 + (of_char c - 48)) s 0"

definition parse_exponent :: "string \<Rightarrow> int option" where
  "parse_exponent s =
     (case s of
        [] \<Rightarrow> Some 0
      | c # cs \<Rightarrow>
          (let (neg, ds) = sign_of cs
           in if (c = CHR ''e'' \<or> c = CHR ''E'') \<and> ds \<noteq> [] \<and> list_all is_ascii_digit ds
              then Some (if neg then - int (digits_value ds) else int (digits_value ds)) else None))"

definition parse_f64 :: "string \<Rightarrow> f64 option" where
  "parse_f64 s =
     (let (neg, body) = sign_of s; low = to_lowercase body
      in if low = ''inf'' \<or> low = ''infinity'' then Some (Infinity neg)
         else if low = ''nan'' then Some NaN
         else
           let whole = takeWhile is_ascii_digit body; r = dropWhile is_ascii_digit body;
               (frac, r) = (case r of
                   [] \<Rightarrow> ([], [])
                 | c # cs \<Rightarrow> if c = CHR ''.'' then (takeWhile is_ascii_digit cs, dropWhile is_ascii_digit cs) else ([], r))
           in if whole = [] \<and> frac = [] then None
              else map_option (\<lambda>e. let x = f64_round (of_nat (digits_value (whole @ frac)) * 10 powi (e - int (length frac)))
                                   in if neg then f64_neg x else x)
                     (parse_exponent r))"

type_synonym vars = "string \<rightharpoonup> string"

definition env_parse :: "(string \<Rightarrow> 'a option) \<Rightarrow> 'a \<Rightarrow> vars \<Rightarrow> string \<Rightarrow> 'a" where
  "env_parse f d vs k = unwrap_or d (Option.bind (vs k) f)"

definition parse_word :: "nat \<Rightarrow> string \<Rightarrow> 'a::len word option" where
  "parse_word bits s = map_option of_nat (from_str_radix bits 10 s)"

section \<open>Settings and start\<close>

record pool_settings =
  ps_node_rpc_url :: string
  ps_stratum_bind :: string
  ps_gbt_bind :: string
  ps_stats_bind :: string
  ps_config :: pool_config
  ps_pplns_window :: nat
  ps_payout_threshold :: u256
  ps_payout_interval :: u64
  ps_payout_db_path :: string

definition read_wallet_file :: "cli_env \<Rightarrow> files \<Rightarrow> cli_config \<Rightarrow> json option" where
  "read_wallet_file E fs cfg = Option.bind (fs (wallet_path_resolved E cfg)) (\<lambda>text. text)"

definition load_pool_address :: "cli_env \<Rightarrow> files \<Rightarrow> cli_config \<Rightarrow> string option" where
  "load_pool_address E fs cfg =
     Option.bind (Option.bind (read_wallet_file E fs cfg) (json_get ''address'')) as_str_json"

definition load_pool_keypair :: "'v prims \<Rightarrow> vars \<Rightarrow> cli_env \<Rightarrow> files \<Rightarrow> cli_config \<Rightarrow> wallet_keypair option" where
  "load_pool_keypair P vs E fs cfg =
     (let from_hex = (\<lambda>s. case from_secret_hex P s of Ok kp \<Rightarrow> Some kp | Err _ \<Rightarrow> None)
      in case vs ''POOL_WALLET_SECRET'' of
           Some secret \<Rightarrow> from_hex secret
         | None \<Rightarrow>
             Option.bind (read_wallet_file E fs cfg) (\<lambda>wallet.
             Option.bind (as_str_json (json_index wallet ''secret_key'')) from_hex))"

definition pool_from_env :: "vars \<Rightarrow> cli_env \<Rightarrow> files \<Rightarrow> cli_config \<Rightarrow> pool_settings option" where
  "pool_from_env vs E fs cfg =
     map_option (\<lambda>address.
       \<lparr>ps_node_rpc_url = unwrap_or (cf_node_rpc_url cfg) (vs ''NODE_RPC_URL''),
        ps_stratum_bind = unwrap_or ''0.0.0.0:3333'' (vs ''STRATUM_BIND''),
        ps_gbt_bind = unwrap_or ''0.0.0.0:8332'' (vs ''GBT_BIND''),
        ps_stats_bind = unwrap_or ''0.0.0.0:8081'' (vs ''STATS_BIND''),
        ps_config = \<lparr>pool_address = address,
          pool_fee_percent = env_parse parse_f64 (Fin 1) vs ''POOL_FEE_PERCENT'',
          vardiff = var_diff_default\<lparr>min_diff := env_parse (parse_word 32) 1 vs ''VARDIFF_MIN'',
            max_diff := env_parse (parse_word 32) 32 vs ''VARDIFF_MAX'',
            target_share_time := env_parse parse_f64 (Fin 15) vs ''VARDIFF_TARGET_SECS''\<rparr>\<rparr>,
        ps_pplns_window = env_parse (from_str_radix 64 10) 10000 vs ''PPLNS_WINDOW'',
        ps_payout_threshold = of_nat (f64_to_u128 (f64_mul (env_parse parse_f64 (Fin (1 / 2)) vs ''PAYOUT_THRESHOLD_ASRM'') (Fin (10 ^ 18)))),
        ps_payout_interval = env_parse (parse_word 64) 600 vs ''PAYOUT_INTERVAL_SECS'',
        ps_payout_db_path = unwrap_or ''pool_data'' (vs ''POOL_DB_PATH'')\<rparr>)
     (or_else (vs ''POOL_ADDRESS'') (load_pool_address E fs cfg))"

text \<open>
  \<open>main\<close> up to the start of the services: the files it leaves, the settings, the key that signs payouts and
  the state of the pool. \<open>open\<close> gives the content of the database at a path, if it can be opened.
\<close>

record 'v pool_start_env =
  pe_prims :: "'v prims"
  pe_text :: u256_text
  pe_cli :: cli_env
  pe_vars :: vars
  pe_open :: "string \<Rightarrow> string db option"
  pe_ord :: "(string \<times> u64) list \<Rightarrow> (string \<times> u64) list"
  pe_saved_ord :: "(string \<times> u256) list \<Rightarrow> (string \<times> u256) list"

definition pool_main :: "'v pool_start_env \<Rightarrow> files \<Rightarrow> (files \<times> pool_settings \<times> wallet_keypair \<times> pool) option" where
  "pool_main Z fs =
     Option.bind (config_load (pe_cli Z) fs) (\<lambda>(cfg, fs).
     Option.bind (pool_from_env (pe_vars Z) (pe_cli Z) fs cfg) (\<lambda>s.
     Option.bind (load_pool_keypair (pe_prims Z) (pe_vars Z) (pe_cli Z) fs cfg) (\<lambda>kp.
     map_option (\<lambda>d.
       (fs, s, kp,
        pool_start \<lparr>pr_prims = pe_prims Z, pr_text = pe_text Z, pr_ord = pe_ord Z, pr_config = ps_config s\<rparr> (pe_saved_ord Z) d (ps_pplns_window s)))
       (pe_open Z (ps_payout_db_path s)))))"

text \<open>The address of the node's miner, read at the start of \<open>node/src/main.rs\<close>.\<close>

definition node_miner_address :: "cli_env \<Rightarrow> files \<Rightarrow> (string \<times> files) option" where
  "node_miner_address E fs =
     Option.bind (config_load E fs) (\<lambda>(cfg, fs).
     Option.bind (read_wallet_file E fs cfg) (\<lambda>wallet.
     map_option (\<lambda>a. (a, fs)) (as_str_json (json_index wallet ''address''))))"

section \<open>The client of the node\<close>

text \<open>The answers of the node as JSON values; \<^const>\<open>None\<close> is a request that failed, with the text \<open>failed\<close>.\<close>

definition read_mempool :: "'v http_codec \<Rightarrow> json \<Rightarrow> (transaction list \<times> string) option" where
  "read_mempool X j =
     Option.bind (member_str j ''transactions_b64'') (\<lambda>b64.
     Option.bind (member_str j ''total_fees'') (\<lambda>fees.
     map_option (\<lambda>txs. (txs, fees)) (Option.bind (hc_unb64 X b64) (hc_dec_txs X))))"

definition submit_payload :: "'v prims \<Rightarrow> 'v http_codec \<Rightarrow> block \<Rightarrow> json" where
  "submit_payload P X b = JObj [(''block_b64'', JStr (hc_b64 X (enc_block P b)))]"

definition parse_submit_response :: "json \<Rightarrow> (string \<times> string option) option" where
  "parse_submit_response j =
     Option.bind (member_str j ''status'') (\<lambda>status.
     Option.bind (member_opt_str j ''hash'') (\<lambda>_.
     map_option (\<lambda>message. (status, message)) (member_opt_str j ''message'')))"

definition submit_answer :: "string \<Rightarrow> json option \<Rightarrow> (string, unit) result" where
  "submit_answer failed answer =
     (case Option.bind answer parse_submit_response of
        None \<Rightarrow> Err failed
      | Some (status, message) \<Rightarrow> if status = ''ok'' then Ok () else Err (unwrap_or ''submit failed'' message))"

section \<open>The template server\<close>

record rpc_request =
  rq_id :: json
  rq_method :: string
  rq_params :: "json option"

text \<open>A request needs \<open>id\<close> and \<open>method\<close>; \<open>params\<close> may be absent or \<open>null\<close>.\<close>

definition parse_rpc_request :: "json \<Rightarrow> rpc_request option" where
  "parse_rpc_request j =
     Option.bind (json_get ''id'' j) (\<lambda>i.
     map_option (\<lambda>m. \<lparr>rq_id = i, rq_method = m, rq_params = (if json_index j ''params'' = JNull then None else Some (json_index j ''params''))\<rparr>)
       (member_str j ''method''))"

definition rpc_success :: "json \<Rightarrow> json \<Rightarrow> json" where
  "rpc_success i r = JObj [(''jsonrpc'', JStr ''1.0''), (''id'', i), (''result'', r), (''error'', JNull)]"

definition rpc_error :: "json \<Rightarrow> int \<Rightarrow> string \<Rightarrow> json" where
  "rpc_error i code msg =
     JObj [(''jsonrpc'', JStr ''1.0''), (''id'', i), (''result'', JNull), (''error'', JObj [(''code'', JInt code), (''message'', JStr msg)])]"

definition tx_data :: "'v prims \<Rightarrow> 'v http_codec \<Rightarrow> transaction \<Rightarrow> json" where
  "tx_data P X tx = JObj [(''data'', JStr (hc_hex X (enc_tx P tx))), (''txid'', JStr (txid tx)), (''hash'', JStr (txid tx))]"

definition template_json :: "'v prims \<Rightarrow> u256_text \<Rightarrow> 'v http_codec \<Rightarrow> mining_template \<Rightarrow> json" where
  "template_json P T X t =
     JObj [(''version'', JInt 1), (''previousblockhash'', JStr (mt_prev_hash t)),
       (''transactions'', JArr (map (tx_data P X) (drop 1 (mt_transactions t)))),
       (''coinbasevalue'', JStr (to_dec_str T (mt_coinbase_value t))), (''target'', JStr (pool_diff_to_target (mt_pool_diff t))),
       (''mintime'', JInt (mt_timestamp t)), (''curtime'', JInt (mt_timestamp t)), (''height'', jword (mt_height t)),
       (''mutable'', JArr [JStr ''time'', JStr ''transactions'', JStr ''prevblock'']), (''noncerange'', JStr ''00000000ffffffff''),
       (''capabilities'', JArr [JStr ''proposal'']),
       (''longpollid'', JStr (show_nat (unat (mt_height t)) @ '':'' @ mt_merkle_root t))]"

definition decode_block_payload :: "'v prims \<Rightarrow> 'v http_codec \<Rightarrow> string \<Rightarrow> (string, block) result" where
  "decode_block_payload P X s =
     bind_res (if hex_text s then ok_or (hc_hex_error X) (hc_unhex X s) else ok_or (''invalid base64: '' @ hc_b64_error X) (hc_unb64 X s)) (\<lambda>bytes.
     ok_or (hc_bincode_error X) (dec_block P bytes))"

text \<open>\<open>failed\<close> is the text of the error when the template cannot be built.\<close>

definition gbt_server :: "'v pool_params \<Rightarrow> 'v http_codec \<Rightarrow> env \<Rightarrow> string \<Rightarrow> json option \<Rightarrow> pool \<Rightarrow> pool \<times> http_reply" where
  "gbt_server R X e failed body p =
     (case Option.bind body parse_rpc_request of
        None \<Rightarrow> (p, NoRoute)
      | Some rq \<Rightarrow>
          let i = rq_id rq; P = pr_prims R; T = pr_text R
          in if rq_method rq = ''getblocktemplate''
             then (p, Page 200
               (case build_template P T (e_now e) (e_answers e) (pool_address (pr_config R)) (show_nat (nat (e_millis e))) [] of
                  Some t \<Rightarrow> rpc_success i (template_json P T X t)
                | None \<Rightarrow> rpc_error i (- 32000) (''template error: '' @ failed)))
             else if rq_method rq = ''submitblock''
             then
               let params = unwrap_or [] (Option.bind (rq_params rq) as_array);
                   data = unwrap_or '''' (if params = [] then None else as_str_json (hd params))
               in (case decode_block_payload P X data of
                     Err msg \<Rightarrow> (p, Page 200 (rpc_error i (- 32602) (''invalid block: '' @ msg)))
                   | Ok block \<Rightarrow>
                       (case gbt_submit R e block p of
                          Some (Ok p') \<Rightarrow> (p', Page 200 (rpc_success i JNull))
                        | Some (Err msg) \<Rightarrow> (p, Page 200 (rpc_error i (- 32001) msg))
                        | None \<Rightarrow> (p, HandlerPanic)))
             else (p, Page 200 (rpc_error i (- 32601) ''method not found'')))"

section \<open>Statistics\<close>

definition stats_page :: "u64 \<Rightarrow> share_tracker \<Rightarrow> json" where
  "stats_page active t =
     JObj [(''total_shares_accepted'', jword (total_shares_accepted t)), (''total_shares_rejected'', jword (total_shares_rejected t)),
       (''blocks_found'', jnat (length (found_blocks t))), (''pplns_window_shares'', jnat (length (recent_shares t))),
       (''active_connections'', jword active)]"

definition miner_json :: "miner_stats \<Rightarrow> json" where
  "miner_json s =
     JObj [(''address'', JStr (ms_address s)), (''worker_name'', JStr (ms_worker_name s)), (''difficulty'', jword (ms_difficulty s)),
       (''shares_accepted'', jword (ms_shares_accepted s)), (''shares_rejected'', jword (ms_shares_rejected s)),
       (''shares_in_window'', jword (ms_shares_in_window s)), (''balance'', JStr (ms_balance s)),
       (''last_share_at'', jopt JInt (ms_last_share_at s)), (''connected'', JBool (ms_connected s))]"

definition found_json :: "found_block \<Rightarrow> json" where
  "found_json b =
     JObj [(''height'', jword (fb_height b)), (''hash'', JStr (fb_hash b)), (''timestamp'', JInt (fb_timestamp b)),
       (''reward'', JStr (fb_reward b)), (''finder'', JStr (fb_finder b)), (''shares_in_window'', jnat (fb_shares_in_window b))]"

definition payments_page :: "u256_text \<Rightarrow> share_tracker \<Rightarrow> json" where
  "payments_page T t = JObj (map (\<lambda>(k, v). (k, jhex T v)) (balances t))"

definition stats_server :: "u256_text \<Rightarrow> (string list \<Rightarrow> string list) \<Rightarrow> (connected_worker list \<Rightarrow> connected_worker list) \<Rightarrow> u64
    \<Rightarrow> share_tracker \<Rightarrow> http_method \<Rightarrow> string list \<Rightarrow> http_reply" where
  "stats_server T ord vals active t m path =
     (if m \<noteq> HttpGet then NoRoute
      else if path = [] then DashboardPage
      else if path = [''stats''] then Page 200 (stats_page active t)
      else if path = [''miners''] then Page 200 (JArr (map miner_json (tracker_miner_stats T ord vals t)))
      else if path = [''blocks''] then Page 200 (JArr (map found_json (take 50 (rev (found_blocks t)))))
      else if path = [''payments''] then Page 200 (payments_page T t)
      else NoRoute)"

section \<open>Pool and node\<close>

text \<open>The request of \<open>submit_block\<close>; its bytes are what the JSON value is written as.\<close>

definition submit_request :: "'v prims \<Rightarrow> 'v http_codec \<Rightarrow> 'v \<Rightarrow> block \<Rightarrow> 'v http_request" where
  "submit_request P X raw b =
     \<lparr>hr_method = HttpPost, hr_path = [''mining'', ''submit''], hr_query = [], hr_body = raw, hr_json = Some (submit_payload P X b)\<rparr>"

definition reply_json :: "http_reply \<Rightarrow> json option" where
  "reply_json r = (case r of Page _ v \<Rightarrow> Some v | _ \<Rightarrow> None)"

lemma submit_routed: "first_route internal_routes (submit_request P X raw b) = Some (SubmitBlock (hc_b64 X (enc_block P b)))"
  by (simp add: internal_routes_def submit_request_def rejects on_prefix_def on_path_def route_submit_def submit_payload_def)

text \<open>
  What the pool reads from the page of pending transactions is what the node has pending, with the fees it
  computed.
\<close>

theorem mempool_page_read:
  assumes "http_codec_ok X" "text_ok T" "mempool_page P T X nd = Some (c, v)"
  shows "\<exists>n fees. get_mempool P (bc_db (nd_bc nd)) (nd_mempool nd) = Some (n, pending (nd_mempool nd), fees) \<and>
    fetch_mempool T (read_mempool X v) = Some \<lparr>ms_txs = pending (nd_mempool nd), ms_total_fees = fees\<rparr>"
proof -
  obtain n fees where g: "get_mempool P (bc_db (nd_bc nd)) (nd_mempool nd) = Some (n, pending (nd_mempool nd), fees)"
    and v: "v = JObj [(''count'', jnat n), (''transactions_b64'', JStr (hc_b64 X (hc_enc_txs X (pending (nd_mempool nd))))), (''total_fees'', jhex T fees)]"
    using assms(3) by (auto simp: mempool_page_def get_mempool_def Let_def)
  have "parse_u256 T (''0x'' @ to_hex_str T fees) = Some fees" using assms(2) by (simp add: parse_u256_def text_ok_def strip_prefix_def starts_with_def)
  then have "fetch_mempool T (read_mempool X v) = Some \<lparr>ms_txs = pending (nd_mempool nd), ms_total_fees = fees\<rparr>"
    using assms(1) by (simp add: v read_mempool_def fetch_mempool_def jhex_def http_codec_ok_def unwrap_or_def)
  then show ?thesis using g by blast
qed

text \<open>
  A submission over HTTP does to the node what \<open>submit_block\<close> does, and the pool learns the outcome: success
  exactly if the block was accepted, and the reason otherwise.
\<close>

lemma submission_outcome:
  assumes "codec_ok (sv_prims S)" "http_codec_ok (sv_codec S)"
  shows "fst (run_server S E m now (submit_request (sv_prims S) (sv_codec S) raw b) nd) = fst (submit_block (sv_prims S) now b nd) \<and>
    submit_answer failed (reply_json (snd (run_server S E m now (submit_request (sv_prims S) (sv_codec S) raw b) nd))) =
      (case snd (submit_block (sv_prims S) now b nd) of
         Ok _ \<Rightarrow> Ok ()
       | Err e \<Rightarrow> Err (if e = Panic then failed else ''block rejected: '' @ hc_error (sv_codec S) e))"
proof -
  let ?P = "sv_prims S" and ?X = "sv_codec S"
  have run: "run_server S E m now (submit_request ?P ?X raw b) nd = writing (submit_page ?P ?X now (hc_b64 ?X (enc_block ?P b)) nd)"
    by (simp add: run_server_def submit_routed Let_def)
  have dec: "hc_unb64 ?X (hc_b64 ?X (enc_block ?P b)) = Some (enc_block ?P b)" "dec_block ?P (enc_block ?P b) = Some b"
    using assms(2) by (simp add: http_codec_ok_def, use assms(1) in simp)
  obtain nd' r where r: "submit_block ?P now b nd = (nd', r)" by (cases "submit_block ?P now b nd")
  show ?thesis
  proof (cases r)
    case (Ok x)
    then show ?thesis unfolding run
      by (cases x) (simp add: submit_page_def dec r writing_def as_reply_def reply_json_def submit_answer_def parse_submit_response_def member_opt_str_def)
  next
    case (Err e)
    then show ?thesis unfolding run
      by (cases "e = Panic") (simp_all add: submit_page_def dec r writing_def as_reply_def reply_json_def submit_answer_def
          parse_submit_response_def member_opt_str_def error_json_def unwrap_or_def)
  qed
qed

text \<open>A block that is recorded with the reward 0 is among the found blocks, and no balance changes.\<close>

lemma zero_credits:
  assumes "k \<noteq> (0 :: u64)"
  shows "fold (\<lambda>e acc. Option.bind acc (credit_miner 0 k e)) es (Some (bal, cs)) = Some (bal, cs)"
proof -
  have "unat (ucast k :: u256) = unat k" using unat_u64_lt[of k] by (simp add: unsigned_ucast_eq take_bit_nat_eq_self)
  then have n: "(ucast k :: u256) \<noteq> 0" using assms by (metis unat_eq_0)
  show ?thesis by (induction es) (simp_all add: credit_miner_def u256_mul_def u256_div_def n case_prod_unfold)
qed

lemma distribute_zero:
  obtains t' cs where "distribute_pplns T ord 0 (Fin 0) finder h hash now t = Some (t', cs)" "hash \<in> fb_hash ` set (found_blocks t')"
    "\<forall>a. get_or 0 (balances t') a = get_or 0 (balances t) a"
proof -
  have fee: "pool_fee 0 (Fin 0) = Some 0" by (simp add: pool_fee_def f64_of_int_def f64_round_def)
  show thesis
  proof (cases "list_ex (\<lambda>b. fb_hash b = hash) (found_blocks t)")
    case True
    then show thesis using that[of t "[]"] by (auto simp: distribute_pplns_def list_ex_iff)
  next
    case False
    then show thesis using that
      by (cases "(of_nat (length (recent_shares t)) :: u64) = 0")
        (auto simp: distribute_pplns_def fee Let_def zero_credits sat_sub_def sat_add_def credit_balance_def)
  qed
qed

definition submit_call :: "json \<Rightarrow> string \<Rightarrow> json" where
  "submit_call i data = JObj [(''id'', i), (''method'', JStr ''submitblock''), (''params'', JArr [JStr data])]"

text \<open>
  C34. Miner, pool and node together: a block handed to the template server as hexadecimal or base64 text reaches
  the node. If the node accepts it, the caller is told so and the block is among the found ones, but nobody is
  credited; if not, the pool is as before and the caller learns the reason.
\<close>

theorem gbt_block_settled:
  assumes "codec_ok (sv_prims S)" "http_codec_ok (sv_codec S)" "pr_prims R = sv_prims S"
    and "data = hc_hex (sv_codec S) (enc_block (sv_prims S) b) \<or> data = hc_b64 (sv_codec S) (enc_block (sv_prims S) b) \<and> \<not> hex_text data"
    and "e_submit e = submit_answer failed (reply_json (snd (run_server S E m now (submit_request (sv_prims S) (sv_codec S) raw b) nd)))"
    and "gbt_server R (sv_codec S) e why (Some (submit_call i data)) p = (p', reply)"
  shows "case snd (submit_block (sv_prims S) now b nd) of
      Ok _ \<Rightarrow> reply = Page 200 (rpc_success i JNull) \<and> block_hash b \<in> fb_hash ` set (found_blocks (p_tracker p')) \<and>
        (\<forall>a. get_or 0 (balances (p_tracker p')) a = get_or 0 (balances (p_tracker p)) a)
    | Err err \<Rightarrow> p' = p \<and> reply = Page 200 (rpc_error i (- 32001)
        (''submit failed: '' @ (if err = Panic then failed else ''block rejected: '' @ hc_error (sv_codec S) err)))"
proof -
  have dec: "decode_block_payload (sv_prims S) (sv_codec S) data = Ok b"
    using assms(4)
  proof
    assume d: "data = hc_hex (sv_codec S) (enc_block (sv_prims S) b)"
    have "hc_unhex (sv_codec S) data = Some (enc_block (sv_prims S) b)" "hex_text data" using assms(2) by (simp_all add: d http_codec_ok_def)
    then show ?thesis using assms(1) by (simp add: decode_block_payload_def)
  next
    assume d: "data = hc_b64 (sv_codec S) (enc_block (sv_prims S) b) \<and> \<not> hex_text data"
    then have "hc_unb64 (sv_codec S) data = Some (enc_block (sv_prims S) b)" using assms(2) by (simp add: http_codec_ok_def)
    moreover have "\<not> hex_text data" using d by blast
    ultimately show ?thesis using assms(1) by (simp add: decode_block_payload_def)
  qed
  have serve: "gbt_server R (sv_codec S) e why (Some (submit_call i data)) p =
      (case gbt_submit R e b p of
         Some (Ok p') \<Rightarrow> (p', Page 200 (rpc_success i JNull))
       | Some (Err msg) \<Rightarrow> (p, Page 200 (rpc_error i (- 32001) msg))
       | None \<Rightarrow> (p, HandlerPanic))"
    by (simp add: gbt_server_def submit_call_def parse_rpc_request_def json_index_def unwrap_or_def dec assms(3))
  note out = submission_outcome[OF assms(1,2), of E m now raw b nd failed, THEN conjunct2, folded assms(5)]
  show ?thesis
  proof (cases "snd (submit_block (sv_prims S) now b nd)")
    case (Ok x)
    obtain t' cs where "distribute_pplns (pr_text R) (pr_ord R) 0 (Fin 0) (pool_address (pr_config R)) (index (header b)) (block_hash b) (e_now e) (p_tracker p) = Some (t', cs)"
      "block_hash b \<in> fb_hash ` set (found_blocks t')" "\<forall>a. get_or 0 (balances t') a = get_or 0 (balances (p_tracker p)) a"
      by (rule distribute_zero[of "pr_text R" "pr_ord R" "pool_address (pr_config R)" "index (header b)" "block_hash b" "e_now e" "p_tracker p"])
    then show ?thesis using Ok out assms(6) unfolding serve by (auto simp: gbt_submit_def)
  next
    case (Err err)
    then show ?thesis using out assms(6) unfolding serve by (auto simp: gbt_submit_def)
  qed
qed

text \<open>A call of the template server is a step of the pool, so the pool's invariant holds after it.\<close>

lemma gbt_call_step:
  assumes "pool_reachable R m"
  shows "pool_reachable R (m\<lparr>m_pool := fst (gbt_server R X e why body (m_pool m))\<rparr>)"
  using assms pool_reachable.step[OF assms pool_step.gbt]
  by (auto simp: gbt_server_def Let_def split: option.splits result.splits)

section \<open>One wallet file for wallet, pool and node\<close>

text \<open>
  C35. The wallet that was imported on the command line is the one the others use: a pool that is not told otherwise
  starts with the wallet's address and key, so that it can spend what is paid to its address, and the node reads
  the same address as its miner's address. (The node shows that address on its status page and does nothing else
  with it: it makes no coinbase.)
\<close>

theorem imported_wallet_shared:
  assumes "ed25519_ok (pe_prims Z)" "hex_ok (pe_prims Z)" "bip39_ok B" "import_wallet B (pe_prims Z) (pe_cli Z) phrase fs = Some fs'"
    and "config_load (pe_cli Z) fs = Some (cfg, fs0)" "wallet_path_resolved (pe_cli Z) cfg \<noteq> default_path (pe_cli Z)"
    and "pe_vars Z ''POOL_ADDRESS'' = None" "pe_vars Z ''POOL_WALLET_SECRET'' = None" "\<forall>path. pe_open Z path \<noteq> None"
  shows "\<exists>w s p. from_mnemonic_str B (pe_prims Z) phrase = Some w \<and> node_miner_address (pe_cli Z) fs' = Some (w_address w, fs') \<and>
    pool_main Z fs' = Some (fs', s, wallet_key w, p) \<and> pool_address (ps_config s) = w_address w \<and>
    address_from_pubkey_hex (pe_prims Z) (public_hex (pe_prims Z) (wallet_key w)) = Ok (pool_address (ps_config s))"
proof -
  let ?P = "pe_prims Z" and ?E = "pe_cli Z"
  obtain w where w: "from_mnemonic_str B ?P phrase = Some w" "wallet_wf ?P w" "config_load ?E fs' = Some (cfg, fs')"
    "fs' (wallet_path_resolved ?E cfg) =
       Some (Some (show_wallet_json \<lparr>wj_secret_key = wallet_secret_hex ?P w, wj_address = w_address w, wj_mnemonic = w_mnemonic w\<rparr>))"
    by (rule imported_file[OF assms(3-6)])
  have wf: "read_wallet_file ?E fs' cfg = Some (JObj ([(''secret_key'', JStr (wallet_secret_hex ?P w)), (''address'', JStr (w_address w))] @
      (case w_mnemonic w of Some m \<Rightarrow> [(''mnemonic'', JStr m)] | None \<Rightarrow> [])))"
    by (simp add: read_wallet_file_def w(4) show_wallet_json_def)
  have kp: "load_pool_keypair ?P (pe_vars Z) ?E fs' cfg = Some (wallet_key w)"
    using assms(8) secret_key_back[OF assms(2) w(2)] by (simp add: load_pool_keypair_def wf json_index_def)
  have "load_pool_address ?E fs' cfg = Some (w_address w)" by (simp add: load_pool_address_def wf)
  then obtain s where s: "pool_from_env (pe_vars Z) ?E fs' cfg = Some s" "pool_address (ps_config s) = w_address w"
    using assms(7) by (simp add: pool_from_env_def or_else_def)
  obtain d where "pe_open Z (ps_payout_db_path s) = Some d" using assms(9) by blast
  then have "\<exists>p. pool_main Z fs' = Some (fs', s, wallet_key w, p)" by (simp add: pool_main_def w(3) s(1) kp)
  moreover have "node_miner_address ?E fs' = Some (w_address w, fs')" by (simp add: node_miner_address_def w(3) wf json_index_def)
  moreover have "address_from_pubkey_hex ?P (public_hex ?P (wallet_key w)) = Ok (w_address w)"
    using address_of_own_key[OF assms(1,2) wallet_key_wf(1)[OF w(2)]] wallet_key_wf(2)[OF w(2)] by simp
  ultimately show ?thesis using w(1) s(2) by auto
qed

section \<open>Examples\<close>

definition sample_start_env :: "stored pool_start_env" where
  "sample_start_env = \<lparr>pe_prims = ref_prims, pe_text = ref_text, pe_cli = sample_cli_env, pe_vars = Map.empty, pe_open = (\<lambda>_. Some []),
     pe_ord = (\<lambda>xs. xs), pe_saved_ord = (\<lambda>xs. xs)\<rparr>"

theorem imported_wallet_shared_witness:
  "\<exists>fs' s kp p. import_wallet sample_bip39 ref_prims sample_cli_env ''abandon'' Map.empty = Some fs' \<and>
    pool_main sample_start_env fs' = Some (fs', s, kp, p) \<and> signing_key kp = replicate 32 7"
proof -
  obtain fs' where i: "import_wallet sample_bip39 ref_prims sample_cli_env ''abandon'' Map.empty = Some fs'"
    and c: "config_load sample_cli_env Map.empty = Some (config_default sample_cli_env,
       [default_path sample_cli_env \<mapsto> Some (config_json (config_default sample_cli_env))])"
    and p: "wallet_path_resolved sample_cli_env (config_default sample_cli_env) \<noteq> default_path sample_cli_env"
    and b: "bip39_ok sample_bip39"
    and w: "from_mnemonic_str sample_bip39 ref_prims ''abandon'' = Some (wallet_of_secret ref_prims (Some ''abandon'') (replicate 32 7))"
    by (rule sample_import)
  have Z: "pe_prims sample_start_env = ref_prims" "pe_cli sample_start_env = sample_cli_env" "pe_vars sample_start_env x = None"
    "\<forall>path. pe_open sample_start_env path \<noteq> None" for x
    by (simp_all add: sample_start_env_def)
  from imported_wallet_shared[of sample_start_env, unfolded Z, OF ref_prims_ok(4,3) b i c p refl refl Z(4)] w i show ?thesis
    by (auto simp: wallet_of_secret_def wallet_key_def)
qed

theorem mempool_page_read_witness:
  "\<exists>v fees. mempool_page ref_prims ref_text ref_http fresh_node = Some (200, v) \<and>
    fetch_mempool ref_text (read_mempool ref_http v) = Some \<lparr>ms_txs = [], ms_total_fees = fees\<rparr>"
proof -
  have e: "pending (nd_mempool fresh_node) = []" by (simp add: fresh_node_def mempool_default_def)
  then obtain v where v: "mempool_page ref_prims ref_text ref_http fresh_node = Some (200, v)"
    by (simp add: mempool_page_def get_mempool_def)
  from mempool_page_read[OF ref_http_ok ref_text_ok v] v e show ?thesis by auto
qed

theorem gbt_block_settled_witness:
  "\<exists>p' reply. gbt_server sample_params ref_http
      (sample_env\<lparr>e_submit := submit_answer [] (reply_json (snd (run_server sample_server sample_status_env manager_new 2000
         (submit_request ref_prims ref_http (SText []) spend_block) sample_node)))\<rparr>) []
      (Some (submit_call (JInt 1) (hc_hex ref_http (enc_block ref_prims spend_block)))) sample_pool = (p', reply) \<and>
    reply = Page 200 (rpc_success (JInt 1) JNull) \<and> block_hash spend_block \<in> fb_hash ` set (found_blocks (p_tracker p'))"
proof -
  let ?e = "sample_env\<lparr>e_submit := submit_answer [] (reply_json (snd (run_server sample_server sample_status_env manager_new 2000
         (submit_request ref_prims ref_http (SText []) spend_block) sample_node)))\<rparr>"
  have S: "sv_prims sample_server = ref_prims" "sv_codec sample_server = ref_http" "pr_prims sample_params = ref_prims"
    by (simp_all add: sample_server_def sample_params_def)
  obtain bc' where "validate_and_insert_block ref_prims 2000 sample_chain spend_block = (bc', Ok ())" using spend_accepted by blast
  then have ok: "snd (submit_block ref_prims 2000 spend_block sample_node) = Ok (block_hash spend_block, index (header spend_block))"
    by (simp add: submit_block_def sample_node_def Let_def)
  obtain p' reply where r: "gbt_server sample_params ref_http ?e [] (Some (submit_call (JInt 1) (hc_hex ref_http (enc_block ref_prims spend_block)))) sample_pool = (p', reply)"
    by (cases "gbt_server sample_params ref_http ?e [] (Some (submit_call (JInt 1) (hc_hex ref_http (enc_block ref_prims spend_block)))) sample_pool")
  have "e_submit ?e = submit_answer [] (reply_json (snd (run_server sample_server sample_status_env manager_new 2000
         (submit_request ref_prims ref_http (SText []) spend_block) sample_node)))" by simp
  from gbt_block_settled[of sample_server sample_params, unfolded S, OF ref_prims_ok(1) ref_http_ok refl disjI1[OF refl] this r] r ok
  show ?thesis by auto
qed

end
