(* ===== verification/Start_Up.thy ===== *)
theory Start_Up
  imports Pool_Server
begin

text \<open>
  The start of a node, \<open>node/src/main.rs\<close>: where its settings and data are, the address of the own host under
  WSL, the steps of \<open>main\<close> up to the start of the services, and the addresses of the web servers; and the
  status server of \<open>miner/src/main.rs\<close>. What the operating system answers is the record \<open>node_env\<close>.
\<close>

section \<open>Paths\<close>

definition default_data_dir :: "cli_env \<Rightarrow> string" where
  "default_data_dir E =
     (if ce_windows E
      then path_join E (path_join E (unwrap_or (ce_home E) (ce_data_dir E)) ''Astram'') ''data''
      else path_join E (path_join E (ce_home E) ''.Astram'') ''data'')"

text \<open>\<open>str::replace\<close>: from left to right, without overlaps.\<close>

function replace_all :: "string \<Rightarrow> string \<Rightarrow> string \<Rightarrow> string" where
  "replace_all pat by_text s =
     (if s = [] then []
      else if pat \<noteq> [] \<and> starts_with pat s then by_text @ replace_all pat by_text (drop (length pat) s)
      else hd s # replace_all pat by_text (tl s))"
  by auto

termination by (relation "measure (\<lambda>(_, _, s). length s)") auto

declare replace_all.simps [simp del]

definition expand_path_value :: "(string \<Rightarrow> string) \<Rightarrow> string option \<Rightarrow> string \<Rightarrow> string" where
  "expand_path_value tilde profile v =
     (let expanded = tilde v
      in if contains ''%USERPROFILE%'' expanded
         then (case profile of Some p \<Rightarrow> replace_all ''%USERPROFILE%'' p expanded | None \<Rightarrow> expanded)
         else expanded)"

definition resolve_node_settings_path :: "cli_env \<Rightarrow> string option \<Rightarrow> (string \<Rightarrow> bool) \<Rightarrow> string" where
  "resolve_node_settings_path E exe_dir is_there =
     (let exe_path = map_option (\<lambda>d. path_join E d ''config/nodeSettings.conf'') exe_dir;
          cwd_path = ''config/nodeSettings.conf''
      in case exe_path of
           Some p \<Rightarrow> if is_there p then p else if is_there cwd_path then cwd_path else p
         | None \<Rightarrow> cwd_path)"

section \<open>The own host\<close>

definition split_whitespace :: "string \<Rightarrow> string list" where
  "split_whitespace s = filter (\<lambda>w. w \<noteq> []) (split_on (CHR '' '') (map (\<lambda>c. if is_space c then CHR '' '' else c) s))"

definition gateway_part :: "string \<Rightarrow> bool" where
  "gateway_part part \<longleftrightarrow> CHR ''.'' \<in> set part \<and> \<not> starts_with ''127.'' part \<and>
     (let segments = split_on (CHR ''.'') part in length segments = 4 \<and> list_all (\<lambda>s. from_str_radix 8 10 s \<noteq> None) segments)"

definition nameserver_ip :: "string \<Rightarrow> string option" where
  "nameserver_ip line =
     (if starts_with ''nameserver'' (trim line)
      then (case split_whitespace line of
              _ # ip # _ \<Rightarrow> if \<not> starts_with ''127.'' ip then Some ip else None
            | _ \<Rightarrow> None)
      else None)"

text \<open>\<open>route\<close> is the output of \<open>ip route\<close>, \<open>resolv\<close> the content of \<open>/etc/resolv.conf\<close>.\<close>

definition get_localhost_address :: "bool \<Rightarrow> string option \<Rightarrow> string option \<Rightarrow> string" where
  "get_localhost_address wsl route resolv =
     (if wsl
      then (case Option.bind route (\<lambda>r. find gateway_part (split_whitespace r)) of
              Some part \<Rightarrow> part
            | None \<Rightarrow>
                (case List.map_filter nameserver_ip (split_on (CHR 0x0A) (unwrap_or [] resolv)) of
                   ip # _ \<Rightarrow> ip
                 | [] \<Rightarrow> ''127.0.0.1''))
      else ''127.0.0.1'')"

section \<open>The start\<close>

record 'v node_env =
  ne_prims :: "'v prims"
  ne_cli :: cli_env
  ne_exe_dir :: "string option"
  ne_profile :: "string option"
  ne_exists :: "string \<Rightarrow> bool"
  ne_read :: "string \<Rightarrow> string option"
  ne_create_dir :: "string \<Rightarrow> bool"
  ne_lock :: "string \<Rightarrow> bool option"
  ne_db :: "string \<Rightarrow> 'v db option"

record 'v started =
  st_settings :: node_settings
  st_miner_address :: string
  st_node :: "'v node"
  st_manager :: peer_manager

datatype start_error = WalletMissing | DirectoryFailed | LockHeld | DatabaseFailed | ChainFailed chain_error

definition settings_of :: "'v node_env \<Rightarrow> node_settings" where
  "settings_of N =
     load_node_settings (expand_path_value (ce_expand (ne_cli N)) (ne_profile N)) (default_data_dir (ne_cli N))
       (ne_read N (resolve_node_settings_path (ne_cli N) (ne_exe_dir N) (ne_exists N)))"

text \<open>A lock file is absent, or there and can be removed or not; an old one is removed.\<close>

definition node_main :: "'v node_env \<Rightarrow> files \<Rightarrow> (start_error, files \<times> 'v started) result" where
  "node_main N fs =
     bind_res (ok_or WalletMissing (node_miner_address (ne_cli N) fs)) (\<lambda>(address, fs).
     let settings = settings_of N; dir = data_dir settings
     in if \<not> ne_create_dir N dir then Err DirectoryFailed
        else if ne_lock N (path_join (ne_cli N) dir ''LOCK'') = Some False then Err LockHeld
        else bind_res (ok_or DatabaseFailed (ne_db N dir)) (\<lambda>d.
          (case node_start (ne_prims N) d of
             Err e \<Rightarrow> Err (ChainFailed e)
           | Ok nd \<Rightarrow> Ok (fs, \<lparr>st_settings = settings, st_miner_address = address, st_node = nd,
               st_manager = manager_new\<lparr>pm_height := my_height nd, my_listening_port := p2p_port settings,
                 my_bind_addr := p2p_bind_addr settings\<rparr>\<rparr>))))"

text \<open>The height that is announced first: 0 while the chain is locked.\<close>

definition announced_height :: "'v prims \<Rightarrow> bool \<Rightarrow> 'v blockchain \<Rightarrow> u64" where
  "announced_height P contended bc = (if contended then 0 else tip_height P bc)"

text \<open>The seconds until a peer is connected, at most 15; \<open>seen i\<close> are the peers after \<open>i\<close> seconds.\<close>

definition peer_wait :: "(nat \<Rightarrow> nat) \<Rightarrow> nat" where
  "peer_wait seen = unwrap_or 15 (find (\<lambda>i. seen i > 0) [1..<16])"

section \<open>Addresses of the servers\<close>

text \<open>\<open>SocketAddr::from_str\<close>; the scope of an IPv6 address is not kept.\<close>

definition read_port :: "string \<Rightarrow> u16 option" where
  "read_port s =
     Option.bind (read_given_char (CHR '':'') s) (\<lambda>s.
     case read_number 10 (length s) True (2 ^ 16) s of Some (n, []) \<Rightarrow> Some (of_nat n) | _ \<Rightarrow> None)"

definition read_scope :: "string \<Rightarrow> string option" where
  "read_scope s =
     (case read_given_char (CHR ''%'') s of
        None \<Rightarrow> Some s
      | Some r \<Rightarrow> map_option snd (read_number 10 (length r) True (2 ^ 32) r))"

definition parse_socket_addr :: "string \<Rightarrow> (ip_addr \<times> u16) option" where
  "parse_socket_addr s =
     (case Option.bind (read_ipv4_addr s) (\<lambda>((a, b, c, d), r). map_option (Pair (V4 (of_nat a) (of_nat b) (of_nat c) (of_nat d))) (read_port r)) of
        Some x \<Rightarrow> Some x
      | None \<Rightarrow>
          Option.bind (read_given_char (CHR ''['') s) (\<lambda>s.
          Option.bind (read_ipv6_addr s) (\<lambda>(gs, s).
          Option.bind (read_scope s) (\<lambda>s.
          Option.bind (read_given_char (CHR '']'') s) (\<lambda>s. map_option (Pair (V6 (map of_nat gs))) (read_port s))))))"

definition to_socket_addr :: "string \<Rightarrow> u16 \<Rightarrow> ip_addr \<times> u16 \<Rightarrow> ip_addr \<times> u16" where
  "to_socket_addr addr port fallback = unwrap_or fallback (parse_socket_addr (addr @ '':'' @ show_nat (unat port)))"

text \<open>The address of the internal server, and of the public one if it is switched on.\<close>

definition server_addrs :: "node_settings \<Rightarrow> (ip_addr \<times> u16) \<times> (ip_addr \<times> u16) option" where
  "server_addrs s =
     (to_socket_addr (http_bind_addr s) (http_port s) (V4 127 0 0 1, 19533),
      if public_rpc_port s \<noteq> 0 then Some (to_socket_addr ''0.0.0.0'' (public_rpc_port s) (V4 0 0 0 0, 18533)) else None)"

section \<open>The status server of the miner\<close>

text \<open>The path of the first line; the page of the statistics counts the uptime up first.\<close>

definition request_path :: "string \<Rightarrow> string" where
  "request_path req =
     (case split_whitespace (hd (split_on (CHR 0x0A) req)) of _ # p # _ \<Rightarrow> p | _ \<Rightarrow> ''/'')"

definition status_json :: "miner_status \<Rightarrow> json" where
  "status_json s =
     JObj [(''mode'', JStr (mn_mode s)), (''hashrate_mhs'', jfloat (mn_hashrate_mhs s)), (''miner_address'', JStr (mn_miner_address s)),
       (''worker_name'', JStr (mn_worker_name s)), (''started_at'', JInt (mn_started_at s)), (''uptime_secs'', jword (mn_uptime_secs s)),
       (''pool_connected'', JBool (mn_pool_connected s)), (''pool_url'', JStr (mn_pool_url s)), (''pool_diff'', jword (mn_pool_diff s)),
       (''shares_accepted'', jword (mn_shares_accepted s)), (''shares_rejected'', jword (mn_shares_rejected s)),
       (''current_height'', jword (mn_current_height s)), (''blocks_found'', jword (mn_blocks_found s))]"

definition status_reply :: "int \<Rightarrow> string \<Rightarrow> miner_status \<Rightarrow> miner_status \<times> http_reply" where
  "status_reply now req s =
     (if request_path req = ''/stats'' then (refresh_uptime now s, Page 200 (status_json (refresh_uptime now s))) else (s, DashboardPage))"

section \<open>What the start gives\<close>

text \<open>An address that is found is never one of the loopback network.\<close>

lemma localhost_found: "get_localhost_address wsl route resolv = ''127.0.0.1'' \<or> \<not> starts_with ''127.'' (get_localhost_address wsl route resolv)"
proof -
  have ns: "\<not> starts_with ''127.'' ip" if "List.map_filter nameserver_ip ls = ip # ips" for ls ip ips
  proof -
    have "ip \<in> set (List.map_filter nameserver_ip ls)" by (simp add: that)
    then show ?thesis by (auto simp: List.map_filter_def nameserver_ip_def split: list.splits if_splits)
  qed
  show ?thesis
    by (auto simp: get_localhost_address_def gateway_part_def bind_eq_Some_conv find_Some_iff split: option.splits list.splits dest: ns)
qed

lemma read_port_show: "read_port (CHR '':'' # show_nat (unat p)) = Some (p :: u16)"
proof -
  let ?p = "\<lambda>c. case hex_val c of Some d \<Rightarrow> d < 10 | None \<Rightarrow> False"
  have "\<forall>c\<in>set (show_nat n). ?p c" for n using show_nat_digits hex_val_dec_digit by fastforce
  then have t: "takeWhile ?p (show_nat (unat p)) = show_nat (unat p)" by (simp add: takeWhile_eq_all_conv)
  have "unat p < 2 ^ 16" using unsigned_less[of p] by simp
  then have "read_number 10 (length (show_nat (unat p))) True (2 ^ 16) (show_nat (unat p)) = Some (unat p, [])"
    unfolding read_number_def Let_def t using read_radix_show_nat[of "unat p"] by simp
  then show ?thesis by (simp add: read_port_def read_given_char_def)
qed

text \<open>A server that is bound to an IPv4 address listens there, at the port of the settings.\<close>

lemma server_addr_v4: "to_socket_addr (show_ip (V4 a b c d)) port fallback = (V4 a b c d, port)"
proof -
  let ?r = "CHR '':'' # show_nat (unat port)"
  have dot: "hex_val (CHR ''.'') = None" "hex_val (CHR '':'') = None" by (simp_all add: hex_val_def less_eq_char_def)
  have "read_ipv4_addr (show_v4 a b c d @ ?r) = Some ((unat a, unat b, unat c, unat d), ?r)"
    using dot read_octet_show(1)[of "''.'' @ show_nat (unat b) @ ''.'' @ show_nat (unat c) @ ''.'' @ show_nat (unat d) @ ?r" a]
      read_octet_show(2)[of "''.'' @ show_nat (unat c) @ ''.'' @ show_nat (unat d) @ ?r" 1 b]
      read_octet_show(2)[of "''.'' @ show_nat (unat d) @ ?r" 2 c] read_octet_show(2)[of ?r 3 d]
    by (simp add: read_ipv4_addr_def show_v4_def)
  then show ?thesis by (simp add: to_socket_addr_def parse_socket_addr_def read_port_show unwrap_or_def)
qed

lemma node_start_empty: "\<exists>nd. node_start P [] = Ok nd \<and> my_height nd = tip_height P (nd_bc nd)"
  by (simp add: node_start_def blockchain_new_def db_get_def count_blocks_def db_iterator_def tip_height_def)

text \<open>
  The first start of a node with an imported wallet: unless a directory cannot be made, an old lock cannot be
  removed or the database cannot be opened, the node is running in its initial state, shows the wallet's address
  as its miner's, and its peer manager knows height, port and address.
\<close>

theorem first_start:
  assumes "bip39_ok B" "import_wallet B (ne_prims N) (ne_cli N) phrase fs = Some fs'" "config_load (ne_cli N) fs = Some (cfg, fs0)"
    and "wallet_path_resolved (ne_cli N) cfg \<noteq> default_path (ne_cli N)" "ne_create_dir N (data_dir (settings_of N))"
    and "ne_lock N (path_join (ne_cli N) (data_dir (settings_of N)) ''LOCK'') \<noteq> Some False" "ne_db N (data_dir (settings_of N)) = Some []"
  shows "\<exists>w st. from_mnemonic_str B (ne_prims N) phrase = Some w \<and> node_main N fs' = Ok (fs', st) \<and> st_miner_address st = w_address w \<and>
    node_reachable (ne_prims N) relay (st_node st) \<and> pm_height (st_manager st) = tip_height (ne_prims N) (nd_bc (st_node st)) \<and>
    my_listening_port (st_manager st) = p2p_port (settings_of N)"
proof -
  obtain w where w: "from_mnemonic_str B (ne_prims N) phrase = Some w" "wallet_wf (ne_prims N) w" "config_load (ne_cli N) fs' = Some (cfg, fs')"
    "fs' (wallet_path_resolved (ne_cli N) cfg) =
       Some (Some (show_wallet_json \<lparr>wj_secret_key = wallet_secret_hex (ne_prims N) w, wj_address = w_address w, wj_mnemonic = w_mnemonic w\<rparr>))"
    by (rule imported_file[OF assms(1-4)])
  have a: "node_miner_address (ne_cli N) fs' = Some (w_address w, fs')"
    by (simp add: node_miner_address_def w(3,4) read_wallet_file_def show_wallet_json_def json_index_def)
  obtain nd where nd: "node_start (ne_prims N) [] = Ok nd" "my_height nd = tip_height (ne_prims N) (nd_bc nd)" using node_start_empty by blast
  show ?thesis using w(1) a nd assms(5-7) node_reachable.node_starts[OF nd(1)] by (auto simp: node_main_def Let_def ok_or_def)
qed

section \<open>Examples\<close>

definition sample_node_env :: "stored node_env" where
  "sample_node_env = \<lparr>ne_prims = ref_prims, ne_cli = sample_cli_env, ne_exe_dir = None, ne_profile = None, ne_exists = (\<lambda>_. False),
     ne_read = (\<lambda>_. None), ne_create_dir = (\<lambda>_. True), ne_lock = (\<lambda>_. None), ne_db = (\<lambda>_. Some [])\<rparr>"

theorem first_start_witness:
  "\<exists>fs' st. import_wallet sample_bip39 ref_prims sample_cli_env ''abandon'' Map.empty = Some fs' \<and>
    node_main sample_node_env fs' = Ok (fs', st) \<and> node_reachable ref_prims False (st_node st)"
proof -
  obtain fs' where i: "import_wallet sample_bip39 ref_prims sample_cli_env ''abandon'' Map.empty = Some fs'"
    and c: "config_load sample_cli_env Map.empty = Some (config_default sample_cli_env,
       [default_path sample_cli_env \<mapsto> Some (config_json (config_default sample_cli_env))])"
    and p: "wallet_path_resolved sample_cli_env (config_default sample_cli_env) \<noteq> default_path sample_cli_env"
    and b: "bip39_ok sample_bip39"
    by (rule sample_import)
  have N: "ne_prims sample_node_env = ref_prims" "ne_cli sample_node_env = sample_cli_env" "ne_create_dir sample_node_env x"
    "ne_lock sample_node_env x \<noteq> Some False" "ne_db sample_node_env x = Some []" for x
    by (simp_all add: sample_node_env_def)
  from first_start[of _ sample_node_env, unfolded N, OF b i c p, of False] i N(3-5) show ?thesis by blast
qed

end
